(* ===== verification/Prelude.thy ===== *)
theory Prelude
  imports Main "HOL-Library.Word"
begin

text \<open>
  Vocabulary shared by every component: the fixed width integers of the C++ code, the faults a
  memory access of the code can have, and the list lemmas about buffers the components share.

  A C++ buffer that is filled from its start is modelled by the list of the bytes written so far
  together with its capacity, so that a write at or after the capacity is visible as a
  \<open>BufferOverflow\<close>. A buffer that is read is the list of its bytes, and a read behind its end
  is an \<open>OverRead\<close>.
\<close>

unbundle bit_operations_syntax

type_synonym u8 = "8 word"
type_synonym u16 = "16 word"
type_synonym u32 = "32 word"
type_synonym bytes = "u8 list"

datatype fault =
    BufferOverflow  \<comment> \<open>write behind the end of an allocated buffer\<close>
  | OverRead        \<comment> \<open>read behind the end of a buffer\<close>
  | OutOfRange      \<comment> \<open>std::out_of_range thrown by a checked access (vector::at)\<close>
  | Uninitialised   \<comment> \<open>use of memory that was allocated but never written\<close>
  | NullPointer     \<comment> \<open>dereference of a null pointer\<close>
  | UseAfterFree    \<comment> \<open>access to a buffer that was deleted\<close>
  | NegativeSize    \<comment> \<open>a size or an offset that is negative where it is used as an int\<close>
  | DivisionByZero
  | SignedOverflow  \<comment> \<open>overflow of a signed integer\<close>

named_theorems buffer_simps "facts about bytes written into bounded buffers"

subsection \<open>Results\<close>

fun bindR :: "'e + 'a \<Rightarrow> ('a \<Rightarrow> 'e + 'b) \<Rightarrow> 'e + 'b" where
  "bindR (Inl e) f = Inl e"
| "bindR (Inr a) f = f a"

lemma bindR_Inr_iff: "bindR r f = Inr b \<longleftrightarrow> (\<exists>a. r = Inr a \<and> f a = Inr b)"
  by (cases r) auto

lemma bindR_Inl_iff: "bindR r f = Inl e \<longleftrightarrow> r = Inl e \<or> (\<exists>a. r = Inr a \<and> f a = Inl e)"
  by (cases r) auto

lemma bindR_cong [fundef_cong]:
  "r = r' \<Longrightarrow> (\<And>a. r' = Inr a \<Longrightarrow> f a = g a) \<Longrightarrow> bindR r f = bindR r' g"
  by (cases r') auto

lemma bindR_assoc: "bindR (bindR r f) g = bindR r (\<lambda>a. bindR (f a) g)"
  by (cases r) auto

lemma bindR_if: "bindR (if b then r else r') f = (if b then bindR r f else bindR r' f)"
  by simp

lemma bindR_Inr_right [simp]: "bindR r Inr = r"
  by (cases r) auto

subsection \<open>Appending to a bounded buffer\<close>

definition put :: "nat \<Rightarrow> bytes \<Rightarrow> u8 \<Rightarrow> fault + bytes" where
  "put cap out b = (if length out < cap then Inr (out @ [b]) else Inl BufferOverflow)"

definition put2 :: "nat \<Rightarrow> bytes \<Rightarrow> u8 \<Rightarrow> u8 \<Rightarrow> fault + bytes" where
  "put2 cap out a b = bindR (put cap out a) (\<lambda>out'. put cap out' b)"

lemma put_ok [buffer_simps]: "length out < cap \<Longrightarrow> put cap out b = Inr (out @ [b])"
  by (simp add: put_def)

lemma put2_ok [buffer_simps]: "length out + 2 \<le> cap \<Longrightarrow> put2 cap out a b = Inr (out @ [a, b])"
  by (simp add: put2_def put_def)

subsection \<open>Characters\<close>

text \<open>\<open>toupper\<close> and \<open>tolower\<close> in the C locale.\<close>

definition toupper :: "char \<Rightarrow> char" where
  "toupper c = (if 97 \<le> (of_char c :: nat) \<and> (of_char c :: nat) \<le> 122
     then char_of ((of_char c :: nat) - 32) else c)"

definition tolower :: "char \<Rightarrow> char" where
  "tolower c = (if 65 \<le> (of_char c :: nat) \<and> (of_char c :: nat) \<le> 90
     then char_of ((of_char c :: nat) + 32) else c)"

lemma toupper_upper:
  assumes "65 \<le> (of_char c :: nat)" "(of_char c :: nat) \<le> 90"
  shows "toupper c = c" "toupper (tolower c) = c"
  using assms by (simp_all add: toupper_def tolower_def)

subsection \<open>Numbers in decimal\<close>

text \<open>\<open>%d\<close> and \<open>std::to_string\<close>.\<close>

definition digit :: "nat \<Rightarrow> char" where
  "digit d = char_of (48 + d)"

fun show_nat :: "nat \<Rightarrow> string" where
  "show_nat n = (if n < 10 then [digit n] else show_nat (n div 10) @ [digit (n mod 10)])"

declare show_nat.simps [simp del]

definition show_int :: "int \<Rightarrow> string" where
  "show_int i = (if i < 0 then CHR 0x2D # show_nat (nat (- i)) else show_nat (nat i))"

lemma of_char_digit: "d < 10 \<Longrightarrow> (of_char (digit d) :: nat) = 48 + d"
  by (simp add: digit_def)

lemma digit_inject: "c < 10 \<Longrightarrow> d < 10 \<Longrightarrow> digit c = digit d \<longleftrightarrow> c = d"
  by (metis add_left_cancel of_char_digit)

lemma show_nat_digits:
  "c \<in> set (show_nat n) \<Longrightarrow> 48 \<le> (of_char c :: nat) \<and> (of_char c :: nat) < 58"
  by (induction n rule: show_nat.induct)
    (subst (asm) show_nat.simps, auto simp: of_char_digit split: if_splits)

lemma show_nat_nonempty [simp]: "show_nat n \<noteq> []" "[] \<noteq> show_nat n"
  by (subst show_nat.simps, simp)+

lemma show_nat_inject: "show_nat m = show_nat n \<longleftrightarrow> m = n"
proof
  assume "show_nat m = show_nat n"
  then show "m = n"
  proof (induction m arbitrary: n rule: show_nat.induct)
    case (1 m)
    show ?case
    proof (cases "m < 10")
      case True
      with 1(2) have "n < 10"
        by (subst (asm) (1 2) show_nat.simps) (auto split: if_splits)
      with True 1(2) show ?thesis
        by (subst (asm) (1 2) show_nat.simps) (simp add: digit_inject)
    next
      case False
      with 1(2) have "\<not> n < 10"
        by (subst (asm) (1 2) show_nat.simps) (auto split: if_splits)
      with False 1(2) have "show_nat (m div 10) = show_nat (n div 10)" "m mod 10 = n mod 10"
        by (subst (asm) (1 2) show_nat.simps, simp add: digit_inject)+
      with 1(1) False show ?thesis by (metis div_mult_mod_eq)
    qed
  qed
qed simp

lemma show_nat_unique_split:
  assumes "show_nat m @ c # xs = show_nat n @ c # ys" "(of_char c :: nat) < 48 \<or> 58 \<le> (of_char c :: nat)"
  shows "m = n \<and> xs = ys"
proof -
  have "c \<notin> set (show_nat k)" for k using show_nat_digits [of c k] assms(2) by auto
  then have "takeWhile (\<lambda>d. d \<noteq> c) (show_nat k @ c # zs) = show_nat k"
    "dropWhile (\<lambda>d. d \<noteq> c) (show_nat k @ c # zs) = c # zs" for k zs
    by (auto simp: takeWhile_append dropWhile_append)
  then have "show_nat m = show_nat n" "c # xs = c # ys" using assms(1) by metis+
  then show ?thesis by (simp add: show_nat_inject)
qed

text \<open>\<open>std::vector::operator[]\<close> and C arrays: no check, so a read behind the end is a fault.\<close>

definition elem :: "'a list \<Rightarrow> nat \<Rightarrow> fault + 'a" where
  "elem xs i = (if i < length xs then Inr (xs ! i) else Inl OverRead)"

lemma elem_ok [buffer_simps]: "i < length xs \<Longrightarrow> elem xs i = Inr (xs ! i)"
  by (simp add: elem_def)

subsection \<open>Strings\<close>

text \<open>\<open>std::string::find\<close> from the start.\<close>

fun find_sub :: "string \<Rightarrow> string \<Rightarrow> nat option" where
  "find_sub p [] = (if p = [] then Some 0 else None)"
| "find_sub p (c # cs) =
     (if take (length p) (c # cs) = p then Some 0 else map_option Suc (find_sub p cs))"

text \<open>\<open>sprintf\<close> and \<open>strcpy\<close> into a buffer of \<open>cap\<close> bytes: the final 0 needs one more.\<close>

definition sprintf_to :: "nat \<Rightarrow> string \<Rightarrow> fault + string" where
  "sprintf_to cap s = (if length s < cap then Inr s else Inl BufferOverflow)"

lemma sprintf_to_ok [buffer_simps]: "length s < cap \<Longrightarrow> sprintf_to cap s = Inr s"
  by (simp add: sprintf_to_def)


subsection \<open>Numbers read from strings\<close>

text \<open>An int64 given to an int.\<close>

definition to_int32 :: "int \<Rightarrow> int" where "to_int32 = signed_take_bit 31"

lemma to_int32_self: "- (2 ^ 31) \<le> i \<Longrightarrow> i < 2 ^ 31 \<Longrightarrow> to_int32 i = i"
  by (simp add: to_int32_def signed_take_bit_int_eq_self)

text \<open>
  \<open>sscanf\<close> with \<open>%d\<close>: space, a sign, digits; what follows is not looked at. A number outside of
  \<open>int\<close> is what glibc makes of it: cut to a \<open>long\<close>, then to its low 32 bits.
\<close>

definition is_space :: "char \<Rightarrow> bool" where
  "is_space c \<longleftrightarrow> c = CHR '' '' \<or> 9 \<le> (of_char c :: nat) \<and> (of_char c :: nat) \<le> 13"

definition is_digit :: "char \<Rightarrow> bool" where
  "is_digit c \<longleftrightarrow> 48 \<le> (of_char c :: nat) \<and> (of_char c :: nat) \<le> 57"

definition digits_value :: "string \<Rightarrow> int" where
  "digits_value ds = fold (\<lambda>c n. 10 * n + (of_char c - 48)) ds 0"

lemma digits_value_append: "digits_value (ds @ [d]) = 10 * digits_value ds + (of_char d - 48)"
  by (simp add: digits_value_def)

lemma of_char_digit_int: "d < 10 \<Longrightarrow> (of_char (digit d) :: int) = 48 + int d"
  using of_char_digit [of d] of_nat_of_char [of "digit d", where 'a = int] by simp

lemma digits_value_show: "digits_value (show_nat n) = int n"
proof (induction n rule: show_nat.induct)
  case (1 n)
  show ?case
  proof (cases "n < 10")
    case True
    then show ?thesis by (subst show_nat.simps) (simp add: digits_value_def of_char_digit_int)
  next
    case False
    then have "digits_value (show_nat n) = 10 * int (n div 10) + int (n mod 10)"
      using 1 by (subst show_nat.simps) (simp add: digits_value_append of_char_digit_int)
    also have "\<dots> = int n" by presburger
    finally show ?thesis .
  qed
qed

definition scan_int :: "string \<Rightarrow> int option" where
  "scan_int s =
     (let s = dropWhile is_space s;
          neg = (s \<noteq> [] \<and> hd s = CHR ''-'');
          s = (if s \<noteq> [] \<and> (hd s = CHR ''-'' \<or> hd s = CHR ''+'') then tl s else s);
          ds = takeWhile is_digit s
      in if ds = [] then None
         else Some (to_int32 (max (- (2 ^ 63)) (min (2 ^ 63 - 1)
                (if neg then - digits_value ds else digits_value ds)))))"

text \<open>\<open>atoi\<close>: what \<open>strtol\<close> gives, cut to an \<open>int\<close>; 0 where there is no number.\<close>

definition atoi :: "string \<Rightarrow> int" where
  "atoi s = (case scan_int s of None \<Rightarrow> 0 | Some i \<Rightarrow> i)"

end
