(* ===== verification/PackBits.thy ===== *)
theory PackBits
  imports Prelude
begin

text \<open>
  The PackBits codec of lib/libpkb: \<open>pkbEncoder::encode\<close> and \<open>pkbDecoder::decode\<close>.
  Input pointers are the remaining bytes, the output buffer is its written prefix and its
  capacity. An allocation is taken to succeed (a failing \<open>new\<close> throws and never returns NULL).
\<close>

subsection \<open>The encoder\<close>

datatype compression_state = BASE | LITERAL | RUN

record pkb_state =
  pkbBuffer :: bytes
  state :: compression_state
  literalCount :: nat
  lastLiteralPos :: nat

text \<open>
  The search for identical bytes never takes the last byte of the input
  (\<open>inputpos < inSize - 1\<close>): at least one byte stays behind.
\<close>

fun find_identical :: "u8 \<Rightarrow> nat \<Rightarrow> bytes \<Rightarrow> nat \<times> bytes" where
  "find_identical currentChar count (x # y # zs) =
     (if currentChar = x then find_identical currentChar (count + 1) (y # zs)
      else (count, x # y # zs))"
| "find_identical currentChar count zs = (count, zs)"

function long_runs :: "nat \<Rightarrow> u8 \<Rightarrow> nat \<Rightarrow> bytes \<Rightarrow> fault + (nat \<times> bytes)" where
  "long_runs cap currentChar count out =
     (if count > 128 then
        bindR (put2 cap out (word_of_int (- 127)) currentChar)
          (\<lambda>out'. long_runs cap currentChar (count - 128) out')
      else Inr (count, out))"
  by pat_completeness auto
termination by (relation "measure (\<lambda>(cap, c, n, out). n)") auto

declare long_runs.simps [simp del]

text \<open>The two writes of a run header \<open>(int8_t) (-(count-1))\<close> and its byte.\<close>

definition run_packet :: "nat \<Rightarrow> u8 \<Rightarrow> nat \<Rightarrow> bytes \<Rightarrow> fault + bytes" where
  "run_packet cap currentChar count out =
     put2 cap out (word_of_int (- (int count - 1))) currentChar"

text \<open>A new literal: remember where its header is, write header 0 and the byte.\<close>

definition new_literal :: "nat \<Rightarrow> u8 \<Rightarrow> pkb_state \<Rightarrow> fault + pkb_state" where
  "new_literal cap currentChar s =
     bindR (put2 cap (pkbBuffer s) (word_of_int (1 - 1)) currentChar)
       (\<lambda>out. Inr (s\<lparr>pkbBuffer := out, state := LITERAL, literalCount := 1,
                     lastLiteralPos := length (pkbBuffer s)\<rparr>))"

text \<open>The switch on the state, one branch per case label.\<close>

definition step_base :: "nat \<Rightarrow> u8 \<Rightarrow> nat \<Rightarrow> pkb_state \<Rightarrow> fault + pkb_state" where
  "step_base cap c count s =
     bindR (if count > 1 then
              bindR (long_runs cap c count (pkbBuffer s)) (\<lambda>(n, out).
                if n > 1 then
                  bindR (run_packet cap c n out)
                    (\<lambda>out'. Inr (0, s\<lparr>pkbBuffer := out', state := RUN\<rparr>))
                else Inr (n, s\<lparr>pkbBuffer := out, state := RUN\<rparr>))
            else Inr (count, s))
       (\<lambda>(n, s'). if n = 1 then new_literal cap c s' else Inr s')"

definition step_literal :: "nat \<Rightarrow> u8 \<Rightarrow> nat \<Rightarrow> pkb_state \<Rightarrow> fault + pkb_state" where
  "step_literal cap c count s =
     (if count > 1 then
        bindR (long_runs cap c count (pkbBuffer s)) (\<lambda>(n, out).
          let s' = s\<lparr>pkbBuffer := out, state := RUN, literalCount := 0\<rparr> in
          if n > 1 then
            bindR (run_packet cap c n out) (\<lambda>out'. Inr (s'\<lparr>pkbBuffer := out'\<rparr>))
          else if n = 1 then new_literal cap c s'
          else Inr s')
      else
        let lc = literalCount s + 1 in
        bindR (if lc > 128
               then bindR (put cap (pkbBuffer s) 0)
                      (\<lambda>out. Inr (s\<lparr>pkbBuffer := out, lastLiteralPos := length (pkbBuffer s),
                                    literalCount := lc - 128\<rparr>))
               else Inr (s\<lparr>literalCount := lc\<rparr>))
          (\<lambda>s'. bindR (put cap ((pkbBuffer s')[lastLiteralPos s' :=
                                   word_of_int (int (literalCount s') - 1)]) c)
                  (\<lambda>out. Inr (s'\<lparr>pkbBuffer := out\<rparr>))))"

definition step_run :: "nat \<Rightarrow> u8 \<Rightarrow> nat \<Rightarrow> pkb_state \<Rightarrow> fault + pkb_state" where
  "step_run cap c count s =
     bindR (if count > 1 then long_runs cap c count (pkbBuffer s) else Inr (count, pkbBuffer s))
       (\<lambda>(n, out).
          let s' = s\<lparr>pkbBuffer := out\<rparr> in
          if n > 1 then bindR (run_packet cap c n out) (\<lambda>out'. Inr (s'\<lparr>pkbBuffer := out'\<rparr>))
          else if n = 1 then new_literal cap c s'
          else Inr s')"

definition pkb_step :: "nat \<Rightarrow> u8 \<Rightarrow> nat \<Rightarrow> pkb_state \<Rightarrow> fault + pkb_state" where
  "pkb_step cap c count s =
     (case state s of
        BASE \<Rightarrow> step_base cap c count s
      | LITERAL \<Rightarrow> step_literal cap c count s
      | RUN \<Rightarrow> step_run cap c count s)"

lemma find_identical_shorter [simp]:
  "length (snd (find_identical c n xs)) \<le> length xs"
  by (induction c n xs rule: find_identical.induct) auto

function pkb_loop :: "nat \<Rightarrow> bytes \<Rightarrow> pkb_state \<Rightarrow> fault + pkb_state" where
  "pkb_loop cap [] s = Inr s"
| "pkb_loop cap (x # xs) s =
     bindR (pkb_step cap x (fst (find_identical x 1 xs)) s)
       (pkb_loop cap (snd (find_identical x 1 xs)))"
  by pat_completeness auto
termination by (relation "measure (\<lambda>(cap, xs, s). length xs)") (auto simp: le_imp_less_Suc)

definition pkb_encode :: "bytes \<Rightarrow> fault + bytes" where
  "pkb_encode inp =
     bindR (pkb_loop (length inp + length inp) inp
              \<lparr>pkbBuffer = [], state = BASE, literalCount = 0, lastLiteralPos = 0\<rparr>)
       (\<lambda>s. Inr (pkbBuffer s))"

subsection \<open>The decoder\<close>

text \<open>
  The buffer is doubled at most once before a packet is copied. \<open>inPos < inSize - 1\<close> is
  computed on unsigned values: an empty input makes the bound wrap around, and the first header
  is read behind the end.
\<close>

definition enlarge :: "nat \<Rightarrow> nat \<Rightarrow> nat \<Rightarrow> nat" where
  "enlarge outPos count outSize = (if outPos + count > outSize then outSize * 2 else outSize)"

function pkb_decode_loop :: "bytes \<Rightarrow> bytes \<Rightarrow> nat \<Rightarrow> fault + bytes" where
  "pkb_decode_loop (h # x # rest) out outSize =
     (if sint h \<le> 0 then
        let count = nat (1 - sint h); outSize' = enlarge (length out) count outSize in
        if length out + count > outSize' then Inl BufferOverflow
        else pkb_decode_loop rest (out @ replicate count x) outSize'
      else
        let count = nat (1 + sint h); outSize' = enlarge (length out) count outSize in
        if length out + count > outSize' then Inl BufferOverflow
        else if count > length (x # rest) then Inl OverRead
        else pkb_decode_loop (drop count (x # rest)) (out @ take count (x # rest)) outSize')"
| "pkb_decode_loop [] out outSize = Inr out"
| "pkb_decode_loop [h] out outSize = Inr out"
  by pat_completeness auto
termination by (relation "measure (\<lambda>(xs, out, n). length xs)") auto

declare pkb_decode_loop.simps(1) [simp del]

definition pkb_decode :: "bytes \<Rightarrow> fault + bytes" where
  "pkb_decode inp =
     (if inp = [] then Inl OverRead else pkb_decode_loop inp [] (length inp * 2))"

subsection \<open>Packets: what the encoded stream means\<close>

datatype packet = Run nat u8 | Lit bytes

fun packet_bytes :: "packet \<Rightarrow> bytes" where
  "packet_bytes (Run n c) = [word_of_int (- (int n - 1)), c]"
| "packet_bytes (Lit bs) = word_of_int (int (length bs) - 1) # bs"

fun unpack :: "packet \<Rightarrow> bytes" where
  "unpack (Run n c) = replicate n c"
| "unpack (Lit bs) = bs"

fun wf_packet :: "packet \<Rightarrow> bool" where
  "wf_packet (Run n c) \<longleftrightarrow> 2 \<le> n \<and> n \<le> 128"
| "wf_packet (Lit bs) \<longleftrightarrow> 1 \<le> length bs \<and> length bs \<le> 128"

definition stream :: "packet list \<Rightarrow> bytes" where
  "stream ps = concat (map packet_bytes ps)"

definition expand :: "packet list \<Rightarrow> bytes" where
  "expand ps = concat (map unpack ps)"

lemma stream_simps [simp]:
  "stream [] = []" "stream (p # ps) = packet_bytes p @ stream ps"
  "stream (ps @ qs) = stream ps @ stream qs"
  by (simp_all add: stream_def)

lemma expand_simps [simp]:
  "expand [] = []" "expand (p # ps) = unpack p @ expand ps"
  "expand (ps @ qs) = expand ps @ expand qs"
  by (simp_all add: expand_def)

lemma packet_bytes_le: "wf_packet p \<Longrightarrow> length (packet_bytes p) \<le> 2 * length (unpack p)"
  by (cases p) auto

lemma stream_le: "list_all wf_packet ps \<Longrightarrow> length (stream ps) \<le> 2 * length (expand ps)"
  by (induction ps) (auto dest: packet_bytes_le)

lemma sint_small: "- 128 \<le> k \<Longrightarrow> k < 128 \<Longrightarrow> sint (word_of_int k :: u8) = k"
  by (simp add: signed_of_int signed_take_bit_int_eq_self)

lemma stream_Lit_cases: "1 \<le> length bs \<Longrightarrow> \<exists>x xs. bs = x # xs"
  by (cases bs) auto

text \<open>The decoder undoes a packet stream as soon as its buffer holds one packet.\<close>

lemma decode_stream:
  assumes "list_all wf_packet ps" "128 \<le> outSize" "length out \<le> outSize"
  shows "pkb_decode_loop (stream ps) out outSize = Inr (out @ expand ps)"
  using assms
proof (induction ps arbitrary: out outSize)
  case Nil
  then show ?case by simp
next
  case (Cons p ps)
  show ?case
  proof (cases p)
    case (Run n c)
    with Cons.prems have n: "2 \<le> n" "n \<le> 128" by auto
    let ?o = "enlarge (length out) n outSize"
    have o: "length out + n \<le> ?o" "128 \<le> ?o"
      using Cons.prems n by (auto simp: enlarge_def)
    have h: "sint (word_of_int (- (int n - 1)) :: u8) = 1 - int n"
      using n by (subst sint_small) auto
    have "pkb_decode_loop (stream ps) (out @ replicate n c) ?o
        = Inr ((out @ replicate n c) @ expand ps)"
      using Cons.prems o by (intro Cons.IH) auto
    with n o h show ?thesis
      by (simp add: Run pkb_decode_loop.simps(1) Let_def)
  next
    case (Lit bs)
    with Cons.prems have n: "1 \<le> length bs" "length bs \<le> 128" by auto
    then obtain x xs where bs: "bs = x # xs" using stream_Lit_cases by blast
    let ?n = "length bs"
    let ?o = "enlarge (length out) ?n outSize"
    have o: "length out + ?n \<le> ?o" "128 \<le> ?o"
      using Cons.prems n by (auto simp: enlarge_def)
    have h: "sint (word_of_int (int ?n - 1) :: u8) = int ?n - 1"
      using n by (subst sint_small) auto
    have IH: "pkb_decode_loop (stream ps) (out @ bs) ?o = Inr ((out @ bs) @ expand ps)"
      using Cons.prems o by (intro Cons.IH) auto
    show ?thesis
    proof (cases "xs = []")
      case True
      with IH o h show ?thesis
        by (simp add: Lit bs pkb_decode_loop.simps(1) Let_def)
    next
      case False
      then have "\<not> int ?n - 1 \<le> 0" by (simp add: bs)
      moreover have "nat (1 + (int ?n - 1)) = ?n" by simp
      ultimately have "pkb_decode_loop (word_of_int (int ?n - 1) # x # (xs @ stream ps)) out outSize
          = pkb_decode_loop (stream ps) (out @ bs) ?o"
        using o h by (simp add: pkb_decode_loop.simps(1) Let_def bs)
      with IH show ?thesis by (simp add: Lit bs)
    qed
  qed
qed

subsection \<open>The encoder writes such a stream\<close>

lemma find_identical_split:
  "find_identical c n xs = (m, ys) \<Longrightarrow> n \<le> m \<and> replicate (m - n) c @ ys = xs"
proof (induction c n xs arbitrary: m ys rule: find_identical.induct)
  case (1 c n x y zs)
  show ?case
  proof (cases "c = x")
    case True
    with 1 have "n + 1 \<le> m \<and> replicate (m - (n + 1)) c @ ys = y # zs" by simp
    moreover from this have "m - n = Suc (m - (n + 1))" by arith
    ultimately show ?thesis using True by simp
  qed (use 1 in simp)
qed auto

lemma long_runs_spec:
  assumes "1 \<le> n" "length out + 2 * ((n - 1) div 128) \<le> cap"
  shows "\<exists>k m. long_runs cap c n out = Inr (m, out @ stream (replicate k (Run 128 c)))
           \<and> n = 128 * k + m \<and> 1 \<le> m \<and> m \<le> 128"
  using assms
proof (induction cap c n out rule: long_runs.induct)
  case (1 cap c n out)
  show ?case
  proof (cases "n > 128")
    case False
    with 1 show ?thesis
      by (intro exI [where x = 0] exI [where x = n]) (simp add: long_runs.simps)
  next
    case True
    define out' where "out' = out @ [word_of_int (- 127), c]"
    have d: "(n - 1) div 128 = Suc ((n - 128 - 1) div 128)"
      using True le_div_geq [of 128 "n - 1"] by simp
    have put: "put2 cap out (word_of_int (- 127)) c = Inr out'"
      using "1.prems" d by (simp add: out'_def put2_ok del: of_int_minus)
    have "\<exists>k m. long_runs cap c (n - 128) out' = Inr (m, out' @ stream (replicate k (Run 128 c)))
             \<and> n - 128 = 128 * k + m \<and> 1 \<le> m \<and> m \<le> 128"
      using True put "1.prems" d by (intro "1.IH") (auto simp: out'_def)
    then obtain k m where
      km: "long_runs cap c (n - 128) out' = Inr (m, out' @ stream (replicate k (Run 128 c)))"
          "n - 128 = 128 * k + m" "1 \<le> m" "m \<le> 128"
      by blast
    have "long_runs cap c n out = long_runs cap c (n - 128) out'"
      using True put by (simp add: long_runs.simps [of cap c n out] del: of_int_minus)
    also have "\<dots> = Inr (m, out @ stream (replicate (Suc k) (Run 128 c)))"
      using km by (simp add: out'_def)
    finally show ?thesis
      using km True by (intro exI [where x = "Suc k"] exI [where x = m]) auto
  qed
qed

text \<open>
  The invariant of the loop: the buffer is the stream of packets that expand to the bytes read,
  and in state LITERAL the last packet is the open literal the two position fields describe.
\<close>

definition pkb_inv :: "bytes \<Rightarrow> pkb_state \<Rightarrow> bool" where
  "pkb_inv consumed s \<longleftrightarrow>
     (\<exists>ps. list_all wf_packet ps \<and> pkbBuffer s = stream ps \<and> expand ps = consumed \<and>
       (state s = LITERAL \<longrightarrow>
          (\<exists>qs bs. ps = qs @ [Lit bs] \<and> literalCount s = length bs
             \<and> lastLiteralPos s = length (stream qs))))"

lemma pkb_inv_le: "pkb_inv consumed s \<Longrightarrow> length (pkbBuffer s) \<le> 2 * length consumed"
  unfolding pkb_inv_def by (metis stream_le)

text \<open>What a step may rely on: packets before it, and room for twice the bytes it consumes.\<close>

definition grows :: "bytes \<Rightarrow> u8 \<Rightarrow> nat \<Rightarrow> fault + pkb_state \<Rightarrow> bool" where
  "grows consumed c count r \<longleftrightarrow> (\<exists>s'. r = Inr s' \<and> pkb_inv (consumed @ replicate count c) s')"

lemma new_literal_grows:
  assumes "list_all wf_packet ps" "pkbBuffer s = stream ps" "length (stream ps) + 2 \<le> cap"
  shows "grows (expand ps) c 1 (new_literal cap c s)"
proof -
  let ?s = "s\<lparr>pkbBuffer := stream (ps @ [Lit [c]]), state := LITERAL, literalCount := 1,
              lastLiteralPos := length (stream ps)\<rparr>"
  have "list_all wf_packet (ps @ [Lit [c]])" using assms(1) by simp
  moreover have "ps @ [Lit [c]] = ps @ [Lit [c]] \<and> literalCount ?s = length [c]
      \<and> lastLiteralPos ?s = length (stream ps)" by simp
  ultimately have "pkb_inv (expand ps @ [c]) ?s"
    unfolding pkb_inv_def by (intro exI [where x = "ps @ [Lit [c]]"]) fastforce
  moreover have "new_literal cap c s = Inr ?s"
    using assms by (simp add: new_literal_def put2_ok)
  ultimately show ?thesis by (simp add: grows_def)
qed

text \<open>The tail shared by the three states: long runs, then a short run or a new literal.\<close>

lemma run_tail_grows:
  assumes ps: "list_all wf_packet ps" "pkbBuffer s = stream ps"
    and n: "1 < n" and cap: "length (stream ps) + 2 * n \<le> cap"
    and f: "\<And>m out. f (m, out) = (if m > 1 then bindR (run_packet cap c m out) (g out)
                                    else if m = 1 then new_literal cap c (h out) else Inr (h out))"
    and g: "\<And>out out'. \<exists>s'. g out out' = Inr s' \<and> pkbBuffer s' = out' \<and> state s' = RUN"
    and h: "\<And>out. pkbBuffer (h out) = out"
  shows "grows (expand ps) c n (bindR (long_runs cap c n (pkbBuffer s)) f)"
proof -
  have "2 * ((n - 1) div 128) \<le> 2 * n" by (simp add: div_le_dividend le_trans [OF div_le_dividend])
  then obtain k m where
    km: "long_runs cap c n (stream ps) = Inr (m, stream ps @ stream (replicate k (Run 128 c)))"
        "n = 128 * k + m" "1 \<le> m" "m \<le> 128"
    using long_runs_spec [of n "stream ps" cap c] n cap by fastforce
  let ?qs = "ps @ replicate k (Run 128 c)"
  have qs: "list_all wf_packet ?qs" using ps(1) by (auto simp: list_all_iff)
  have ex: "expand ?qs = expand ps @ replicate (128 * k) c"
    by (simp add: expand_def) (induction k, simp_all add: replicate_add)
  have len: "length (stream ?qs) \<le> length (stream ps) + 2 * k"
    by (simp add: stream_def) (induction k, simp_all)
  have room: "length (stream ?qs) + 2 \<le> cap"
    using len cap km(2,3) n by simp
  show ?thesis
  proof (cases "m > 1")
    case True
    obtain s' where s': "g (stream ?qs) (stream (?qs @ [Run m c])) = Inr s'"
        "pkbBuffer s' = stream (?qs @ [Run m c])" "state s' = RUN"
      using g by blast
    have "list_all wf_packet (?qs @ [Run m c])" using qs True km(4) by simp
    moreover have "expand (?qs @ [Run m c]) = expand ps @ replicate n c"
      using ex km(2) by (simp add: replicate_add)
    ultimately have "pkb_inv (expand ps @ replicate n c) s'"
      using s' unfolding pkb_inv_def by fastforce
    then show ?thesis
      using True km(1) room s'(1) ps(2)
      by (simp add: f run_packet_def put2_ok grows_def)
  next
    case False
    with km(3) have m: "m = 1" by simp
    have "grows (expand ?qs) c 1 (new_literal cap c (h (stream ?qs)))"
      using qs room h by (intro new_literal_grows) auto
    moreover have "replicate n c = replicate (128 * k) c @ [c]"
      using km(2) m replicate_add [of "128 * k" 1 c] by simp
    ultimately show ?thesis
      using m km(1) ps(2) ex by (simp add: f grows_def)
  qed
qed

text \<open>One case label after the other, for a step that has read \<open>count\<close> equal bytes.\<close>

lemma step_base_grows:
  assumes "list_all wf_packet ps" "pkbBuffer s = stream ps" "1 \<le> count"
    "length (stream ps) + 2 * count \<le> cap"
  shows "grows (expand ps) c count (step_base cap c count s)"
proof (cases "count > 1")
  case False
  with assms(3) have "count = 1" by simp
  then show ?thesis
    using new_literal_grows [of ps s cap c] assms by (simp add: step_base_def)
next
  case True
  have "step_base cap c count s = bindR (long_runs cap c count (pkbBuffer s)) (\<lambda>(m, out).
      if m > 1 then bindR (run_packet cap c m out) (\<lambda>out'. Inr (s\<lparr>pkbBuffer := out', state := RUN\<rparr>))
      else if m = 1 then new_literal cap c (s\<lparr>pkbBuffer := out, state := RUN\<rparr>)
      else Inr (s\<lparr>pkbBuffer := out, state := RUN\<rparr>))"
    using True
    by (cases "long_runs cap c count (pkbBuffer s)") (auto simp: step_base_def bindR_assoc)
  with True show ?thesis
    using run_tail_grows [OF assms(1,2) True assms(4), where c = c and
        g = "\<lambda>_ out'. Inr (s\<lparr>pkbBuffer := out', state := RUN\<rparr>)" and
        h = "\<lambda>out. s\<lparr>pkbBuffer := out, state := RUN\<rparr>"]
    by simp
qed

lemma step_run_grows:
  assumes "list_all wf_packet ps" "pkbBuffer s = stream ps" "1 \<le> count" "state s = RUN"
    "length (stream ps) + 2 * count \<le> cap"
  shows "grows (expand ps) c count (step_run cap c count s)"
proof (cases "count > 1")
  case False
  with assms(3) have "count = 1" by simp
  then show ?thesis
    using new_literal_grows [of ps "s\<lparr>pkbBuffer := pkbBuffer s\<rparr>" cap c] assms
    by (simp add: step_run_def)
next
  case True
  then show ?thesis
    using run_tail_grows [OF assms(1,2) True assms(5), where c = c and
        g = "\<lambda>_ out'. Inr (s\<lparr>pkbBuffer := out'\<rparr>)" and h = "\<lambda>out. s\<lparr>pkbBuffer := out\<rparr>"] assms(4)
    by (simp add: step_run_def Let_def)
qed

lemma step_literal_grows:
  assumes ps: "list_all wf_packet ps" "pkbBuffer s = stream ps" and n: "1 \<le> count"
    and cap: "length (stream ps) + 2 * count \<le> cap"
    and lit: "ps = qs @ [Lit bs]" "literalCount s = length bs" "lastLiteralPos s = length (stream qs)"
    and st: "state s = LITERAL"
  shows "grows (expand ps) c count (step_literal cap c count s)"
proof (cases "count > 1")
  case True
  then show ?thesis
    using run_tail_grows [OF ps True cap, where c = c and
        g = "\<lambda>out out'. Inr (s\<lparr>pkbBuffer := out, state := RUN, literalCount := 0,
              pkbBuffer := out'\<rparr>)" and
        h = "\<lambda>out. s\<lparr>pkbBuffer := out, state := RUN, literalCount := 0\<rparr>"]
    by (simp add: step_literal_def Let_def)
next
  case False
  with n have 1: "count = 1" by simp
  have bs: "1 \<le> length bs" "length bs \<le> 128" using ps(1) lit(1) by auto
  show ?thesis
  proof (cases "length bs < 128")
    case True
    let ?s = "s\<lparr>literalCount := length bs + 1, pkbBuffer := stream (qs @ [Lit (bs @ [c])])\<rparr>"
    have "list_all wf_packet (qs @ [Lit (bs @ [c])])" using ps(1) lit(1) True by simp
    then have "pkb_inv (expand ps @ [c]) ?s"
      unfolding pkb_inv_def using lit by (intro exI [where x = "qs @ [Lit (bs @ [c])]"]) fastforce
    moreover have "step_literal cap c count s = Inr ?s"
      using True 1 lit ps(2) cap
      by (simp add: step_literal_def Let_def put_ok list_update_append)
    ultimately show ?thesis using 1 by (simp add: grows_def)
  next
    case False
    with bs have 128: "length bs = 128" by simp
    let ?s = "s\<lparr>literalCount := 1, lastLiteralPos := length (stream ps),
                pkbBuffer := stream (ps @ [Lit [c]])\<rparr>"
    have "list_all wf_packet (ps @ [Lit [c]])" using ps(1) by simp
    then have "pkb_inv (expand ps @ [c]) ?s"
      unfolding pkb_inv_def using st by (intro exI [where x = "ps @ [Lit [c]]"]) fastforce
    moreover have "step_literal cap c count s = Inr ?s"
      using 1 128 lit(2) ps(2) cap
      by (simp add: step_literal_def Let_def put_ok list_update_append)
    ultimately show ?thesis using 1 by (simp add: grows_def)
  qed
qed

lemma pkb_step_grows:
  assumes inv: "pkb_inv consumed s" and n: "1 \<le> count" and cap: "2 * (length consumed + count) \<le> cap"
  shows "grows consumed c count (pkb_step cap c count s)"
proof -
  obtain ps where ps: "list_all wf_packet ps" "pkbBuffer s = stream ps" "expand ps = consumed"
    and lit: "state s = LITERAL \<Longrightarrow> \<exists>qs bs. ps = qs @ [Lit bs] \<and> literalCount s = length bs
             \<and> lastLiteralPos s = length (stream qs)"
    using inv by (auto simp: pkb_inv_def)
  have room: "length (stream ps) + 2 * count \<le> cap"
    using stream_le [OF ps(1)] ps(3) cap by simp
  show ?thesis
  proof (cases "state s")
    case BASE
    then show ?thesis
      using step_base_grows [OF ps(1,2) n room] ps(3) by (simp add: pkb_step_def)
  next
    case LITERAL
    with lit obtain qs bs where "ps = qs @ [Lit bs]" "literalCount s = length bs"
      "lastLiteralPos s = length (stream qs)" by blast
    from step_literal_grows [OF ps(1,2) n room this LITERAL] LITERAL show ?thesis
      using ps(3) by (simp add: pkb_step_def)
  next
    case RUN
    then show ?thesis
      using step_run_grows [OF ps(1,2) n RUN room] ps(3) by (simp add: pkb_step_def)
  qed
qed

lemma pkb_loop_inv:
  assumes "pkb_inv consumed s" "2 * (length consumed + length xs) \<le> cap"
  shows "\<exists>s'. pkb_loop cap xs s = Inr s' \<and> pkb_inv (consumed @ xs) s'"
  using assms
proof (induction cap xs s arbitrary: consumed rule: pkb_loop.induct)
  case (1 cap s)
  then show ?case by simp
next
  case (2 cap x xs s)
  obtain m ys where f: "find_identical x 1 xs = (m, ys)" by fastforce
  from find_identical_split [OF f] have m: "1 \<le> m" "replicate (m - 1) x @ ys = xs" by auto
  from m(2) have len: "length xs = m - 1 + length ys" by (metis length_append length_replicate)
  have split: "x # xs = replicate m x @ ys" using m by (cases m) auto
  have "grows consumed x m (pkb_step cap x m s)"
    using "2.prems" m(1) len by (intro pkb_step_grows) auto
  then obtain s1 where s1: "pkb_step cap x m s = Inr s1" "pkb_inv (consumed @ replicate m x) s1"
    by (auto simp: grows_def)
  have "\<exists>s'. pkb_loop cap ys s1 = Inr s' \<and> pkb_inv ((consumed @ replicate m x) @ ys) s'"
    using "2.prems" s1 f m(1) len by (intro "2.IH" [of s1, unfolded f snd_conv]) auto
  moreover have "pkb_loop cap (x # xs) s = pkb_loop cap ys s1" using s1 f by simp
  ultimately show ?case by (simp only: split append_assoc)
qed

lemma pkb_encode_stream:
  "\<exists>ps. pkb_encode xs = Inr (stream ps) \<and> list_all wf_packet ps \<and> expand ps = xs"
proof -
  have "pkb_inv [] \<lparr>pkbBuffer = [], state = BASE, literalCount = 0, lastLiteralPos = 0\<rparr>"
    by (auto simp: pkb_inv_def intro: exI [where x = "[]"])
  from pkb_loop_inv [OF this, of xs "length xs + length xs"] show ?thesis
    by (fastforce simp: pkb_encode_def pkb_inv_def)
qed

subsection \<open>Properties\<close>

text \<open>
  C18: The encoder never writes behind its buffer of twice the input size, on any input, and what
  it returns is at most twice as long as the input.
\<close>

theorem pkb_encode_safe:
  "\<exists>e. pkb_encode xs = Inr e \<and> length e \<le> 2 * length xs"
  using pkb_encode_stream [of xs] stream_le by metis

text \<open>
  C17: Decoding an encoded buffer gives the input back, as soon as the encoded buffer has 64 bytes
  or more (so that the output buffer of twice its size can take a whole packet).
\<close>

theorem pkb_roundtrip:
  assumes "pkb_encode xs = Inr e" "64 \<le> length e"
  shows "pkb_decode e = Inr xs"
proof -
  obtain ps where ps: "e = stream ps" "list_all wf_packet ps" "expand ps = xs"
    using pkb_encode_stream [of xs] assms(1) by auto
  with assms(2) decode_stream [of ps "length e * 2" "[]"] show ?thesis
    by (auto simp: pkb_decode_def)
qed

theorem pkb_roundtrip_witness:
  "\<exists>e. pkb_encode (map word_of_nat [0..<64]) = Inr e
     \<and> pkb_decode e = Inr (map word_of_nat [0..<64])"
proof -
  have "isl (pkb_encode (map word_of_nat [0..<64])) = False
      \<and> 64 \<le> length (projr (pkb_encode (map word_of_nat [0..<64])))"
    by code_simp
  then have "\<exists>e. pkb_encode (map word_of_nat [0..<64]) = Inr e \<and> 64 \<le> length e"
    by (metis isl_def projr_def sum.exhaust_sel sum.sel(2))
  then show ?thesis using pkb_roundtrip by blast
qed

lemma pkb_decode_loop_no_overflow:
  assumes "130 \<le> outSize" "length out \<le> outSize"
  shows "pkb_decode_loop inp out outSize \<noteq> Inl BufferOverflow"
  using assms
proof (induction inp out outSize rule: pkb_decode_loop.induct)
  case (1 h x rest out outSize)
  have h: "- 128 \<le> sint h" "sint h < 128"
    using sint_ge [of h] sint_lt [of h] by simp_all
  show ?case
  proof (cases "sint h \<le> 0")
    case True
    let ?n = "nat (1 - sint h)"
    let ?o = "enlarge (length out) ?n outSize"
    have "?n \<le> 129" using h by simp
    then have o: "length out + ?n \<le> ?o" "130 \<le> ?o"
      using "1.prems" by (auto simp: enlarge_def)
    then have "pkb_decode_loop rest (out @ replicate ?n x) ?o \<noteq> Inl BufferOverflow"
      using True by (intro "1.IH"(1)) auto
    with True o show ?thesis by (simp add: pkb_decode_loop.simps(1) Let_def)
  next
    case False
    let ?n = "nat (1 + sint h)"
    let ?o = "enlarge (length out) ?n outSize"
    have "?n \<le> 128" using h by simp
    then have o: "length out + ?n \<le> ?o" "130 \<le> ?o"
      using "1.prems" by (auto simp: enlarge_def)
    show ?thesis
    proof (cases "?n > length (x # rest)")
      case True
      with False o show ?thesis by (simp add: pkb_decode_loop.simps(1) Let_def)
    next
      case small: False
      then have "pkb_decode_loop (drop ?n (x # rest)) (out @ take ?n (x # rest)) ?o
          \<noteq> Inl BufferOverflow"
        using False o by (intro "1.IH"(2)) auto
      with False o small show ?thesis by (simp add: pkb_decode_loop.simps(1) Let_def)
    qed
  qed
qed auto

text \<open>
  The decoder never writes behind its buffer when the encoded buffer has at least 65 bytes,
  whatever the bytes are: one doubling of a buffer of 130 bytes is enough for a packet.
\<close>

theorem pkb_decode_no_overflow:
  assumes "65 \<le> length inp"
  shows "pkb_decode inp \<noteq> Inl BufferOverflow"
  using pkb_decode_loop_no_overflow [of "length inp * 2" "[]" inp] assms
  by (auto simp: pkb_decode_def)

theorem pkb_decode_no_overflow_witness:
  "pkb_decode (replicate 65 129) \<noteq> Inl BufferOverflow"
  by (rule pkb_decode_no_overflow) simp

text \<open>
  A defect: a short encoded buffer makes the decoder overrun its output buffer. 129 equal
  bytes are encoded in 4 bytes, and decoding these writes 128 bytes into 16.
\<close>

theorem pkb_decode_short_overflow:
  "pkb_encode (replicate 129 7) = Inr [129, 7, 0, 7]
   \<and> pkb_decode [129, 7, 0, 7] = Inl BufferOverflow"
  by code_simp

end
