(* ===== verification/BitStrings.thy ===== *)
theory BitStrings
  imports Prelude
begin

text \<open>
  Bit strings, most significant bit first: the specification both bit level streams of the LZW
  codec (\<open>writeBits\<close> of the encoder, the reading loop of the decoder) are related to.
\<close>

fun bits :: "nat \<Rightarrow> nat \<Rightarrow> bool list" where
  "bits 0 n = []"
| "bits (Suc k) n = odd (n div 2 ^ k) # bits k n"

definition nat_of_bits :: "bool list \<Rightarrow> nat" where
  "nat_of_bits bs = foldl (\<lambda>a b. 2 * a + of_bool b) 0 bs"

definition byte_bits :: "bytes \<Rightarrow> bool list" where
  "byte_bits bs = concat (map (\<lambda>b. bits 8 (unat b)) bs)"

lemma length_bits [simp]: "length (bits k n) = k"
  by (induction k) auto

lemma byte_bits_simps [simp]:
  "byte_bits [] = []" "byte_bits (b # bs) = bits 8 (unat b) @ byte_bits bs"
  "byte_bits (bs @ cs) = byte_bits bs @ byte_bits cs"
  by (simp_all add: byte_bits_def)

lemma length_byte_bits [simp]: "length (byte_bits bs) = 8 * length bs"
  by (induction bs) auto

lemma bits_mod: "bits k (n mod 2 ^ k) = bits k n"
proof (induction k arbitrary: n)
  case (Suc k)
  have "odd ((n mod 2 ^ Suc k) div 2 ^ k) = odd (n div 2 ^ k)"
    using even_mod_exp_div_exp_iff [of n "Suc k" k] by simp
  moreover have "bits k (n mod 2 ^ Suc k) = bits k n"
    using Suc [of "n mod 2 ^ Suc k"] Suc [of n] by (simp add: mod_mod_cancel)
  ultimately show ?case by simp
qed simp

lemma bits_append: "b < 2 ^ k \<Longrightarrow> bits (j + k) (a * 2 ^ k + b) = bits j a @ bits k b"
proof (induction j)
  case 0
  have "bits k (a * 2 ^ k + b) = bits k ((a * 2 ^ k + b) mod 2 ^ k)" by (simp only: bits_mod)
  also have "\<dots> = bits k b" using 0 by simp
  finally show ?case by simp
next
  case (Suc j)
  have "(2::nat) ^ (j + k) = 2 ^ k * 2 ^ j" by (simp add: power_add)
  then have "(a * 2 ^ k + b) div 2 ^ (j + k) = (a * 2 ^ k + b) div 2 ^ k div 2 ^ j"
    by (simp only: div_mult2_eq)
  also have "(a * 2 ^ k + b) div 2 ^ k = a" using Suc.prems by simp
  finally have "(a * 2 ^ k + b) div 2 ^ (j + k) = a div 2 ^ j" .
  with Suc show ?case by simp
qed

lemma nat_of_bits_snoc [simp]: "nat_of_bits (bs @ [b]) = 2 * nat_of_bits bs + of_bool b"
  by (simp add: nat_of_bits_def)

lemma nat_of_bits_Nil [simp]: "nat_of_bits [] = 0"
  by (simp add: nat_of_bits_def)

lemma nat_of_bits_append: "nat_of_bits (as @ bs) = nat_of_bits as * 2 ^ length bs + nat_of_bits bs"
  by (induction bs rule: rev_induct) (simp_all flip: append_assoc add: algebra_simps)

lemma nat_of_bits_less: "nat_of_bits bs < 2 ^ length bs"
  by (induction bs rule: rev_induct) auto

lemma nat_of_bits_bits: "nat_of_bits (bits k n) = n mod 2 ^ k"
proof (induction k)
  case (Suc k)
  have "nat_of_bits (bits (Suc k) n) = of_bool (odd (n div 2 ^ k)) * 2 ^ k + n mod 2 ^ k"
    using nat_of_bits_append [of "[odd (n div 2 ^ k)]" "bits k n"] Suc
    by (simp add: nat_of_bits_def)
  also have "of_bool (odd (n div 2 ^ k)) * 2 ^ k = 2 ^ k * (n div 2 ^ k mod 2)"
    by (simp add: odd_iff_mod_2_eq_one)
  also have "2 ^ k * (n div 2 ^ k mod 2) + n mod 2 ^ k = n mod (2 ^ k * 2)"
    by (rule mod_mult2_eq [symmetric])
  also have "\<dots> = n mod 2 ^ Suc k" by (simp add: mult.commute)
  finally show ?case .
qed simp

lemma nat_of_bits_exact [simp]: "n < 2 ^ k \<Longrightarrow> nat_of_bits (bits k n) = n"
  by (simp add: nat_of_bits_bits)

lemma bits_nat_of_bits: "bits (length bs) (nat_of_bits bs) = bs"
proof (induction bs rule: rev_induct)
  case (snoc b bs)
  have "bits (length bs + 1) (nat_of_bits bs * 2 ^ 1 + of_bool b) = bits (length bs) (nat_of_bits bs) @ bits 1 (of_bool b)"
    by (rule bits_append) simp
  with snoc show ?case by (simp add: mult.commute)
qed simp

lemma bits_eq_iff: "a < 2 ^ k \<Longrightarrow> b < 2 ^ k \<Longrightarrow> bits k a = bits k b \<longleftrightarrow> a = b"
  by (metis nat_of_bits_exact)

lemma bits_nat_of_bits_take:
  "length bs = k \<Longrightarrow> bits k (nat_of_bits bs) = bs"
  using bits_nat_of_bits by blast

subsection \<open>The shifts and masks of the code on unsigned values\<close>

lemma or_disjoint_nat:
  fixes a b :: nat
  assumes "b < 2 ^ k"
  shows "push_bit k a OR b = a * 2 ^ k + b"
proof -
  have "push_bit k a AND b = 0"
  proof (rule bit_eqI)
    fix i
    show "bit (push_bit k a AND b) i \<longleftrightarrow> bit (0::nat) i"
    proof (cases "i < k")
      case True
      then show ?thesis by (simp add: bit_and_iff bit_push_bit_iff)
    next
      case False
      then have "b < 2 ^ i" using assms by (meson less_le_trans linorder_not_less one_le_numeral power_increasing)
      then have "\<not> bit b i" by (simp add: bit_iff_odd)
      then show ?thesis by (simp add: bit_and_iff)
    qed
  qed
  then show ?thesis using disjunctive_add_eq_or [of "push_bit k a" b] by (simp add: push_bit_eq_mult)
qed

lemma mask_nat: "(x::nat) AND (push_bit k 1 - 1) = x mod 2 ^ k"
proof -
  have "push_bit k 1 - 1 = (mask k :: nat)" by (simp add: mask_eq_exp_minus_1 push_bit_eq_mult)
  then show ?thesis by (simp add: take_bit_eq_mask [symmetric] take_bit_eq_mod)
qed

lemma mask_nat' [simp]: "(x::nat) AND (2 ^ k - Suc 0) = x mod 2 ^ k"
  using mask_nat [of x k] by (simp add: push_bit_eq_mult)

end
