(* ===== verification/LzwEncode.thy ===== *)
theory LzwEncode
  imports BitStrings
begin

text \<open>
  The LZW encoder of lib/liblzw (\<open>lzwEncoder\<close>): the dictionary as a trie of successor tables, the
  bit buffer, the growth of the code width, and the clear code when the dictionary is full.

  The 16 and 32 bit fields are kept as natural numbers: \<open>enc_inv\<close> and \<open>writeBits_spec\<close> below
  show that no code reaches \<open>2 ^ 12\<close> and that the bit buffer stays below \<open>2 ^ 20\<close>,
  so nothing wraps. An entry 0 of a successor table means that there is no successor.
\<close>

definition M_CLR :: nat where "M_CLR = 256"
definition M_EOD :: nat where "M_EOD = 257"

type_synonym lzwEncoderWord = "u8 \<Rightarrow> nat"

record lzwEncoder =
  maxBit :: nat
  edict :: "lzwEncoderWord list"
  maxCode :: nat
  bitSize :: nat
  nextCode :: nat
  lastCode :: nat
  ebuffer :: nat
  nWriteBits :: nat
  firstPass :: bool

definition lzwEncoder_new :: lzwEncoder where
  "lzwEncoder_new = \<lparr>maxBit = 12, edict = replicate 258 (\<lambda>_. 0), maxCode = 512, bitSize = 9,
     nextCode = 258, lastCode = 0, ebuffer = 0, nWriteBits = 0, firstPass = True\<rparr>"

definition clearDict :: "lzwEncoder \<Rightarrow> lzwEncoder" where
  "clearDict e = e\<lparr>edict := replicate 258 (\<lambda>_. 0), nextCode := 258, maxCode := 512, bitSize := 9\<rparr>"

subsection \<open>writeBits\<close>

function emit_bytes :: "nat \<Rightarrow> nat \<Rightarrow> nat \<Rightarrow> bytes \<Rightarrow> fault + (nat \<times> nat \<times> bytes)" where
  "emit_bytes cap buf n out =
     (if n \<ge> 8 then
        bindR (put cap out (word_of_nat (drop_bit (n - 8) buf)))
          (\<lambda>out'. emit_bytes cap (buf AND (push_bit (n - 8) 1 - 1)) (n - 8) out')
      else Inr (buf, n, out))"
  by pat_completeness auto
termination by (relation "measure (\<lambda>(cap, buf, n, out). n)") auto

declare emit_bytes.simps [simp del]

definition writeBits :: "nat \<Rightarrow> nat \<Rightarrow> lzwEncoder \<Rightarrow> bytes \<Rightarrow> fault + (lzwEncoder \<times> bytes)" where
  "writeBits cap lzwCode e out =
     bindR (emit_bytes cap (push_bit (bitSize e) (ebuffer e) OR lzwCode) (nWriteBits e + bitSize e) out)
       (\<lambda>(b, n, out'). Inr (e\<lparr>ebuffer := b, nWriteBits := n\<rparr>, out'))"

subsection \<open>encode\<close>

text \<open>One input character: the body of the loop of \<open>encode\<close>.\<close>

definition grow_or_clear :: "nat \<Rightarrow> lzwEncoder \<Rightarrow> bytes \<Rightarrow> fault + (lzwEncoder \<times> bytes)" where
  "grow_or_clear cap e out =
     (if length (edict e) = maxCode e then
        if bitSize e < maxBit e then
          Inr (e\<lparr>bitSize := bitSize e + 1, maxCode := maxCode e * 2\<rparr>, out)
        else bindR (writeBits cap M_CLR e out) (\<lambda>(e', out'). Inr (clearDict e', out'))
      else Inr (e, out))"

definition add_entry :: "u8 \<Rightarrow> lzwEncoder \<Rightarrow> lzwEncoder" where
  "add_entry c e =
     e\<lparr>edict := (edict e)[lastCode e := (edict e ! lastCode e)(c := length (edict e))] @ [\<lambda>_. 0]\<rparr>"

definition encode_char ::
    "nat \<Rightarrow> u8 \<Rightarrow> lzwEncoder \<Rightarrow> bytes \<Rightarrow> fault + (nat \<times> lzwEncoder \<times> bytes)" where
  "encode_char cap c e out =
     (if lastCode e \<ge> length (edict e) then Inl OutOfRange
      else if (edict e ! lastCode e) c \<noteq> 0 then
        Inr (cap, e\<lparr>lastCode := (edict e ! lastCode e) c\<rparr>, out)
      else
        let cap' = (if length out + 2 > cap then cap * 2 else cap) in
        bindR (writeBits cap' (lastCode e) e out) (\<lambda>(e1, out1).
        bindR (grow_or_clear cap' (add_entry c e1) out1) (\<lambda>(e2, out2).
          Inr (cap', e2\<lparr>lastCode := unat c\<rparr>, out2))))"

fun encode_loop :: "nat \<Rightarrow> bytes \<Rightarrow> lzwEncoder \<Rightarrow> bytes \<Rightarrow> fault + (nat \<times> lzwEncoder \<times> bytes)" where
  "encode_loop cap [] e out = Inr (cap, e, out)"
| "encode_loop cap (c # rest) e out =
     bindR (encode_char cap c e out) (\<lambda>(cap', e', out'). encode_loop cap' rest e' out')"

text \<open>The end of the data, shared by \<open>encode\<close> and \<open>streamEnd\<close>.\<close>

definition streamEnd :: "nat \<Rightarrow> lzwEncoder \<Rightarrow> bytes \<Rightarrow> fault + (lzwEncoder \<times> bytes)" where
  "streamEnd cap e out =
     bindR (writeBits cap (lastCode e) e out) (\<lambda>(e1, out1).
     bindR (writeBits cap M_EOD e1 out1) (\<lambda>(e2, out2).
       if ebuffer e2 \<noteq> 0 then writeBits cap (ebuffer e2) e2 out2 else Inr (e2, out2)))"

definition start_encode ::
    "nat \<Rightarrow> lzwEncoder \<Rightarrow> bytes \<Rightarrow> fault + (bytes \<times> lzwEncoder \<times> bytes)" where
  "start_encode cap e inp =
     (case inp of
        c # rest \<Rightarrow>
          if firstPass e then
            bindR (writeBits cap M_CLR (e\<lparr>lastCode := unat c, firstPass := False\<rparr>) [])
              (\<lambda>(e', out). Inr (rest, e', out))
          else Inr (inp, e, [])
      | [] \<Rightarrow> Inr (inp, e, []))"

definition lzw_encode :: "lzwEncoder \<Rightarrow> bytes \<Rightarrow> fault + (lzwEncoder \<times> bytes)" where
  "lzw_encode e inp =
     (let cap = length inp * 2 in
      bindR (start_encode cap e inp) (\<lambda>(rest, e1, out1).
      bindR (encode_loop cap rest e1 out1) (\<lambda>(cap', e2, out2). streamEnd cap' e2 out2)))"

subsection \<open>The bits written\<close>

definition enc_bits :: "lzwEncoder \<Rightarrow> bytes \<Rightarrow> bool list" where
  "enc_bits e out = byte_bits out @ bits (nWriteBits e) (ebuffer e)"

definition buf_ok :: "lzwEncoder \<Rightarrow> bool" where
  "buf_ok e \<longleftrightarrow> nWriteBits e < 8 \<and> ebuffer e < 2 ^ nWriteBits e"

text \<open>\<open>same_tables e e'\<close>: the states differ in their bit buffer only.\<close>

definition with_buffer :: "lzwEncoder \<Rightarrow> lzwEncoder \<Rightarrow> lzwEncoder" where
  "with_buffer b e = e\<lparr>ebuffer := ebuffer b, nWriteBits := nWriteBits b\<rparr>"

lemma emit_bytes_spec:
  assumes "buf < 2 ^ n" "length out + n div 8 \<le> cap"
  shows "\<exists>b out'. emit_bytes cap buf n out = Inr (b, n mod 8, out') \<and> b < 2 ^ (n mod 8)
    \<and> byte_bits out' @ bits (n mod 8) b = byte_bits out @ bits n buf
    \<and> length out' = length out + n div 8"
  using assms
proof (induction cap buf n out rule: emit_bytes.induct)
  case (1 cap buf n out)
  show ?case
  proof (cases "n \<ge> 8")
    case False
    with 1 show ?thesis by (simp add: emit_bytes.simps [of cap buf n out])
  next
    case True
    define hi where "hi = buf div 2 ^ (n - 8)"
    define lo where "lo = buf mod 2 ^ (n - 8)"
    have nd: "n div 8 = Suc ((n - 8) div 8)" "n mod 8 = (n - 8) mod 8"
      using True by (simp_all add: le_div_geq le_mod_geq)
    have "buf < 2 ^ (n - 8) * 2 ^ 8"
      using "1.prems"(1) True power_add [of "2::nat" "n - 8" 8] by simp
    then have hi: "hi < 256" unfolding hi_def by (simp add: less_mult_imp_div_less mult.commute)
    have split: "bits n buf = bits 8 hi @ bits (n - 8) lo"
    proof -
      have "buf = hi * 2 ^ (n - 8) + lo" unfolding hi_def lo_def by (rule div_mult_mod_eq [symmetric])
      moreover have "lo < 2 ^ (n - 8)" by (simp add: lo_def)
      moreover have "8 + (n - 8) = n" using True by simp
      ultimately show ?thesis using bits_append [of lo "n - 8" 8 hi] by simp
    qed
    have byte: "bits 8 (unat (word_of_nat hi :: u8)) = bits 8 hi"
      using hi by (simp add: unat_of_nat)
    have ok: "put cap out (word_of_nat (drop_bit (n - 8) buf)) = Inr (out @ [word_of_nat hi])"
      using "1.prems"(2) nd by (simp add: put_ok hi_def drop_bit_eq_div)
    have "\<exists>b out'. emit_bytes cap lo (n - 8) (out @ [word_of_nat hi]) = Inr (b, (n - 8) mod 8, out')
        \<and> b < 2 ^ ((n - 8) mod 8)
        \<and> byte_bits out' @ bits ((n - 8) mod 8) b
          = byte_bits (out @ [word_of_nat hi]) @ bits (n - 8) lo
        \<and> length out' = length (out @ [word_of_nat hi]) + (n - 8) div 8"
      using "1.IH" [OF True, of "out @ [word_of_nat hi]"] "1.prems"(2) nd ok
      by (simp add: lo_def)
    then show ?thesis
      using True ok byte split nd
      by (simp add: emit_bytes.simps [of cap buf n out] flip: lo_def)
  qed
qed

lemma writeBits_spec:
  assumes "buf_ok e" "code < 2 ^ bitSize e" "length out + (nWriteBits e + bitSize e) div 8 \<le> cap"
  shows "\<exists>e' out'. writeBits cap code e out = Inr (e', out') \<and> e' = with_buffer e' e \<and> buf_ok e'
    \<and> enc_bits e' out' = enc_bits e out @ bits (bitSize e) code
    \<and> length out' = length out + (nWriteBits e + bitSize e) div 8
    \<and> nWriteBits e' = (nWriteBits e + bitSize e) mod 8"
proof -
  let ?n = "nWriteBits e + bitSize e" and ?buf = "ebuffer e * 2 ^ bitSize e + code"
  have b: "ebuffer e < 2 ^ nWriteBits e" using assms(1) by (simp add: buf_ok_def)
  have "?buf < (ebuffer e + 1) * 2 ^ bitSize e" using assms(2) by simp
  also have "\<dots> \<le> 2 ^ nWriteBits e * 2 ^ bitSize e" using b by (intro mult_right_mono) auto
  finally have lt: "?buf < 2 ^ ?n" by (simp add: power_add)
  obtain b' out' where r: "emit_bytes cap ?buf ?n out = Inr (b', ?n mod 8, out')"
      "b' < 2 ^ (?n mod 8)" "byte_bits out' @ bits (?n mod 8) b' = byte_bits out @ bits ?n ?buf"
      "length out' = length out + ?n div 8"
    using emit_bytes_spec [OF lt assms(3)] by blast
  have "bits ?n ?buf = bits (nWriteBits e) (ebuffer e) @ bits (bitSize e) code"
    by (rule bits_append) (rule assms(2))
  with r show ?thesis
    by (simp add: writeBits_def or_disjoint_nat [OF assms(2)] with_buffer_def buf_ok_def enc_bits_def)
qed

subsection \<open>The codes written, without the bit buffer\<close>

text \<open>
  \<open>code_step\<close> is \<open>encode_char\<close> without its output: the codes with their widths, and the
  tables after the character.
\<close>

definition code_step :: "u8 \<Rightarrow> lzwEncoder \<Rightarrow> (nat \<times> nat) list \<times> lzwEncoder" where
  "code_step c e =
     (if (edict e ! lastCode e) c \<noteq> 0 then ([], e\<lparr>lastCode := (edict e ! lastCode e) c\<rparr>)
      else
        let e1 = add_entry c e in
        if length (edict e1) = maxCode e1 then
          if bitSize e1 < maxBit e1 then
            ([(bitSize e, lastCode e)],
             e1\<lparr>bitSize := bitSize e1 + 1, maxCode := maxCode e1 * 2, lastCode := unat c\<rparr>)
          else ([(bitSize e, lastCode e), (bitSize e, M_CLR)], clearDict e1\<lparr>lastCode := unat c\<rparr>)
        else ([(bitSize e, lastCode e)], e1\<lparr>lastCode := unat c\<rparr>))"

fun code_run :: "bytes \<Rightarrow> lzwEncoder \<Rightarrow> (nat \<times> nat) list \<times> lzwEncoder" where
  "code_run [] e = ([], e)"
| "code_run (c # cs) e =
     (let (ws, e') = code_step c e; (ws', e'') = code_run cs e' in (ws @ ws', e''))"

lemma code_run_Cons [simp]:
  "fst (code_run (c # cs) e) = fst (code_step c e) @ fst (code_run cs (snd (code_step c e)))"
  "snd (code_run (c # cs) e) = snd (code_run cs (snd (code_step c e)))"
  by (simp_all add: Let_def split: prod.splits)

declare code_run.simps(2) [simp del]

definition code_bits :: "(nat \<times> nat) list \<Rightarrow> bool list" where
  "code_bits ws = concat (map (\<lambda>(w, c). bits w c) ws)"

lemma code_bits_simps [simp]:
  "code_bits [] = []" "code_bits ((w, c) # ws) = bits w c @ code_bits ws"
  "code_bits (ws @ vs) = code_bits ws @ code_bits vs"
  by (simp_all add: code_bits_def)

lemma with_buffer_simps [simp]:
  "maxBit (with_buffer b e) = maxBit e" "edict (with_buffer b e) = edict e"
  "maxCode (with_buffer b e) = maxCode e" "bitSize (with_buffer b e) = bitSize e"
  "lastCode (with_buffer b e) = lastCode e" "firstPass (with_buffer b e) = firstPass e"
  "nextCode (with_buffer b e) = nextCode e"
  "ebuffer (with_buffer b e) = ebuffer b" "nWriteBits (with_buffer b e) = nWriteBits b"
  by (simp_all add: with_buffer_def)

lemma with_buffer_idem [simp]: "with_buffer a (with_buffer b e) = with_buffer a e"
  by (simp add: with_buffer_def)

lemma with_buffer_update [simp]:
  "with_buffer b e\<lparr>lastCode := l\<rparr> = with_buffer b (e\<lparr>lastCode := l\<rparr>)"
  "with_buffer b e\<lparr>bitSize := k\<rparr> = with_buffer b (e\<lparr>bitSize := k\<rparr>)"
  "with_buffer b e\<lparr>maxCode := m\<rparr> = with_buffer b (e\<lparr>maxCode := m\<rparr>)"
  "with_buffer b e\<lparr>edict := d\<rparr> = with_buffer b (e\<lparr>edict := d\<rparr>)"
  "with_buffer b e\<lparr>nextCode := n\<rparr> = with_buffer b (e\<lparr>nextCode := n\<rparr>)"
  "with_buffer b e\<lparr>firstPass := f\<rparr> = with_buffer b (e\<lparr>firstPass := f\<rparr>)"
  by (simp_all add: with_buffer_def)

lemma add_entry_with_buffer [simp]: "add_entry c (with_buffer b e) = with_buffer b (add_entry c e)"
  by (simp add: add_entry_def)

lemma clearDict_with_buffer [simp]: "clearDict (with_buffer b e) = with_buffer b (clearDict e)"
  by (simp add: clearDict_def)

lemma code_step_with_buffer:
  "code_step c (with_buffer b e) = (fst (code_step c e), with_buffer b (snd (code_step c e)))"
  by (auto simp: code_step_def Let_def)

lemma code_run_with_buffer:
  "code_run cs (with_buffer b e) = (fst (code_run cs e), with_buffer b (snd (code_run cs e)))"
  by (induction cs arbitrary: e) (auto simp: code_step_with_buffer prod_eq_iff)

subsection \<open>The words the codes stand for\<close>

definition base_table :: "bytes list" where
  "base_table = map (\<lambda>i. [word_of_nat i]) [0..<256] @ [[], []]"

lemma base_table_simps [simp]:
  "length base_table = 258" "i < 256 \<Longrightarrow> base_table ! i = [word_of_nat i]"
  by (simp_all add: base_table_def nth_append)

definition code_ok :: "nat \<Rightarrow> bytes list \<Rightarrow> bool" where
  "code_ok c tbl \<longleftrightarrow> c < length tbl \<and> c \<noteq> M_CLR \<and> c \<noteq> M_EOD"

definition table_ok :: "bytes list \<Rightarrow> lzwEncoder \<Rightarrow> bool" where
  "table_ok tbl e \<longleftrightarrow> length tbl = length (edict e) \<and> 258 \<le> length tbl \<and> take 258 tbl = base_table
     \<and> (\<forall>p < length tbl. \<forall>c. (edict e ! p) c \<noteq> 0 \<longrightarrow>
          258 \<le> (edict e ! p) c \<and> (edict e ! p) c < length tbl
          \<and> tbl ! ((edict e ! p) c) = tbl ! p @ [c])
     \<and> (\<forall>q. 258 \<le> q \<and> q < length tbl \<longrightarrow> tbl ! q \<noteq> [])"

definition width_ok :: "lzwEncoder \<Rightarrow> bool" where
  "width_ok e \<longleftrightarrow> maxBit e = 12 \<and> 9 \<le> bitSize e \<and> bitSize e \<le> 12 \<and> maxCode e = 2 ^ bitSize e
     \<and> length (edict e) < maxCode e"

definition enc_inv :: "bytes list \<Rightarrow> lzwEncoder \<Rightarrow> bool" where
  "enc_inv tbl e \<longleftrightarrow> table_ok tbl e \<and> width_ok e \<and> code_ok (lastCode e) tbl"

lemma enc_inv_with_buffer [simp]: "enc_inv tbl (with_buffer b e) = enc_inv tbl e"
  by (simp add: enc_inv_def table_ok_def width_ok_def)

lemma table_base:
  assumes "table_ok tbl e" "i < 256"
  shows "tbl ! i = [word_of_nat i]"
proof -
  have "tbl ! i = take 258 tbl ! i" using assms(2) by simp
  also have "\<dots> = base_table ! i" using assms(1) by (simp add: table_ok_def)
  finally show ?thesis using assms(2) by simp
qed

lemma code_ok_nonempty: "table_ok tbl e \<Longrightarrow> code_ok c tbl \<Longrightarrow> tbl ! c \<noteq> []"
  using table_base [of tbl e c]
  by (cases "c < 256") (auto simp: code_ok_def table_ok_def M_CLR_def M_EOD_def)

lemma byte_code_ok: "258 \<le> length tbl \<Longrightarrow> code_ok (unat (c::u8)) tbl"
  using unsigned_less [of c, where 'a = nat] by (simp add: code_ok_def M_CLR_def M_EOD_def)

lemma fresh_table: "table_ok base_table (clearDict e)"
  by (auto simp: table_ok_def clearDict_def)

subsection \<open>One character keeps the tables\<close>

lemma add_entry_table:
  assumes ok: "table_ok tbl e" and l: "lastCode e < length tbl"
  shows "table_ok (tbl @ [tbl ! lastCode e @ [c]]) (add_entry c e)"
proof -
  let ?n = "length tbl" and ?w = "tbl ! lastCode e @ [c]"
  have len: "length (edict e) = ?n" "258 \<le> ?n" using ok by (auto simp: table_ok_def)
  have succ: "258 \<le> q \<and> q < Suc ?n \<and> (tbl @ [?w]) ! q = (tbl @ [?w]) ! p @ [d]"
    if p: "p < Suc ?n" and q: "(edict (add_entry c e) ! p) d = q" "q \<noteq> 0" for p d q
  proof (cases "p = lastCode e \<and> d = c")
    case True
    with q(1) l len have "q = ?n" by (simp add: add_entry_def nth_append)
    with True l len show ?thesis by (simp add: nth_append)
  next
    case False
    have pn: "p < ?n" using p q len by (cases "p = ?n") (auto simp: add_entry_def nth_append)
    then have "(edict e ! p) d = q"
      using q(1) False l len by (auto simp: add_entry_def nth_append nth_list_update split: if_splits)
    with ok pn q(2) have "258 \<le> q \<and> q < ?n \<and> tbl ! q = tbl ! p @ [d]"
      by (auto simp: table_ok_def)
    with pn show ?thesis by (simp add: nth_append)
  qed
  have "take 258 (tbl @ [?w]) = base_table" using ok len by (simp add: table_ok_def)
  moreover have "(tbl @ [?w]) ! q \<noteq> []" if "258 \<le> q" "q < Suc ?n" for q
    using that ok by (cases "q < ?n") (auto simp: nth_append table_ok_def less_Suc_eq)
  ultimately show ?thesis
    using succ len by (auto simp: table_ok_def add_entry_def)
qed

lemma enc_inv_add:
  assumes inv: "enc_inv tbl e" and small: "length tbl + 1 < maxCode e"
  shows "enc_inv (tbl @ [tbl ! lastCode e @ [c]]) (add_entry c e\<lparr>lastCode := unat c\<rparr>)"
  using assms add_entry_table [of tbl e c] byte_code_ok [of "tbl @ [tbl ! lastCode e @ [c]]" c]
  by (auto simp: enc_inv_def width_ok_def code_ok_def table_ok_def add_entry_def)

lemma code_step_cases:
  assumes inv: "enc_inv tbl e"
  obtains
    (extend) q where "code_step c e = ([], e\<lparr>lastCode := q\<rparr>)" "enc_inv tbl (e\<lparr>lastCode := q\<rparr>)"
      "tbl ! q = tbl ! lastCode e @ [c]"
  | (add) e' where "code_step c e = ([(bitSize e, lastCode e)], e')"
      "enc_inv (tbl @ [tbl ! lastCode e @ [c]]) e'" "lastCode e' = unat c"
      "bitSize e' = (if length tbl + 1 = 2 ^ bitSize e then bitSize e + 1 else bitSize e)"
      "length tbl + 1 = 2 ^ bitSize e \<Longrightarrow> bitSize e < 12"
  | (clear) e' where "code_step c e = ([(bitSize e, lastCode e), (bitSize e, M_CLR)], e')"
      "bitSize e = 12" "length tbl = 4095" "enc_inv base_table e'" "lastCode e' = unat c"
      "bitSize e' = 9"
proof (cases "(edict e ! lastCode e) c = 0")
  case False
  let ?q = "(edict e ! lastCode e) c"
  have "258 \<le> ?q \<and> ?q < length tbl \<and> tbl ! ?q = tbl ! lastCode e @ [c]"
    using inv False by (auto simp: enc_inv_def table_ok_def code_ok_def)
  with inv False show ?thesis
    by (intro extend [of ?q])
      (auto simp: code_step_def enc_inv_def table_ok_def width_ok_def code_ok_def M_CLR_def M_EOD_def)
next
  case True
  have w: "maxBit e = 12" "9 \<le> bitSize e" "bitSize e \<le> 12" "maxCode e = 2 ^ bitSize e"
    "length tbl = length (edict e)" "length (edict e) < maxCode e" "table_ok tbl e"
    "lastCode e < length tbl"
    using inv by (auto simp: enc_inv_def table_ok_def width_ok_def code_ok_def)
  have len: "length (edict (add_entry c e)) = length tbl + 1" using w by (simp add: add_entry_def)
  have fields [simp]: "maxBit (add_entry c e) = maxBit e" "bitSize (add_entry c e) = bitSize e"
    "maxCode (add_entry c e) = maxCode e" by (simp_all add: add_entry_def)
  consider "length tbl + 1 < maxCode e" | "length tbl + 1 = maxCode e" "bitSize e < 12"
    | "length tbl + 1 = maxCode e" "bitSize e = 12" using w by linarith
  then show ?thesis
  proof cases
    case 1
    with True w enc_inv_add [OF inv 1, of c] show ?thesis
      by (intro add [of "add_entry c e\<lparr>lastCode := unat c\<rparr>"])
        (auto simp: code_step_def Let_def len)
  next
    case 2
    let ?e = "add_entry c e\<lparr>bitSize := bitSize e + 1, maxCode := maxCode e * 2, lastCode := unat c\<rparr>"
    have "enc_inv (tbl @ [tbl ! lastCode e @ [c]]) ?e"
      using add_entry_table [OF w(7,8), of c] byte_code_ok [of "tbl @ [tbl ! lastCode e @ [c]]" c]
        2 w len by (simp add: enc_inv_def width_ok_def table_ok_def)
    with 2 True w show ?thesis
      by (intro add [of ?e]) (auto simp: code_step_def Let_def len)
  next
    case 3
    let ?e = "clearDict (add_entry c e)\<lparr>lastCode := unat c\<rparr>"
    have "enc_inv base_table ?e"
      using fresh_table [of "add_entry c e"] byte_code_ok [of base_table c] w
      by (simp add: enc_inv_def width_ok_def table_ok_def clearDict_def)
    with 3 True w show ?thesis
      by (intro clear [of ?e]) (auto simp: code_step_def Let_def len clearDict_def)
  qed
qed

subsection \<open>The output buffer is large enough\<close>

text \<open>
  The bits written so far, and the budget after \<open>k\<close> characters: at most 13 bits per character
  with a credit of one bit for every dictionary entry, which pays for the clear code, and at
  most 9 bits per character as long as the dictionary cannot have grown past 511 entries.
\<close>

definition total :: "lzwEncoder \<Rightarrow> bytes \<Rightarrow> nat" where
  "total e out = 8 * length out + nWriteBits e"

definition budget :: "nat \<Rightarrow> lzwEncoder \<Rightarrow> bytes \<Rightarrow> bool" where
  "budget k e out \<longleftrightarrow> total e out + (length (edict e) - 258) \<le> 9 + 13 * k
     \<and> length (edict e) \<le> 258 + k \<and> (k \<le> 253 \<longrightarrow> total e out \<le> 9 + 9 * k \<and> bitSize e = 9)"

definition writes :: "lzwEncoder \<Rightarrow> bytes \<Rightarrow> (nat \<times> nat) list \<Rightarrow> lzwEncoder \<Rightarrow> bytes \<Rightarrow> bool" where
  "writes e out ws e' out' \<longleftrightarrow> buf_ok e' \<and> enc_bits e' out' = enc_bits e out @ code_bits ws
     \<and> total e' out' = total e out + length (code_bits ws)"

lemma writes_trans:
  "writes e out ws e1 out1 \<Longrightarrow> writes e1 out1 vs e2 out2 \<Longrightarrow> writes e out (ws @ vs) e2 out2"
  by (simp add: writes_def)

lemma writes_cong [simp]:
  "writes (e\<lparr>lastCode := l\<rparr>) out ws e' out' = writes e out ws e' out'"
  "writes (add_entry c e) out ws e' out' = writes e out ws e' out'"
  "writes e out ws (e'\<lparr>lastCode := l\<rparr>) out' = writes e out ws e' out'"
  "writes e out ws (e'\<lparr>bitSize := b\<rparr>) out' = writes e out ws e' out'"
  "writes e out ws (e'\<lparr>maxCode := b\<rparr>) out' = writes e out ws e' out'"
  "writes e out ws (add_entry c e') out' = writes e out ws e' out'"
  "writes e out ws (clearDict e') out' = writes e out ws e' out'"
  by (simp_all add: writes_def enc_bits_def total_def buf_ok_def add_entry_def clearDict_def)

lemma writeBits_writes:
  assumes "buf_ok e" "code < 2 ^ bitSize e" "total e out + bitSize e \<le> 8 * cap + 7"
  shows "\<exists>e' out'. writeBits cap code e out = Inr (e', out') \<and> e' = with_buffer e' e
    \<and> writes e out [(bitSize e, code)] e' out'"
proof -
  have "length out + (nWriteBits e + bitSize e) div 8 \<le> cap"
    using assms(3) by (simp add: total_def)
  from writeBits_spec [OF assms(1,2) this] show ?thesis
    by (auto simp: writes_def total_def)
qed

lemma code_less_width:
  assumes "enc_inv tbl e"
  shows "lastCode e < 2 ^ bitSize e" "M_CLR < 2 ^ bitSize e" "M_EOD < 2 ^ bitSize e"
proof -
  have "2 ^ 9 \<le> (2::nat) ^ bitSize e"
    using assms by (intro power_increasing) (auto simp: enc_inv_def width_ok_def)
  then show "M_CLR < 2 ^ bitSize e" "M_EOD < 2 ^ bitSize e" by (auto simp: M_CLR_def M_EOD_def)
  show "lastCode e < 2 ^ bitSize e"
    using assms by (auto simp: enc_inv_def width_ok_def table_ok_def code_ok_def)
qed

lemma encode_char_spec:
  assumes inv: "enc_inv tbl e" and b: "buf_ok e" "budget k e out" and N: "k + 1 < N"
  shows "\<exists>e' out'. encode_char (2 * N) c e out = Inr (2 * N, e', out')
    \<and> e' = with_buffer e' (snd (code_step c e))
    \<and> writes e out (fst (code_step c e)) e' out' \<and> budget (k + 1) e' out'"
proof (cases "(edict e ! lastCode e) c = 0")
  case False
  let ?e = "e\<lparr>lastCode := (edict e ! lastCode e) c\<rparr>"
  have "lastCode e < length (edict e)"
    using inv by (auto simp: enc_inv_def table_ok_def code_ok_def)
  moreover have "with_buffer ?e ?e = ?e" by (simp add: with_buffer_def)
  moreover have "writes e out [] ?e out"
    using b(1) by (simp add: writes_def buf_ok_def enc_bits_def total_def)
  ultimately show ?thesis
    using False b by (auto simp: encode_char_def code_step_def budget_def total_def)
next
  case True
  note w = inv [unfolded enc_inv_def table_ok_def width_ok_def code_ok_def]
  have cap: "\<not> length out + 2 > 2 * N" and t: "total e out + bitSize e \<le> 16 * N"
    and t2: "bitSize e = 12 \<Longrightarrow> total e out + bitSize e + 12 \<le> 16 * N"
    using b(2) N w by (auto simp: budget_def total_def)
  obtain e1 out1 where w1: "writeBits (2 * N) (lastCode e) e out = Inr (e1, out1)"
      "e1 = with_buffer e1 e" "writes e out [(bitSize e, lastCode e)] e1 out1"
    using writeBits_writes [OF b(1) code_less_width(1) [OF inv], of out "2 * N"] t by auto
  have tot: "total e1 out1 = total e out + bitSize e" using w1(3) by (simp add: writes_def)
  have f [simp]: "edict e1 = edict e" "bitSize e1 = bitSize e" "maxBit e1 = maxBit e"
    "maxCode e1 = maxCode e" "lastCode e1 = lastCode e"
    by (subst w1(2), simp)+
  have len: "length (edict (add_entry c e1)) = length (edict e) + 1" by (simp add: add_entry_def)
  have fa [simp]: "bitSize (add_entry c e) = bitSize e" "maxBit (add_entry c e) = maxBit e"
    "maxCode (add_entry c e) = maxCode e" "bitSize (add_entry c e1) = bitSize e"
    "maxBit (add_entry c e1) = maxBit e" "maxCode (add_entry c e1) = maxCode e"
    "length (edict (add_entry c e)) = length (edict e) + 1"
    by (simp_all add: add_entry_def)
  have l: "lastCode e < length (edict e)" using w by auto
  consider "length (edict e) + 1 \<noteq> maxCode e" | "length (edict e) + 1 = maxCode e" "bitSize e < maxBit e"
    | "length (edict e) + 1 = maxCode e" "bitSize e = 12" using w by linarith
  then show ?thesis
  proof cases
    case 1
    let ?e = "add_entry c e1\<lparr>lastCode := unat c\<rparr>"
    have "encode_char (2 * N) c e out = Inr (2 * N, ?e, out1)"
      using True 1 cap l w1(1) len by (simp add: encode_char_def Let_def grow_or_clear_def)
    moreover have "?e = with_buffer ?e (add_entry c e\<lparr>lastCode := unat c\<rparr>)"
      by (subst (1) w1(2)) (simp add: with_buffer_def add_entry_def)
    moreover have "budget (k + 1) ?e out1"
      using b(2) tot w by (auto simp: budget_def total_def add_entry_def)
    ultimately show ?thesis using True 1 w1(3) by (auto simp: code_step_def Let_def)
  next
    case 2
    let ?g = "\<lambda>e. e\<lparr>bitSize := bitSize e + 1, maxCode := maxCode e * 2, lastCode := unat c\<rparr>"
    let ?e = "?g (add_entry c e1)"
    have "encode_char (2 * N) c e out = Inr (2 * N, ?e, out1)"
      using True 2 cap l w1(1) len by (simp add: encode_char_def Let_def grow_or_clear_def)
    moreover have "?e = with_buffer ?e (?g (add_entry c e))"
      by (subst (1 2 3) w1(2)) (simp add: with_buffer_def add_entry_def)
    moreover have "budget (k + 1) ?e out1"
    proof -
      have "2 ^ 9 \<le> (2::nat) ^ bitSize e" using w by (intro power_increasing) auto
      then have "512 \<le> length (edict e) + 1" using 2 w by simp
      then show ?thesis using b(2) tot w by (auto simp: budget_def total_def add_entry_def)
    qed
    ultimately show ?thesis using True 2 w1(3) by (auto simp: code_step_def Let_def)
  next
    case 3
    have len4: "length (edict e) = 4095" using 3 w by simp
    have bA: "buf_ok (add_entry c e1)" using w1(3) by (simp add: writes_def buf_ok_def add_entry_def)
    have clr: "M_CLR < 2 ^ bitSize (add_entry c e1)" using code_less_width(2) [OF inv] by simp
    have "total (add_entry c e1) out1 + bitSize (add_entry c e1) \<le> 8 * (2 * N) + 7"
      using t2 [OF 3(2)] 3(2) tot by (simp add: total_def add_entry_def)
    from writeBits_writes [OF bA clr this] obtain e2 out2 where
      w2: "writeBits (2 * N) M_CLR (add_entry c e1) out1 = Inr (e2, out2)"
        "e2 = with_buffer e2 (add_entry c e1)" "writes e1 out1 [(bitSize e, M_CLR)] e2 out2"
      by auto
    let ?e = "clearDict e2\<lparr>lastCode := unat c\<rparr>"
    have "encode_char (2 * N) c e out = Inr (2 * N, ?e, out2)"
      using True 3 cap l w1(1) w2(1) len w by (simp add: encode_char_def Let_def grow_or_clear_def)
    moreover have "?e = with_buffer ?e (clearDict (add_entry c e)\<lparr>lastCode := unat c\<rparr>)"
      by (subst (1) w2(2), subst (1) w1(2)) (simp add: with_buffer_def add_entry_def clearDict_def)
    moreover have wr: "writes e out ([(bitSize e, lastCode e)] @ [(bitSize e, M_CLR)]) ?e out2"
      using writes_trans [OF w1(3) w2(3)] by simp
    moreover have "budget (k + 1) ?e out2"
      using b(2) wr len4 3(2) w by (auto simp: budget_def clearDict_def writes_def)
    ultimately show ?thesis using True 3 w by (auto simp: code_step_def Let_def)
  qed
qed

subsection \<open>The whole encoder\<close>

lemma code_step_inv: "enc_inv tbl e \<Longrightarrow> \<exists>tbl'. enc_inv tbl' (snd (code_step c e))"
  by (erule code_step_cases [where c = c]) auto

lemma code_run_inv: "enc_inv tbl e \<Longrightarrow> \<exists>tbl'. enc_inv tbl' (snd (code_run cs e))"
proof (induction cs arbitrary: tbl e)
  case (Cons c cs)
  obtain tbl' where "enc_inv tbl' (snd (code_step c e))"
    using code_step_inv [OF Cons.prems] by blast
  from Cons.IH [OF this] show ?case by simp
qed auto

lemma encode_loop_spec:
  assumes "enc_inv tbl e" "buf_ok e" "budget k e out" "k + 1 + length rest = N"
  shows "\<exists>e' out'. encode_loop (2 * N) rest e out = Inr (2 * N, e', out')
    \<and> e' = with_buffer e' (snd (code_run rest e)) \<and> buf_ok e'
    \<and> writes e out (fst (code_run rest e)) e' out' \<and> budget (N - 1) e' out'"
  using assms
proof (induction rest arbitrary: tbl k e out)
  case Nil
  have "e = with_buffer e e" by (simp add: with_buffer_def)
  with Nil show ?case by (auto simp: writes_def)
next
  case (Cons c rest)
  obtain e1 out1 where 1: "encode_char (2 * N) c e out = Inr (2 * N, e1, out1)"
      "e1 = with_buffer e1 (snd (code_step c e))"
      "writes e out (fst (code_step c e)) e1 out1" "budget (k + 1) e1 out1"
    using encode_char_spec [OF Cons.prems(1-3), of N c] Cons.prems(4) by auto
  obtain tbl1 where "enc_inv tbl1 (snd (code_step c e))" using code_step_inv [OF Cons.prems(1)] by blast
  then have inv1: "enc_inv tbl1 e1" by (subst 1(2)) simp
  have "buf_ok e1" using 1(3) by (simp add: writes_def)
  from Cons.IH [OF inv1 this 1(4)] Cons.prems(4) obtain e2 out2 where
    2: "encode_loop (2 * N) rest e1 out1 = Inr (2 * N, e2, out2)"
       "e2 = with_buffer e2 (snd (code_run rest e1))" "buf_ok e2"
       "writes e1 out1 (fst (code_run rest e1)) e2 out2" "budget (N - 1) e2 out2" by auto
  have run: "code_run rest e1 = (fst (code_run rest (snd (code_step c e))),
      with_buffer e1 (snd (code_run rest (snd (code_step c e)))))"
    by (subst 1(2)) (rule code_run_with_buffer)
  have "writes e out (fst (code_run (c # rest) e)) e2 out2"
    using writes_trans [OF 1(3) 2(4)] run by simp
  moreover have "e2 = with_buffer e2 (snd (code_run (c # rest) e))"
    by (subst 2(2)) (simp add: run)
  ultimately show ?case using 1 2 by simp
qed

definition first_state :: "u8 \<Rightarrow> lzwEncoder" where
  "first_state c = lzwEncoder_new\<lparr>lastCode := unat c, firstPass := False\<rparr>"

lemma first_state_inv: "enc_inv base_table (first_state c)"
  using fresh_table [of "first_state c"] byte_code_ok [of base_table c]
  by (simp add: enc_inv_def first_state_def lzwEncoder_new_def width_ok_def clearDict_def table_ok_def)

text \<open>All codes of an encoded input, and the padding the flush leaves behind.\<close>

definition all_codes :: "bytes \<Rightarrow> (nat \<times> nat) list" where
  "all_codes xs = (9, M_CLR) #
     (let (ws, e) = code_run (tl xs) (first_state (hd xs)) in
      ws @ [(bitSize e, lastCode e), (bitSize e, M_EOD)])"

definition pad_ok :: "bool list \<Rightarrow> bool" where
  "pad_ok pad \<longleftrightarrow> pad = [] \<or> \<not> hd pad"

lemma last_bit: "0 < k \<Longrightarrow> bits k n = bs @ bits j m \<Longrightarrow> 0 < j \<Longrightarrow> odd n \<Longrightarrow> odd m"
proof -
  assume a: "0 < k" "bits k n = bs @ bits j m" "0 < j" "odd n"
  have "last (bits (Suc i) x) = odd x" for i x by (induction i) auto
  then have l: "0 < i \<Longrightarrow> last (bits i x) = odd x" for i x by (cases i) auto
  have "last (bits k n) = last (bits j m)"
    using a(2,3) by (metis last_appendR length_bits length_greater_0_conv)
  with l [OF a(1), of n] l [OF a(3), of m] a(4) show "odd m" by metis
qed

lemma flush_spec:
  assumes ok: "buf_ok e" and bits: "enc_bits e out = bs @ bits (bitSize e) M_EOD"
    and b: "9 \<le> bitSize e" and cap: "total e out + bitSize e \<le> 8 * cap + 7"
  shows "\<exists>e' out' pad. (if ebuffer e \<noteq> 0 then writeBits cap (ebuffer e) e out else Inr (e, out))
      = Inr (e', out') \<and> byte_bits out' = bs @ bits (bitSize e) M_EOD @ pad \<and> pad_ok pad"
proof (cases "ebuffer e = 0")
  case True
  have "nWriteBits e = 0"
  proof (rule ccontr)
    assume n: "nWriteBits e \<noteq> 0"
    let ?B = "bits (nWriteBits e) (ebuffer e)" and ?E = "bits (bitSize e) M_EOD"
    have "length ?B < length ?E" using ok b by (simp add: buf_ok_def)
    then have "?B \<noteq> us @ ?E" for us by (metis le_add2 length_append linorder_not_less)
    with bits obtain cs where E: "?E = cs @ ?B"
      unfolding enc_bits_def append_eq_append_conv2 by metis
    have "0 < bitSize e" "0 < nWriteBits e" "odd M_EOD" using n b by (simp_all add: M_EOD_def)
    then have "odd (ebuffer e)" using last_bit [OF _ E] by blast
    with True show False by simp
  qed
  with bits have "byte_bits out = bs @ bits (bitSize e) M_EOD @ []" by (simp add: enc_bits_def)
  moreover have "pad_ok []" by (simp add: pad_ok_def)
  ultimately show ?thesis
    using True by (intro exI [where x = e] exI [where x = out] exI [where x = "[]"]) simp
next
  case False
  have small: "ebuffer e < 2 ^ 8"
    using ok power_strict_increasing [of "nWriteBits e" 8 "2::nat"] by (simp add: buf_ok_def)
  have "ebuffer e < 2 ^ bitSize e"
    using small b power_increasing [of 8 "bitSize e" "2::nat"] by simp
  moreover have "length out + (nWriteBits e + bitSize e) div 8 \<le> cap"
    using cap by (simp add: total_def)
  ultimately obtain e' out' where
    w: "writeBits cap (ebuffer e) e out = Inr (e', out')"
       "enc_bits e' out' = enc_bits e out @ bits (bitSize e) (ebuffer e)"
       "length out' = length out + (nWriteBits e + bitSize e) div 8"
    using writeBits_spec [OF ok] by blast
  let ?k = "length (byte_bits out') - length (enc_bits e out)"
  have le: "length (enc_bits e out) \<le> length (byte_bits out')"
    using w(3) ok b by (simp add: enc_bits_def buf_ok_def)
  have "byte_bits out' = take (length (byte_bits out')) (enc_bits e' out')"
    by (simp add: enc_bits_def)
  also have "\<dots> = enc_bits e out @ take ?k (bits (bitSize e) (ebuffer e))"
    using le by (simp add: w(2))
  finally have eq: "byte_bits out' = enc_bits e out @ take ?k (bits (bitSize e) (ebuffer e))" .
  have "\<exists>m. bitSize e = Suc m \<and> 8 \<le> m" using b by (cases "bitSize e") auto
  then obtain m where m: "bitSize e = Suc m" "8 \<le> m" by blast
  have "ebuffer e < 2 ^ m" using small m(2) power_increasing [of 8 m "2::nat"] by simp
  then have "pad_ok (take ?k (bits (bitSize e) (ebuffer e)))"
    using m(1) by (cases ?k) (simp_all add: pad_ok_def)
  with eq obtain pad where "byte_bits out' = enc_bits e out @ pad" "pad_ok pad" by blast
  with False w(1) bits show ?thesis by auto
qed

lemma streamEnd_spec:
  assumes inv: "enc_inv tbl e" and b: "buf_ok e"
    and cap: "total e out + 3 * bitSize e \<le> 8 * cap + 7"
  shows "\<exists>e' out' pad. streamEnd cap e out = Inr (e', out') \<and> pad_ok pad
    \<and> byte_bits out' = enc_bits e out @ code_bits [(bitSize e, lastCode e), (bitSize e, M_EOD)] @ pad"
proof -
  obtain e1 out1 where 1: "writeBits cap (lastCode e) e out = Inr (e1, out1)" "e1 = with_buffer e1 e"
      "writes e out [(bitSize e, lastCode e)] e1 out1"
    using writeBits_writes [OF b code_less_width(1) [OF inv], of out cap] cap by auto
  have s1: "bitSize e1 = bitSize e" by (subst 1(2)) simp
  obtain e2 out2 where 2: "writeBits cap M_EOD e1 out1 = Inr (e2, out2)" "e2 = with_buffer e2 e1"
      "writes e1 out1 [(bitSize e, M_EOD)] e2 out2"
    using writeBits_writes [of e1 M_EOD out1 cap] 1(3) s1 code_less_width(3) [OF inv] cap
    by (auto simp: writes_def)
  have s2: "bitSize e2 = bitSize e" by (subst 2(2)) (simp add: s1)
  have w: "buf_ok e2" "total e2 out2 + bitSize e2 \<le> 8 * cap + 7"
    "enc_bits e2 out2 = (enc_bits e out @ bits (bitSize e) (lastCode e)) @ bits (bitSize e2) M_EOD"
    using 1(3) 2(3) s2 cap by (auto simp: writes_def)
  have "9 \<le> bitSize e2" using inv s2 by (simp add: enc_inv_def width_ok_def)
  from flush_spec [OF w(1,3) this w(2)] s2 show ?thesis
    by (auto simp: streamEnd_def 1(1) 2(1))
qed

lemma emit_bytes_length:
  "emit_bytes cap buf n out = Inr (b, m, out') \<Longrightarrow> length out \<le> cap \<Longrightarrow> length out' \<le> cap"
  by (induction cap buf n out rule: emit_bytes.induct)
    (subst (asm) (2) emit_bytes.simps, auto simp: bindR_Inr_iff put_def split: if_splits)

lemma writeBits_length:
  "writeBits cap w e out = Inr (e', out') \<Longrightarrow> length out \<le> cap \<Longrightarrow> length out' \<le> cap"
  by (auto simp: writeBits_def bindR_Inr_iff dest: emit_bytes_length)

lemma streamEnd_length:
  "streamEnd cap e out = Inr (e', out') \<Longrightarrow> length out \<le> cap \<Longrightarrow> length out' \<le> cap"
  by (auto simp: streamEnd_def bindR_Inr_iff dest!: writeBits_length split: if_splits)

lemma lzw_encode_run:
  assumes "3 \<le> length xs"
  shows "\<exists>e out pad. lzw_encode lzwEncoder_new xs = Inr (e, out) \<and> length out \<le> 2 * length xs
    \<and> byte_bits out = code_bits (all_codes xs) @ pad \<and> pad_ok pad"
proof -
  obtain c rest where xs: "xs = c # rest" using assms by (cases xs) auto
  let ?N = "length xs" and ?e0 = "first_state c"
  have b0: "buf_ok ?e0" "bitSize ?e0 = 9"
    by (simp_all add: buf_ok_def first_state_def lzwEncoder_new_def)
  obtain e1 out1 where 1: "writeBits (2 * ?N) M_CLR ?e0 [] = Inr (e1, out1)"
      "e1 = with_buffer e1 ?e0" "writes ?e0 [] [(9, M_CLR)] e1 out1"
    using writeBits_writes [OF b0(1), of M_CLR "[]" "2 * ?N"] b0(2) assms
    by (auto simp: M_CLR_def total_def first_state_def lzwEncoder_new_def)
  have f1: "edict e1 = edict ?e0" "bitSize e1 = 9" by (subst 1(2), simp add: b0)+
  have inv1: "enc_inv base_table e1" by (subst 1(2)) (simp add: first_state_inv)
  have "buf_ok e1" "budget 0 e1 out1"
    using 1(3) f1 by (auto simp: writes_def budget_def total_def first_state_def lzwEncoder_new_def)
  from encode_loop_spec [OF inv1 this, of rest ?N] obtain e2 out2 where
    2: "encode_loop (2 * ?N) rest e1 out1 = Inr (2 * ?N, e2, out2)"
       "e2 = with_buffer e2 (snd (code_run rest e1))" "buf_ok e2"
       "writes e1 out1 (fst (code_run rest e1)) e2 out2" "budget (?N - 1) e2 out2"
    by (auto simp: xs)
  have run: "code_run rest e1 = (fst (code_run rest ?e0), with_buffer e1 (snd (code_run rest ?e0)))"
    by (subst 1(2)) (rule code_run_with_buffer)
  let ?ef = "snd (code_run rest ?e0)"
  have ef: "bitSize e2 = bitSize ?ef" "lastCode e2 = lastCode ?ef" by (subst 2(2), simp add: run)+
  obtain tbl where "enc_inv tbl ?ef" using code_run_inv [OF first_state_inv] by blast
  then have inv2: "enc_inv tbl e2" by (subst 2(2)) (simp add: run)
  have "bitSize e2 \<le> 12" using inv2 by (simp add: enc_inv_def width_ok_def)
  then have "total e2 out2 + 3 * bitSize e2 \<le> 8 * (2 * ?N) + 7"
    using 2(5) assms by (cases "?N - 1 \<le> 253") (auto simp: budget_def)
  from streamEnd_spec [OF inv2 2(3) this] obtain e3 out3 pad where
    3: "streamEnd (2 * ?N) e2 out2 = Inr (e3, out3)" "pad_ok pad"
       "byte_bits out3 = enc_bits e2 out2 @ code_bits [(bitSize e2, lastCode e2), (bitSize e2, M_EOD)] @ pad"
    by blast
  have "length out2 \<le> 2 * ?N"
    using \<open>total e2 out2 + 3 * bitSize e2 \<le> 8 * (2 * ?N) + 7\<close> inv2
    by (simp add: total_def enc_inv_def width_ok_def)
  with 3(1) have len: "length out3 \<le> 2 * ?N" by (rule streamEnd_length)
  have "start_encode (?N * 2) lzwEncoder_new xs = Inr (rest, e1, out1)"
    using 1(1) by (simp add: start_encode_def xs first_state_def lzwEncoder_new_def mult.commute)
  then have "lzw_encode lzwEncoder_new xs = Inr (e3, out3)"
    using 2(1) 3(1) by (simp add: lzw_encode_def Let_def mult.commute)
  moreover have "enc_bits ?e0 [] = []" by (simp add: enc_bits_def first_state_def lzwEncoder_new_def)
  moreover have "enc_bits e2 out2 = enc_bits ?e0 [] @ bits 9 M_CLR @ code_bits (fst (code_run rest ?e0))"
    using 1(3) 2(4) run by (simp add: writes_def)
  ultimately show ?thesis
    using 3 ef len by (auto simp: all_codes_def xs Let_def split: prod.splits)
qed

lemma lzw_encode_bits:
  assumes "3 \<le> length xs"
  shows "\<exists>e out pad. lzw_encode lzwEncoder_new xs = Inr (e, out)
    \<and> byte_bits out = code_bits (all_codes xs) @ pad \<and> pad_ok pad"
  using lzw_encode_run [OF assms] by blast

end
