(* ===== verification/LzwDecode.thy ===== *)
theory LzwDecode
  imports LzwEncode
begin

text \<open>
  The LZW decoder of lib/liblzw (\<open>lzwDecoder\<close>). The decoder does not know when the data ends
  other than by its counter \<open>inSize\<close>, and the loop that reads the first code after a clear code
  does not count down: the model keeps the bytes really there (\<open>inp\<close>) and the counter apart, so
  that a read behind the end is visible. Such a read, and a write behind the output, ends the run of the
  model; what the program does after it, with what happens to be in memory, is not modelled.

  The two nested loops of \<open>decode\<close> test \<open>inSize\<close> in the outer loop only. The inner loop
  never changes it, so testing it before every code is the same, and \<open>decode_loop\<close> is one loop
  over codes.
\<close>

record lzwDecoder =
  dmaxBit :: nat
  ddict :: "bytes list"
  dmaxCode :: nat
  dbitSize :: nat
  dbuffer :: nat
  nReadbits :: nat
  dcode :: nat
  lastChar :: u8
  dlastCode :: nat
  dfirstPass :: bool

text \<open>The constructor leaves \<open>lastCode\<close>, \<open>code\<close> and \<open>nextCode\<close> unset, here 0. Its
  dictionary lacks the entry 255 (\<open>i < 255\<close>).\<close>

definition lzwDecoder_new :: "nat \<Rightarrow> lzwDecoder" where
  "lzwDecoder_new mb = \<lparr>dmaxBit = mb, ddict = map (\<lambda>i. [word_of_nat i]) [0..<255] @ [[], []],
     dmaxCode = 512, dbitSize = 9, dbuffer = 0, nReadbits = 0, dcode = 0, lastChar = 0,
     dlastCode = 0, dfirstPass = True\<rparr>"

definition dclearDict :: "lzwDecoder \<Rightarrow> lzwDecoder" where
  "dclearDict d = d\<lparr>ddict := map (\<lambda>i. [word_of_nat i]) [0..<256] @ [[], []], dbitSize := 9,
     dmaxCode := 512, dlastCode := 256, lastChar := 0, dfirstPass := True\<rparr>"

record decode_run =
  dec :: lzwDecoder
  inp :: bytes
  inSize :: nat
  outb :: bytes
  outSize :: nat

text \<open>
  Reading \<open>bitSize\<close> bits. \<open>k\<close> is what a byte read takes from \<open>inSize\<close>: 0 in the loop for
  the first code, 1 in the other one. \<open>Inr None\<close>: not enough data, the decoder returns.
\<close>

fun fill_buffer :: "nat \<Rightarrow> bytes \<Rightarrow> nat \<Rightarrow> lzwDecoder \<Rightarrow> fault + (bytes \<times> nat \<times> lzwDecoder) option" where
  "fill_buffer k src n d =
     (if nReadbits d < dbitSize d then
        if n > 0 then
          (case src of
             [] \<Rightarrow> Inl OverRead
           | b # src' \<Rightarrow> fill_buffer k src' (n - k)
               (d\<lparr>dbuffer := push_bit 8 (dbuffer d) OR unat b, nReadbits := nReadbits d + 8\<rparr>))
        else Inr None
      else Inr (Some (src, n, d)))"

declare fill_buffer.simps [simp del]

definition take_code :: "lzwDecoder \<Rightarrow> nat \<times> lzwDecoder" where
  "take_code d =
     (let n = nReadbits d - dbitSize d; code = drop_bit n (dbuffer d) in
      (code, d\<lparr>nReadbits := n, dcode := code, dbuffer := dbuffer d AND (push_bit n 1 - 1)\<rparr>))"

text \<open>The first code after a clear code: written without a test of the output size.\<close>

definition first_code :: "nat \<Rightarrow> decode_run \<Rightarrow> fault + (bytes + decode_run)" where
  "first_code code r =
     (if code = M_EOD then Inr (Inl (outb r))
      else if code = M_CLR then Inr (Inr (r\<lparr>dec := dclearDict (dec r)\<rparr>))
      else bindR (put (outSize r) (outb r) (word_of_nat code)) (\<lambda>out.
        Inr (Inr (r\<lparr>outb := out, dec := (dec r)\<lparr>dlastCode := code, lastChar := word_of_nat code,
                    dfirstPass := False\<rparr>\<rparr>))))"

text \<open>Copying a word, with the buffer doubled whenever it is full.\<close>

fun write_word :: "bytes \<Rightarrow> bytes \<Rightarrow> nat \<Rightarrow> fault + (bytes \<times> nat)" where
  "write_word [] out cap = Inr (out, cap)"
| "write_word (b # bs) out cap =
     (let cap' = (if length out \<ge> cap then cap * 2 else cap) in
      bindR (put cap' out b) (\<lambda>out'. write_word bs out' cap'))"

definition word_of_code :: "nat \<Rightarrow> lzwDecoder \<Rightarrow> fault + bytes" where
  "word_of_code code d =
     (if code > length (ddict d) - 1 then
        if dlastCode d < length (ddict d) then Inr (ddict d ! dlastCode d @ [lastChar d])
        else Inl OutOfRange
      else Inr (ddict d ! code))"

definition learn :: "nat \<Rightarrow> u8 \<Rightarrow> lzwDecoder \<Rightarrow> fault + lzwDecoder" where
  "learn code c d =
     (if dlastCode d < length (ddict d) then
        let d1 = d\<lparr>lastChar := c, ddict := ddict d @ [ddict d ! dlastCode d @ [c]], dlastCode := code\<rparr>
        in if length (ddict d1) = dmaxCode d1 - 1 \<and> dbitSize d1 < dmaxBit d1
           then Inr (d1\<lparr>dbitSize := dbitSize d1 + 1, dmaxCode := dmaxCode d1 * 2\<rparr>)
           else Inr d1
      else Inl OutOfRange)"

text \<open>
  \<open>*(outString.begin())\<close> of an empty word (the entries 256 and 257 reached through a broken
  stream) reads no element: an \<open>OverRead\<close>.
\<close>

definition next_code :: "nat \<Rightarrow> decode_run \<Rightarrow> fault + (bytes + decode_run)" where
  "next_code code r =
     (if code = M_EOD then Inr (Inl (outb r))
      else if code = M_CLR then Inr (Inr (r\<lparr>dec := dclearDict (dec r)\<rparr>))
      else
        bindR (word_of_code code (dec r)) (\<lambda>w.
        case w of [] \<Rightarrow> Inl OverRead
        | c # _ \<Rightarrow>
          bindR (write_word w (outb r) (outSize r)) (\<lambda>(out, cap).
          bindR (learn code c (dec r)) (\<lambda>d.
            Inr (Inr (r\<lparr>outb := out, outSize := cap, dec := d\<rparr>))))))"

definition decode_step :: "decode_run \<Rightarrow> fault + (bytes + decode_run)" where
  "decode_step r =
     (let first = dfirstPass (dec r) in
      bindR (fill_buffer (if first then 0 else 1) (inp r) (inSize r) (dec r)) (\<lambda>got.
        case got of
          None \<Rightarrow> Inr (Inl (outb r))
        | Some (rest, n, d) \<Rightarrow>
            let (code, d') = take_code d; r' = r\<lparr>inp := rest, inSize := n, dec := d'\<rparr> in
            if first then first_code code r' else next_code code r'))"

partial_function (option) decode_loop :: "decode_run \<Rightarrow> (fault + bytes) option" where
  "decode_loop r =
     (if inSize r = 0 then Some (Inr (outb r))
      else case decode_step r of
        Inl f \<Rightarrow> Some (Inl f)
      | Inr (Inl out) \<Rightarrow> Some (Inr out)
      | Inr (Inr r') \<Rightarrow> decode_loop r')"

text \<open>\<open>decode\<close> with the size hint of the caller (0: the default of 256 * 256 * 4 bytes).\<close>

definition BUFFER_SIZE :: nat where "BUFFER_SIZE = 256 * 256 * 4"

definition lzw_decode :: "lzwDecoder \<Rightarrow> bytes \<Rightarrow> nat \<Rightarrow> (fault + bytes) option" where
  "lzw_decode d data outPos =
     decode_loop \<lparr>dec = d, inp = data, inSize = length data, outb = [],
                  outSize = (if outPos \<noteq> 0 then outPos else BUFFER_SIZE)\<rparr>"

end
