(* ===== verification/LzwRoundtrip.thy ===== *)
theory LzwRoundtrip
  imports LzwDecode
begin

text \<open>
  The decoder follows the encoder: the codes the encoder writes, read back one after the other,
  rebuild the encoder's words one code late. The one place where the two lose each other is the
  end of the data (\<open>ends_before_growth\<close>).
\<close>

subsection \<open>Reading codes back\<close>

definition run_bits :: "lzwDecoder \<Rightarrow> bytes \<Rightarrow> bool list" where
  "run_bits d src = bits (nReadbits d) (dbuffer d) @ byte_bits src"

definition dbuf_ok :: "lzwDecoder \<Rightarrow> bool" where
  "dbuf_ok d \<longleftrightarrow> dbuffer d < 2 ^ nReadbits d"

definition with_dbuffer :: "lzwDecoder \<Rightarrow> lzwDecoder \<Rightarrow> lzwDecoder" where
  "with_dbuffer b d = d\<lparr>dbuffer := dbuffer b, nReadbits := nReadbits b, dcode := dcode b\<rparr>"

lemma with_dbuffer_simps [simp]:
  "dmaxBit (with_dbuffer b d) = dmaxBit d" "ddict (with_dbuffer b d) = ddict d"
  "dmaxCode (with_dbuffer b d) = dmaxCode d" "dbitSize (with_dbuffer b d) = dbitSize d"
  "lastChar (with_dbuffer b d) = lastChar d" "dlastCode (with_dbuffer b d) = dlastCode d"
  "dfirstPass (with_dbuffer b d) = dfirstPass d"
  by (simp_all add: with_dbuffer_def)

lemma fill_buffer_ok:
  assumes "dbuf_ok d" "dbitSize d \<le> length (run_bits d src)" "length src \<le> n" "k \<le> 1"
  shows "\<exists>src' n' d'. fill_buffer k src n d = Inr (Some (src', n', d')) \<and> d' = with_dbuffer d' d
    \<and> dbuf_ok d' \<and> run_bits d' src' = run_bits d src \<and> dbitSize d \<le> nReadbits d'
    \<and> n + length src' \<le> n' + length src \<and> n' \<le> n \<and> n \<le> n' + k * length src \<and> length src' \<le> length src
    \<and> (nReadbits d < dbitSize d \<longrightarrow> length src' < length src)"
  using assms
proof (induction src arbitrary: n d)
  case Nil
  then have "d = with_dbuffer d d" "\<not> nReadbits d < dbitSize d"
    by (auto simp: with_dbuffer_def run_bits_def)
  with Nil show ?case by (auto simp: fill_buffer.simps)
next
  case (Cons b src)
  show ?case
  proof (cases "nReadbits d < dbitSize d")
    case False
    moreover have "d = with_dbuffer d d" by (simp add: with_dbuffer_def)
    ultimately show ?thesis using Cons.prems by (auto simp: fill_buffer.simps)
  next
    case True
    let ?d = "d\<lparr>dbuffer := push_bit 8 (dbuffer d) OR unat b, nReadbits := nReadbits d + 8\<rparr>"
    have u: "unat b < 2 ^ 8" using unsigned_less [of b, where 'a = nat] by simp
    have buf: "dbuffer ?d = dbuffer d * 2 ^ 8 + unat b" by (simp add: or_disjoint_nat [OF u, simplified])
    have "dbuffer d * 2 ^ 8 + unat b < (dbuffer d + 1) * 2 ^ 8" using u by simp
    also have "\<dots> \<le> 2 ^ nReadbits d * 2 ^ 8"
      using Cons.prems(1) unfolding dbuf_ok_def by (intro mult_right_mono) auto
    finally have ok: "dbuf_ok ?d" unfolding dbuf_ok_def buf by (simp add: power_add)
    have rb: "run_bits ?d src = run_bits d (b # src)"
      using bits_append [OF u, of "nReadbits d" "dbuffer d"] buf by (simp add: run_bits_def)
    have "fill_buffer k (b # src) n d = fill_buffer k src (n - k) ?d"
      using True Cons.prems(3) by (simp add: fill_buffer.simps [of k "b # src"])
    moreover have "dbitSize ?d \<le> length (run_bits ?d src)" "length src \<le> n - k"
      using Cons.prems rb by simp_all
    from Cons.IH [OF ok this Cons.prems(4)] obtain src' n' d' where
      "fill_buffer k src (n - k) ?d = Inr (Some (src', n', d'))" "d' = with_dbuffer d' ?d"
      "dbuf_ok d'" "run_bits d' src' = run_bits ?d src" "dbitSize d \<le> nReadbits d'"
      "n - k + length src' \<le> n' + length src" "n' \<le> n - k" "n - k \<le> n' + k * length src"
      "length src' \<le> length src"
      by auto
    moreover have "with_dbuffer d' ?d = with_dbuffer d' d" for d' by (simp add: with_dbuffer_def)
    ultimately show ?thesis using rb Cons.prems(3,4) by (cases "k = 0") auto
  qed
qed

lemma take_code_ok:
  assumes "dbuf_ok d" "dbitSize d \<le> nReadbits d"
    "run_bits d src = bits (dbitSize d) code @ rest" "code < 2 ^ dbitSize d"
  shows "\<exists>d'. take_code d = (code, d') \<and> d' = with_dbuffer d' d \<and> dbuf_ok d'
    \<and> run_bits d' src = rest"
proof -
  let ?n = "nReadbits d - dbitSize d"
  let ?hi = "dbuffer d div 2 ^ ?n" and ?lo = "dbuffer d mod 2 ^ ?n"
  have hi: "?hi < 2 ^ dbitSize d"
    using assms(1,2) by (simp add: dbuf_ok_def less_mult_imp_div_less flip: power_add)
  have "dbuffer d = ?hi * 2 ^ ?n + ?lo" by (rule div_mult_mod_eq [symmetric])
  moreover have "dbitSize d + ?n = nReadbits d" using assms(2) by simp
  ultimately have "bits (nReadbits d) (dbuffer d) = bits (dbitSize d) ?hi @ bits ?n ?lo"
    using bits_append [of ?lo ?n "dbitSize d" ?hi] by simp
  with assms(3) have "bits (dbitSize d) ?hi @ (bits ?n ?lo @ byte_bits src) = bits (dbitSize d) code @ rest"
    by (simp add: run_bits_def)
  then have "bits (dbitSize d) ?hi = bits (dbitSize d) code" "bits ?n ?lo @ byte_bits src = rest"
    by simp_all
  then have "?hi = code" "bits ?n ?lo @ byte_bits src = rest"
    using bits_eq_iff [OF hi assms(4)] by simp_all
  then show ?thesis
    by (auto simp: take_code_def Let_def drop_bit_eq_div with_dbuffer_def dbuf_ok_def run_bits_def
        push_bit_eq_mult)
qed

text \<open>A run whose counter is ahead of the bytes really left (the first code was read).\<close>

definition run_ok :: "decode_run \<Rightarrow> bool" where
  "run_ok r \<longleftrightarrow> dbuf_ok (dec r) \<and> length (inp r) < inSize r"

definition rest_bits :: "decode_run \<Rightarrow> bool list" where
  "rest_bits r = run_bits (dec r) (inp r)"

definition handle :: "nat \<Rightarrow> decode_run \<Rightarrow> fault + (bytes + decode_run)" where
  "handle code r = (if dfirstPass (dec r) then first_code code r else next_code code r)"

text \<open>One code off the stream: the loop goes on with the handler of the code.\<close>

lemma decode_loop_code:
  assumes ok: "dbuf_ok (dec r)" "length (inp r) \<le> inSize r" "0 < inSize r"
    and rest: "rest_bits r = bits (dbitSize (dec r)) code @ bs" and c: "code < 2 ^ dbitSize (dec r)"
  shows "\<exists>src n d. decode_loop r
        = (case handle code (r\<lparr>inp := src, inSize := n, dec := d\<rparr>) of
            Inl f \<Rightarrow> Some (Inl f) | Inr (Inl out) \<Rightarrow> Some (Inr out) | Inr (Inr r') \<Rightarrow> decode_loop r')
      \<and> d = with_dbuffer d (dec r) \<and> dbuf_ok d \<and> run_bits d src = bs
      \<and> inSize r + length src \<le> n + length (inp r) \<and> length src \<le> length (inp r)
      \<and> (dfirstPass (dec r) \<longrightarrow> n = inSize r)
      \<and> (nReadbits (dec r) < dbitSize (dec r) \<longrightarrow> length src < length (inp r))"
proof -
  define k where "k = (if dfirstPass (dec r) then 0 else 1 :: nat)"
  have k1: "k \<le> 1" by (simp add: k_def)
  have "dbitSize (dec r) \<le> length (run_bits (dec r) (inp r))" using rest by (simp add: rest_bits_def)
  from fill_buffer_ok [OF ok(1) this ok(2) k1] obtain src n d1 where
    f: "fill_buffer k (inp r) (inSize r) (dec r) = Inr (Some (src, n, d1))"
       "d1 = with_dbuffer d1 (dec r)" "dbuf_ok d1" "run_bits d1 src = run_bits (dec r) (inp r)"
       "dbitSize (dec r) \<le> nReadbits d1" "inSize r + length src \<le> n + length (inp r)"
       "n \<le> inSize r" "inSize r \<le> n + k * length (inp r)" "length src \<le> length (inp r)"
       "nReadbits (dec r) < dbitSize (dec r) \<longrightarrow> length src < length (inp r)"
    by blast
  have s: "dbitSize d1 = dbitSize (dec r)" "dfirstPass d1 = dfirstPass (dec r)" by (subst f(2), simp)+
  obtain d where d: "take_code d1 = (code, d)" "d = with_dbuffer d d1" "dbuf_ok d" "run_bits d src = bs"
    using take_code_ok [of d1 src code bs] f(3-5) s rest c by (auto simp: rest_bits_def)
  have dd: "d = with_dbuffer d (dec r)" by (subst d(2), subst f(2)) (simp add: with_dbuffer_def)
  have fp: "dfirstPass d = dfirstPass (dec r)" by (subst dd) simp
  have "decode_step r = handle code (r\<lparr>inp := src, inSize := n, dec := d\<rparr>)"
    using f(1) d(1) fp by (simp add: decode_step_def handle_def Let_def flip: k_def)
  then show ?thesis
    using ok(3) dd d f(6-10) k_def
    by (intro exI [where x = src] exI [where x = n] exI [where x = d])
      (auto simp: decode_loop.simps [of r])
qed

subsection \<open>The decoder is one entry behind the encoder\<close>

definition sync :: "bytes list \<Rightarrow> lzwEncoder \<Rightarrow> lzwDecoder \<Rightarrow> bool" where
  "sync tbl e d \<longleftrightarrow> dmaxBit d = 12 \<and> dbitSize d = bitSize e \<and> dmaxCode d = maxCode e
     \<and> (if dfirstPass d then ddict d = base_table \<and> tbl = base_table \<and> lastCode e < 256
        else ddict d = butlast tbl \<and> 259 \<le> length tbl \<and> code_ok (dlastCode d) (butlast tbl)
          \<and> last tbl = tbl ! dlastCode d @ [hd (tbl ! lastCode e)]
          \<and> lastChar d = hd (tbl ! dlastCode d))"

definition decoded :: "bytes list \<Rightarrow> nat \<Rightarrow> lzwDecoder \<Rightarrow> bool" where
  "decoded tbl code d \<longleftrightarrow> \<not> dfirstPass d \<and> ddict d = tbl \<and> dlastCode d = code
     \<and> lastChar d = hd (tbl ! code) \<and> dmaxBit d = 12 \<and> dmaxCode d = 2 ^ dbitSize d"

definition width_after :: "bytes list \<Rightarrow> lzwEncoder \<Rightarrow> nat" where
  "width_after tbl e =
     (if length tbl + 1 = maxCode e \<and> bitSize e < 12 then bitSize e + 1 else bitSize e)"

lemma sync_with_dbuffer [simp]: "sync tbl e (with_dbuffer b d) = sync tbl e d"
  by (simp add: sync_def)

lemma write_word_room:
  "length out + length w \<le> cap \<Longrightarrow> write_word w out cap = Inr (out @ w, cap)"
  by (induction w arbitrary: out) (auto simp: put_ok)

lemma handle_first:
  assumes inv: "enc_inv tbl e" and sync: "sync tbl e (dec r)" and f: "dfirstPass (dec r)"
    and room: "length (outb r) + length (tbl ! lastCode e) \<le> outSize r"
  shows "\<exists>d. handle (lastCode e) r = Inr (Inr (r\<lparr>outb := outb r @ tbl ! lastCode e, dec := d\<rparr>))
    \<and> decoded tbl (lastCode e) d \<and> dbitSize d = width_after tbl e
    \<and> dbuffer d = dbuffer (dec r) \<and> nReadbits d = nReadbits (dec r)"
proof -
  have t: "tbl = base_table" "lastCode e < 256" "ddict (dec r) = base_table"
    using sync f by (auto simp: sync_def)
  have w: "tbl ! lastCode e = [word_of_nat (lastCode e)]" using t by simp
  have m: "maxCode e = 2 ^ bitSize e" "dmaxCode (dec r) = maxCode e" "dbitSize (dec r) = bitSize e"
    "dmaxBit (dec r) = 12" "9 \<le> bitSize e"
    using inv sync by (auto simp: enc_inv_def width_ok_def sync_def)
  have "2 ^ 9 \<le> (2::nat) ^ bitSize e" using m(5) by (intro power_increasing) auto
  then have "width_after tbl e = bitSize e" using m(1) t(1) by (simp add: width_after_def)
  then show ?thesis
    using t w m room f
    by (auto simp: handle_def first_code_def M_CLR_def M_EOD_def put_ok decoded_def)
qed

text \<open>Every code but the newest one is in the decoder's dictionary, and the newest one is the
  word the decoder makes up from its last word.\<close>

lemma word_of_code_sync:
  assumes inv: "enc_inv tbl e" and sync: "sync tbl e d" and f: "\<not> dfirstPass d"
  shows "word_of_code (lastCode e) d = Inr (tbl ! lastCode e)"
proof -
  have t: "ddict d = butlast tbl" "259 \<le> length tbl" "code_ok (dlastCode d) (butlast tbl)"
    "last tbl = tbl ! dlastCode d @ [hd (tbl ! lastCode e)]" "lastChar d = hd (tbl ! dlastCode d)"
    using sync f by (auto simp: sync_def)
  have tok: "table_ok tbl e" and lok: "code_ok (lastCode e) tbl" using inv by (auto simp: enc_inv_def)
  have old: "code_ok (dlastCode d) tbl" using t(3) by (auto simp: code_ok_def)
  have dl: "dlastCode d < length tbl - 1" using t(3) by (simp add: code_ok_def)
  show ?thesis
  proof (cases "lastCode e < length tbl - 1")
    case True
    then show ?thesis using t by (auto simp: word_of_code_def nth_butlast)
  next
    case False
    then have new: "lastCode e = length tbl - 1" using lok by (auto simp: code_ok_def)
    then have w: "tbl ! lastCode e = last tbl" using t(2) by (subst last_conv_nth) auto
    have "hd (last tbl) = hd (tbl ! dlastCode d)"
      by (subst t(4)) (simp add: code_ok_nonempty [OF tok old])
    then have "hd (tbl ! lastCode e) = lastChar d" by (simp only: w t(5))
    then have "last tbl = tbl ! dlastCode d @ [lastChar d]" by (rule subst) (rule t(4))
    with w have "tbl ! lastCode e = tbl ! dlastCode d @ [lastChar d]" by (rule trans)
    then show ?thesis
      using new t(1,2) dl by (auto simp: word_of_code_def nth_butlast)
  qed
qed

lemma learn_sync:
  assumes inv: "enc_inv tbl e" and sync: "sync tbl e d" and f: "\<not> dfirstPass d"
  shows "\<exists>d'. learn (lastCode e) (hd (tbl ! lastCode e)) d = Inr d' \<and> decoded tbl (lastCode e) d'
    \<and> dbitSize d' = width_after tbl e \<and> dbuffer d' = dbuffer d \<and> nReadbits d' = nReadbits d"
proof -
  have t: "ddict d = butlast tbl" "259 \<le> length tbl" "code_ok (dlastCode d) (butlast tbl)"
    "last tbl = tbl ! dlastCode d @ [hd (tbl ! lastCode e)]" "dmaxBit d = 12"
    "dbitSize d = bitSize e" "dmaxCode d = maxCode e"
    using sync f by (auto simp: sync_def)
  have dl: "dlastCode d < length tbl - 1" using t(3) by (simp add: code_ok_def)
  then have "ddict d @ [ddict d ! dlastCode d @ [hd (tbl ! lastCode e)]] = butlast tbl @ [last tbl]"
    using t by (simp add: nth_butlast)
  also have "\<dots> = tbl" using t(2) by (intro append_butlast_last_id) auto
  finally have dict: "ddict d @ [ddict d ! dlastCode d @ [hd (tbl ! lastCode e)]] = tbl" .
  have m: "maxCode e = 2 ^ bitSize e" "length tbl < maxCode e"
    using inv by (auto simp: enc_inv_def width_ok_def table_ok_def)
  have "length tbl = maxCode e - 1 \<longleftrightarrow> length tbl + 1 = maxCode e" using m(2) by auto
  then show ?thesis
    using dict dl t m f by (auto simp: learn_def Let_def decoded_def width_after_def)
qed

lemma handle_word:
  assumes inv: "enc_inv tbl e" and sync: "sync tbl e (dec r)"
    and room: "length (outb r) + length (tbl ! lastCode e) \<le> outSize r"
  shows "\<exists>d. handle (lastCode e) r = Inr (Inr (r\<lparr>outb := outb r @ tbl ! lastCode e, dec := d\<rparr>))
    \<and> decoded tbl (lastCode e) d \<and> dbitSize d = width_after tbl e
    \<and> dbuffer d = dbuffer (dec r) \<and> nReadbits d = nReadbits (dec r)"
proof (cases "dfirstPass (dec r)")
  case True
  from handle_first [OF inv sync True room] show ?thesis .
next
  case False
  have ne: "tbl ! lastCode e \<noteq> []" "lastCode e \<noteq> M_CLR" "lastCode e \<noteq> M_EOD"
    using inv code_ok_nonempty by (auto simp: enc_inv_def code_ok_def)
  then obtain c cs where w: "tbl ! lastCode e = c # cs" by (cases "tbl ! lastCode e") auto
  obtain d where "learn (lastCode e) c (dec r) = Inr d" "decoded tbl (lastCode e) d"
      "dbitSize d = width_after tbl e" "dbuffer d = dbuffer (dec r)" "nReadbits d = nReadbits (dec r)"
    using learn_sync [OF inv sync False] w by auto
  moreover have "write_word (c # cs) (outb r) (outSize r) = Inr (outb r @ c # cs, outSize r)"
    using room w by (intro write_word_room) simp
  ultimately show ?thesis
    using False ne word_of_code_sync [OF inv sync False] w
    by (intro exI [where x = d]) (simp add: handle_def next_code_def del: write_word.simps)
qed

lemma handle_clear:
  "handle M_CLR r = Inr (Inr (r\<lparr>dec := dclearDict (dec r)\<rparr>))"
  by (simp add: handle_def first_code_def next_code_def M_CLR_def M_EOD_def)

lemma handle_end: "handle M_EOD r = Inr (Inl (outb r))"
  by (simp add: handle_def first_code_def next_code_def)

text \<open>After a word, the decoder is in step with what the encoder does with the next character.\<close>

lemma sync_add:
  assumes inv: "enc_inv tbl e" and d: "decoded tbl (lastCode e) d" "dbitSize d = width_after tbl e"
    and e': "enc_inv (tbl @ [tbl ! lastCode e @ [c]]) e'" "lastCode e' = unat c"
    and b: "bitSize e' = (if length tbl + 1 = 2 ^ bitSize e then bitSize e + 1 else bitSize e)"
           "length tbl + 1 = 2 ^ bitSize e \<Longrightarrow> bitSize e < 12"
  shows "sync (tbl @ [tbl ! lastCode e @ [c]]) e' d"
proof -
  have i: "maxCode e = 2 ^ bitSize e" "maxCode e' = 2 ^ bitSize e'" "code_ok (lastCode e) tbl"
    "258 \<le> length tbl" "table_ok tbl e"
    using inv e'(1) by (auto simp: enc_inv_def width_ok_def table_ok_def)
  have "bitSize e' = dbitSize d" using b d(2) i(1) by (auto simp: width_after_def)
  moreover have "(tbl @ [tbl ! lastCode e @ [c]]) ! unat c = [c]"
    using table_base [OF i(5), of "unat c"] i(4) unsigned_less [of c, where 'a = nat]
    by (simp add: nth_append)
  moreover have "lastCode e < length tbl" using i(3) by (simp add: code_ok_def)
  ultimately show ?thesis
    using d i e'(2) by (simp add: sync_def decoded_def nth_append)
qed

lemma sync_clear:
  assumes "enc_inv base_table e'" "lastCode e' = unat (c::u8)" "bitSize e' = 9" "dmaxBit d = 12"
  shows "sync base_table e' (dclearDict d)"
  using assms unsigned_less [of c, where 'a = nat]
  by (simp add: sync_def dclearDict_def enc_inv_def width_ok_def base_table_def)

subsection \<open>The whole stream\<close>

definition continues :: "decode_run \<Rightarrow> bool list \<Rightarrow> bytes \<Rightarrow> decode_run \<Rightarrow> bool" where
  "continues r bs out r' \<longleftrightarrow> decode_loop r = decode_loop r' \<and> run_ok r' \<and> rest_bits r' = bs
     \<and> outb r' = out \<and> outSize r' = outSize r"

lemma loop_word:
  assumes inv: "enc_inv tbl e" and sync: "sync tbl e (dec r)" and ok: "run_ok r"
    and bits: "rest_bits r = bits (bitSize e) (lastCode e) @ bs"
    and room: "length (outb r) + length (tbl ! lastCode e) \<le> outSize r"
  shows "\<exists>r'. continues r bs (outb r @ tbl ! lastCode e) r' \<and> decoded tbl (lastCode e) (dec r')
    \<and> dbitSize (dec r') = width_after tbl e"
proof -
  have s: "dbitSize (dec r) = bitSize e" using sync by (simp add: sync_def)
  have pre: "dbuf_ok (dec r)" "length (inp r) \<le> inSize r" "0 < inSize r"
    using ok by (auto simp: run_ok_def)
  obtain src n d where l: "decode_loop r
        = (case handle (lastCode e) (r\<lparr>inp := src, inSize := n, dec := d\<rparr>) of
            Inl f \<Rightarrow> Some (Inl f) | Inr (Inl out) \<Rightarrow> Some (Inr out) | Inr (Inr r') \<Rightarrow> decode_loop r')"
      "d = with_dbuffer d (dec r)" "dbuf_ok d" "run_bits d src = bs"
      "inSize r + length src \<le> n + length (inp r)"
    using decode_loop_code [OF pre, of "lastCode e" bs] bits s code_less_width(1) [OF inv] by auto
  let ?r = "r\<lparr>inp := src, inSize := n, dec := d\<rparr>"
  have "sync tbl e (dec ?r)" using sync by simp (subst l(2), simp)
  from handle_word [OF inv this] room obtain d' where
    h: "handle (lastCode e) ?r = Inr (Inr (?r\<lparr>outb := outb r @ tbl ! lastCode e, dec := d'\<rparr>))"
       "decoded tbl (lastCode e) d'" "dbitSize d' = width_after tbl e"
       "dbuffer d' = dbuffer d" "nReadbits d' = nReadbits d" by auto
  show ?thesis
    using h l(1,3-5) ok
    by (intro exI [where x = "?r\<lparr>outb := outb r @ tbl ! lastCode e, dec := d'\<rparr>"])
      (auto simp: continues_def run_ok_def rest_bits_def run_bits_def dbuf_ok_def)
qed

lemma loop_clear:
  assumes ok: "run_ok r" and b: "9 \<le> dbitSize (dec r)"
    and bits: "rest_bits r = bits (dbitSize (dec r)) M_CLR @ bs"
  shows "\<exists>r' d. continues r bs (outb r) r' \<and> dec r' = dclearDict d \<and> dmaxBit d = dmaxBit (dec r)"
proof -
  have pre: "dbuf_ok (dec r)" "length (inp r) \<le> inSize r" "0 < inSize r"
    using ok by (auto simp: run_ok_def)
  have "2 ^ 9 \<le> (2::nat) ^ dbitSize (dec r)" using b by (intro power_increasing) auto
  then have c: "M_CLR < 2 ^ dbitSize (dec r)" by (simp add: M_CLR_def)
  obtain src n d where l: "decode_loop r
        = (case handle M_CLR (r\<lparr>inp := src, inSize := n, dec := d\<rparr>) of
            Inl f \<Rightarrow> Some (Inl f) | Inr (Inl out) \<Rightarrow> Some (Inr out) | Inr (Inr r') \<Rightarrow> decode_loop r')"
      "d = with_dbuffer d (dec r)" "dbuf_ok d" "run_bits d src = bs"
      "inSize r + length src \<le> n + length (inp r)"
    using decode_loop_code [OF pre bits c] by auto
  have "dmaxBit d = dmaxBit (dec r)" by (subst l(2)) simp
  then show ?thesis
    using l(1,3-5) ok
    by (intro exI [where x = "r\<lparr>inp := src, inSize := n, dec := dclearDict d\<rparr>"] exI [where x = d])
      (auto simp: handle_clear continues_def run_ok_def rest_bits_def run_bits_def dbuf_ok_def
          dclearDict_def)
qed

lemma continues_trans:
  "continues r bs out r1 \<Longrightarrow> continues r1 cs out' r2 \<Longrightarrow> continues r cs out' r2"
  by (simp add: continues_def)

text \<open>
  All codes of the data, the pending last one included: the decoder ends with the data, and with
  the code width that follows the last word.
\<close>

lemma decode_follows:
  assumes "enc_inv tbl e" "sync tbl e (dec r)" "run_ok r"
    "rest_bits r = code_bits (fst (code_run cs e))
       @ bits (bitSize (snd (code_run cs e))) (lastCode (snd (code_run cs e))) @ bs"
    "outb r @ tbl ! lastCode e @ cs = xs" "length xs \<le> outSize r"
  shows "\<exists>r' tbl'. continues r bs xs r' \<and> enc_inv tbl' (snd (code_run cs e))
    \<and> decoded tbl' (lastCode (snd (code_run cs e))) (dec r')
    \<and> dbitSize (dec r') = width_after tbl' (snd (code_run cs e))"
  using assms
proof (induction cs arbitrary: tbl e r)
  case Nil
  have "length (outb r) + length (tbl ! lastCode e) \<le> outSize r"
    using Nil.prems(5,6) by auto
  with loop_word [OF Nil.prems(1-3), of bs] Nil.prems show ?case by auto
next
  case (Cons c cs)
  have room: "length (outb r) + length (tbl ! lastCode e) \<le> outSize r" using Cons.prems(5,6) by auto
  from Cons.prems(1) show ?case
  proof (cases rule: code_step_cases [where c = c])
    case (extend q)
    have "tbl ! lastCode e \<noteq> []"
      using Cons.prems(1) code_ok_nonempty by (auto simp: enc_inv_def)
    moreover have "sync tbl (e\<lparr>lastCode := q\<rparr>) (dec r)"
    proof (cases "dfirstPass (dec r)")
      case True
      with Cons.prems(2) have t: "tbl = base_table" "lastCode e < 256" by (auto simp: sync_def)
      then have w: "tbl ! q = [word_of_nat (lastCode e), c]" using extend(3) by simp
      have "q < 256"
      proof (rule ccontr)
        assume "\<not> q < 256"
        then have "q = 256 \<or> q = 257"
          using extend(2) t by (auto simp: enc_inv_def code_ok_def)
        then show False using extend(2) by (auto simp: enc_inv_def code_ok_def M_CLR_def M_EOD_def)
      qed
      with w t(1) show ?thesis by simp
    next
      case False
      with Cons.prems(2) extend(3) \<open>tbl ! lastCode e \<noteq> []\<close> show ?thesis by (simp add: sync_def)
    qed
    ultimately show ?thesis
      using Cons.IH [OF extend(2) _ Cons.prems(3)] Cons.prems(4-6) extend(1,3) by simp
  next
    case (add e')
    have rb: "rest_bits r = bits (bitSize e) (lastCode e) @ code_bits (fst (code_run cs e'))
       @ bits (bitSize (snd (code_run cs e'))) (lastCode (snd (code_run cs e'))) @ bs"
      using Cons.prems(4) add(1) by simp
    from loop_word [OF Cons.prems(1-3) rb room] obtain r1 where
      r1: "continues r (code_bits (fst (code_run cs e'))
       @ bits (bitSize (snd (code_run cs e'))) (lastCode (snd (code_run cs e'))) @ bs)
         (outb r @ tbl ! lastCode e) r1"
        "decoded tbl (lastCode e) (dec r1)" "dbitSize (dec r1) = width_after tbl e" by blast
    let ?tbl = "tbl @ [tbl ! lastCode e @ [c]]"
    have s: "sync ?tbl e' (dec r1)"
      by (rule sync_add [OF Cons.prems(1) r1(2,3) add(2-5)])
    have "?tbl ! lastCode e' = [c]"
      using table_base [of ?tbl e' "unat c"] add(2,3) unsigned_less [of c, where 'a = nat]
      by (simp add: enc_inv_def)
    then have "outb r1 @ ?tbl ! lastCode e' @ cs = xs" "length xs \<le> outSize r1" "run_ok r1"
      using r1(1) Cons.prems(5,6) by (auto simp: continues_def)
    from Cons.IH [OF add(2) s this(3) _ this(1,2)] r1(1) add(1) show ?thesis
      by (auto simp: continues_def)
  next
    case (clear e')
    let ?bs = "code_bits (fst (code_run cs e'))
       @ bits (bitSize (snd (code_run cs e'))) (lastCode (snd (code_run cs e'))) @ bs"
    have rb: "rest_bits r = bits (bitSize e) (lastCode e) @ bits 12 M_CLR @ ?bs"
      using Cons.prems(4) clear(1,2) by simp
    from loop_word [OF Cons.prems(1-3) rb room] obtain r1 where
      r1: "continues r (bits 12 M_CLR @ ?bs) (outb r @ tbl ! lastCode e) r1"
        "decoded tbl (lastCode e) (dec r1)" "dbitSize (dec r1) = width_after tbl e" by blast
    have 12: "dbitSize (dec r1) = 12" "dmaxBit (dec r1) = 12"
      using r1(2,3) clear(2) by (auto simp: width_after_def decoded_def)
    obtain r2 d where r2: "continues r1 ?bs (outb r1) r2" "dec r2 = dclearDict d" "dmaxBit d = 12"
      using loop_clear [of r1 ?bs] r1(1) 12 by (auto simp: continues_def)
    have s: "sync base_table e' (dec r2)"
      unfolding r2(2) by (rule sync_clear [OF clear(4-6) r2(3)])
    have "outb r2 @ base_table ! lastCode e' @ cs = xs" "length xs \<le> outSize r2" "run_ok r2"
      using r1(1) r2(1) clear(5) Cons.prems(5,6) unsigned_less [of c, where 'a = nat]
      by (auto simp: continues_def)
    from Cons.IH [OF clear(4) s this(3) _ this(1,2)] r1(1) r2(1) clear(1) show ?thesis
      by (auto simp: continues_def)
  qed
qed

subsection \<open>From the start\<close>

definition start_run :: "bytes \<Rightarrow> nat \<Rightarrow> decode_run" where
  "start_run data cap = \<lparr>dec = lzwDecoder_new 12, inp = data, inSize = length data, outb = [],
     outSize = cap\<rparr>"

lemma decode_start:
  assumes bits: "byte_bits data = bits 9 M_CLR @ bs"
  shows "\<exists>r d. continues (start_run data cap) bs [] r \<and> dec r = dclearDict d \<and> dmaxBit d = 12"
proof -
  let ?r = "start_run data cap"
  have "length (byte_bits data) \<ge> 9" using bits by simp
  then have "0 < length data" by (cases data) auto
  then have pre: "dbuf_ok (dec ?r)" "length (inp ?r) \<le> inSize ?r" "0 < inSize ?r"
    by (simp_all add: start_run_def dbuf_ok_def lzwDecoder_new_def)
  have b: "dbitSize (dec ?r) = 9" "dmaxBit (dec ?r) = 12" "dfirstPass (dec ?r)"
    "nReadbits (dec ?r) = 0" "length (inp ?r) = inSize ?r"
    by (simp_all add: start_run_def lzwDecoder_new_def)
  have rb: "rest_bits ?r = bits (dbitSize (dec ?r)) M_CLR @ bs"
    using bits by (simp add: rest_bits_def run_bits_def start_run_def lzwDecoder_new_def)
  have c: "M_CLR < 2 ^ dbitSize (dec ?r)" using b by (simp add: M_CLR_def)
  obtain src n d where l: "decode_loop ?r
        = (case handle M_CLR (?r\<lparr>inp := src, inSize := n, dec := d\<rparr>) of
            Inl f \<Rightarrow> Some (Inl f) | Inr (Inl out) \<Rightarrow> Some (Inr out) | Inr (Inr r') \<Rightarrow> decode_loop r')"
      "d = with_dbuffer d (dec ?r)" "dbuf_ok d" "run_bits d src = bs" "n = inSize ?r"
      "length src < length (inp ?r)"
    using decode_loop_code [OF pre rb c] b by auto
  have "dmaxBit d = 12" by (subst l(2)) (simp add: b)
  then show ?thesis
    using l(1,3-6) b(5)
    by (intro exI [where x = "?r\<lparr>inp := src, inSize := n, dec := dclearDict d\<rparr>"] exI [where x = d])
      (auto simp: handle_clear continues_def run_ok_def rest_bits_def run_bits_def dbuf_ok_def
          dclearDict_def start_run_def)
qed

text \<open>The encoder's state after the last character, and the ends at which the widths differ.\<close>

definition final_state :: "bytes \<Rightarrow> lzwEncoder" where
  "final_state xs = snd (code_run (tl xs) (first_state (hd xs)))"

definition ends_before_growth :: "bytes \<Rightarrow> bool" where
  "ends_before_growth xs \<longleftrightarrow>
     length (edict (final_state xs)) + 1 = maxCode (final_state xs) \<and> bitSize (final_state xs) < 12"

lemma decode_until_end:
  assumes "xs \<noteq> []" "byte_bits data = code_bits (all_codes xs) @ pad" "length xs \<le> cap"
  shows "\<exists>r tbl. continues (start_run data cap) (bits (bitSize (final_state xs)) M_EOD @ pad) xs r
    \<and> enc_inv tbl (final_state xs) \<and> decoded tbl (lastCode (final_state xs)) (dec r)
    \<and> dbitSize (dec r) = width_after tbl (final_state xs)"
proof -
  obtain c cs where xs: "xs = c # cs" using assms(1) by (cases xs) auto
  let ?e = "first_state c" and ?f = "final_state xs"
  have f: "?f = snd (code_run cs ?e)" by (simp add: final_state_def xs)
  let ?bs = "code_bits (fst (code_run cs ?e)) @ bits (bitSize ?f) (lastCode ?f)
      @ bits (bitSize ?f) M_EOD @ pad"
  have "byte_bits data = bits 9 M_CLR @ ?bs"
    using assms(2) by (simp add: all_codes_def final_state_def xs split: prod.splits)
  from decode_start [OF this, of cap] obtain r d where
    r: "continues (start_run data cap) ?bs [] r" "dec r = dclearDict d" "dmaxBit d = 12" by blast
  have l: "lastCode ?e = unat c" "bitSize ?e = 9" by (simp_all add: first_state_def lzwEncoder_new_def)
  have s: "sync base_table ?e (dec r)"
    unfolding r(2) by (rule sync_clear [OF first_state_inv l r(3)])
  have "base_table ! lastCode ?e = [c]" using l unsigned_less [of c, where 'a = nat] by simp
  then have "outb r @ base_table ! lastCode ?e @ cs = xs" "length xs \<le> outSize r" "run_ok r"
    "rest_bits r = ?bs"
    using r(1) assms(3) xs by (auto simp: continues_def start_run_def)
  from decode_follows [OF first_state_inv s this(3) this(4) [unfolded f] this(1,2)]
  show ?thesis unfolding f using r(1) by (blast intro: continues_trans)
qed

lemma decode_end:
  assumes c: "continues r0 (bits (bitSize e) M_EOD @ pad) xs r" and inv: "enc_inv tbl e"
    and w: "dbitSize (dec r) = bitSize e"
  shows "decode_loop r0 = Some (Inr xs)"
proof -
  have pre: "dbuf_ok (dec r)" "length (inp r) \<le> inSize r" "0 < inSize r"
    and rb: "rest_bits r = bits (dbitSize (dec r)) M_EOD @ pad"
    using c w by (auto simp: continues_def run_ok_def)
  have "M_EOD < 2 ^ dbitSize (dec r)" using code_less_width(3) [OF inv] w by simp
  from decode_loop_code [OF pre rb this] c show ?thesis
    by (auto simp: handle_end continues_def)
qed

subsection \<open>The stream that ends one entry before the dictionary grows\<close>

lemma fill_buffer_short:
  assumes "length (run_bits d src) < dbitSize d" "length src < n" "k \<le> 1"
  shows "fill_buffer k src n d = Inl OverRead"
  using assms
proof (induction src arbitrary: n d)
  case Nil
  then show ?case by (simp add: fill_buffer.simps run_bits_def)
next
  case (Cons b src)
  have "nReadbits d < dbitSize d" using Cons.prems(1) by (simp add: run_bits_def)
  moreover have "length src < n - k" using Cons.prems(2,3) by simp
  ultimately show ?case
    using Cons.prems(1,2)
    by (subst fill_buffer.simps) (auto intro!: Cons.IH [OF _ _ Cons.prems(3)] simp: run_bits_def)
qed

lemma write_word_appends: "write_word w out cap = Inr (out', cap') \<Longrightarrow> out' = out @ w"
proof (induction w arbitrary: out cap)
  case (Cons b w)
  then obtain cap1 where "write_word w (out @ [b]) cap1 = Inr (out', cap')"
    by (auto simp: Let_def bindR_Inr_iff put_def split: if_splits)
  from Cons.IH [OF this] show ?case by simp
qed auto

lemma fill_buffer_first:
  "fill_buffer k src n d = Inr (Some (src', n', d')) \<Longrightarrow> dfirstPass d' = dfirstPass d"
proof (induction src arbitrary: n d)
  case Nil
  then show ?case by (auto simp: fill_buffer.simps split: if_splits)
next
  case (Cons b src)
  show ?case
  proof (cases "nReadbits d < dbitSize d")
    case True
    with Cons.prems have "fill_buffer k src (n - k)
        (d\<lparr>dbuffer := push_bit 8 (dbuffer d) OR unat b, nReadbits := nReadbits d + 8\<rparr>)
        = Inr (Some (src', n', d'))"
      by (auto simp: fill_buffer.simps [of k "b # src"] split: if_splits)
    from Cons.IH [OF this] show ?thesis by simp
  qed (use Cons.prems in \<open>auto simp: fill_buffer.simps [of k "b # src"]\<close>)
qed

lemma next_code_Inr:
  assumes "next_code code r = Inr x" "code \<noteq> M_CLR" "code \<noteq> M_EOD"
  obtains w out cap d where "word_of_code code (dec r) = Inr w" "w \<noteq> []"
    "write_word w (outb r) (outSize r) = Inr (out, cap)" "learn code (hd w) (dec r) = Inr d"
    "x = Inr (r\<lparr>outb := out, outSize := cap, dec := d\<rparr>)"
proof -
  from assms obtain w where w: "word_of_code code (dec r) = Inr w"
    by (cases "word_of_code code (dec r)") (auto simp: next_code_def)
  with assms obtain c cs where c: "w = c # cs" by (cases w) (auto simp: next_code_def)
  with assms w obtain out cap where o: "write_word w (outb r) (outSize r) = Inr (out, cap)"
    by (cases "write_word w (outb r) (outSize r)") (auto simp: next_code_def)
  with assms w c obtain d where l: "learn code c (dec r) = Inr d"
    by (cases "learn code c (dec r)") (auto simp: next_code_def)
  with assms w c o have "x = Inr (r\<lparr>outb := out, outSize := cap, dec := d\<rparr>)"
    by (simp add: next_code_def del: write_word.simps)
  with w c o l that show thesis by simp
qed

lemma next_code_grows:
  assumes "next_code code r = Inr (Inr r')"
  shows "length (outb r) \<le> length (outb r')"
proof (cases "code = M_CLR \<or> code = M_EOD")
  case True
  with assms show ?thesis by (auto simp: next_code_def M_CLR_def M_EOD_def)
next
  case False
  with assms show ?thesis by (auto elim!: next_code_Inr dest!: write_word_appends)
qed

lemma handle_grows:
  "handle code r = Inr (Inr r') \<Longrightarrow> length (outb r) \<le> length (outb r')"
  by (auto simp: handle_def first_code_def bindR_Inr_iff put_def
      dest: next_code_grows split: if_splits)

lemma handle_returns:
  assumes "handle code r = Inr (Inl out)"
  shows "out = outb r"
proof (cases "code = M_CLR \<or> code = M_EOD")
  case True
  with assms show ?thesis
    by (auto simp: handle_def first_code_def next_code_def split: if_splits)
next
  case False
  with assms show ?thesis
    by (auto simp: handle_def first_code_def bindR_Inr_iff elim!: next_code_Inr split: if_splits)
qed

lemma fill_buffer_measure:
  "fill_buffer k src n d = Inr (Some (src', n', d')) \<Longrightarrow>
     dbitSize d' = dbitSize d \<and> dbitSize d \<le> nReadbits d'
     \<and> 8 * length src' + nReadbits d' = 8 * length src + nReadbits d"
proof (induction src arbitrary: n d)
  case Nil
  then show ?case by (auto simp: fill_buffer.simps [of k "[]"] split: if_splits)
next
  case (Cons b src)
  show ?case
    using Cons.prems Cons.IH by (fastforce simp: fill_buffer.simps [of k "b # src"] split: if_splits)
qed

lemma decode_step_handle:
  assumes "decode_step r = Inr x"
  shows "x = Inl (outb r)
     \<or> (\<exists>code src n d. handle code (r\<lparr>inp := src, inSize := n, dec := d\<rparr>) = Inr x
         \<and> dbitSize d = dbitSize (dec r) \<and> 8 * length src + nReadbits d + dbitSize (dec r)
             = 8 * length (inp r) + nReadbits (dec r))"
proof -
  let ?k = "if dfirstPass (dec r) then 0 else 1 :: nat"
  obtain got where g: "fill_buffer ?k (inp r) (inSize r) (dec r) = Inr got"
    using assms by (cases "fill_buffer ?k (inp r) (inSize r) (dec r)") (auto simp: decode_step_def Let_def)
  show ?thesis
  proof (cases got)
    case None
    with g assms show ?thesis by (auto simp: decode_step_def Let_def)
  next
    case (Some a)
    obtain src n d where a: "a = (src, n, d)" by (metis prod_cases3)
    obtain code d' where t: "take_code d = (code, d')" by fastforce
    have "dfirstPass d' = dfirstPass (dec r)"
      using fill_buffer_first g t unfolding Some a by (auto simp: take_code_def Let_def)
    then have "handle code (r\<lparr>inp := src, inSize := n, dec := d'\<rparr>) = Inr x"
      using g assms t unfolding Some a by (auto simp: decode_step_def Let_def handle_def)
    moreover have "dbitSize d' = dbitSize (dec r) \<and> 8 * length src + nReadbits d' + dbitSize (dec r)
        = 8 * length (inp r) + nReadbits (dec r)"
      using fill_buffer_measure [OF g [unfolded Some a]] t by (auto simp: take_code_def Let_def)
    ultimately show ?thesis by blast
  qed
qed

lemma decode_step_grows:
  "decode_step r = Inr (Inr r') \<Longrightarrow> length (outb r) \<le> length (outb r')"
  by (auto dest!: decode_step_handle handle_grows)

lemma decode_step_returns: "decode_step r = Inr (Inl out) \<Longrightarrow> out = outb r"
  by (auto dest!: decode_step_handle handle_returns)

lemma decode_loop_grows:
  assumes "decode_loop r = Some (Inr out)"
  shows "length (outb r) \<le> length out"
proof -
  have "\<forall>out. y = Inr out \<longrightarrow> length (outb r) \<le> length out" if "decode_loop r = Some y" for y
  proof (rule decode_loop.raw_induct [OF _ that,
        where P = "\<lambda>r y. \<forall>out. y = Inr out \<longrightarrow> length (outb r) \<le> length out"])
    fix f r y
    assume IH: "\<And>r y. f r = Some y \<Longrightarrow> \<forall>out. y = Inr out \<longrightarrow> length (outb r) \<le> length out"
      and eq: "(if inSize r = 0 then Some (Inr (outb r))
        else case decode_step r of Inl f \<Rightarrow> Some (Inl f)
          | Inr (Inl out) \<Rightarrow> Some (Inr out) | Inr (Inr r') \<Rightarrow> f r') = Some y"
    show "\<forall>out. y = Inr out \<longrightarrow> length (outb r) \<le> length out"
      using eq by (auto split: if_splits sum.splits dest!: decode_step_returns decode_step_grows IH)
  qed
  with assms show ?thesis by blast
qed

text \<open>With one bit too many read, the end marker is taken for a code, and more is written.\<close>

lemma decode_past_end:
  assumes c: "continues r0 (bits (bitSize e) M_EOD @ pad) xs r" and pad: "pad_ok pad"
    and inv: "enc_inv tbl e" and d: "decoded tbl (lastCode e) (dec r)"
    and w: "dbitSize (dec r) = bitSize e + 1" and len: "length tbl + 1 = 2 ^ bitSize e"
  shows "decode_loop r0 \<noteq> Some (Inr xs)"
proof -
  have r: "decode_loop r0 = decode_loop r" "run_ok r" "rest_bits r = bits (bitSize e) M_EOD @ pad"
    "outb r = xs" "inSize r \<noteq> 0"
    using c by (auto simp: continues_def run_ok_def)
  have fp: "\<not> dfirstPass (dec r)" using d by (simp add: decoded_def)
  show ?thesis
  proof (cases pad)
    case Nil
    have "fill_buffer 1 (inp r) (inSize r) (dec r) = Inl OverRead"
      using r(2,3) w Nil by (intro fill_buffer_short) (auto simp: run_ok_def rest_bits_def)
    then have "decode_loop r = Some (Inl OverRead)"
      using r(5) fp by (simp add: decode_loop.simps [of r] decode_step_def)
    with r(1) show ?thesis by simp
  next
    case (Cons p ps)
    with pad have "rest_bits r = bits (bitSize e) M_EOD @ bits 1 0 @ ps"
      using r(3) by (simp add: pad_ok_def)
    then have rb: "rest_bits r = bits (dbitSize (dec r)) (2 * M_EOD) @ ps"
      using bits_append [of 0 1 "bitSize e" M_EOD] w by (simp add: mult.commute)
    have code: "2 * M_EOD < 2 ^ dbitSize (dec r)" using code_less_width(3) [OF inv] w by simp
    have pre: "dbuf_ok (dec r)" "length (inp r) \<le> inSize r" "0 < inSize r"
      using r(2) by (auto simp: run_ok_def)
    obtain src n d1 where l: "decode_loop r
        = (case handle (2 * M_EOD) (r\<lparr>inp := src, inSize := n, dec := d1\<rparr>) of
            Inl f \<Rightarrow> Some (Inl f) | Inr (Inl out) \<Rightarrow> Some (Inr out) | Inr (Inr r') \<Rightarrow> decode_loop r')"
        "d1 = with_dbuffer d1 (dec r)"
      using decode_loop_code [OF pre rb code] by auto
    have h: "handle (2 * M_EOD) (r\<lparr>inp := src, inSize := n, dec := d1\<rparr>)
        = next_code (2 * M_EOD) (r\<lparr>inp := src, inSize := n, dec := d1\<rparr>)"
      using fp by (simp add: handle_def) (subst l(2), simp)
    show ?thesis
    proof (cases "next_code (2 * M_EOD) (r\<lparr>inp := src, inSize := n, dec := d1\<rparr>)")
      case (Inl f)
      with l h r(1) show ?thesis by simp
    next
      case (Inr x)
      then have "\<exists>r3. x = Inr r3 \<and> length xs < length (outb r3)"
        using r(4) by (elim next_code_Inr) (auto simp: M_EOD_def M_CLR_def dest!: write_word_appends)
      then obtain r3 where "x = Inr r3" "length xs < length (outb r3)" by blast
      with l(1) h Inr have "decode_loop r = decode_loop r3" "length xs < length (outb r3)" by simp_all
      then show ?thesis using r(1) decode_loop_grows [of r3 xs] by auto
    qed
  qed
qed

subsection \<open>Round trip\<close>

lemma roundtrip_iff:
  assumes "3 \<le> length xs" "length xs \<le> (if hint \<noteq> 0 then hint else BUFFER_SIZE)"
    "lzw_encode lzwEncoder_new xs = Inr (e, data)"
  shows "lzw_decode (lzwDecoder_new 12) data hint = Some (Inr xs) \<longleftrightarrow> \<not> ends_before_growth xs"
proof -
  let ?cap = "if hint \<noteq> 0 then hint else BUFFER_SIZE" and ?f = "final_state xs"
  obtain pad where p: "byte_bits data = code_bits (all_codes xs) @ pad" "pad_ok pad"
    using lzw_encode_bits [OF assms(1)] assms(3) by auto
  have "xs \<noteq> []" using assms(1) by auto
  from decode_until_end [OF this p(1) assms(2)] obtain r tbl where
    r: "continues (start_run data ?cap) (bits (bitSize ?f) M_EOD @ pad) xs r"
       "enc_inv tbl ?f" "decoded tbl (lastCode ?f) (dec r)" "dbitSize (dec r) = width_after tbl ?f"
    by blast
  have i: "length tbl = length (edict ?f)" "maxCode ?f = 2 ^ bitSize ?f"
    using r(2) by (auto simp: enc_inv_def table_ok_def width_ok_def)
  have dec: "lzw_decode (lzwDecoder_new 12) data hint = decode_loop (start_run data ?cap)"
    by (simp add: lzw_decode_def start_run_def)
  show ?thesis
  proof (cases "ends_before_growth xs")
    case False
    then have "dbitSize (dec r) = bitSize ?f"
      using r(4) i by (auto simp: width_after_def ends_before_growth_def)
    with decode_end [OF r(1,2)] dec False show ?thesis by simp
  next
    case True
    then have "dbitSize (dec r) = bitSize ?f + 1" "length tbl + 1 = 2 ^ bitSize ?f"
      using r(4) i by (auto simp: width_after_def ends_before_growth_def)
    with decode_past_end [OF r(1) p(2) r(2,3)] dec True show ?thesis by simp
  qed
qed


text \<open>Distinct bytes: every character makes a new entry.\<close>

lemma distinct_run:
  assumes "distinct (c # cs)" "lastCode e = unat c" "\<forall>b\<in>set (c # cs). edict e ! unat b = (\<lambda>_. 0)"
    "258 \<le> length (edict e)" "length (edict e) + length cs < maxCode e"
  shows "length (edict (snd (code_run cs e))) = length (edict e) + length cs
    \<and> maxCode (snd (code_run cs e)) = maxCode e \<and> bitSize (snd (code_run cs e)) = bitSize e"
  using assms
proof (induction cs arbitrary: c e)
  case Nil
  then show ?case by simp
next
  case (Cons a cs)
  let ?e = "snd (code_step a e)"
  have c: "unat c < length (edict e)"
    using Cons.prems(4) unsigned_less [of c, where 'a = nat] by simp
  have e: "?e = (add_entry a e)\<lparr>lastCode := unat a\<rparr>"
    using Cons.prems c by (simp add: code_step_def add_entry_def)
  have z: "edict ?e ! unat b = (\<lambda>_. 0)" if "b \<in> set (a # cs)" for b
  proof -
    have "b \<noteq> c" using Cons.prems(1) that by (metis distinct.simps(2))
    then have "unat b \<noteq> unat c" by (simp add: word_unat_eq_iff)
    moreover have "unat b < length (edict e)"
      using Cons.prems(4) unsigned_less [of b, where 'a = nat] by simp
    ultimately show ?thesis using that Cons.prems by (auto simp: e add_entry_def nth_append)
  qed
  have "length (edict ?e) = length (edict e) + 1" by (simp add: e add_entry_def)
  with Cons.IH [of a ?e] z Cons.prems show ?case by (simp add: e add_entry_def)
qed

lemma ends_before_growth_distinct:
  assumes "distinct xs" "xs \<noteq> []" "length xs < 255"
  shows "ends_before_growth xs \<longleftrightarrow> length xs = 254"
proof -
  obtain c cs where xs: "xs = c # cs" using assms(2) by (cases xs) auto
  have "edict (first_state c) ! unat b = (\<lambda>_. 0)" for b :: u8
    using unsigned_less [of b, where 'a = nat] by (simp add: first_state_def lzwEncoder_new_def)
  with distinct_run [of c cs "first_state c"] assms xs show ?thesis
    by (auto simp: ends_before_growth_def final_state_def first_state_def lzwEncoder_new_def)
qed

lemma encode_exists: "3 \<le> length xs \<Longrightarrow> \<exists>e out. lzw_encode lzwEncoder_new xs = Inr (e, out)"
  using lzw_encode_bits by blast

subsection \<open>Every run of the decoder ends\<close>

definition widths_ok :: "lzwDecoder \<Rightarrow> bool" where
  "widths_ok d \<longleftrightarrow> 1 \<le> dbitSize d"

lemma learn_keeps: "learn c w d = Inr d' \<Longrightarrow> nReadbits d' = nReadbits d \<and> dbitSize d \<le> dbitSize d'"
  by (auto simp: learn_def Let_def split: if_splits)

lemma handle_keeps:
  assumes "handle code r = Inr (Inr r')" "widths_ok (dec r)"
  shows "inp r' = inp r \<and> nReadbits (dec r') = nReadbits (dec r) \<and> widths_ok (dec r')"
proof (cases "code = M_CLR \<or> code = M_EOD")
  case True
  with assms show ?thesis
    by (auto simp: handle_def first_code_def next_code_def widths_ok_def dclearDict_def
        split: if_splits)
next
  case False
  with assms show ?thesis
    by (auto simp: handle_def first_code_def bindR_Inr_iff widths_ok_def
        elim!: next_code_Inr dest!: learn_keeps split: if_splits)
qed

lemma decode_step_measure:
  assumes "decode_step r = Inr (Inr r')" "widths_ok (dec r)"
  shows "8 * length (inp r') + nReadbits (dec r') < 8 * length (inp r) + nReadbits (dec r)
    \<and> widths_ok (dec r')"
  using assms by (auto dest!: decode_step_handle handle_keeps simp: widths_ok_def)

lemma decode_loop_returns: "widths_ok (dec r) \<Longrightarrow> \<exists>res. decode_loop r = Some res"
proof (induction "8 * length (inp r) + nReadbits (dec r)" arbitrary: r rule: less_induct)
  case less
  show ?case
    using less.hyps decode_step_measure [OF _ less.prems] less.prems
    by (auto simp: decode_loop.simps [of r] split: sum.splits)
qed

subsection \<open>Streams that are cut\<close>

text \<open>
  The first code is read without counting down, so from then on the counter is ahead of the bytes that are
  there, and the test for the end of the data never holds. Reading a stream and reading the same stream with
  its end cut off are the same until the bytes are used up.
\<close>

definition fills_alike :: "nat \<Rightarrow> bytes \<Rightarrow> nat \<Rightarrow> bytes \<Rightarrow> nat \<Rightarrow> lzwDecoder \<Rightarrow> bool" where
  "fills_alike k p n' s n d \<longleftrightarrow> fill_buffer k p n' d = Inl OverRead
     \<or> (\<exists>p1 n1' n1 d1. fill_buffer k p n' d = Inr (Some (p1, n1', d1)) \<and> fill_buffer k (p @ s) n d = Inr (Some (p1 @ s, n1, d1))
          \<and> length p1 < n1' \<and> length (p1 @ s) < n1)"

lemma fill_cut:
  assumes "length p < n'" "length (p @ s) < n" "k \<le> 1"
  shows "fills_alike k p n' s n d"
  using assms
proof (induction p arbitrary: n' n d)
  case Nil
  then show ?case by (auto simp: fills_alike_def fill_buffer.simps [of k "[]"] fill_buffer.simps [of k s])
next
  case (Cons b p n' n d)
  let ?d = "d\<lparr>dbuffer := push_bit 8 (dbuffer d) OR unat b, nReadbits := nReadbits d + 8\<rparr>"
  have "length p < n' - k" "length (p @ s) < n - k" using Cons.prems by auto
  from Cons.IH [OF this Cons.prems(3), of ?d] Cons.prems show ?case
    by (auto simp: fills_alike_def fill_buffer.simps [of k "b # p"] fill_buffer.simps [of k "b # p @ s"])
qed

lemma first_fill:
  assumes "nReadbits d < dbitSize d"
  shows "fills_alike 0 (b # p) (Suc (length p)) s (Suc (length (p @ s))) d"
proof -
  let ?d = "d\<lparr>dbuffer := push_bit 8 (dbuffer d) OR unat b, nReadbits := nReadbits d + 8\<rparr>"
  from fill_cut [of p "Suc (length p)" s "Suc (length (p @ s))" 0 ?d] assms show ?thesis
    by (simp add: fills_alike_def fill_buffer.simps [of 0 "b # p"] fill_buffer.simps [of 0 "b # p @ s"])
qed

text \<open>The handlers of codes do not look at the input.\<close>

definition with_input :: "bytes \<Rightarrow> nat \<Rightarrow> bytes + decode_run \<Rightarrow> bytes + decode_run" where
  "with_input p n = map_sum id (\<lambda>r. r\<lparr>inp := p, inSize := n\<rparr>)"

lemma handle_input:
  "handle code (r\<lparr>inp := p, inSize := n\<rparr>) = map_sum id (with_input p n) (handle code r)"
proof (cases "dfirstPass (dec r)")
  case True
  then show ?thesis by (cases "put (outSize r) (outb r) (word_of_nat code)") (auto simp: handle_def first_code_def with_input_def)
next
  case False
  show ?thesis
  proof (cases "word_of_code code (dec r)")
    case (Inr w)
    show ?thesis
    proof (cases w)
      case (Cons c w')
      then show ?thesis using False Inr
        by (cases "write_word w (outb r) (outSize r)"; cases "learn code c (dec r)")
          (auto simp: handle_def next_code_def with_input_def split: prod.splits simp del: write_word.simps)
    qed (use False Inr in \<open>simp add: handle_def next_code_def with_input_def\<close>)
  qed (use False in \<open>simp add: handle_def next_code_def with_input_def\<close>)
qed

lemma decode_step_handled:
  "decode_step r = bindR (fill_buffer (if dfirstPass (dec r) then 0 else 1) (inp r) (inSize r) (dec r)) (\<lambda>got.
     case got of None \<Rightarrow> Inr (Inl (outb r))
     | Some (rest, n, d) \<Rightarrow> handle (fst (take_code d)) (r\<lparr>inp := rest, inSize := n, dec := snd (take_code d)\<rparr>))"
proof (cases "fill_buffer (if dfirstPass (dec r) then 0 else 1) (inp r) (inSize r) (dec r)")
  case (Inr got)
  show ?thesis
  proof (cases got)
    case (Some x)
    obtain rest n d where x: "x = (rest, n, d)" by (metis surj_pair)
    have "dfirstPass (snd (take_code d)) = dfirstPass (dec r)"
      using fill_buffer_first [OF Inr [unfolded Some x]] by (simp add: take_code_def Let_def)
    then show ?thesis using Inr Some x
      by (simp add: decode_step_def handle_def Let_def split: prod.split)
  qed (use Inr in \<open>simp add: decode_step_def\<close>)
qed (simp add: decode_step_def)

lemma input_then_dec: "r\<lparr>inp := p, inSize := n, dec := d\<rparr> = r\<lparr>dec := d, inp := p, inSize := n\<rparr>"
  by (cases r) simp

lemma step_cut:
  assumes "fills_alike (if dfirstPass (dec r) then 0 else 1) p n' s (inSize r) (dec r)" "inp r = p @ s"
  shows "decode_step (r\<lparr>inp := p, inSize := n'\<rparr>) = Inl OverRead
    \<or> (\<exists>p1 n1' n1 x. length p1 < n1' \<and> length (p1 @ s) < n1 \<and> decode_step r = map_sum id (with_input (p1 @ s) n1) x
        \<and> decode_step (r\<lparr>inp := p, inSize := n'\<rparr>) = map_sum id (with_input p1 n1') x)"
  using assms(1) unfolding fills_alike_def
proof (elim disjE exE conjE)
  fix p1 n1' n1 d1
  assume f: "fill_buffer (if dfirstPass (dec r) then 0 else 1) p n' (dec r) = Inr (Some (p1, n1', d1))"
    "fill_buffer (if dfirstPass (dec r) then 0 else 1) (p @ s) (inSize r) (dec r) = Inr (Some (p1 @ s, n1, d1))"
    and l: "length p1 < n1'" "length (p1 @ s) < n1"
  let ?x = "handle (fst (take_code d1)) (r\<lparr>dec := snd (take_code d1)\<rparr>)"
  have "decode_step r = map_sum id (with_input (p1 @ s) n1) ?x"
    using f(2) assms(2) handle_input [where r = "r\<lparr>dec := snd (take_code d1)\<rparr>" and p = "p1 @ s" and n = n1]
    by (simp add: decode_step_handled input_then_dec)
  moreover have "decode_step (r\<lparr>inp := p, inSize := n'\<rparr>) = map_sum id (with_input p1 n1') ?x"
    using f(1) handle_input [where r = "r\<lparr>dec := snd (take_code d1)\<rparr>" and p = p1 and n = n1']
    by (simp add: decode_step_handled input_then_dec)
  ultimately show ?thesis using l by blast
qed (simp add: decode_step_def)

lemma decode_cut:
  assumes "fills_alike (if dfirstPass (dec r) then 0 else 1) p n' s (inSize r) (dec r)" "inp r = p @ s" "0 < n'" "0 < inSize r"
    "widths_ok (dec r)"
  shows "decode_loop (r\<lparr>inp := p, inSize := n'\<rparr>) \<in> {decode_loop r, Some (Inl OverRead)}"
  using assms
proof (induction "8 * length (inp r) + nReadbits (dec r)" arbitrary: r p n' rule: less_induct)
  case less
  let ?c = "r\<lparr>inp := p, inSize := n'\<rparr>"
  consider "decode_step ?c = Inl OverRead"
    | (same) p1 n1' n1 x where "length p1 < n1'" "length (p1 @ s) < n1" "decode_step r = map_sum id (with_input (p1 @ s) n1) x"
        "decode_step ?c = map_sum id (with_input p1 n1') x"
    using step_cut [OF less.prems(1,2)] by blast
  then show ?case
  proof cases
    case 1
    then show ?thesis using less.prems(3) by (simp add: decode_loop.simps [of ?c])
  next
    case same
    show ?thesis
    proof (cases x)
      case (Inl f)
      then show ?thesis using less.prems(3,4) same
        by (simp add: decode_loop.simps [of r] decode_loop.simps [of ?c])
    next
      case (Inr y)
      show ?thesis
      proof (cases y)
        case (Inl o')
        then show ?thesis using less.prems(3,4) same Inr
          by (simp add: decode_loop.simps [of r] decode_loop.simps [of ?c] with_input_def)
      next
        case q: (Inr q)
        let ?r1 = "q\<lparr>inp := p1 @ s, inSize := n1\<rparr>"
        have st: "decode_step r = Inr (Inr ?r1)" "decode_step ?c = Inr (Inr (q\<lparr>inp := p1, inSize := n1'\<rparr>))"
          using same(3,4) Inr q by (simp_all add: with_input_def)
        have m: "8 * length (inp ?r1) + nReadbits (dec ?r1) < 8 * length (inp r) + nReadbits (dec r)" "widths_ok (dec ?r1)"
          using decode_step_measure [OF st(1) less.prems(5)] by simp_all
        have "fills_alike (if dfirstPass (dec ?r1) then 0 else 1) p1 n1' s (inSize ?r1) (dec ?r1)"
          using fill_cut [OF same(1), of s n1] same(2) by simp
        moreover have "0 < n1'" "0 < inSize ?r1" using same(1,2) by auto
        ultimately have "decode_loop (?r1\<lparr>inp := p1, inSize := n1'\<rparr>) \<in> {decode_loop ?r1, Some (Inl OverRead)}"
          by (intro less.hyps [OF m(1)]) (use m(2) in simp_all)
        then show ?thesis using less.prems(3,4) st by (simp add: decode_loop.simps [of r] decode_loop.simps [of ?c])
      qed
    qed
  qed
qed

lemma lzw_decode_cut:
  assumes "0 < k"
  shows "lzw_decode (lzwDecoder_new 12) (take k data) hint \<in> {lzw_decode (lzwDecoder_new 12) data hint, Some (Inl OverRead)}"
proof (cases "take k data")
  case Nil
  then show ?thesis using assms by simp
next
  case (Cons b p)
  let ?r = "start_run data (if hint \<noteq> 0 then hint else BUFFER_SIZE)"
  have start: "lzw_decode (lzwDecoder_new 12) xs hint = decode_loop (start_run xs (if hint \<noteq> 0 then hint else BUFFER_SIZE))" for xs
    by (simp add: lzw_decode_def start_run_def)
  have d: "data = (b # p) @ drop k data" using Cons by (metis append_take_drop_id)
  then have l: "length data = Suc (length (p @ drop k data))" by (metis append_Cons length_Cons)
  have "fills_alike 0 (b # p) (Suc (length p)) (drop k data) (Suc (length (p @ drop k data))) (dec ?r)"
    by (rule first_fill) (simp add: start_run_def lzwDecoder_new_def)
  moreover have "dfirstPass (dec ?r)" by (simp add: start_run_def lzwDecoder_new_def)
  moreover have "inSize ?r = length data" by (simp add: start_run_def)
  ultimately have "fills_alike (if dfirstPass (dec ?r) then 0 else 1) (b # p) (Suc (length p)) (drop k data) (inSize ?r) (dec ?r)"
    by (simp only: l if_True)
  moreover have "inp ?r = (b # p) @ drop k data" by (rule trans [OF _ d]) (simp add: start_run_def)
  moreover have "inSize ?r = length data" by (simp add: start_run_def)
  then have "0 < inSize ?r" unfolding l by simp
  moreover have "widths_ok (dec ?r)" by (simp add: start_run_def widths_ok_def lzwDecoder_new_def)
  ultimately have "decode_loop (?r\<lparr>inp := b # p, inSize := Suc (length p)\<rparr>) \<in> {decode_loop ?r, Some (Inl OverRead)}"
    by (intro decode_cut) (assumption | simp only: zero_less_Suc)+
  then show ?thesis unfolding start Cons by (simp add: start_run_def)
qed

subsection \<open>Properties\<close>

lemma and_odd_nonzero: "odd a \<Longrightarrow> odd b \<Longrightarrow> a AND b \<noteq> (0::nat)"
  by (metis even_and_iff even_zero)

text \<open>
  C20: The encoder never writes behind its output buffer of twice the input size, for every input
  of at least three bytes, and it always returns.
\<close>

theorem lzw_encode_safe:
  assumes "3 \<le> length xs"
  shows "\<exists>e out. lzw_encode lzwEncoder_new xs = Inr (e, out) \<and> length out \<le> 2 * length xs"
  using lzw_encode_run [OF assms] by blast

theorem lzw_encode_safe_witness:
  "\<exists>e out. lzw_encode lzwEncoder_new (replicate 5000 7) = Inr (e, out) \<and> length out \<le> 10000"
  using lzw_encode_safe [of "replicate 5000 7"] by simp

text \<open>
  C21: The decoder ends at the end marker and nowhere else. Where it gives \<open>out\<close>, there is a number \<open>n\<close> of bytes
  that it takes to see the marker: any stream that begins with them is decoded to \<open>out\<close>, whatever follows, and
  a stream that is cut before is not recognised as such but read behind its last byte. (The first code is read
  without counting its bytes, so the test of their number never stops the decoder.)
\<close>

theorem lzw_decode_truncated:
  assumes "lzw_decode (lzwDecoder_new 12) data hint = Some (Inr out)" "data \<noteq> []"
  shows "\<exists>n. 0 < n \<and> n \<le> length data
    \<and> (\<forall>more. lzw_decode (lzwDecoder_new 12) (take n data @ more) hint = Some (Inr out))
    \<and> (\<forall>k. 0 < k \<and> k < n \<longrightarrow> lzw_decode (lzwDecoder_new 12) (take k data) hint = Some (Inl OverRead))"
proof -
  let ?D = "\<lambda>xs. lzw_decode (lzwDecoder_new 12) xs hint" and ?P = "\<lambda>n. 0 < n \<and> lzw_decode (lzwDecoder_new 12) (take n data) hint = Some (Inr out)"
  define n where "n = (LEAST n. ?P n)"
  have P: "?P (length data)" using assms by simp
  then have n: "?P n" "n \<le> length data" unfolding n_def by (fact LeastI, fact Least_le)
  have "?D (take n data @ more) = Some (Inr out)" for more
    using lzw_decode_cut [of n "take n data @ more" hint] n by (simp add: min_absorb2)
  moreover have "?D (take k data) = Some (Inl OverRead)" if "0 < k" "k < n" for k
    using lzw_decode_cut [OF that(1), of data hint] not_less_Least [of k ?P] that assms(1) unfolding n_def by auto
  ultimately show ?thesis using n by blast
qed

text \<open>Three bytes, encoded, and something behind them.\<close>

theorem lzw_decode_truncated_witness:
  "\<exists>e data n. lzw_encode lzwEncoder_new [1, 2, 3] = Inr (e, data) \<and> 0 < n \<and> n \<le> length data
     \<and> lzw_decode (lzwDecoder_new 12) (take n data @ [9, 9]) 0 = Some (Inr [1, 2, 3])
     \<and> (1 < n \<longrightarrow> lzw_decode (lzwDecoder_new 12) (take 1 data) 0 = Some (Inl OverRead))"
proof -
  obtain e data where d: "lzw_encode lzwEncoder_new [1, 2, 3] = Inr (e, data)"
    using encode_exists [of "[1, 2, 3]"] by auto
  have r: "lzw_decode (lzwDecoder_new 12) data 0 = Some (Inr [1, 2, 3])"
    using roundtrip_iff [of "[1, 2, 3]" 0, OF _ _ d] ends_before_growth_distinct [of "[1, 2, 3]"]
    by (simp add: BUFFER_SIZE_def)
  then have "data \<noteq> []" by (auto simp: lzw_decode_def decode_loop.simps)
  from lzw_decode_truncated [OF r this] d show ?thesis by (metis less_one zero_less_one)
qed

text \<open>
  On every stream of bytes the decoder comes to an end of the model: a value, or the first
  access to memory it must not make. What the program does after that is not modelled.
\<close>

lemma lzw_decode_ends: "\<exists>res. lzw_decode (lzwDecoder_new 12) data hint = Some res"
  unfolding lzw_decode_def
  by (rule decode_loop_returns) (simp add: widths_ok_def lzwDecoder_new_def)

text \<open>
  C19: The round trip of the LZW codec, exactly: an encoded input (of at least three bytes, that
  fits the decoder's output buffer) is decoded to the same bytes if and only if the encoder's
  dictionary does not end one entry short of a width change (511, 1023 or 2047 entries).
\<close>

theorem lzw_roundtrip_iff:
  assumes "3 \<le> length xs" "length xs \<le> (if hint \<noteq> 0 then hint else BUFFER_SIZE)"
    "lzw_encode lzwEncoder_new xs = Inr (e, data)"
  shows "lzw_decode (lzwDecoder_new 12) data hint = Some (Inr xs) \<longleftrightarrow> \<not> ends_before_growth xs"
  by (rule roundtrip_iff [OF assms])

theorem lzw_roundtrip_iff_witness:
  "\<exists>e data. lzw_encode lzwEncoder_new [1, 2, 3] = Inr (e, data)
     \<and> lzw_decode (lzwDecoder_new 12) data 0 = Some (Inr [1, 2, 3])"
proof -
  obtain e data where d: "lzw_encode lzwEncoder_new [1, 2, 3] = Inr (e, data)"
    using encode_exists [of "[1, 2, 3]"] by auto
  have "lzw_decode (lzwDecoder_new 12) data 0 = Some (Inr [1, 2, 3])"
    using lzw_roundtrip_iff [of "[1, 2, 3]" 0, OF _ _ d] ends_before_growth_distinct [of "[1, 2, 3]"]
    by (simp add: BUFFER_SIZE_def)
  with d show ?thesis by blast
qed

text \<open>
  254 distinct bytes are such an input: the encoder writes the end marker with 9 bits, after
  the decoder has gone to 10 bits, so the decoder does not give the input back.
\<close>

theorem lzw_end_marker_missed:
  "\<exists>e data. lzw_encode lzwEncoder_new (map word_of_nat [0..<254]) = Inr (e, data)
     \<and> lzw_decode (lzwDecoder_new 12) data 0 \<noteq> Some (Inr (map word_of_nat [0..<254]))"
proof -
  let ?xs = "map word_of_nat [0..<254] :: bytes"
  obtain e data where d: "lzw_encode lzwEncoder_new ?xs = Inr (e, data)"
    using encode_exists [of ?xs] by auto
  have "inj_on (word_of_nat :: nat \<Rightarrow> u8) {0..<254}"
    by (rule inj_onI) (auto simp: word_of_nat_eq_iff take_bit_nat_eq_self)
  then have "ends_before_growth ?xs" by (simp add: ends_before_growth_distinct distinct_map)
  with roundtrip_iff [of ?xs 0, OF _ _ d] d show ?thesis by (auto simp: BUFFER_SIZE_def)
qed

text \<open>
  The buffer of twice the input size is too small for an input of at most two bytes: the
  clear code, the code and the end marker are written behind its end.
\<close>

theorem lzw_encode_short_overflow:
  "lzw_encode lzwEncoder_new [] = Inl BufferOverflow
   \<and> lzw_encode lzwEncoder_new [a] = Inl BufferOverflow
   \<and> lzw_encode lzwEncoder_new [a, b] = Inl BufferOverflow"
proof -
  have "(x OR 257) AND 15 \<noteq> (0::nat)" for x by (rule and_odd_nonzero) (simp_all add: even_or_iff)
  moreover have "unat a < 258" using unsigned_less [of a, where 'a = nat] by simp
  ultimately show ?thesis
    by (simp add: lzw_encode_def start_encode_def streamEnd_def lzwEncoder_new_def writeBits_def
      emit_bytes.simps put_def encode_char_def grow_or_clear_def add_entry_def M_EOD_def Let_def)
qed

end
