(* ===== verification/Format.thy ===== *)
theory Format
  imports Prelude
begin

text \<open>
  lib/libimage/Format: the enumerations of compressions, photometrics, extra samples, sample
  formats and pyramid formats, the tables of their names, and the conversions of an image header
  (lib/libimage/Rok4Image.cpp) between these enumerations and the numbers of TIFF tags.

  An enumerator of the C++ code becomes a constructor with its namespace as prefix. Every
  \<open>fromString\<close> is the same loop down a table of names; \<open>from_name\<close> is that loop, and the locale
  \<open>named_enum\<close> states once what it does on a table whose length is right.
\<close>

subsection \<open>The enumerations\<close>

datatype eSampleFormat = SampleFormat_UNKNOWN | SampleFormat_UINT | SampleFormat_FLOAT

datatype eCompression =
    Compression_UNKNOWN | Compression_NONE | Compression_DEFLATE | Compression_JPEG
  | Compression_PNG | Compression_LZW | Compression_PACKBITS | Compression_JPEG2000

datatype ePhotometric =
    Photometric_UNKNOWN | Photometric_GRAY | Photometric_RGB | Photometric_YCBCR | Photometric_MASK

datatype eExtraSample = ExtraSample_UNKNOWN | ALPHA_ASSOC | ALPHA_UNASSOC

datatype eformat_data =
    Format_UNKNOWN
  | TIFF_RAW_INT8 | TIFF_JPG_INT8 | TIFF_PNG_INT8 | TIFF_LZW_INT8 | TIFF_ZIP_INT8 | TIFF_PKB_INT8
  | TIFF_RAW_FLOAT32 | TIFF_LZW_FLOAT32 | TIFF_ZIP_FLOAT32 | TIFF_PKB_FLOAT32
  | TIFF_PBF_MVT

text \<open>The value of an enumerator, and \<open>static_cast\<close> back.\<close>

definition sampleformats :: "eSampleFormat list" where
  "sampleformats = [SampleFormat_UNKNOWN, SampleFormat_UINT, SampleFormat_FLOAT]"

definition compressions :: "eCompression list" where
  "compressions = [Compression_UNKNOWN, Compression_NONE, Compression_DEFLATE, Compression_JPEG,
     Compression_PNG, Compression_LZW, Compression_PACKBITS, Compression_JPEG2000]"

definition photometrics :: "ePhotometric list" where
  "photometrics = [Photometric_UNKNOWN, Photometric_GRAY, Photometric_RGB, Photometric_YCBCR,
     Photometric_MASK]"

definition extraSamples :: "eExtraSample list" where
  "extraSamples = [ExtraSample_UNKNOWN, ALPHA_ASSOC, ALPHA_UNASSOC]"

definition eformats :: "eformat_data list" where
  "eformats = [Format_UNKNOWN, TIFF_RAW_INT8, TIFF_JPG_INT8, TIFF_PNG_INT8, TIFF_LZW_INT8,
     TIFF_ZIP_INT8, TIFF_PKB_INT8, TIFF_RAW_FLOAT32, TIFF_LZW_FLOAT32, TIFF_ZIP_FLOAT32,
     TIFF_PKB_FLOAT32, TIFF_PBF_MVT]"

fun position_in :: "'a list \<Rightarrow> 'a \<Rightarrow> nat" where
  "position_in [] x = 0"
| "position_in (y # ys) x = (if x = y then 0 else Suc (position_in ys x))"

subsection \<open>The loop of fromString\<close>

text \<open>\<open>for (i = size; i; --i) if (s.compare (name[i]) == 0) break;\<close> and the final \<open>i\<close>.\<close>

fun from_name :: "string list \<Rightarrow> string \<Rightarrow> nat \<Rightarrow> fault + nat" where
  "from_name names s 0 = Inr 0"
| "from_name names s (Suc i) =
     bindR (elem names (Suc i)) (\<lambda>nm. if s = nm then Inr (Suc i) else from_name names s i)"

lemma position_in_less: "x \<in> set ys \<Longrightarrow> position_in ys x < length ys \<and> ys ! position_in ys x = x"
  by (induction ys) auto

lemma position_in_nth: "distinct ys \<Longrightarrow> i < length ys \<Longrightarrow> position_in ys (ys ! i) = i"
  by (induction ys arbitrary: i) (auto simp: nth_Cons split: nat.splits)

lemma from_name_hit:
  "distinct names \<Longrightarrow> n < length names \<Longrightarrow> i \<le> n \<Longrightarrow> from_name names (names ! i) n = Inr i"
  by (induction n) (auto simp: elem_def nth_eq_iff_index_eq le_Suc_eq)

lemma from_name_miss:
  "n < length names \<Longrightarrow> s \<notin> set (tl names) \<Longrightarrow> from_name names s n = Inr 0"
proof (induction n)
  case (Suc n)
  from Suc.prems have "names ! Suc n \<in> set (tl names)"
    by (cases names) auto
  with Suc show ?case by (auto simp: elem_def)
qed simp

lemma from_name_total: "n < length names \<Longrightarrow> \<exists>i \<le> n. from_name names s n = Inr i"
  by (induction n) (auto simp: elem_def intro: le_SucI)

text \<open>A table of names that lists every enumerator once: its \<open>fromString\<close> and \<open>toString\<close>.\<close>

locale named_enum =
  fixes names :: "string list" and enumerators :: "'a list"
  assumes same_length: "length names = length enumerators"
    and names_distinct: "distinct names"
    and enumerators_distinct: "distinct enumerators"
    and all_listed: "x \<in> set enumerators"
    and nonempty: "enumerators \<noteq> []"
begin

definition name_of :: "'a \<Rightarrow> string" where
  "name_of x = names ! position_in enumerators x"

definition of_name :: "string \<Rightarrow> fault + 'a" where
  "of_name s = bindR (from_name names s (length enumerators - 1)) (\<lambda>i. Inr (enumerators ! i))"

lemma of_name_of: "of_name (name_of x) = Inr x"
proof -
  have p: "position_in enumerators x < length enumerators"
    "enumerators ! position_in enumerators x = x"
    using position_in_less [OF all_listed] by auto
  then show ?thesis
    using from_name_hit [OF names_distinct, of "length enumerators - 1" "position_in enumerators x"]
      same_length by (simp add: of_name_def name_of_def)
qed

lemma of_name_unknown: "s \<notin> set (tl names) \<Longrightarrow> of_name s = Inr (hd enumerators)"
  using from_name_miss [of "length enumerators - 1" names s] same_length nonempty
  by (simp add: of_name_def hd_conv_nth)

lemma of_name_cases: "of_name s = Inr (hd enumerators) \<or> (\<exists>x. s = name_of x \<and> of_name s = Inr x)"
proof (cases "s \<in> set (tl names)")
  case True
  then obtain i where "i < length names" "s = names ! i"
    by (metis in_set_conv_nth list.set_sel(2) tl_Nil)
  then have "s = name_of (enumerators ! i)"
    using position_in_nth [OF enumerators_distinct] same_length by (simp add: name_of_def)
  then show ?thesis using of_name_of by blast
qed (use of_name_unknown in blast)

end

subsection \<open>The tables and their functions\<close>

definition compression_name :: "string list" where
  "compression_name = [''UNKNOWN'', ''NONE'', ''DEFLATE'', ''JPEG'', ''PNG'', ''LZW'', ''PACKBITS'',
     ''JPEG2000'']"

definition compression_size :: nat where "compression_size = 7"

definition Compression_fromString :: "string \<Rightarrow> fault + eCompression" where
  "Compression_fromString s =
     bindR (from_name compression_name s compression_size) (\<lambda>i. Inr (compressions ! i))"

definition Compression_toString :: "eCompression \<Rightarrow> string" where
  "Compression_toString c = compression_name ! position_in compressions c"

definition photometric_name :: "string list" where
  "photometric_name = [''UNKNOWN'', ''GRAY'', ''RGB'', ''YCBCR'', ''MASK'']"

definition photometric_size :: nat where "photometric_size = 4"

definition Photometric_fromString :: "string \<Rightarrow> fault + ePhotometric" where
  "Photometric_fromString s =
     bindR (from_name photometric_name (map toupper s) photometric_size)
       (\<lambda>i. Inr (photometrics ! i))"

definition Photometric_toString :: "ePhotometric \<Rightarrow> string" where
  "Photometric_toString p = photometric_name ! position_in photometrics p"

definition extraSample_name :: "string list" where
  "extraSample_name = [''UNKNOWN'', ''ASSOCIATED ALPHA'', ''UNASSOCIATED ALPHA'']"

definition extraSample_size :: nat where "extraSample_size = 2"

definition ExtraSample_fromString :: "string \<Rightarrow> fault + eExtraSample" where
  "ExtraSample_fromString s =
     bindR (from_name extraSample_name s extraSample_size) (\<lambda>i. Inr (extraSamples ! i))"

definition ExtraSample_toString :: "eExtraSample \<Rightarrow> string" where
  "ExtraSample_toString e = extraSample_name ! position_in extraSamples e"

definition sampleformat_name :: "string list" where
  "sampleformat_name = [''UNKNOWN'', ''UINT'', ''FLOAT'']"

definition sampleformat_size :: nat where "sampleformat_size = 2"

definition SampleFormat_fromString :: "string \<Rightarrow> fault + eSampleFormat" where
  "SampleFormat_fromString s =
     bindR (from_name sampleformat_name s sampleformat_size) (\<lambda>i. Inr (sampleformats ! i))"

definition SampleFormat_toString :: "eSampleFormat \<Rightarrow> string" where
  "SampleFormat_toString sf = sampleformat_name ! position_in sampleformats sf"

interpretation compression: named_enum compression_name compressions
proof
  show "x \<in> set compressions" for x by (cases x) (simp_all add: compressions_def)
qed (simp_all add: compression_name_def compressions_def)

interpretation photometric: named_enum photometric_name photometrics
proof
  show "x \<in> set photometrics" for x by (cases x) (simp_all add: photometrics_def)
qed (simp_all add: photometric_name_def photometrics_def)

interpretation extraSample: named_enum extraSample_name extraSamples
proof
  show "x \<in> set extraSamples" for x by (cases x) (simp_all add: extraSamples_def)
qed (simp_all add: extraSample_name_def extraSamples_def)

interpretation sampleformat: named_enum sampleformat_name sampleformats
proof
  show "x \<in> set sampleformats" for x by (cases x) (simp_all add: sampleformats_def)
qed (simp_all add: sampleformat_name_def sampleformats_def)

lemmas enum_tables =
  Compression_fromString_def Compression_toString_def compression_size_def
  Photometric_fromString_def Photometric_toString_def photometric_size_def
  ExtraSample_fromString_def ExtraSample_toString_def extraSample_size_def
  SampleFormat_fromString_def SampleFormat_toString_def sampleformat_size_def
  compression.of_name_def compression.name_of_def photometric.of_name_def photometric.name_of_def
  extraSample.of_name_def extraSample.name_of_def sampleformat.of_name_def sampleformat.name_of_def

text \<open>The functions of the code are those of the locale.\<close>

lemma enum_functions:
  "Compression_fromString = compression.of_name" "Compression_toString = compression.name_of"
  "Photometric_fromString s = photometric.of_name (map toupper s)"
  "Photometric_toString = photometric.name_of"
  "ExtraSample_fromString = extraSample.of_name" "ExtraSample_toString = extraSample.name_of"
  "SampleFormat_fromString = sampleformat.of_name" "SampleFormat_toString = sampleformat.name_of"
proof -
  have "length compressions - 1 = 7" "length photometrics - 1 = 4" "length extraSamples - 1 = 2"
    "length sampleformats - 1 = 2"
    by (simp_all add: compressions_def photometrics_def extraSamples_def sampleformats_def)
  then show "Compression_fromString = compression.of_name" "Compression_toString = compression.name_of"
    "Photometric_fromString s = photometric.of_name (map toupper s)"
    "Photometric_toString = photometric.name_of"
    "ExtraSample_fromString = extraSample.of_name" "ExtraSample_toString = extraSample.name_of"
    "SampleFormat_fromString = sampleformat.of_name" "SampleFormat_toString = sampleformat.name_of"
    unfolding enum_tables fun_eq_iff by simp_all
qed

lemma photometric_upper:
  "map toupper (Photometric_toString p) = Photometric_toString p"
  "map toupper (map tolower (Photometric_toString p)) = Photometric_toString p"
  by (cases p; simp add: Photometric_toString_def photometric_name_def photometrics_def
      toupper_upper)+

subsection \<open>Pyramid formats\<close>

definition eformat_name :: "string list" where
  "eformat_name = [''UNKNOWN'',
     ''TIFF_RAW_INT8'', ''TIFF_JPG_INT8'', ''TIFF_PNG_INT8'', ''TIFF_LZW_INT8'', ''TIFF_ZIP_INT8'',
     ''TIFF_PKB_INT8'',
     ''TIFF_RAW_FLOAT32'', ''TIFF_LZW_FLOAT32'', ''TIFF_ZIP_FLOAT32'', ''TIFF_PKB_FLOAT32'',
     ''TIFF_PBF_MVT'']"

definition eformat_size :: nat where "eformat_size = 12"

definition eformat_israster :: "bool list" where
  "eformat_israster = [False, True, True, True, True, True, True, True, True, True, True, False]"

definition eformat_channelsize :: "int list" where
  "eformat_channelsize = [-1, 1, 1, 1, 1, 1, 1, 4, 4, 4, 4, -1]"

definition eformat_mime :: "string list" where
  "eformat_mime = [''UNKNOWN'',
     ''image/tiff'', ''image/jpeg'', ''image/png'', ''image/tiff'', ''image/tiff'', ''image/tiff'',
     ''image/x-bil;bits=32'', ''image/tiff'', ''image/x-bil;bits=32'', ''image/tiff'',
     ''application/x-protobuf'']"

definition eformat_extension :: "string list" where
  "eformat_extension = [''UNKNOWN'', ''tif'', ''jpeg'', ''png'', ''tif'', ''tif'', ''tif'',
     ''tif'', ''tif'', ''tif'', ''tif'', ''pbf'']"

definition eformat_encoding :: "string list" where
  "eformat_encoding = ['''', '''', '''', '''', '''', '''', '''', '''', '''', ''deflate'', '''', '''']"

definition eformat_compression :: "eCompression list" where
  "eformat_compression = [Compression_UNKNOWN,
     Compression_NONE, Compression_JPEG, Compression_PNG, Compression_LZW, Compression_DEFLATE,
     Compression_PACKBITS,
     Compression_NONE, Compression_LZW, Compression_DEFLATE, Compression_PACKBITS,
     Compression_UNKNOWN]"

definition eformat_sampleformat :: "eSampleFormat list" where
  "eformat_sampleformat = [SampleFormat_UNKNOWN,
     SampleFormat_UINT, SampleFormat_UINT, SampleFormat_UINT, SampleFormat_UINT, SampleFormat_UINT,
     SampleFormat_UINT,
     SampleFormat_FLOAT, SampleFormat_FLOAT, SampleFormat_FLOAT, SampleFormat_FLOAT,
     SampleFormat_UNKNOWN]"

definition eformat_bitspersample :: "int list" where
  "eformat_bitspersample = [-1, 8, 8, 8, 8, 8, 8, 32, 32, 32, 32, -1]"

definition Format_fromString :: "string \<Rightarrow> fault + eformat_data" where
  "Format_fromString s =
     bindR (from_name eformat_name s eformat_size) (\<lambda>i. elem eformats i)"

definition Format_toString :: "eformat_data \<Rightarrow> string" where
  "Format_toString f = eformat_name ! position_in eformats f"

definition isRaster :: "eformat_data \<Rightarrow> bool" where
  "isRaster f = eformat_israster ! position_in eformats f"

definition getCompression :: "eformat_data \<Rightarrow> eCompression" where
  "getCompression f = eformat_compression ! position_in eformats f"

definition getSampleFormat :: "eformat_data \<Rightarrow> eSampleFormat" where
  "getSampleFormat f = eformat_sampleformat ! position_in eformats f"

definition getBitsPerSample :: "eformat_data \<Rightarrow> int" where
  "getBitsPerSample f = eformat_bitspersample ! position_in eformats f"

definition toMimeType :: "eformat_data \<Rightarrow> string" where
  "toMimeType f = eformat_mime ! position_in eformats f"

definition toExtension :: "eformat_data \<Rightarrow> string" where
  "toExtension f = eformat_extension ! position_in eformats f"

definition fromMimeType :: "string \<Rightarrow> fault + eformat_data" where
  "fromMimeType s =
     bindR (from_name eformat_mime s eformat_size) (\<lambda>i. elem eformats i)"

definition toEncoding :: "eformat_data \<Rightarrow> string" where
  "toEncoding f = eformat_encoding ! position_in eformats f"

definition getChannelSize :: "eformat_data \<Rightarrow> int" where
  "getChannelSize f = eformat_channelsize ! position_in eformats f"

subsection \<open>TIFF numbers (Rok4Image.cpp)\<close>

text \<open>
  The constants of libtiff's \<open>tiff.h\<close>, which is not part of the repository, are a parameter.
  What the code relies on is that the values of each tag are different and not 0.
\<close>

record tiff_h =
  SAMPLEFORMAT_UINT :: u16
  SAMPLEFORMAT_IEEEFP :: u16
  PHOTOMETRIC_MINISBLACK :: u16
  PHOTOMETRIC_RGB :: u16
  PHOTOMETRIC_YCBCR :: u16
  PHOTOMETRIC_MASK :: u16
  COMPRESSION_NONE :: u16
  COMPRESSION_ADOBE_DEFLATE :: u16
  COMPRESSION_JPEG :: u16
  COMPRESSION_DEFLATE :: u16
  COMPRESSION_LZW :: u16
  COMPRESSION_PACKBITS :: u16
  EXTRASAMPLE_UNSPECIFIED :: u16
  EXTRASAMPLE_ASSOCALPHA :: u16
  EXTRASAMPLE_UNASSALPHA :: u16

definition tiff_h_ok :: "'a tiff_h_scheme \<Rightarrow> bool" where
  "tiff_h_ok T \<longleftrightarrow>
     distinct [0, SAMPLEFORMAT_UINT T, SAMPLEFORMAT_IEEEFP T]
   \<and> distinct [0, PHOTOMETRIC_MINISBLACK T, PHOTOMETRIC_RGB T, PHOTOMETRIC_YCBCR T, PHOTOMETRIC_MASK T]
   \<and> distinct [0, COMPRESSION_NONE T, COMPRESSION_ADOBE_DEFLATE T, COMPRESSION_JPEG T,
        COMPRESSION_DEFLATE T, COMPRESSION_LZW T, COMPRESSION_PACKBITS T]
   \<and> distinct [EXTRASAMPLE_UNSPECIFIED T, EXTRASAMPLE_ASSOCALPHA T, EXTRASAMPLE_UNASSALPHA T]"

text \<open>The values of the TIFF 6.0 specification and its supplements.\<close>

definition tiff6 :: tiff_h where
  "tiff6 = \<lparr>SAMPLEFORMAT_UINT = 1, SAMPLEFORMAT_IEEEFP = 3, PHOTOMETRIC_MINISBLACK = 1,
     PHOTOMETRIC_RGB = 2, PHOTOMETRIC_YCBCR = 6, PHOTOMETRIC_MASK = 4, COMPRESSION_NONE = 1,
     COMPRESSION_ADOBE_DEFLATE = 8, COMPRESSION_JPEG = 7, COMPRESSION_DEFLATE = 32946,
     COMPRESSION_LZW = 5, COMPRESSION_PACKBITS = 32773, EXTRASAMPLE_UNSPECIFIED = 0,
     EXTRASAMPLE_ASSOCALPHA = 1, EXTRASAMPLE_UNASSALPHA = 2\<rparr>"

definition toROK4SampleFormat :: "'a tiff_h_scheme \<Rightarrow> u16 \<Rightarrow> eSampleFormat" where
  "toROK4SampleFormat T sf =
     (if sf = SAMPLEFORMAT_UINT T then SampleFormat_UINT
      else if sf = SAMPLEFORMAT_IEEEFP T then SampleFormat_FLOAT
      else SampleFormat_UNKNOWN)"

definition fromROK4SampleFormat :: "'a tiff_h_scheme \<Rightarrow> eSampleFormat \<Rightarrow> u16" where
  "fromROK4SampleFormat T sf =
     (case sf of SampleFormat_UINT \<Rightarrow> SAMPLEFORMAT_UINT T
      | SampleFormat_FLOAT \<Rightarrow> SAMPLEFORMAT_IEEEFP T
      | _ \<Rightarrow> 0)"

definition toROK4Photometric :: "'a tiff_h_scheme \<Rightarrow> u16 \<Rightarrow> ePhotometric" where
  "toROK4Photometric T ph =
     (if ph = PHOTOMETRIC_MINISBLACK T then Photometric_GRAY
      else if ph = PHOTOMETRIC_RGB T then Photometric_RGB
      else if ph = PHOTOMETRIC_YCBCR T then Photometric_YCBCR
      else if ph = PHOTOMETRIC_MASK T then Photometric_MASK
      else Photometric_UNKNOWN)"

definition fromROK4Photometric :: "'a tiff_h_scheme \<Rightarrow> ePhotometric \<Rightarrow> u16" where
  "fromROK4Photometric T ph =
     (case ph of Photometric_GRAY \<Rightarrow> PHOTOMETRIC_MINISBLACK T
      | Photometric_RGB \<Rightarrow> PHOTOMETRIC_RGB T
      | Photometric_YCBCR \<Rightarrow> PHOTOMETRIC_YCBCR T
      | Photometric_MASK \<Rightarrow> PHOTOMETRIC_MINISBLACK T
      | _ \<Rightarrow> 0)"

definition toROK4Compression :: "'a tiff_h_scheme \<Rightarrow> u16 \<Rightarrow> eCompression" where
  "toROK4Compression T cm =
     (if cm = COMPRESSION_NONE T then Compression_NONE
      else if cm = COMPRESSION_ADOBE_DEFLATE T then Compression_DEFLATE
      else if cm = COMPRESSION_JPEG T then Compression_JPEG
      else if cm = COMPRESSION_DEFLATE T then Compression_DEFLATE
      else if cm = COMPRESSION_LZW T then Compression_LZW
      else if cm = COMPRESSION_PACKBITS T then Compression_PACKBITS
      else Compression_UNKNOWN)"

definition fromROK4Compression :: "'a tiff_h_scheme \<Rightarrow> eCompression \<Rightarrow> u16" where
  "fromROK4Compression T cm =
     (case cm of Compression_NONE \<Rightarrow> COMPRESSION_NONE T
      | Compression_DEFLATE \<Rightarrow> COMPRESSION_ADOBE_DEFLATE T
      | Compression_JPEG \<Rightarrow> COMPRESSION_JPEG T
      | Compression_PNG \<Rightarrow> COMPRESSION_ADOBE_DEFLATE T
      | Compression_LZW \<Rightarrow> COMPRESSION_LZW T
      | Compression_PACKBITS \<Rightarrow> COMPRESSION_PACKBITS T
      | _ \<Rightarrow> 0)"

definition toROK4ExtraSample :: "'a tiff_h_scheme \<Rightarrow> u16 \<Rightarrow> eExtraSample" where
  "toROK4ExtraSample T es =
     (if es = EXTRASAMPLE_ASSOCALPHA T then ALPHA_ASSOC
      else if es = EXTRASAMPLE_UNASSALPHA T then ALPHA_UNASSOC
      else ExtraSample_UNKNOWN)"

definition fromROK4ExtraSample :: "'a tiff_h_scheme \<Rightarrow> eExtraSample \<Rightarrow> u16" where
  "fromROK4ExtraSample T es =
     (case es of ALPHA_ASSOC \<Rightarrow> EXTRASAMPLE_ASSOCALPHA T
      | ALPHA_UNASSOC \<Rightarrow> EXTRASAMPLE_UNASSALPHA T
      | ExtraSample_UNKNOWN \<Rightarrow> EXTRASAMPLE_UNSPECIFIED T)"

text \<open>What the images can hold (Rok4Image.h).\<close>

definition canRead :: "int \<Rightarrow> eSampleFormat \<Rightarrow> bool" where
  "canRead bps sf \<longleftrightarrow> bps = 32 \<and> sf = SampleFormat_FLOAT \<or> bps = 16 \<and> sf = SampleFormat_UINT
     \<or> bps = 8 \<and> sf = SampleFormat_UINT"

definition canWrite :: "int \<Rightarrow> eSampleFormat \<Rightarrow> bool" where
  "canWrite bps sf \<longleftrightarrow> bps = 32 \<and> sf = SampleFormat_FLOAT \<or> bps = 16 \<and> sf = SampleFormat_UINT
     \<or> bps = 8 \<and> sf = SampleFormat_UINT"

lemma tiff_roundtrip:
  assumes "tiff_h_ok T"
  shows "toROK4SampleFormat T (fromROK4SampleFormat T sf) = sf"
    "toROK4ExtraSample T (fromROK4ExtraSample T es) = es"
    "toROK4Photometric T (fromROK4Photometric T ph) =
       (if ph = Photometric_MASK then Photometric_GRAY else ph)"
    "toROK4Compression T (fromROK4Compression T c) =
       (if c = Compression_PNG then Compression_DEFLATE
        else if c = Compression_JPEG2000 then Compression_UNKNOWN else c)"
proof -
  note d = assms [unfolded tiff_h_ok_def]
  show "toROK4SampleFormat T (fromROK4SampleFormat T sf) = sf"
    using d by (cases sf) (auto simp: toROK4SampleFormat_def fromROK4SampleFormat_def)
  show "toROK4ExtraSample T (fromROK4ExtraSample T es) = es"
    using d by (cases es) (auto simp: toROK4ExtraSample_def fromROK4ExtraSample_def)
  show "toROK4Photometric T (fromROK4Photometric T ph) =
      (if ph = Photometric_MASK then Photometric_GRAY else ph)"
    using d by (cases ph) (auto simp: toROK4Photometric_def fromROK4Photometric_def)
  show "toROK4Compression T (fromROK4Compression T c) =
      (if c = Compression_PNG then Compression_DEFLATE
       else if c = Compression_JPEG2000 then Compression_UNKNOWN else c)"
    using d by (cases c) (auto simp: toROK4Compression_def fromROK4Compression_def)
qed

lemma tiff6_ok: "tiff_h_ok tiff6"
  by code_simp

subsection \<open>Properties\<close>

text \<open>
  The enumerations of compressions, photometrics, extra samples and sample formats are named
  consistently: parsing the name of an enumerator gives it back, for a photometric also in lower
  case.
\<close>

theorem enum_names_roundtrip:
  "Compression_fromString (Compression_toString c) = Inr c
   \<and> Photometric_fromString (Photometric_toString p) = Inr p
   \<and> Photometric_fromString (map tolower (Photometric_toString p)) = Inr p
   \<and> ExtraSample_fromString (ExtraSample_toString e) = Inr e
   \<and> SampleFormat_fromString (SampleFormat_toString sf) = Inr sf"
  using photometric_upper [of p]
  by (simp add: enum_functions compression.of_name_of photometric.of_name_of extraSample.of_name_of
      sampleformat.of_name_of del: map_map)

text \<open>
  A string that is not the name of an enumerator is read as UNKNOWN, and no string makes the
  search read outside its table.
\<close>

theorem enum_names_unknown:
  "(Compression_fromString s = Inr Compression_UNKNOWN
      \<or> (\<exists>c. s = Compression_toString c \<and> Compression_fromString s = Inr c))
   \<and> (Photometric_fromString s = Inr Photometric_UNKNOWN
      \<or> (\<exists>p. map toupper s = Photometric_toString p \<and> Photometric_fromString s = Inr p))
   \<and> (ExtraSample_fromString s = Inr ExtraSample_UNKNOWN
      \<or> (\<exists>e. s = ExtraSample_toString e \<and> ExtraSample_fromString s = Inr e))
   \<and> (SampleFormat_fromString s = Inr SampleFormat_UNKNOWN
      \<or> (\<exists>sf. s = SampleFormat_toString sf \<and> SampleFormat_fromString s = Inr sf))"
  using compression.of_name_cases [of s] photometric.of_name_cases [of "map toupper s"]
    extraSample.of_name_cases [of s] sampleformat.of_name_cases [of s]
  by (simp add: enum_functions compressions_def photometrics_def extraSamples_def sampleformats_def)

text \<open>
  Naming a pyramid format in a string never works: the loops of \<open>fromString\<close> and
  \<open>fromMimeType\<close> start at index 12 of tables that end at index 11, and compare with the
  pointer they read there, whatever the string is.
\<close>

theorem format_parsing_overread:
  "Format_fromString s = Inl OverRead \<and> fromMimeType s = Inl OverRead"
  by (simp add: Format_fromString_def fromMimeType_def eformat_size_def eformat_name_def
      eformat_mime_def elem_def eval_nat_numeral)

text \<open>
  The tables of the pyramid formats agree with each other and with what the image classes can
  read and write: exactly the raster formats have a sample type that can be read and written, in
  whole bytes of the channel size, with a known compression; the only encoding announced is the
  deflate of the compressed 32 bit BIL.
\<close>

theorem format_tables_agree:
  "isRaster f = canRead (getBitsPerSample f) (getSampleFormat f)
   \<and> isRaster f = canWrite (getBitsPerSample f) (getSampleFormat f)
   \<and> (if isRaster f then getBitsPerSample f = 8 * getChannelSize f
          \<and> getCompression f \<notin> {Compression_UNKNOWN, Compression_JPEG2000}
      else getChannelSize f = -1 \<and> getCompression f = Compression_UNKNOWN)
   \<and> (toEncoding f \<noteq> '''') =
       (toMimeType f = ''image/x-bil;bits=32'' \<and> getCompression f = Compression_DEFLATE)"
  by (cases f)
    (simp_all add: isRaster_def canRead_def canWrite_def getBitsPerSample_def getSampleFormat_def
      getChannelSize_def getCompression_def toEncoding_def toMimeType_def eformats_def
      eformat_israster_def eformat_bitspersample_def eformat_sampleformat_def
      eformat_channelsize_def eformat_compression_def eformat_encoding_def eformat_mime_def)

text \<open>
  The values a slab header stores are read back: sample format and extra sample always,
  photometric except MASK, which comes back as GRAY, and compression except PNG, which comes back
  as DEFLATE, and JPEG2000, which comes back as UNKNOWN.
\<close>

theorem header_values_roundtrip:
  assumes "tiff_h_ok T"
  shows "toROK4SampleFormat T (fromROK4SampleFormat T sf) = sf
    \<and> toROK4ExtraSample T (fromROK4ExtraSample T es) = es
    \<and> toROK4Photometric T (fromROK4Photometric T ph) =
       (if ph = Photometric_MASK then Photometric_GRAY else ph)
    \<and> toROK4Compression T (fromROK4Compression T c) =
       (if c = Compression_PNG then Compression_DEFLATE
        else if c = Compression_JPEG2000 then Compression_UNKNOWN else c)"
  using tiff_roundtrip [OF assms] by blast

theorem header_values_roundtrip_witness:
  "toROK4Photometric tiff6 (fromROK4Photometric tiff6 Photometric_YCBCR) = Photometric_YCBCR"
  using header_values_roundtrip [OF tiff6_ok, of _ _ Photometric_YCBCR] by simp

end
