(* ===== verification/Storage.thy ===== *)
theory Storage
  imports Prelude
begin

text \<open>
  The interface \<open>Context\<close> of lib/libimage: a place where objects are written under a name and
  read back by offset and size. The virtual methods are the fields of the record
  \<open>Context\<close>, over an arbitrary state; the storage classes provide it, the slab writer and the
  tile reader use it. The locale \<open>storage\<close> states what a provider promises.

  A negative result of \<open>read\<close> is \<open>None\<close>, otherwise the bytes read are given, whose number is
  the result. \<open>data\<close> and \<open>size\<close> of \<open>write\<close> are one list.
\<close>

datatype eContextType = FILECONTEXT | CEPHCONTEXT | SWIFTCONTEXT | S3CONTEXT

fun ContextType_toString :: "eContextType \<Rightarrow> string" where
  "ContextType_toString FILECONTEXT = ''FILE''"
| "ContextType_toString CEPHCONTEXT = ''CEPH''"
| "ContextType_toString SWIFTCONTEXT = ''SWIFT''"
| "ContextType_toString S3CONTEXT = ''S3''"

record 'c Context =
  isConnected :: "'c \<Rightarrow> bool"
  read_at :: "nat \<Rightarrow> nat \<Rightarrow> string \<Rightarrow> 'c \<Rightarrow> (fault + bytes option) \<times> 'c"
  write_at :: "bytes \<Rightarrow> nat \<Rightarrow> string \<Rightarrow> 'c \<Rightarrow> bool \<times> 'c"
  writeFull :: "bytes \<Rightarrow> string \<Rightarrow> 'c \<Rightarrow> bool \<times> 'c"
  openToWrite :: "string \<Rightarrow> 'c \<Rightarrow> bool \<times> 'c"
  closeToWrite :: "string \<Rightarrow> 'c \<Rightarrow> (fault + bool) \<times> 'c"

text \<open>An operation that has no fault of its own.\<close>

definition no_fault :: "'a \<times> 'c \<Rightarrow> (fault + 'a) \<times> 'c" where
  "no_fault r = (case r of (a, c) \<Rightarrow> (Inr a, c))"

lemma no_fault_simp [simp]: "no_fault (a, c) = (Inr a, c)"
  by (simp add: no_fault_def)

text \<open>\<open>Context::exists\<close>: can a byte be read?\<close>

definition Context_exists :: "'c Context \<Rightarrow> string \<Rightarrow> 'c \<Rightarrow> (fault + bool) \<times> 'c" where
  "Context_exists C name c =
     (case read_at C 0 1 name c of
        (Inl f, c') \<Rightarrow> (Inl f, c')
      | (Inr r, c') \<Rightarrow> (Inr (case r of Some d \<Rightarrow> length d = 1 | None \<Rightarrow> False), c'))"

definition setAttempts :: "int \<Rightarrow> nat" where
  "setAttempts a = (if a < 1 then 1 else nat a)"

subsection \<open>Writing at an offset\<close>

text \<open>
  The content of an object after \<open>d\<close> has been written at \<open>off\<close>: a gap is filled with zeros
  (\<open>vector::resize\<close>, and a hole of a file).
\<close>

definition splice :: "bytes \<Rightarrow> nat \<Rightarrow> bytes \<Rightarrow> bytes" where
  "splice b off d =
     (let b' = b @ replicate (off + length d - length b) 0 in
      take off b' @ d @ drop (off + length d) b')"

lemma splice_parts:
  obtains b' where "off + length d \<le> length b'" "length b' = max (length b) (off + length d)"
    "splice b off d = take off b' @ d @ drop (off + length d) b'"
    "\<And>i. i < length b' \<Longrightarrow> b' ! i = (if i < length b then b ! i else 0)"
  by (rule that [of "b @ replicate (off + length d - length b) 0"])
    (auto simp: splice_def Let_def nth_append)

lemma length_splice [simp]: "length (splice b off d) = max (length b) (off + length d)"
proof -
  obtain b' where "off + length d \<le> length b'" "length b' = max (length b) (off + length d)"
    "splice b off d = take off b' @ d @ drop (off + length d) b'"
    using splice_parts [of off d b] by metis
  then show ?thesis by simp
qed

lemma nth_splice:
  assumes "i < max (length b) (off + length d)"
  shows "splice b off d ! i =
    (if off \<le> i \<and> i < off + length d then d ! (i - off) else if i < length b then b ! i else 0)"
proof -
  obtain b' where b: "off + length d \<le> length b'" "length b' = max (length b) (off + length d)"
    "splice b off d = take off b' @ d @ drop (off + length d) b'"
    "\<And>i. i < length b' \<Longrightarrow> b' ! i = (if i < length b then b ! i else 0)"
    using splice_parts [of off d b] by metis
  have "splice b off d ! i = (if off \<le> i \<and> i < off + length d then d ! (i - off) else b' ! i)"
    using assms b(1,2) unfolding b(3) by (auto simp: nth_append)
  with b(2) b(4) [of i] assms show ?thesis by simp
qed

text \<open>A window of an object: what reading \<open>n\<close> bytes at \<open>off\<close> gives.\<close>

definition window :: "nat \<Rightarrow> nat \<Rightarrow> bytes \<Rightarrow> bytes" where
  "window off n b = take n (drop off b)"

lemma length_window: "off + n \<le> length b \<Longrightarrow> length (window off n b) = n"
  by (simp add: window_def)

lemma nth_window: "off + n \<le> length b \<Longrightarrow> i < n \<Longrightarrow> window off n b ! i = b ! (off + i)"
  by (simp add: window_def)

lemma window_splice_same: "window off (length d) (splice b off d) = d"
  by (rule nth_equalityI) (simp_all add: length_window nth_window nth_splice)

lemma window_splice_other:
  assumes "off' + n \<le> off \<or> off + length d \<le> off'" "off' + n \<le> length b"
  shows "window off' n (splice b off d) = window off' n b"
proof (rule nth_equalityI)
  fix i assume "i < length (window off' n (splice b off d))"
  with assms have i: "i < n" by (simp add: length_window)
  with assms have "\<not> (off \<le> off' + i \<and> off' + i < off + length d)" "off' + i < length b" by auto
  then have "splice b off d ! (off' + i) = b ! (off' + i)" by (auto simp: nth_splice)
  with assms i show "window off' n (splice b off d) ! i = window off' n b ! i"
    by (simp add: nth_window)
qed (use assms in \<open>simp add: length_window\<close>)

lemma window_window: "i + n \<le> m \<Longrightarrow> window i n (window off m b) = window (off + i) n b"
  by (simp add: window_def drop_take add.commute)

subsection \<open>What a storage promises\<close>

text \<open>
  \<open>pending c name\<close> is the content being written under a name, \<open>stored c name\<close> the content that
  is read; \<open>reliable\<close> holds while the services behind the storage answer.
\<close>

locale storage =
  fixes C :: "'c Context"
    and pending :: "'c \<Rightarrow> string \<Rightarrow> bytes option"
    and stored :: "'c \<Rightarrow> string \<Rightarrow> bytes option"
    and can_open :: "string \<Rightarrow> 'c \<Rightarrow> bool"
    and reliable :: "'c \<Rightarrow> bool"
  assumes open_law:
      "can_open n c \<Longrightarrow> reliable c \<Longrightarrow>
         \<exists>c'. openToWrite C n c = (True, c') \<and> pending c' n = Some [] \<and> reliable c'"
    and write_law:
      "pending c n = Some b \<Longrightarrow> reliable c \<Longrightarrow>
         \<exists>c'. write_at C d off n c = (True, c') \<and> pending c' n = Some (splice b off d) \<and> reliable c'"
    and close_law:
      "pending c n = Some b \<Longrightarrow> reliable c \<Longrightarrow>
         \<exists>c'. closeToWrite C n c = (Inr True, c') \<and> stored c' n = Some b \<and> reliable c'"
    and read_law:
      "stored c n = Some b \<Longrightarrow> reliable c \<Longrightarrow> off + k \<le> length b \<Longrightarrow> 0 < k \<Longrightarrow>
         \<exists>c'. read_at C off k n c = (Inr (Some (window off k b)), c') \<and> stored c' n = Some b \<and> reliable c'"
    and connected_law: "reliable c \<Longrightarrow> isConnected C c"
begin

text \<open>A sequence of writes, each at its offset, and what it leaves.\<close>

fun write_all :: "(nat \<times> bytes) list \<Rightarrow> string \<Rightarrow> 'c \<Rightarrow> bool \<times> 'c" where
  "write_all [] n c = (True, c)"
| "write_all ((off, d) # ws) n c =
     (case write_at C d off n c of (True, c') \<Rightarrow> write_all ws n c' | (False, c') \<Rightarrow> (False, c'))"

lemma write_all_ok:
  "pending c n = Some b \<Longrightarrow> reliable c \<Longrightarrow>
     \<exists>c'. write_all ws n c = (True, c') \<and> reliable c'
       \<and> pending c' n = Some (foldl (\<lambda>b (off, d). splice b off d) b ws)"
proof (induction ws arbitrary: b c)
  case (Cons w ws)
  obtain off d where w: "w = (off, d)" by fastforce
  obtain c1 where "write_at C d off n c = (True, c1)" "pending c1 n = Some (splice b off d)" "reliable c1"
    using write_law [OF Cons.prems] by blast
  with Cons.IH w show ?case by auto
qed simp

lemma exists_ok:
  assumes "stored c n = Some b" "reliable c" "b \<noteq> []"
  shows "fst (Context_exists C n c) = Inr True"
  using read_law [OF assms(1,2), of 0 1] assms(3)
  by (cases b) (auto simp: Context_exists_def window_def)

end

text \<open>A storage where a read at the end of an object gives the bytes that are there.\<close>

locale short_storage = storage +
  assumes short_law:
    "stored c n = Some b \<Longrightarrow> reliable c \<Longrightarrow> b \<noteq> [] \<Longrightarrow> length b < k \<Longrightarrow>
       \<exists>c'. read_at C 0 k n c = (Inr (Some b), c') \<and> reliable c' \<and> (\<forall>m. stored c' m = stored c m)"

end
