(* ===== verification/FileStore.thy ===== *)
theory FileStore
  imports Storage "HOL-Library.Signed_Division"
begin

text \<open>
  FileContext: objects are files below a root directory. The record holds the part of the file
  system the context sees and the state of its one output stream \<open>output\<close>: the file it is open
  on, its position and its fail bit. Whether a file can be created is up to the environment
  (\<open>can_create\<close>). A write to an open stream is taken to succeed and to be in the file at once.
\<close>

record FileContext =
  root_dir :: string
  fconnected :: bool
  files :: "string \<Rightarrow> bytes option"
  can_create :: "string \<Rightarrow> bool"
  out_file :: "string option"
  out_pos :: nat
  out_fail :: bool

definition file_connection :: "FileContext \<Rightarrow> bool \<times> FileContext" where
  "file_connection c = (True, c\<lparr>fconnected := True\<rparr>)"

definition file_closeConnection :: "FileContext \<Rightarrow> FileContext" where
  "file_closeConnection c = c\<lparr>fconnected := False\<rparr>"

text \<open>A read that is shorter than asked for is an error (-1).\<close>

definition file_read :: "nat \<Rightarrow> nat \<Rightarrow> string \<Rightarrow> FileContext \<Rightarrow> (fault + bytes option) \<times> FileContext" where
  "file_read offset sz name c =
     (let fullName = root_dir c @ name in
      case files c fullName of
        None \<Rightarrow> (Inr None, c)
      | Some b \<Rightarrow>
          let d = window offset sz b in
          if length d \<noteq> sz then (Inr None, c) else (Inr (Some d), c))"

text \<open>\<open>write\<close> goes to the open stream, whatever the name is.\<close>

definition file_write :: "bytes \<Rightarrow> nat \<Rightarrow> string \<Rightarrow> FileContext \<Rightarrow> bool \<times> FileContext" where
  "file_write data offset name c =
     (if out_fail c then (False, c)
      else case out_file c of
        None \<Rightarrow> (False, c\<lparr>out_fail := True\<rparr>)
      | Some f \<Rightarrow>
          (True, c\<lparr>files := (files c)(f := Some (splice (case files c f of Some b \<Rightarrow> b | None \<Rightarrow> []) offset data)),
                   out_pos := offset + length data\<rparr>))"

definition file_writeFull :: "bytes \<Rightarrow> string \<Rightarrow> FileContext \<Rightarrow> bool \<times> FileContext" where
  "file_writeFull data name c =
     (if out_fail c then (False, c)
      else case out_file c of
        None \<Rightarrow> (True, c\<lparr>out_fail := True\<rparr>)
      | Some f \<Rightarrow>
          (True, c\<lparr>files := (files c)(f := Some (splice (case files c f of Some b \<Rightarrow> b | None \<Rightarrow> []) (out_pos c) data)),
                   out_pos := out_pos c + length data\<rparr>))"

text \<open>Opening a stream that is already open fails and leaves it on its old file.\<close>

definition file_openToWrite :: "string \<Rightarrow> FileContext \<Rightarrow> bool \<times> FileContext" where
  "file_openToWrite name c =
     (let fullName = root_dir c @ name in
      if out_file c \<noteq> None \<or> \<not> can_create c fullName then (False, c\<lparr>out_fail := True\<rparr>)
      else (True, c\<lparr>files := (files c)(fullName := Some []), out_file := Some fullName, out_pos := 0,
                    out_fail := False\<rparr>))"

definition file_closeToWrite :: "string \<Rightarrow> FileContext \<Rightarrow> bool \<times> FileContext" where
  "file_closeToWrite name c =
     (case out_file c of
        None \<Rightarrow> (False, c\<lparr>out_fail := True\<rparr>)
      | Some _ \<Rightarrow> (\<not> out_fail c, c\<lparr>out_file := None\<rparr>))"

definition file_context :: "FileContext Context" where
  "file_context = \<lparr>isConnected = fconnected, read_at = file_read, write_at = file_write,
     writeFull = file_writeFull, openToWrite = file_openToWrite, closeToWrite = (\<lambda>n c. no_fault (file_closeToWrite n c))\<rparr>"

definition file_pending :: "FileContext \<Rightarrow> string \<Rightarrow> bytes option" where
  "file_pending c n =
     (if out_file c = Some (root_dir c @ n) \<and> \<not> out_fail c then files c (root_dir c @ n) else None)"

text \<open>What the storage interface asks for.\<close>

interpretation file_storage: storage file_context file_pending "\<lambda>c n. files c (root_dir c @ n)"
  "\<lambda>n c. out_file c = None \<and> can_create c (root_dir c @ n)" fconnected
  by unfold_locales
    (auto simp: file_context_def file_pending_def file_openToWrite_def file_write_def
      file_closeToWrite_def file_read_def length_window Let_def split: if_splits)

subsection \<open>The path of a slab\<close>

definition Base36 :: string where
  "Base36 = ''0123456789ABCDEFGHIJKLMNOPQRSTUVWXYZ''"

definition base36 :: "int \<Rightarrow> fault + char" where
  "base36 i = (if i < 0 then Inl OverRead else elem Base36 (nat i))"

text \<open>
  \<open>path[pos--] = c\<close>: the buffer of 32 bytes is filled from its end, so its state is the position
  and the characters already written behind it.
\<close>

definition path_put :: "char \<Rightarrow> int \<times> string \<Rightarrow> fault + (int \<times> string)" where
  "path_put c p = (case p of (pos, s) \<Rightarrow> if pos < 0 then Inl BufferOverflow else Inr (pos - 1, c # s))"

definition path_pair :: "int \<Rightarrow> int \<Rightarrow> int \<times> string \<Rightarrow> fault + (int \<times> string)" where
  "path_pair x y p =
     bindR (base36 (y smod 36)) (\<lambda>cy. bindR (path_put cy p) (\<lambda>p1.
     bindR (base36 (x smod 36)) (\<lambda>cx. path_put cx p1)))"

fun path_dirs :: "nat \<Rightarrow> int \<Rightarrow> int \<Rightarrow> int \<times> string \<Rightarrow> fault + (int \<times> int \<times> int \<times> string)" where
  "path_dirs 0 x y p = Inr (x, y, p)"
| "path_dirs (Suc d) x y p =
     bindR (path_pair x y p) (\<lambda>p1. bindR (path_put CHR ''/'' p1) (\<lambda>p2.
       path_dirs d (x sdiv 36) (y sdiv 36) p2))"

function path_rest :: "int \<Rightarrow> int \<Rightarrow> int \<times> string \<Rightarrow> fault + (int \<times> string)" where
  "path_rest x y p =
     bindR (path_pair x y p) (\<lambda>p1.
       if x sdiv 36 \<noteq> 0 \<or> y sdiv 36 \<noteq> 0 then path_rest (x sdiv 36) (y sdiv 36) p1 else Inr p1)"
  by pat_completeness auto
termination
proof (relation "measure (\<lambda>(x, y, _). nat \<bar>x\<bar> + nat \<bar>y\<bar>)")
  fix x y :: int and p p1 :: "int \<times> string"
  have abs: "\<bar>z sdiv 36\<bar> = \<bar>z\<bar> div 36" for z :: int
    by (cases "0 < z"; cases "z = 0") (simp_all add: signed_divide_int_def)
  have le: "\<bar>z sdiv 36\<bar> \<le> \<bar>z\<bar>" "z sdiv 36 \<noteq> 0 \<Longrightarrow> \<bar>z sdiv 36\<bar> < \<bar>z\<bar>" for z :: int
  proof -
    have "\<bar>z\<bar> div 36 \<le> \<bar>z\<bar>" "\<bar>z\<bar> div 36 = 0 \<or> \<bar>z\<bar> div 36 < \<bar>z\<bar>" by linarith+
    then show "\<bar>z sdiv 36\<bar> \<le> \<bar>z\<bar>" "z sdiv 36 \<noteq> 0 \<Longrightarrow> \<bar>z sdiv 36\<bar> < \<bar>z\<bar>"
      using abs [of z] by (simp, metis abs_eq_0)
  qed
  assume "x sdiv 36 \<noteq> 0 \<or> y sdiv 36 \<noteq> 0"
  then have "\<bar>x sdiv 36\<bar> + \<bar>y sdiv 36\<bar> < \<bar>x\<bar> + \<bar>y\<bar>"
    by (elim disjE) (blast intro: add_less_le_mono add_le_less_mono le)+
  then have "nat (\<bar>x sdiv 36\<bar> + \<bar>y sdiv 36\<bar>) < nat (\<bar>x\<bar> + \<bar>y\<bar>)"
    by (subst nat_mono_iff) auto
  then show "((x sdiv 36, y sdiv 36, p1), (x, y, p)) \<in> measure (\<lambda>(x, y, _). nat \<bar>x\<bar> + nat \<bar>y\<bar>)"
    by (simp add: nat_add_distrib)
qed simp

declare path_rest.simps [simp del]

definition file_getPath :: "string \<Rightarrow> int \<Rightarrow> int \<Rightarrow> int \<Rightarrow> fault + string" where
  "file_getPath racine x y pathDepth =
     bindR (path_dirs (nat pathDepth) x y (26, ''.tif'')) (\<lambda>(x', y', p).
     bindR (path_rest x' y' p) (\<lambda>(pos, s).
       if pos < 0 then Inl BufferOverflow else Inr (racine @ CHR ''/'' # s)))"

subsection \<open>Its value\<close>

definition char36 :: "nat \<Rightarrow> char" where
  "char36 i = Base36 ! (i mod 36)"

function pairs :: "nat \<Rightarrow> nat \<Rightarrow> string" where
  "pairs x y = (if x div 36 \<noteq> 0 \<or> y div 36 \<noteq> 0 then pairs (x div 36) (y div 36) else [])
     @ [char36 x, char36 y]"
  by pat_completeness auto
termination by (relation "measure (\<lambda>(x, y). x + y)") auto

declare pairs.simps [simp del]

fun dirs :: "nat \<Rightarrow> nat \<Rightarrow> nat \<Rightarrow> string" where
  "dirs 0 x y = pairs x y"
| "dirs (Suc d) x y = dirs d (x div 36) (y div 36) @ [CHR ''/'', char36 x, char36 y]"

lemma signed_nonneg [simp]:
  "int x sdiv 36 = int (x div 36)" "int x smod 36 = int (x mod 36)"
  by (auto simp: signed_divide_int_def signed_modulo_int_def sgn_if zdiv_int zmod_int)

lemma base36_ok [simp]: "base36 (int (x mod 36)) = Inr (char36 x)"
  by (simp add: base36_def elem_def char36_def Base36_def)

lemma path_pair_ok:
  "path_pair (int x) (int y) (pos, s) =
     (if 1 \<le> pos then Inr (pos - 2, [char36 x, char36 y] @ s) else Inl BufferOverflow)"
  by (auto simp: path_pair_def path_put_def)

lemma path_rest_ok:
  "-1 \<le> pos \<Longrightarrow> path_rest (int x) (int y) (pos, s) =
     (if int (length (pairs x y)) \<le> pos + 1 then Inr (pos - int (length (pairs x y)), pairs x y @ s)
      else Inl BufferOverflow)"
proof (induction x y arbitrary: pos s rule: pairs.induct)
  case (1 x y)
  show ?case
  proof (cases "x div 36 \<noteq> 0 \<or> y div 36 \<noteq> 0")
    case True
    note p = pairs.simps [of x y] path_rest.simps [of "int x" "int y"]
    show ?thesis
      using True 1(1) [OF True, of "pos - 2" "[char36 x, char36 y] @ s"]
      by (auto simp: p path_pair_ok)
  next
    case False
    then show ?thesis
      by (simp add: path_rest.simps [of "int x" "int y"] pairs.simps [of x y] path_pair_ok)
  qed
qed

lemma length_pairs_ge2: "2 \<le> length (pairs x y)"
  by (subst pairs.simps) simp

lemma length_dirs_ge2: "2 \<le> length (dirs d x y)"
  by (cases d) (simp_all add: length_pairs_ge2)

lemma path_dirs_rest_ok:
  "-1 \<le> pos \<Longrightarrow> bindR (path_dirs d (int x) (int y) (pos, s)) (\<lambda>(x', y', p). path_rest x' y' p) =
     (if int (length (dirs d x y)) \<le> pos + 1 then Inr (pos - int (length (dirs d x y)), dirs d x y @ s)
      else Inl BufferOverflow)"
proof (induction d arbitrary: x y pos s)
  case 0
  then show ?case by (simp add: path_rest_ok)
next
  case (Suc d)
  have l: "2 \<le> length (dirs d (x div 36) (y div 36))" by (rule length_dirs_ge2)
  show ?case
  proof (cases "2 \<le> pos")
    case True
    then show ?thesis
      using Suc.IH [of "pos - 3" "x div 36" "y div 36" "CHR ''/'' # char36 x # char36 y # s"]
      by (auto simp: path_pair_ok path_put_def)
  next
    case False
    then show ?thesis using l Suc.prems by (auto simp: path_pair_ok path_put_def)
  qed
qed

lemma file_getPath_value:
  "file_getPath racine (int x) (int y) (int d) =
     (if length (dirs d x y) \<le> 26 then Inr (racine @ ''/'' @ dirs d x y @ ''.tif'')
      else Inl BufferOverflow)"
proof -
  have "file_getPath racine (int x) (int y) (int d) =
      bindR (bindR (path_dirs d (int x) (int y) (26, ''.tif'')) (\<lambda>(x', y', p). path_rest x' y' p))
        (\<lambda>(pos, s). if pos < 0 then Inl BufferOverflow else Inr (racine @ CHR ''/'' # s))"
    by (simp add: file_getPath_def bindR_assoc case_prod_unfold)
  then show ?thesis by (auto simp: path_dirs_rest_ok)
qed

lemma length_pairs_le:
  "x < 36 ^ Suc k \<Longrightarrow> y < 36 ^ Suc k \<Longrightarrow> length (pairs x y) \<le> 2 * Suc k"
proof (induction k arbitrary: x y)
  case 0
  then show ?case by (subst pairs.simps) simp
next
  case (Suc k)
  then have "x div 36 < 36 ^ Suc k" "y div 36 < 36 ^ Suc k"
    by (auto intro: less_mult_imp_div_less)
  from Suc.IH [OF this] show ?case by (subst pairs.simps) simp
qed

lemma length_dirs_le:
  "x < 36 ^ Suc k \<Longrightarrow> y < 36 ^ Suc k \<Longrightarrow> length (dirs d x y) \<le> 3 * d + 2 * Suc (k - d)"
proof (induction d arbitrary: x y k)
  case 0
  then show ?case using length_pairs_le by simp
next
  case (Suc d)
  then have "x div 36 < 36 ^ Suc (k - 1)" "y div 36 < 36 ^ Suc (k - 1)"
    by (cases k; auto intro: less_mult_imp_div_less)+
  from Suc.IH [OF this] show ?case by simp
qed

lemma length_dirs_ge: "3 * d + 2 \<le> length (dirs d x y)"
proof (induction d arbitrary: x y)
  case 0
  then show ?case using length_pairs_ge2 [of x y] by simp
qed simp

lemma char36_inject: "char36 x = char36 y \<longleftrightarrow> x mod 36 = y mod 36"
proof -
  have "distinct Base36" "length Base36 = 36" by (simp_all add: Base36_def)
  then show ?thesis by (simp add: char36_def nth_eq_iff_index_eq)
qed

lemma pairs_inject: "pairs x y = pairs x' y' \<Longrightarrow> x = x' \<and> y = y'"
proof (induction x y arbitrary: x' y' rule: pairs.induct)
  case (1 x y)
  let ?more = "\<lambda>x y. if x div 36 \<noteq> 0 \<or> y div 36 \<noteq> 0 then pairs (x div 36) (y div 36) else []"
  have e: "x mod 36 = x' mod 36" "y mod 36 = y' mod 36" "?more x y = ?more x' y'"
    using 1(2) unfolding pairs.simps [of x y] pairs.simps [of x' y'] by (simp_all add: char36_inject)
  have ne: "pairs a b \<noteq> []" for a b using length_pairs_ge2 [of a b] by auto
  have "x div 36 = x' div 36 \<and> y div 36 = y' div 36"
  proof (cases "x div 36 \<noteq> 0 \<or> y div 36 \<noteq> 0")
    case True
    with e(3) ne 1(1) show ?thesis by (metis (full_types))
  next
    case False
    with e(3) ne show ?thesis by (metis (full_types))
  qed
  with e(1,2) show ?case by (metis div_mult_mod_eq)
qed

lemma dirs_inject: "dirs d x y = dirs d x' y' \<Longrightarrow> x = x' \<and> y = y'"
proof (induction d arbitrary: x y x' y')
  case 0
  then show ?case by (simp add: pairs_inject)
next
  case (Suc d)
  then have "x div 36 = x' div 36 \<and> y div 36 = y' div 36" "x mod 36 = x' mod 36" "y mod 36 = y' mod 36"
    by (auto simp: char36_inject)
  then show ?case by (metis div_mult_mod_eq)
qed

subsection \<open>Properties\<close>

text \<open>
  C22: The path of a slab file: different slabs of a pyramid level never share a file, whatever the
  depth of the tree is, when the path is computed at all.
\<close>

theorem file_paths_injective:
  assumes "file_getPath racine (int x) (int y) (int d) = Inr p"
    "file_getPath racine (int x') (int y') (int d) = Inr p"
  shows "x = x' \<and> y = y'"
  using assms by (auto simp: file_getPath_value dest: dirs_inject split: if_splits)

theorem file_paths_injective_witness:
  "{(x, y). file_getPath ''d'' (int x) (int y) (int 2) = Inr ''d/00/10/15.tif''} = {(37, 5)}"
proof -
  have v: "file_getPath ''d'' (int 37) (int 5) (int 2) = Inr ''d/00/10/15.tif''" by code_simp
  show ?thesis using file_paths_injective [OF _ v] v by auto
qed

text \<open>
  C23: The 32 byte buffer of \<open>getPath\<close> holds the path of every slab (whose indices fit an
  \<open>int\<close>) exactly for trees of at most 8 levels; for a deeper tree it is always written in front
  of its start.
\<close>

theorem file_path_buffer:
  assumes "x < 2 ^ 31" "y < 2 ^ 31"
  shows "file_getPath racine (int x) (int y) (int d) =
    (if d \<le> 8 then Inr (racine @ ''/'' @ dirs d x y @ ''.tif'') else Inl BufferOverflow)"
proof -
  have "x < 36 ^ Suc 5" "y < 36 ^ Suc 5" using assms by simp_all
  then have "length (dirs d x y) \<le> 3 * d + 2 * Suc (5 - d)" by (rule length_dirs_le)
  then have "length (dirs d x y) \<le> 26 \<longleftrightarrow> d \<le> 8"
    using length_dirs_ge [of d x y] by arith
  then show ?thesis by (simp add: file_getPath_value)
qed

theorem file_path_buffer_witness:
  "file_getPath ''/p/IMAGE/L1'' (int 3000) (int 47) (int 2) = Inr ''/p/IMAGE/L1/20/B1/CB.tif''"
proof -
  have d: "dirs 2 3000 47 = ''20/B1/CB''" by code_simp
  have "file_getPath ''/p/IMAGE/L1'' (int 3000) (int 47) (int 2) =
      (if 2 \<le> (8::nat) then Inr (''/p/IMAGE/L1'' @ ''/'' @ dirs 2 3000 47 @ ''.tif'') else Inl BufferOverflow)"
    by (rule file_path_buffer) simp_all
  then show ?thesis unfolding d by simp
qed

end
