(* ===== verification/ObjectStore.thy ===== *)
theory ObjectStore
  imports Storage
begin

text \<open>
  The storage classes over object stores. CephPoolContext, S3Context and SwiftContext share the
  writing buffers of the class Context and have the same code on them (\<open>write\<close>,
  \<open>writeFull\<close>, \<open>openToWrite\<close>); it is stated once, on the record \<open>object_context\<close> they extend.

  Then CephPoolContext: librados is a parameter, the record \<open>rados\<close>, over a world \<open>'w\<close> that
  every call may change. What the code relies on is the locale \<open>rados_pool\<close>.
\<close>

subsection \<open>Writing buffers\<close>

record 'w object_context =
  writingBuffers :: "string \<Rightarrow> bytes option"
  connected :: bool
  attempts :: nat
  world :: 'w

definition object_write ::
    "bytes \<Rightarrow> nat \<Rightarrow> string \<Rightarrow> ('w, 'z) object_context_scheme \<Rightarrow> bool \<times> ('w, 'z) object_context_scheme" where
  "object_write data offset name c =
     (case writingBuffers c name of
        None \<Rightarrow> (False, c)
      | Some b \<Rightarrow> (True, c\<lparr>writingBuffers := (writingBuffers c)(name \<mapsto> splice b offset data)\<rparr>))"

definition object_writeFull ::
    "bytes \<Rightarrow> string \<Rightarrow> ('w, 'z) object_context_scheme \<Rightarrow> bool \<times> ('w, 'z) object_context_scheme" where
  "object_writeFull data name c =
     (case writingBuffers c name of
        None \<Rightarrow> (False, c)
      | Some _ \<Rightarrow> (True, c\<lparr>writingBuffers := (writingBuffers c)(name \<mapsto> data)\<rparr>))"

definition object_openToWrite ::
    "string \<Rightarrow> ('w, 'z) object_context_scheme \<Rightarrow> bool \<times> ('w, 'z) object_context_scheme" where
  "object_openToWrite name c =
     (case writingBuffers c name of
        Some _ \<Rightarrow> (False, c)
      | None \<Rightarrow> (True, c\<lparr>writingBuffers := (writingBuffers c)(name \<mapsto> [])\<rparr>))"

text \<open>The end of a successful \<open>closeToWrite\<close>: the buffer is deleted.\<close>

definition erase_buffer :: "string \<Rightarrow> ('w, 'z) object_context_scheme \<Rightarrow> ('w, 'z) object_context_scheme" where
  "erase_buffer name c = c\<lparr>writingBuffers := (writingBuffers c)(name := None)\<rparr>"

lemmas object_simps = object_write_def object_writeFull_def object_openToWrite_def erase_buffer_def

text \<open>The name of a slab in an object store, the same in the three classes.\<close>

definition object_getPath :: "string \<Rightarrow> int \<Rightarrow> int \<Rightarrow> string" where
  "object_getPath racine x y = racine @ ''_'' @ show_int x @ ''_'' @ show_int y"

text \<open>\<open>getenv\<close>, with the default of a constructor.\<close>

definition env_or :: "(string \<Rightarrow> string option) \<Rightarrow> string \<Rightarrow> string \<Rightarrow> string" where
  "env_or env var dflt = (case env var of None \<Rightarrow> dflt | Some v \<Rightarrow> v)"

subsection \<open>CephPoolContext\<close>

text \<open>
  The calls of librados. A negative number is an error; \<open>rados_read\<close> gives the bytes it has
  read otherwise.
\<close>

record 'w rados =
  ETIMEDOUT :: int
  rados_create2 :: "string \<Rightarrow> string \<Rightarrow> 'w \<Rightarrow> int \<times> 'w"
  rados_conf_read_file :: "string \<Rightarrow> 'w \<Rightarrow> int \<times> 'w"
  rados_conf_set :: "string \<Rightarrow> string \<Rightarrow> 'w \<Rightarrow> 'w"
  rados_connect :: "'w \<Rightarrow> int \<times> 'w"
  rados_ioctx_create :: "string \<Rightarrow> 'w \<Rightarrow> int \<times> 'w"
  rados_shutdown :: "'w \<Rightarrow> 'w"
  rados_aio_flush :: "'w \<Rightarrow> 'w"
  rados_ioctx_destroy :: "'w \<Rightarrow> 'w"
  rados_read :: "string \<Rightarrow> nat \<Rightarrow> nat \<Rightarrow> 'w \<Rightarrow> (int + bytes) \<times> 'w"
  rados_write_full :: "string \<Rightarrow> bytes \<Rightarrow> 'w \<Rightarrow> int \<times> 'w"

record 'w CephPoolContext = "'w object_context" +
  cluster_name :: string
  user_name :: string
  conf_file :: string
  pool_name :: string

definition ceph_new :: "(string \<Rightarrow> string option) \<Rightarrow> string \<Rightarrow> 'w \<Rightarrow> 'w CephPoolContext" where
  "ceph_new env pool w =
     \<lparr>writingBuffers = (\<lambda>_. None), connected = False, attempts = 1, world = w,
      cluster_name = env_or env ''ROK4_CEPH_CLUSTERNAME'' ''ceph'',
      user_name = env_or env ''ROK4_CEPH_USERNAME'' ''client.admin'',
      conf_file = env_or env ''ROK4_CEPH_CONFFILE'' ''/etc/ceph/ceph.conf'',
      pool_name = pool\<rparr>"

definition ceph_connection :: "'w rados \<Rightarrow> 'w CephPoolContext \<Rightarrow> bool \<times> 'w CephPoolContext" where
  "ceph_connection R c =
     (if connected c then (True, c)
      else
        let (ret, w) = rados_create2 R (cluster_name c) (user_name c) (world c) in
        if ret < 0 then (False, c\<lparr>world := w\<rparr>)
        else let (ret, w) = rados_conf_read_file R (conf_file c) w in
        if ret < 0 then (False, c\<lparr>world := w\<rparr>)
        else let w = rados_conf_set R ''rados_osd_op_timeout'' ''60''
                  (rados_conf_set R ''rados_mon_op_timeout'' ''60''
                    (rados_conf_set R ''client_mount_timeout'' ''60'' w));
                 (ret, w) = rados_connect R w in
        if ret < 0 then (False, c\<lparr>world := w\<rparr>)
        else let (ret, w) = rados_ioctx_create R (pool_name c) w in
        if ret < 0 then (False, c\<lparr>world := rados_shutdown R w\<rparr>)
        else (True, c\<lparr>world := w, connected := True\<rparr>))"

definition ceph_closeConnection :: "'w rados \<Rightarrow> 'w CephPoolContext \<Rightarrow> 'w CephPoolContext" where
  "ceph_closeConnection R c =
     (if connected c
      then c\<lparr>world := rados_shutdown R (rados_ioctx_destroy R (rados_aio_flush R (world c))),
             connected := False\<rparr>
      else c)"

text \<open>
  The loop of \<open>read\<close>, with the number of attempts left: only a time-out is tried again. With no
  attempt at all the result would be an unset variable.
\<close>

fun ceph_read_loop ::
    "'w rados \<Rightarrow> nat \<Rightarrow> nat \<Rightarrow> nat \<Rightarrow> string \<Rightarrow> 'w \<Rightarrow> (fault + bytes option) \<times> 'w" where
  "ceph_read_loop R 0 offset sz name w = (Inl Uninitialised, w)"
| "ceph_read_loop R (Suc left) offset sz name w =
     (case rados_read R name sz offset w of
        (Inr d, w') \<Rightarrow> (Inr (Some d), w')
      | (Inl e, w') \<Rightarrow>
          if e = - ETIMEDOUT R \<and> left \<noteq> 0 then ceph_read_loop R left offset sz name w'
          else (Inr None, w'))"

definition ceph_read ::
    "'w rados \<Rightarrow> nat \<Rightarrow> nat \<Rightarrow> string \<Rightarrow> 'w CephPoolContext \<Rightarrow> (fault + bytes option) \<times> 'w CephPoolContext" where
  "ceph_read R offset sz name c =
     (if \<not> connected c then (Inr None, c)
      else let (r, w) = ceph_read_loop R (attempts c) offset sz name (world c) in (r, c\<lparr>world := w\<rparr>))"

text \<open>The loop of \<open>closeToWrite\<close>: every error is tried again.\<close>

fun ceph_flush_loop :: "'w rados \<Rightarrow> nat \<Rightarrow> string \<Rightarrow> bytes \<Rightarrow> bool \<Rightarrow> 'w \<Rightarrow> bool \<times> 'w" where
  "ceph_flush_loop R 0 name b ok w = (ok, w)"
| "ceph_flush_loop R (Suc left) name b ok w =
     (let (err, w') = rados_write_full R name b w in
      if err < 0 then ceph_flush_loop R left name b False w' else (True, w'))"

definition ceph_closeToWrite :: "'w rados \<Rightarrow> string \<Rightarrow> 'w CephPoolContext \<Rightarrow> bool \<times> 'w CephPoolContext" where
  "ceph_closeToWrite R name c =
     (case writingBuffers c name of
        None \<Rightarrow> (False, c)
      | Some b \<Rightarrow>
          let (ok, w) = ceph_flush_loop R (attempts c) name b True (world c); c' = c\<lparr>world := w\<rparr> in
          if ok then (True, erase_buffer name c') else (False, c'))"

definition ceph_context :: "'w rados \<Rightarrow> 'w CephPoolContext Context" where
  "ceph_context R = \<lparr>isConnected = connected, read_at = ceph_read R, write_at = object_write,
     writeFull = object_writeFull, openToWrite = object_openToWrite,
     closeToWrite = (\<lambda>n c. no_fault (ceph_closeToWrite R n c))\<rparr>"

subsection \<open>What the code relies on\<close>

text \<open>
  The documented behaviour of a pool: as long as it is healthy, \<open>rados_write_full\<close> returns 0
  and replaces the object, and \<open>rados_read\<close> gives the bytes of the object in the range.
\<close>

locale rados_pool =
  fixes R :: "'w rados" and objects :: "'w \<Rightarrow> string \<Rightarrow> bytes option" and healthy :: "'w \<Rightarrow> bool"
  assumes write_full_law:
      "healthy w \<Longrightarrow> \<exists>w'. rados_write_full R n b w = (0, w') \<and> objects w' n = Some b \<and> healthy w'"
    and read_pool_law:
      "healthy w \<Longrightarrow> objects w n = Some b \<Longrightarrow>
         \<exists>w'. rados_read R n k off w = (Inr (window off k b), w') \<and> objects w' = objects w \<and> healthy w'"
begin

lemma ceph_flush_healthy:
  assumes "healthy w" "0 < k"
  shows "\<exists>w'. ceph_flush_loop R k n b ok w = (True, w') \<and> objects w' n = Some b \<and> healthy w'"
  using write_full_law [OF assms(1), of n b] assms(2) by (cases k) auto

lemma ceph_read_healthy:
  assumes "healthy w" "0 < k" "objects w n = Some b"
  shows "\<exists>w'. ceph_read_loop R k off sz n w = (Inr (Some (window off sz b)), w')
    \<and> objects w' = objects w \<and> healthy w'"
  using read_pool_law [OF assms(1,3), of sz off] assms(2) by (cases k) auto

end

sublocale rados_pool \<subseteq> ceph: short_storage "ceph_context R" writingBuffers "\<lambda>c. objects (world c)"
  "\<lambda>n c. writingBuffers c n = None" "\<lambda>c. connected c \<and> 0 < attempts c \<and> healthy (world c)"
proof
  fix c :: "'w CephPoolContext" and n b off and k :: nat
  assume "objects (world c) n = Some b" "connected c \<and> 0 < attempts c \<and> healthy (world c)"
  with ceph_read_healthy [of "world c" "attempts c" n b off k]
  show "\<exists>c'. read_at (ceph_context R) off k n c = (Inr (Some (window off k b)), c')
      \<and> objects (world c') n = Some b \<and> connected c' \<and> 0 < attempts c' \<and> healthy (world c')"
    by (auto simp: ceph_context_def ceph_read_def)
next
  fix c :: "'w CephPoolContext" and n b
  assume "writingBuffers c n = Some b" "connected c \<and> 0 < attempts c \<and> healthy (world c)"
  with ceph_flush_healthy [of "world c" "attempts c" n b True]
  show "\<exists>c'. closeToWrite (ceph_context R) n c = (Inr True, c') \<and> objects (world c') n = Some b
      \<and> connected c' \<and> 0 < attempts c' \<and> healthy (world c')"
    by (auto simp: ceph_context_def ceph_closeToWrite_def erase_buffer_def)
next
  fix c :: "'w CephPoolContext" and n b and k :: nat
  assume "objects (world c) n = Some b" "connected c \<and> 0 < attempts c \<and> healthy (world c)" "length b < k"
  with ceph_read_healthy [of "world c" "attempts c" n b 0 k]
  show "\<exists>c'. read_at (ceph_context R) 0 k n c = (Inr (Some b), c')
      \<and> (connected c' \<and> 0 < attempts c' \<and> healthy (world c'))
      \<and> (\<forall>m. objects (world c') m = objects (world c) m)"
    by (auto simp: ceph_context_def ceph_read_def window_def)
qed (auto simp: ceph_context_def object_simps)

text \<open>
  A pool in memory whose next calls answer with the scripted errors first: an instance of the
  parameter, on which the loops can be run.
\<close>

record mem_pool =
  mem_objects :: "string \<Rightarrow> bytes option"
  script :: "int list"

definition mem_rados :: "mem_pool rados" where
  "mem_rados = \<lparr>ETIMEDOUT = 110, rados_create2 = (\<lambda>_ _ w. (0, w)),
     rados_conf_read_file = (\<lambda>_ w. (0, w)), rados_conf_set = (\<lambda>_ _ w. w),
     rados_connect = (\<lambda>w. (0, w)), rados_ioctx_create = (\<lambda>_ w. (0, w)), rados_shutdown = id,
     rados_aio_flush = id, rados_ioctx_destroy = id,
     rados_read = (\<lambda>n k off w. case script w of
          e # es \<Rightarrow> (Inl e, w\<lparr>script := es\<rparr>)
        | [] \<Rightarrow> (case mem_objects w n of None \<Rightarrow> (Inl (- 2), w) | Some b \<Rightarrow> (Inr (window off k b), w))),
     rados_write_full = (\<lambda>n b w. case script w of
          e # es \<Rightarrow> (e, w\<lparr>script := es\<rparr>)
        | [] \<Rightarrow> (0, w\<lparr>mem_objects := (mem_objects w)(n \<mapsto> b)\<rparr>))\<rparr>"

interpretation mem: rados_pool mem_rados mem_objects "\<lambda>w. script w = []"
  by unfold_locales (auto simp: mem_rados_def)

subsection \<open>Retries\<close>

text \<open>\<open>m\<close> time-outs in a row lead from one state of the pool to another.\<close>

fun timeouts :: "'w rados \<Rightarrow> string \<Rightarrow> nat \<Rightarrow> nat \<Rightarrow> nat \<Rightarrow> 'w \<Rightarrow> 'w option" where
  "timeouts R n k off 0 w = Some w"
| "timeouts R n k off (Suc m) w =
     (case rados_read R n k off w of
        (Inl e, w') \<Rightarrow> if e = - ETIMEDOUT R then timeouts R n k off m w' else None
      | _ \<Rightarrow> None)"

lemma ceph_read_loop_timeouts:
  "timeouts R n k off m w = Some w' \<Longrightarrow> m < a \<Longrightarrow>
     ceph_read_loop R a off k n w = ceph_read_loop R (a - m) off k n w'"
proof (induction m arbitrary: a w)
  case (Suc m)
  then obtain a' where "a = Suc a'" "m < a'" "a' \<noteq> 0" by (cases a) auto
  with Suc show ?case by (auto split: prod.splits sum.splits if_splits)
qed simp

lemma ceph_flush_loop_ok:
  "ceph_flush_loop R k n b False w = (True, w') \<Longrightarrow>
     \<exists>w1 e. rados_write_full R n b w1 = (e, w') \<and> 0 \<le> e"
  by (induction k arbitrary: w) (fastforce simp: not_less split: prod.splits if_splits)+

lemma ceph_read_loop_outcome
:
  assumes "timeouts R n k off m w = Some w'" "m < a" "rados_read R n k off w' = (r, w'')"
  shows "ceph_read_loop R a off k n w =
     (case r of Inr d \<Rightarrow> (Inr (Some d), w'')
      | Inl e \<Rightarrow> if e = - ETIMEDOUT R \<and> m + 1 < a then ceph_read_loop R (a - m - 1) off k n w''
                else (Inr None, w''))"
proof -
  obtain j where "a - m = Suc j" using assms(2) by (metis Suc_diff_Suc)
  with ceph_read_loop_timeouts [OF assms(1,2)] assms(3) show ?thesis
    by (auto split: sum.splits)
qed

subsection \<open>Properties\<close>

text \<open>
  Reading a Ceph object tries again after time-outs only: after fewer time-outs than there are
  attempts, the next answer decides. Bytes are returned as they were read, and any other error
  ends the read at once, without a further call.
\<close>

theorem ceph_read_retries:
  assumes "connected c" "timeouts R n k off m (world c) = Some w" "m < attempts c"
    "rados_read R n k off w = (r, w')" "r \<noteq> Inl (- ETIMEDOUT R)"
  shows "ceph_read R off k n c =
    (Inr (case r of Inr d \<Rightarrow> Some d | Inl _ \<Rightarrow> None), c\<lparr>world := w'\<rparr>)"
  using ceph_read_loop_outcome [OF assms(2,3,4)] assms(1,5)
  by (auto simp: ceph_read_def split: sum.splits)

theorem ceph_read_retries_witness:
  "fst (ceph_read mem_rados 1 2 ''slab'' \<lparr>writingBuffers = (\<lambda>_. None), connected = True, attempts = 3,
     world = \<lparr>mem_objects = [''slab'' \<mapsto> [7, 8, 9]], script = [-110, -110]\<rparr>, cluster_name = '''',
     user_name = '''', conf_file = '''', pool_name = ''''\<rparr>) = Inr (Some [8, 9])"
  (is "fst (ceph_read _ _ _ _ ?c) = _")
proof -
  let ?w = "\<lparr>mem_objects = [''slab'' \<mapsto> [7, 8, 9]], script = []\<rparr>"
  have t: "timeouts mem_rados ''slab'' 2 1 2 (world ?c) = Some ?w"
    by (simp add: mem_rados_def eval_nat_numeral)
  have "rados_read mem_rados ''slab'' 2 1 ?w = (Inr [8, 9], ?w)"
    by (simp add: mem_rados_def window_def)
  from ceph_read_retries [OF _ t _ this] show ?thesis by simp
qed

text \<open>
  Closing a Ceph object: the writing buffer is deleted exactly when the close succeeds, and then
  the whole buffer is what the last, successful \<open>rados_write_full\<close> was given; a failed close
  keeps the buffer for another try, and no other buffer is touched.
\<close>

theorem ceph_close_outcome:
  assumes "ceph_closeToWrite R n c = (ok, c')" "0 < attempts c"
  shows "writingBuffers c' = (if ok then (writingBuffers c)(n := None) else writingBuffers c)
    \<and> (\<not> ok \<or> (\<exists>b w e. writingBuffers c n = Some b \<and> rados_write_full R n b w = (e, world c') \<and> 0 \<le> e))"
proof (cases "writingBuffers c n")
  case None
  with assms show ?thesis by (auto simp: ceph_closeToWrite_def)
next
  case (Some b)
  obtain k where "attempts c = Suc k" using assms(2) by (cases "attempts c") auto
  with Some assms(1) show ?thesis
    by (fastforce simp: ceph_closeToWrite_def erase_buffer_def Let_def not_less
        split: prod.splits if_splits dest: ceph_flush_loop_ok)
qed

theorem ceph_close_outcome_witness:
  "\<exists>c'. ceph_closeToWrite mem_rados ''s'' \<lparr>writingBuffers = [''s'' \<mapsto> [1]], connected = True,
       attempts = 1, world = \<lparr>mem_objects = (\<lambda>_. None), script = [-5]\<rparr>, cluster_name = '''',
       user_name = '''', conf_file = '''', pool_name = ''''\<rparr> = (False, c') \<and> writingBuffers c' ''s'' = Some [1]"
  (is "\<exists>c'. ceph_closeToWrite _ _ ?c = _ \<and> _")
proof -
  obtain c' where c: "ceph_closeToWrite mem_rados ''s'' ?c = (False, c')"
    by (simp add: ceph_closeToWrite_def mem_rados_def eval_nat_numeral)
  from ceph_close_outcome [OF c] c show ?thesis by auto
qed


end
