(* ===== verification/HttpStore.thy ===== *)
theory HttpStore
  imports ObjectStore BitStrings
begin

text \<open>
  The storage classes over HTTP: S3Context and SwiftContext, with CurlPool and LibcurlStruct. The
  transport (libcurl and the server behind it), the clock, HMAC-SHA1 and the token file are a
  parameter, the record \<open>http\<close>, over a world \<open>'w\<close>.
\<close>

subsection \<open>Requests and answers\<close>

datatype verb = GET | PUT | POST

record request =
  verb :: verb
  http_url :: string
  http_headers :: "string list"
  http_body :: string
  http_data :: bytes
  verify_peer :: bool

text \<open>An error of libcurl, or a code with the header lines and the pieces of the body.\<close>

datatype response = CurlError | Response nat "string list" "bytes list"

record tm =
  tm_wday :: nat
  tm_mday :: nat
  tm_mon :: nat
  tm_year :: nat
  tm_hour :: nat
  tm_min :: nat
  tm_sec :: nat

record 'w http =
  perform :: "request \<Rightarrow> 'w \<Rightarrow> response \<times> 'w"
  gmtime_now :: "'w \<Rightarrow> tm"
  hmac_sha1 :: "string \<Rightarrow> string \<Rightarrow> bytes"
  token_line :: "string \<Rightarrow> 'w \<Rightarrow> string option"
  store_token :: "string \<Rightarrow> string \<Rightarrow> 'w \<Rightarrow> 'w"

text \<open>\<open>data_callback\<close>: every piece is appended to the data received so far.\<close>

definition data_callback :: "bytes \<Rightarrow> bytes \<Rightarrow> bytes" where
  "data_callback contents mem = mem @ contents"

definition received :: "bytes list \<Rightarrow> bytes" where
  "received pieces = fold data_callback pieces []"

lemma received_concat: "received ps = concat ps"
proof -
  have "fold data_callback ps m = m @ concat ps" for m
    by (induction ps arbitrary: m) (auto simp: data_callback_def)
  then show ?thesis by (simp add: received_def)
qed

record HeaderStruct =
  hdr_url :: "string option"
  hdr_token :: "string option"

text \<open>
  \<open>header_callback\<close>: a header line ends with two bytes that are cut off; the token is kept with
  its header name, a Keystone token under the name Swift wants.
\<close>

definition header_callback :: "string \<Rightarrow> HeaderStruct \<Rightarrow> HeaderStruct" where
  "header_callback buffer hdr =
     (if take 15 buffer = ''X-Storage-Url: '' then
        hdr\<lparr>hdr_url := Some (drop 15 (take (length buffer - 2) buffer))\<rparr>
      else if take 14 buffer = ''X-Auth-Token: '' then
        hdr\<lparr>hdr_token := Some (take (length buffer - 2) buffer)\<rparr>
      else if take 17 buffer = ''X-Subject-Token: '' then
        hdr\<lparr>hdr_token := Some (''X-Auth-Token: '' @ drop 17 (take (length buffer - 2) buffer))\<rparr>
      else hdr)"

definition received_headers :: "string list \<Rightarrow> HeaderStruct" where
  "received_headers ls = fold header_callback ls \<lparr>hdr_url = None, hdr_token = None\<rparr>"

subsection \<open>S3: the signature\<close>

definition base64_chars :: string where
  "base64_chars = ''ABCDEFGHIJKLMNOPQRSTUVWXYZabcdefghijklmnopqrstuvwxyz0123456789+/''"

definition b64 :: "u8 \<Rightarrow> char" where
  "b64 i = base64_chars ! unat i"

text \<open>The four indices of three bytes (\<open>char_array_4\<close>).\<close>

definition index0 :: "u8 \<Rightarrow> u8" where
  "index0 a = drop_bit 2 (a AND 0xfc)"
definition index1 :: "u8 \<Rightarrow> u8 \<Rightarrow> u8" where
  "index1 a b = push_bit 4 (a AND 0x03) + drop_bit 4 (b AND 0xf0)"
definition index2 :: "u8 \<Rightarrow> u8 \<Rightarrow> u8" where
  "index2 b c = push_bit 2 (b AND 0x0f) + drop_bit 6 (c AND 0xc0)"
definition index3 :: "u8 \<Rightarrow> u8" where
  "index3 c = c AND 0x3f"

fun base64 :: "bytes \<Rightarrow> string" where
  "base64 [] = []"
| "base64 [a] = [b64 (index0 a), b64 (index1 a 0), CHR ''='', CHR ''='']"
| "base64 [a, b] = [b64 (index0 a), b64 (index1 a b), b64 (index2 b 0), CHR ''='']"
| "base64 (a # b # c # rest) =
     [b64 (index0 a), b64 (index1 a b), b64 (index2 b c), b64 (index3 c)] @ base64 rest"

definition getAuthorizationHeader :: "'w http \<Rightarrow> string \<Rightarrow> string \<Rightarrow> fault + string" where
  "getAuthorizationHeader H secret_key toSign =
     (let digest = hmac_sha1 H secret_key toSign in
      if length digest < 20 then Inl OverRead else Inr (base64 (take 20 digest)))"

subsection \<open>S3: the date\<close>

definition wday_name :: "string list" where
  "wday_name = [''Sun'', ''Mon'', ''Tue'', ''Wed'', ''Thu'', ''Fri'', ''Sat'']"

definition mon_name :: "string list" where
  "mon_name = [''Jan'', ''Feb'', ''Mar'', ''Apr'', ''May'', ''Jun'',
     ''Jul'', ''Aug'', ''Sep'', ''Oct'', ''Nov'', ''Dec'']"

text \<open>\<open>%.2d\<close>\<close>

definition show2 :: "nat \<Rightarrow> string" where
  "show2 n = (if n < 10 then CHR ''0'' # show_nat n else show_nat n)"

definition gmt_time :: "tm \<Rightarrow> fault + string" where
  "gmt_time t =
     bindR (elem wday_name (tm_wday t)) (\<lambda>wd.
     bindR (elem mon_name (tm_mon t)) (\<lambda>mn.
     sprintf_to 40
       (wd @ '', '' @ show_nat (tm_mday t) @ '' '' @ mn @ '' '' @ show_nat (1900 + tm_year t) @ '' ''
        @ show2 (tm_hour t) @ '':'' @ show2 (tm_min t) @ '':'' @ show2 (tm_sec t) @ '' GMT'')))"

subsection \<open>S3Context\<close>

record 'w S3Context = "'w object_context" +
  s3_url :: string
  s3_host :: string
  s3_key :: string
  s3_secret_key :: string
  bucket_name :: string
  s3_ssl_no_verify :: bool

text \<open>The host of the URL: without the protocol and from the first colon on.\<close>

definition url_host :: "string \<Rightarrow> string" where
  "url_host url =
     (let h = (case find_sub ''://'' url of Some i \<Rightarrow> drop (i + 3) url | None \<Rightarrow> url) in
      case find_sub '':'' h of Some i \<Rightarrow> take i h | None \<Rightarrow> h)"

definition s3_new :: "(string \<Rightarrow> string option) \<Rightarrow> string \<Rightarrow> 'w \<Rightarrow> 'w S3Context" where
  "s3_new env bucket w =
     (let url = env_or env ''ROK4_S3_URL'' ''http://localhost:8080'' in
      \<lparr>writingBuffers = (\<lambda>_. None), connected = False, attempts = 1, world = w,
       s3_url = url, s3_host = url_host url,
       s3_key = env_or env ''ROK4_S3_KEY'' ''KEY'',
       s3_secret_key = env_or env ''ROK4_S3_SECRETKEY'' ''SECRETKEY'',
       bucket_name = bucket,
       s3_ssl_no_verify = (env ''ROK4_SSL_NO_VERIFY'' \<noteq> None)\<rparr>)"

definition s3_connection :: "'w S3Context \<Rightarrow> bool \<times> 'w S3Context" where
  "s3_connection c = (True, c\<lparr>connected := True\<rparr>)"

definition s3_object_url :: "'w S3Context \<Rightarrow> string \<Rightarrow> string" where
  "s3_object_url c name = s3_url c @ ''/'' @ bucket_name c @ ''/'' @ name"

definition range_header :: "nat \<Rightarrow> nat \<Rightarrow> string" where
  "range_header offset sz =
     ''Range: bytes='' @ show_nat offset @ ''-'' @ show_int (int offset + int sz - 1)"

text \<open>The headers that carry the date and the signature of a request.\<close>

definition s3_signed :: "'w http \<Rightarrow> 'w S3Context \<Rightarrow> string \<Rightarrow> string \<Rightarrow> fault + string \<times> string" where
  "s3_signed H c method name =
     bindR (gmt_time (gmtime_now H (world c))) (\<lambda>t.
     let resource = ''/'' @ bucket_name c @ ''/'' @ name;
         nl = [CHR 0x0A];
         stringToSign = method @ nl @ nl @ ''application/octet-stream'' @ nl @ t @ nl @ resource in
     bindR (getAuthorizationHeader H (s3_secret_key c) stringToSign) (\<lambda>signature.
     bindR (sprintf_to 100 (''Date: '' @ t)) (\<lambda>d.
     bindR (sprintf_to 512 (''Authorization: AWS '' @ s3_key c @ '':'' @ signature)) (\<lambda>auth.
       Inr (d, auth)))))"

definition s3_get_request :: "'w http \<Rightarrow> 'w S3Context \<Rightarrow> nat \<Rightarrow> nat \<Rightarrow> string \<Rightarrow> fault + request" where
  "s3_get_request H c offset sz name =
     bindR (s3_signed H c ''GET'' name) (\<lambda>(d, auth).
     bindR (sprintf_to 256 (''Host: '' @ s3_host c)) (\<lambda>hd_host.
       Inr \<lparr>verb = GET, http_url = s3_object_url c name,
            http_headers = [range_header offset sz, hd_host, d,
              ''Content-Type: application/octet-stream'', ''Expect:'', auth],
            http_body = [], http_data = [], verify_peer = (\<not> s3_ssl_no_verify c)\<rparr>))"

definition s3_read ::
    "'w http \<Rightarrow> nat \<Rightarrow> nat \<Rightarrow> string \<Rightarrow> 'w S3Context \<Rightarrow> (fault + bytes option) \<times> 'w S3Context" where
  "s3_read H offset sz name c =
     (case s3_get_request H c offset sz name of
        Inl f \<Rightarrow> (Inl f, c)
      | Inr q \<Rightarrow>
          (case perform H q (world c) of
             (CurlError, w) \<Rightarrow> (Inr None, c\<lparr>world := w\<rparr>)
           | (Response http_code hs pieces, w) \<Rightarrow>
               let c' = c\<lparr>world := w\<rparr>; data = received pieces in
               if http_code < 200 \<or> http_code > 299 then (Inr None, c')
               else if length data > sz then (Inl BufferOverflow, c')
               else (Inr (Some data), c')))"

definition s3_put_request :: "'w http \<Rightarrow> 'w S3Context \<Rightarrow> string \<Rightarrow> bytes \<Rightarrow> fault + request" where
  "s3_put_request H c name b =
     bindR (s3_signed H c ''PUT'' name) (\<lambda>(d, auth).
     bindR (sprintf_to 256 (''Host: '' @ s3_url c)) (\<lambda>host.
       Inr \<lparr>verb = PUT, http_url = s3_object_url c name,
            http_headers = [host, d, ''Content-Type: application/octet-stream'',
              ''Content-Length: '' @ show_nat (length b), ''Expect:'', auth],
            http_body = [], http_data = b, verify_peer = (\<not> s3_ssl_no_verify c)\<rparr>))"

text \<open>A fault of the buffers of \<open>closeToWrite\<close> is part of the result.\<close>

definition s3_closeToWrite ::
    "'w http \<Rightarrow> string \<Rightarrow> 'w S3Context \<Rightarrow> (fault + bool) \<times> 'w S3Context" where
  "s3_closeToWrite H name c =
     (case writingBuffers c name of
        None \<Rightarrow> (Inr False, c)
      | Some b \<Rightarrow>
          (case s3_put_request H c name b of
             Inl f \<Rightarrow> (Inl f, c)
           | Inr q \<Rightarrow>
               (case perform H q (world c) of
                  (CurlError, w) \<Rightarrow> (Inr False, c\<lparr>world := w\<rparr>)
                | (Response http_code hs pieces, w) \<Rightarrow>
                    if http_code < 200 \<or> http_code > 299 then (Inr False, c\<lparr>world := w\<rparr>)
                    else (Inr True, erase_buffer name (c\<lparr>world := w\<rparr>)))))"

text \<open>The operations on the writing buffer are, word for word, those of CephPoolContext.\<close>

definition s3_write :: "bytes \<Rightarrow> nat \<Rightarrow> string \<Rightarrow> 'w S3Context \<Rightarrow> bool \<times> 'w S3Context" where
  "s3_write = object_write"

definition s3_writeFull :: "bytes \<Rightarrow> string \<Rightarrow> 'w S3Context \<Rightarrow> bool \<times> 'w S3Context" where
  "s3_writeFull = object_writeFull"

definition s3_openToWrite :: "string \<Rightarrow> 'w S3Context \<Rightarrow> bool \<times> 'w S3Context" where
  "s3_openToWrite = object_openToWrite"

definition s3_getPath :: "string \<Rightarrow> int \<Rightarrow> int \<Rightarrow> string" where
  "s3_getPath = object_getPath"

definition s3_closeConnection :: "'w S3Context \<Rightarrow> 'w S3Context" where
  "s3_closeConnection c = c\<lparr>connected := False\<rparr>"

definition s3_context :: "'w http \<Rightarrow> 'w S3Context Context" where
  "s3_context H = \<lparr>isConnected = connected, read_at = s3_read H, write_at = s3_write,
     writeFull = s3_writeFull, openToWrite = s3_openToWrite, closeToWrite = s3_closeToWrite H\<rparr>"

subsection \<open>SwiftContext\<close>

record 'w SwiftContext = "'w object_context" +
  auth_url :: string
  sw_user_name :: string
  user_passwd :: string
  keystone_auth :: bool
  domain_id :: string
  project_id :: string
  user_account :: string
  public_url :: string
  container_name :: string
  token :: string
  token_file :: string
  use_token_from_file :: bool
  sw_ssl_no_verify :: bool

definition swift_new :: "(string \<Rightarrow> string option) \<Rightarrow> string \<Rightarrow> 'w \<Rightarrow> 'w SwiftContext" where
  "swift_new env cont w =
     \<lparr>writingBuffers = (\<lambda>_. None), connected = False, attempts = 1, world = w,
      auth_url = env_or env ''ROK4_SWIFT_AUTHURL'' ''http://localhost:8080/auth/v1.0'',
      sw_user_name = env_or env ''ROK4_SWIFT_USER'' ''tester'',
      user_passwd = env_or env ''ROK4_SWIFT_PASSWD'' ''password'',
      keystone_auth = (env ''ROK4_KEYSTONE_DOMAINID'' \<noteq> None),
      domain_id = '''', project_id = '''', user_account = '''',
      public_url = env_or env ''ROK4_SWIFT_PUBLICURL'' ''http://localhost:8080/api/v1'',
      container_name = cont, token = '''', token_file = '''', use_token_from_file = True,
      sw_ssl_no_verify = (env ''ROK4_SSL_NO_VERIFY'' \<noteq> None)\<rparr>"

text \<open>
  The body of the Keystone request. \<open>quoted s\<close> puts the double quotes of the source around \<open>s\<close>.
\<close>

definition quoted :: "string \<Rightarrow> string" where
  "quoted s = CHR 0x22 # s @ [CHR 0x22]"

definition keystone_body :: "'w SwiftContext \<Rightarrow> string" where
  "keystone_body c =
     ''{ '' @ quoted ''auth'' @ '': {'' @ quoted ''scope'' @ '': { '' @ quoted ''project'' @ '': {''
       @ quoted ''id'' @ '': '' @ quoted (project_id c) @ ''}}, ''
     @ '' '' @ quoted ''identity'' @ '': { '' @ quoted ''methods'' @ '': ['' @ quoted ''password''
       @ ''], '' @ quoted ''password'' @ '': { '' @ quoted ''user'' @ '': { '' @ quoted ''domain''
       @ '': { '' @ quoted ''id'' @ '': '' @ quoted (domain_id c) @ ''},''
     @ quoted ''name'' @ '': '' @ quoted (sw_user_name c) @ '', '' @ quoted ''password'' @ '': ''
       @ quoted (user_passwd c) @ '' } } } } }''"

definition keystone_request :: "'w SwiftContext \<Rightarrow> request" where
  "keystone_request c =
     \<lparr>verb = POST, http_url = auth_url c, http_headers = [''Content-Type: application/json''],
      http_body = keystone_body c, http_data = [], verify_peer = (\<not> sw_ssl_no_verify c)\<rparr>"

text \<open>The Swift request: every header is built in a buffer of 256 bytes.\<close>

definition swift_auth_request :: "'w SwiftContext \<Rightarrow> fault + request" where
  "swift_auth_request c =
     bindR (sprintf_to 256 (''X-Storage-User: '' @ user_account c @ '':'' @ sw_user_name c)) (\<lambda>xUser.
     bindR (sprintf_to 256 (''X-Storage-Pass: '' @ user_passwd c)) (\<lambda>xPass.
     bindR (sprintf_to 256 (''X-Auth-User: '' @ user_account c @ '':'' @ sw_user_name c)) (\<lambda>xAuthUser.
     bindR (sprintf_to 256 (''X-Auth-Key: '' @ user_passwd c)) (\<lambda>xAuthKey.
       Inr \<lparr>verb = GET, http_url = auth_url c, http_headers = [xUser, xPass, xAuthUser, xAuthKey],
            http_body = [], http_data = [], verify_peer = (\<not> sw_ssl_no_verify c)\<rparr>))))"

text \<open>
  Sending an authentication request and taking the token out of the header of the answer:
  \<open>std::string (authHdr.token)\<close> of a null pointer when there is none.
\<close>

definition authenticate ::
    "'w http \<Rightarrow> request \<Rightarrow> 'w SwiftContext \<Rightarrow> (fault + bool) \<times> 'w SwiftContext" where
  "authenticate H q c =
     (case perform H q (world c) of
        (CurlError, w) \<Rightarrow> (Inr False, c\<lparr>world := w\<rparr>)
      | (Response http_code hs pieces, w) \<Rightarrow>
          if http_code < 200 \<or> http_code > 299 then (Inr False, c\<lparr>world := w\<rparr>)
          else case hdr_token (received_headers hs) of
            None \<Rightarrow> (Inl NullPointer, c\<lparr>world := w\<rparr>)
          | Some t \<Rightarrow> (Inr True, c\<lparr>world := w, token := t, connected := True\<rparr>))"

definition swift_connection ::
    "(string \<Rightarrow> string option) \<Rightarrow> 'w http \<Rightarrow> 'w SwiftContext \<Rightarrow> (fault + bool) \<times> 'w SwiftContext" where
  "swift_connection env H c =
     (if connected c then (Inr True, c)
      else
        let tf = (if use_token_from_file c then env ''ROK4_SWIFT_TOKEN_FILE'' else None);
            c1 = (case tf of Some f \<Rightarrow> c\<lparr>token_file := f\<rparr> | None \<Rightarrow> c) in
        case (case tf of Some f \<Rightarrow> token_line H f (world c) | None \<Rightarrow> None) of
          Some t \<Rightarrow> (Inr True, c1\<lparr>token := t, connected := True\<rparr>)
        | None \<Rightarrow>
            let c2 = c1\<lparr>use_token_from_file := False\<rparr> in
            if keystone_auth c2 then
              (case env ''ROK4_KEYSTONE_DOMAINID'' of
                 None \<Rightarrow> (Inr False, c2)
               | Some domain \<Rightarrow>
                   (case env ''ROK4_KEYSTONE_PROJECTID'' of
                      None \<Rightarrow> (Inr False, c2\<lparr>domain_id := domain\<rparr>)
                    | Some project \<Rightarrow>
                        let c3 = c2\<lparr>domain_id := domain, project_id := project\<rparr> in
                        if token c3 = '''' then authenticate H (keystone_request c3) c3
                        else (Inr True, c3\<lparr>connected := True\<rparr>)))
            else
              (case env ''ROK4_SWIFT_ACCOUNT'' of
                 None \<Rightarrow> (Inr False, c2)
               | Some account \<Rightarrow>
                   let c3 = c2\<lparr>user_account := account\<rparr> in
                   (case swift_auth_request c3 of
                      Inl f \<Rightarrow> (Inl f, c3)
                    | Inr q \<Rightarrow> authenticate H q c3)))"

definition swift_object_url :: "'w SwiftContext \<Rightarrow> string \<Rightarrow> string" where
  "swift_object_url c name = public_url c @ ''/'' @ container_name c @ ''/'' @ name"

definition swift_get_request :: "'w SwiftContext \<Rightarrow> nat \<Rightarrow> nat \<Rightarrow> string \<Rightarrow> request" where
  "swift_get_request c offset sz name =
     \<lparr>verb = GET, http_url = swift_object_url c name,
      http_headers = [token c, range_header offset sz], http_body = [], http_data = [],
      verify_peer = (\<not> sw_ssl_no_verify c)\<rparr>"

definition swift_put_request :: "'w SwiftContext \<Rightarrow> string \<Rightarrow> bytes \<Rightarrow> request" where
  "swift_put_request c name b =
     \<lparr>verb = PUT, http_url = swift_object_url c name, http_headers = [token c], http_body = [],
      http_data = b, verify_peer = (\<not> sw_ssl_no_verify c)\<rparr>"

text \<open>An expired authentication: forget the token before connecting again.\<close>

definition forget_token :: "'w SwiftContext \<Rightarrow> 'w SwiftContext" where
  "forget_token c = c\<lparr>connected := False, token := '''', use_token_from_file := False\<rparr>"

definition refused :: "nat \<Rightarrow> bool" where
  "refused http_code \<longleftrightarrow> http_code = 403 \<or> http_code = 401 \<or> http_code = 400"

text \<open>
  The loop of \<open>read\<close>: \<open>left\<close> attempts are left, \<open>reconnection\<close> tells that the connection
  was renewed in this read. A refusal renews it once, and is not counted.
\<close>

function swift_read_loop ::
    "(string \<Rightarrow> string option) \<Rightarrow> 'w http \<Rightarrow> nat \<Rightarrow> bool \<Rightarrow> nat \<Rightarrow> nat \<Rightarrow> string \<Rightarrow> 'w SwiftContext
       \<Rightarrow> (fault + bytes option) \<times> 'w SwiftContext" where
  "swift_read_loop env H left reconnection offset sz name c =
     (if left = 0 then (Inr None, c)
      else case perform H (swift_get_request c offset sz name) (world c) of
        (CurlError, w) \<Rightarrow> (Inr None, c\<lparr>world := w\<rparr>)
      | (Response http_code hs pieces, w) \<Rightarrow>
          let c1 = c\<lparr>world := w\<rparr> in
          if \<not> reconnection \<and> refused http_code then
            (case swift_connection env H (forget_token c1) of
               (Inl f, c2) \<Rightarrow> (Inl f, c2)
             | (Inr False, c2) \<Rightarrow> (Inr None, c2)
             | (Inr True, c2) \<Rightarrow> swift_read_loop env H left True offset sz name c2)
          else if http_code < 200 \<or> http_code > 299 then
            swift_read_loop env H (left - 1) reconnection offset sz name c1
          else if length (received pieces) > sz then (Inl BufferOverflow, c1)
          else (Inr (Some (received pieces)), c1))"
  by pat_completeness auto
termination
  by (relation "measure (\<lambda>(env, H, left, r, off, sz, n, c). 2 * left + (if r then 0 else 1))") auto

definition swift_read ::
    "(string \<Rightarrow> string option) \<Rightarrow> 'w http \<Rightarrow> nat \<Rightarrow> nat \<Rightarrow> string \<Rightarrow> 'w SwiftContext
       \<Rightarrow> (fault + bytes option) \<times> 'w SwiftContext" where
  "swift_read env H offset sz name c =
     (if \<not> connected c then (Inr None, c)
      else swift_read_loop env H (attempts c) False offset sz name c)"

function swift_flush_loop ::
    "(string \<Rightarrow> string option) \<Rightarrow> 'w http \<Rightarrow> nat \<Rightarrow> bool \<Rightarrow> string \<Rightarrow> bytes \<Rightarrow> 'w SwiftContext
       \<Rightarrow> (fault + bool) \<times> 'w SwiftContext" where
  "swift_flush_loop env H left reconnection name b c =
     (if left = 0 then (Inr False, c)
      else case perform H (swift_put_request c name b) (world c) of
        (CurlError, w) \<Rightarrow> (Inr False, c\<lparr>world := w\<rparr>)
      | (Response http_code hs pieces, w) \<Rightarrow>
          let c1 = c\<lparr>world := w\<rparr> in
          if \<not> reconnection \<and> refused http_code then
            (case swift_connection env H (forget_token c1) of
               (Inl f, c2) \<Rightarrow> (Inl f, c2)
             | (Inr False, c2) \<Rightarrow> (Inr False, c2)
             | (Inr True, c2) \<Rightarrow> swift_flush_loop env H left True name b c2)
          else if http_code < 200 \<or> http_code > 299 then
            swift_flush_loop env H (left - 1) reconnection name b c1
          else (Inr True, erase_buffer name c1))"
  by pat_completeness auto
termination
  by (relation "measure (\<lambda>(env, H, left, r, n, b, c). 2 * left + (if r then 0 else 1))") auto

declare swift_read_loop.simps [simp del] swift_flush_loop.simps [simp del]

definition swift_closeToWrite ::
    "(string \<Rightarrow> string option) \<Rightarrow> 'w http \<Rightarrow> string \<Rightarrow> 'w SwiftContext \<Rightarrow> (fault + bool) \<times> 'w SwiftContext" where
  "swift_closeToWrite env H name c =
     (case writingBuffers c name of
        None \<Rightarrow> (Inr False, c)
      | Some b \<Rightarrow> swift_flush_loop env H (attempts c) False name b c)"

definition swift_write :: "bytes \<Rightarrow> nat \<Rightarrow> string \<Rightarrow> 'w SwiftContext \<Rightarrow> bool \<times> 'w SwiftContext" where
  "swift_write = object_write"

definition swift_writeFull :: "bytes \<Rightarrow> string \<Rightarrow> 'w SwiftContext \<Rightarrow> bool \<times> 'w SwiftContext" where
  "swift_writeFull = object_writeFull"

definition swift_openToWrite :: "string \<Rightarrow> 'w SwiftContext \<Rightarrow> bool \<times> 'w SwiftContext" where
  "swift_openToWrite = object_openToWrite"

definition swift_getPath :: "string \<Rightarrow> int \<Rightarrow> int \<Rightarrow> string" where
  "swift_getPath = object_getPath"

text \<open>A token that did not come from the token file is written back to it.\<close>

definition swift_closeConnection :: "'w http \<Rightarrow> 'w SwiftContext \<Rightarrow> 'w SwiftContext" where
  "swift_closeConnection H c =
     (if token_file c \<noteq> '''' \<and> \<not> use_token_from_file c
      then c\<lparr>connected := False, world := store_token H (token_file c) (token c) (world c)\<rparr>
      else c\<lparr>connected := False\<rparr>)"

lemmas http_buffer_simps = object_simps
  s3_write_def s3_writeFull_def s3_openToWrite_def
  swift_write_def swift_writeFull_def swift_openToWrite_def

definition swift_context :: "(string \<Rightarrow> string option) \<Rightarrow> 'w http \<Rightarrow> 'w SwiftContext Context" where
  "swift_context env H = \<lparr>isConnected = connected, read_at = swift_read env H,
     write_at = swift_write, writeFull = swift_writeFull, openToWrite = swift_openToWrite,
     closeToWrite = swift_closeToWrite env H\<rparr>"

subsection \<open>What the code relies on\<close>

text \<open>
  The documented behaviour of an object server whose answers are healthy: a PUT stores the data
  under the URL, a GET with a byte range of an object gives these bytes.
\<close>

definition is_range :: "string \<Rightarrow> bool" where
  "is_range h \<longleftrightarrow> take 7 h = ''Range: ''"

lemma is_range_simps:
  "is_range (range_header off k)" "\<not> is_range (''Host: '' @ s)"
  "\<not> is_range (''Date: '' @ s)" "\<not> is_range (''Authorization: AWS '' @ s)"
  "\<not> is_range ''Content-Type: application/octet-stream''" "\<not> is_range ''Expect:''"
  by (simp_all add: is_range_def range_header_def)

lemma s3_signed_headers:
  assumes "s3_signed H c m n = Inr (d, a)"
  shows "\<not> is_range d" "\<not> is_range a"
proof -
  obtain t s where "sprintf_to 100 (''Date: '' @ t) = Inr d"
    "sprintf_to 512 (''Authorization: AWS '' @ s) = Inr a"
    using assms unfolding s3_signed_def Let_def bindR_Inr_iff by blast
  then have "d = ''Date: '' @ t" "a = ''Authorization: AWS '' @ s"
    by (simp_all add: sprintf_to_def split: if_splits)
  then show "\<not> is_range d" "\<not> is_range a" using is_range_simps by metis+
qed

text \<open>
  What a server of objects promises, as HTTP says: an object that is put replaces the one before and the
  answer is a success, and a range that begins in an object is answered with a success and the bytes of the
  range that are there, in any pieces, and changes nothing.
\<close>

lemma length_window_le: "\<not> k < length (window off k b)"
  by (simp add: window_def)

definition success :: "nat \<Rightarrow> bool" where
  "success code \<longleftrightarrow> 200 \<le> code \<and> code \<le> 299"

locale http_objects =
  fixes H :: "'w http" and objects :: "'w \<Rightarrow> string \<Rightarrow> bytes option" and healthy :: "'w \<Rightarrow> bool"
  assumes put_law:
      "healthy w \<Longrightarrow> verb q = PUT \<Longrightarrow>
         \<exists>code hs pieces w'. perform H q w = (Response code hs pieces, w') \<and> success code
           \<and> objects w' (http_url q) = Some (http_data q) \<and> healthy w'"
    and get_law:
      "healthy w \<Longrightarrow> verb q = GET \<Longrightarrow> objects w (http_url q) = Some b \<Longrightarrow> 0 < k \<Longrightarrow> off < length b
         \<Longrightarrow> filter is_range (http_headers q) = [range_header off k] \<Longrightarrow>
         \<exists>code hs pieces w'. perform H q w = (Response code hs pieces, w') \<and> success code
           \<and> concat pieces = window off k b \<and> objects w' = objects w \<and> healthy w'"
begin

text \<open>The settings of an S3 context with which its buffers are large enough.\<close>

definition s3_ready :: "'w S3Context \<Rightarrow> bool" where
  "s3_ready c \<longleftrightarrow> connected c \<and> healthy (world c)
     \<and> (\<forall>w m n. \<exists>d a. s3_signed H (c\<lparr>world := w\<rparr>) m n = Inr (d, a))
     \<and> length (s3_host c) < 250 \<and> length (s3_url c) < 250"

definition s3_stored :: "'w S3Context \<Rightarrow> string \<Rightarrow> bytes option" where
  "s3_stored c n = objects (world c) (s3_object_url c n)"

lemma s3_ready_update [simp]:
  "s3_ready (c\<lparr>writingBuffers := wb\<rparr>) = s3_ready c"
  "healthy w \<Longrightarrow> s3_ready c \<Longrightarrow> s3_ready (c\<lparr>world := w\<rparr>)"
  "s3_object_url (c\<lparr>writingBuffers := wb\<rparr>) n = s3_object_url c n"
  "s3_object_url (c\<lparr>world := w\<rparr>) n = s3_object_url c n"
  by (auto simp: s3_ready_def s3_signed_def s3_object_url_def)

lemma s3_read_ready:
  assumes "s3_ready c" "s3_stored c n = Some b" "off < length b" "0 < k"
  shows "\<exists>c'. s3_read H off k n c = (Inr (Some (window off k b)), c') \<and> s3_stored c' = s3_stored c
    \<and> s3_ready c'"
proof -
  have "\<exists>d a. s3_signed H (c\<lparr>world := world c\<rparr>) ''GET'' n = Inr (d, a)"
    using assms(1) unfolding s3_ready_def by blast
  then obtain d a where s: "s3_signed H c ''GET'' n = Inr (d, a)" by auto
  have "length (''Host: '' @ s3_host c) < 256" using assms(1) by (simp add: s3_ready_def)
  with s s3_signed_headers [OF s] obtain q where q: "s3_get_request H c off k n = Inr q" "verb q = GET"
    "http_url q = s3_object_url c n" "filter is_range (http_headers q) = [range_header off k]"
    by (simp add: s3_get_request_def sprintf_to_def is_range_simps [simplified])
  with get_law [of "world c" q b k off] assms obtain code hs pieces w' where
    "perform H q (world c) = (Response code hs pieces, w')" "success code"
    "concat pieces = window off k b" "objects w' = objects (world c)" "healthy w'"
    by (auto simp: s3_stored_def s3_ready_def)
  moreover have "s3_stored (c\<lparr>world := w'\<rparr>) = s3_stored c" using calculation(4) by (simp add: s3_stored_def fun_eq_iff)
  ultimately show ?thesis using q assms
    by (simp add: s3_read_def Let_def received_concat length_window_le success_def)
qed

lemma s3_close_ready:
  assumes "s3_ready c" "writingBuffers c n = Some b"
  shows "\<exists>c'. s3_closeToWrite H n c = (Inr True, c') \<and> s3_stored c' n = Some b \<and> s3_ready c'"
proof -
  have "\<exists>d a. s3_signed H (c\<lparr>world := world c\<rparr>) ''PUT'' n = Inr (d, a)"
    using assms(1) unfolding s3_ready_def by blast
  then obtain q where q: "s3_put_request H c n b = Inr q" "verb q = PUT"
    "http_url q = s3_object_url c n" "http_data q = b"
    using assms(1) by (auto simp: s3_put_request_def sprintf_to_def s3_ready_def)
  with put_law [of "world c" q] assms obtain code hs pieces w' where
    "perform H q (world c) = (Response code hs pieces, w')" "success code"
    "objects w' (s3_object_url c n) = Some b" "healthy w'"
    by (auto simp: s3_ready_def)
  with q assms show ?thesis
    by (auto simp: s3_closeToWrite_def s3_stored_def erase_buffer_def success_def)
qed

definition swift_stored :: "'w SwiftContext \<Rightarrow> string \<Rightarrow> bytes option" where
  "swift_stored c n = objects (world c) (swift_object_url c n)"

definition swift_ready :: "'w SwiftContext \<Rightarrow> bool" where
  "swift_ready c \<longleftrightarrow>
     connected c \<and> 0 < attempts c \<and> healthy (world c) \<and> \<not> is_range (token c)"

lemma swift_ready_update [simp]:
  "swift_ready (c\<lparr>writingBuffers := wb\<rparr>) = swift_ready c"
  by (simp add: swift_ready_def)

lemma swift_read_ready:
  assumes "swift_ready c" "swift_stored c n = Some b" "off < length b" "0 < k"
  shows "\<exists>c'. swift_read env H off k n c = (Inr (Some (window off k b)), c')
    \<and> swift_stored c' = swift_stored c \<and> swift_ready c'"
proof -
  obtain code hs pieces w' where
    "perform H (swift_get_request c off k n) (world c) = (Response code hs pieces, w')" "success code"
    "concat pieces = window off k b" "objects w' = objects (world c)" "healthy w'"
    using get_law [of "world c" "swift_get_request c off k n" b k off] assms
    by (auto simp: swift_ready_def swift_stored_def is_range_def range_header_def swift_get_request_def swift_object_url_def)
  then show ?thesis using assms
    by (auto simp: swift_read_def swift_read_loop.simps swift_ready_def swift_stored_def swift_object_url_def
        received_concat length_window_le refused_def success_def fun_eq_iff)
qed

lemma swift_close_ready:
  assumes "swift_ready c" "writingBuffers c n = Some b"
  shows "\<exists>c'. swift_closeToWrite env H n c = (Inr True, c') \<and> swift_stored c' n = Some b
    \<and> swift_ready c'"
  using put_law [of "world c" "swift_put_request c n b"] assms
  by (auto simp: swift_closeToWrite_def swift_flush_loop.simps swift_ready_def swift_stored_def
      swift_put_request_def swift_object_url_def refused_def erase_buffer_def success_def)

end

lemma in_object: "off + k \<le> length b \<Longrightarrow> 0 < k \<Longrightarrow> off < length (b :: bytes)"
  by simp

sublocale http_objects \<subseteq> s3: short_storage "s3_context H" writingBuffers s3_stored
  "\<lambda>n c. writingBuffers c n = None" s3_ready
proof
  show "s3_ready c \<Longrightarrow> isConnected (s3_context H) c" for c
    by (simp add: s3_context_def s3_ready_def)
next
  fix c n b off and k :: nat
  assume "s3_stored c n = Some b" "s3_ready c" "off + k \<le> length b" "0 < k"
  from s3_read_ready [OF this(2,1) in_object [OF this(3,4)] this(4)] this(1)
  show "\<exists>c'. read_at (s3_context H) off k n c = (Inr (Some (window off k b)), c') \<and> s3_stored c' n = Some b \<and> s3_ready c'"
    by (auto simp: s3_context_def)
next
  fix c n b and k :: nat
  assume "s3_stored c n = Some b" "s3_ready c" "b \<noteq> []" "length b < k"
  with s3_read_ready [of c n b 0 k]
  show "\<exists>c'. read_at (s3_context H) 0 k n c = (Inr (Some b), c') \<and> s3_ready c' \<and> (\<forall>m. s3_stored c' m = s3_stored c m)"
    by (auto simp: s3_context_def window_def)
qed (auto simp: s3_context_def http_buffer_simps intro: s3_close_ready)

sublocale http_objects \<subseteq> swift: short_storage "swift_context env H" writingBuffers swift_stored
  "\<lambda>n c. writingBuffers c n = None" swift_ready for env
proof
  show "swift_ready c \<Longrightarrow> isConnected (swift_context env H) c" for c
    by (simp add: swift_context_def swift_ready_def)
next
  fix c n b off and k :: nat
  assume "swift_stored c n = Some b" "swift_ready c" "off + k \<le> length b" "0 < k"
  from swift_read_ready [where env = env, OF this(2,1) in_object [OF this(3,4)] this(4)] this(1)
  show "\<exists>c'. read_at (swift_context env H) off k n c = (Inr (Some (window off k b)), c') \<and> swift_stored c' n = Some b \<and> swift_ready c'"
    by (auto simp: swift_context_def)
next
  fix c n b and k :: nat
  assume "swift_stored c n = Some b" "swift_ready c" "b \<noteq> []" "length b < k"
  with swift_read_ready [of c n b 0 k env]
  show "\<exists>c'. read_at (swift_context env H) 0 k n c = (Inr (Some b), c') \<and> swift_ready c' \<and> (\<forall>m. swift_stored c' m = swift_stored c m)"
    by (auto simp: swift_context_def window_def)
qed (auto simp: swift_context_def http_buffer_simps intro: swift_close_ready)

text \<open>A server in memory whose next answers are scripted codes first: an instance to run.\<close>

record mem_server =
  url_objects :: "string \<Rightarrow> bytes option"
  codes :: "nat list"

definition asked :: "request \<Rightarrow> (nat \<times> nat) option" where
  "asked q =
     (case filter is_range (http_headers q) of
        [h] \<Rightarrow>
          (let r = drop 13 h; from = nat (digits_value (takeWhile (\<lambda>c. c \<noteq> CHR ''-'') r));
               to = nat (digits_value (tl (dropWhile (\<lambda>c. c \<noteq> CHR ''-'') r)))
           in Some (from, Suc to - from))
      | _ \<Rightarrow> None)"

definition mem_http :: "mem_server http" where
  "mem_http = \<lparr>perform = (\<lambda>q w.
       case codes w of
         code # rest \<Rightarrow> (Response code [''X-Auth-Token: new..''] [], w\<lparr>codes := rest\<rparr>)
       | [] \<Rightarrow>
         (case verb q of
            PUT \<Rightarrow> (Response 201 [] [], w\<lparr>url_objects := (url_objects w)(http_url q \<mapsto> http_data q)\<rparr>)
          | POST \<Rightarrow> (Response 200 [] [], w)
          | GET \<Rightarrow>
            (case url_objects w (http_url q) of
               None \<Rightarrow> (Response 404 [] [], w)
             | Some b \<Rightarrow>
                 (case asked q of
                    None \<Rightarrow> (Response 200 [] [b], w)
                  | Some (off, k) \<Rightarrow> (Response 206 [] [window off k b], w))))),
     gmtime_now = (\<lambda>_. \<lparr>tm_wday = 4, tm_mday = 2, tm_mon = 0, tm_year = 70, tm_hour = 3, tm_min = 4, tm_sec = 5\<rparr>),
     hmac_sha1 = (\<lambda>_ _. replicate 20 0),
     token_line = (\<lambda>_ _. None), store_token = (\<lambda>_ _ w. w)\<rparr>"

lemma asked_range:
  assumes "filter is_range (http_headers q) = [range_header off k]" "0 < k"
  shows "asked q = Some (off, k)"
proof -
  have e: "show_int (int off + int k - 1) = show_nat (off + k - 1)"
    using assms(2) by (simp add: show_int_def nat_diff_distrib nat_add_distrib of_nat_diff)
  have "CHR ''-'' \<notin> set (show_nat off)" using show_nat_digits [of "CHR ''-''" off] by auto
  then have "takeWhile (\<lambda>c. c \<noteq> CHR ''-'') (show_nat off @ ''-'' @ xs) = show_nat off"
    "dropWhile (\<lambda>c. c \<noteq> CHR ''-'') (show_nat off @ ''-'' @ xs) = ''-'' @ xs" for xs
    by (induction "show_nat off") (auto simp: takeWhile_append dropWhile_append takeWhile_eq_all_conv)
  moreover have "drop 13 (range_header off k) = show_nat off @ ''-'' @ show_nat (off + k - 1)"
    by (simp add: range_header_def e)
  ultimately show ?thesis using assms by (simp add: asked_def Let_def digits_value_show)
qed

interpretation mem_http: http_objects mem_http url_objects "\<lambda>w. codes w = []"
proof
  fix w :: mem_server and q :: request and b off and k :: nat
  assume a: "codes w = []" "verb q = GET" "url_objects w (http_url q) = Some b" "0 < k"
    "off < length b" "filter is_range (http_headers q) = [range_header off k]"
  from asked_range [OF a(6,4)] a
  show "\<exists>code hs pieces w'. perform mem_http q w = (Response code hs pieces, w') \<and> success code
      \<and> concat pieces = window off k b \<and> url_objects w' = url_objects w \<and> codes w' = []"
    by (auto simp: mem_http_def success_def)
qed (auto simp: mem_http_def success_def)

subsection \<open>The signature is injective\<close>

lemma nat_and_mask: "(n::nat) AND 3 = n mod 4" "n AND 15 = n mod 16" "n AND 63 = n mod 64"
  using mask_nat [of n 2] mask_nat [of n 4] mask_nat [of n 6] by simp_all

lemma u8_less: "unat (a::u8) < 256"
  using unsigned_less [of a, where 'a = nat] by simp

lemma unat_index:
  "unat (index0 a) = unat a div 4"
  "unat (index1 a b) = unat a mod 4 * 16 + unat b div 16"
  "unat (index2 b c) = unat b mod 16 * 4 + unat c div 64"
  "unat (index3 c) = unat c mod 64"
proof -
  note l = u8_less [of a] u8_less [of b] u8_less [of c]
  show "unat (index0 a) = unat a div 4"
    using l by (simp add: index0_def unat_drop_bit_eq unsigned_and_eq nat_and_mask drop_bit_eq_div [where 'a = nat])
  show "unat (index3 c) = unat c mod 64"
    by (simp add: index3_def unsigned_and_eq nat_and_mask)
  show "unat (index1 a b) = unat a mod 4 * 16 + unat b div 16"
    using l
    by (simp add: index1_def unat_word_ariths unat_drop_bit_eq unsigned_push_bit_eq unsigned_and_eq
        drop_bit_eq_div [where 'a = nat] nat_and_mask push_bit_eq_mult take_bit_eq_mod)
  show "unat (index2 b c) = unat b mod 16 * 4 + unat c div 64"
    using l
    by (simp add: index2_def unat_word_ariths unat_drop_bit_eq unsigned_push_bit_eq unsigned_and_eq
        drop_bit_eq_div [where 'a = nat] nat_and_mask push_bit_eq_mult take_bit_eq_mod)
qed


lemma b64_inject: "unat i < 64 \<Longrightarrow> unat j < 64 \<Longrightarrow> b64 i = b64 j \<longleftrightarrow> unat i = unat j"
proof -
  have "distinct base64_chars" "length base64_chars = 64" by (simp_all add: base64_chars_def)
  then show "unat i < 64 \<Longrightarrow> unat j < 64 \<Longrightarrow> b64 i = b64 j \<longleftrightarrow> unat i = unat j"
    by (simp add: b64_def nth_eq_iff_index_eq)
qed

lemma index_less:
  "unat (index0 a) < 64" "unat (index1 a b) < 64" "unat (index2 b c) < 64" "unat (index3 c) < 64"
  unfolding unat_index using u8_less [of a] u8_less [of b] u8_less [of c]
  by (simp_all add: less_mult_imp_div_less)

lemma index_inject:
  "b64 (index0 a) = b64 (index0 a') \<longleftrightarrow> unat a div 4 = unat a' div 4"
  "b64 (index1 a b) = b64 (index1 a' b') \<longleftrightarrow>
     unat a mod 4 = unat a' mod 4 \<and> unat b div 16 = unat b' div 16"
  "b64 (index2 b c) = b64 (index2 b' c') \<longleftrightarrow>
     unat b mod 16 = unat b' mod 16 \<and> unat c div 64 = unat c' div 64"
  "b64 (index3 c) = b64 (index3 c') \<longleftrightarrow> unat c mod 64 = unat c' mod 64"
proof -
  have *: "x * n + d = y * n + e \<longleftrightarrow> x = y \<and> d = e" if "d < n" "e < n" for x y d e n :: nat
    using that by (metis div_mult_self3 div_less add.commute add_left_cancel add.right_neutral
        mod_less mod_mult_self3 less_nat_zero_code)
  have "unat b div 16 < 16" "unat b' div 16 < 16" "unat c div 64 < 4" "unat c' div 64 < 4"
    using u8_less [of b] u8_less [of b'] u8_less [of c] u8_less [of c']
    by (simp_all add: less_mult_imp_div_less)
  note bounds = this
  show "b64 (index0 a) = b64 (index0 a') \<longleftrightarrow> unat a div 4 = unat a' div 4"
    by (subst b64_inject [OF index_less(1) index_less(1)]) (simp only: unat_index)
  show "b64 (index1 a b) = b64 (index1 a' b') \<longleftrightarrow>
     unat a mod 4 = unat a' mod 4 \<and> unat b div 16 = unat b' div 16"
    by (subst b64_inject [OF index_less(2) index_less(2)]) (simp only: unat_index * bounds)
  show "b64 (index2 b c) = b64 (index2 b' c') \<longleftrightarrow>
     unat b mod 16 = unat b' mod 16 \<and> unat c div 64 = unat c' div 64"
    by (subst b64_inject [OF index_less(3) index_less(3)]) (simp only: unat_index * bounds)
  show "b64 (index3 c) = b64 (index3 c') \<longleftrightarrow> unat c mod 64 = unat c' mod 64"
    by (subst b64_inject [OF index_less(4) index_less(4)]) (simp only: unat_index)
qed

lemma u8_parts:
  "unat a div 4 = unat a' div 4 \<Longrightarrow> unat a mod 4 = unat a' mod 4 \<Longrightarrow> a = (a'::u8)"
  "unat a div 16 = unat a' div 16 \<Longrightarrow> unat a mod 16 = unat a' mod 16 \<Longrightarrow> a = a'"
  "unat a div 64 = unat a' div 64 \<Longrightarrow> unat a mod 64 = unat a' mod 64 \<Longrightarrow> a = a'"
  by (metis div_mult_mod_eq word_unat_eq_iff)+

lemma base64_inject: "length xs = length ys \<Longrightarrow> base64 xs = base64 ys \<longleftrightarrow> xs = ys"
proof (induction xs arbitrary: ys rule: base64.induct)
  case (2 a)
  then show ?case by (cases ys) (auto simp: index_inject intro: u8_parts)
next
  case (3 a b)
  then obtain c d where "ys = [c, d]" by (cases ys; cases "tl ys") auto
  then show ?case by (auto simp: index_inject intro: u8_parts)
next
  case (4 a b c rest)
  then obtain a' b' c' ys' where ys: "ys = a' # b' # c' # ys'" "length rest = length ys'"
    by (cases ys; cases "tl ys"; cases "tl (tl ys)") auto
  with 4(1) [OF ys(2)] show ?case by (auto simp: index_inject intro: u8_parts)
qed simp

lemma length_base64: "length (base64 xs) = 4 * ((length xs + 2) div 3)"
proof (induction xs rule: base64.induct)
  case (4 a b c rest)
  have "(5 + length rest) div 3 = Suc ((length rest + 2) div 3)" by arith
  with 4 show ?case by simp
qed simp_all

subsection \<open>Swift: counting the requests\<close>

text \<open>A counter of the world that a request raises by at most one.\<close>

definition counts :: "'w http \<Rightarrow> ('w \<Rightarrow> nat) \<Rightarrow> bool" where
  "counts H cnt \<longleftrightarrow> (\<forall>q w. cnt (snd (perform H q w)) \<le> Suc (cnt w))"

lemma authenticate_count:
  assumes "counts H cnt"
  shows "cnt (world (snd (authenticate H q c))) \<le> Suc (cnt (world c))"
  using assms [unfolded counts_def, rule_format, of q "world c"]
  by (auto simp: authenticate_def split: prod.splits response.splits option.splits)

lemma swift_connection_count:
  assumes "counts H cnt"
  shows "cnt (world (snd (swift_connection env H c))) \<le> Suc (cnt (world c))"
  using authenticate_count [OF assms]
  by (auto simp: swift_connection_def Let_def split: option.splits sum.splits
      intro: order_trans [OF authenticate_count [OF assms]])

lemma swift_read_loop_count:
  assumes "counts H cnt"
  shows "cnt (world (snd (swift_read_loop env H left r off sz n c)))
    \<le> cnt (world c) + left + (if r then 0 else 2)"
  using assms
proof (induction env H left r off sz n c rule: swift_read_loop.induct)
  case (1 env H left r off sz n c)
  obtain resp w where p: "perform H (swift_get_request c off sz n) (world c) = (resp, w)" by fastforce
  with 1(3) have w: "cnt w \<le> Suc (cnt (world c))" unfolding counts_def by (metis snd_conv)
  show ?case
  proof (cases "left = 0 \<or> resp = CurlError")
    case True
    with p w show ?thesis by (subst swift_read_loop.simps) auto
  next
    case False
    then obtain code hs pieces where resp: "resp = Response code hs pieces" by (cases resp) auto
    obtain ok c2 where con: "swift_connection env H (forget_token (c\<lparr>world := w\<rparr>)) = (ok, c2)"
      by fastforce
    have c2: "cnt (world c2) \<le> Suc (cnt w)"
      using swift_connection_count [OF 1(3), of env "forget_token (c\<lparr>world := w\<rparr>)"] con
      by (simp add: forget_token_def)
    consider (refuse) "\<not> r \<and> refused code" | (retry) "\<not> (\<not> r \<and> refused code)" "code < 200 \<or> code > 299"
      | (finish) "\<not> (\<not> r \<and> refused code)" "\<not> (code < 200 \<or> code > 299)" by blast
    then show ?thesis
    proof cases
      case refuse
      show ?thesis
      proof (cases "ok = Inr True")
        case True
        from 1(1) [OF _ p [symmetric] resp refl _ con [symmetric] True _ 1(3)] False refuse
        have "cnt (world (snd (swift_read_loop env H left True off sz n c2))) \<le> cnt (world c2) + left" by simp
        with refuse False p resp con w c2 True show ?thesis by (subst swift_read_loop.simps) auto
      next
        case f: False
        with refuse False p resp con w c2 show ?thesis
          by (subst swift_read_loop.simps) (auto split: sum.splits bool.splits)
      qed
    next
      case retry
      from 1(2) [OF _ p [symmetric] resp refl _ _ 1(3)] False retry
      have "cnt (world (snd (swift_read_loop env H (left - 1) r off sz n (c\<lparr>world := w\<rparr>)))) \<le> cnt w + (left - 1) + (if r then 0 else 2)"
        by simp
      with retry False p resp w show ?thesis by (subst swift_read_loop.simps) (auto simp: Let_def)
    next
      case finish
      with False p resp w show ?thesis by (subst swift_read_loop.simps) (auto simp: Let_def)
    qed
  qed
qed

lemma swift_flush_loop_count:
  assumes "counts H cnt"
  shows "cnt (world (snd (swift_flush_loop env H left r n b c)))
    \<le> cnt (world c) + left + (if r then 0 else 2)"
  using assms
proof (induction env H left r n b c rule: swift_flush_loop.induct)
  case (1 env H left r n b c)
  obtain resp w where p: "perform H (swift_put_request c n b) (world c) = (resp, w)" by fastforce
  with 1(3) have w: "cnt w \<le> Suc (cnt (world c))" unfolding counts_def by (metis snd_conv)
  show ?case
  proof (cases "left = 0 \<or> resp = CurlError")
    case True
    with p w show ?thesis by (subst swift_flush_loop.simps) auto
  next
    case False
    then obtain code hs pieces where resp: "resp = Response code hs pieces" by (cases resp) auto
    obtain ok c2 where con: "swift_connection env H (forget_token (c\<lparr>world := w\<rparr>)) = (ok, c2)"
      by fastforce
    have c2: "cnt (world c2) \<le> Suc (cnt w)"
      using swift_connection_count [OF 1(3), of env "forget_token (c\<lparr>world := w\<rparr>)"] con
      by (simp add: forget_token_def)
    consider (refuse) "\<not> r \<and> refused code" | (retry) "\<not> (\<not> r \<and> refused code)" "code < 200 \<or> code > 299"
      | (finish) "\<not> (\<not> r \<and> refused code)" "\<not> (code < 200 \<or> code > 299)" by blast
    then show ?thesis
    proof cases
      case refuse
      show ?thesis
      proof (cases "ok = Inr True")
        case True
        from 1(1) [OF _ p [symmetric] resp refl _ con [symmetric] True _ 1(3)] False refuse
        have "cnt (world (snd (swift_flush_loop env H left True n b c2))) \<le> cnt (world c2) + left" by simp
        with refuse False p resp con w c2 True show ?thesis by (subst swift_flush_loop.simps) auto
      next
        case f: False
        with refuse False p resp con w c2 show ?thesis
          by (subst swift_flush_loop.simps) (auto split: sum.splits bool.splits)
      qed
    next
      case retry
      from 1(2) [OF _ p [symmetric] resp refl _ _ 1(3)] False retry
      have "cnt (world (snd (swift_flush_loop env H (left - 1) r n b (c\<lparr>world := w\<rparr>)))) \<le> cnt w + (left - 1) + (if r then 0 else 2)"
        by simp
      with retry False p resp w show ?thesis by (subst swift_flush_loop.simps) (auto simp: Let_def)
    next
      case finish
      with False p resp w show ?thesis by (subst swift_flush_loop.simps) (auto simp: Let_def erase_buffer_def)
    qed
  qed
qed


lemma authenticate_buffers [simp]: "writingBuffers (snd (authenticate H q c)) = writingBuffers c"
  by (auto simp: authenticate_def split: prod.splits response.splits option.splits)

lemma swift_connection_buffers [simp]:
  "writingBuffers (snd (swift_connection env H c)) = writingBuffers c"
  by (auto simp: swift_connection_def Let_def split: option.splits sum.splits)

lemma swift_flush_loop_outcome:
  assumes "swift_flush_loop env H left r n b c = (res, c')"
  shows "writingBuffers c' = (if res = Inr True then (writingBuffers c)(n := None) else writingBuffers c)"
  using assms
proof (induction env H left r n b c rule: swift_flush_loop.induct)
  case (1 env H left r n b c)
  obtain resp w where p: "perform H (swift_put_request c n b) (world c) = (resp, w)" by fastforce
  show ?case
  proof (cases "left = 0 \<or> resp = CurlError")
    case True
    with p 1(3) show ?thesis by (subst (asm) swift_flush_loop.simps) (auto split: if_splits)
  next
    case False
    then obtain code hs pieces where resp: "resp = Response code hs pieces" by (cases resp) auto
    obtain ok c2 where con: "swift_connection env H (forget_token (c\<lparr>world := w\<rparr>)) = (ok, c2)"
      by fastforce
    then have c2: "writingBuffers c2 = writingBuffers c"
      using swift_connection_buffers [of env H "forget_token (c\<lparr>world := w\<rparr>)"]
      by (simp add: forget_token_def)
    note eq = 1(3) [unfolded swift_flush_loop.simps [of env H left r n b c]]
    consider (refuse) "\<not> r \<and> refused code" | (retry) "\<not> (\<not> r \<and> refused code)" "code < 200 \<or> code > 299"
      | (finish) "\<not> (\<not> r \<and> refused code)" "\<not> (code < 200 \<or> code > 299)" by blast
    then show ?thesis
    proof cases
      case refuse
      show ?thesis
      proof (cases "ok = Inr True")
        case True
        with eq refuse False p resp con have "swift_flush_loop env H left True n b c2 = (res, c')"
          by simp
        from 1(1) [OF _ p [symmetric] resp refl _ con [symmetric] True _ this] refuse False c2
        show ?thesis by simp
      next
        case f: False
        with eq refuse False p resp con c2 show ?thesis by (auto split: sum.splits bool.splits)
      qed
    next
      case retry
      with eq False p resp have "swift_flush_loop env H (left - 1) r n b (c\<lparr>world := w\<rparr>) = (res, c')"
        by (auto simp: Let_def split: if_splits)
      from 1(2) [OF _ p [symmetric] resp refl _ _ this] retry False show ?thesis by simp
    next
      case finish
      with eq False p resp show ?thesis by (auto simp: Let_def erase_buffer_def)
    qed
  qed
qed

subsection \<open>Properties\<close>

definition env_none :: "string \<Rightarrow> string option" where
  "env_none _ = None"

text \<open>
  C24: The base64 text of a signature is a faithful encoding: it has four characters for every three
  bytes begun (28 for an HMAC-SHA1), and different digests have different texts.
\<close>

theorem signature_faithful:
  assumes "length (hmac_sha1 H k m) = 20" "length (hmac_sha1 H k m') = 20"
  shows "(getAuthorizationHeader H k m = getAuthorizationHeader H k m' \<longleftrightarrow> hmac_sha1 H k m = hmac_sha1 H k m')
    \<and> (\<exists>s. getAuthorizationHeader H k m = Inr s \<and> length s = 28)"
  using assms by (simp add: getAuthorizationHeader_def base64_inject length_base64)

theorem signature_faithful_witness:
  "getAuthorizationHeader (mem_http\<lparr>hmac_sha1 := \<lambda>k m. replicate 20 (of_nat (length m))\<rparr>) [] ''ab''
   \<noteq> getAuthorizationHeader (mem_http\<lparr>hmac_sha1 := \<lambda>k m. replicate 20 (of_nat (length m))\<rparr>) [] ''abc''"
  using signature_faithful [of "mem_http\<lparr>hmac_sha1 := \<lambda>k m. replicate 20 (of_nat (length m))\<rparr>" "[]" "''ab''" "''abc''"]
  by (simp add: eval_nat_numeral)

text \<open>
  An S3 server that answers a read with more bytes than were asked for (a plain 200 with the
  whole object, as a server does that ignores the range) makes the read write behind the caller's
  buffer.
\<close>

theorem s3_read_overflow:
  assumes "s3_get_request H c off sz n = Inr q" "perform H q (world c) = (Response code hs pieces, w)"
    "200 \<le> code" "code \<le> 299" "sz < length (concat pieces)"
  shows "fst (s3_read H off sz n c) = Inl BufferOverflow"
  using assms by (simp add: s3_read_def received_concat)

text \<open>A server that ignores ranges.\<close>

definition plain_http :: "unit http" where
  "plain_http = \<lparr>perform = (\<lambda>q w. (Response 200 [] [[1, 2, 3], [4, 5]], w)),
     gmtime_now = (\<lambda>_. \<lparr>tm_wday = 4, tm_mday = 2, tm_mon = 0, tm_year = 70, tm_hour = 3, tm_min = 4, tm_sec = 5\<rparr>),
     hmac_sha1 = (\<lambda>_ _. replicate 20 0), token_line = (\<lambda>_ _. None), store_token = (\<lambda>_ _ w. w)\<rparr>"

theorem s3_read_overflow_witness:
  "fst (s3_read plain_http 0 4 ''s'' (s3_new env_none ''b'' ())) = Inl BufferOverflow"
proof -
  have "case s3_get_request plain_http (s3_new env_none ''b'' ()) 0 4 ''s'' of Inl _ \<Rightarrow> False | Inr _ \<Rightarrow> True"
    by code_simp
  then obtain q where "s3_get_request plain_http (s3_new env_none ''b'' ()) 0 4 ''s'' = Inr q"
    by (auto split: sum.splits)
  moreover have "perform plain_http q (world (s3_new env_none ''b'' ())) = (Response 200 [] [[1, 2, 3], [4, 5]], ())"
    by (simp add: plain_http_def)
  ultimately show ?thesis by (rule s3_read_overflow) simp_all
qed

text \<open>A server that is always busy, counting its requests, to run the loops on.\<close>

definition busy_http :: "nat http" where
  "busy_http = \<lparr>perform = (\<lambda>q w. (Response 503 [] [], Suc w)),
     gmtime_now = (\<lambda>_. \<lparr>tm_wday = 4, tm_mday = 2, tm_mon = 0, tm_year = 70, tm_hour = 3, tm_min = 4, tm_sec = 5\<rparr>),
     hmac_sha1 = (\<lambda>_ _. replicate 20 0), token_line = (\<lambda>_ _. None), store_token = (\<lambda>_ _ w. w)\<rparr>"

definition busy_swift :: "nat SwiftContext" where
  "busy_swift = (swift_new env_none ''c'' 0)\<lparr>attempts := 2, connected := True,
     writingBuffers := [''s'' \<mapsto> [1], ''t'' \<mapsto> [2]]\<rparr>"

lemma busy_counts: "counts busy_http id"
  by (simp add: counts_def busy_http_def)

text \<open>
  A Swift read ends: it sends at most two requests more than there are attempts (one that is
  refused because the token has expired, and one to get a new token), whatever the server answers.
\<close>

theorem swift_read_bounded:
  assumes "counts H cnt"
  shows "cnt (world (snd (swift_read env H off sz n c))) \<le> cnt (world c) + attempts c + 2"
  using swift_read_loop_count [OF assms, of env "attempts c" False off sz n c]
  by (simp add: swift_read_def)

theorem swift_read_bounded_witness:
  "world (snd (swift_read env_none busy_http 0 9 ''s'' busy_swift)) \<le> 4"
  using swift_read_bounded [OF busy_counts, of env_none 0 9 "''s''" busy_swift]
  by (simp add: busy_swift_def swift_new_def eval_nat_numeral)

text \<open>
  Closing a Swift object: the writing buffer is deleted exactly when the close succeeds, the other
  buffers are left alone, and no more requests are sent than for a read.
\<close>

theorem swift_close_outcome:
  assumes "swift_closeToWrite env H n c = (res, c')" "counts H cnt"
  shows "writingBuffers c' = (if res = Inr True then (writingBuffers c)(n := None) else writingBuffers c)
    \<and> cnt (world c') \<le> cnt (world c) + attempts c + 2"
proof (cases "writingBuffers c n")
  case None
  with assms show ?thesis by (auto simp: swift_closeToWrite_def)
next
  case (Some b)
  with assms have "swift_flush_loop env H (attempts c) False n b c = (res, c')"
    by (simp add: swift_closeToWrite_def)
  with swift_flush_loop_outcome [OF this] swift_flush_loop_count [OF assms(2), of env "attempts c" False n b c]
  show ?thesis by simp
qed

theorem swift_close_outcome_witness:
  "\<exists>res c'. swift_closeToWrite env_none busy_http ''s'' busy_swift = (res, c')
     \<and> world c' \<le> 4 \<and> writingBuffers c' ''t'' = Some [2]"
proof -
  obtain res c' where c: "swift_closeToWrite env_none busy_http ''s'' busy_swift = (res, c')" by fastforce
  from swift_close_outcome [OF c busy_counts] show ?thesis using c
    by (auto simp: busy_swift_def swift_new_def)
qed


end
