(* ===== verification/ContextBook.thy ===== *)
theory ContextBook
  imports FileStore HttpStore
begin

text \<open>
  ContextBook: the directory of the contexts in use. Contexts are shared by pointer, so the model
  has a heap (the list of the contexts created, a pointer is a position), and the book maps a
  storage type and a container to a pointer. The program is taken as built with the object
  storages (\<open>BUILD_OBJECT\<close>).
\<close>

datatype ('r, 'h) any_context =
    File_context FileContext
  | Ceph_context "'r CephPoolContext"
  | S3_context "'h S3Context"
  | Swift_context "'h SwiftContext"





record ('r, 'h) ContextBook =
  book :: "eContextType \<times> string \<Rightarrow> nat option"
  heap :: "('r, 'h) any_context list"




definition book_size :: "('r, 'h) ContextBook \<Rightarrow> nat" where
  "book_size B = card (dom (book B))"












end
