(* ===== verification/Encoding.thy ===== *)
theory Encoding
  imports Prelude
begin

text \<open>
  Integers in memory: the C++ code writes and reads 16 and 32 bit integers through pointers, on a
  little endian machine (the files it writes are little endian TIFF).
\<close>

fun le_bytes :: "nat \<Rightarrow> nat \<Rightarrow> bytes" where
  "le_bytes 0 n = []"
| "le_bytes (Suc k) n = word_of_nat (n mod 256) # le_bytes k (n div 256)"

fun le_nat :: "bytes \<Rightarrow> nat" where
  "le_nat [] = 0"
| "le_nat (b # bs) = unat b + 256 * le_nat bs"

lemma unat_u32 [simp]: "n < 2 ^ 32 \<Longrightarrow> unat (word_of_nat n :: u32) = n"
  by (simp add: unat_of_nat take_bit_eq_mod)

lemma unat_u16 [simp]: "n < 2 ^ 16 \<Longrightarrow> unat (word_of_nat n :: u16) = n"
  by (simp add: unat_of_nat take_bit_eq_mod)

definition put16 :: "u16 \<Rightarrow> bytes" where "put16 w = le_bytes 2 (unat w)"
definition put32 :: "u32 \<Rightarrow> bytes" where "put32 w = le_bytes 4 (unat w)"

lemma take_le_bytes: "k \<le> m \<Longrightarrow> take k (le_bytes m n) = le_bytes k n"
proof (induction m arbitrary: k n)
  case (Suc m)
  then show ?case by (cases k) auto
qed simp

lemma take2_put32: "take 2 (put32 (ucast (w :: u16))) = put16 w"
proof -
  have "unat (ucast w :: u32) = unat w" by transfer (simp add: take_bit_take_bit)
  then show ?thesis by (simp add: put32_def put16_def take_le_bytes)
qed

text \<open>A read at an offset of a buffer: the whole integer has to lie in it.\<close>

definition get16 :: "bytes \<Rightarrow> nat \<Rightarrow> fault + u16" where
  "get16 b off = (if off + 2 \<le> length b then Inr (word_of_nat (le_nat (take 2 (drop off b)))) else Inl OverRead)"

definition get32 :: "bytes \<Rightarrow> nat \<Rightarrow> fault + u32" where
  "get32 b off = (if off + 4 \<le> length b then Inr (word_of_nat (le_nat (take 4 (drop off b)))) else Inl OverRead)"

lemma length_le_bytes [simp]: "length (le_bytes k n) = k"
  by (induction k arbitrary: n) auto

lemma length_put [simp]: "length (put16 w) = 2" "length (put32 v) = 4"
  by (simp_all add: put16_def put32_def)

lemma le_nat_le_bytes: "le_nat (le_bytes k n) = n mod 256 ^ k"
proof (induction k arbitrary: n)
  case (Suc k)
  have "n mod 256 + 256 * (n div 256 mod 256 ^ k) = n mod (256 * 256 ^ k)"
    by (simp add: mod_mult2_eq add.commute)
  then show ?case by (simp add: Suc unat_of_nat take_bit_eq_mod)
qed simp

lemma le_nat_put [simp]: "le_nat (put16 w) = unat w" "le_nat (put32 v) = unat v"
  using unsigned_less [of w, where 'a = nat] unsigned_less [of v, where 'a = nat]
  by (simp_all add: put16_def put32_def le_nat_le_bytes)

lemma get16_put: "take 2 (drop off b) = put16 w \<Longrightarrow> get16 b off = Inr w"
proof -
  assume a: "take 2 (drop off b) = put16 w"
  then have "length (take 2 (drop off b)) = 2" by simp
  then have "off + 2 \<le> length b" by simp
  with a show ?thesis by (simp add: get16_def)
qed

lemma get32_put: "take 4 (drop off b) = put32 w \<Longrightarrow> get32 b off = Inr w"
proof -
  assume a: "take 4 (drop off b) = put32 w"
  then have "length (take 4 (drop off b)) = 4" by simp
  then have "off + 4 \<le> length b" by simp
  with a show ?thesis by (simp add: get32_def)
qed

text \<open>Arrays of 32 bit integers.\<close>

definition put32s :: "u32 list \<Rightarrow> bytes" where
  "put32s ws = concat (map put32 ws)"

lemma length_put32s [simp]: "length (put32s ws) = 4 * length ws"
  by (induction ws) (simp_all add: put32s_def)

lemma nth_put32s: "i < length ws \<Longrightarrow> take 4 (drop (4 * i) (put32s ws)) = put32 (ws ! i)"
proof (induction ws arbitrary: i)
  case (Cons w ws)
  then show ?case by (cases i) (auto simp: put32s_def)
qed simp

text \<open>Characters and bytes.\<close>

definition byte_of :: "char \<Rightarrow> u8" where "byte_of c = word_of_nat (of_char c)"
definition char_of_byte :: "u8 \<Rightarrow> char" where "char_of_byte b = char_of (unat b)"

lemma char_of_byte_of [simp]: "char_of_byte (byte_of c) = c"
  by (simp add: char_of_byte_def byte_of_def unat_of_nat take_bit_eq_mod)


unbundle bit_operations_syntax

lemma and_not_15: "unat (w AND NOT 15 :: u32) = unat w - unat w mod 16"
proof -
  have m: "unat (w AND 15) = unat w mod 16"
    by (simp add: unsigned_and_eq)
      (simp flip: take_bit_eq_mod [of 4, simplified] add: take_bit_eq_mask mask_eq_exp_minus_1)
  have "w = (w AND NOT 15) OR (w AND 15)" by (simp add: bit_eq_iff bit_simps) blast
  also have "\<dots> = (w AND NOT 15) + (w AND 15)"
    by (rule disjunctive_add [symmetric]) (auto simp: bit_simps)
  finally have "w AND NOT 15 = w - (w AND 15)" by (simp add: algebra_simps)
  then show ?thesis by (simp add: unat_sub_if_size word_le_nat_alt m)
qed

text \<open>Rounding an offset up to a multiple of 16, in 32 bits.\<close>

lemma round_up_16:
  assumes "unat p + n + 15 < 2 ^ 32"
  shows "unat ((p + word_of_nat n + 15) AND NOT 15 :: u32) mod 16 = 0"
    "unat p + n \<le> unat ((p + word_of_nat n + 15) AND NOT 15 :: u32)"
    "unat ((p + word_of_nat n + 15) AND NOT 15 :: u32) \<le> unat p + n + 15"
proof -
  have "p + word_of_nat n + 15 = word_of_nat (unat p + n + 15)" by simp
  then have s: "unat (p + word_of_nat n + 15) = unat p + n + 15"
    using assms by (simp only: unat_u32)
  then have "unat ((p + word_of_nat n + 15) AND NOT 15) = unat p + n + 15 - (unat p + n + 15) mod 16"
    by (simp only: and_not_15)
  then show "unat ((p + word_of_nat n + 15) AND NOT 15) mod 16 = 0"
    "unat p + n \<le> unat ((p + word_of_nat n + 15) AND NOT 15)"
    "unat ((p + word_of_nat n + 15) AND NOT 15) \<le> unat p + n + 15"
    by (simp_all add: minus_mod_eq_mult_div)
qed


end
