(* ===== verification/Store.thy ===== *)
theory Store
  imports FileStore ObjectStore Encoding
begin

text \<open>
  StoreDataSource (lib/libimage): reading a tile of a slab, or any part of an object. A tile is
  found through the slab's index, two 32 bit arrays behind its header of 2048 bytes; an object
  shorter than the header can be a symbolic link to another slab.

  Bytes of an allocated buffer that a short read did not fill are \<open>Uninitialised\<close>.
\<close>

definition ROK4_IMAGE_HEADER_SIZE :: nat where "ROK4_IMAGE_HEADER_SIZE = 2048"
definition ROK4_SYMLINK_SIGNATURE_SIZE :: nat where "ROK4_SYMLINK_SIGNATURE_SIZE = 8"
definition ROK4_SYMLINK_SIGNATURE :: bytes where
  "ROK4_SYMLINK_SIGNATURE = map byte_of ''SYMLINK#''"
definition MAX_TILE_SIZE :: nat where "MAX_TILE_SIZE = 1048576"

record StoreDataSource =
  sd_name :: string
  readIndex :: bool
  posoff :: nat
  possize :: nat
  headerIndexSize :: nat
  sd_data :: "bytes option"
  sd_size :: nat
  alreadyTried :: bool
  sd_type :: string
  sd_encoding :: string

definition store_range :: "string \<Rightarrow> nat \<Rightarrow> nat \<Rightarrow> string \<Rightarrow> string \<Rightarrow> StoreDataSource" where
  "store_range n po ps type encoding =
     \<lparr>sd_name = n, readIndex = False, posoff = po, possize = ps, headerIndexSize = 0,
      sd_data = None, sd_size = 0, alreadyTried = False, sd_type = type, sd_encoding = encoding\<rparr>"

definition store_indexed :: "string \<Rightarrow> nat \<Rightarrow> nat \<Rightarrow> nat \<Rightarrow> string \<Rightarrow> string \<Rightarrow> StoreDataSource" where
  "store_indexed n po ps hisize type encoding =
     \<lparr>sd_name = n, readIndex = True, posoff = po, possize = ps, headerIndexSize = hisize,
      sd_data = None, sd_size = 0, alreadyTried = False, sd_type = type, sd_encoding = encoding\<rparr>"

text \<open>
  \<open>strncmp\<close> with the signature: it stops at the first difference, and reads on into the bytes
  the read did not fill when there is none.
\<close>

fun starts_with :: "bytes \<Rightarrow> bytes \<Rightarrow> fault + bool" where
  "starts_with [] h = Inr True"
| "starts_with (s # ss) [] = Inl Uninitialised"
| "starts_with (s # ss) (b # bs) = (if s = b then starts_with ss bs else Inr False)"

lemma starts_with_append: "starts_with s (s @ t) = Inr True"
  by (induction s) simp_all

text \<open>The name in a link: the bytes behind the signature, up to a 0.\<close>

definition link_target :: "bytes \<Rightarrow> string" where
  "link_target h = map char_of_byte (takeWhile (\<lambda>b. b \<noteq> 0) (drop ROK4_SYMLINK_SIGNATURE_SIZE h))"

text \<open>
  The header and index of a slab, following one link: the bytes, or \<open>None\<close> after an error, and
  the name the data source is left with.
\<close>

definition read_header ::
    "'c Context \<Rightarrow> nat \<Rightarrow> string \<Rightarrow> 'c \<Rightarrow> (fault + bytes option) \<times> string \<times> 'c" where
  "read_header C hsize name c =
     (case read_at C 0 hsize name c of
        (Inl f, c1) \<Rightarrow> (Inl f, name, c1)
      | (Inr None, c1) \<Rightarrow> (Inr None, name, c1)
      | (Inr (Some h), c1) \<Rightarrow>
          if length h < ROK4_IMAGE_HEADER_SIZE then
            (case starts_with ROK4_SYMLINK_SIGNATURE h of
               Inl f \<Rightarrow> (Inl f, name, c1)
             | Inr False \<Rightarrow> (Inr None, name, c1)
             | Inr True \<Rightarrow>
                 (case read_at C 0 hsize (link_target h) c1 of
                    (Inl f, c2) \<Rightarrow> (Inl f, link_target h, c2)
                  | (Inr None, c2) \<Rightarrow> (Inr None, link_target h, c2)
                  | (Inr (Some h'), c2) \<Rightarrow>
                      if length h' < ROK4_IMAGE_HEADER_SIZE then (Inr None, link_target h, c2)
                      else (Inr (Some h'), link_target h, c2)))
          else (Inr (Some h), name, c1))"

text \<open>A 32 bit integer of the header buffer, of which only a part may have been read.\<close>

definition header32 :: "nat \<Rightarrow> bytes \<Rightarrow> nat \<Rightarrow> fault + u32" where
  "header32 hsize h off =
     (if hsize < off + 4 then Inl OverRead
      else case get32 h off of Inl _ \<Rightarrow> Inl Uninitialised | Inr w \<Rightarrow> Inr w)"

definition getData_direct ::
    "'c Context \<Rightarrow> StoreDataSource \<Rightarrow> 'c \<Rightarrow> (fault + bytes option) \<times> StoreDataSource \<times> 'c" where
  "getData_direct C s c =
     (case read_at C (posoff s) (possize s) (sd_name s) c of
        (Inl f, c1) \<Rightarrow> (Inl f, s, c1)
      | (Inr None, c1) \<Rightarrow> (Inr None, s\<lparr>sd_data := None\<rparr>, c1)
      | (Inr (Some d), c1) \<Rightarrow> (Inr (Some d), s\<lparr>sd_data := Some d, sd_size := length d\<rparr>, c1))"

definition getData_sized ::
    "'c Context \<Rightarrow> StoreDataSource \<Rightarrow> u32 \<Rightarrow> u32 \<Rightarrow> 'c \<Rightarrow> (fault + bytes option) \<times> StoreDataSource \<times> 'c"
  where
  "getData_sized C s tileOffset tileSize c =
     (if unat tileSize > MAX_TILE_SIZE then (Inr None, s, c)
      else if tileSize = 0 then (Inr None, s, c)
      else
        (case read_at C (unat tileOffset) (unat tileSize) (sd_name s) c of
           (Inl f, c2) \<Rightarrow> (Inl f, s, c2)
         | (Inr None, c2) \<Rightarrow> (Inr None, s\<lparr>sd_data := None\<rparr>, c2)
         | (Inr (Some d), c2) \<Rightarrow>
             if length d < unat tileSize then (Inl Uninitialised, s, c2)
             else (Inr (Some d), s\<lparr>sd_data := Some d, sd_size := unat tileSize\<rparr>, c2)))"

definition getData_indexed ::
    "'c Context \<Rightarrow> StoreDataSource \<Rightarrow> 'c \<Rightarrow> (fault + bytes option) \<times> StoreDataSource \<times> 'c" where
  "getData_indexed C s c =
     (case read_header C (headerIndexSize s) (sd_name s) c of
        (Inl f, name, c1) \<Rightarrow> (Inl f, s\<lparr>sd_name := name\<rparr>, c1)
      | (Inr None, name, c1) \<Rightarrow> (Inr None, s\<lparr>sd_name := name\<rparr>, c1)
      | (Inr (Some h), name, c1) \<Rightarrow>
          (case bindR (header32 (headerIndexSize s) h (posoff s)) (\<lambda>tileOffset.
                bindR (header32 (headerIndexSize s) h (possize s)) (\<lambda>tileSize.
                Inr (tileOffset, tileSize))) of
             Inl f \<Rightarrow> (Inl f, s\<lparr>sd_name := name\<rparr>, c1)
           | Inr (tileOffset, tileSize) \<Rightarrow>
               getData_sized C (s\<lparr>sd_name := name\<rparr>) tileOffset tileSize c1))"

definition getData ::
    "'c Context \<Rightarrow> StoreDataSource \<Rightarrow> 'c \<Rightarrow> (fault + bytes option) \<times> StoreDataSource \<times> 'c" where
  "getData C s c =
     (if alreadyTried s then (Inr (sd_data s), s, c)
      else
        let s1 = s\<lparr>alreadyTried := True\<rparr> in
        if \<not> isConnected C c then (Inr None, s1\<lparr>sd_data := None\<rparr>, c)
        else if \<not> readIndex s then getData_direct C s1 c
        else getData_indexed C s1 c)"

lemmas getData_defs = getData_def getData_direct_def getData_indexed_def getData_sized_def

definition releaseData :: "StoreDataSource \<Rightarrow> StoreDataSource" where
  "releaseData s = s\<lparr>sd_data := None\<rparr>"

definition getLength :: "StoreDataSource \<Rightarrow> nat" where
  "getLength s = sd_size s"

subsection \<open>Reading through a storage\<close>

text \<open>An object is a slab with this tile at this place of its index.\<close>

definition indexed_tile :: "bytes \<Rightarrow> nat \<Rightarrow> nat \<Rightarrow> bytes \<Rightarrow> bool" where
  "indexed_tile b po ps tile \<longleftrightarrow>
     (\<exists>off. get32 b po = Inr off \<and> get32 b ps = Inr (word_of_nat (length tile))
        \<and> unat off + length tile \<le> length b \<and> window (unat off) (length tile) b = tile)"

lemma get32_window: "off + 4 \<le> n \<Longrightarrow> n \<le> length b \<Longrightarrow> get32 (window 0 n b) off = get32 b off"
  by (simp add: get32_def window_def drop_take min_def)

context storage begin

lemma read_header_slab:
  assumes "reliable c" "stored c n = Some b" "hsize \<le> length b" "ROK4_IMAGE_HEADER_SIZE \<le> hsize"
  shows "\<exists>c'. read_header C hsize n c = (Inr (Some (window 0 hsize b)), n, c') \<and> reliable c'
    \<and> stored c' n = Some b"
  using read_law [OF assms(2,1), of 0 hsize] assms(3,4)
  by (auto simp: read_header_def length_window ROK4_IMAGE_HEADER_SIZE_def)

lemma getData_range:
  assumes "reliable c" "stored c n = Some b" "off + k \<le> length b" "0 < k"
  shows "\<exists>s c'. getData C (store_range n off k t e) c = (Inr (Some (window off k b)), s, c')
    \<and> reliable c' \<and> stored c' n = Some b"
  using read_law [OF assms(2,1,3,4)] connected_law [OF assms(1)]
  by (auto simp: getData_defs store_range_def)

lemma getData_after_header:
  assumes "read_header C hsize l c = (Inr (Some (window 0 hsize b)), n, c1)" "reliable c"
    "reliable c1" "stored c1 n = Some b" "hsize \<le> length b"
    "po + 4 \<le> hsize" "ps + 4 \<le> hsize" "indexed_tile b po ps tile" "0 < length tile"
    "length tile \<le> MAX_TILE_SIZE"
  shows "\<exists>s c'. getData C (store_indexed l po ps hsize t e) c = (Inr (Some tile), s, c')
    \<and> getLength s = length tile \<and> sd_name s = n \<and> reliable c' \<and> stored c' n = Some b"
proof -
  obtain off where t: "get32 b po = Inr off" "get32 b ps = Inr (word_of_nat (length tile))"
    "unat off + length tile \<le> length b" "window (unat off) (length tile) b = tile"
    using assms(8) by (auto simp: indexed_tile_def)
  have u: "unat (word_of_nat (length tile) :: u32) = length tile"
    using assms(10) by (intro unat_u32) (simp add: MAX_TILE_SIZE_def)
  obtain c2 where r: "read_at C (unat off) (length tile) n c1 = (Inr (Some tile), c2)"
    "reliable c2" "stored c2 n = Some b"
    using read_law [OF assms(4,3) t(3) assms(9)] t(4) by auto
  have g: "header32 hsize (window 0 hsize b) po = Inr off"
    "header32 hsize (window 0 hsize b) ps = Inr (word_of_nat (length tile))"
    using assms(5,6,7) t(1,2) by (simp_all add: header32_def get32_window)
  have "(word_of_nat (length tile) :: u32) \<noteq> 0" using u assms(9) by auto
  then show ?thesis
    using connected_law [OF assms(2)] assms(1,10) g r u
    by (simp add: getData_defs store_indexed_def getLength_def)
qed

lemma getData_tile:
  assumes "reliable c" "stored c n = Some b" "hsize \<le> length b" "ROK4_IMAGE_HEADER_SIZE \<le> hsize"
    "po + 4 \<le> hsize" "ps + 4 \<le> hsize" "indexed_tile b po ps tile" "0 < length tile"
    "length tile \<le> MAX_TILE_SIZE"
  shows "\<exists>s c'. getData C (store_indexed n po ps hsize t e) c = (Inr (Some tile), s, c')
    \<and> getLength s = length tile \<and> reliable c' \<and> stored c' n = Some b"
  using read_header_slab [OF assms(1-4)] getData_after_header [OF _ assms(1) _ _ assms(3,5-9)]
  by blast

end

lemma link_target_link:
  "0 \<notin> set (map byte_of n) \<Longrightarrow> link_target (ROK4_SYMLINK_SIGNATURE @ map byte_of n) = n"
proof -
  assume "0 \<notin> set (map byte_of n)"
  then have "takeWhile (\<lambda>b. b \<noteq> 0) (map byte_of n) = map byte_of n"
    unfolding takeWhile_eq_all_conv by (intro ballI notI) blast
  then have "map char_of_byte (takeWhile (\<lambda>b. b \<noteq> 0) (map byte_of n)) = map char_of_byte (map byte_of n)"
    by (rule arg_cong)
  also have "\<dots> = n" by (simp add: map_idI)
  finally have "map char_of_byte (takeWhile (\<lambda>b. b \<noteq> 0) (map byte_of n)) = n" .
  moreover have "drop ROK4_SYMLINK_SIGNATURE_SIZE (ROK4_SYMLINK_SIGNATURE @ xs) = xs" for xs
    by (simp add: ROK4_SYMLINK_SIGNATURE_def ROK4_SYMLINK_SIGNATURE_SIZE_def)
  ultimately show ?thesis by (simp only: link_target_def)
qed

context short_storage begin

text \<open>A link is followed to the slab it names.\<close>

lemma read_header_link:
  assumes "reliable c" "stored c l = Some (ROK4_SYMLINK_SIGNATURE @ map byte_of n)"
    "length n + 8 < ROK4_IMAGE_HEADER_SIZE" "0 \<notin> set (map byte_of n)"
    "stored c n = Some b" "hsize \<le> length b" "ROK4_IMAGE_HEADER_SIZE \<le> hsize"
  shows "\<exists>c'. read_header C hsize l c = (Inr (Some (window 0 hsize b)), n, c') \<and> reliable c'
    \<and> stored c' n = Some b"
proof -
  let ?lb = "ROK4_SYMLINK_SIGNATURE @ map byte_of n"
  have l: "length ?lb < ROK4_IMAGE_HEADER_SIZE" "length ?lb < hsize"
    using assms(3,7) by (simp_all add: ROK4_SYMLINK_SIGNATURE_def)
  obtain c1 where c1: "read_at C 0 hsize l c = (Inr (Some ?lb), c1)" "reliable c1" "stored c1 n = Some b"
    using short_law [OF assms(2,1) _ l(2)] assms(5) by (auto simp: ROK4_SYMLINK_SIGNATURE_def)
  obtain c2 where "read_at C 0 hsize n c1 = (Inr (Some (window 0 hsize b)), c2)" "reliable c2"
    "stored c2 n = Some b"
    using read_law [OF c1(3,2), of 0 hsize] assms(6,7) by (auto simp: ROK4_IMAGE_HEADER_SIZE_def)
  with c1 l assms(6,7) link_target_link [OF assms(4)] show ?thesis
    by (auto simp: read_header_def starts_with_append length_window)
qed

end

subsection \<open>Properties\<close>

lemma getData_direct_kept:
  "getData_direct C s c = (Inr r, s', c') \<Longrightarrow> alreadyTried s' = alreadyTried s \<and> r = sd_data s'"
  by (auto simp: getData_direct_def split: prod.splits sum.splits option.splits)

lemma getData_sized_kept:
  "getData_sized C s off k c = (Inr r, s', c') \<Longrightarrow> sd_data s = None \<Longrightarrow>
     alreadyTried s' = alreadyTried s \<and> r = sd_data s'"
  by (auto simp: getData_sized_def split: if_splits prod.splits sum.splits option.splits)

lemma getData_indexed_kept:
  "getData_indexed C s c = (Inr r, s', c') \<Longrightarrow> sd_data s = None \<Longrightarrow>
     alreadyTried s' = alreadyTried s \<and> r = sd_data s'"
  by (auto simp: getData_indexed_def dest!: getData_sized_kept split: prod.splits sum.splits option.splits)

text \<open>
  C26: A symbolic slab serves the tiles of the slab it names: the tile found through the index of the
  target, with its size, and the data source remembers the target's name. This is for storages that answer a
  read behind the end of an object with the bytes that are there, which pools of Ceph, buckets of S3
  and containers of Swift are shown to do; files are not linked this way (\<open>file_link_refused\<close>).
\<close>

theorem linked_tile:
  assumes "short_storage C pending stored can_open reliable" "reliable c"
    "stored c l = Some (ROK4_SYMLINK_SIGNATURE @ map byte_of n)"
    "length n + 8 < ROK4_IMAGE_HEADER_SIZE" "0 \<notin> set (map byte_of n)"
    "stored c n = Some b" "hsize \<le> length b" "ROK4_IMAGE_HEADER_SIZE \<le> hsize"
    "po + 4 \<le> hsize" "ps + 4 \<le> hsize" "indexed_tile b po ps tile" "0 < length tile"
    "length tile \<le> MAX_TILE_SIZE"
  shows "\<exists>s c'. getData C (store_indexed l po ps hsize t e) c = (Inr (Some tile), s, c')
    \<and> getLength s = length tile \<and> sd_name s = n"
proof -
  have st: "storage C pending stored can_open reliable"
    using assms(1) by (rule short_storage.axioms)
  obtain c1 where "read_header C hsize l c = (Inr (Some (window 0 hsize b)), n, c1)" "reliable c1"
    "stored c1 n = Some b"
    using short_storage.read_header_link [OF assms(1-8)] by blast
  from storage.getData_after_header [OF st this(1) assms(2) this(2,3) assms(7,9-13)]
  show ?thesis by blast
qed

theorem linked_tile_witness:
  "let b = replicate 2048 0 @ put32 2056 @ put32 2 @ [7, 8] in
   \<exists>s c'. getData (ceph_context mem_rados) (store_indexed ''link'' 2048 2052 2056 ''t'' ''e'')
     \<lparr>writingBuffers = (\<lambda>_. None), connected = True, attempts = 1,
      world = \<lparr>mem_objects = [''link'' \<mapsto> ROK4_SYMLINK_SIGNATURE @ map byte_of ''slab'', ''slab'' \<mapsto> b],
        script = []\<rparr>, cluster_name = '''', user_name = '''', conf_file = '''', pool_name = ''''\<rparr>
     = (Inr (Some [7, 8]), s, c') \<and> getLength s = length ([7, 8] :: bytes) \<and> sd_name s = ''slab''"
  unfolding Let_def
proof (rule linked_tile [OF mem.ceph.short_storage_axioms])
  let ?b = "replicate 2048 0 @ put32 2056 @ put32 2 @ [7, 8]"
  have "drop 2048 (replicate 2048 (0::u8) @ xs) = xs" "drop 2052 (replicate 2048 (0::u8) @ xs) = drop 4 xs"
    "drop 2056 (replicate 2048 (0::u8) @ xs) = drop 8 xs" for xs
    by (simp_all add: drop_replicate)
  then have "get32 ?b 2048 = Inr 2056" "get32 ?b 2052 = Inr 2" "window 2056 2 ?b = [7, 8]"
    by (auto intro!: get32_put simp: window_def)
  then show "indexed_tile ?b 2048 2052 [7, 8]"
    by (simp add: indexed_tile_def numeral_2_eq_2 [symmetric])
qed (simp_all add: ROK4_IMAGE_HEADER_SIZE_def MAX_TILE_SIZE_def byte_of_def)

text \<open>A link kept as a file is an error: \<open>FileContext\<close> does not give less than it is asked for.\<close>

lemma file_link_refused:
  assumes "files f (root_dir f @ l) = Some b" "length b < hsize"
  shows "\<exists>s. getData file_context (store_indexed l po ps hsize t e) f = (Inr None, s, f)"
proof -
  have "length (window 0 hsize b) \<noteq> hsize" using assms(2) by (simp add: window_def)
  then show ?thesis using assms(1)
    by (auto simp: getData_defs store_indexed_def read_header_def file_context_def file_read_def Let_def)
qed

text \<open>
  A data source is read once: whatever the storage answered without a fault, a second call
  returns the same result without using the storage.
\<close>

theorem data_read_once:
  assumes "alreadyTried s = False" "sd_data s = None" "getData C s c = (Inr r, s', c')"
  shows "getData C' s' c'' = (Inr r, s', c'')"
proof -
  have "alreadyTried s' \<and> r = sd_data s'"
    using assms unfolding getData_def
    by (auto simp: Let_def dest: getData_direct_kept getData_indexed_kept split: if_splits)
  then show ?thesis by (simp add: getData_def)
qed


theorem data_read_once_witness:
  "\<exists>s' c'. getData (ceph_context mem_rados) (store_range ''slab'' 1 2 ''t'' ''e'')
     \<lparr>writingBuffers = (\<lambda>_. None), connected = True, attempts = 1,
      world = \<lparr>mem_objects = [''slab'' \<mapsto> [7, 8, 9]], script = []\<rparr>,
      cluster_name = '''', user_name = '''', conf_file = '''', pool_name = ''''\<rparr>
     = (Inr (Some [8, 9]), s', c') \<and> (\<forall>f. getData file_context s' f = (Inr (Some [8, 9]), s', f))"
  (is "\<exists>s' c'. getData ?C ?s ?c = _ \<and> _")
proof -
  obtain s' c' where g: "getData ?C ?s ?c = (Inr (Some [8, 9]), s', c')"
    by (simp add: getData_defs store_range_def ceph_context_def ceph_read_def mem_rados_def window_def
        eval_nat_numeral)
  have "getData file_context s' f = (Inr (Some [8, 9]), s', f)" for f
    by (rule data_read_once [OF _ _ g]) (simp_all add: store_range_def)
  with g show ?thesis by blast
qed


end
