(* ===== verification/Slab.thy ===== *)
theory Slab
  imports Store Format
begin

text \<open>
  Rok4Image (lib/libimage): the slab, its dimensions, and its header of 2048 bytes, a TIFF header
  whose tags have fixed places, written by \<open>writeHeader\<close> and read back by position in
  \<open>createRok4ImageToRead\<close>.

  The int members are natural numbers; where the code can make one negative the model has the
  fault \<open>NegativeSize\<close>. Resolutions and bounding boxes only enter the test of consistency, which
  is a parameter.
\<close>

definition JPEG_BLOC_SIZE :: nat where "JPEG_BLOC_SIZE = 16"

text \<open>The tags of libtiff's \<open>tiff.h\<close>.\<close>

record tiff_tags = tiff_h +
  TIFFTAG_IMAGEWIDTH :: u16
  TIFFTAG_IMAGELENGTH :: u16
  TIFFTAG_BITSPERSAMPLE :: u16
  TIFFTAG_COMPRESSION :: u16
  TIFFTAG_PHOTOMETRIC :: u16
  TIFFTAG_SAMPLESPERPIXEL :: u16
  TIFFTAG_TILEWIDTH :: u16
  TIFFTAG_TILELENGTH :: u16
  TIFFTAG_TILEOFFSETS :: u16
  TIFFTAG_TILEBYTECOUNTS :: u16
  TIFFTAG_EXTRASAMPLES :: u16
  TIFFTAG_SAMPLEFORMAT :: u16
  TIFFTAG_YCBCRSUBSAMPLING :: u16
  TIFF_SHORT :: u16
  TIFF_LONG :: u16

definition tiff_tags_ok :: "'a tiff_tags_scheme \<Rightarrow> bool" where
  "tiff_tags_ok T \<longleftrightarrow> tiff_h_ok T \<and> TIFFTAG_EXTRASAMPLES T \<noteq> TIFFTAG_SAMPLEFORMAT T"

text \<open>The values of the TIFF 6.0 specification.\<close>

definition tags6 :: tiff_tags where
  "tags6 = tiff_h.extend tiff6 (tiff_tags.fields 256 257 258 259 262 277 322 323 324 325 338 339 530 3 4)"

lemma tags6_ok: "tiff_tags_ok tags6"
  by code_simp

subsection \<open>The image\<close>

record Rok4Image =
  slab_name :: string
  isVector :: bool
  sampleformat :: eSampleFormat
  bitspersample :: nat
  photometric :: ePhotometric
  compression :: eCompression
  esType :: eExtraSample
  width :: nat
  height :: nat
  channels :: nat
  tileWidth :: nat
  tileHeight :: nat
  pixelSize :: nat
  tileWidthwise :: nat
  tileHeightwise :: nat
  tilesNumber :: nat
  rawTileSize :: nat
  rawTileLineSize :: nat
  memorizedTiles :: bytes
  memorizedTilesLine :: int
  tilesOffset :: "u32 list"
  tilesByteCounts :: "u32 list"
  position :: u32
  BufferSize :: nat

definition Rok4Image_new ::
    "nat \<Rightarrow> nat \<Rightarrow> nat \<Rightarrow> string \<Rightarrow> eSampleFormat \<Rightarrow> nat \<Rightarrow> ePhotometric \<Rightarrow> eCompression \<Rightarrow>
     eExtraSample \<Rightarrow> nat \<Rightarrow> nat \<Rightarrow> fault + Rok4Image" where
  "Rok4Image_new w h ch n sf bps ph cm es tw th =
     (if tw = 0 \<or> th = 0 then Inl DivisionByZero
      else
        let ps = bps * ch div 8; tww = w div tw; thw = h div th in
        Inr \<lparr>slab_name = n, isVector = False, sampleformat = sf, bitspersample = bps,
          photometric = ph, compression = cm, esType = es, width = w, height = h, channels = ch,
          tileWidth = tw, tileHeight = th, pixelSize = ps, tileWidthwise = tww,
          tileHeightwise = thw, tilesNumber = tww * thw, rawTileSize = tw * th * ps,
          rawTileLineSize = tw * ps, memorizedTiles = replicate (tww * (tw * th * ps)) 0,
          memorizedTilesLine = -1, tilesOffset = [], tilesByteCounts = [], position = 0,
          BufferSize = 0\<rparr>)"

text \<open>
  A slab of vector tiles. Its \<open>tileWidth\<close> and \<open>tileHeight\<close> are initialised from themselves and
  never used.
\<close>

definition Rok4Image_vector :: "string \<Rightarrow> nat \<Rightarrow> nat \<Rightarrow> nat \<Rightarrow> nat \<Rightarrow> Rok4Image" where
  "Rok4Image_vector n tpw tph garbageWidth garbageHeight =
     \<lparr>slab_name = n, isVector = True, sampleformat = SampleFormat_UNKNOWN, bitspersample = 0,
      photometric = Photometric_UNKNOWN, compression = Compression_UNKNOWN,
      esType = ExtraSample_UNKNOWN, width = 1, height = 1, channels = 0,
      tileWidth = garbageWidth, tileHeight = garbageHeight, pixelSize = 0, tileWidthwise = tpw,
      tileHeightwise = tph, tilesNumber = tpw * tph, rawTileSize = 0, rawTileLineSize = 0,
      memorizedTiles = [], memorizedTilesLine = -1, tilesOffset = [], tilesByteCounts = [],
      position = 0, BufferSize = 0\<rparr>"

text \<open>\<open>createRok4ImageToWrite\<close>: \<open>consistent\<close> is the test of the resolutions, where there are any.\<close>

definition createRok4ImageToWrite ::
    "bool \<Rightarrow> string \<Rightarrow> nat \<Rightarrow> nat \<Rightarrow> nat \<Rightarrow> eSampleFormat \<Rightarrow> nat \<Rightarrow> ePhotometric \<Rightarrow> eCompression \<Rightarrow>
     nat \<Rightarrow> nat \<Rightarrow> fault + Rok4Image option" where
  "createRok4ImageToWrite consistent n w h ch sf bps ph cm tw th =
     (if tw = 0 \<or> th = 0 then Inl DivisionByZero
      else if w mod tw \<noteq> 0 \<or> h mod th \<noteq> 0 then Inr None
      else if cm = Compression_JPEG \<and> ph = Photometric_GRAY then Inr None
      else if cm = Compression_JPEG \<and> (sf \<noteq> SampleFormat_UINT \<or> bps \<noteq> 8) then Inr None
      else
        let ph1 = (if cm = Compression_JPEG \<and> ph = Photometric_RGB then Photometric_YCBCR else ph);
            ph2 = (if cm \<noteq> Compression_JPEG \<and> ph1 = Photometric_YCBCR then Photometric_RGB else ph1)
        in
        if cm = Compression_PNG \<and> (sf \<noteq> SampleFormat_UINT \<or> bps \<noteq> 8) then Inr None
        else if \<not> canWrite (int bps) sf then Inr None
        else if \<not> consistent then Inr None
        else bindR (Rok4Image_new w h ch n sf bps ph2 cm ALPHA_UNASSOC tw th) (\<lambda>im. Inr (Some im)))"

subsection \<open>The header\<close>

definition writeTIFFTAG :: "bytes \<Rightarrow> u16 \<Rightarrow> u16 \<Rightarrow> u32 \<Rightarrow> u32 \<Rightarrow> bytes" where
  "writeTIFFTAG p tag tagFormat n value =
     p @ put16 tag @ put16 tagFormat @ put32 n @ put32 value"

text \<open>A tag of two shorts, written without \<open>writeTIFFTAG\<close>.\<close>

definition two_shorts :: "bytes \<Rightarrow> u16 \<Rightarrow> u16 \<Rightarrow> u16 \<Rightarrow> u16 \<Rightarrow> bytes" where
  "two_shorts p tag tagFormat a b =
     p @ put16 tag @ put16 tagFormat @ put32 2 @ put16 a @ put16 b"

text \<open>The first 18 bytes: signature, place of the IFD, four sample sizes, number of tags.\<close>

definition header_start :: "u16 \<Rightarrow> u16 \<Rightarrow> bytes" where
  "header_start bps tags =
     put16 0x4949 @ put16 42 @ put32 16 @ put16 bps @ put16 bps @ put16 bps @ put16 bps @ put16 tags"

definition tile_tags :: "'a tiff_tags_scheme \<Rightarrow> nat \<Rightarrow> bytes \<Rightarrow> bytes" where
  "tile_tags T n p =
     (let p1 = writeTIFFTAG p (TIFFTAG_TILEOFFSETS T) (TIFF_LONG T) (word_of_nat n)
                 (word_of_nat (if n = 1 then ROK4_IMAGE_HEADER_SIZE + 8 else ROK4_IMAGE_HEADER_SIZE))
      in writeTIFFTAG p1 (TIFFTAG_TILEBYTECOUNTS T) (TIFF_LONG T) (word_of_nat n)
           (word_of_nat (ROK4_IMAGE_HEADER_SIZE + 4 * n)))"

definition vector_tags :: "'a tiff_tags_scheme \<Rightarrow> Rok4Image \<Rightarrow> bytes" where
  "vector_tags T im =
     (let p = header_start 0 4;
          p = writeTIFFTAG p (TIFFTAG_IMAGEWIDTH T) (TIFF_LONG T) 1 (word_of_nat (width im));
          p = writeTIFFTAG p (TIFFTAG_IMAGELENGTH T) (TIFF_LONG T) 1 (word_of_nat (height im))
      in tile_tags T (tilesNumber im) p)"

definition tags_count :: "Rok4Image \<Rightarrow> u16" where
  "tags_count im = 11 + (if photometric im = Photometric_YCBCR then 1 else 0)
     + (if channels im = 4 \<or> channels im = 2 then 1 else 0)"

definition bits_tag :: "'a tiff_tags_scheme \<Rightarrow> Rok4Image \<Rightarrow> bytes \<Rightarrow> bytes" where
  "bits_tag T im p =
     (if channels im = 1 then
        writeTIFFTAG p (TIFFTAG_BITSPERSAMPLE T) (TIFF_SHORT T) 1 (word_of_nat (bitspersample im))
      else if channels im = 2 then
        two_shorts p (TIFFTAG_BITSPERSAMPLE T) (TIFF_SHORT T) 8 8
      else
        writeTIFFTAG p (TIFFTAG_BITSPERSAMPLE T) (TIFF_SHORT T) (word_of_nat (channels im)) 8)"

definition raster_tags :: "'a tiff_tags_scheme \<Rightarrow> Rok4Image \<Rightarrow> bytes" where
  "raster_tags T im =
     (let p = header_start (word_of_nat (bitspersample im)) (tags_count im);
          p = writeTIFFTAG p (TIFFTAG_IMAGEWIDTH T) (TIFF_LONG T) 1 (word_of_nat (width im));
          p = writeTIFFTAG p (TIFFTAG_IMAGELENGTH T) (TIFF_LONG T) 1 (word_of_nat (height im));
          p = bits_tag T im p;
          p = writeTIFFTAG p (TIFFTAG_COMPRESSION T) (TIFF_SHORT T) 1
                (ucast (fromROK4Compression T (compression im)));
          p = writeTIFFTAG p (TIFFTAG_PHOTOMETRIC T) (TIFF_SHORT T) 1
                (ucast (fromROK4Photometric T (photometric im)));
          p = writeTIFFTAG p (TIFFTAG_SAMPLESPERPIXEL T) (TIFF_SHORT T) 1 (word_of_nat (channels im));
          p = writeTIFFTAG p (TIFFTAG_TILEWIDTH T) (TIFF_LONG T) 1 (word_of_nat (tileWidth im));
          p = writeTIFFTAG p (TIFFTAG_TILELENGTH T) (TIFF_LONG T) 1 (word_of_nat (tileHeight im));
          p = tile_tags T (tilesNumber im) p;
          p = (if channels im = 4 \<or> channels im = 2
               then writeTIFFTAG p (TIFFTAG_EXTRASAMPLES T) (TIFF_SHORT T) 1
                      (ucast (fromROK4ExtraSample T (esType im)))
               else p);
          p = writeTIFFTAG p (TIFFTAG_SAMPLEFORMAT T) (TIFF_SHORT T) 1
                (ucast (fromROK4SampleFormat T (sampleformat im)))
      in if photometric im = Photometric_YCBCR
         then two_shorts p (TIFFTAG_YCBCRSUBSAMPLING T) (TIFF_SHORT T) 2 2
         else p)"

definition header_bytes :: "'a tiff_tags_scheme \<Rightarrow> Rok4Image \<Rightarrow> bytes" where
  "header_bytes T im =
     (let p = (if isVector im then vector_tags T im else raster_tags T im) @ put32 0
      in p @ replicate (ROK4_IMAGE_HEADER_SIZE - length p) 0)"

text \<open>The result of the write of the header, a bool, is compared with 0 and so never tested.\<close>

definition writeHeader :: "'a tiff_tags_scheme \<Rightarrow> 'c Context \<Rightarrow> Rok4Image \<Rightarrow> 'c \<Rightarrow> bool \<times> 'c" where
  "writeHeader T C im c =
     (case openToWrite C (slab_name im) c of
        (False, c1) \<Rightarrow> (False, c1)
      | (True, c1) \<Rightarrow>
          (case write_at C (header_bytes T im) 0 (slab_name im) c1 of (_, c2) \<Rightarrow> (True, c2)))"

lemmas tag_defs = writeTIFFTAG_def two_shorts_def header_start_def tile_tags_def bits_tag_def

lemma length_raster_tags: "length (raster_tags T im) \<le> 174"
  by (simp add: raster_tags_def tag_defs Let_def)

lemma length_header_bytes [simp]: "length (header_bytes T im) = ROK4_IMAGE_HEADER_SIZE"
proof -
  have "length (vector_tags T im) = 66" by (simp add: vector_tags_def tag_defs Let_def)
  with length_raster_tags [of T im] show ?thesis
    by (simp add: header_bytes_def Let_def ROK4_IMAGE_HEADER_SIZE_def)
qed


subsection \<open>Reading the header\<close>

definition slab_header ::
    "'c Context \<Rightarrow> string \<Rightarrow> 'c \<Rightarrow> (fault + (string \<times> bytes) option) \<times> 'c" where
  "slab_header C n c =
     (case getData C (store_range n 0 ROK4_IMAGE_HEADER_SIZE '''' '''') c of
        (Inl f, _, c1) \<Rightarrow> (Inl f, c1)
      | (Inr None, _, c1) \<Rightarrow> (Inr None, c1)
      | (Inr (Some h), _, c1) \<Rightarrow>
          if length h < ROK4_IMAGE_HEADER_SIZE then
            (case starts_with ROK4_SYMLINK_SIGNATURE h of
               Inl f \<Rightarrow> (Inl f, c1)
             | Inr False \<Rightarrow> (Inr None, c1)
             | Inr True \<Rightarrow>
                 (case getData C (store_range (link_target h) 0 ROK4_IMAGE_HEADER_SIZE '''' '''') c1 of
                    (Inl f, _, c2) \<Rightarrow> (Inl f, c2)
                  | (Inr None, _, c2) \<Rightarrow> (Inr None, c2)
                  | (Inr (Some h'), _, c2) \<Rightarrow>
                      if length h' < ROK4_IMAGE_HEADER_SIZE then (Inr None, c2)
                      else (Inr (Some (link_target h, h')), c2)))
          else (Inr (Some (n, h)), c1))"

text \<open>An unsigned 32 bit integer assigned to an int that is used as a size.\<close>

definition int_size :: "u32 \<Rightarrow> fault + nat" where
  "int_size w = (if unat w < 2 ^ 31 then Inr (unat w) else Inl NegativeSize)"

text \<open>What the fixed places of the header hold.\<close>

record header_fields =
  hf_width :: u32
  hf_height :: u32
  hf_tileWidth :: u32
  hf_tileHeight :: u32
  hf_channels :: u32
  hf_bits :: u16
  hf_photometric :: u16
  hf_compression :: u32
  hf_extra :: "u32 option"
  hf_sampleformat :: u32

definition parse_extra ::
    "'a tiff_tags_scheme \<Rightarrow> bytes \<Rightarrow> fault + (u32 option \<times> u32) option" where
  "parse_extra T h =
     bindR (get16 h 138) (\<lambda>tagEs.
       if tagEs = TIFFTAG_EXTRASAMPLES T then
         bindR (get32 h 146) (\<lambda>es. bindR (get32 h 158) (\<lambda>sf. Inr (Some (Some es, sf))))
       else if tagEs = TIFFTAG_SAMPLEFORMAT T then
         bindR (get32 h 146) (\<lambda>sf. Inr (Some (None, sf)))
       else Inr None)"

definition parse_header :: "'a tiff_tags_scheme \<Rightarrow> bytes \<Rightarrow> fault + header_fields option" where
  "parse_header T h =
     bindR (get32 h 26) (\<lambda>w. bindR (get32 h 38) (\<lambda>ht.
     bindR (get32 h 98) (\<lambda>tw. bindR (get32 h 110) (\<lambda>th.
     bindR (get32 h 86) (\<lambda>ch. bindR (get16 h 8) (\<lambda>bps.
     bindR (get16 h 74) (\<lambda>ph. bindR (get32 h 62) (\<lambda>cm.
     bindR (parse_extra T h) (\<lambda>r.
       case r of None \<Rightarrow> Inr None
       | Some (es, sf) \<Rightarrow>
           Inr (Some \<lparr>hf_width = w, hf_height = ht, hf_tileWidth = tw, hf_tileHeight = th,
             hf_channels = ch, hf_bits = bps, hf_photometric = ph, hf_compression = cm,
             hf_extra = es, hf_sampleformat = sf\<rparr>))))))))))"

text \<open>\<open>consistent\<close>: the test of the resolutions with the dimensions, where there are any.\<close>

definition image_of_fields ::
    "'a tiff_tags_scheme \<Rightarrow> (nat \<Rightarrow> nat \<Rightarrow> bool) \<Rightarrow> string \<Rightarrow> header_fields \<Rightarrow> fault + Rok4Image option" where
  "image_of_fields T consistent n f =
     (let sf = toROK4SampleFormat T (ucast (hf_sampleformat f)) in
      if \<not> canRead (uint (hf_bits f)) sf then Inr None
      else
        bindR (int_size (hf_width f)) (\<lambda>w. bindR (int_size (hf_height f)) (\<lambda>h.
          if \<not> consistent w h then Inr None
          else
            bindR (int_size (hf_tileWidth f)) (\<lambda>tw. bindR (int_size (hf_tileHeight f)) (\<lambda>th.
            bindR (int_size (hf_channels f)) (\<lambda>ch.
            bindR (Rok4Image_new w h ch n sf (unat (hf_bits f)) (toROK4Photometric T (hf_photometric f))
                     (toROK4Compression T (ucast (hf_compression f)))
                     (case hf_extra f of None \<Rightarrow> ExtraSample_UNKNOWN
                      | Some es \<Rightarrow> toROK4ExtraSample T (ucast es)) tw th) (\<lambda>im.
              Inr (Some im))))))))"

text \<open>
  \<open>loadIndex\<close>: offsets, then sizes. When the index cannot be read, the size that is tested was
  never set.
\<close>

fun words32 :: "bytes \<Rightarrow> nat \<Rightarrow> nat \<Rightarrow> fault + u32 list" where
  "words32 b off 0 = Inr []"
| "words32 b off (Suc k) = bindR (get32 b off) (\<lambda>w. bindR (words32 b (off + 4) k) (\<lambda>ws. Inr (w # ws)))"

definition loadIndex :: "'c Context \<Rightarrow> Rok4Image \<Rightarrow> 'c \<Rightarrow> (fault + bool) \<times> Rok4Image \<times> 'c" where
  "loadIndex C im c =
     (let n = tilesNumber im in
      case getData C (store_range (slab_name im) ROK4_IMAGE_HEADER_SIZE (2 * 4 * n) '''' '''') c of
        (Inl f, _, c1) \<Rightarrow> (Inl f, im, c1)
      | (Inr None, _, c1) \<Rightarrow> (Inl Uninitialised, im, c1)
      | (Inr (Some index), _, c1) \<Rightarrow>
          if length index \<noteq> 2 * 4 * n then (Inr False, im, c1)
          else
            (case (words32 index 0 n, words32 index (4 * n) n) of
               (Inr os, Inr ss) \<Rightarrow> (Inr True, im\<lparr>tilesOffset := os, tilesByteCounts := ss\<rparr>, c1)
             | (Inl f, _) \<Rightarrow> (Inl f, im, c1)
             | (_, Inl f) \<Rightarrow> (Inl f, im, c1)))"

definition createRok4ImageToRead ::
    "'a tiff_tags_scheme \<Rightarrow> (nat \<Rightarrow> nat \<Rightarrow> bool) \<Rightarrow> 'c Context \<Rightarrow> string \<Rightarrow> 'c \<Rightarrow>
     (fault + Rok4Image option) \<times> 'c" where
  "createRok4ImageToRead T consistent C n c =
     (case slab_header C n c of
        (Inl f, c1) \<Rightarrow> (Inl f, c1)
      | (Inr None, c1) \<Rightarrow> (Inr None, c1)
      | (Inr (Some (n', h)), c1) \<Rightarrow>
          (case bindR (parse_header T h) (\<lambda>r.
                  case r of None \<Rightarrow> Inr None | Some f \<Rightarrow> image_of_fields T consistent n' f) of
             Inl f \<Rightarrow> (Inl f, c1)
           | Inr None \<Rightarrow> (Inr None, c1)
           | Inr (Some im) \<Rightarrow>
               (case loadIndex C im c1 of
                  (Inl f, _, c2) \<Rightarrow> (Inl f, c2)
                | (Inr False, _, c2) \<Rightarrow> (Inr None, c2)
                | (Inr True, im', c2) \<Rightarrow> (Inr (Some im'), c2))))"


subsection \<open>The header is read back\<close>

abbreviation has_alpha :: "Rok4Image \<Rightarrow> bool" where
  "has_alpha im \<equiv> channels im = 4 \<or> channels im = 2"

text \<open>
  Bytes 134 to 137, the value of the last tag in front of the optional ones, are written a second
  time in a slab of one tile: \<open>same_header\<close> leaves them out.
\<close>

definition same_header :: "bytes \<Rightarrow> bytes \<Rightarrow> bool" where
  "same_header h h' \<longleftrightarrow> take 134 h = take 134 h' \<and> drop 138 h = drop 138 h'"

lemma same_header_field:
  assumes "same_header h h'" "off + n \<le> 134 \<or> 138 \<le> off"
  shows "take n (drop off h) = take n (drop off h')"
proof (cases "138 \<le> off")
  case True
  then have "drop off x = drop (off - 138) (drop 138 x)" for x :: bytes by simp
  with assms(1) show ?thesis by (metis same_header_def)
next
  case False
  with assms(2) have "take n (drop off x) = take n (drop off (take 134 x))" for x :: bytes
    by (simp add: drop_take)
  with assms(1) show ?thesis by (metis same_header_def)
qed

lemma header_layout:
  assumes "\<not> isVector im"
  shows "take 2 (drop 8 (header_bytes T im)) = put16 (word_of_nat (bitspersample im))"
    "take 4 (drop 26 (header_bytes T im)) = put32 (word_of_nat (width im))"
    "take 4 (drop 38 (header_bytes T im)) = put32 (word_of_nat (height im))"
    "take 4 (drop 62 (header_bytes T im)) = put32 (ucast (fromROK4Compression T (compression im)))"
    "take 4 (drop 74 (header_bytes T im)) = put32 (ucast (fromROK4Photometric T (photometric im)))"
    "take 4 (drop 86 (header_bytes T im)) = put32 (word_of_nat (channels im))"
    "take 4 (drop 98 (header_bytes T im)) = put32 (word_of_nat (tileWidth im))"
    "take 4 (drop 110 (header_bytes T im)) = put32 (word_of_nat (tileHeight im))"
    "take 2 (drop 138 (header_bytes T im)) =
       put16 (if has_alpha im then TIFFTAG_EXTRASAMPLES T else TIFFTAG_SAMPLEFORMAT T)"
    "take 4 (drop 146 (header_bytes T im)) =
       put32 (ucast (if has_alpha im then fromROK4ExtraSample T (esType im)
                     else fromROK4SampleFormat T (sampleformat im)))"
    "has_alpha im \<Longrightarrow> take 4 (drop 158 (header_bytes T im)) =
       put32 (ucast (fromROK4SampleFormat T (sampleformat im)))"
  using assms
  by (simp_all add: header_bytes_def raster_tags_def tag_defs Let_def)

definition header_of :: "'a tiff_tags_scheme \<Rightarrow> Rok4Image \<Rightarrow> header_fields" where
  "header_of T im =
     \<lparr>hf_width = word_of_nat (width im), hf_height = word_of_nat (height im),
      hf_tileWidth = word_of_nat (tileWidth im), hf_tileHeight = word_of_nat (tileHeight im),
      hf_channels = word_of_nat (channels im), hf_bits = word_of_nat (bitspersample im),
      hf_photometric = fromROK4Photometric T (photometric im),
      hf_compression = ucast (fromROK4Compression T (compression im)),
      hf_extra = (if has_alpha im then Some (ucast (fromROK4ExtraSample T (esType im))) else None),
      hf_sampleformat = ucast (fromROK4SampleFormat T (sampleformat im))\<rparr>"

lemma parse_header_written:
  assumes "tiff_tags_ok T" "\<not> isVector im" "same_header h (header_bytes T im)"
  shows "parse_header T h = Inr (Some (header_of T im))"
proof -
  note L = header_layout [OF assms(2), of T]
  have F: "take n (drop off h) = take n (drop off (header_bytes T im))"
    if "off + n \<le> 134 \<or> 138 \<le> off" for n off
    using same_header_field [OF assms(3) that] .
  have ph: "take 2 (drop 74 (header_bytes T im)) = put16 (fromROK4Photometric T (photometric im))"
  proof -
    have "take 2 (drop 74 (header_bytes T im)) = take 2 (take 4 (drop 74 (header_bytes T im)))" by simp
    then show ?thesis by (simp only: L(5) take2_put32)
  qed
  have g: "get16 h 8 = Inr (word_of_nat (bitspersample im))"
    "get32 h 26 = Inr (word_of_nat (width im))" "get32 h 38 = Inr (word_of_nat (height im))"
    "get32 h 62 = Inr (ucast (fromROK4Compression T (compression im)))"
    "get16 h 74 = Inr (fromROK4Photometric T (photometric im))"
    "get32 h 86 = Inr (word_of_nat (channels im))" "get32 h 98 = Inr (word_of_nat (tileWidth im))"
    "get32 h 110 = Inr (word_of_nat (tileHeight im))"
    "get16 h 138 = Inr (if has_alpha im then TIFFTAG_EXTRASAMPLES T else TIFFTAG_SAMPLEFORMAT T)"
    "get32 h 146 = Inr (ucast (if has_alpha im then fromROK4ExtraSample T (esType im)
                     else fromROK4SampleFormat T (sampleformat im)))"
    by (rule get16_put get32_put, subst F, simp, rule L ph)+
  have g158: "get32 h 158 = Inr (ucast (fromROK4SampleFormat T (sampleformat im)))" if "has_alpha im"
    by (rule get32_put, subst F, simp, rule L(11) [OF that])
  from g g158 assms(1) show ?thesis
    by (auto simp: parse_header_def parse_extra_def header_of_def tiff_tags_ok_def)
qed


text \<open>What an image is read back as: photometric and compression as their TIFF values allow.\<close>

definition photometric_read :: "ePhotometric \<Rightarrow> ePhotometric" where
  "photometric_read ph = (if ph = Photometric_MASK then Photometric_GRAY else ph)"

definition compression_read :: "eCompression \<Rightarrow> eCompression" where
  "compression_read cm = (if cm = Compression_PNG then Compression_DEFLATE
     else if cm = Compression_JPEG2000 then Compression_UNKNOWN else cm)"

lemma image_read_back:
  assumes "tiff_tags_ok T" "Rok4Image_new w h ch n' sf bps ph cm es tw th = Inr im"
    "w < 2 ^ 31" "h < 2 ^ 31" "ch < 2 ^ 31" "tw < 2 ^ 31" "th < 2 ^ 31"
    "canRead (int bps) sf" "consistent w h"
  shows "image_of_fields T consistent n (header_of T im) =
    bindR (Rok4Image_new w h ch n sf bps (photometric_read ph) (compression_read cm)
             (if ch = 4 \<or> ch = 2 then es else ExtraSample_UNKNOWN) tw th) (\<lambda>im. Inr (Some im))"
proof -
  have im: "width im = w" "height im = h" "channels im = ch" "tileWidth im = tw" "tileHeight im = th"
    "bitspersample im = bps" "photometric im = ph" "compression im = cm" "esType im = es"
    "sampleformat im = sf"
    using assms(2) by (auto simp: Rok4Image_new_def Let_def split: if_splits)
  have b: "bps < 2 ^ 16" using assms(8) by (auto simp: canRead_def)
  then have u: "uint (word_of_nat bps :: u16) = int bps" "unat (word_of_nat bps :: u16) = bps"
    by (simp_all add: uint_nat)
  have s: "int_size (word_of_nat k) = Inr k" if "k < 2 ^ 31" for k
    using that by (simp add: int_size_def)
  have t: "tiff_h_ok T" using assms(1) by (simp add: tiff_tags_ok_def)
  have c: "ucast (ucast (x :: u16) :: u32) = x" for x by transfer (simp add: take_bit_take_bit)
  show ?thesis
    using assms(8,9)
    by (simp add: image_of_fields_def header_of_def Let_def im u c s [OF assms(3)] s [OF assms(4)]
        s [OF assms(5)] s [OF assms(6)] s [OF assms(7)] tiff_roundtrip [OF t] photometric_read_def
        compression_read_def)
qed


end
