(* ===== verification/WhiteBlocks.thy ===== *)
theory WhiteBlocks
  imports Slab
begin

text \<open>
  \<open>emptyWhiteBlock\<close> (lib/libimage/Rok4Image.cpp): before JPEG compression, blocks of 16 pixels
  with a white pixel, the mark of missing data, become entirely white.
\<close>

subsection \<open>White blocks\<close>

definition white :: bytes where "white = [255, 255, 255, 255]"

text \<open>\<open>memcmp\<close> with the white pixel, at line I and byte J.\<close>

definition white_at :: "nat \<Rightarrow> nat \<Rightarrow> bytes \<Rightarrow> nat \<Rightarrow> nat \<Rightarrow> bool" where
  "white_at raw ch buf I J \<longleftrightarrow> window (I * raw + J) ch buf = take ch white"

definition fill_block :: "nat \<Rightarrow> nat \<Rightarrow> nat \<Rightarrow> nat \<Rightarrow> nat \<Rightarrow> bytes \<Rightarrow> bytes" where
  "fill_block raw ch l jdeb jfin buf =
     fold (\<lambda>p b. splice b p (take ch white))
       [i * raw + j. i \<leftarrow> [0..<l], j \<leftarrow> [jdeb..<jfin], (j - jdeb) mod ch = 0] buf"

lemma block_end: "0 < (n::nat) \<Longrightarrow> J < J div n * n + n"
  using div_mult_mod_eq [of J n] mod_less_divisor [of n J] by linarith

text \<open>The loop on the columns J; \<open>channels\<close> is at least 1 where there is a column.\<close>

function white_columns :: "nat \<Rightarrow> nat \<Rightarrow> nat \<Rightarrow> nat \<Rightarrow> bytes \<Rightarrow> bytes" where
  "white_columns raw ch l J buf =
     (if J < raw \<and> 0 < ch then
        if list_ex (\<lambda>I. white_at raw ch buf I J) [0..<l] then
          let blocklinesize = JPEG_BLOC_SIZE * ch;
              jdeb = (J div blocklinesize) * blocklinesize;
              jfin = min (jdeb + blocklinesize) raw
          in white_columns raw ch l jfin (fill_block raw ch l jdeb jfin buf)
        else white_columns raw ch l (J + ch) buf
      else buf)"
  by pat_completeness auto
termination
proof (relation "measure (\<lambda>(raw, ch, l, J, buf). raw - J)")
  fix raw ch l J bl jdeb jfin :: nat and buf :: bytes
  assume a: "J < raw \<and> 0 < ch" "bl = JPEG_BLOC_SIZE * ch" "jdeb = J div bl * bl"
    "jfin = min (jdeb + bl) raw"
  have "J < J div bl * bl + bl" using a by (intro block_end) (simp add: JPEG_BLOC_SIZE_def)
  with a have "J < jfin" by (simp only: min_less_iff_conj)
  with a(1) show "((raw, ch, l, jfin, fill_block raw ch l jdeb jfin buf), raw, ch, l, J, buf)
      \<in> measure (\<lambda>(raw, ch, l, J, buf). raw - J)"
    by (simp add: diff_less_mono2)
qed auto

declare white_columns.simps [simp del]

definition emptyWhiteBlock :: "Rok4Image \<Rightarrow> bytes \<Rightarrow> nat \<Rightarrow> bytes" where
  "emptyWhiteBlock im buf l = white_columns (rawTileLineSize im) (channels im) l 0 buf"

subsection \<open>What the white blocks become\<close>

lemma nth_fold_splice:
  assumes "\<And>p. p \<in> set ps \<Longrightarrow> p + length w \<le> length b" "set w \<subseteq> {v}"
  shows "length (fold (\<lambda>p b. splice b p w) ps b) = length b \<and>
    (\<forall>q < length b. fold (\<lambda>p b. splice b p w) ps b ! q =
       (if \<exists>p\<in>set ps. p \<le> q \<and> q < p + length w then v else b ! q))"
  using assms(1)
proof (induction ps arbitrary: b)
  case (Cons p ps)
  have len: "length (splice b p w) = length b" using Cons.prems [of p] by simp
  have w: "w ! (q - p) = v" if "p \<le> q" "q < p + length w" for q
  proof -
    have "q - p < length w" using that by simp
    then have "w ! (q - p) \<in> {v}" using assms(2) by (blast dest: nth_mem)
    then show ?thesis by simp
  qed
  have "splice b p w ! q = (if p \<le> q \<and> q < p + length w then v else b ! q)" if "q < length b" for q
    using w that len by (simp add: nth_splice)
  then show ?case using Cons.IH [of "splice b p w"] Cons.prems len by auto
qed simp

text \<open>Line and byte in the line of a place of the buffer.\<close>

lemma row_unique:
  "i * raw + j = i' * raw + j' \<Longrightarrow> j < raw \<Longrightarrow> j' < raw \<Longrightarrow> i = i' \<and> (j::nat) = j'"
  by (metis div_mult_self3 mod_mult_self3 div_less mod_less add_0 add.right_neutral less_nat_zero_code)

lemma row_in:
  fixes i l raw j k :: nat
  assumes "i < l" "j + k \<le> raw"
  shows "i * raw + j + k \<le> l * raw"
proof -
  have "Suc i * raw \<le> l * raw" using assms(1) by (intro mult_le_mono1) simp
  with assms(2) show ?thesis by simp
qed

lemma in_row:
  assumes "i * raw + j \<le> i' * raw + j'" "i' * raw + j' < i * raw + j + k" "j + k \<le> raw" "j' < (raw::nat)"
  shows "i = i' \<and> j \<le> j' \<and> j' < j + k"
proof -
  obtain d where d: "i' * raw + j' = i * raw + (j + d)" "d < k"
    using assms(1,2) by (metis add.assoc le_Suc_ex nat_add_left_cancel_less)
  with row_unique [of i' raw j' i "j + d"] assms(3,4) show ?thesis by auto
qed

lemma in_cell:
  assumes "0 < (ch::nat)" "j0 \<le> j" "j < j0 + m * ch"
  shows "\<exists>c. j0 \<le> c \<and> c < j0 + m * ch \<and> (c - j0) mod ch = 0 \<and> c \<le> j \<and> j < c + ch"
proof (intro exI conjI)
  let ?c = "j0 + (j - j0) div ch * ch"
  show "?c \<le> j" using assms(2) by (metis div_times_less_eq_dividend le_add_diff_inverse nat_add_left_cancel_le)
  then show "?c < j0 + m * ch" using assms(3) by (rule le_less_trans)
  show "j < ?c + ch" using block_end [OF assms(1), of "j - j0"] assms(2) by linarith
qed simp_all

lemma take_white: "ch \<le> 4 \<Longrightarrow> length (take ch white) = ch" "set (take ch white) \<subseteq> {255}"
  by (auto simp: white_def dest: in_set_takeD)

lemma fill_block_spec:
  assumes "0 < ch" "ch \<le> 4" "jfin = jdeb + m * ch" "jfin \<le> raw" "length buf = l * raw"
  shows "length (fill_block raw ch l jdeb jfin buf) = l * raw"
    "i < l \<Longrightarrow> j < raw \<Longrightarrow> fill_block raw ch l jdeb jfin buf ! (i * raw + j) =
       (if jdeb \<le> j \<and> j < jfin then 255 else buf ! (i * raw + j))"
proof -
  let ?w = "take ch white"
  let ?ps = "[i * raw + j. i \<leftarrow> [0..<l], j \<leftarrow> [jdeb..<jfin], (j - jdeb) mod ch = 0]"
  have w: "length ?w = ch" "set ?w \<subseteq> {255}" using take_white assms(2) by blast+
  have cell: "c + ch \<le> jfin" if c: "jdeb \<le> c" "c < jfin" "(c - jdeb) mod ch = 0" for c
  proof -
    obtain k where "c - jdeb = k * ch" using c(3) by (metis mod_eq_0_iff_dvd dvdE mult.commute)
    with c(1) have k: "c = jdeb + k * ch" by simp
    with c assms(3) have "k < m" by simp
    then have "Suc k * ch \<le> m * ch" by (intro mult_le_mono1) simp
    with k assms(3) show ?thesis by simp
  qed
  have ps: "set ?ps = {i * raw + c | i c. i < l \<and> jdeb \<le> c \<and> c < jfin \<and> (c - jdeb) mod ch = 0}"
    by (fastforce simp: mod_eq_0_iff_dvd)
  have fit: "p + length ?w \<le> length buf" if q: "p \<in> set ?ps" for p
  proof -
    obtain i c where p: "p = i * raw + c" "i < l" "jdeb \<le> c" "c < jfin" "(c - jdeb) mod ch = 0"
      using q unfolding ps by auto
    from cell [OF p(3-5)] assms(4) have "c + ch \<le> raw" by simp
    from row_in [OF p(2) this] p(1) assms(5) w show ?thesis by simp
  qed
  have S: "length (fill_block raw ch l jdeb jfin buf) = length buf \<and>
      (\<forall>q<length buf. fill_block raw ch l jdeb jfin buf ! q =
         (if \<exists>p\<in>set ?ps. p \<le> q \<and> q < p + ch then 255 else buf ! q))"
    unfolding fill_block_def
    by (rule nth_fold_splice [of ?ps ?w buf 255, unfolded w(1)]) (rule fit [unfolded w(1)], assumption, rule w(2))
  from S [THEN conjunct1] assms(5) show "length (fill_block raw ch l jdeb jfin buf) = l * raw"
    by (rule trans)
  assume ij: "i < l" "j < raw"
  then have "i * raw + j < length buf" using row_in [of i l j 1 raw] assms(5) by simp
  from S [THEN conjunct2, rule_format, OF this]
  have "fill_block raw ch l jdeb jfin buf ! (i * raw + j) =
      (if \<exists>p\<in>set ?ps. p \<le> i * raw + j \<and> i * raw + j < p + ch then 255 else buf ! (i * raw + j))" .
  moreover have "(\<exists>p\<in>set ?ps. p \<le> i * raw + j \<and> i * raw + j < p + ch) \<longleftrightarrow> jdeb \<le> j \<and> j < jfin"
  proof
    assume "\<exists>p\<in>set ?ps. p \<le> i * raw + j \<and> i * raw + j < p + ch"
    then obtain i' c where c: "jdeb \<le> c" "c < jfin" "(c - jdeb) mod ch = 0"
      "i' * raw + c \<le> i * raw + j" "i * raw + j < i' * raw + c + ch" unfolding ps by auto
    with cell [OF c(1-3)] assms(4) in_row [OF c(4,5)] ij show "jdeb \<le> j \<and> j < jfin" by auto
  next
    assume "jdeb \<le> j \<and> j < jfin"
    with in_cell [OF assms(1), of jdeb j m] assms(3) obtain c where
      "jdeb \<le> c" "c < jfin" "(c - jdeb) mod ch = 0" "c \<le> j" "j < c + ch" by auto
    then have "i * raw + c \<in> set ?ps" unfolding ps mem_Collect_eq
      using ij(1) by (intro exI [of _ i] exI [of _ c] conjI refl)
    moreover have "i * raw + c \<le> i * raw + j \<and> i * raw + j < i * raw + c + ch"
      using \<open>c \<le> j\<close> \<open>j < c + ch\<close> by simp
    ultimately show "\<exists>p\<in>set ?ps. p \<le> i * raw + j \<and> i * raw + j < p + ch" by blast
  qed
  ultimately show "fill_block raw ch l jdeb jfin buf ! (i * raw + j) =
      (if jdeb \<le> j \<and> j < jfin then 255 else buf ! (i * raw + j))" by simp
qed


text \<open>
  From column J on, a byte becomes white exactly when a white pixel stands at some column behind
  J of its block.
\<close>

definition white_behind :: "nat \<Rightarrow> nat \<Rightarrow> nat \<Rightarrow> bytes \<Rightarrow> nat \<Rightarrow> nat \<Rightarrow> bool" where
  "white_behind raw ch l buf J j \<longleftrightarrow>
     (\<exists>k I. J \<le> k * ch \<and> k * ch < raw \<and> I < l \<and> white_at raw ch buf I (k * ch)
        \<and> k * ch div (JPEG_BLOC_SIZE * ch) = j div (JPEG_BLOC_SIZE * ch))"

lemma white_at_cong:
  assumes "length b = length b'" "c + ch \<le> raw" "I < l" "length b = l * raw"
    "\<And>d. d < ch \<Longrightarrow> b ! (I * raw + (c + d)) = b' ! (I * raw + (c + d))"
  shows "white_at raw ch b I c = white_at raw ch b' I c"
proof -
  have "I * raw + c + ch \<le> length b" using row_in [OF assms(3,2)] assms(4) by simp
  then have "window (I * raw + c) ch b = window (I * raw + c) ch b'"
    using assms(1,5) by (intro nth_equalityI) (simp_all add: length_window nth_window add.assoc)
  then show ?thesis by (simp only: white_at_def)
qed

lemma cell_fits: "k * ch < m * ch \<Longrightarrow> k * ch + ch \<le> m * (ch::nat)"
  by (metis Suc_leI add.commute mult_Suc mult_le_mono1 mult_less_cancel2)

lemma white_columns_spec:
  assumes "0 < ch" "ch \<le> 4" "raw = m * ch" "J = k * ch" "length buf = l * raw"
  shows "length (white_columns raw ch l J buf) = l * raw \<and>
    (\<forall>i j. i < l \<longrightarrow> j < raw \<longrightarrow> white_columns raw ch l J buf ! (i * raw + j) =
       (if white_behind raw ch l buf J j then 255 else buf ! (i * raw + j)))"
  using assms
proof (induction raw ch l J buf arbitrary: k rule: white_columns.induct)
  case (1 raw ch l J buf)
  let ?n = "JPEG_BLOC_SIZE * ch"
  show ?case
  proof (cases "J < raw")
    case False
    with 1(7) show ?thesis by (subst (1 2) white_columns.simps) (auto simp: white_behind_def)
  next
    case True
    show ?thesis
    proof (cases "list_ex (\<lambda>I. white_at raw ch buf I J) [0..<l]")
      case False
      have "white_behind raw ch l buf (J + ch) j = white_behind raw ch l buf J j" for j
      proof -
        have "J + ch \<le> q * ch" if "J \<le> q * ch" "q * ch < raw" "I < l" "white_at raw ch buf I (q * ch)" for q I
        proof -
          have "q * ch \<noteq> J" using False that by (auto simp: list_ex_iff)
          with that(1) 1(6) have "k * ch < q * ch" by simp
          from cell_fits [OF this] 1(6) show ?thesis by simp
        qed
        then show ?thesis unfolding white_behind_def by (meson add_leD1)
      qed
      with 1(2) [of "Suc k"] 1(3-7) True False show ?thesis
        by (subst (1 2) white_columns.simps) simp
    next
      case W: True
      define jdeb where "jdeb = J div ?n * ?n"
      define jfin where "jfin = min (jdeb + ?n) raw"
      define b' where "b' = fill_block raw ch l jdeb jfin buf"
      have n: "0 < ?n" using 1(3) by (simp add: JPEG_BLOC_SIZE_def)
      have J: "jdeb \<le> J" "J < jdeb + ?n" using block_end [OF n, of J] by (simp_all add: jdeb_def)
      define k0 where "k0 = J div ?n * JPEG_BLOC_SIZE"
      have jdeb: "jdeb = k0 * ch" by (simp only: jdeb_def k0_def mult.assoc)
      obtain k1 where jfin: "jfin = k1 * ch"
        using 1(5) jdeb that [of "min (k0 + JPEG_BLOC_SIZE) m"]
        by (simp add: jfin_def min_def add_mult_distrib [symmetric])
      have le: "jdeb \<le> jfin" "jfin \<le> raw" using J True by (simp_all add: jfin_def)
      then have fd: "jfin = jdeb + (k1 - k0) * ch" using jdeb jfin by (simp add: diff_mult_distrib)
      have fill: "length b' = l * raw" "i < l \<Longrightarrow> j < raw \<Longrightarrow> b' ! (i * raw + j) =
         (if jdeb \<le> j \<and> j < jfin then 255 else buf ! (i * raw + j))" for i j
        unfolding b'_def using fill_block_spec [OF 1(3,4) fd le(2) 1(7)] by blast+
      have IH: "length (white_columns raw ch l jfin b') = l * raw \<and>
         (\<forall>i j. i < l \<longrightarrow> j < raw \<longrightarrow> white_columns raw ch l jfin b' ! (i * raw + j) =
           (if white_behind raw ch l b' jfin j then 255 else b' ! (i * raw + j)))"
        using 1(1) [OF _ W refl jdeb_def jfin_def 1(3-5) jfin] True 1(3) fill(1)
        unfolding b'_def by blast
      have blk: "j div ?n = J div ?n \<longleftrightarrow> jdeb \<le> j \<and> j < jdeb + ?n" for j
      proof
        assume "j div ?n = J div ?n"
        with block_end [OF n, of j] show "jdeb \<le> j \<and> j < jdeb + ?n"
          unfolding jdeb_def by (metis div_times_less_eq_dividend)
      next
        assume "jdeb \<le> j \<and> j < jdeb + ?n"
        then show "j div ?n = J div ?n"
          unfolding jdeb_def by (intro div_nat_eqI) (simp_all add: mult.commute)
      qed
      have same: "white_at raw ch b' I (q * ch) = white_at raw ch buf I (q * ch)"
        if q: "jfin \<le> q * ch" "q * ch < raw" "I < l" for I q
      proof -
        have "q * ch + ch \<le> raw" using cell_fits [of q ch m] q(2) 1(5) by simp
        then show ?thesis using q fill 1(7) by (intro white_at_cong [where l = l]) simp_all
      qed
      have beyond: "white_behind raw ch l b' jfin j \<longleftrightarrow> white_behind raw ch l buf J j"
        if j: "\<not> (jdeb \<le> j \<and> j < jfin)" "j < raw" for j
      proof -
        have "j div ?n \<noteq> J div ?n" using j by (simp only: blk jfin_def min_less_iff_conj) blast
        then have later: "jfin \<le> q * ch"
          if "J \<le> q * ch" "q * ch < raw" "q * ch div ?n = j div ?n" for q
          using that blk [of "q * ch"] J(1) by (fastforce simp: jfin_def)
        have "J \<le> q * ch" if "jfin \<le> q * ch" for q
          using that J(2) True by (simp add: jfin_def)
        with later same show ?thesis unfolding white_behind_def by meson
      qed
      have inside: "white_behind raw ch l buf J j" if "jdeb \<le> j" "j < jfin" for j
      proof -
        obtain I where "I < l" "white_at raw ch buf I J" using W by (auto simp: list_ex_iff)
        moreover have "J div ?n = j div ?n" using blk [of j] that by (simp add: jfin_def)
        ultimately show ?thesis using True 1(6) unfolding white_behind_def by blast
      qed
      have "white_columns raw ch l J buf = white_columns raw ch l jfin b'"
        using True W 1(3) by (subst white_columns.simps) (simp add: Let_def b'_def jdeb_def jfin_def)
      moreover have "white_columns raw ch l jfin b' ! (i * raw + j) =
          (if white_behind raw ch l buf J j then 255 else buf ! (i * raw + j))"
        if "i < l" "j < raw" for i j
        using that IH fill(2) [OF that] beyond [of j] inside [of j]
        by (cases "jdeb \<le> j \<and> j < jfin") simp_all
      ultimately show ?thesis using IH by simp
    qed
  qed
qed


subsection \<open>Properties\<close>

text \<open>
  C28: Cropping one row of blocks before JPEG compression: whatever the scan with its jumps, every
  block of 16 pixels that has a white pixel becomes white in all its lines and every other block
  is left as it was, byte for byte; the last block of a line may be narrower.
\<close>

theorem white_blocks:
  assumes "0 < channels im" "channels im \<le> 4" "rawTileLineSize im = m * channels im"
    "length buf = l * rawTileLineSize im" "i < l" "j < rawTileLineSize im"
  shows "emptyWhiteBlock im buf l ! (i * rawTileLineSize im + j) =
    (if \<exists>k I. k < m \<and> I < l
          \<and> window (I * rawTileLineSize im + k * channels im) (channels im) buf = replicate (channels im) 255
          \<and> k div 16 = j div (16 * channels im)
     then 255 else buf ! (i * rawTileLineSize im + j))"
proof -
  have w: "take (channels im) white = replicate (channels im) 255"
    using take_white(1) [of "channels im"] take_white(2) [of "channels im"] assms(2) by (intro replicate_eqI) auto
  have b: "k * channels im div (JPEG_BLOC_SIZE * channels im) = k div 16" for k
    using assms(1) by (simp add: JPEG_BLOC_SIZE_def)
  have "white_behind (rawTileLineSize im) (channels im) l buf 0 j \<longleftrightarrow> (\<exists>k I. k < m \<and> I < l
          \<and> window (I * rawTileLineSize im + k * channels im) (channels im) buf = replicate (channels im) 255
          \<and> k div 16 = j div (16 * channels im))"
    unfolding white_behind_def white_at_def w b assms(3) JPEG_BLOC_SIZE_def
    using assms(1) by (simp add: conj_ac)
  with white_columns_spec [OF assms(1-3), of 0 0 buf l] assms(4-6) show ?thesis
    by (simp add: emptyWhiteBlock_def)
qed

theorem white_blocks_witness:
  "let im = Rok4Image_vector ''s'' 1 1 1 1 \<lparr>channels := 1, rawTileLineSize := 20\<rparr>;
       buf = replicate 20 7 @ replicate 4 8 @ [255] @ replicate 15 9
   in emptyWhiteBlock im buf 2 ! 3 = 255 \<and> emptyWhiteBlock im buf 2 ! 36 = 9"
proof -
  let ?im = "Rok4Image_vector ''s'' 1 1 1 1 \<lparr>channels := 1, rawTileLineSize := 20\<rparr>"
  let ?buf = "replicate 20 7 @ replicate 4 8 @ [255] @ replicate 15 (9::u8)"
  have im: "channels ?im = 1" "rawTileLineSize ?im = 20" by simp_all
  have at: "window (20 + 4) 1 ?buf = [255]" by (simp add: window_def)
  have white: "window (I * 20 + k * 1) 1 ?buf = replicate 1 255 \<longleftrightarrow> I = 1 \<and> k = 4"
    if "I < 2" "k < 20" for I k
  proof -
    have "window (I * 20 + k) 1 ?buf = [?buf ! (I * 20 + k)]" using that
      by (intro nth_equalityI) (simp_all add: length_window nth_window)
    moreover have "?buf ! (I * 20 + k) = 255 \<longleftrightarrow> I = 1 \<and> k = 4"
    proof -
      have "I = 0 \<or> I = 1" using that(1) by auto
      then show ?thesis using that(2) by (auto simp: nth_append nth_Cons')
    qed
    ultimately show ?thesis by simp
  qed
  have some: "(\<exists>k I. k < 20 \<and> I < 2 \<and> window (I * 20 + k * 1) 1 ?buf = replicate 1 255
      \<and> k div 16 = j div (16 * 1)) \<longleftrightarrow> j div 16 = 0" for j :: nat
  proof -
    have "(\<exists>k I. k < 20 \<and> I < 2 \<and> window (I * 20 + k * 1) 1 ?buf = replicate 1 255
      \<and> k div 16 = j div (16 * 1)) \<longleftrightarrow> (\<exists>k I. k < 20 \<and> I < (2::nat) \<and> (I = 1 \<and> k = 4) \<and> k div 16 = j div 16)"
      by (intro iff_exI conj_cong refl white) simp_all
    also have "\<dots> \<longleftrightarrow> j div 16 = 0" by auto
    finally show ?thesis .
  qed
  note W = white_blocks [of ?im 20 ?buf 2, unfolded im some]
  have "emptyWhiteBlock ?im ?buf 2 ! (0 * 20 + 3) =
      (if 3 div 16 = (0::nat) then 255 else ?buf ! (0 * 20 + 3))" by (rule W) simp_all
  moreover have "emptyWhiteBlock ?im ?buf 2 ! (1 * 20 + 16) =
      (if 16 div 16 = (0::nat) then 255 else ?buf ! (1 * 20 + 16))" by (rule W) simp_all
  ultimately show ?thesis by (simp add: Let_def nth_append)
qed


end
