(* ===== verification/TileCodec.thy ===== *)
theory TileCodec
  imports WhiteBlocks PackBits LzwRoundtrip
begin

text \<open>
  The tiles of a slab (lib/libimage/Rok4Image.cpp and Decoder.cpp): compression of a raw tile into
  the buffer of the slab, and the decoders of the tiles read. zlib and libjpeg are parameters;
  LZW and PackBits are the codecs of their own theories.

  The result of a compression is the bytes it left in the buffer, \<open>None\<close> for the size
  \<open>(size_t) -1\<close>.
\<close>

subsection \<open>zlib and libjpeg\<close>

record 'z zlib =
  crc32_start :: u32
  crc32 :: "u32 \<Rightarrow> bytes \<Rightarrow> u32"
  deflate_all :: "nat \<Rightarrow> bytes \<Rightarrow> nat \<Rightarrow> bytes option"  \<comment> \<open>level, input, room: the whole stream\<close>
  inflateInit :: "'z option"
  next_in :: "bytes \<Rightarrow> 'z \<Rightarrow> 'z"
  inflate :: "nat \<Rightarrow> 'z \<Rightarrow> int \<times> bytes \<times> 'z"  \<comment> \<open>room: result, bytes put out, next state\<close>
  avail_in :: "'z \<Rightarrow> nat"
  inflateEnd :: "'z \<Rightarrow> bool"
  Z_STREAM_END :: int

datatype jpeg_answer =
    JpegFatal                              \<comment> \<open>error_exit\<close>
  | JpegNoHeader
  | JpegLines nat nat "bytes option list"  \<comment> \<open>width, components, a scan line each\<close>

record libjpeg =
  jpeg_compress :: "nat \<Rightarrow> nat \<Rightarrow> bytes list \<Rightarrow> nat \<Rightarrow> bytes option"
  jpeg_decompress :: "bytes \<Rightarrow> jpeg_answer"

subsection \<open>Buffers\<close>

text \<open>
  The buffer of a raster slab is twice the size of a raw tile; zlib's level and libjpeg's
  quality, fixed here, are arguments of the parameters.
\<close>

definition prepareBuffers :: "Rok4Image \<Rightarrow> Rok4Image" where
  "prepareBuffers im =
     (let im1 = im\<lparr>tilesOffset := replicate (tilesNumber im) 0,
                   tilesByteCounts := replicate (tilesNumber im) 0,
                   position := word_of_nat (ROK4_IMAGE_HEADER_SIZE + 8 * tilesNumber im)\<rparr>
      in if isVector im then im1 else im1\<lparr>BufferSize := 2 * rawTileSize im\<rparr>)"

subsection \<open>Compression\<close>

definition line_of :: "Rok4Image \<Rightarrow> bytes \<Rightarrow> nat \<Rightarrow> bytes" where
  "line_of im data h = window (h * rawTileLineSize im) (rawTileLineSize im) data"

definition computeRawTile :: "Rok4Image \<Rightarrow> bytes \<Rightarrow> fault + bytes option" where
  "computeRawTile im data =
     (if length data < rawTileSize im then Inl OverRead
      else if BufferSize im < rawTileSize im then Inl BufferOverflow
      else Inr (Some (take (rawTileSize im) data)))"

text \<open>A larger buffer is allocated where needed, but the bytes are copied to the one just deleted.\<close>

definition computeLzwTile :: "Rok4Image \<Rightarrow> bytes \<Rightarrow> fault + bytes option" where
  "computeLzwTile im data =
     (if length data < rawTileSize im then Inl OverRead
      else
        bindR (lzw_encode lzwEncoder_new (take (rawTileSize im) data)) (\<lambda>(_, temp).
          if length temp > BufferSize im then Inl UseAfterFree else Inr (Some temp)))"

fun pack_lines :: "nat \<Rightarrow> bytes list \<Rightarrow> bytes \<Rightarrow> fault + bytes" where
  "pack_lines cap [] acc = Inr acc"
| "pack_lines cap (rawLine # ls) acc =
     bindR (pkb_encode rawLine) (\<lambda>pkbLine.
       if length acc + length pkbLine > cap then Inl BufferOverflow
       else pack_lines cap ls (acc @ pkbLine))"

definition computePackbitsTile :: "Rok4Image \<Rightarrow> bytes \<Rightarrow> fault + bytes option" where
  "computePackbitsTile im data =
     (if length data < tileHeight im * rawTileLineSize im then Inl OverRead
      else
        bindR (pack_lines (rawTileLineSize im * tileHeight im * 2)
                 (map (line_of im data) [0..<tileHeight im]) []) (\<lambda>pkbBuffer.
          if length pkbBuffer > BufferSize im then Inl BufferOverflow else Inr (Some pkbBuffer)))"

definition PNG_IEND :: bytes where
  "PNG_IEND = [0, 0, 0, 0] @ map byte_of ''IEND'' @ [0xae, 0x42, 0x60, 0x82]"

definition PNG_HEADER :: bytes where
  "PNG_HEADER = [137, 80, 78, 71, 13, 10, 26, 10, 0, 0, 0, 13] @ map byte_of ''IHDR''
     @ [0, 0, 1, 0, 0, 0, 1, 0, 8, 0, 0, 0, 0, 0, 0, 0, 0]"

text \<open>\<open>bswap_32\<close> of an integer stored in memory: its bytes from the highest.\<close>

definition put32_swapped :: "u32 \<Rightarrow> bytes" where
  "put32_swapped w = rev (put32 w)"

definition png_colour :: "nat \<Rightarrow> u8" where
  "png_colour ch = (if ch = 1 then 0 else if ch = 2 then 4 else if ch = 3 then 2
     else if ch = 4 then 6 else PNG_HEADER ! 25)"

definition png_header :: "'z zlib \<Rightarrow> Rok4Image \<Rightarrow> bytes" where
  "png_header Z im =
     (let h = take 16 PNG_HEADER @ put32_swapped (word_of_nat (tileWidth im))
            @ put32_swapped (word_of_nat (tileHeight im)) @ [PNG_HEADER ! 24]
            @ [png_colour (channels im)] @ take 3 (drop 26 PNG_HEADER)
      in h @ put32_swapped (crc32 Z (crc32_start Z) (take 17 (drop 12 h))))"

text \<open>The lines with the 0 of their filter in front.\<close>

definition png_lines :: "Rok4Image \<Rightarrow> bytes \<Rightarrow> bytes" where
  "png_lines im data = concat (map (\<lambda>h. 0 # line_of im data h) [0..<tileHeight im])"

definition png_room :: "Rok4Image \<Rightarrow> u32" where
  "png_room im = word_of_nat (2 * rawTileSize im) - 12 - word_of_nat (length PNG_HEADER)
     - word_of_nat (length PNG_IEND)"

definition computePngTile :: "'z zlib \<Rightarrow> Rok4Image \<Rightarrow> bytes \<Rightarrow> fault + bytes option" where
  "computePngTile Z im data =
     (if length data < tileHeight im * rawTileLineSize im then Inl OverRead
      else if BufferSize im < length PNG_HEADER then Inl BufferOverflow
      else
        case deflate_all Z 5 (png_lines im data) (unat (png_room im)) of
          None \<Rightarrow> Inr None
        | Some z \<Rightarrow>
            let idat = map byte_of ''IDAT'' @ z;
                png = png_header Z im @ put32_swapped (word_of_nat (length z)) @ idat
                  @ put32_swapped (crc32 Z (crc32_start Z) idat) @ PNG_IEND
            in if length png > BufferSize im then Inl BufferOverflow else Inr (Some png))"

definition computeDeflateTile :: "'z zlib \<Rightarrow> Rok4Image \<Rightarrow> bytes \<Rightarrow> fault + bytes option" where
  "computeDeflateTile Z im data =
     (if length data < tileHeight im * rawTileLineSize im then Inl OverRead
      else
        case deflate_all Z 6 (concat (map (line_of im data) [0..<tileHeight im])) (2 * rawTileSize im) of
          None \<Rightarrow> Inr None
        | Some z \<Rightarrow> if length z > BufferSize im then Inl BufferOverflow else Inr (Some z))"

text \<open>
  The rows of blocks, cropped one after the other: 16 lines each, the last one what is left.
\<close>

definition crop_row :: "Rok4Image \<Rightarrow> nat \<Rightarrow> bytes \<Rightarrow> bytes" where
  "crop_row im numLine data =
     (let l = min JPEG_BLOC_SIZE (tileHeight im - numLine);
          off = numLine * rawTileLineSize im
      in splice data off (emptyWhiteBlock im (window off (l * rawTileLineSize im) data) l))"

definition crop_tile :: "Rok4Image \<Rightarrow> bytes \<Rightarrow> bytes" where
  "crop_tile im data =
     fold (crop_row im) [n \<leftarrow> [0..<tileHeight im]. n mod JPEG_BLOC_SIZE = 0] data"

text \<open>libjpeg is always told of 3 components; it reads its scan lines from the start of each line.\<close>

definition computeJpegTile :: "libjpeg \<Rightarrow> Rok4Image \<Rightarrow> bytes \<Rightarrow> bool \<Rightarrow> fault + bytes option" where
  "computeJpegTile J im data crop =
     (if length data < tileHeight im * rawTileLineSize im then Inl OverRead
      else if 0 < tileHeight im
              \<and> length data < (tileHeight im - 1) * rawTileLineSize im + 3 * tileWidth im then Inl OverRead
      else
        let data' = (if crop then crop_tile im data else data);
            rows = map (\<lambda>h. window (h * rawTileLineSize im) (3 * tileWidth im) data') [0..<tileHeight im]
        in case jpeg_compress J (tileWidth im) (tileHeight im) rows (2 * rawTileSize im) of
             None \<Rightarrow> Inr (Some [])
           | Some out \<Rightarrow> if length out > BufferSize im then Inl BufferOverflow else Inr (Some out))"

text \<open>
  The switch of \<open>writeTile\<close>; with another compression the size is never set.
\<close>

definition computeTile ::
    "'z zlib \<Rightarrow> libjpeg \<Rightarrow> Rok4Image \<Rightarrow> bytes \<Rightarrow> bool \<Rightarrow> fault + bytes option" where
  "computeTile Z J im data crop =
     (case compression im of
        Compression_NONE \<Rightarrow> computeRawTile im data
      | Compression_LZW \<Rightarrow> computeLzwTile im data
      | Compression_JPEG \<Rightarrow> computeJpegTile J im data crop
      | Compression_PNG \<Rightarrow> computePngTile Z im data
      | Compression_PACKBITS \<Rightarrow> computePackbitsTile im data
      | Compression_DEFLATE \<Rightarrow> computeDeflateTile Z im data
      | _ \<Rightarrow> Inl Uninitialised)"


subsection \<open>Tiles fit their buffer\<close>

lemma Rok4Image_new_geometry:
  "Rok4Image_new w h ch n sf bps ph cm es tw th = Inr im \<Longrightarrow>
     rawTileSize im = tileHeight im * rawTileLineSize im \<and> compression im = cm \<and> \<not> isVector im
     \<and> tilesNumber im = tileWidthwise im * tileHeightwise im \<and> slab_name im = n"
  by (auto simp: Rok4Image_new_def Let_def split: if_splits)

lemma length_line_of:
  "h < tileHeight im \<Longrightarrow> length data = tileHeight im * rawTileLineSize im \<Longrightarrow>
     length (line_of im data h) = rawTileLineSize im"
  using row_in [of h "tileHeight im" 0 "rawTileLineSize im" "rawTileLineSize im"]
  by (simp add: line_of_def length_window)

lemma pack_lines_ok:
  assumes "\<And>l. l \<in> set ls \<Longrightarrow> length l = k" "length acc + 2 * k * length ls \<le> cap"
  shows "\<exists>out. pack_lines cap ls acc = Inr out \<and> length out \<le> length acc + 2 * k * length ls"
  using assms
proof (induction ls arbitrary: acc)
  case (Cons l ls)
  obtain e where e: "pkb_encode l = Inr e" "length e \<le> 2 * length l"
    using pkb_encode_stream [of l] stream_le by metis
  with Cons.prems(1) [of l] have "length e \<le> 2 * k" by simp
  with Cons.prems(2) have "length (acc @ e) + 2 * k * length ls \<le> cap" by simp
  with Cons.IH [of "acc @ e"] Cons.prems(1) obtain out where
    "pack_lines cap ls (acc @ e) = Inr out" "length out \<le> length (acc @ e) + 2 * k * length ls" by auto
  with e \<open>length e \<le> 2 * k\<close> \<open>length (acc @ e) + 2 * k * length ls \<le> cap\<close> show ?case by auto
qed simp

lemma length_png [simp]: "length PNG_HEADER = 33" "length PNG_IEND = 12" "length (put32_swapped w) = 4"
  by (simp_all add: PNG_HEADER_def PNG_IEND_def put32_swapped_def)

lemma length_png_header [simp]: "length (png_header Z im) = 33"
  by (simp add: png_header_def Let_def)

lemma png_room:
  assumes "29 \<le> rawTileSize im" "2 * rawTileSize im < 2 ^ 32"
  shows "unat (png_room im) = 2 * rawTileSize im - 57"
proof -
  have "png_room im = word_of_nat (2 * rawTileSize im - 57)"
    using assms(1) by (simp add: png_room_def)
  with assms(2) show ?thesis by simp
qed

text \<open>
  C27: Compressing a tile stays within the buffer of \<open>prepareBuffers\<close> and reads nothing outside the tile, for
  each of the six compressions: the result has at most twice the size of the raw tile, and only zlib can
  refuse. A tile has to have 3 bytes for LZW and 29 bytes for PNG (\<open>small_png_overflow\<close> says what happens with
  fewer), and three channels of a byte for JPEG. (Of zlib and libjpeg: they do not put out more than their room.)
\<close>

theorem tile_compression_safe:
  assumes "rawTileSize im = tileHeight im * rawTileLineSize im" "\<not> isVector im"
    "length data = rawTileSize im" "2 * rawTileSize im < 2 ^ 32"
    "\<And>l x room z. deflate_all Z l x room = Some z \<Longrightarrow> length z \<le> room"
    "\<And>w h rows room z. jpeg_compress J w h rows room = Some z \<Longrightarrow> length z \<le> room"
    "compression im \<in> {Compression_NONE, Compression_LZW, Compression_PACKBITS, Compression_PNG,
       Compression_DEFLATE, Compression_JPEG}"
    "compression im = Compression_LZW \<longrightarrow> 3 \<le> rawTileSize im" "compression im = Compression_PNG \<longrightarrow> 29 \<le> rawTileSize im"
    "compression im = Compression_JPEG \<longrightarrow> rawTileLineSize im = 3 * tileWidth im"
  shows "case computeTile Z J (prepareBuffers im) data crop of
      Inl f \<Rightarrow> False
    | Inr None \<Rightarrow> compression im \<in> {Compression_PNG, Compression_DEFLATE}
    | Inr (Some b) \<Rightarrow> length b \<le> 2 * rawTileSize im"
proof -
  let ?im = "prepareBuffers im"
  have im: "rawTileSize ?im = rawTileSize im" "BufferSize ?im = 2 * rawTileSize im"
    "tileHeight ?im = tileHeight im" "rawTileLineSize ?im = rawTileLineSize im"
    "compression ?im = compression im" "tileWidth ?im = tileWidth im"
    using assms(2) by (simp_all add: prepareBuffers_def Let_def)
  have lines: "length l = rawTileLineSize im" if "l \<in> set (map (line_of ?im data) [0..<tileHeight im])" for l
    using that length_line_of [of _ ?im data] assms(1,3) im by auto
  consider "compression im = Compression_NONE" | "compression im = Compression_LZW"
    | "compression im = Compression_PACKBITS" | "compression im = Compression_PNG"
    | "compression im = Compression_DEFLATE" | "compression im = Compression_JPEG" using assms(7) by auto
  then show ?thesis
  proof cases
    case 1
    with assms(3) im show ?thesis by (simp add: computeTile_def computeRawTile_def)
  next
    case 2
    obtain e out where "lzw_encode lzwEncoder_new data = Inr (e, out)" "length out \<le> 2 * length data"
      using lzw_encode_run [of data] assms(3,8) 2 by auto
    with 2 assms(3) im show ?thesis by (simp add: computeTile_def computeLzwTile_def)
  next
    case 3
    have room: "2 * rawTileLineSize im * tileHeight im = 2 * rawTileSize im"
      "rawTileLineSize im * tileHeight im * 2 = 2 * rawTileSize im"
      using assms(1) by simp_all
    let ?ls = "map (line_of ?im data) [0..<tileHeight im]"
    have "\<exists>out. pack_lines (2 * rawTileSize im) ?ls [] = Inr out
        \<and> length out \<le> length ([] :: bytes) + 2 * rawTileLineSize im * length ?ls"
      by (rule pack_lines_ok) (use lines room(1) in \<open>auto\<close>)
    then obtain out where "pack_lines (2 * rawTileSize im) ?ls [] = Inr out"
      "length out \<le> 2 * rawTileSize im" using room(1) by auto
    with 3 assms(1,3) im room(2) show ?thesis by (simp add: computeTile_def computePackbitsTile_def mult_ac)
  next
    case 4
    have "png_room ?im = png_room im" by (simp add: png_room_def im)
    with png_room [OF _ assms(4)] assms(9) 4 have "unat (png_room ?im) = 2 * rawTileSize im - 57" by simp
    with 4 assms(1,3,9) im assms(5) [of 5 "png_lines ?im data" "2 * rawTileSize im - 57"]
    show ?thesis
      by (auto simp: computeTile_def computePngTile_def Let_def split: option.splits)
  next
    case 5
    let ?x = "concat (map (line_of ?im data) [0..<tileHeight im])"
    from 5 assms(1,3) im assms(5) [of 6 ?x "2 * rawTileSize im"] show ?thesis
      by (cases "deflate_all Z 6 ?x (2 * rawTileSize im)")
        (auto simp: computeTile_def computeDeflateTile_def)
  next
    case 6
    then have l: "rawTileLineSize im = 3 * tileWidth im" using assms(10) by simp
    have "\<not> length data < (tileHeight im - 1) * rawTileLineSize im + 3 * tileWidth im" if "0 < tileHeight im"
      using that assms(1,3) l by (cases "tileHeight im") simp_all
    then have no_over: "\<not> (0 < tileHeight im \<and> length data < (tileHeight im - 1) * rawTileLineSize im + 3 * tileWidth im)" by blast
    let ?rows = "map (\<lambda>h. window (h * rawTileLineSize im) (3 * tileWidth im) (if crop then crop_tile ?im data else data)) [0..<tileHeight im]"
    have c: "computeTile Z J ?im data crop = (case jpeg_compress J (tileWidth im) (tileHeight im) ?rows (2 * rawTileSize im) of
        None \<Rightarrow> Inr (Some []) | Some out \<Rightarrow> if length out > 2 * rawTileSize im then Inl BufferOverflow else Inr (Some out))"
      unfolding computeTile_def computeJpegTile_def im Let_def using 6 no_over assms(1,3) by (cases "tileHeight im = 0") simp_all
    from assms(6) [of "tileWidth im" "tileHeight im" ?rows "2 * rawTileSize im"] show ?thesis
      unfolding c by (cases "jpeg_compress J (tileWidth im) (tileHeight im) ?rows (2 * rawTileSize im)") simp_all
  qed
qed

text \<open>
  The room for the data of a PNG is twice the size of the tile without 57 bytes, as an unsigned number: for a
  tile of at most 28 bytes it is nearly 2^32, and whatever zlib gives is written behind the buffer.
\<close>

theorem small_png_overflow:
  assumes "rawTileSize im = tileHeight im * rawTileLineSize im" "\<not> isVector im" "compression im = Compression_PNG"
    "length data = rawTileSize im" "rawTileSize im < 29"
    "deflate_all Z 5 (png_lines (prepareBuffers im) data) (unat (png_room (prepareBuffers im))) = Some z"
  shows "computeTile Z J (prepareBuffers im) data crop = Inl BufferOverflow"
proof -
  let ?im = "prepareBuffers im"
  have im: "rawTileSize ?im = rawTileSize im" "BufferSize ?im = 2 * rawTileSize im"
    "tileHeight ?im = tileHeight im" "rawTileLineSize ?im = rawTileLineSize im" "compression ?im = compression im"
    using assms(2) by (simp_all add: prepareBuffers_def Let_def)
  show "computeTile Z J ?im data crop = Inl BufferOverflow"
    using assms im by (simp add: computeTile_def computePngTile_def Let_def)
qed

text \<open>
  Codecs that keep the bytes as they are: instances of the parameters on which the model runs.
\<close>

definition plain_zlib :: "bytes zlib" where
  "plain_zlib =
     \<lparr>crc32_start = 0, crc32 = (\<lambda>c b. c + word_of_nat (length b)),
      deflate_all = (\<lambda>l x room. if length x \<le> room then Some x else None),
      inflateInit = Some [], next_in = (\<lambda>b z. b),
      inflate = (\<lambda>room z. (if length z \<le> room then 1 else 0, take room z, drop room z)),
      avail_in = length, inflateEnd = (\<lambda>z. True), Z_STREAM_END = 1\<rparr>"

definition plain_jpeg :: libjpeg where
  "plain_jpeg = \<lparr>jpeg_compress = (\<lambda>w h rows cap. if length (concat rows) \<le> cap then Some (concat rows) else None),
     jpeg_decompress = (\<lambda>b. JpegLines (length b) 1 [Some b])\<rparr>"

theorem tile_compression_safe_witness:
  "\<exists>im. Rok4Image_new 32 1 1 ''s'' SampleFormat_UINT 8 Photometric_GRAY Compression_PNG
       ExtraSample_UNKNOWN 32 1 = Inr im
     \<and> (case computeTile plain_zlib plain_jpeg (prepareBuffers im) (replicate 32 7) False of
          Inl f \<Rightarrow> False
        | Inr None \<Rightarrow> compression im \<in> {Compression_PNG, Compression_DEFLATE}
        | Inr (Some b) \<Rightarrow> length b \<le> 2 * rawTileSize im)"
proof -
  obtain im where im: "Rok4Image_new 32 1 1 ''s'' SampleFormat_UINT 8 Photometric_GRAY
      Compression_PNG ExtraSample_UNKNOWN 32 1 = Inr im" "rawTileSize im = 32"
    by (simp add: Rok4Image_new_def Let_def)
  have g: "rawTileSize im = tileHeight im * rawTileLineSize im" "\<not> isVector im"
    "compression im = Compression_PNG" using Rok4Image_new_geometry [OF im(1)] by simp_all
  have z: "length z \<le> room" if "deflate_all plain_zlib l x room = Some z" for l x room z
    using that by (auto simp: plain_zlib_def split: if_splits)
  have "case computeTile plain_zlib plain_jpeg (prepareBuffers im) (replicate 32 7) False of
      Inl f \<Rightarrow> False
    | Inr None \<Rightarrow> compression im \<in> {Compression_PNG, Compression_DEFLATE}
    | Inr (Some b) \<Rightarrow> length b \<le> 2 * rawTileSize im"
    by (rule tile_compression_safe [OF g(1,2) _ _ z]) (auto simp: im(2) g(3) plain_jpeg_def split: if_splits)
  with im(1) show ?thesis by blast
qed


end
