(* ===== verification/SlabWrite.thy ===== *)
theory SlabWrite
  imports TileCodec
begin

text \<open>
  Writing a slab (lib/libimage/Rok4Image.cpp): header, tiles one after the other at offsets
  rounded up to 16, then the index behind the header, over any storage. The tables of offsets and
  sizes and the next position are members of the image.
\<close>

unbundle bit_operations_syntax

subsection \<open>Operations\<close>

text \<open>An int parameter \<open>offset\<close> that is given an unsigned value.\<close>

definition write_int :: "'c Context \<Rightarrow> bytes \<Rightarrow> u32 \<Rightarrow> string \<Rightarrow> 'c \<Rightarrow> (fault + bool) \<times> 'c" where
  "write_int C d off n c =
     (if unat off \<ge> 2 ^ 31 then (Inl NegativeSize, c) else no_fault (write_at C d (unat off) n c))"

text \<open>The second half of both \<open>writeTile\<close>: the bytes of a tile are known.\<close>

definition store_tile ::
    "'c Context \<Rightarrow> Rok4Image \<Rightarrow> nat \<Rightarrow> bytes \<Rightarrow> 'c \<Rightarrow> (fault + bool) \<times> Rok4Image \<times> 'c" where
  "store_tile C im i d c =
     (let sz = word_of_nat (length d);
          c1 = (if tilesNumber im = 1 then snd (write_at C (put32 sz) 134 (slab_name im) c) else c)
      in if i \<ge> length (tilesOffset im) \<or> i \<ge> length (tilesByteCounts im) then (Inl BufferOverflow, im, c1)
         else
           let im1 = im\<lparr>tilesOffset := (tilesOffset im)[i := position im],
                        tilesByteCounts := (tilesByteCounts im)[i := sz]\<rparr>
           in (case write_int C d (position im) (slab_name im) c1 of
                 (Inl f, c2) \<Rightarrow> (Inl f, im1, c2)
               | (Inr False, c2) \<Rightarrow> (Inr False, im1, c2)
               | (Inr True, c2) \<Rightarrow> (Inr True, im1\<lparr>position := (position im + sz + 15) AND NOT 15\<rparr>, c2)))"

definition writeTile ::
    "'z zlib \<Rightarrow> libjpeg \<Rightarrow> 'c Context \<Rightarrow> Rok4Image \<Rightarrow> int \<Rightarrow> bytes \<Rightarrow> bool \<Rightarrow> 'c \<Rightarrow>
     (fault + bool) \<times> Rok4Image \<times> 'c" where
  "writeTile Z J C im tileInd data crop c =
     (if tileInd > int (tilesNumber im) \<or> tileInd < 0 then (Inr False, im, c)
      else
        case computeTile Z J im data crop of
          Inl f \<Rightarrow> (Inl f, im, c)
        | Inr None \<Rightarrow> (Inl NegativeSize, im, c)
        | Inr (Some b) \<Rightarrow>
            if length b = 0 then (Inr False, im, c) else store_tile C im (nat tileInd) b c)"

text \<open>The file of a vector tile, as the stream sees it.\<close>

datatype pbf_file = CannotOpen | BadSize | BadRead | Content bytes

definition writePbfTile ::
    "(string \<Rightarrow> pbf_file) \<Rightarrow> 'c Context \<Rightarrow> Rok4Image \<Rightarrow> int \<Rightarrow> string \<Rightarrow> 'c \<Rightarrow>
     (fault + bool) \<times> Rok4Image \<times> 'c" where
  "writePbfTile F C im tileInd pbfpath c =
     (if tileInd > int (tilesNumber im) \<or> tileInd < 0 then (Inr False, im, c)
      else
        case F pbfpath of
          CannotOpen \<Rightarrow> store_tile C im (nat tileInd) [] c
        | BadSize \<Rightarrow> (Inr False, im, c)
        | BadRead \<Rightarrow> (Inr False, im, c)
        | Content d \<Rightarrow> if length d = 0 then (Inr False, im, c) else store_tile C im (nat tileInd) d c)"

definition writeFinal :: "'c Context \<Rightarrow> Rok4Image \<Rightarrow> 'c \<Rightarrow> (fault + bool) \<times> 'c" where
  "writeFinal C im c =
     (let c1 = snd (write_at C (put32s (tilesOffset im)) ROK4_IMAGE_HEADER_SIZE (slab_name im) c);
          c2 = snd (write_at C (put32s (tilesByteCounts im))
                      (ROK4_IMAGE_HEADER_SIZE + 4 * tilesNumber im) (slab_name im) c1)
      in closeToWrite C (slab_name im) c2)"

subsection \<open>writeImage\<close>

text \<open>
  The bytes of a sample, for the three sample types \<open>writeImage\<close> has a branch for; with any
  other type no tile is written.
\<close>

definition sample_bytes :: "Rok4Image \<Rightarrow> nat option" where
  "sample_bytes im =
     (if bitspersample im = 8 \<and> sampleformat im = SampleFormat_UINT then Some 1
      else if bitspersample im = 16 \<and> sampleformat im = SampleFormat_UINT then Some 2
      else if bitspersample im = 32 \<and> sampleformat im = SampleFormat_FLOAT then Some 4
      else None)"

text \<open>
  The lines of a row of tiles: \<open>getl\<close> is \<open>getline\<close> of the source image in the sample type of the
  slab, \<open>None\<close> for the result 0; each line has its place in the buffer.
\<close>

fun read_lines :: "(nat \<Rightarrow> bytes option) \<Rightarrow> nat \<Rightarrow> nat \<Rightarrow> nat \<Rightarrow> fault + bytes option" where
  "read_lines getl lineSize first 0 = Inr (Some [])"
| "read_lines getl lineSize first (Suc n) =
     (case getl first of
        None \<Rightarrow> Inr None
      | Some l \<Rightarrow>
          if length l > lineSize then Inl BufferOverflow
          else if length l < lineSize then Inl Uninitialised
          else bindR (read_lines getl lineSize (Suc first) n) (\<lambda>r.
                 Inr (case r of None \<Rightarrow> None | Some ls \<Rightarrow> Some (l @ ls))))"

definition tile_of :: "Rok4Image \<Rightarrow> nat \<Rightarrow> bytes \<Rightarrow> nat \<Rightarrow> bytes" where
  "tile_of im k lines x =
     (let imageLineSize = width im * channels im; tileLineSize = tileWidth im * channels im in
      concat (map (\<lambda>lig. window ((lig * imageLineSize + x * tileLineSize) * k) (rawTileLineSize im) lines)
                [0..<tileHeight im]))"

fun write_tiles ::
    "'z zlib \<Rightarrow> libjpeg \<Rightarrow> 'c Context \<Rightarrow> bool \<Rightarrow> nat \<Rightarrow> bytes \<Rightarrow> nat \<Rightarrow> nat list \<Rightarrow> Rok4Image \<Rightarrow> 'c \<Rightarrow>
     (fault + bool) \<times> Rok4Image \<times> 'c" where
  "write_tiles Z J C crop k lines y [] im c = (Inr True, im, c)"
| "write_tiles Z J C crop k lines y (x # xs) im c =
     (case writeTile Z J C im (int (y * tileWidthwise im + x)) (tile_of im k lines x) crop c of
        (Inr True, im', c') \<Rightarrow> write_tiles Z J C crop k lines y xs im' c'
      | r \<Rightarrow> r)"

fun write_rows ::
    "'z zlib \<Rightarrow> libjpeg \<Rightarrow> 'c Context \<Rightarrow> bool \<Rightarrow> nat \<Rightarrow> (nat \<Rightarrow> bytes option) \<Rightarrow> nat list \<Rightarrow> Rok4Image \<Rightarrow>
     'c \<Rightarrow> (fault + bool) \<times> Rok4Image \<times> 'c" where
  "write_rows Z J C crop k getl [] im c = (Inr True, im, c)"
| "write_rows Z J C crop k getl (y # ys) im c =
     (case read_lines getl (width im * channels im * k) (y * tileHeight im) (tileHeight im) of
        Inl f \<Rightarrow> (Inl f, im, c)
      | Inr None \<Rightarrow> (Inr False, im, c)
      | Inr (Some lines) \<Rightarrow>
          (case write_tiles Z J C crop k lines y [0..<tileWidthwise im] im c of
             (Inr True, im', c') \<Rightarrow> write_rows Z J C crop k getl ys im' c'
           | r \<Rightarrow> r))"

definition writeImage ::
    "'a tiff_tags_scheme \<Rightarrow> 'z zlib \<Rightarrow> libjpeg \<Rightarrow> 'c Context \<Rightarrow> Rok4Image \<Rightarrow> (nat \<Rightarrow> bytes option) \<Rightarrow> bool \<Rightarrow>
     'c \<Rightarrow> (fault + bool) \<times> Rok4Image \<times> 'c" where
  "writeImage T Z J C im getl crop c =
     (if isVector im then (Inr False, im, c)
      else
        let crop' = (crop \<and> compression im = Compression_JPEG) in
        case writeHeader T C im c of
          (False, c1) \<Rightarrow> (Inr False, im, c1)
        | (True, c1) \<Rightarrow>
            let im1 = prepareBuffers im in
            (case (case sample_bytes im1 of
                     None \<Rightarrow> (Inr True, im1, c1)
                   | Some k \<Rightarrow> write_rows Z J C crop' k getl [0..<tileHeightwise im1] im1 c1) of
               (Inr True, im2, c2) \<Rightarrow>
                 (case writeFinal C im2 c2 of (r, c3) \<Rightarrow> (r, im2, c3))
             | r \<Rightarrow> r))"

subsection \<open>writePbfTiles\<close>

fun write_pbfs ::
    "(string \<Rightarrow> pbf_file) \<Rightarrow> 'c Context \<Rightarrow> string \<Rightarrow> int \<Rightarrow> int \<Rightarrow> (nat \<times> nat) list \<Rightarrow> Rok4Image \<Rightarrow> 'c \<Rightarrow>
     (fault + bool) \<times> Rok4Image \<times> 'c" where
  "write_pbfs F C root ulCol ulRow [] im c = (Inr True, im, c)"
| "write_pbfs F C root ulCol ulRow ((row, col) # rest) im c =
     (case sprintf_to 512 (root @ ''/'' @ show_int (ulCol + int col) @ ''/''
             @ show_int (ulRow + int row) @ ''.pbf'') of
        Inl f \<Rightarrow> (Inl f, im, c)
      | Inr pbfpath \<Rightarrow>
          (case writePbfTile F C im (int (row * tileWidthwise im + col)) pbfpath c of
             (Inr True, im', c') \<Rightarrow> write_pbfs F C root ulCol ulRow rest im' c'
           | r \<Rightarrow> r))"

definition writePbfTiles ::
    "'a tiff_tags_scheme \<Rightarrow> (string \<Rightarrow> pbf_file) \<Rightarrow> 'c Context \<Rightarrow> Rok4Image \<Rightarrow> int \<Rightarrow> int \<Rightarrow> string \<Rightarrow> 'c \<Rightarrow>
     (fault + bool) \<times> Rok4Image \<times> 'c" where
  "writePbfTiles T F C im ulTileCol ulTileRow rootDirectory c =
     (if \<not> isVector im then (Inr False, im, c)
      else
        case writeHeader T C im c of
          (False, c1) \<Rightarrow> (Inr False, im, c1)
        | (True, c1) \<Rightarrow>
            (case write_pbfs F C rootDirectory ulTileCol ulTileRow
                    [(row, col). row \<leftarrow> [0..<tileHeightwise im], col \<leftarrow> [0..<tileWidthwise im]]
                    (prepareBuffers im) c1 of
               (Inr True, im2, c2) \<Rightarrow> (case writeFinal C im2 c2 of (r, c3) \<Rightarrow> (r, im2, c3))
             | r \<Rightarrow> r))"

end
