(* ===== verification/SlabStored.thy ===== *)
theory SlabStored
  imports SlabWrite
begin

text \<open>
  What a written slab holds, over any storage that keeps its promises: the header, the index and
  the tiles at the places the index gives, none overlapping another.
\<close>

subsection \<open>The content while it is written\<close>

definition data_start :: "Rok4Image \<Rightarrow> nat" where
  "data_start im = ROK4_IMAGE_HEADER_SIZE + 8 * tilesNumber im"

text \<open>The place the tiles can take, padding included.\<close>

definition room_for :: "bytes list \<Rightarrow> nat" where
  "room_for ts = sum_list (map (\<lambda>t. length t + 15) ts)"

definition header_in :: "'a tiff_tags_scheme \<Rightarrow> Rok4Image \<Rightarrow> bytes \<Rightarrow> bool" where
  "header_in T im b \<longleftrightarrow> ROK4_IMAGE_HEADER_SIZE \<le> length b
     \<and> window 0 134 b = take 134 (header_bytes T im)
     \<and> window 138 (ROK4_IMAGE_HEADER_SIZE - 138) b = drop 138 (header_bytes T im)"

text \<open>Tile \<open>t\<close> is at \<open>off\<close>, behind \<open>lo\<close> and in front of \<open>hi\<close>.\<close>

definition tile_in :: "nat \<Rightarrow> nat \<Rightarrow> bytes \<Rightarrow> u32 \<Rightarrow> u32 \<Rightarrow> bytes \<Rightarrow> bool" where
  "tile_in lo hi b off sz t \<longleftrightarrow> lo \<le> unat off \<and> unat off + length t \<le> hi \<and> unat off + length t \<le> length b
     \<and> window (unat off) (length t) b = t \<and> sz = word_of_nat (length t)"

text \<open>The invariant: tiles \<open>ts\<close> have been written, in this order, to the slab of image \<open>im\<close>.\<close>

definition slab_fields ::
    "'a tiff_tags_scheme \<Rightarrow> Rok4Image \<Rightarrow> bytes list \<Rightarrow> u32 list \<Rightarrow> u32 list \<Rightarrow> nat \<Rightarrow> bytes \<Rightarrow> bool" where
  "slab_fields T im ts os ss p b \<longleftrightarrow>
     length os = tilesNumber im \<and> length ss = tilesNumber im \<and> length ts \<le> tilesNumber im
     \<and> header_in T im b \<and> data_start im \<le> p \<and> p \<le> data_start im + room_for ts \<and> length b \<le> p
     \<and> (ts \<noteq> [] \<longrightarrow> p mod 16 = 0)
     \<and> (\<forall>i < length ts. tile_in (data_start im) p b (os ! i) (ss ! i) (ts ! i)
          \<and> (0 < i \<longrightarrow> unat (os ! i) mod 16 = 0))
     \<and> (\<forall>i j. i < j \<and> j < length ts \<longrightarrow> unat (os ! i) + length (ts ! i) \<le> unat (os ! j))"

definition slab_inv :: "'a tiff_tags_scheme \<Rightarrow> Rok4Image \<Rightarrow> bytes list \<Rightarrow> Rok4Image \<Rightarrow> bytes \<Rightarrow> bool" where
  "slab_inv T im ts im' b \<longleftrightarrow>
     (\<exists>os ss p. im' = (prepareBuffers im)\<lparr>tilesOffset := os, tilesByteCounts := ss, position := p\<rparr>
       \<and> slab_fields T im ts os ss (unat p) b)"

lemma header_in_splice:
  assumes "header_in T im b" "ROK4_IMAGE_HEADER_SIZE \<le> off \<or> off = 134 \<and> length d = 4"
  shows "header_in T im (splice b off d)"
proof -
  have "window 0 134 (splice b off d) = window 0 134 b"
    using assms by (intro window_splice_other) (auto simp: header_in_def ROK4_IMAGE_HEADER_SIZE_def)
  moreover have "window 138 (ROK4_IMAGE_HEADER_SIZE - 138) (splice b off d) =
      window 138 (ROK4_IMAGE_HEADER_SIZE - 138) b"
    using assms by (intro window_splice_other) (auto simp: header_in_def ROK4_IMAGE_HEADER_SIZE_def)
  ultimately show ?thesis using assms(1) by (simp add: header_in_def le_max_iff_disj)
qed

lemma tile_in_splice:
  assumes "tile_in lo hi b off sz t" "hi \<le> hi'" "hi \<le> p \<or> p + length d \<le> lo"
  shows "tile_in lo hi' (splice b p d) off sz t"
proof -
  have "window (unat off) (length t) (splice b p d) = window (unat off) (length t) b"
    using assms(1,3) by (intro window_splice_other) (auto simp: tile_in_def)
  with assms(1,2) show ?thesis by (auto simp: tile_in_def)
qed

lemma tile_in_written:
  "lo \<le> unat off \<Longrightarrow> unat off + length t \<le> hi \<Longrightarrow>
     tile_in lo hi (splice b (unat off) t) off (word_of_nat (length t)) t"
  by (simp add: tile_in_def window_splice_same)

lemma header_in_same: "header_in T im b \<Longrightarrow> same_header (window 0 ROK4_IMAGE_HEADER_SIZE b) (header_bytes T im)"
  by (simp add: header_in_def same_header_def window_def ROK4_IMAGE_HEADER_SIZE_def drop_take min_def)

text \<open>A tile more.\<close>

lemma slab_fields_tile:
  assumes i: "slab_fields T im ts os ss (unat p) b" and n: "length ts < tilesNumber im"
    and small: "data_start im + room_for (ts @ [t]) < 2 ^ 31"
    and b1: "b1 = b \<or> (\<exists>d. b1 = splice b 134 d \<and> length d = 4)"
  shows "slab_fields T im (ts @ [t]) (os[length ts := p]) (ss[length ts := word_of_nat (length t)])
    (unat ((p + word_of_nat (length t) + 15) AND NOT 15)) (splice b1 (unat p) t)"
proof -
  let ?p' = "(p + word_of_nat (length t) + 15) AND NOT 15"
  have h: "header_in T im b" and lo: "data_start im \<le> unat p"
    and hi: "unat p \<le> data_start im + room_for ts" and len: "length os = tilesNumber im"
    "length ss = tilesNumber im" and lb: "length b \<le> unat p"
    using i by (simp_all add: slab_fields_def)
  have tile: "tile_in (data_start im) (unat p) b (os ! k) (ss ! k) (ts ! k)" if "k < length ts" for k
    using i that by (simp add: slab_fields_def)
  have mod: "unat (os ! k) mod 16 = 0" if "k < length ts" "0 < k" for k
    using i that by (simp add: slab_fields_def)
  have mod_p: "0 < length ts \<Longrightarrow> unat p mod 16 = 0"
    using i by (simp add: slab_fields_def)
  have order: "unat (os ! k) + length (ts ! k) \<le> unat (os ! j)" if "k < j" "j < length ts" for k j
    using i that by (simp add: slab_fields_def)
  have "unat p + length t + 15 < 2 ^ 32" using hi small by (simp add: room_for_def)
  note r = round_up_16 [OF this]
  have ds: "ROK4_IMAGE_HEADER_SIZE \<le> data_start im" by (simp add: data_start_def)
  have h1: "header_in T im b1" using b1 h header_in_splice [of T im b 134] by auto
  have t1: "tile_in (data_start im) (unat p) b1 (os ! k) (ss ! k) (ts ! k)" if "k < length ts" for k
  proof -
    have "134 + 4 \<le> data_start im" using ds by (simp add: ROK4_IMAGE_HEADER_SIZE_def)
    with b1 tile [OF that] tile_in_splice [OF tile [OF that] order.refl, of 134] show ?thesis by auto
  qed
  have new: "tile_in (data_start im) (unat ?p') (splice b1 (unat p) t) p (word_of_nat (length t)) t"
    using tile_in_written [OF lo r(2)] .
  have old: "tile_in (data_start im) (unat ?p') (splice b1 (unat p) t) (os ! k) (ss ! k) (ts ! k)"
    if "k < length ts" for k
    using tile_in_splice [OF t1 [OF that], of "unat ?p'" "unat p" t] r(2) by simp
  have below: "unat (os ! k) + length (ts ! k) \<le> unat p" if "k < length ts" for k
    using tile [OF that] by (simp add: tile_in_def)
  have tiles: "\<forall>k<length (ts @ [t]). tile_in (data_start im) (unat ?p') (splice b1 (unat p) t)
        (os[length ts := p] ! k) (ss[length ts := word_of_nat (length t)] ! k) ((ts @ [t]) ! k)
        \<and> (0 < k \<longrightarrow> unat (os[length ts := p] ! k) mod 16 = 0)"
  proof (intro allI impI)
    fix k assume "k < length (ts @ [t])"
    then consider "k < length ts" | "k = length ts" by fastforce
    then show "tile_in (data_start im) (unat ?p') (splice b1 (unat p) t)
        (os[length ts := p] ! k) (ss[length ts := word_of_nat (length t)] ! k) ((ts @ [t]) ! k)
        \<and> (0 < k \<longrightarrow> unat (os[length ts := p] ! k) mod 16 = 0)"
      by cases (use old new mod mod_p n len in \<open>simp_all add: nth_append\<close>)
  qed
  have ordered: "\<forall>k j. k < j \<and> j < length (ts @ [t]) \<longrightarrow>
        unat (os[length ts := p] ! k) + length ((ts @ [t]) ! k) \<le> unat (os[length ts := p] ! j)"
  proof (intro allI impI)
    fix k j assume a: "k < j \<and> j < length (ts @ [t])"
    then consider "j < length ts" | "j = length ts" by fastforce
    then show "unat (os[length ts := p] ! k) + length ((ts @ [t]) ! k) \<le> unat (os[length ts := p] ! j)"
      by cases (use a order below n len in \<open>simp_all add: nth_append\<close>)
  qed
  have "header_in T im (splice b1 (unat p) t)"
    using header_in_splice [OF h1, of "unat p" t] lo ds by simp
  moreover have "length b1 \<le> unat p" using b1 lb h by (auto simp: header_in_def ROK4_IMAGE_HEADER_SIZE_def)
  ultimately show ?thesis
    using tiles ordered r n len lo hi unfolding slab_fields_def by (simp add: room_for_def)
qed

lemma slab_inv_tile:
  assumes "slab_inv T im ts im' b" "length ts < tilesNumber im"
    "data_start im + room_for (ts @ [t]) < 2 ^ 31" "b1 = b \<or> (\<exists>d. b1 = splice b 134 d \<and> length d = 4)"
  shows "slab_inv T im (ts @ [t])
    (im'\<lparr>tilesOffset := (tilesOffset im')[length ts := position im'],
         tilesByteCounts := (tilesByteCounts im')[length ts := word_of_nat (length t)],
         position := (position im' + word_of_nat (length t) + 15) AND NOT 15\<rparr>)
    (splice b1 (unat (position im')) t)"
proof -
  obtain os ss p where im': "im' = (prepareBuffers im)\<lparr>tilesOffset := os, tilesByteCounts := ss, position := p\<rparr>"
    and f: "slab_fields T im ts os ss (unat p) b"
    using assms(1) unfolding slab_inv_def by blast
  from slab_fields_tile [OF f assms(2-4)] show ?thesis
    unfolding slab_inv_def
    by (intro exI [of _ "os[length ts := p]"] exI [of _ "ss[length ts := word_of_nat (length t)]"]
        exI [of _ "(p + word_of_nat (length t) + 15) AND NOT 15"]) (simp add: im')
qed

text \<open>The tables play no part in the compression, nor in the shape of the tiles.\<close>

lemma computeTile_tables [simp]:
  fixes im os ss p
  defines "im' \<equiv> im\<lparr>tilesOffset := os, tilesByteCounts := ss, position := p\<rparr>"
  shows "computeTile Z J im' = computeTile Z J im" "tile_of im' = tile_of im"
proof -
  have f: "rawTileLineSize im' = rawTileLineSize im" "rawTileSize im' = rawTileSize im"
    "channels im' = channels im" "tileWidth im' = tileWidth im" "tileHeight im' = tileHeight im"
    "BufferSize im' = BufferSize im" "compression im' = compression im" "width im' = width im"
    by (simp_all add: im'_def)
  note cong = option.case_cong
  have 1: "line_of im' = line_of im" "emptyWhiteBlock im' = emptyWhiteBlock im"
    by (simp_all add: f line_of_def emptyWhiteBlock_def fun_eq_iff)
  have 2: "crop_row im' = crop_row im" by (simp add: crop_row_def f 1 fun_eq_iff)
  have 3: "computeRawTile im' = computeRawTile im" "computeLzwTile im' = computeLzwTile im"
    by (simp_all add: computeRawTile_def computeLzwTile_def fun_eq_iff f)
  have 4: "computePackbitsTile im' = computePackbitsTile im" "computeDeflateTile Z im' = computeDeflateTile Z im"
    by (simp_all add: computePackbitsTile_def computeDeflateTile_def fun_eq_iff f 1 cong: cong)
  have 5: "png_lines im' = png_lines im" "png_header Z im' = png_header Z im" "png_room im' = png_room im"
    by (simp_all add: png_lines_def png_header_def png_room_def fun_eq_iff f 1)
  have 6: "computePngTile Z im' = computePngTile Z im"
    by (simp add: computePngTile_def 5 f fun_eq_iff cong: cong)
  have 7: "crop_tile im' = crop_tile im" by (simp add: crop_tile_def f 2 fun_eq_iff)
  have 8: "computeJpegTile J im' = computeJpegTile J im"
    by (simp add: computeJpegTile_def f 7 fun_eq_iff cong: cong)
  show "computeTile Z J im' = computeTile Z J im"
    by (simp add: computeTile_def f 3 4 6 8 fun_eq_iff cong: eCompression.case_cong)
  show "tile_of im' = tile_of im" by (simp add: tile_of_def f fun_eq_iff)
qed

lemma prepareBuffers_fields [simp]:
  "tilesNumber (prepareBuffers im) = tilesNumber im" "slab_name (prepareBuffers im) = slab_name im"
  "tileWidthwise (prepareBuffers im) = tileWidthwise im"
  "tileHeightwise (prepareBuffers im) = tileHeightwise im"
  "tileHeight (prepareBuffers im) = tileHeight im" "width (prepareBuffers im) = width im"
  "channels (prepareBuffers im) = channels im" "sample_bytes (prepareBuffers im) = sample_bytes im"
  "tile_of (prepareBuffers im) = tile_of im"
  by (simp_all add: prepareBuffers_def Let_def sample_bytes_def tile_of_def fun_eq_iff)

lemma slab_inv_image:
  assumes "slab_inv T im ts im' b"
  shows "computeTile Z J im' = computeTile Z J (prepareBuffers im)" "tile_of im' = tile_of im"
    "tilesNumber im' = tilesNumber im" "slab_name im' = slab_name im"
    "tileWidthwise im' = tileWidthwise im" "tileHeightwise im' = tileHeightwise im"
    "tileHeight im' = tileHeight im" "width im' = width im" "channels im' = channels im"
    "length (tilesOffset im') = tilesNumber im" "length (tilesByteCounts im') = tilesNumber im"
    "unat (position im') \<le> data_start im + room_for ts"
  using assms by (auto simp: slab_inv_def slab_fields_def)

lemma slab_inv_start:
  assumes "data_start im < 2 ^ 32"
  shows "slab_inv T im [] (prepareBuffers im) (header_bytes T im)"
proof -
  let ?z = "replicate (tilesNumber im) 0"
  have "header_in T im (header_bytes T im)"
    by (simp add: header_in_def window_def ROK4_IMAGE_HEADER_SIZE_def)
  then have "slab_fields T im [] ?z ?z (data_start im) (header_bytes T im)"
    by (simp add: slab_fields_def room_for_def data_start_def)
  moreover have "prepareBuffers im = (prepareBuffers im)\<lparr>tilesOffset := ?z, tilesByteCounts := ?z,
      position := word_of_nat (data_start im)\<rparr>"
    by (simp add: prepareBuffers_def Let_def data_start_def)
  ultimately show ?thesis
    using assms unfolding slab_inv_def
    by (intro exI [of _ ?z] exI [of _ "word_of_nat (data_start im)"]) simp
qed

subsection \<open>The finished slab\<close>

definition slab_stored :: "'a tiff_tags_scheme \<Rightarrow> Rok4Image \<Rightarrow> bytes list \<Rightarrow> bytes \<Rightarrow> bool" where
  "slab_stored T im ts b \<longleftrightarrow> header_in T im b \<and> length ts = tilesNumber im \<and> data_start im \<le> length b
     \<and> length b \<le> data_start im + room_for ts
     \<and> (\<exists>os ss. length os = tilesNumber im \<and> length ss = tilesNumber im
         \<and> window ROK4_IMAGE_HEADER_SIZE (8 * tilesNumber im) b = put32s os @ put32s ss
         \<and> (\<forall>i < length ts. tile_in (data_start im) (length b) b (os ! i) (ss ! i) (ts ! i)
              \<and> (0 < i \<longrightarrow> unat (os ! i) mod 16 = 0))
         \<and> (\<forall>i j. i < j \<and> j < length ts \<longrightarrow> unat (os ! i) + length (ts ! i) \<le> unat (os ! j)))"

lemma slab_finish:
  assumes "slab_inv T im ts im' b" "length ts = tilesNumber im"
  shows "slab_stored T im ts
    (splice (splice b ROK4_IMAGE_HEADER_SIZE (put32s (tilesOffset im')))
       (ROK4_IMAGE_HEADER_SIZE + 4 * tilesNumber im) (put32s (tilesByteCounts im')))"
    (is "slab_stored T im ts ?b")
proof -
  let ?h = ROK4_IMAGE_HEADER_SIZE and ?n = "tilesNumber im"
  obtain os ss p where im': "im' = (prepareBuffers im)\<lparr>tilesOffset := os, tilesByteCounts := ss, position := p\<rparr>"
    and f: "slab_fields T im ts os ss (unat p) b"
    using assms(1) unfolding slab_inv_def by blast
  have l: "length os = ?n" "length ss = ?n" "header_in T im b"
    using f by (simp_all add: slab_fields_def)
  let ?b1 = "splice b ?h (put32s os)"
  have b: "?b = splice ?b1 (?h + 4 * ?n) (put32s ss)" by (simp add: im')
  have ds: "data_start im = ?h + 8 * ?n" by (simp add: data_start_def)
  have len: "data_start im \<le> length ?b" using l by (simp add: b ds le_max_iff_disj)
  have "length ?b \<le> data_start im + room_for ts"
    using f l(1,2) ds by (simp add: b slab_fields_def)
  moreover have "header_in T im ?b" unfolding b using l(3) by (intro header_in_splice) simp_all
  moreover have "window ?h (8 * ?n) ?b = put32s os @ put32s ss"
  proof (rule nth_equalityI)
    show "length (window ?h (8 * ?n) ?b) = length (put32s os @ put32s ss)"
      using len ds l by (simp add: length_window)
    fix i assume "i < length (window ?h (8 * ?n) ?b)"
    then have i: "i < 8 * ?n" using len ds by (simp add: length_window)
    then have "window ?h (8 * ?n) ?b ! i = ?b ! (?h + i)" using len ds by (simp add: nth_window)
    also have "\<dots> = (put32s os @ put32s ss) ! i" using i l by (auto simp: b nth_splice nth_append)
    finally show "window ?h (8 * ?n) ?b ! i = (put32s os @ put32s ss) ! i" .
  qed
  moreover have "tile_in (data_start im) (length ?b) ?b (os ! i) (ss ! i) (ts ! i)" if "i < length ts" for i
  proof -
    have t: "tile_in (data_start im) (unat p) b (os ! i) (ss ! i) (ts ! i)"
      using f that by (simp add: slab_fields_def)
    from tile_in_splice [OF t order.refl, of ?h "put32s os"] l ds
    have "tile_in (data_start im) (unat p) ?b1 (os ! i) (ss ! i) (ts ! i)" by simp
    from tile_in_splice [OF this order.refl, of "?h + 4 * ?n" "put32s ss"] l ds
    have "tile_in (data_start im) (unat p) ?b (os ! i) (ss ! i) (ts ! i)" by (simp add: b)
    then show ?thesis by (simp add: tile_in_def)
  qed
  ultimately show ?thesis
    using assms(2) f len l unfolding slab_stored_def slab_fields_def by blast
qed

lemma index_entries:
  assumes "length os = n" "length ss = n" "window ROK4_IMAGE_HEADER_SIZE (8 * n) b = put32s os @ put32s ss"
    "i < n"
  shows "get32 b (ROK4_IMAGE_HEADER_SIZE + 4 * i) = Inr (os ! i)
    \<and> get32 b (ROK4_IMAGE_HEADER_SIZE + 4 * n + 4 * i) = Inr (ss ! i)"
proof
  let ?h = ROK4_IMAGE_HEADER_SIZE
  have w: "take 4 (drop (?h + 4 * j) b) = take 4 (drop (4 * j) (put32s os @ put32s ss))" if "j < 2 * n" for j
    using window_window [of "4 * j" 4 "8 * n" ?h b] that assms(3) by (simp add: window_def)
  show "get32 b (?h + 4 * i) = Inr (os ! i)"
    using w [of i] assms nth_put32s [of i os] by (intro get32_put) simp
  have "get32 b (?h + 4 * (n + i)) = Inr (ss ! i)"
    using w [of "n + i"] assms nth_put32s [of i ss] by (intro get32_put) simp
  then show "get32 b (?h + 4 * n + 4 * i) = Inr (ss ! i)" by (simp add: add.assoc)
qed

lemma slab_indexed:
  assumes "slab_stored T im ts b" "i < tilesNumber im"
  shows "indexed_tile b (ROK4_IMAGE_HEADER_SIZE + 4 * i)
    (ROK4_IMAGE_HEADER_SIZE + 4 * tilesNumber im + 4 * i) (ts ! i)"
proof -
  let ?h = ROK4_IMAGE_HEADER_SIZE and ?n = "tilesNumber im"
  obtain os ss where s: "length os = ?n" "length ss = ?n"
    "window ?h (8 * ?n) b = put32s os @ put32s ss"
    "tile_in (data_start im) (length b) b (os ! i) (ss ! i) (ts ! i)"
    using assms unfolding slab_stored_def by metis
  from index_entries [OF s(1-3) assms(2)] s(4) show ?thesis
    by (auto simp: indexed_tile_def tile_in_def)
qed

subsection \<open>The operations keep the invariant\<close>

text \<open>The lines of a row of tiles of a source image.\<close>

definition row_lines :: "(nat \<Rightarrow> bytes) \<Rightarrow> nat \<Rightarrow> nat \<Rightarrow> bytes" where
  "row_lines src th y = concat (map src [y * th..<y * th + th])"

lemma read_lines_ok:
  assumes "\<And>l. first \<le> l \<Longrightarrow> l < first + n \<Longrightarrow> getl l = Some (src l) \<and> length (src l) = lineSize"
  shows "read_lines getl lineSize first n = Inr (Some (concat (map src [first..<first + n])))"
  using assms
proof (induction n arbitrary: first)
  case (Suc n)
  have "[first..<first + Suc n] = first # [Suc first..<Suc first + n]" by (simp add: upt_rec)
  with Suc.IH [of "Suc first"] Suc.prems Suc.prems [of first] show ?case by simp
qed simp

text \<open>The bytes of the tiles of a row, and of all rows up to one.\<close>

definition tiles_of_row :: "(nat \<Rightarrow> nat \<Rightarrow> bytes) \<Rightarrow> nat \<Rightarrow> nat \<Rightarrow> bytes list" where
  "tiles_of_row enc w y = map (\<lambda>x. enc x y) [0..<w]"

definition all_tiles :: "(nat \<Rightarrow> nat \<Rightarrow> bytes) \<Rightarrow> nat \<Rightarrow> nat \<Rightarrow> bytes list" where
  "all_tiles enc w h = concat (map (tiles_of_row enc w) [0..<h])"

lemma length_all_tiles [simp]: "length (all_tiles enc w h) = h * w"
  by (induction h) (simp_all add: all_tiles_def tiles_of_row_def)

lemma all_tiles_Suc: "all_tiles enc w (Suc h) = all_tiles enc w h @ tiles_of_row enc w h"
  by (simp add: all_tiles_def)

lemma nth_all_tiles: "x < w \<Longrightarrow> y < h \<Longrightarrow> all_tiles enc w h ! (y * w + x) = enc x y"
proof (induction h)
  case (Suc h)
  show ?case
  proof (cases "y < h")
    case True
    then have "y * w + x < h * w" using row_in [of y h x 1 w] Suc.prems(1) by simp
    with True Suc show ?thesis by (simp add: all_tiles_Suc nth_append)
  next
    case False
    with Suc.prems have "y = h" by simp
    with Suc.prems show ?thesis by (simp add: all_tiles_Suc nth_append tiles_of_row_def)
  qed
qed simp

lemma room_for_append: "room_for (ts @ us) = room_for ts + room_for us"
  by (simp add: room_for_def)

context storage begin

lemma store_tile_ok:
  assumes inv: "slab_inv T im ts im' b" and n: "length ts < tilesNumber im"
    and small: "data_start im + room_for (ts @ [t]) < 2 ^ 31"
    and p: "pending c (slab_name im) = Some b" "reliable c"
  shows "\<exists>im'' c'' b''. store_tile C im' (length ts) t c = (Inr True, im'', c'')
    \<and> slab_inv T im (ts @ [t]) im'' b'' \<and> pending c'' (slab_name im) = Some b'' \<and> reliable c''"
proof -
  note i = slab_inv_image [OF inv]
  obtain c1 b1 where 1: "(if tilesNumber im = 1
        then snd (write_at C (put32 (word_of_nat (length t))) 134 (slab_name im) c) else c) = c1"
    "pending c1 (slab_name im) = Some b1" "reliable c1"
    "b1 = b \<or> (\<exists>d. b1 = splice b 134 d \<and> length d = 4)"
  proof (cases "tilesNumber im = 1")
    case True
    obtain c1 where "write_at C (put32 (word_of_nat (length t))) 134 (slab_name im) c = (True, c1)"
      "pending c1 (slab_name im) = Some (splice b 134 (put32 (word_of_nat (length t))))" "reliable c1"
      using write_law [OF p] by blast
    with True show ?thesis by (intro that) auto
  next
    case False
    with p show ?thesis by (intro that) auto
  qed
  obtain c2 where 2: "write_at C t (unat (position im')) (slab_name im) c1 = (True, c2)"
    "pending c2 (slab_name im) = Some (splice b1 (unat (position im')) t)" "reliable c2"
    using write_law [OF 1(2,3)] by blast
  have "unat (position im') < 2 ^ 31" using i(12) small by (simp add: room_for_def)
  then have "store_tile C im' (length ts) t c = (Inr True,
      im'\<lparr>tilesOffset := (tilesOffset im')[length ts := position im'],
         tilesByteCounts := (tilesByteCounts im')[length ts := word_of_nat (length t)],
         position := (position im' + word_of_nat (length t) + 15) AND NOT 15\<rparr>, c2)"
    unfolding store_tile_def Let_def i(3,4) 1(1) using n i(10,11) 2(1) by (simp add: write_int_def)
  with slab_inv_tile [OF inv n small 1(4)] 2(2,3) show ?thesis by blast
qed

lemma writeTile_ok:
  assumes inv: "slab_inv T im ts im' b" and n: "length ts < tilesNumber im"
    and small: "data_start im + room_for (ts @ [t]) < 2 ^ 31"
    and p: "pending c (slab_name im) = Some b" "reliable c"
    and t: "computeTile Z J (prepareBuffers im) data crop = Inr (Some t)" "t \<noteq> []"
  shows "\<exists>im'' c'' b''. writeTile Z J C im' (int (length ts)) data crop c = (Inr True, im'', c'')
    \<and> slab_inv T im (ts @ [t]) im'' b'' \<and> pending c'' (slab_name im) = Some b'' \<and> reliable c''"
proof -
  have "writeTile Z J C im' (int (length ts)) data crop c = store_tile C im' (length ts) t c"
    using t n by (simp add: writeTile_def slab_inv_image [OF inv])
  with store_tile_ok [OF inv n small p] show ?thesis by simp
qed

lemma write_tiles_ok:
  assumes "slab_inv T im ts im' b" "\<And>j. j < length xs \<Longrightarrow> y * tileWidthwise im + xs ! j = length ts + j"
    "length ts + length xs \<le> tilesNumber im"
    "data_start im + room_for (ts @ map enc xs) < 2 ^ 31"
    "pending c (slab_name im) = Some b" "reliable c"
    "\<And>x. x \<in> set xs \<Longrightarrow> computeTile Z J (prepareBuffers im) (tile_of im k lines x) crop = Inr (Some (enc x))
       \<and> enc x \<noteq> []"
  shows "\<exists>im'' c'' b''. write_tiles Z J C crop k lines y xs im' c = (Inr True, im'', c'')
    \<and> slab_inv T im (ts @ map enc xs) im'' b'' \<and> pending c'' (slab_name im) = Some b'' \<and> reliable c''"
  using assms
proof (induction xs arbitrary: ts im' b c)
  case Nil
  then show ?case by auto
next
  case (Cons x xs)
  have "length ts < tilesNumber im" "data_start im + room_for (ts @ [enc x]) < 2 ^ 31"
    using Cons.prems(3,4) by (simp_all add: room_for_def)
  from writeTile_ok [OF Cons.prems(1) this Cons.prems(5,6), of Z J "tile_of im k lines x" crop]
    Cons.prems(7) [of x]
  obtain im1 c1 b1 where 1: "writeTile Z J C im' (int (length ts)) (tile_of im k lines x) crop c = (Inr True, im1, c1)"
    "slab_inv T im (ts @ [enc x]) im1 b1" "pending c1 (slab_name im) = Some b1" "reliable c1" by auto
  have idx: "y * tileWidthwise im + xs ! j = length (ts @ [enc x]) + j" if "j < length xs" for j
    using Cons.prems(2) [of "Suc j"] that by simp
  have first: "y * tileWidthwise im + x = length ts" using Cons.prems(2) [of 0] by simp
  have "length (ts @ [enc x]) + length xs \<le> tilesNumber im"
    "data_start im + room_for ((ts @ [enc x]) @ map enc xs) < 2 ^ 31"
    using Cons.prems(3,4) by simp_all
  from Cons.IH [OF 1(2) idx this 1(3,4)] Cons.prems(7) obtain im2 c2 b2 where
    2: "write_tiles Z J C crop k lines y xs im1 c1 = (Inr True, im2, c2)"
    "slab_inv T im (ts @ map enc (x # xs)) im2 b2" "pending c2 (slab_name im) = Some b2" "reliable c2"
    by auto
  note i = slab_inv_image [OF Cons.prems(1)]
  have "y * tileWidthwise im' + x = length ts" using first i(5) by simp
  then have "write_tiles Z J C crop k lines y (x # xs) im' c = (Inr True, im2, c2)"
    using 1(1) 2(1) i(2) by simp
  with 2(2-4) show ?case by blast
qed

lemma write_rows_ok:
  assumes "slab_inv T im (all_tiles enc (tileWidthwise im) y) im' b"
    "tilesNumber im = tileHeightwise im * tileWidthwise im" "y + n = tileHeightwise im"
    "data_start im + room_for (all_tiles enc (tileWidthwise im) (tileHeightwise im)) < 2 ^ 31"
    "pending c (slab_name im) = Some b" "reliable c"
    "\<And>l. l < tileHeightwise im * tileHeight im \<Longrightarrow>
       getl l = Some (src l) \<and> length (src l) = width im * channels im * k"
    "\<And>x y. x < tileWidthwise im \<Longrightarrow> y < tileHeightwise im \<Longrightarrow>
       computeTile Z J (prepareBuffers im) (tile_of im k (row_lines src (tileHeight im) y) x) crop
         = Inr (Some (enc x y)) \<and> enc x y \<noteq> []"
  shows "\<exists>im'' c'' b''. write_rows Z J C crop k getl [y..<tileHeightwise im] im' c = (Inr True, im'', c'')
    \<and> slab_inv T im (all_tiles enc (tileWidthwise im) (tileHeightwise im)) im'' b''
    \<and> pending c'' (slab_name im) = Some b'' \<and> reliable c''"
  using assms(1,3,5,6)
proof (induction n arbitrary: y im' b c)
  case 0
  then show ?case by auto
next
  case (Suc n)
  let ?w = "tileWidthwise im" and ?h = "tileHeightwise im" and ?th = "tileHeight im"
  have y: "y < ?h" using Suc.prems(2) by simp
  then have "Suc y * ?w \<le> ?h * ?w" "Suc y * ?th \<le> ?h * ?th" by (intro mult_le_mono1, simp)+
  then have le: "y * ?w + ?w \<le> tilesNumber im" "y * ?th + ?th \<le> ?h * ?th" using assms(2) by simp_all
  have up: "[y..<?h] = y # [Suc y..<?h]" using y by (simp add: upt_rec)
  have lines: "read_lines getl (width im * channels im * k) (y * ?th) ?th =
      Inr (Some (row_lines src ?th y))"
    unfolding row_lines_def using assms(7) le(2) by (intro read_lines_ok) simp
  have "room_for (all_tiles enc ?w y @ map (\<lambda>x. enc x y) [0..<?w]) \<le> room_for (all_tiles enc ?w ?h)"
  proof -
    have "[0..<?h] = [0..<y] @ y # [Suc y..<?h]"
      using upt_add_eq_append [of 0 y "?h - y"] y up by simp
    then have "all_tiles enc ?w ?h = all_tiles enc ?w y @ map (\<lambda>x. enc x y) [0..<?w]
        @ concat (map (tiles_of_row enc ?w) [Suc y..<?h])"
      by (simp add: all_tiles_def tiles_of_row_def)
    then show ?thesis by (simp add: room_for_append)
  qed
  with assms(4) have small: "data_start im + room_for (all_tiles enc ?w y @ map (\<lambda>x. enc x y) [0..<?w]) < 2 ^ 31"
    by simp
  obtain im1 c1 b1 where 1: "write_tiles Z J C crop k (row_lines src ?th y) y [0..<?w] im' c = (Inr True, im1, c1)"
    "slab_inv T im (all_tiles enc ?w (Suc y)) im1 b1" "pending c1 (slab_name im) = Some b1" "reliable c1"
    using write_tiles_ok [OF Suc.prems(1), of "[0..<?w]" y "\<lambda>x. enc x y" c Z J k "row_lines src ?th y" crop]
      Suc.prems(3,4) le(1) small assms(8) y by (auto simp: all_tiles_Suc tiles_of_row_def)
  from Suc.IH [OF 1(2) _ 1(3,4)] Suc.prems(2) obtain im2 c2 b2 where
    2: "write_rows Z J C crop k getl [Suc y..<?h] im1 c1 = (Inr True, im2, c2)"
    "slab_inv T im (all_tiles enc ?w ?h) im2 b2" "pending c2 (slab_name im) = Some b2" "reliable c2" by auto
  have "write_rows Z J C crop k getl [y..<?h] im' c = (Inr True, im2, c2)"
    using lines 1(1) 2(1) slab_inv_image [OF Suc.prems(1)] by (simp add: up)
  with 2(2-4) show ?case by blast
qed

end


context storage begin

lemma writeHeader_ok:
  assumes "can_open (slab_name im) c" "reliable c"
  shows "\<exists>c'. writeHeader T C im c = (True, c') \<and> reliable c'
    \<and> pending c' (slab_name im) = Some (header_bytes T im)"
proof -
  obtain c1 where 1: "openToWrite C (slab_name im) c = (True, c1)" "pending c1 (slab_name im) = Some []"
    "reliable c1" using open_law [OF assms] by blast
  obtain c2 where 2: "write_at C (header_bytes T im) 0 (slab_name im) c1 = (True, c2)"
    "pending c2 (slab_name im) = Some (splice [] 0 (header_bytes T im))" "reliable c2"
    using write_law [OF 1(2,3)] by blast
  have "splice [] 0 d = d" for d by (simp add: splice_def)
  with 1 2 show ?thesis by (simp add: writeHeader_def)
qed

lemma writeFinal_ok:
  assumes "slab_inv T im ts im' b" "length ts = tilesNumber im"
    "pending c (slab_name im) = Some b" "reliable c"
  shows "\<exists>c' b'. writeFinal C im' c = (Inr True, c') \<and> reliable c' \<and> stored c' (slab_name im) = Some b'
    \<and> slab_stored T im ts b'"
proof -
  note i = slab_inv_image [OF assms(1)]
  obtain c1 where 1: "write_at C (put32s (tilesOffset im')) ROK4_IMAGE_HEADER_SIZE (slab_name im) c = (True, c1)"
    "pending c1 (slab_name im) = Some (splice b ROK4_IMAGE_HEADER_SIZE (put32s (tilesOffset im')))" "reliable c1"
    using write_law [OF assms(3,4)] by blast
  obtain c2 where 2: "write_at C (put32s (tilesByteCounts im'))
       (ROK4_IMAGE_HEADER_SIZE + 4 * tilesNumber im) (slab_name im) c1 = (True, c2)"
    "pending c2 (slab_name im) = Some (splice (splice b ROK4_IMAGE_HEADER_SIZE (put32s (tilesOffset im')))
       (ROK4_IMAGE_HEADER_SIZE + 4 * tilesNumber im) (put32s (tilesByteCounts im')))" "reliable c2"
    using write_law [OF 1(2,3)] by blast
  obtain c3 where 3: "closeToWrite C (slab_name im) c2 = (Inr True, c3)" "reliable c3"
    "stored c3 (slab_name im) = Some (splice (splice b ROK4_IMAGE_HEADER_SIZE (put32s (tilesOffset im')))
       (ROK4_IMAGE_HEADER_SIZE + 4 * tilesNumber im) (put32s (tilesByteCounts im')))"
    using close_law [OF 2(2,3)] by blast
  have "writeFinal C im' c = (Inr True, c3)"
    using 1(1) 2(1) 3(1) by (simp add: writeFinal_def i)
  with 3(2,3) slab_finish [OF assms(1,2)] show ?thesis by blast
qed

lemma writeImage_ok:
  assumes "\<not> isVector im" "sample_bytes im = Some k" "can_open (slab_name im) c" "reliable c"
    "tilesNumber im = tileHeightwise im * tileWidthwise im"
    "data_start im + room_for (all_tiles enc (tileWidthwise im) (tileHeightwise im)) < 2 ^ 31"
    "\<And>l. l < tileHeightwise im * tileHeight im \<Longrightarrow>
       getl l = Some (src l) \<and> length (src l) = width im * channels im * k"
    "\<And>x y. x < tileWidthwise im \<Longrightarrow> y < tileHeightwise im \<Longrightarrow>
       computeTile Z J (prepareBuffers im) (tile_of im k (row_lines src (tileHeight im) y) x)
         (crop \<and> compression im = Compression_JPEG) = Inr (Some (enc x y)) \<and> enc x y \<noteq> []"
  shows "\<exists>im' c' b. writeImage T Z J C im getl crop c = (Inr True, im', c') \<and> reliable c'
    \<and> stored c' (slab_name im) = Some b
    \<and> slab_stored T im (all_tiles enc (tileWidthwise im) (tileHeightwise im)) b"
proof -
  obtain c1 where 1: "writeHeader T C im c = (True, c1)" "reliable c1"
    "pending c1 (slab_name im) = Some (header_bytes T im)" using writeHeader_ok [OF assms(3,4)] by blast
  have "slab_inv T im (all_tiles enc (tileWidthwise im) 0) (prepareBuffers im) (header_bytes T im)"
    using slab_inv_start [of im T] assms(6) by (simp add: all_tiles_def)
  from write_rows_ok [OF this assms(5) _ assms(6) 1(3,2) assms(7,8)] obtain im2 c2 b2 where
    2: "write_rows Z J C (crop \<and> compression im = Compression_JPEG) k getl [0..<tileHeightwise im]
        (prepareBuffers im) c1 = (Inr True, im2, c2)"
    "slab_inv T im (all_tiles enc (tileWidthwise im) (tileHeightwise im)) im2 b2"
    "pending c2 (slab_name im) = Some b2" "reliable c2" by auto
  from writeFinal_ok [OF 2(2) _ 2(3,4)] assms(5) obtain c3 b where
    3: "writeFinal C im2 c2 = (Inr True, c3)" "reliable c3" "stored c3 (slab_name im) = Some b"
    "slab_stored T im (all_tiles enc (tileWidthwise im) (tileHeightwise im)) b" by auto
  have "writeImage T Z J C im getl crop c = (Inr True, im2, c3)"
    using assms(1,2) 1(1) 2(1) 3(1) by (simp add: writeImage_def Let_def)
  with 3 show ?thesis by blast
qed

text \<open>Every tile of a stored slab is served through its index.\<close>

lemma stored_tile:
  assumes "reliable c" "stored c n = Some b" "slab_stored T im ts b" "i < tilesNumber im"
    "ts ! i \<noteq> []" "length (ts ! i) \<le> MAX_TILE_SIZE"
  shows "\<exists>s c'. getData C (store_indexed n (ROK4_IMAGE_HEADER_SIZE + 4 * i)
       (ROK4_IMAGE_HEADER_SIZE + 4 * tilesNumber im + 4 * i) (data_start im) t e) c
     = (Inr (Some (ts ! i)), s, c') \<and> reliable c' \<and> stored c' n = Some b"
proof -
  have "data_start im \<le> length b" using assms(3) by (simp add: slab_stored_def)
  moreover have "ROK4_IMAGE_HEADER_SIZE \<le> data_start im"
    "ROK4_IMAGE_HEADER_SIZE + 4 * i + 4 \<le> data_start im"
    "ROK4_IMAGE_HEADER_SIZE + 4 * tilesNumber im + 4 * i + 4 \<le> data_start im"
    using assms(4) by (simp_all add: data_start_def)
  ultimately show ?thesis
    using getData_tile [OF assms(1,2) _ _ _ _ slab_indexed [OF assms(3,4)] _ assms(6)] assms(5) by blast
qed

end

subsection \<open>Properties\<close>

text \<open>
  C2: A raster slab written to any storage can be served tile by tile: after \<open>writeImage\<close>, the
  data source with the index places of tile (x, y), as the server computes them, gives exactly the
  compressed tile (x, y), for every tile. (Of the storage: that it keeps its promises; the slab has
  to end below 2 GB.)
\<close>

theorem written_tiles_served:
  assumes "storage C pending stored can_open reliable" "reliable c" "can_open (slab_name im) c"
    "\<not> isVector im" "sample_bytes im = Some k" "tilesNumber im = tileHeightwise im * tileWidthwise im"
    "\<And>l. l < tileHeightwise im * tileHeight im \<Longrightarrow>
       getl l = Some (src l) \<and> length (src l) = width im * channels im * k"
    "\<And>x y. x < tileWidthwise im \<Longrightarrow> y < tileHeightwise im \<Longrightarrow>
       computeTile Z J (prepareBuffers im) (tile_of im k (row_lines src (tileHeight im) y) x)
         (crop \<and> compression im = Compression_JPEG) = Inr (Some (enc x y))
       \<and> enc x y \<noteq> [] \<and> length (enc x y) \<le> MAX_TILE_SIZE"
    "data_start im + room_for (all_tiles enc (tileWidthwise im) (tileHeightwise im)) < 2 ^ 31"
  shows "\<exists>im' c'. writeImage T Z J C im getl crop c = (Inr True, im', c') \<and>
    (\<forall>x < tileWidthwise im. \<forall>y < tileHeightwise im. let i = y * tileWidthwise im + x in
       \<exists>s c''. getData C (store_indexed (slab_name im) (ROK4_IMAGE_HEADER_SIZE + 4 * i)
            (ROK4_IMAGE_HEADER_SIZE + 4 * tilesNumber im + 4 * i) (data_start im) t e) c'
          = (Inr (Some (enc x y)), s, c''))"
proof -
  let ?w = "tileWidthwise im" and ?h = "tileHeightwise im"
  have enc: "computeTile Z J (prepareBuffers im) (tile_of im k (row_lines src (tileHeight im) y) x)
       (crop \<and> compression im = Compression_JPEG) = Inr (Some (enc x y)) \<and> enc x y \<noteq> []"
    if "x < ?w" "y < ?h" for x y using assms(8) [OF that] by simp
  obtain im' c' b where w: "writeImage T Z J C im getl crop c = (Inr True, im', c')" "reliable c'"
    "stored c' (slab_name im) = Some b" "slab_stored T im (all_tiles enc ?w ?h) b"
    using storage.writeImage_ok [OF assms(1,4,5,3,2,6,9,7) enc] by blast
  have "\<exists>s c''. getData C (store_indexed (slab_name im) (ROK4_IMAGE_HEADER_SIZE + 4 * (y * ?w + x))
        (ROK4_IMAGE_HEADER_SIZE + 4 * tilesNumber im + 4 * (y * ?w + x)) (data_start im) t e) c'
      = (Inr (Some (enc x y)), s, c'')" if xy: "x < ?w" "y < ?h" for x y
  proof -
    have "y * ?w + x < tilesNumber im" using row_in [of y ?h x 1 ?w] xy assms(6) by simp
    with storage.stored_tile [OF assms(1) w(2-4)] assms(8) [OF xy] nth_all_tiles [OF xy, of enc]
    show ?thesis by metis
  qed
  with w(1) show ?thesis unfolding Let_def by blast
qed


text \<open>An image of two tiles of one pixel, and an empty directory to write it to.\<close>

definition two_tiles :: Rok4Image where
  "two_tiles = projr (Rok4Image_new 2 1 1 ''/s'' SampleFormat_UINT 8 Photometric_GRAY Compression_NONE
     ALPHA_UNASSOC 1 1)"

definition empty_directory :: FileContext where
  "empty_directory = \<lparr>root_dir = ''/r'', fconnected = True, files = (\<lambda>_. None),
     can_create = (\<lambda>_. True), out_file = None, out_pos = 0, out_fail = False\<rparr>"

lemma two_tiles_fields:
  "\<not> isVector two_tiles" "sample_bytes two_tiles = Some 1" "tilesNumber two_tiles = 2"
  "tileHeightwise two_tiles = 1" "tileWidthwise two_tiles = 2" "tileHeight two_tiles = 1"
  "width two_tiles = 2" "channels two_tiles = 1" "compression two_tiles = Compression_NONE"
  "slab_name two_tiles = ''/s''" "data_start two_tiles = 2064"
  by (simp_all add: two_tiles_def Rok4Image_new_def Let_def sample_bytes_def data_start_def
      ROK4_IMAGE_HEADER_SIZE_def)

lemma two_tiles_tile:
  "x < 2 \<Longrightarrow> tile_of two_tiles (Suc 0) [7, 9] x = [[7, 9] ! x]"
  by (simp add: tile_of_def two_tiles_def Rok4Image_new_def Let_def window_def take_Suc_conv_app_nth)

lemma two_tiles_encoded:
  assumes "x < 2"
  shows "computeTile Z J (prepareBuffers two_tiles) (tile_of two_tiles (Suc 0) [7, 9] x) crop
    = Inr (Some [[7, 9] ! x])"
  unfolding two_tiles_tile [OF assms]
  by (simp add: computeTile_def computeRawTile_def prepareBuffers_def two_tiles_def Rok4Image_new_def Let_def)

lemma two_tiles_room: "room_for (all_tiles (\<lambda>x y. [[7, 9 :: u8] ! x]) 2 (Suc 0)) = 32"
  by (simp add: all_tiles_def tiles_of_row_def upt_conv_Cons room_for_def)

theorem written_tiles_served_witness:
  "\<exists>im' c'. writeImage tags6 plain_zlib plain_jpeg file_context two_tiles (\<lambda>l. Some [7, 9]) False empty_directory
     = (Inr True, im', c')
   \<and> (\<exists>s c''. getData file_context (store_indexed ''/s'' 2052 2060 2064 ''t'' ''e'') c' = (Inr (Some [9]), s, c''))"
proof -
  note served = written_tiles_served [OF file_storage.storage_axioms, of empty_directory two_tiles 1
      "\<lambda>l. Some [7, 9]" "\<lambda>l. [7, 9]" plain_zlib plain_jpeg False "\<lambda>x y. [[7, 9] ! x]" tags6 "''t''" "''e''"]
  have "\<exists>im' c'. writeImage tags6 plain_zlib plain_jpeg file_context two_tiles (\<lambda>l. Some [7, 9]) False empty_directory
     = (Inr True, im', c') \<and> (\<forall>x < tileWidthwise two_tiles. \<forall>y < tileHeightwise two_tiles.
       let i = y * tileWidthwise two_tiles + x in
       \<exists>s c''. getData file_context (store_indexed (slab_name two_tiles) (ROK4_IMAGE_HEADER_SIZE + 4 * i)
            (ROK4_IMAGE_HEADER_SIZE + 4 * tilesNumber two_tiles + 4 * i) (data_start two_tiles) ''t'' ''e'') c'
          = (Inr (Some [[7, 9] ! x]), s, c''))"
    by (rule served)
      (simp_all add: two_tiles_fields two_tiles_encoded two_tiles_room empty_directory_def row_lines_def
        MAX_TILE_SIZE_def)
  then show ?thesis
    by (auto simp: two_tiles_fields ROK4_IMAGE_HEADER_SIZE_def Let_def dest!: spec [of _ 1])
qed

text \<open>
  C4: The layout of a written slab: its header parses back to the image's fields, behind it the
  index holds offset and size of each tile in order, the tiles lie behind the index in the order of
  their numbers without overlapping, each from the second on at a multiple of 16, and everything
  the index names is inside the object.
\<close>

theorem written_slab_layout:
  assumes "storage C pending stored can_open reliable" "reliable c" "can_open (slab_name im) c"
    "tiff_tags_ok T" "\<not> isVector im" "sample_bytes im = Some k"
    "tilesNumber im = tileHeightwise im * tileWidthwise im"
    "\<And>l. l < tileHeightwise im * tileHeight im \<Longrightarrow>
       getl l = Some (src l) \<and> length (src l) = width im * channels im * k"
    "\<And>x y. x < tileWidthwise im \<Longrightarrow> y < tileHeightwise im \<Longrightarrow>
       computeTile Z J (prepareBuffers im) (tile_of im k (row_lines src (tileHeight im) y) x)
         (crop \<and> compression im = Compression_JPEG) = Inr (Some (enc x y)) \<and> enc x y \<noteq> []"
    "data_start im + room_for (all_tiles enc (tileWidthwise im) (tileHeightwise im)) < 2 ^ 31"
  shows "\<exists>im' c' b off. writeImage T Z J C im getl crop c = (Inr True, im', c')
    \<and> stored c' (slab_name im) = Some b
    \<and> parse_header T (window 0 ROK4_IMAGE_HEADER_SIZE b) = Inr (Some (header_of T im))
    \<and> (\<forall>i < tilesNumber im. let t = all_tiles enc (tileWidthwise im) (tileHeightwise im) ! i in
         get32 b (ROK4_IMAGE_HEADER_SIZE + 4 * i) = Inr (off i)
         \<and> get32 b (ROK4_IMAGE_HEADER_SIZE + 4 * tilesNumber im + 4 * i) = Inr (word_of_nat (length t))
         \<and> ROK4_IMAGE_HEADER_SIZE + 8 * tilesNumber im \<le> unat (off i)
         \<and> unat (off i) + length t \<le> length b \<and> window (unat (off i)) (length t) b = t
         \<and> (0 < i \<longrightarrow> 16 dvd unat (off i))
         \<and> (\<forall>j < i. unat (off j) + length (all_tiles enc (tileWidthwise im) (tileHeightwise im) ! j) \<le> unat (off i)))"
proof -
  let ?ts = "all_tiles enc (tileWidthwise im) (tileHeightwise im)"
  obtain im' c' b where w: "writeImage T Z J C im getl crop c = (Inr True, im', c')" "reliable c'"
    "stored c' (slab_name im) = Some b" "slab_stored T im ?ts b"
    using storage.writeImage_ok [OF assms(1,5,6,3,2,7,10,8,9)] by blast
  obtain os ss where s: "length os = tilesNumber im" "length ss = tilesNumber im"
    "window ROK4_IMAGE_HEADER_SIZE (8 * tilesNumber im) b = put32s os @ put32s ss"
    "\<And>i. i < tilesNumber im \<Longrightarrow> tile_in (data_start im) (length b) b (os ! i) (ss ! i) (?ts ! i)
       \<and> (0 < i \<longrightarrow> unat (os ! i) mod 16 = 0)"
    "\<And>i j. i < j \<Longrightarrow> j < tilesNumber im \<Longrightarrow> unat (os ! i) + length (?ts ! i) \<le> unat (os ! j)"
    "header_in T im b"
    using w(4) by (auto simp: slab_stored_def)
  have i: "get32 b (ROK4_IMAGE_HEADER_SIZE + 4 * i) = Inr (os ! i)
      \<and> get32 b (ROK4_IMAGE_HEADER_SIZE + 4 * tilesNumber im + 4 * i) = Inr (word_of_nat (length (?ts ! i)))"
    if "i < tilesNumber im" for i
    using index_entries [OF s(1-3) that] s(4) [OF that] by (simp add: tile_in_def)
  have h: "parse_header T (window 0 ROK4_IMAGE_HEADER_SIZE b) = Inr (Some (header_of T im))"
    using parse_header_written [OF assms(4,5) header_in_same [OF s(6)]] .
  show ?thesis
    using w(1,3) h i s(4,5)
    by (intro exI [of _ im'] exI [of _ c'] exI [of _ b] exI [of _ "\<lambda>i. os ! i"])
      (simp add: Let_def tile_in_def data_start_def mod_eq_0_iff_dvd)
qed

theorem written_slab_layout_witness:
  "\<exists>im' c' b off. writeImage tags6 plain_zlib plain_jpeg file_context two_tiles (\<lambda>l. Some [7, 9]) False empty_directory
     = (Inr True, im', c')
   \<and> files c' (root_dir c' @ ''/s'') = Some b \<and> get32 b 2052 = Inr off \<and> 16 dvd unat off"
proof -
  have enc: "computeTile plain_zlib plain_jpeg (prepareBuffers two_tiles)
      (tile_of two_tiles 1 (row_lines (\<lambda>l. [7, 9]) (tileHeight two_tiles) y) x)
      (False \<and> compression two_tiles = Compression_JPEG) = Inr (Some [[7, 9] ! x]) \<and> [[7, 9 :: u8] ! x] \<noteq> []"
    if "x < tileWidthwise two_tiles" "y < tileHeightwise two_tiles" for x y
    using that two_tiles_encoded [of x plain_zlib plain_jpeg False] by (simp add: two_tiles_fields row_lines_def)
  have room: "data_start two_tiles + room_for (all_tiles (\<lambda>x y. [[7, 9 :: u8] ! x])
      (tileWidthwise two_tiles) (tileHeightwise two_tiles)) < 2 ^ 31"
    by (simp add: two_tiles_fields two_tiles_room)
  show ?thesis
    using written_slab_layout [OF file_storage.storage_axioms _ _ tags6_ok two_tiles_fields(1,2) _ _ enc room,
        of empty_directory "\<lambda>l. Some [7, 9]"]
    apply (simp add: two_tiles_fields empty_directory_def row_lines_def)
    apply (elim exE conjE)
    subgoal for im' c' b off
      by (intro exI [of _ im'] exI [of _ c'] exI [of _ b] exI [of _ "off 1"], drule spec [of _ 1])
        (simp add: ROK4_IMAGE_HEADER_SIZE_def Let_def)
    done
qed

end
