(* ===== verification/Decoders.thy ===== *)
theory Decoders
  imports TileCodec
begin

text \<open>
  The decoders of tiles (lib/libimage/Decoder.cpp), over the same parameters for zlib and libjpeg.
  The result \<open>None\<close> is a call that does not return; \<open>Some (Inr None)\<close> is the null pointer.
\<close>

type_synonym decoded = "(fault + bytes option) option"

definition PackBitsDecoder :: "bytes option \<Rightarrow> decoded" where
  "PackBitsDecoder source =
     (case source of
        None \<Rightarrow> Some (Inr None)
      | Some encData \<Rightarrow> Some (bindR (pkb_decode encData) (\<lambda>raw_data. Inr (Some raw_data))))"

definition LzwDecoder :: "bytes option \<Rightarrow> decoded" where
  "LzwDecoder source =
     (case source of
        None \<Rightarrow> Some (Inr None)
      | Some encData \<Rightarrow>
          (case lzw_decode (lzwDecoder_new 12) encData 0 of
             None \<Rightarrow> None
           | Some r \<Rightarrow> Some (bindR r (\<lambda>raw_data. Inr (Some raw_data)))))"

text \<open>The loop of \<open>DeflateDecoder\<close>: the output buffer is doubled whenever it is full.\<close>

definition inflate_end :: "'z zlib \<Rightarrow> 'z \<Rightarrow> bytes \<Rightarrow> fault + bytes option" where
  "inflate_end Z z raw_data = Inr (if inflateEnd Z z then Some raw_data else None)"

partial_function (option) inflate_loop :: "'z zlib \<Rightarrow> 'z \<Rightarrow> bytes \<Rightarrow> nat \<Rightarrow> decoded" where
  "inflate_loop Z z raw_data rawSize =
     (if avail_in Z z = 0 then Some (inflate_end Z z raw_data)
      else
        let (err, put_out, z') = inflate Z (rawSize - length raw_data) z;
            raw' = raw_data @ put_out
        in
        if length raw' > rawSize then Some (Inl BufferOverflow)
        else if err = 0 then inflate_loop Z z' raw' rawSize
        else if err = Z_STREAM_END Z \<and> avail_in Z z' = 0 then Some (inflate_end Z z' raw')
        else if length raw' = rawSize then inflate_loop Z z' raw' (rawSize * 2)
        else Some (Inr None))"

definition DeflateDecoder :: "'z zlib \<Rightarrow> bytes option \<Rightarrow> decoded" where
  "DeflateDecoder Z source =
     (case source of
        None \<Rightarrow> Some (Inr None)
      | Some encData \<Rightarrow>
          (case inflateInit Z of
             None \<Rightarrow> Some (Inr None)
           | Some z \<Rightarrow> inflate_loop Z (next_in Z encData z) [] (length encData * 2)))"

subsection \<open>PNG\<close>

definition get32_swapped :: "bytes \<Rightarrow> nat \<Rightarrow> fault + u32" where
  "get32_swapped b off = (if off + 4 \<le> length b then get32 (rev (window off 4 b)) 0 else Inl OverRead)"

text \<open>The components of a colour type; for an unknown one the variable is never set.\<close>

definition png_channels :: "u8 \<Rightarrow> fault + nat option" where
  "png_channels colour =
     (if colour = 0 then Inr (Some 1) else if colour = 2 then Inr (Some 3)
      else if colour = 3 then Inr None else if colour = 4 then Inr (Some 2)
      else if colour = 6 then Inr (Some 4) else Inl Uninitialised)"

text \<open>The lines, each a filter byte and \<open>linesize\<close> bytes; the lines not read yet are counted down.\<close>

fun png_read_lines :: "'z zlib \<Rightarrow> nat \<Rightarrow> nat \<Rightarrow> 'z \<Rightarrow> bytes \<Rightarrow> fault + (bytes \<times> 'z) option" where
  "png_read_lines Z linesize 0 z raw_data = Inr (Some (raw_data, z))"
| "png_read_lines Z linesize (Suc left) z raw_data =
     (let (err1, tmp, z1) = inflate Z 1 z in
      if err1 \<noteq> 0 then Inr None
      else
        let (err, line, z2) = inflate Z linesize z1 in
        if err \<noteq> 0 \<and> \<not> (err = Z_STREAM_END Z \<and> left = 0) then Inr None
        else if length line > linesize then Inl BufferOverflow
        else if length line < linesize then Inl Uninitialised
        else png_read_lines Z linesize left z2 (raw_data @ line))"

definition PngDecoder :: "'z zlib \<Rightarrow> bytes option \<Rightarrow> decoded" where
  "PngDecoder Z source =
     (case source of
        None \<Rightarrow> Some (Inr None)
      | Some encData \<Rightarrow>
          (case inflateInit Z of
             None \<Rightarrow> Some (Inr None)
           | Some z \<Rightarrow> Some
               (bindR (get32_swapped encData 16) (\<lambda>h32. bindR (get32_swapped encData 20) (\<lambda>w32.
                bindR (int_size h32) (\<lambda>ht. bindR (int_size w32) (\<lambda>wd.
                bindR (elem encData 25) (\<lambda>colour. bindR (png_channels colour) (\<lambda>ch.
                  case ch of
                    None \<Rightarrow> Inr None
                  | Some n \<Rightarrow>
                      if length encData < 57 then Inl OverRead
                      else
                        bindR (png_read_lines Z (wd * n) ht
                                 (next_in Z (window 41 (length encData - 57) encData) z) []) (\<lambda>r.
                          case r of
                            None \<Rightarrow> Inr None
                          | Some (raw_data, z') \<Rightarrow> inflate_end Z z' raw_data))))))))))"

subsection \<open>JPEG\<close>

fun jpeg_lines :: "nat \<Rightarrow> bytes option list \<Rightarrow> bytes \<Rightarrow> fault + bytes option" where
  "jpeg_lines linesize [] raw_data = Inr (Some raw_data)"
| "jpeg_lines linesize (None # ls) raw_data = Inr None"
| "jpeg_lines linesize (Some l # ls) raw_data =
     (if length l > linesize then Inl BufferOverflow
      else if length l < linesize then Inl Uninitialised
      else jpeg_lines linesize ls (raw_data @ l))"

definition JpegDecoder :: "libjpeg \<Rightarrow> bytes option \<Rightarrow> decoded" where
  "JpegDecoder J source =
     (case source of
        None \<Rightarrow> Some (Inr None)
      | Some encData \<Rightarrow>
          (case jpeg_decompress J encData of
             JpegFatal \<Rightarrow> Some (Inr None)
           | JpegNoHeader \<Rightarrow> Some (Inr None)
           | JpegLines w n ls \<Rightarrow> Some (jpeg_lines (w * n) ls [])))"

end
