(* ===== verification/SlabRead.thy ===== *)
theory SlabRead
  imports SlabStored Decoders
begin

text \<open>
  Reading an image from a slab (lib/libimage/Rok4Image.cpp): a row of tiles is read in one go,
  decoded into the buffer \<open>memorizedTiles\<close>, and the lines of the image are taken from there.
\<close>

subsection \<open>memorizeRawTiles\<close>

text \<open>The decoder by compression; a deflated slab can hold PNG tiles, which changes the member.\<close>

definition decode_tile ::
    "'z zlib \<Rightarrow> libjpeg \<Rightarrow> eCompression \<Rightarrow> bytes \<Rightarrow> eCompression \<times> decoded" where
  "decode_tile Z J cm enc =
     (case cm of
        Compression_NONE \<Rightarrow> (cm, Some (Inr (Some enc)))
      | Compression_JPEG \<Rightarrow> (cm, JpegDecoder J (Some enc))
      | Compression_LZW \<Rightarrow> (cm, LzwDecoder (Some enc))
      | Compression_PACKBITS \<Rightarrow> (cm, PackBitsDecoder (Some enc))
      | Compression_JPEG2000 \<Rightarrow> (cm, Some (Inr None))
      | Compression_UNKNOWN \<Rightarrow> (cm, Some (Inr None))
      | _ \<Rightarrow>
          if length enc < 8 then (cm, Some (Inl OverRead))
          else if take 8 PNG_HEADER \<noteq> take 8 enc then (cm, DeflateDecoder Z (Some enc))
          else (Compression_PNG, PngDecoder Z (Some enc)))"

text \<open>
  Tile i of the row: its bytes in the data read for the whole row, decoded into place i of the
  buffer. \<open>first\<close> is the index of the first tile.
\<close>

definition memorize_tile ::
    "'z zlib \<Rightarrow> libjpeg \<Rightarrow> bytes \<Rightarrow> nat \<Rightarrow> nat \<Rightarrow> Rok4Image \<Rightarrow> (fault + bool) option \<times> Rok4Image" where
  "memorize_tile Z J enc_data first i im =
     (let off = unat (tilesOffset im ! (first + i));
          base = unat (tilesOffset im ! first);
          n = unat (tilesByteCounts im ! (first + i))
      in if off < base \<or> off - base + n > length enc_data then (Some (Inl OverRead), im)
         else
           let (cm, dec) = decode_tile Z J (compression im) (window (off - base) n enc_data);
               im1 = im\<lparr>compression := cm\<rparr>
           in (case dec of
                 None \<Rightarrow> (None, im1)
               | Some (Inl f) \<Rightarrow> (Some (Inl f), im1)
               | Some (Inr None) \<Rightarrow> (Some (Inr False), im1)
               | Some (Inr (Some dec_data)) \<Rightarrow>
                   if length dec_data = 0 then (Some (Inr False), im1)
                   else if length dec_data < rawTileSize im then (Some (Inl OverRead), im1)
                   else (Some (Inr True), im1\<lparr>memorizedTiles :=
                           splice (memorizedTiles im) (i * rawTileSize im) (take (rawTileSize im) dec_data)\<rparr>)))"

fun memorize_loop ::
    "'z zlib \<Rightarrow> libjpeg \<Rightarrow> bytes \<Rightarrow> nat \<Rightarrow> nat list \<Rightarrow> Rok4Image \<Rightarrow> (fault + bool) option \<times> Rok4Image" where
  "memorize_loop Z J enc_data first [] im = (Some (Inr True), im)"
| "memorize_loop Z J enc_data first (i # is) im =
     (case memorize_tile Z J enc_data first i im of
        (Some (Inr True), im') \<Rightarrow> memorize_loop Z J enc_data first is im'
      | r \<Rightarrow> r)"

definition memorizeRawTiles ::
    "'z zlib \<Rightarrow> libjpeg \<Rightarrow> 'c Context \<Rightarrow> Rok4Image \<Rightarrow> int \<Rightarrow> 'c \<Rightarrow>
     (fault + bool) option \<times> Rok4Image \<times> 'c" where
  "memorizeRawTiles Z J C im tilesLine c =
     (if tilesLine < 0 \<or> tilesLine \<ge> int (tileHeightwise im) then (Some (Inr False), im, c)
      else if memorizedTilesLine im = tilesLine then (Some (Inr True), im, c)
      else
        let first = nat tilesLine * tileWidthwise im;
            last = first + tileWidthwise im - 1
        in if tileWidthwise im = 0 \<or> last \<ge> length (tilesOffset im) \<or> last \<ge> length (tilesByteCounts im)
           then (Some (Inl OverRead), im, c)
           else
             case bindR (int_size (tilesOffset im ! first)) (\<lambda>firstOffset.
                  bindR (int_size (tilesOffset im ! last)) (\<lambda>lastOffset.
                  bindR (int_size (tilesByteCounts im ! last)) (\<lambda>lastSize.
                    if lastOffset + lastSize < firstOffset then Inl NegativeSize
                    else Inr (firstOffset, lastOffset + lastSize - firstOffset)))) of
               Inl f \<Rightarrow> (Some (Inl f), im, c)
             | Inr (firstOffset, n) \<Rightarrow>
                 (case getData C (store_range (slab_name im) firstOffset n '''' '''') c of
                    (Inl f, _, c1) \<Rightarrow> (Some (Inl f), im, c1)
                  | (Inr None, _, c1) \<Rightarrow> (Some (Inr False), im, c1)
                  | (Inr (Some enc_data), _, c1) \<Rightarrow>
                      (case memorize_loop Z J enc_data first [0..<tileWidthwise im] im of
                         (Some (Inr True), im1) \<Rightarrow>
                           (Some (Inr True), im1\<lparr>memorizedTilesLine := tilesLine\<rparr>, c1)
                       | (r, im1) \<Rightarrow> (r, im1, c1))))"

subsection \<open>getline\<close>

text \<open>
  The line in a buffer whose elements have \<open>sizeof_T\<close> bytes: the number of elements, and the
  bytes written. Each tile puts its part at a multiple of a whole number of elements.
\<close>

definition line_bytes :: "nat \<Rightarrow> Rok4Image \<Rightarrow> nat \<Rightarrow> bytes" where
  "line_bytes sizeof_T im tileLine =
     fold (\<lambda>tileCol b. splice b (tileCol * (tileWidth im * pixelSize im div sizeof_T) * sizeof_T)
             (window (tileCol * rawTileSize im + tileLine * rawTileLineSize im) (rawTileLineSize im)
                (memorizedTiles im)))
       [0..<tileWidthwise im] []"

definition getline_as ::
    "nat \<Rightarrow> 'z zlib \<Rightarrow> libjpeg \<Rightarrow> 'c Context \<Rightarrow> Rok4Image \<Rightarrow> nat \<Rightarrow> 'c \<Rightarrow>
     (fault + nat \<times> bytes) option \<times> Rok4Image \<times> 'c" where
  "getline_as sizeof_T Z J C im line c =
     (if tileHeight im = 0 then (Some (Inl DivisionByZero), im, c)
      else
        case memorizeRawTiles Z J C im (int (line div tileHeight im)) c of
          (None, im', c') \<Rightarrow> (None, im', c')
        | (Some (Inl f), im', c') \<Rightarrow> (Some (Inl f), im', c')
        | (Some (Inr False), im', c') \<Rightarrow> (Some (Inr (0, [])), im', c')
        | (Some (Inr True), im', c') \<Rightarrow>
            (Some (Inr (tileWidthwise im' * (tileWidth im' * pixelSize im' div sizeof_T),
               line_bytes sizeof_T im' (line mod tileHeight im'))), im', c'))"

definition getline_u8 ::
    "'z zlib \<Rightarrow> libjpeg \<Rightarrow> 'c Context \<Rightarrow> Rok4Image \<Rightarrow> nat \<Rightarrow> 'c \<Rightarrow>
     (fault + nat \<times> bytes) option \<times> Rok4Image \<times> 'c" where
  "getline_u8 = getline_as 1"

text \<open>
  Reading into a buffer of another type: the line is read in the image's type into a buffer of
  \<open>width * channels\<close> elements and converted element by element. \<open>convert\<close> is the representation
  of an integer in the type asked for.
\<close>

definition convert_u8 :: "(nat \<Rightarrow> bytes) \<Rightarrow> bytes \<Rightarrow> nat \<Rightarrow> fault + bytes" where
  "convert_u8 convert from n =
     (if length from < n then Inl Uninitialised
      else Inr (concat (map (\<lambda>b. convert (unat b)) (take n from))))"

definition convert_u16 :: "(nat \<Rightarrow> bytes) \<Rightarrow> bytes \<Rightarrow> nat \<Rightarrow> fault + bytes" where
  "convert_u16 convert from n =
     (if length from < 2 * n then Inl Uninitialised
      else Inr (concat (map (\<lambda>i. convert (le_nat (window (2 * i) 2 from))) [0..<n])))"

definition converted ::
    "Rok4Image \<Rightarrow> nat \<Rightarrow> (bytes \<Rightarrow> nat \<Rightarrow> fault + bytes) \<Rightarrow>
     (fault + nat \<times> bytes) option \<times> Rok4Image \<times> 'c \<Rightarrow> (fault + nat \<times> bytes) option \<times> Rok4Image \<times> 'c" where
  "converted im sizeof_T conv r =
     (case r of
        (Some (Inr (k, b)), im', c') \<Rightarrow>
          if k = 0 then (Some (Inr (0, [])), im', c')
          else if length b > width im * channels im * sizeof_T then (Some (Inl BufferOverflow), im', c')
          else (Some (bindR (conv b (width im * channels im)) (\<lambda>b'. Inr (width im * channels im, b'))), im', c')
      | r \<Rightarrow> r)"

definition getline_u16 ::
    "'z zlib \<Rightarrow> libjpeg \<Rightarrow> 'c Context \<Rightarrow> Rok4Image \<Rightarrow> nat \<Rightarrow> 'c \<Rightarrow>
     (fault + nat \<times> bytes) option \<times> Rok4Image \<times> 'c" where
  "getline_u16 Z J C im line c =
     (if bitspersample im = 8 \<and> sampleformat im = SampleFormat_UINT then
        converted im 1 (convert_u8 (le_bytes 2)) (getline_as 1 Z J C im line c)
      else if bitspersample im = 16 \<and> sampleformat im = SampleFormat_UINT then
        getline_as 2 Z J C im line c
      else
        (case getline_as 2 Z J C im line c of
           (Some (Inr (k, b)), im', c') \<Rightarrow>
             if k = 0 then (Some (Inr (0, [])), im', c')
             else (Some (Inr (width im * channels im * 2, b)), im', c')
         | r \<Rightarrow> r))"

text \<open>\<open>to_float\<close>: the four bytes of the float that is an integer's value.\<close>

definition getline_float ::
    "(nat \<Rightarrow> bytes) \<Rightarrow> 'z zlib \<Rightarrow> libjpeg \<Rightarrow> 'c Context \<Rightarrow> Rok4Image \<Rightarrow> nat \<Rightarrow> 'c \<Rightarrow>
     (fault + nat \<times> bytes) option \<times> Rok4Image \<times> 'c" where
  "getline_float to_float Z J C im line c =
     (if bitspersample im = 8 \<and> sampleformat im = SampleFormat_UINT then
        converted im 1 (convert_u8 to_float) (getline_as 1 Z J C im line c)
      else if bitspersample im = 16 \<and> sampleformat im = SampleFormat_UINT then
        converted im 2 (convert_u16 to_float) (getline_as 2 Z J C im line c)
      else getline_as 4 Z J C im line c)"

end
