(* ===== verification/SlabRoundtrip.thy ===== *)
theory SlabRoundtrip
  imports SlabRead
begin

text \<open>
  Writing an image to a slab and reading it back through any storage: \<open>createRok4ImageToRead\<close>
  finds the image's fields and index, and \<open>getline\<close> gives the lines of the source image.
\<close>

subsection \<open>Lines and tiles\<close>

lemma window_all: "length b = n \<Longrightarrow> window 0 n b = b"
  by (simp add: window_def)

lemma window_concat:
  assumes "\<And>l. l \<in> set ls \<Longrightarrow> length l = L" "i < length ls" "off + n \<le> L"
  shows "window (i * L + off) n (concat ls) = window off n (ls ! i)"
  using assms
proof (induction ls arbitrary: i)
  case (Cons l ls)
  show ?case
  proof (cases i)
    case 0
    with Cons.prems show ?thesis by (simp add: window_def)
  next
    case (Suc j)
    have "window (L + (j * L + off)) n (l @ concat ls) = window (j * L + off) n (concat ls)"
      using Cons.prems(1) [of l] by (simp add: window_def)
    with Suc Cons.IH [of j] Cons.prems show ?thesis by (simp add: add.assoc)
  qed
qed simp

lemma length_concat_const: "(\<And>l. l \<in> set ls \<Longrightarrow> length l = L) \<Longrightarrow> length (concat ls) = length ls * L"
  by (induction ls) auto

lemma concat_windows:
  "m * n \<le> length s \<Longrightarrow> concat (map (\<lambda>x. window (x * n) n s) [0..<m]) = take (m * n) s"
proof (induction m)
  case (Suc m)
  then have "concat (map (\<lambda>x. window (x * n) n s) [0..<Suc m]) = take (m * n) s @ take n (drop (m * n) s)"
    by (simp add: window_def)
  then show ?case using take_add [of "m * n" n s] by (simp add: add.commute)
qed simp

lemma fold_splice_concat:
  assumes "\<And>i. i < m \<Longrightarrow> length (f i) = n"
  shows "fold (\<lambda>i b. splice b (i * n) (f i)) [0..<m] [] = concat (map f [0..<m])"
  using assms
proof (induction m)
  case (Suc m)
  have "length (concat (map f [0..<m])) = m * n"
    by (subst length_concat_const [of _ n]) (use Suc.prems in auto)
  with Suc show ?case by (simp add: splice_def Let_def)
qed simp

text \<open>The shape of an image whose width is made of whole tiles, in samples of \<open>k\<close> bytes.\<close>

definition whole_tiles :: "Rok4Image \<Rightarrow> nat \<Rightarrow> bool" where
  "whole_tiles im k \<longleftrightarrow> sample_bytes im = Some k \<and> 0 < k \<and> width im = tileWidthwise im * tileWidth im
     \<and> pixelSize im = channels im * k \<and> rawTileLineSize im = tileWidth im * pixelSize im
     \<and> rawTileSize im = tileHeight im * rawTileLineSize im \<and> \<not> isVector im
     \<and> tilesNumber im = tileHeightwise im * tileWidthwise im"

lemma whole_tiles_line:
  assumes "whole_tiles im k"
  shows "width im * channels im * k = tileWidthwise im * rawTileLineSize im"
    "(lig * (width im * channels im) + x * (tileWidth im * channels im)) * k =
       lig * (tileWidthwise im * rawTileLineSize im) + x * rawTileLineSize im"
    "tileWidth im * pixelSize im div k * k = rawTileLineSize im"
    "tileWidth im * pixelSize im div k = tileWidth im * channels im"
  using assms by (simp_all add: whole_tiles_def algebra_simps)

text \<open>The part of a line that a tile has.\<close>

lemma tile_of_lines:
  assumes w: "whole_tiles im k" and x: "x < tileWidthwise im" and l: "lig < tileHeight im"
    and s: "\<And>l. y * tileHeight im \<le> l \<Longrightarrow> l < y * tileHeight im + tileHeight im \<Longrightarrow>
       length (src l) = width im * channels im * k"
  shows "length (tile_of im k (row_lines src (tileHeight im) y) x) = rawTileSize im"
    "window (lig * rawTileLineSize im) (rawTileLineSize im) (tile_of im k (row_lines src (tileHeight im) y) x)
      = window (x * rawTileLineSize im) (rawTileLineSize im) (src (y * tileHeight im + lig))"
proof -
  let ?th = "tileHeight im" and ?r = "rawTileLineSize im" and ?L = "tileWidthwise im * rawTileLineSize im"
  let ?ls = "map src [y * ?th..<y * ?th + ?th]"
  let ?rows = "map (\<lambda>h. window (x * ?r) ?r (src (y * ?th + h))) [0..<?th]"
  have len: "length l = ?L" if "l \<in> set ?ls" for l
    using that s whole_tiles_line(1) [OF w] by auto
  have fit: "x * ?r + ?r \<le> ?L" using row_in [OF x, of 0 ?r ?r] by simp
  have part: "window (h * ?L + x * ?r) ?r (concat ?ls) = window (x * ?r) ?r (src (y * ?th + h))" if "h < ?th" for h
    using window_concat [of ?ls, OF len _ fit, of h] that by simp
  have "map (\<lambda>h. window (h * ?L + x * ?r) ?r (concat ?ls)) [0..<?th] = ?rows"
    using part by (intro map_cong refl) simp
  then have tile: "tile_of im k (row_lines src ?th y) x = concat ?rows"
    by (simp only: tile_of_def Let_def whole_tiles_line(2) [OF w] row_lines_def)
  have rows: "length q = ?r" if "q \<in> set ?rows" for q
    using that fit s whole_tiles_line(1) [OF w] by (auto intro!: length_window)
  show "length (tile_of im k (row_lines src ?th y) x) = rawTileSize im"
    using length_concat_const [of ?rows ?r, OF rows] w tile by (simp add: whole_tiles_def)
  show "window (lig * ?r) ?r (tile_of im k (row_lines src ?th y) x) = window (x * ?r) ?r (src (y * ?th + lig))"
    using window_concat [of ?rows ?r lig 0 ?r, OF rows] l window_all [OF rows [of "?rows ! lig"]] tile
    by simp
qed

subsection \<open>Loading\<close>

lemma words32_put32s:
  "words32 (pre @ put32s ws @ post) (length pre) (length ws) = Inr ws"
proof (induction ws arbitrary: pre)
  case (Cons w ws)
  have "get32 (pre @ put32s (w # ws) @ post) (length pre) = Inr w"
    by (rule get32_put) (simp add: put32s_def)
  moreover have "words32 ((pre @ put32 w) @ put32s ws @ post) (length (pre @ put32 w)) (length ws) = Inr ws"
    by (rule Cons)
  ultimately show ?case by (simp add: put32s_def)
qed simp

context storage begin

lemma slab_header_ok:
  assumes "reliable c" "stored c n = Some b" "ROK4_IMAGE_HEADER_SIZE \<le> length b"
  shows "\<exists>c'. slab_header C n c = (Inr (Some (n, window 0 ROK4_IMAGE_HEADER_SIZE b)), c')
    \<and> reliable c' \<and> stored c' n = Some b"
proof -
  have "0 + ROK4_IMAGE_HEADER_SIZE \<le> length b" "0 < ROK4_IMAGE_HEADER_SIZE"
    using assms(3) by (simp_all add: ROK4_IMAGE_HEADER_SIZE_def)
  from getData_range [OF assms(1,2) this, of "''''" "''''"] assms(3) show ?thesis
    by (auto simp: slab_header_def length_window)
qed

lemma loadIndex_ok:
  assumes "reliable c" "stored c (slab_name ir) = Some b" "0 < tilesNumber ir"
    "window ROK4_IMAGE_HEADER_SIZE (8 * tilesNumber ir) b = put32s os @ put32s ss"
    "length os = tilesNumber ir" "length ss = tilesNumber ir"
    "ROK4_IMAGE_HEADER_SIZE + 8 * tilesNumber ir \<le> length b"
  shows "\<exists>c'. loadIndex C ir c = (Inr True, ir\<lparr>tilesOffset := os, tilesByteCounts := ss\<rparr>, c')
    \<and> reliable c' \<and> stored c' (slab_name ir) = Some b"
proof -
  have w: "words32 (put32s os @ put32s ss) 0 (tilesNumber ir) = Inr os"
    "words32 (put32s os @ put32s ss) (4 * tilesNumber ir) (tilesNumber ir) = Inr ss"
    using words32_put32s [of "[]" os "put32s ss"] words32_put32s [of "put32s os" ss "[]"] assms(5,6)
    by simp_all
  have "0 < 2 * 4 * tilesNumber ir" "ROK4_IMAGE_HEADER_SIZE + 2 * 4 * tilesNumber ir \<le> length b"
    using assms(3,7) by simp_all
  from getData_range [OF assms(1,2) this(2,1), of "''''" "''''"] obtain s c' where
    "getData C (store_range (slab_name ir) ROK4_IMAGE_HEADER_SIZE (2 * 4 * tilesNumber ir) '''' '''') c
      = (Inr (Some (put32s os @ put32s ss)), s, c')" "reliable c'" "stored c' (slab_name ir) = Some b"
    using assms(4) by auto
  with w assms(5,6) show ?thesis by (simp add: loadIndex_def Let_def)
qed

text \<open>A stored slab is opened as the image it was written from, as far as the header keeps it.\<close>

lemma createRok4ImageToRead_ok:
  assumes "reliable c" "stored c n = Some b" "slab_stored T im ts b" "tiff_tags_ok T"
    "Rok4Image_new w h ch n' sf bps ph cm es tw th = Inr im" "0 < tilesNumber im"
    "w < 2 ^ 31" "h < 2 ^ 31" "ch < 2 ^ 31" "tw < 2 ^ 31" "th < 2 ^ 31"
    "canRead (int bps) sf" "consistent w h"
  shows "\<exists>ir c' os ss. createRok4ImageToRead T consistent C n c = (Inr (Some ir), c')
    \<and> Rok4Image_new w h ch n sf bps (photometric_read ph) (compression_read cm)
        (if ch = 4 \<or> ch = 2 then es else ExtraSample_UNKNOWN) tw th = Inr (ir\<lparr>tilesOffset := [], tilesByteCounts := []\<rparr>)
    \<and> tilesOffset ir = os \<and> tilesByteCounts ir = ss \<and> reliable c' \<and> stored c' n = Some b
    \<and> length os = tilesNumber im \<and> length ss = tilesNumber im
    \<and> (\<forall>i < tilesNumber im. tile_in (data_start im) (length b) b (os ! i) (ss ! i) (ts ! i))
    \<and> (\<forall>i j. i < j \<and> j < tilesNumber im \<longrightarrow> unat (os ! i) + length (ts ! i) \<le> unat (os ! j))"
proof -
  obtain os ss where s: "length os = tilesNumber im" "length ss = tilesNumber im"
    "window ROK4_IMAGE_HEADER_SIZE (8 * tilesNumber im) b = put32s os @ put32s ss"
    "\<forall>i < tilesNumber im. tile_in (data_start im) (length b) b (os ! i) (ss ! i) (ts ! i)"
    "\<forall>i j. i < j \<and> j < tilesNumber im \<longrightarrow> unat (os ! i) + length (ts ! i) \<le> unat (os ! j)"
    "header_in T im b" "data_start im \<le> length b"
    using assms(3) by (auto simp: slab_stored_def)
  have nv: "\<not> isVector im" using Rok4Image_new_geometry [OF assms(5)] by simp
  obtain c1 where 1: "slab_header C n c = (Inr (Some (n, window 0 ROK4_IMAGE_HEADER_SIZE b)), c1)"
    "reliable c1" "stored c1 n = Some b"
    using slab_header_ok [OF assms(1,2)] s(6) by (auto simp: header_in_def)
  have p: "parse_header T (window 0 ROK4_IMAGE_HEADER_SIZE b) = Inr (Some (header_of T im))"
    using parse_header_written [OF assms(4) nv header_in_same [OF s(6)]] .
  obtain ir where ir: "Rok4Image_new w h ch n sf bps (photometric_read ph) (compression_read cm)
        (if ch = 4 \<or> ch = 2 then es else ExtraSample_UNKNOWN) tw th = Inr ir"
    "tilesNumber ir = tilesNumber im" "slab_name ir = n" "tilesOffset ir = []" "tilesByteCounts ir = []"
    using assms(5) by (auto simp: Rok4Image_new_def Let_def split: if_splits)
  have f: "image_of_fields T consistent n (header_of T im) = Inr (Some ir)"
    using image_read_back [where consistent = consistent and n = n, OF assms(4,5,7-13)] ir(1) by simp
  have "0 < tilesNumber ir" "stored c1 (slab_name ir) = Some b"
    "ROK4_IMAGE_HEADER_SIZE + 8 * tilesNumber ir \<le> length b"
    using assms(6) ir(2,3) 1(3) s(7) by (simp_all add: data_start_def)
  from loadIndex_ok [OF 1(2) this(2,1) _ _ _ this(3), of os ss] s(1-3) ir(2) obtain c2 where
    2: "loadIndex C ir c1 = (Inr True, ir\<lparr>tilesOffset := os, tilesByteCounts := ss\<rparr>, c2)"
    "reliable c2" "stored c2 (slab_name ir) = Some b" by auto
  have "createRok4ImageToRead T consistent C n c =
      (Inr (Some (ir\<lparr>tilesOffset := os, tilesByteCounts := ss\<rparr>)), c2)"
    using 1(1) p f 2(1) by (simp add: createRok4ImageToRead_def)
  moreover have "(ir\<lparr>tilesOffset := os, tilesByteCounts := ss\<rparr>)\<lparr>tilesOffset := [], tilesByteCounts := []\<rparr> = ir"
    using ir(4,5) by simp
  ultimately show ?thesis using ir 2(2,3) s(1,2,4,5)
    by (intro exI [of _ "ir\<lparr>tilesOffset := os, tilesByteCounts := ss\<rparr>"] exI [of _ c2]) simp
qed

end


subsection \<open>Reading rows of tiles\<close>

lemma memorize_loop_ok:
  assumes "length (memorizedTiles ir) = w * rawTileSize ir" "i0 + n = w" "0 < rawTileSize ir"
    "\<And>i. i < w \<Longrightarrow> unat (tilesOffset ir ! first) \<le> unat (tilesOffset ir ! (first + i))
       \<and> unat (tilesOffset ir ! (first + i)) - unat (tilesOffset ir ! first)
           + unat (tilesByteCounts ir ! (first + i)) \<le> length d
       \<and> decode_tile Z J (compression ir) (window (unat (tilesOffset ir ! (first + i)) - unat (tilesOffset ir ! first))
            (unat (tilesByteCounts ir ! (first + i))) d) = (compression ir, Some (Inr (Some (tile i))))
       \<and> length (tile i) = rawTileSize ir"
    "\<And>i. i < i0 \<Longrightarrow> window (i * rawTileSize ir) (rawTileSize ir) (memorizedTiles ir) = tile i"
  shows "\<exists>m. memorize_loop Z J d first [i0..<w] ir = (Some (Inr True), ir\<lparr>memorizedTiles := m\<rparr>)
    \<and> length m = w * rawTileSize ir
    \<and> (\<forall>i < w. window (i * rawTileSize ir) (rawTileSize ir) m = tile i)"
  using assms
proof (induction n arbitrary: i0 ir)
  case 0
  then show ?case by (intro exI [of _ "memorizedTiles ir"]) simp
next
  case (Suc n)
  let ?r = "rawTileSize ir"
  have i0: "i0 < w" using Suc.prems(2) by simp
  let ?m = "splice (memorizedTiles ir) (i0 * ?r) (tile i0)"
  note t = Suc.prems(4) [OF i0]
  have step: "memorize_tile Z J d first i0 ir = (Some (Inr True), ir\<lparr>memorizedTiles := ?m\<rparr>)"
    using t Suc.prems(3) by (auto simp: memorize_tile_def Let_def)
  have fit: "i * ?r + ?r \<le> w * ?r" if "i < w" for i using row_in [OF that, of 0 ?r ?r] by simp
  have len: "length ?m = w * ?r" using Suc.prems(1) fit [OF i0] t by simp
  have old: "window (i * ?r) ?r ?m = tile i" if "i < Suc i0" for i
  proof (cases "i = i0")
    case True
    with t show ?thesis using window_splice_same [of "i0 * ?r" "tile i0"] by simp
  next
    case False
    with that have "i < i0" by simp
    then have "i * ?r + ?r \<le> i0 * ?r" using row_in [of i i0 0 ?r ?r] by simp
    with \<open>i < i0\<close> i0 fit [of i] Suc.prems(1,5) show ?thesis by (subst window_splice_other) auto
  qed
  have "\<exists>m. memorize_loop Z J d first [Suc i0..<w] (ir\<lparr>memorizedTiles := ?m\<rparr>) =
      (Some (Inr True), ir\<lparr>memorizedTiles := ?m\<rparr>\<lparr>memorizedTiles := m\<rparr>)
    \<and> length m = w * rawTileSize (ir\<lparr>memorizedTiles := ?m\<rparr>)
    \<and> (\<forall>i < w. window (i * rawTileSize (ir\<lparr>memorizedTiles := ?m\<rparr>)) (rawTileSize (ir\<lparr>memorizedTiles := ?m\<rparr>)) m = tile i)"
  proof (rule Suc.IH)
    fix i assume "i < w"
    from Suc.prems(4) [OF this] show "unat (tilesOffset (ir\<lparr>memorizedTiles := ?m\<rparr>) ! first)
         \<le> unat (tilesOffset (ir\<lparr>memorizedTiles := ?m\<rparr>) ! (first + i))
       \<and> unat (tilesOffset (ir\<lparr>memorizedTiles := ?m\<rparr>) ! (first + i)) - unat (tilesOffset (ir\<lparr>memorizedTiles := ?m\<rparr>) ! first)
           + unat (tilesByteCounts (ir\<lparr>memorizedTiles := ?m\<rparr>) ! (first + i)) \<le> length d
       \<and> decode_tile Z J (compression (ir\<lparr>memorizedTiles := ?m\<rparr>))
            (window (unat (tilesOffset (ir\<lparr>memorizedTiles := ?m\<rparr>) ! (first + i)) - unat (tilesOffset (ir\<lparr>memorizedTiles := ?m\<rparr>) ! first))
            (unat (tilesByteCounts (ir\<lparr>memorizedTiles := ?m\<rparr>) ! (first + i))) d)
            = (compression (ir\<lparr>memorizedTiles := ?m\<rparr>), Some (Inr (Some (tile i))))
       \<and> length (tile i) = rawTileSize (ir\<lparr>memorizedTiles := ?m\<rparr>)" by auto
  qed (use Suc.prems(2,3) len old in simp_all)
  with step i0 show ?case by (simp add: upt_rec [of i0])
qed

text \<open>
  An opened image whose tiles are in \<open>b\<close> and are decoded to \<open>tile i\<close>; the buffer holds the row
  it says it holds.
\<close>

definition readable ::
    "'z zlib \<Rightarrow> libjpeg \<Rightarrow> bytes list \<Rightarrow> (nat \<Rightarrow> bytes) \<Rightarrow> bytes \<Rightarrow> Rok4Image \<Rightarrow> bool" where
  "readable Z J ts tile b ir \<longleftrightarrow>
     tilesNumber ir = tileHeightwise ir * tileWidthwise ir \<and> 0 < tileWidthwise ir \<and> 0 < rawTileSize ir
     \<and> length (tilesOffset ir) = tilesNumber ir \<and> length (tilesByteCounts ir) = tilesNumber ir
     \<and> length (memorizedTiles ir) = tileWidthwise ir * rawTileSize ir \<and> length b < 2 ^ 31
     \<and> (\<forall>i < tilesNumber ir. tile_in 0 (length b) b (tilesOffset ir ! i) (tilesByteCounts ir ! i) (ts ! i)
          \<and> decode_tile Z J (compression ir) (ts ! i) = (compression ir, Some (Inr (Some (tile i))))
          \<and> length (tile i) = rawTileSize ir \<and> ts ! i \<noteq> [])
     \<and> (\<forall>i j. i < j \<and> j < tilesNumber ir \<longrightarrow>
          unat (tilesOffset ir ! i) + length (ts ! i) \<le> unat (tilesOffset ir ! j))
     \<and> (\<forall>y i. memorizedTilesLine ir = int y \<and> i < tileWidthwise ir \<longrightarrow>
          window (i * rawTileSize ir) (rawTileSize ir) (memorizedTiles ir) = tile (y * tileWidthwise ir + i))"

lemma readable_sizes:
  assumes "readable Z J ts tile b ir" "i < tilesNumber ir"
  shows "unat (tilesByteCounts ir ! i) = length (ts ! i)"
    "unat (tilesOffset ir ! i) + length (ts ! i) \<le> length b"
    "int_size (tilesOffset ir ! i) = Inr (unat (tilesOffset ir ! i))"
    "int_size (tilesByteCounts ir ! i) = Inr (length (ts ! i))"
    "window (unat (tilesOffset ir ! i)) (length (ts ! i)) b = ts ! i"
proof -
  have t: "tile_in 0 (length b) b (tilesOffset ir ! i) (tilesByteCounts ir ! i) (ts ! i)" "length b < 2 ^ 31"
    using assms by (simp_all add: readable_def)
  then have l: "length (ts ! i) < 2 ^ 31" "unat (tilesOffset ir ! i) < 2 ^ 31"
    by (simp_all add: tile_in_def)
  with t show s: "unat (tilesByteCounts ir ! i) = length (ts ! i)"
    by (simp add: tile_in_def)
  show "unat (tilesOffset ir ! i) + length (ts ! i) \<le> length b"
    "window (unat (tilesOffset ir ! i)) (length (ts ! i)) b = ts ! i" using t by (simp_all add: tile_in_def)
  show "int_size (tilesOffset ir ! i) = Inr (unat (tilesOffset ir ! i))"
    "int_size (tilesByteCounts ir ! i) = Inr (length (ts ! i))" using l s by (simp_all add: int_size_def)
qed

lemma readable_ordered:
  assumes "readable Z J ts tile b ir" "i \<le> j" "j < tilesNumber ir"
  shows "unat (tilesOffset ir ! i) \<le> unat (tilesOffset ir ! j)"
    "unat (tilesOffset ir ! i) + length (ts ! i) \<le> unat (tilesOffset ir ! j) + length (ts ! j)"
proof -
  have "i = j \<or> unat (tilesOffset ir ! i) + length (ts ! i) \<le> unat (tilesOffset ir ! j)"
    using assms(2,3) assms(1) [unfolded readable_def] by (metis le_less)
  then show "unat (tilesOffset ir ! i) \<le> unat (tilesOffset ir ! j)"
    "unat (tilesOffset ir ! i) + length (ts ! i) \<le> unat (tilesOffset ir ! j) + length (ts ! j)" by auto
qed

context storage begin

lemma memorizeRawTiles_ok:
  assumes r: "readable Z J ts tile b ir" and y: "y < tileHeightwise ir"
    and c: "reliable c" "stored c (slab_name ir) = Some b"
  shows "\<exists>m c'. memorizeRawTiles Z J C ir (int y) c =
      (Some (Inr True), ir\<lparr>memorizedTiles := m, memorizedTilesLine := int y\<rparr>, c')
    \<and> readable Z J ts tile b (ir\<lparr>memorizedTiles := m, memorizedTilesLine := int y\<rparr>)
    \<and> reliable c' \<and> stored c' (slab_name ir) = Some b"
proof (cases "memorizedTilesLine ir = int y")
  case True
  then have same: "ir\<lparr>memorizedTiles := memorizedTiles ir, memorizedTilesLine := int y\<rparr> = ir"
    by (intro Rok4Image.equality) simp_all
  have "memorizeRawTiles Z J C ir (int y) c = (Some (Inr True), ir, c)"
    using True y by (simp add: memorizeRawTiles_def)
  with r c show ?thesis
    by (intro exI [of _ "memorizedTiles ir"] exI [of _ c]) (simp only: same)
next
  case False
  let ?w = "tileWidthwise ir" and ?os = "tilesOffset ir" and ?ss = "tilesByteCounts ir"
  let ?first = "y * ?w"
  define lst where "lst = y * ?w + ?w - Suc 0"
  let ?n = "unat (?os ! lst) + length (ts ! lst) - unat (?os ! ?first)"
  let ?d = "window (unat (?os ! ?first)) ?n b"
  have w: "0 < ?w" "length ?os = tilesNumber ir" "length ?ss = tilesNumber ir"
    "tilesNumber ir = tileHeightwise ir * ?w" using r by (simp_all add: readable_def)
  have N: "?first + i < tilesNumber ir" if "i < ?w" for i
    using row_in [OF y, of i 1 ?w] that w(4) by simp
  have last: "lst < tilesNumber ir" "?first < tilesNumber ir" using N [of "?w - 1"] N [of 0] w(1) by (simp_all add: lst_def)
  note L = readable_sizes [OF r last(1)] and F = readable_sizes [OF r last(2)]
  have le: "unat (?os ! ?first) \<le> unat (?os ! lst)"
    using readable_ordered(1) [OF r _ last(1), of ?first] w(1) by (simp add: lst_def)
  have "ts ! lst \<noteq> []" using r last(1) unfolding readable_def by blast
  then have "0 < length (ts ! lst)" by simp
  with le have pos: "0 < ?n" by linarith
  have in_b: "unat (?os ! ?first) + ?n \<le> length b" using le L(2) by simp
  have range: "bindR (int_size (?os ! ?first)) (\<lambda>firstOffset. bindR (int_size (?os ! lst)) (\<lambda>lastOffset.
        bindR (int_size (?ss ! lst)) (\<lambda>lastSize. if lastOffset + lastSize < firstOffset then Inl NegativeSize
          else Inr (firstOffset, lastOffset + lastSize - firstOffset)))) = Inr (unat (?os ! ?first), ?n)"
    using le by (simp add: L F)
  obtain s c1 where d: "getData C (store_range (slab_name ir) (unat (?os ! ?first)) ?n '''' '''') c =
      (Inr (Some ?d), s, c1)" "reliable c1" "stored c1 (slab_name ir) = Some b"
    using getData_range [OF c in_b pos] by blast
  have tiles: "unat (?os ! ?first) \<le> unat (?os ! (?first + i))
       \<and> unat (?os ! (?first + i)) - unat (?os ! ?first) + unat (?ss ! (?first + i)) \<le> length ?d
       \<and> decode_tile Z J (compression ir) (window (unat (?os ! (?first + i)) - unat (?os ! ?first))
            (unat (?ss ! (?first + i))) ?d) = (compression ir, Some (Inr (Some (tile (?first + i)))))
       \<and> length (tile (?first + i)) = rawTileSize ir" if i: "i < ?w" for i
  proof -
    note I = readable_sizes [OF r N [OF i]]
    have lo: "unat (?os ! ?first) \<le> unat (?os ! (?first + i))"
      using readable_ordered(1) [OF r _ N [OF i], of ?first] by simp
    have hi: "unat (?os ! (?first + i)) + length (ts ! (?first + i)) \<le> unat (?os ! lst) + length (ts ! lst)"
      using readable_ordered(2) [OF r _ last(1), of "?first + i"] i by (simp add: lst_def)
    have "window (unat (?os ! (?first + i)) - unat (?os ! ?first)) (length (ts ! (?first + i))) ?d = ts ! (?first + i)"
      using lo hi I(5) by (subst window_window) simp_all
    moreover have "decode_tile Z J (compression ir) (ts ! (?first + i)) =
        (compression ir, Some (Inr (Some (tile (?first + i))))) \<and> length (tile (?first + i)) = rawTileSize ir"
      using r N [OF i] by (simp add: readable_def)
    moreover have "length ?d = ?n" using in_b by (rule length_window)
    ultimately show ?thesis using lo hi I(1) by simp
  qed
  have "length (memorizedTiles ir) = ?w * rawTileSize ir" "0 < rawTileSize ir"
    using r by (simp_all add: readable_def)
  from memorize_loop_ok [OF this(1) add_0 this(2) tiles] obtain m where
    m: "memorize_loop Z J ?d ?first [0..<?w] ir = (Some (Inr True), ir\<lparr>memorizedTiles := m\<rparr>)"
    "length m = ?w * rawTileSize ir"
    "\<forall>i < ?w. window (i * rawTileSize ir) (rawTileSize ir) m = tile (?first + i)" by auto
  have "memorizeRawTiles Z J C ir (int y) c =
      (Some (Inr True), ir\<lparr>memorizedTiles := m, memorizedTilesLine := int y\<rparr>, c1)"
    using False y w(1-3) last(1) range d(1) m(1) by (simp add: memorizeRawTiles_def Let_def flip: lst_def)
  moreover have "readable Z J ts tile b (ir\<lparr>memorizedTiles := m, memorizedTilesLine := int y\<rparr>)"
    using r m(2,3) by (simp add: readable_def)
  ultimately show ?thesis using d(2,3) by blast
qed

end


subsection \<open>Lines\<close>

lemma line_bytes_ok:
  assumes w: "whole_tiles im k" and g: "rawTileLineSize ir = rawTileLineSize im" "rawTileSize ir = rawTileSize im"
    "tileWidth ir = tileWidth im" "pixelSize ir = pixelSize im" "tileWidthwise ir = tileWidthwise im"
    and m: "length (memorizedTiles ir) = tileWidthwise im * rawTileSize im"
      "\<And>i. i < tileWidthwise im \<Longrightarrow> window (i * rawTileSize im) (rawTileSize im) (memorizedTiles ir) =
         tile_of im k (row_lines src (tileHeight im) y) i"
    and l: "lig < tileHeight im"
    and s: "\<And>l. y * tileHeight im \<le> l \<Longrightarrow> l < y * tileHeight im + tileHeight im \<Longrightarrow>
       length (src l) = width im * channels im * k"
  shows "line_bytes k ir lig = src (y * tileHeight im + lig)"
proof -
  let ?r = "rawTileLineSize im" and ?w = "tileWidthwise im" and ?line = "src (y * tileHeight im + lig)"
  have len: "length ?line = ?w * ?r" using s [of "y * tileHeight im + lig"] l whole_tiles_line(1) [OF w] by simp
  have part: "window (x * rawTileSize im + lig * ?r) ?r (memorizedTiles ir) = window (x * ?r) ?r ?line"
    if x: "x < ?w" for x
  proof -
    have "lig * ?r + ?r \<le> rawTileSize im" using row_in [OF l, of 0 ?r ?r] w by (simp add: whole_tiles_def)
    then have "window (x * rawTileSize im + lig * ?r) ?r (memorizedTiles ir) =
        window (lig * ?r) ?r (window (x * rawTileSize im) (rawTileSize im) (memorizedTiles ir))"
      by (rule window_window [symmetric])
    then show ?thesis using m(2) [OF x] tile_of_lines(2) [OF w x l s] by simp
  qed
  have "length (window (x * ?r) ?r ?line) = ?r" if "x < ?w" for x
    using row_in [OF that, of 0 ?r ?r] len by (simp add: length_window)
  with part have eq: "fold (\<lambda>x b. splice b (x * ?r) (window (x * rawTileSize im + lig * ?r) ?r (memorizedTiles ir)))
      [0..<?w] [] = concat (map (\<lambda>x. window (x * rawTileSize im + lig * ?r) ?r (memorizedTiles ir)) [0..<?w])"
    by (intro fold_splice_concat) simp
  have "line_bytes k ir lig = concat (map (\<lambda>x. window (x * rawTileSize im + lig * ?r) ?r (memorizedTiles ir)) [0..<?w])"
    using eq by (simp add: line_bytes_def g mult.assoc whole_tiles_line(3) [OF w])
  also have "\<dots> = concat (map (\<lambda>x. window (x * ?r) ?r ?line) [0..<?w])"
    using part by (intro arg_cong [of _ _ concat] map_cong refl) simp
  also have "\<dots> = ?line" using concat_windows [of ?w ?r ?line] len by simp
  finally show ?thesis .
qed


text \<open>Lines of an opened image, read one after the other in any order.\<close>

fun getlines ::
    "nat \<Rightarrow> 'z zlib \<Rightarrow> libjpeg \<Rightarrow> 'c Context \<Rightarrow> Rok4Image \<Rightarrow> nat list \<Rightarrow> 'c \<Rightarrow> (nat \<times> bytes) list option" where
  "getlines k Z J C ir [] c = Some []"
| "getlines k Z J C ir (l # ls) c =
     (case getline_as k Z J C ir l c of
        (Some (Inr r), ir', c') \<Rightarrow> map_option ((#) r) (getlines k Z J C ir' ls c')
      | _ \<Rightarrow> None)"

definition same_shape :: "Rok4Image \<Rightarrow> Rok4Image \<Rightarrow> bool" where
  "same_shape im ir \<longleftrightarrow> rawTileLineSize ir = rawTileLineSize im \<and> rawTileSize ir = rawTileSize im
     \<and> tileWidth ir = tileWidth im \<and> tileHeight ir = tileHeight im \<and> pixelSize ir = pixelSize im
     \<and> tileWidthwise ir = tileWidthwise im \<and> tileHeightwise ir = tileHeightwise im
     \<and> tilesNumber ir = tilesNumber im"

context storage begin

lemma getline_as_ok:
  assumes w: "whole_tiles im k" and g: "same_shape im ir"
    and t: "\<And>x y. x < tileWidthwise im \<Longrightarrow> y < tileHeightwise im \<Longrightarrow>
      tile (y * tileWidthwise im + x) = tile_of im k (row_lines src (tileHeight im) y) x"
    and r: "readable Z J ts tile b ir" and c: "reliable c" "stored c (slab_name ir) = Some b"
    and l: "l < tileHeightwise im * tileHeight im"
    and s: "\<And>l. l < tileHeightwise im * tileHeight im \<Longrightarrow> length (src l) = width im * channels im * k"
  shows "\<exists>ir' c'. getline_as k Z J C ir l c = (Some (Inr (width im * channels im, src l)), ir', c')
    \<and> same_shape im ir' \<and> readable Z J ts tile b ir' \<and> reliable c' \<and> stored c' (slab_name ir') = Some b"
proof -
  let ?th = "tileHeight im" and ?w = "tileWidthwise im"
  let ?y = "l div ?th"
  have th: "0 < ?th" using l by (cases "?th = 0") auto
  have y: "?y < tileHeightwise im" using l th by (simp add: div_less_iff_less_mult)
  with g have "?y < tileHeightwise ir" by (simp add: same_shape_def)
  from memorizeRawTiles_ok [OF r this c] obtain m c1 where
    m: "memorizeRawTiles Z J C ir (int ?y) c =
        (Some (Inr True), ir\<lparr>memorizedTiles := m, memorizedTilesLine := int ?y\<rparr>, c1)"
    "readable Z J ts tile b (ir\<lparr>memorizedTiles := m, memorizedTilesLine := int ?y\<rparr>)"
    "reliable c1" "stored c1 (slab_name ir) = Some b" by blast
  let ?ir = "ir\<lparr>memorizedTiles := m, memorizedTilesLine := int ?y\<rparr>"
  have buf: "length (memorizedTiles ?ir) = ?w * rawTileSize im"
    "\<And>i. i < ?w \<Longrightarrow> window (i * rawTileSize im) (rawTileSize im) (memorizedTiles ?ir) =
         tile_of im k (row_lines src ?th ?y) i"
    using m(2) g t y by (simp_all add: readable_def same_shape_def)
  have rows: "length (src j) = width im * channels im * k" if "?y * ?th \<le> j" "j < ?y * ?th + ?th" for j
    using s row_in [OF y, of 0 ?th ?th] that by simp
  have "line_bytes k ?ir (l mod ?th) = src (?y * ?th + l mod ?th)"
    using line_bytes_ok [OF w _ _ _ _ _ buf _ rows, of "l mod ?th"] g th by (simp add: same_shape_def)
  then have line: "line_bytes k ?ir (l mod ?th) = src l" by simp
  have "width im * channels im = ?w * (tileWidth im * pixelSize im div k)"
    using w whole_tiles_line(4) [OF w] by (simp add: whole_tiles_def)
  then have "getline_as k Z J C ir l c = (Some (Inr (width im * channels im, src l)), ?ir, c1)"
    using m(1) g th line by (simp add: getline_as_def same_shape_def)
  moreover have "same_shape im ?ir" using g by (simp add: same_shape_def)
  moreover have "stored c1 (slab_name ?ir) = Some b" using m(4) by simp
  ultimately show ?thesis using m(2,3) by blast
qed

lemma getlines_ok:
  assumes w: "whole_tiles im k" and g: "same_shape im ir"
    and t: "\<And>x y. x < tileWidthwise im \<Longrightarrow> y < tileHeightwise im \<Longrightarrow>
      tile (y * tileWidthwise im + x) = tile_of im k (row_lines src (tileHeight im) y) x"
    and r: "readable Z J ts tile b ir" and c: "reliable c" "stored c (slab_name ir) = Some b"
    and s: "\<And>l. l < tileHeightwise im * tileHeight im \<Longrightarrow> length (src l) = width im * channels im * k"
    and ls: "\<forall>l \<in> set ls. l < tileHeightwise im * tileHeight im"
  shows "getlines k Z J C ir ls c = Some (map (\<lambda>l. (width im * channels im, src l)) ls)"
  using g r c ls
proof (induction ls arbitrary: ir c)
  case (Cons l ls)
  then have "l < tileHeightwise im * tileHeight im" by simp
  from getline_as_ok [OF w Cons.prems(1) t Cons.prems(2-4) this s] obtain ir' c' where
    "getline_as k Z J C ir l c = (Some (Inr (width im * channels im, src l)), ir', c')"
    "same_shape im ir'" "readable Z J ts tile b ir'" "reliable c'" "stored c' (slab_name ir') = Some b" by blast
  with Cons.IH [of ir' c'] Cons.prems(5) show ?case by simp
qed simp

end


subsection \<open>Properties\<close>

lemma createToWrite_image:
  assumes "createRok4ImageToWrite ok n w h ch sf bps ph cm tw th = Inr (Some im)"
  obtains ph' where "Rok4Image_new w h ch n sf bps ph' cm ALPHA_UNASSOC tw th = Inr im"
    "canRead (int bps) sf" "w mod tw = 0" "h mod th = 0" "0 < tw" "0 < th"
proof -
  let ?ph1 = "if cm = Compression_JPEG \<and> ph = Photometric_RGB then Photometric_YCBCR else ph"
  let ?ph2 = "if cm \<noteq> Compression_JPEG \<and> ?ph1 = Photometric_YCBCR then Photometric_RGB else ?ph1"
  have "Rok4Image_new w h ch n sf bps ?ph2 cm ALPHA_UNASSOC tw th = Inr im" "canWrite (int bps) sf"
    "w mod tw = 0" "h mod th = 0" "0 < tw" "0 < th"
    using assms unfolding createRok4ImageToWrite_def Let_def
    by (auto simp: bindR_Inr_iff split: if_splits)
  then show thesis by (intro that) (auto simp: canRead_def canWrite_def)
qed

lemma canRead_bytes:
  "canRead (int bps) sf \<Longrightarrow> bps div 8 * 8 = bps \<and> 0 < bps div 8
     \<and> (bps = 8 \<and> sf = SampleFormat_UINT \<or> bps = 16 \<and> sf = SampleFormat_UINT \<or> bps = 32 \<and> sf = SampleFormat_FLOAT)"
  by (auto simp: canRead_def)

lemma Rok4Image_new_whole:
  assumes "Rok4Image_new w h ch n sf bps ph cm es tw th = Inr im" "canRead (int bps) sf"
    "w mod tw = 0" "h mod th = 0"
  shows "whole_tiles im (bps div 8)" "width im = w" "channels im = ch" "tileHeight im = th"
    "tileWidthwise im = w div tw" "tileHeightwise im = h div th" "tileHeightwise im * tileHeight im = h"
    "tileWidth im = tw" "compression im = cm" "slab_name im = n"
    "rawTileSize im = tw * th * (ch * (bps div 8))"
    "length (memorizedTiles im) = tileWidthwise im * rawTileSize im" "memorizedTilesLine im = -1"
proof -
  have b: "bps * ch div 8 = ch * (bps div 8)"
    using canRead_bytes [OF assms(2)] by (metis div_mult_swap dvd_triv_right mult.commute)
  have i: "im = \<lparr>slab_name = n, isVector = False, sampleformat = sf, bitspersample = bps,
          photometric = ph, compression = cm, esType = es, width = w, height = h, channels = ch,
          tileWidth = tw, tileHeight = th, pixelSize = ch * (bps div 8), tileWidthwise = w div tw,
          tileHeightwise = h div th, tilesNumber = w div tw * (h div th),
          rawTileSize = tw * th * (ch * (bps div 8)), rawTileLineSize = tw * (ch * (bps div 8)),
          memorizedTiles = replicate (w div tw * (tw * th * (ch * (bps div 8)))) 0,
          memorizedTilesLine = -1, tilesOffset = [], tilesByteCounts = [], position = 0, BufferSize = 0\<rparr>"
    using assms(1) by (auto simp: Rok4Image_new_def Let_def b split: if_splits)
  have d: "w div tw * tw = w" "h div th * th = h" using assms(3,4) by (simp_all add: mod_0_imp_dvd)
  show "whole_tiles im (bps div 8)" using canRead_bytes [OF assms(2)] d
    by (auto simp: whole_tiles_def i sample_bytes_def)
  show "width im = w" "channels im = ch" "tileHeight im = th" "tileWidthwise im = w div tw"
    "tileHeightwise im = h div th" "tileHeightwise im * tileHeight im = h" "tileWidth im = tw"
    "compression im = cm" "slab_name im = n" "rawTileSize im = tw * th * (ch * (bps div 8))"
    "length (memorizedTiles im) = tileWidthwise im * rawTileSize im" "memorizedTilesLine im = -1"
    using d by (simp_all add: i)
qed

text \<open>
  An image in whole tiles, its lines and its encoded tiles: what is needed for a slab to be written, and
  for one that was written to be read.
\<close>

definition slab_source ::
    "'z zlib \<Rightarrow> libjpeg \<Rightarrow> string \<Rightarrow> nat \<Rightarrow> nat \<Rightarrow> nat \<Rightarrow> eSampleFormat \<Rightarrow> nat \<Rightarrow> ePhotometric \<Rightarrow> eCompression \<Rightarrow> eExtraSample
     \<Rightarrow> nat \<Rightarrow> nat \<Rightarrow> bool \<Rightarrow> (nat \<Rightarrow> bytes) \<Rightarrow> (nat \<Rightarrow> nat \<Rightarrow> bytes) \<Rightarrow> Rok4Image \<Rightarrow> bool" where
  "slab_source Z J n w h ch sf bps ph cm es tw th crop src enc im \<longleftrightarrow>
     Rok4Image_new w h ch n sf bps ph cm es tw th = Inr im \<and> canRead (int bps) sf \<and> w mod tw = 0 \<and> h mod th = 0
     \<and> 0 < w \<and> 0 < h \<and> 0 < ch \<and> w < 2 ^ 31 \<and> h < 2 ^ 31 \<and> ch < 2 ^ 31
     \<and> (\<forall>l < h. length (src l) = w * ch * (bps div 8))
     \<and> (\<forall>x < w div tw. \<forall>y < h div th.
          let tile = tile_of im (bps div 8) (row_lines src th y) x in
          computeTile Z J (prepareBuffers im) tile (crop \<and> cm = Compression_JPEG) = Inr (Some (enc x y))
          \<and> enc x y \<noteq> []
          \<and> decode_tile Z J (compression_read cm) (enc x y) = (compression_read cm, Some (Inr (Some tile))))
     \<and> data_start im + room_for (all_tiles enc (w div tw) (h div th)) < 2 ^ 31"

lemma slab_written:
  assumes "storage C pending stored can_open reliable" "reliable c" "can_open n c"
    "slab_source Z J n w h ch sf bps ph cm es tw th crop src enc im" "\<And>l. l < h \<Longrightarrow> getl l = Some (src l)"
  shows "\<exists>im' c1 b. writeImage T Z J C im getl crop c = (Inr True, im', c1) \<and> reliable c1 \<and> stored c1 n = Some b
    \<and> slab_stored T im (all_tiles enc (w div tw) (h div th)) b"
proof -
  let ?k = "bps div 8" and ?w = "w div tw" and ?h = "h div th"
  note a = assms(4) [unfolded slab_source_def]
  have im: "Rok4Image_new w h ch n sf bps ph cm es tw th = Inr im" "canRead (int bps) sf" "w mod tw = 0" "h mod th = 0"
    using a by blast+
  note i = Rok4Image_new_whole [OF im]
  have enc: "computeTile Z J (prepareBuffers im) (tile_of im ?k (row_lines src (tileHeight im) y) x)
       (crop \<and> compression im = Compression_JPEG) = Inr (Some (enc x y)) \<and> enc x y \<noteq> []"
    if "x < tileWidthwise im" "y < tileHeightwise im" for x y
    using a that by (simp add: i Let_def)
  have src: "getl l = Some (src l) \<and> length (src l) = width im * channels im * ?k"
    if "l < tileHeightwise im * tileHeight im" for l
    using a assms(5) [of l] that i by simp
  have "\<not> isVector im" "sample_bytes im = Some ?k" "tilesNumber im = tileHeightwise im * tileWidthwise im"
    using i(1) by (simp_all add: whole_tiles_def)
  from storage.writeImage_ok [OF assms(1) this(1,2) _ assms(2) this(3) _ src enc, of T] assms(3) a i
  show ?thesis by auto
qed

lemma slab_read:
  assumes "storage C pending stored can_open reliable" "reliable c1" "stored c1 n = Some b" "tiff_tags_ok T"
    "slab_stored T im (all_tiles enc (w div tw) (h div th)) b"
    "slab_source Z J n w h ch sf bps ph cm es tw th crop src enc im" "consistent w h"
  shows "\<exists>ir c2. createRok4ImageToRead T consistent C n c1 = (Inr (Some ir), c2)
    \<and> Rok4Image_new w h ch n sf bps (photometric_read ph) (compression_read cm)
        (if ch = 4 \<or> ch = 2 then es else ExtraSample_UNKNOWN) tw th = Inr (ir\<lparr>tilesOffset := [], tilesByteCounts := []\<rparr>)
    \<and> (\<forall>ls. (\<forall>l \<in> set ls. l < h) \<longrightarrow>
         getlines (bps div 8) Z J C ir ls c2 = Some (map (\<lambda>l. (w * ch, src l)) ls))"
proof -
  let ?k = "bps div 8" and ?w = "w div tw" and ?h = "h div th"
  note a = assms(6) [unfolded slab_source_def]
  have im: "Rok4Image_new w h ch n sf bps ph cm es tw th = Inr im" "canRead (int bps) sf" "w mod tw = 0" "h mod th = 0"
    "0 < tw" "0 < th" using a by (auto simp: Rok4Image_new_def split: if_splits)
  have wh: "0 < w" "0 < h" "0 < ch" "w < 2 ^ 31" "h < 2 ^ 31" "ch < 2 ^ 31" using a by blast+
  note i = Rok4Image_new_whole [OF im(1-4)]
  have tw: "tw \<le> w" "th \<le> h" using im(3,4) wh(1,2) by (auto intro: dvd_imp_le)
  have pos: "0 < ?w" "0 < ?h" using tw im(5,6) by (simp_all add: div_greater_zero_iff)
  let ?ts = "all_tiles enc ?w ?h"
  have src: "length (src l) = width im * channels im * ?k" if "l < tileHeightwise im * tileHeight im" for l
    using a that i by simp
  have N: "0 < tilesNumber im" "tilesNumber im = ?h * ?w"
    using i(1,5,6) pos by (simp_all add: whole_tiles_def)
  have "tw < 2 ^ 31" "th < 2 ^ 31" using tw wh(4,5) by simp_all
  from storage.createRok4ImageToRead_ok [where consistent = consistent, OF assms(1-3,5,4) im(1)
      N(1) wh(4-6) this im(2) assms(7)]
  obtain ir c2 os ss where o: "createRok4ImageToRead T consistent C n c1 = (Inr (Some ir), c2)"
    "Rok4Image_new w h ch n sf bps (photometric_read ph) (compression_read cm)
        (if ch = 4 \<or> ch = 2 then es else ExtraSample_UNKNOWN) tw th
       = Inr (ir\<lparr>tilesOffset := [], tilesByteCounts := []\<rparr>)"
    "tilesOffset ir = os" "tilesByteCounts ir = ss" "reliable c2" "stored c2 n = Some b"
    "length os = tilesNumber im" "length ss = tilesNumber im"
    "\<forall>i < tilesNumber im. tile_in (data_start im) (length b) b (os ! i) (ss ! i) (?ts ! i)"
    "\<forall>i j. i < j \<and> j < tilesNumber im \<longrightarrow> unat (os ! i) + length (?ts ! i) \<le> unat (os ! j)"
    by (elim exE conjE)
  note j = Rok4Image_new_whole [OF o(2) im(2-4), simplified]
  define tile where "tile = (\<lambda>i. tile_of im ?k (row_lines src (tileHeight im) (i div ?w)) (i mod ?w))"
  have shape: "same_shape im ir"
    using i j by (auto simp: same_shape_def whole_tiles_def)
  have each: "decode_tile Z J (compression ir) (?ts ! q) = (compression ir, Some (Inr (Some (tile q))))
      \<and> length (tile q) = rawTileSize ir \<and> ?ts ! q \<noteq> []" if q: "q < tilesNumber im" for q
  proof -
    have xy: "q mod ?w < ?w" "q div ?w < ?h"
      using q N(2) pos by (simp_all add: div_less_iff_less_mult)
    have "?ts ! q = enc (q mod ?w) (q div ?w)" using nth_all_tiles [OF xy, of enc] by (simp only: div_mult_mod_eq)
    moreover have "length (tile q) = rawTileSize im"
      unfolding tile_def
    proof (rule tile_of_lines(1) [OF i(1)])
      have "0 < tileHeight im" using im(6) i by simp
      then show "0 < tileHeight im" .
      fix l assume "l < q div ?w * tileHeight im + tileHeight im"
      moreover have "q div ?w * th + th \<le> ?h * th" using row_in [OF xy(2), of 0 th th] by simp
      ultimately have "l < tileHeightwise im * tileHeight im" by (simp add: i)
      then show "length (src l) = width im * channels im * ?k" using src by simp
    qed (use xy i in simp)
    ultimately show ?thesis
      using a xy shape j i by (simp add: tile_def Let_def same_shape_def)
  qed
  have read: "readable Z J ?ts tile b ir"
    unfolding readable_def
  proof (intro conjI)
    show "tilesNumber ir = tileHeightwise ir * tileWidthwise ir" "0 < tileWidthwise ir"
      "length (memorizedTiles ir) = tileWidthwise ir * rawTileSize ir"
      "\<forall>y i. memorizedTilesLine ir = int y \<and> i < tileWidthwise ir \<longrightarrow>
          window (i * rawTileSize ir) (rawTileSize ir) (memorizedTiles ir) = tile (y * tileWidthwise ir + i)"
      using j pos by (simp_all add: whole_tiles_def)
    show "0 < rawTileSize ir" using j(11) wh(3) im(5,6) canRead_bytes [OF im(2)] by simp
    show "length (tilesOffset ir) = tilesNumber ir" "length (tilesByteCounts ir) = tilesNumber ir"
      using o shape by (simp_all add: same_shape_def)
    show "length b < 2 ^ 31" using assms(5) a by (simp add: slab_stored_def)
    show "\<forall>i < tilesNumber ir. tile_in 0 (length b) b (tilesOffset ir ! i) (tilesByteCounts ir ! i) (?ts ! i)
          \<and> decode_tile Z J (compression ir) (?ts ! i) = (compression ir, Some (Inr (Some (tile i))))
          \<and> length (tile i) = rawTileSize ir \<and> ?ts ! i \<noteq> []"
      using o(3,4,9) each shape by (auto simp: same_shape_def tile_in_def)
    show "\<forall>i j. i < j \<and> j < tilesNumber ir \<longrightarrow> unat (tilesOffset ir ! i) + length (?ts ! i) \<le> unat (tilesOffset ir ! j)"
      using o(3,10) shape by (simp add: same_shape_def)
  qed
  have tiles: "tile (y * tileWidthwise im + x) = tile_of im ?k (row_lines src (tileHeight im) y) x"
    if "x < tileWidthwise im" "y < tileHeightwise im" for x y
    using that pos by (simp add: tile_def i)
  have store: "stored c2 (slab_name ir) = Some b" using o(6) j by simp
  have "getlines ?k Z J C ir ls c2 = Some (map (\<lambda>l. (width im * channels im, src l)) ls)"
    if "\<forall>l \<in> set ls. l < h" for ls
    by (rule storage.getlines_ok [OF assms(1) i(1) shape tiles read o(5) store])
      (use src that i in auto)
  with o(1,2) i show ?thesis by auto
qed

text \<open>
  C1: An image written to a slab is read back: \<open>createRok4ImageToWrite\<close>, \<open>writeImage\<close>,
  \<open>createRok4ImageToRead\<close> and \<open>getline\<close> in the sample type of the slab give every line of the
  source image, whatever the order (and repetition) of the lines, through every storage that keeps
  its promises, for each compression whose decoder inverts it on the tiles of the image.
\<close>

theorem image_roundtrip:
  assumes "storage C pending stored can_open reliable" "reliable c" "can_open n c" "tiff_tags_ok T"
    "createRok4ImageToWrite True n w h ch sf bps ph cm tw th = Inr (Some im)"
    "0 < w" "0 < h" "0 < ch" "w < 2 ^ 31" "h < 2 ^ 31" "ch < 2 ^ 31" "consistent w h"
    "\<And>l. l < h \<Longrightarrow> getl l = Some (src l) \<and> length (src l) = w * ch * (bps div 8)"
    "\<And>x y. x < w div tw \<Longrightarrow> y < h div th \<Longrightarrow>
       let tile = tile_of im (bps div 8) (row_lines src th y) x in
       computeTile Z J (prepareBuffers im) tile (crop \<and> cm = Compression_JPEG) = Inr (Some (enc x y))
       \<and> enc x y \<noteq> []
       \<and> decode_tile Z J (compression_read cm) (enc x y) = (compression_read cm, Some (Inr (Some tile)))"
    "data_start im + room_for (all_tiles enc (w div tw) (h div th)) < 2 ^ 31"
  shows "\<exists>im' c1 ir c2. writeImage T Z J C im getl crop c = (Inr True, im', c1)
    \<and> createRok4ImageToRead T consistent C n c1 = (Inr (Some ir), c2)
    \<and> (\<forall>ls. (\<forall>l \<in> set ls. l < h) \<longrightarrow>
         getlines (bps div 8) Z J C ir ls c2 = Some (map (\<lambda>l. (w * ch, src l)) ls))"
proof -
  obtain ph' where "Rok4Image_new w h ch n sf bps ph' cm ALPHA_UNASSOC tw th = Inr im"
    "canRead (int bps) sf" "w mod tw = 0" "h mod th = 0"
    using createToWrite_image [OF assms(5)] .
  then have src: "slab_source Z J n w h ch sf bps ph' cm ALPHA_UNASSOC tw th crop src enc im"
    using assms(6-11,13-15) by (simp add: slab_source_def)
  obtain im' c1 b where w: "writeImage T Z J C im getl crop c = (Inr True, im', c1)" "reliable c1" "stored c1 n = Some b"
    "slab_stored T im (all_tiles enc (w div tw) (h div th)) b"
    using slab_written [OF assms(1-3) src, of getl T] assms(13) by blast
  show ?thesis using w(1) slab_read [where consistent = consistent, OF assms(1) w(2,3) assms(4) w(4) src assms(12)] by blast
qed

lemma two_tiles_computed:
  "computeTile plain_zlib plain_jpeg (prepareBuffers two_tiles) [b] crop = Inr (Some [b])"
  by (simp add: computeTile_def computeRawTile_def prepareBuffers_def two_tiles_def Rok4Image_new_def Let_def)

theorem image_roundtrip_witness:
  "\<exists>im im' c1 ir c2. createRok4ImageToWrite True ''/s'' 2 1 1 SampleFormat_UINT 8 Photometric_GRAY
       Compression_NONE 1 1 = Inr (Some im)
     \<and> writeImage tags6 plain_zlib plain_jpeg file_context im (\<lambda>l. Some [7, 9]) False empty_directory = (Inr True, im', c1)
     \<and> createRok4ImageToRead tags6 (\<lambda>_ _. True) file_context ''/s'' c1 = (Inr (Some ir), c2)
     \<and> getlines 1 plain_zlib plain_jpeg file_context ir [0, 0] c2 = Some [(2, [7, 9]), (2, [7, 9])]"
proof -
  have im: "createRok4ImageToWrite True ''/s'' 2 1 1 SampleFormat_UINT 8 Photometric_GRAY
       Compression_NONE 1 1 = Inr (Some two_tiles)"
    by (simp add: createRok4ImageToWrite_def canWrite_def two_tiles_def Rok4Image_new_def Let_def)
  have "\<exists>im' c1 ir c2. writeImage tags6 plain_zlib plain_jpeg file_context two_tiles (\<lambda>l. Some [7, 9]) False empty_directory
       = (Inr True, im', c1)
    \<and> createRok4ImageToRead tags6 (\<lambda>_ _. True) file_context ''/s'' c1 = (Inr (Some ir), c2)
    \<and> (\<forall>ls. (\<forall>l \<in> set ls. l < 1) \<longrightarrow>
         getlines (8 div 8) plain_zlib plain_jpeg file_context ir ls c2 = Some (map (\<lambda>l. (2 * 1, [7, 9])) ls))"
    by (rule image_roundtrip [OF file_storage.storage_axioms _ _ tags6_ok im,
          where consistent = "\<lambda>_ _. True" and enc = "\<lambda>x y. [[7, 9] ! x]"])
      (simp_all add: two_tiles_fields two_tiles_computed two_tiles_tile two_tiles_room empty_directory_def
        row_lines_def decode_tile_def compression_read_def Let_def)
  with im show ?thesis by (force dest: spec [of _ "[0, 0]"])
qed

text \<open>Two rows of two tiles of one byte; the last tile has no bytes.\<close>

definition four_tiles :: Rok4Image where
  "four_tiles = (projr (Rok4Image_new 2 2 1 ''/s'' SampleFormat_UINT 8 Photometric_GRAY Compression_NONE
     ALPHA_UNASSOC 1 1))\<lparr>tilesOffset := [0, 1, 2, 3], tilesByteCounts := [1, 1, 1, 0]\<rparr>"

lemma four_tiles_fields:
  "slab_name four_tiles = ''/s''" "compression four_tiles = Compression_NONE" "tileHeight four_tiles = 1"
  "tileWidth four_tiles = 1" "pixelSize four_tiles = 1" "tileWidthwise four_tiles = 2"
  "tileHeightwise four_tiles = 2" "rawTileSize four_tiles = 1" "rawTileLineSize four_tiles = 1"
  "memorizedTiles four_tiles = [0, 0]" "memorizedTilesLine four_tiles = -1"
  "tilesOffset four_tiles = [0, 1, 2, 3]" "tilesByteCounts four_tiles = [1, 1, 1, 0]"
  by (simp_all add: four_tiles_def Rok4Image_new_def Let_def numeral_2_eq_2)

lemma four_tiles_read:
  assumes "files c (root_dir c @ ''/s'') = Some [1, 2, 3]" "fconnected c"
  shows "\<exists>s. getData file_context (store_range ''/s'' 0 2 '''' '''') c = (Inr (Some [1, 2]), s, c)"
    "\<exists>s. getData file_context (store_range ''/s'' 2 1 '''' '''') c = (Inr (Some [3]), s, c)"
  using assms by (simp_all add: getData_defs store_range_def file_context_def file_read_def window_def)

text \<open>
  A row of tiles that cannot be read spoils the row read before: its first tiles are already in
  the buffer when the failure is found, but the buffer is still marked as holding the old row. Here
  line 0 is [1, 2]; after an attempt to read line 1, whose second tile is empty, it is [3, 2].
\<close>

theorem failed_row_mixes_tiles:
  "let dir = empty_directory\<lparr>files := [''/r/s'' \<mapsto> [1, 2, 3]]\<rparr>;
       (r1, im1, c1) = getline_u8 plain_zlib plain_jpeg file_context four_tiles 0 dir;
       (r2, im2, c2) = getline_u8 plain_zlib plain_jpeg file_context im1 1 c1;
       (r3, im3, c3) = getline_u8 plain_zlib plain_jpeg file_context im2 0 c2
   in r1 = Some (Inr (2, [1, 2])) \<and> r2 = Some (Inr (0, [])) \<and> r3 = Some (Inr (2, [3, 2]))"
proof -
  let ?dir = "empty_directory\<lparr>files := [''/r/s'' \<mapsto> [1, 2, 3 :: u8]]\<rparr>"
  let ?im1 = "four_tiles\<lparr>memorizedTiles := [1, 2], memorizedTilesLine := 0\<rparr>"
  let ?im2 = "four_tiles\<lparr>memorizedTiles := [3, 2], memorizedTilesLine := 0\<rparr>"
  have f: "files ?dir (root_dir ?dir @ ''/s'') = Some [1, 2, 3]" "fconnected ?dir"
    by (simp_all add: empty_directory_def)
  obtain s where s: "getData file_context (store_range ''/s'' 0 2 '''' '''') ?dir = (Inr (Some [1, 2]), s, ?dir)"
    using four_tiles_read(1) [OF f] by blast
  obtain t where t: "getData file_context (store_range ''/s'' 2 1 '''' '''') ?dir = (Inr (Some [3]), t, ?dir)"
    using four_tiles_read(2) [OF f] by blast
  note eval = memorizeRawTiles_def four_tiles_fields int_size_def Let_def memorize_tile_def decode_tile_def
    upt_conv_Cons window_def splice_def
  have 1: "memorizeRawTiles plain_zlib plain_jpeg file_context four_tiles 0 ?dir
      = (Some (Inr True), ?im1, ?dir)"
    using s [folded Suc_1, unfolded One_nat_def] by (simp add: eval)
  have 2: "memorizeRawTiles plain_zlib plain_jpeg file_context ?im1 1 ?dir
      = (Some (Inr False), ?im2, ?dir)"
    using t by (simp add: eval)
  have 3: "memorizeRawTiles plain_zlib plain_jpeg file_context ?im2 0 ?dir
      = (Some (Inr True), ?im2, ?dir)"
    by (simp add: eval)
  note line = getline_u8_def getline_as_def line_bytes_def four_tiles_fields upt_conv_Cons window_def splice_def
  have l1: "getline_u8 plain_zlib plain_jpeg file_context four_tiles 0 ?dir = (Some (Inr (2, [1, 2])), ?im1, ?dir)"
    using 1 by (simp add: line)
  have l2: "getline_u8 plain_zlib plain_jpeg file_context ?im1 1 ?dir = (Some (Inr (0, [])), ?im2, ?dir)"
    using 2 by (simp add: line)
  have l3: "getline_u8 plain_zlib plain_jpeg file_context ?im2 0 ?dir = (Some (Inr (2, [3, 2])), ?im2, ?dir)"
    using 3 by (simp add: line)
  show ?thesis by (simp only: Let_def l1 l2 l3 prod.case)
qed

end
