(* ===== verification/Mosaic.thy ===== *)
theory Mosaic
  imports SlabRoundtrip
begin

text \<open>
  The images a window of a level is made of: \<open>DataSourceDecoder\<close> and \<open>ImageDecoder\<close>
  (lib/libimage/Decoder.h, Decoder.cpp), \<open>EmptyImage\<close> (EmptyImage.h) and \<open>CompoundImage\<close>
  (CompoundImage.cpp). A line is read into a buffer of one of three types; the result is the number
  of elements and the bytes they have. \<open>F\<close> is the representation of an integer as a float.
\<close>

subsection \<open>Types of a line\<close>

datatype sample_type = U8 | U16 | F32

fun sizeof :: "sample_type \<Rightarrow> nat" where
  "sizeof U8 = 1" | "sizeof U16 = 2" | "sizeof F32 = 4"

fun convert_int :: "(int \<Rightarrow> bytes) \<Rightarrow> sample_type \<Rightarrow> int \<Rightarrow> bytes" where
  "convert_int F U8 v = [word_of_int v]"
| "convert_int F U16 v = le_bytes 2 (unat (word_of_int v :: u16))"
| "convert_int F F32 v = F v"

subsection \<open>DataSourceDecoder\<close>

datatype tile_decoder = DJpeg | DPng | DLzw | DDeflate | DPackBits

fun decode_with :: "'z zlib \<Rightarrow> libjpeg \<Rightarrow> tile_decoder \<Rightarrow> bytes option \<Rightarrow> decoded" where
  "decode_with Z J DJpeg enc = JpegDecoder J enc"
| "decode_with Z J DPng enc = PngDecoder Z enc"
| "decode_with Z J DLzw enc = LzwDecoder enc"
| "decode_with Z J DDeflate enc = DeflateDecoder Z enc"
| "decode_with Z J DPackBits enc = PackBitsDecoder enc"

record DataSourceDecoder =
  decoder :: tile_decoder
  encData :: "StoreDataSource option"
  decData :: "bytes option"

definition DataSourceDecoder_new :: "tile_decoder \<Rightarrow> StoreDataSource \<Rightarrow> DataSourceDecoder" where
  "DataSourceDecoder_new d s = \<lparr>decoder = d, encData = Some s, decData = None\<rparr>"

definition decoder_getData ::
    "'z zlib \<Rightarrow> libjpeg \<Rightarrow> 'c Context \<Rightarrow> DataSourceDecoder \<Rightarrow> 'c \<Rightarrow> decoded \<times> DataSourceDecoder \<times> 'c" where
  "decoder_getData Z J C d c =
     (case (decData d, encData d) of
        (None, Some s) \<Rightarrow>
          (case getData C s c of
             (Inl f, s', c') \<Rightarrow> (Some (Inl f), d\<lparr>encData := Some s'\<rparr>, c')
           | (Inr enc, s', c') \<Rightarrow>
               (case decode_with Z J (decoder d) enc of
                  None \<Rightarrow> (None, d\<lparr>encData := Some s'\<rparr>, c')
                | Some (Inl f) \<Rightarrow> (Some (Inl f), d\<lparr>encData := Some s'\<rparr>, c')
                | Some (Inr None) \<Rightarrow> (Some (Inr None), d\<lparr>encData := None\<rparr>, c')
                | Some (Inr (Some x)) \<Rightarrow> (Some (Inr (Some x)), d\<lparr>encData := Some s', decData := Some x\<rparr>, c')))
      | _ \<Rightarrow> (Some (Inr (decData d)), d, c))"

text \<open>The data source of a tile: as it is stored, or decoded.\<close>

datatype tile_source = Plain StoreDataSource | Decoding DataSourceDecoder

fun source_getData ::
    "'z zlib \<Rightarrow> libjpeg \<Rightarrow> 'c Context \<Rightarrow> tile_source \<Rightarrow> 'c \<Rightarrow> decoded \<times> tile_source \<times> 'c" where
  "source_getData Z J C (Plain s) c = (case getData C s c of (r, s', c') \<Rightarrow> (Some r, Plain s', c'))"
| "source_getData Z J C (Decoding d) c =
     (case decoder_getData Z J C d c of (r, d', c') \<Rightarrow> (r, Decoding d', c'))"

subsection \<open>ImageDecoder\<close>

record ImageDecoder =
  dataSource :: "tile_source option"
  source_width :: nat
  margin_top :: nat
  margin_left :: nat
  channel_size :: nat
  rawData :: "bytes option"
  id_width :: nat
  id_height :: nat
  id_channels :: nat

definition ImageDecoder_new ::
    "tile_source \<Rightarrow> nat \<Rightarrow> nat \<Rightarrow> nat \<Rightarrow> nat \<Rightarrow> nat \<Rightarrow> nat \<Rightarrow> nat \<Rightarrow> nat \<Rightarrow> fault + ImageDecoder" where
  "ImageDecoder_new ds sw sh ch ml mt mr mb cs =
     (if sw < ml + mr \<or> sh < mt + mb then Inl NegativeSize
      else Inr \<lparr>dataSource = Some ds, source_width = sw, margin_top = mt, margin_left = ml,
        channel_size = cs, rawData = None, id_width = sw - ml - mr, id_height = sh - mt - mb,
        id_channels = ch\<rparr>)"

definition bytes_at :: "bytes \<Rightarrow> nat \<Rightarrow> nat \<Rightarrow> fault + bytes" where
  "bytes_at raw off n = (if off + n \<le> length raw then Inr (window off n raw) else Inl OverRead)"

text \<open>
  The three \<open>getDataline\<close>. When the samples have a size none of the branches is for, the buffer
  is left as it was. A line of 16 bit samples asked for as float is taken byte by byte, since
  \<open>rawData\<close> points to bytes.
\<close>

definition getDataline ::
    "(int \<Rightarrow> bytes) \<Rightarrow> sample_type \<Rightarrow> ImageDecoder \<Rightarrow> bytes \<Rightarrow> nat \<Rightarrow> fault + nat \<times> bytes" where
  "getDataline F T im raw line =
     (let n = id_width im * id_channels im;
          first = ((margin_top im + line) * source_width im + margin_left im) * id_channels im;
          conv = (\<lambda>b. concat (map (\<lambda>x. convert_int F T (uint x)) b));
          read = (\<lambda>off k g. bindR (bytes_at raw off k) (\<lambda>b. Inr (n, g b)))
      in case T of
           U8 \<Rightarrow> read first n (\<lambda>b. b)
         | U16 \<Rightarrow>
             if channel_size im = 1 then read first n conv
             else if channel_size im = 2 then read (first * 2) (n * 2) (\<lambda>b. b)
             else Inl Uninitialised
         | F32 \<Rightarrow>
             if channel_size im = 1 then read first n conv
             else if channel_size im = 2 then read (first * 2) n conv
             else if channel_size im = 4 then read (first * 4) (n * 4) (\<lambda>b. b)
             else Inl Uninitialised)"

definition getNoDataline :: "sample_type \<Rightarrow> ImageDecoder \<Rightarrow> nat \<times> bytes" where
  "getNoDataline T im =
     (id_width im * id_channels im, replicate (id_width im * id_channels im * sizeof T) 0)"

type_synonym line_result = "(fault + nat \<times> bytes) option"

definition decoder_getline ::
    "(int \<Rightarrow> bytes) \<Rightarrow> sample_type \<Rightarrow> 'z zlib \<Rightarrow> libjpeg \<Rightarrow> 'c Context \<Rightarrow> ImageDecoder \<Rightarrow> nat \<Rightarrow> 'c \<Rightarrow>
     line_result \<times> ImageDecoder \<times> 'c" where
  "decoder_getline F T Z J C im line c =
     (case (rawData im, dataSource im) of
        (Some raw, _) \<Rightarrow> (Some (getDataline F T im raw line), im, c)
      | (None, None) \<Rightarrow> (Some (Inr (getNoDataline T im)), im, c)
      | (None, Some ds) \<Rightarrow>
          (case source_getData Z J C ds c of
             (None, ds', c') \<Rightarrow> (None, im\<lparr>dataSource := Some ds'\<rparr>, c')
           | (Some (Inl f), ds', c') \<Rightarrow> (Some (Inl f), im\<lparr>dataSource := Some ds'\<rparr>, c')
           | (Some (Inr None), _, c') \<Rightarrow> (Some (Inr (getNoDataline T im)), im\<lparr>dataSource := None\<rparr>, c')
           | (Some (Inr (Some raw)), ds', c') \<Rightarrow>
               (Some (getDataline F T im raw line), im\<lparr>dataSource := Some ds', rawData := Some raw\<rparr>, c')))"

subsection \<open>EmptyImage\<close>

record EmptyImage =
  em_width :: nat
  em_height :: nat
  em_channels :: nat
  color :: "int list"

definition EmptyImage_new :: "nat \<Rightarrow> nat \<Rightarrow> nat \<Rightarrow> int list \<Rightarrow> fault + EmptyImage" where
  "EmptyImage_new w h ch col =
     (if length col < ch then Inl OverRead
      else Inr \<lparr>em_width = w, em_height = h, em_channels = ch, color = take ch col\<rparr>)"

definition empty_getline :: "(int \<Rightarrow> bytes) \<Rightarrow> sample_type \<Rightarrow> EmptyImage \<Rightarrow> nat \<Rightarrow> nat \<times> bytes" where
  "empty_getline F T im line =
     (em_width im * em_channels im,
      concat (replicate (em_width im) (concat (map (convert_int F T) (color im)))))"

subsection \<open>The tiles of a window\<close>

datatype tile_image = DecodedTile ImageDecoder | NodataTile EmptyImage

fun tile_width :: "tile_image \<Rightarrow> nat" where
  "tile_width (DecodedTile im) = id_width im" | "tile_width (NodataTile im) = em_width im"

fun tile_height :: "tile_image \<Rightarrow> nat" where
  "tile_height (DecodedTile im) = id_height im" | "tile_height (NodataTile im) = em_height im"

fun tile_channels :: "tile_image \<Rightarrow> nat" where
  "tile_channels (DecodedTile im) = id_channels im" | "tile_channels (NodataTile im) = em_channels im"

fun tile_getline ::
    "(int \<Rightarrow> bytes) \<Rightarrow> sample_type \<Rightarrow> 'z zlib \<Rightarrow> libjpeg \<Rightarrow> 'c Context \<Rightarrow> tile_image \<Rightarrow> nat \<Rightarrow> 'c \<Rightarrow>
     line_result \<times> tile_image \<times> 'c" where
  "tile_getline F T Z J C (DecodedTile im) line c =
     (case decoder_getline F T Z J C im line c of (r, im', c') \<Rightarrow> (r, DecodedTile im', c'))"
| "tile_getline F T Z J C (NodataTile im) line c = (Some (Inr (empty_getline F T im line)), NodataTile im, c)"

subsection \<open>CompoundImage\<close>

text \<open>
  The images are a list of rows; \<open>y\<close> is the current row and \<open>top\<close> its first line. The class is
  written against the interface \<open>Image\<close>: \<open>G\<close> is \<open>getline\<close>, \<open>ht\<close> and \<open>wd\<close> the dimensions.
\<close>

record 'i CompoundImage =
  images :: "'i list list"
  cur_y :: nat
  cur_top :: nat
  ci_width :: nat
  ci_height :: nat
  ci_channels :: nat

definition first_of_row :: "'i list list \<Rightarrow> nat \<Rightarrow> fault + 'i" where
  "first_of_row rows y = bindR (elem rows y) (\<lambda>row. elem row 0)"

fun sum_first :: "('i \<Rightarrow> nat) \<Rightarrow> 'i list list \<Rightarrow> fault + nat" where
  "sum_first ht [] = Inr 0"
| "sum_first ht (row # rows) = bindR (elem row 0) (\<lambda>i. bindR (sum_first ht rows) (\<lambda>h. Inr (ht i + h)))"

definition CompoundImage_new ::
    "('i \<Rightarrow> nat) \<Rightarrow> ('i \<Rightarrow> nat) \<Rightarrow> ('i \<Rightarrow> nat) \<Rightarrow> 'i list list \<Rightarrow> fault + 'i CompoundImage" where
  "CompoundImage_new wd ht chs rows =
     bindR (elem rows 0) (\<lambda>row. bindR (elem row 0) (\<lambda>i.
     bindR (sum_first ht rows) (\<lambda>h.
       Inr \<lparr>images = rows, cur_y = 0, cur_top = 0, ci_width = sum_list (map wd row),
         ci_height = h, ci_channels = chs i\<rparr>)))"

function move_down :: "('i \<Rightarrow> nat) \<Rightarrow> 'i list list \<Rightarrow> nat \<Rightarrow> nat \<Rightarrow> nat \<Rightarrow> fault + nat \<times> nat" where
  "move_down ht rows line y first =
     (case first_of_row rows y of
        Inl f \<Rightarrow> Inl f
      | Inr i \<Rightarrow> if first + ht i \<le> line then move_down ht rows line (Suc y) (first + ht i) else Inr (y, first))"
  by pat_completeness auto
termination
  by (relation "measure (\<lambda>(ht, rows, line, y, first). length rows - y)")
    (auto simp: first_of_row_def elem_def split: if_splits)

declare move_down.simps [simp del]

fun move_up :: "('i \<Rightarrow> nat) \<Rightarrow> 'i list list \<Rightarrow> nat \<Rightarrow> nat \<Rightarrow> nat \<Rightarrow> fault + nat \<times> nat" where
  "move_up ht rows line y first =
     (if first \<le> line then Inr (y, first)
      else case y of
        0 \<Rightarrow> Inl OverRead
      | Suc y' \<Rightarrow>
          (case first_of_row rows y' of
             Inl f \<Rightarrow> Inl f
           | Inr i \<Rightarrow> if first < ht i then Inl NegativeSize else move_up ht rows line y' (first - ht i)))"

declare move_up.simps [simp del]

text \<open>The lines of the images of a row, one behind the other.\<close>

fun join_lines ::
    "('i \<Rightarrow> nat \<Rightarrow> 'c \<Rightarrow> line_result \<times> 'i \<times> 'c) \<Rightarrow> 'i list \<Rightarrow> nat \<Rightarrow> 'c \<Rightarrow>
     (fault + bytes) option \<times> 'i list \<times> 'c" where
  "join_lines G [] line c = (Some (Inr []), [], c)"
| "join_lines G (i # is) line c =
     (case G i line c of
        (Some (Inr (n, b)), i', c1) \<Rightarrow>
          (case join_lines G is line c1 of
             (Some (Inr bs), is', c2) \<Rightarrow> (Some (Inr (b @ bs)), i' # is', c2)
           | (r, is', c2) \<Rightarrow> (r, i' # is', c2))
      | (Some (Inl f), i', c1) \<Rightarrow> (Some (Inl f), i' # is, c1)
      | (None, i', c1) \<Rightarrow> (None, i' # is, c1))"

definition compound_getline ::
    "('i \<Rightarrow> nat \<Rightarrow> 'c \<Rightarrow> line_result \<times> 'i \<times> 'c) \<Rightarrow> ('i \<Rightarrow> nat) \<Rightarrow> 'i CompoundImage \<Rightarrow> nat \<Rightarrow> 'c \<Rightarrow>
     line_result \<times> 'i CompoundImage \<times> 'c" where
  "compound_getline G ht im line c =
     (if line \<ge> ci_height im then (Some (Inr (0, [])), im, c)
      else
        case bindR (move_down ht (images im) line (cur_y im) (cur_top im)) (\<lambda>(y, first).
               move_up ht (images im) line y first) of
          Inl f \<Rightarrow> (Some (Inl f), im, c)
        | Inr (y, first) \<Rightarrow>
            (case join_lines G (images im ! y) (line - first) c of
               (r, row', c') \<Rightarrow>
                 (map_option (\<lambda>r. bindR r (\<lambda>b. Inr (ci_width im * ci_channels im, b))) r,
                  im\<lparr>images := (images im)[y := row'], cur_y := y, cur_top := first\<rparr>, c')))"


subsection \<open>Lines of a compound image\<close>

text \<open>
  What an image has to promise: \<open>rows_of i f\<close> says that image \<open>i\<close> has the lines \<open>f\<close>, whatever was
  read before. Reading does not use the storage any more.
\<close>

locale image_rows =
  fixes G :: "'i \<Rightarrow> nat \<Rightarrow> 'c \<Rightarrow> line_result \<times> 'i \<times> 'c"
    and ht :: "'i \<Rightarrow> nat"
    and rows_of :: "'i \<Rightarrow> (nat \<Rightarrow> nat \<times> bytes) \<Rightarrow> bool"
  assumes row_law:
    "rows_of i f \<Longrightarrow> l < ht i \<Longrightarrow>
       \<exists>i'. G i l c = (Some (Inr (f l)), i', c) \<and> rows_of i' f \<and> ht i' = ht i"

text \<open>The first line of each row of images.\<close>

definition row_start :: "(nat \<Rightarrow> nat) \<Rightarrow> nat \<Rightarrow> nat" where
  "row_start hs y = sum_list (map hs [0..<y])"

lemma row_start_simps [simp]: "row_start hs 0 = 0" "row_start hs (Suc y) = row_start hs y + hs y"
  by (simp_all add: row_start_def)

definition mosaic ::
    "('i \<Rightarrow> nat) \<Rightarrow> ('i \<Rightarrow> (nat \<Rightarrow> nat \<times> bytes) \<Rightarrow> bool) \<Rightarrow> (nat \<Rightarrow> nat) \<Rightarrow>
     (nat \<Rightarrow> nat \<Rightarrow> nat \<Rightarrow> nat \<times> bytes) \<Rightarrow> nat \<Rightarrow> nat \<Rightarrow> 'i CompoundImage \<Rightarrow> bool" where
  "mosaic ht rows_of hs f nby nbx im \<longleftrightarrow>
     length (images im) = nby \<and> 0 < nbx
     \<and> (\<forall>y < nby. length (images im ! y) = nbx
          \<and> (\<forall>x < nbx. rows_of (images im ! y ! x) (f y x) \<and> ht (images im ! y ! x) = hs y))
     \<and> cur_y im < nby \<and> cur_top im = row_start hs (cur_y im) \<and> ci_height im = row_start hs nby"

lemma first_of_row_ok:
  "y < length rows \<Longrightarrow> rows ! y \<noteq> [] \<Longrightarrow> first_of_row rows y = Inr (rows ! y ! 0)"
  by (simp add: first_of_row_def elem_def)

lemma move_down_ok:
  assumes "length rows = nby" "\<And>y. y < nby \<Longrightarrow> rows ! y \<noteq> [] \<and> ht (rows ! y ! 0) = hs y"
    "y < nby" "line < row_start hs nby"
  shows "\<exists>y'. move_down ht rows line y (row_start hs y) = Inr (y', row_start hs y')
    \<and> y' < nby \<and> line < row_start hs (Suc y')"
  using assms(3)
proof (induction "nby - y" arbitrary: y rule: less_induct)
  case less
  have f: "first_of_row rows y = Inr (rows ! y ! 0)" "ht (rows ! y ! 0) = hs y"
    using assms(1,2) less.prems by (simp_all add: first_of_row_ok)
  show ?case
  proof (cases "row_start hs (Suc y) \<le> line")
    case True
    with assms(4) have "Suc y \<noteq> nby" by auto
    with less.prems have "Suc y < nby" by simp
    with less.hyps [of "Suc y"] less.prems True f show ?thesis
      by (subst move_down.simps) simp
  next
    case False
    with f less.prems show ?thesis by (subst move_down.simps) simp
  qed
qed

lemma move_up_ok:
  assumes "length rows = nby" "\<And>y. y < nby \<Longrightarrow> rows ! y \<noteq> [] \<and> ht (rows ! y ! 0) = hs y"
    "y < nby" "line < row_start hs (Suc y)"
  shows "\<exists>y'. move_up ht rows line y (row_start hs y) = Inr (y', row_start hs y')
    \<and> y' < nby \<and> row_start hs y' \<le> line \<and> line < row_start hs (Suc y')"
  using assms(3,4)
proof (induction y)
  case 0
  then show ?case by (subst move_up.simps) simp
next
  case (Suc y)
  show ?case
  proof (cases "row_start hs (Suc y) \<le> line")
    case True
    with Suc.prems show ?thesis by (subst move_up.simps) simp
  next
    case False
    have "first_of_row rows y = Inr (rows ! y ! 0)" "ht (rows ! y ! 0) = hs y"
      using assms(1,2) Suc.prems by (simp_all add: first_of_row_ok)
    with False Suc.IH Suc.prems show ?thesis by (subst move_up.simps) simp
  qed
qed

context image_rows begin

lemma join_lines_ok:
  assumes "\<And>x. x < length is \<Longrightarrow> rows_of (is ! x) (f x) \<and> l < ht (is ! x)"
  shows "\<exists>is'. join_lines G is l c = (Some (Inr (concat (map (\<lambda>x. snd (f x l)) [0..<length is]))), is', c)
    \<and> length is' = length is \<and> (\<forall>x < length is. rows_of (is' ! x) (f x) \<and> ht (is' ! x) = ht (is ! x))"
  using assms
proof (induction "is" arbitrary: f)
  case (Cons i "is")
  obtain i' where i: "G i l c = (Some (Inr (f 0 l)), i', c)" "rows_of i' (f 0)" "ht i' = ht i"
    using row_law [of i "f 0" l c] Cons.prems [of 0] by auto
  have "\<exists>is'. join_lines G is l c =
        (Some (Inr (concat (map (\<lambda>x. snd (f (Suc x) l)) [0..<length is]))), is', c)
      \<and> length is' = length is \<and> (\<forall>x < length is. rows_of (is' ! x) (f (Suc x)) \<and> ht (is' ! x) = ht (is ! x))"
    by (rule Cons.IH) (use Cons.prems in force)
  then obtain is' where r: "join_lines G is l c =
        (Some (Inr (concat (map (\<lambda>x. snd (f (Suc x) l)) [0..<length is]))), is', c)"
    "length is' = length is" "\<forall>x < length is. rows_of (is' ! x) (f (Suc x)) \<and> ht (is' ! x) = ht (is ! x)"
    by blast
  have "concat (map (\<lambda>x. snd (f x l)) [0..<Suc (length is)])
      = snd (f 0 l) @ concat (map (\<lambda>x. snd (f (Suc x) l)) [0..<length is])"
    by (simp add: upt_conv_Cons map_Suc_upt [symmetric] comp_def del: upt_Suc)
  moreover obtain n b where "f 0 l = (n, b)" by fastforce
  ultimately have "join_lines G (i # is) l c =
      (Some (Inr (concat (map (\<lambda>x. snd (f x l)) [0..<length (i # is)]))), i' # is', c)"
    using i(1) r(1) by (simp del: upt_Suc)
  moreover have "\<forall>x < length (i # is). rows_of ((i' # is') ! x) (f x) \<and> ht ((i' # is') ! x) = ht ((i # is) ! x)"
    using i(2,3) r(3) by (auto simp: nth_Cons split: nat.split)
  ultimately show ?case using r(2) by (intro exI [of _ "i' # is'"]) simp
qed simp

lemma compound_getline_ok:
  assumes m: "mosaic ht rows_of hs f nby nbx im" and l: "l < row_start hs nby"
  shows "\<exists>y im'. compound_getline G ht im l c =
      (Some (Inr (ci_width im * ci_channels im,
         concat (map (\<lambda>x. snd (f y x (l - row_start hs y))) [0..<nbx]))), im', c)
    \<and> mosaic ht rows_of hs f nby nbx im' \<and> ci_width im' = ci_width im \<and> ci_channels im' = ci_channels im
    \<and> y < nby \<and> row_start hs y \<le> l \<and> l < row_start hs (Suc y)"
proof -
  have g: "length (images im) = nby" "\<And>y. y < nby \<Longrightarrow> images im ! y \<noteq> [] \<and> ht (images im ! y ! 0) = hs y"
    "cur_y im < nby" "cur_top im = row_start hs (cur_y im)" "ci_height im = row_start hs nby"
    using m by (auto simp: mosaic_def)
  obtain y1 where d: "move_down ht (images im) l (cur_y im) (cur_top im) = Inr (y1, row_start hs y1)"
    "y1 < nby" "l < row_start hs (Suc y1)"
    using move_down_ok [OF g(1,2,3) l] g(4) by auto
  obtain y where u: "move_up ht (images im) l y1 (row_start hs y1) = Inr (y, row_start hs y)"
    "y < nby" "row_start hs y \<le> l" "l < row_start hs (Suc y)"
    using move_up_ok [OF g(1,2) d(2,3)] by blast
  let ?row = "images im ! y" and ?l = "l - row_start hs y"
  have row: "length ?row = nbx" "\<And>x. x < nbx \<Longrightarrow> rows_of (?row ! x) (f y x) \<and> ht (?row ! x) = hs y"
    using m u(2) by (simp_all add: mosaic_def)
  have "?l < hs y" using u(3,4) by simp
  then obtain row' where j: "join_lines G ?row ?l c =
      (Some (Inr (concat (map (\<lambda>x. snd (f y x ?l)) [0..<nbx]))), row', c)"
    "length row' = nbx" "\<forall>x < nbx. rows_of (row' ! x) (f y x) \<and> ht (row' ! x) = hs y"
    using join_lines_ok [of ?row "f y" ?l c] row by auto
  let ?im = "im\<lparr>images := (images im)[y := row'], cur_y := y, cur_top := row_start hs y\<rparr>"
  have "compound_getline G ht im l c = (Some (Inr (ci_width im * ci_channels im,
         concat (map (\<lambda>x. snd (f y x ?l)) [0..<nbx]))), ?im, c)"
    using d(1) u(1) j(1) l g(5) by (simp add: compound_getline_def)
  moreover have "mosaic ht rows_of hs f nby nbx ?im"
    using m u(2) j(2,3) by (auto simp: mosaic_def nth_list_update)
  ultimately show ?thesis using u(2-4)
    by (intro exI [of _ y] exI [of _ ?im]) simp
qed

end



subsection \<open>The tiles promise their lines\<close>

text \<open>A data source gives \<open>r\<close> without using the storage any more.\<close>

fun source_gives :: "'z zlib \<Rightarrow> libjpeg \<Rightarrow> tile_source \<Rightarrow> bytes option \<Rightarrow> bool" where
  "source_gives Z J (Plain s) r \<longleftrightarrow> alreadyTried s \<and> sd_data s = r"
| "source_gives Z J (Decoding d) r \<longleftrightarrow>
     (case decData d of
        Some x \<Rightarrow> r = Some x
      | None \<Rightarrow>
          (case encData d of
             None \<Rightarrow> r = None
           | Some s \<Rightarrow> alreadyTried s \<and> decode_with Z J (decoder d) (sd_data s) = Some (Inr r)))"

lemma source_law:
  assumes "source_gives Z J ds r"
  shows "\<exists>ds'. source_getData Z J C ds c = (Some (Inr r), ds', c) \<and> source_gives Z J ds' r"
proof (cases ds)
  case (Plain s)
  with assms show ?thesis by (simp add: getData_def)
next
  case (Decoding d)
  show ?thesis
  proof (cases "decData d")
    case (Some x)
    with Decoding assms show ?thesis by (simp add: decoder_getData_def)
  next
    case None
    show ?thesis
    proof (cases "encData d")
      case enc: None
      with Decoding None assms show ?thesis by (simp add: decoder_getData_def)
    next
      case (Some s)
      with Decoding None assms show ?thesis
        by (cases r) (simp_all add: decoder_getData_def getData_def)
    qed
  qed
qed

definition tile_data :: "'z zlib \<Rightarrow> libjpeg \<Rightarrow> ImageDecoder \<Rightarrow> bytes option \<Rightarrow> bool" where
  "tile_data Z J im r \<longleftrightarrow>
     (case rawData im of
        Some raw \<Rightarrow> r = Some raw
      | None \<Rightarrow> (case dataSource im of None \<Rightarrow> r = None | Some ds \<Rightarrow> source_gives Z J ds r))"

definition data_line ::
    "(int \<Rightarrow> bytes) \<Rightarrow> sample_type \<Rightarrow> ImageDecoder \<Rightarrow> bytes option \<Rightarrow> nat \<Rightarrow> fault + nat \<times> bytes" where
  "data_line F T im r l =
     (case r of Some raw \<Rightarrow> getDataline F T im raw l | None \<Rightarrow> Inr (getNoDataline T im))"

fun tile_rows ::
    "(int \<Rightarrow> bytes) \<Rightarrow> sample_type \<Rightarrow> 'z zlib \<Rightarrow> libjpeg \<Rightarrow> tile_image \<Rightarrow> (nat \<Rightarrow> nat \<times> bytes) \<Rightarrow> bool" where
  "tile_rows F T Z J (DecodedTile im) f \<longleftrightarrow>
     (\<exists>r. tile_data Z J im r \<and> (\<forall>l < id_height im. data_line F T im r l = Inr (f l)))"
| "tile_rows F T Z J (NodataTile im) f \<longleftrightarrow> (\<forall>l < em_height im. f l = empty_getline F T im l)"

lemma data_line_update [simp]:
  "data_line F T (im\<lparr>dataSource := ds\<rparr>) r l = data_line F T im r l"
  "data_line F T (im\<lparr>dataSource := ds, rawData := raw\<rparr>) r l = data_line F T im r l"
  by (simp_all add: data_line_def getDataline_def getNoDataline_def Let_def split: option.split)

lemma decoder_getline_ok:
  assumes "tile_data Z J im r"
  shows "\<exists>im'. decoder_getline F T Z J C im l c = (Some (data_line F T im r l), im', c)
    \<and> tile_data Z J im' r \<and> id_height im' = id_height im
    \<and> (\<forall>l. data_line F T im' r l = data_line F T im r l)"
proof (cases "rawData im")
  case (Some raw)
  with assms show ?thesis by (simp add: decoder_getline_def tile_data_def data_line_def)
next
  case raw: None
  show ?thesis
  proof (cases "dataSource im")
    case None
    with raw assms show ?thesis by (simp add: decoder_getline_def tile_data_def data_line_def)
  next
    case (Some ds)
    with raw assms have g: "source_gives Z J ds r" by (simp add: tile_data_def)
    obtain ds' where d: "source_getData Z J C ds c = (Some (Inr r), ds', c)" "source_gives Z J ds' r"
      using source_law [OF g, of C c] by (elim exE conjE)
    show ?thesis
    proof (cases r)
      case None
      have "decoder_getline F T Z J C im l c = (Some (data_line F T im r l), im\<lparr>dataSource := None\<rparr>, c)"
        using raw Some d(1) None by (simp add: decoder_getline_def data_line_def)
      with raw None show ?thesis by (intro exI [of _ "im\<lparr>dataSource := None\<rparr>"]) (simp add: tile_data_def)
    next
      case raw': (Some b)
      let ?im = "im\<lparr>dataSource := Some ds', rawData := Some b\<rparr>"
      have "decoder_getline F T Z J C im l c = (Some (data_line F T im r l), ?im, c)"
        using raw Some d(1) raw' by (simp add: decoder_getline_def data_line_def)
      with raw' show ?thesis by (intro exI [of _ ?im]) (simp add: tile_data_def)
    qed
  qed
qed

interpretation tile_lines: image_rows "tile_getline F T Z J C" tile_height "tile_rows F T Z J"
  for F T Z J and C :: "'c Context"
proof
  fix i :: tile_image and f l and c :: 'c
  assume a: "tile_rows F T Z J i f" "l < tile_height i"
  show "\<exists>i'. tile_getline F T Z J C i l c = (Some (Inr (f l)), i', c) \<and> tile_rows F T Z J i' f
    \<and> tile_height i' = tile_height i"
  proof (cases i)
    case (DecodedTile im)
    with a obtain r where r: "tile_data Z J im r" "\<forall>l < id_height im. data_line F T im r l = Inr (f l)"
      by auto
    obtain im' where "decoder_getline F T Z J C im l c = (Some (data_line F T im r l), im', c)"
      "tile_data Z J im' r" "id_height im' = id_height im" "\<forall>l. data_line F T im' r l = data_line F T im r l"
      using decoder_getline_ok [OF r(1), of F T C l c] by blast
    with DecodedTile a(2) r(2) show ?thesis by (intro exI [of _ "DecodedTile im'"]) auto
  next
    case (NodataTile im)
    with a show ?thesis by simp
  qed
qed


end
