(* ===== verification/Level.thy ===== *)
theory Level
  imports Mosaic FileStore Format "HOL-Library.Signed_Division"
begin

text \<open>
  A level of a pyramid (rok4server/Level.cpp): from the indices of a tile to the slab and the place
  in its index, the data source or the image of a tile, and the image of a window of pixels made of
  tiles. Resolutions and bounding boxes, which are doubles, are not part of the model: a window is
  given in pixels of the level, as \<open>getwindow\<close> takes it.
\<close>

subsection \<open>Euclidean division\<close>

definition euclideanDivisionQuotient :: "int \<Rightarrow> int \<Rightarrow> int" where
  "euclideanDivisionQuotient i n =
     (let q = to_int32 (i sdiv n);
          q = (if q < 0 then q - 1 else q)
      in if q = 0 \<and> i < 0 then -1 else q)"

definition euclideanDivisionRemainder :: "int \<Rightarrow> int \<Rightarrow> int" where
  "euclideanDivisionRemainder i n =
     (let r = to_int32 (i smod n) in if r < 0 then r + n else r)"

subsection \<open>Levels\<close>

record TileMatrix =
  tm_id :: string
  tileW :: nat
  tileH :: nat

record Level =
  racine :: string
  pathDepth :: int
  tm :: TileMatrix
  level_format :: eformat_data
  tilesPerWidth :: u32
  tilesPerHeight :: u32
  level_channels :: nat
  nodataValue :: "int list"

text \<open>\<open>P\<close> is \<open>getPath\<close> of the level's context.\<close>

type_synonym path_of_slab = "string \<Rightarrow> int \<Rightarrow> int \<Rightarrow> int \<Rightarrow> fault + string"

definition level_getPath :: "path_of_slab \<Rightarrow> Level \<Rightarrow> int \<Rightarrow> int \<Rightarrow> fault + string" where
  "level_getPath P L tilex tiley =
     (if tilex < 0 \<or> tiley < 0 then Inr ''''
      else if tilesPerWidth L = 0 \<or> tilesPerHeight L = 0 then Inl DivisionByZero
      else P (racine L) (tilex div uint (tilesPerWidth L)) (tiley div uint (tilesPerHeight L)) (pathDepth L))"

text \<open>The index of a tile in its slab: an int and an unsigned are combined as unsigned.\<close>

definition tile_index :: "Level \<Rightarrow> int \<Rightarrow> int \<Rightarrow> u32" where
  "tile_index L x y =
     (word_of_int y mod tilesPerHeight L) * tilesPerWidth L + word_of_int x mod tilesPerWidth L"

definition getEncodedTile :: "path_of_slab \<Rightarrow> Level \<Rightarrow> int \<Rightarrow> int \<Rightarrow> fault + StoreDataSource" where
  "getEncodedTile P L x y =
     (if tilesPerWidth L = 0 \<or> tilesPerHeight L = 0 then Inl DivisionByZero
      else
        let n = tile_index L x y;
            header = word_of_nat ROK4_IMAGE_HEADER_SIZE;
            posoff = header + 4 * n;
            possize = header + tilesPerWidth L * tilesPerHeight L * 4 + 4 * n
        in bindR (level_getPath P L x y) (\<lambda>path.
             Inr (store_indexed path (unat posoff) (unat possize)
                    (unat (header + 2 * 4 * tilesPerWidth L * tilesPerHeight L))
                    (toMimeType (level_format L)) (toEncoding (level_format L)))))"

text \<open>The decoder of a format: none for raw data, and \<open>None\<close> where the format is not handled.\<close>

fun level_decoder :: "eformat_data \<Rightarrow> tile_decoder option option" where
  "level_decoder TIFF_RAW_INT8 = Some None"
| "level_decoder TIFF_RAW_FLOAT32 = Some None"
| "level_decoder TIFF_JPG_INT8 = Some (Some DJpeg)"
| "level_decoder TIFF_PNG_INT8 = Some (Some DPng)"
| "level_decoder TIFF_LZW_INT8 = Some (Some DLzw)"
| "level_decoder TIFF_LZW_FLOAT32 = Some (Some DLzw)"
| "level_decoder TIFF_ZIP_INT8 = Some (Some DDeflate)"
| "level_decoder TIFF_ZIP_FLOAT32 = Some (Some DDeflate)"
| "level_decoder TIFF_PKB_INT8 = Some (Some DPackBits)"
| "level_decoder TIFF_PKB_FLOAT32 = Some (Some DPackBits)"
| "level_decoder _ = None"

fun decoded_source :: "tile_decoder option \<Rightarrow> StoreDataSource \<Rightarrow> tile_source" where
  "decoded_source None s = Plain s"
| "decoded_source (Some d) s = Decoding (DataSourceDecoder_new d s)"

definition getDecodedTile ::
    "path_of_slab \<Rightarrow> 'c Context \<Rightarrow> Level \<Rightarrow> int \<Rightarrow> int \<Rightarrow> 'c \<Rightarrow> (fault + tile_source option) \<times> 'c" where
  "getDecodedTile P C L x y c =
     (case getEncodedTile P L x y of
        Inl f \<Rightarrow> (Inl f, c)
      | Inr s \<Rightarrow>
          (case getData C s c of
             (Inl f, _, c') \<Rightarrow> (Inl f, c')
           | (Inr None, _, c') \<Rightarrow> (Inr None, c')
           | (Inr (Some _), s', c') \<Rightarrow>
               (Inr (map_option (\<lambda>d. decoded_source d s') (level_decoder (level_format L))), c')))"

definition pixel_size :: "eformat_data \<Rightarrow> nat" where
  "pixel_size f =
     (if f \<in> {TIFF_RAW_FLOAT32, TIFF_LZW_FLOAT32, TIFF_ZIP_FLOAT32, TIFF_PKB_FLOAT32} then 4 else 1)"

text \<open>The image of a tile without its margins; where there is no data, the nodata value.\<close>

definition getTileImage ::
    "path_of_slab \<Rightarrow> 'c Context \<Rightarrow> Level \<Rightarrow> int \<Rightarrow> int \<Rightarrow> nat \<Rightarrow> nat \<Rightarrow> nat \<Rightarrow> nat \<Rightarrow> 'c \<Rightarrow>
     (fault + tile_image) \<times> 'c" where
  "getTileImage P C L x y ml mt mr mb c =
     (case getDecodedTile P C L x y c of
        (Inl f, c') \<Rightarrow> (Inl f, c')
      | (Inr None, c') \<Rightarrow>
          (if tileW (tm L) < ml + mr \<or> tileH (tm L) < mt + mb then (Inl NegativeSize, c')
           else (bindR (EmptyImage_new (tileW (tm L) - ml - mr) (tileH (tm L) - mt - mb)
                   (level_channels L) (nodataValue L)) (\<lambda>im. Inr (NodataTile im)), c'))
      | (Inr (Some ds), c') \<Rightarrow>
          (bindR (ImageDecoder_new ds (tileW (tm L)) (tileH (tm L)) (level_channels L)
                   ml mt mr mb (pixel_size (level_format L))) (\<lambda>im. Inr (DecodedTile im)), c'))"

subsection \<open>Windows\<close>

fun map_state :: "('a \<Rightarrow> 'c \<Rightarrow> (fault + 'b) \<times> 'c) \<Rightarrow> 'a list \<Rightarrow> 'c \<Rightarrow> (fault + 'b list) \<times> 'c" where
  "map_state f [] c = (Inr [], c)"
| "map_state f (x # xs) c =
     (case f x c of
        (Inl e, c') \<Rightarrow> (Inl e, c')
      | (Inr b, c') \<Rightarrow> (case map_state f xs c' of (r, c'') \<Rightarrow> (bindR r (\<lambda>bs. Inr (b # bs)), c'')))"

text \<open>The arrays of margins, left and top, right and bottom; most entries are 0.\<close>

definition margin_before :: "int \<Rightarrow> int \<Rightarrow> nat \<Rightarrow> nat" where
  "margin_before lo n x = (if x = 0 then nat (euclideanDivisionRemainder lo n) else 0)"

definition margin_after :: "int \<Rightarrow> int \<Rightarrow> nat \<Rightarrow> nat \<Rightarrow> nat" where
  "margin_after hi n nb x =
     (if x = nb - 1 then nat (n - euclideanDivisionRemainder (hi - 1) n - 1) else 0)"

datatype window_image = SingleTile tile_image | ManyTiles "tile_image CompoundImage"

text \<open>
  \<open>maxTileX\<close> and \<open>maxTileY\<close> are unsigned, so a negative number of tiles is too much. The error
  code is on the left of the inner sum.
\<close>

definition count_error :: "u32 \<Rightarrow> int \<Rightarrow> nat option" where
  "count_error maxTile nb =
     (if maxTile \<le> word_of_int nb then Some 2 else if nb = 0 then Some 1 else None)"

definition getwindow ::
    "path_of_slab \<Rightarrow> 'c Context \<Rightarrow> Level \<Rightarrow> u32 \<Rightarrow> u32 \<Rightarrow> int \<Rightarrow> int \<Rightarrow> int \<Rightarrow> int \<Rightarrow> 'c \<Rightarrow>
     (fault + nat + window_image) \<times> 'c" where
  "getwindow P C L maxTileX maxTileY xmin ymin xmax ymax c =
     (let tw = int (tileW (tm L)); th = int (tileH (tm L)) in
      if tw = 0 \<or> th = 0 then (Inl DivisionByZero, c)
      else
        let tile_xmin = euclideanDivisionQuotient xmin tw;
            nbx = euclideanDivisionQuotient (xmax - 1) tw - tile_xmin + 1;
            tile_ymin = euclideanDivisionQuotient ymin th;
            nby = euclideanDivisionQuotient (ymax - 1) th - tile_ymin + 1
        in
        case (count_error maxTileX nbx, count_error maxTileY nby) of
          (Some e, _) \<Rightarrow> (Inr (Inl e), c)
        | (None, Some e) \<Rightarrow> (Inr (Inl e), c)
        | (None, None) \<Rightarrow>
            if nbx < 0 \<or> nby < 0 then (Inl NegativeSize, c)
            else
              (case map_state (\<lambda>y. map_state (\<lambda>x.
                      getTileImage P C L (tile_xmin + int x) (tile_ymin + int y)
                        (margin_before xmin tw x) (margin_before ymin th y)
                        (margin_after xmax tw (nat nbx) x) (margin_after ymax th (nat nby) y))
                      [0..<nat nbx]) [0..<nat nby] c of
                 (Inl f, c') \<Rightarrow> (Inl f, c')
               | (Inr rows, c') \<Rightarrow>
                   if nbx = 1 \<and> nby = 1 then (Inr (Inr (SingleTile (rows ! 0 ! 0))), c')
                   else (bindR (CompoundImage_new tile_width tile_height tile_channels rows)
                           (\<lambda>im. Inr (Inr (ManyTiles im))), c')))"

fun window_width :: "window_image \<Rightarrow> nat" where
  "window_width (SingleTile i) = tile_width i" | "window_width (ManyTiles im) = ci_width im"

fun window_height :: "window_image \<Rightarrow> nat" where
  "window_height (SingleTile i) = tile_height i" | "window_height (ManyTiles im) = ci_height im"

fun window_getline ::
    "(int \<Rightarrow> bytes) \<Rightarrow> sample_type \<Rightarrow> 'z zlib \<Rightarrow> libjpeg \<Rightarrow> 'c Context \<Rightarrow> window_image \<Rightarrow> nat \<Rightarrow> 'c \<Rightarrow>
     line_result \<times> window_image \<times> 'c" where
  "window_getline F T Z J C (SingleTile i) l c =
     (case tile_getline F T Z J C i l c of (r, i', c') \<Rightarrow> (r, SingleTile i', c'))"
| "window_getline F T Z J C (ManyTiles im) l c =
     (case compound_getline (tile_getline F T Z J C) tile_height im l c of
        (r, im', c') \<Rightarrow> (r, ManyTiles im', c'))"


subsection \<open>Division\<close>

lemma sdiv_pos: "0 < n \<Longrightarrow> i sdiv n = (if i < 0 \<and> \<not> n dvd i then i div n + 1 else i div n)" for i n :: int
  by (auto simp: signed_divide_int_def sgn_if zdiv_zminus1_eq_if dvd_eq_mod_eq_0 zmod_zminus1_eq_if)

lemma smod_pos: "0 < n \<Longrightarrow> i smod n = (if i < 0 \<and> \<not> n dvd i then i mod n - n else i mod n)" for i n :: int
proof -
  assume "0 < n"
  have "i smod n = i - i sdiv n * n" by (rule minus_sdiv_mult_eq_smod [symmetric])
  moreover have "i mod n = i - i div n * n" by (simp add: minus_div_mult_eq_mod)
  ultimately show ?thesis using \<open>0 < n\<close> by (simp add: sdiv_pos distrib_right)
qed

lemma div_bounds:
  fixes i n :: int
  assumes "0 < n" "\<bar>i\<bar> < 2 ^ 31"
  shows "- (2 ^ 31) < i div n" "i div n < 2 ^ 31"
proof -
  have "- (2 ^ 31 - 1) * n \<le> i"
  proof (cases "i < 0")
    case True
    have "(2 ^ 31 - 1) * 1 \<le> (2 ^ 31 - 1) * n" using assms(1) by (intro mult_left_mono) simp_all
    with assms(2) show ?thesis by simp
  next
    case False
    have "0 \<le> (2 ^ 31 - 1) * n" using assms(1) by simp
    with False show ?thesis by simp
  qed
  then have "- (2 ^ 31 - 1) * n div n \<le> i div n" using assms(1) by (intro zdiv_mono1)
  moreover have "- (2 ^ 31 - 1) * n div n = - (2 ^ 31 - 1)"
    using assms(1) by (intro nonzero_mult_div_cancel_right) simp
  ultimately show "- (2 ^ 31) < i div n" by simp
  have "i \<le> (2 ^ 31 - 1) * n"
  proof (cases "0 < i")
    case True
    have "(2 ^ 31 - 1) * 1 \<le> (2 ^ 31 - 1) * n" using assms(1) by (intro mult_left_mono) simp_all
    with assms(2) show ?thesis by simp
  next
    case False
    have "0 \<le> (2 ^ 31 - 1) * n" using assms(1) by simp
    with False show ?thesis by simp
  qed
  then have "i div n \<le> (2 ^ 31 - 1) * n div n" using assms(1) by (intro zdiv_mono1)
  with assms(1) show "i div n < 2 ^ 31" by simp
qed

text \<open>
  The two functions for Euclidean division compute the floor of the quotient and the remainder,
  with one exception: the quotient of a negative multiple of the divisor is one too small.
\<close>

theorem euclidean_division:
  assumes "0 < n" "\<bar>i\<bar> < 2 ^ 31" "n < 2 ^ 31"
  shows "euclideanDivisionQuotient i n = (if i < 0 \<and> n dvd i then i div n - 1 else i div n)
    \<and> euclideanDivisionRemainder i n = i mod n"
proof -
  have neg: "i < 0 \<Longrightarrow> i div n < 0" using assms(1) by (simp add: div_neg_pos_less0)
  have pos: "\<not> i < 0 \<Longrightarrow> 0 \<le> i div n" using assms(1) by (simp add: pos_imp_zdiv_nonneg_iff)
  have q: "to_int32 (i sdiv n) = i sdiv n"
    using div_bounds [OF assms(1,2)] neg assms(1) by (intro to_int32_self) (auto simp: sdiv_pos)
  have m: "0 \<le> i mod n" "i mod n < n" using assms(1) by simp_all
  have r: "to_int32 (i smod n) = i smod n"
  proof (cases "i < 0 \<and> \<not> n dvd i")
    case True
    have "to_int32 (i mod n - n) = i mod n - n" using m assms(1,3) by (intro to_int32_self) linarith+
    with True show ?thesis by (simp add: smod_pos [OF assms(1)])
  next
    case False
    have "to_int32 (i mod n) = i mod n" using m assms(1,3) by (intro to_int32_self) linarith+
    with False show ?thesis by (auto simp: smod_pos [OF assms(1)])
  qed
  have nz: "\<not> n dvd i \<Longrightarrow> i mod n \<noteq> 0" by (simp add: dvd_eq_mod_eq_0)
  show ?thesis
  proof
    show "euclideanDivisionQuotient i n = (if i < 0 \<and> n dvd i then i div n - 1 else i div n)"
      unfolding euclideanDivisionQuotient_def q Let_def using neg pos assms(1)
      by (cases "i < 0") (auto simp: sdiv_pos)
    show "euclideanDivisionRemainder i n = i mod n"
      unfolding euclideanDivisionRemainder_def r Let_def using m(2) nz assms(1)
      by (auto simp: smod_pos linorder_not_less [THEN iffD2, OF m(1)])
  qed
qed

theorem euclidean_division_witness:
  "euclideanDivisionQuotient (-256) 256 = -2 \<and> euclideanDivisionRemainder (-256) 256 = 0
   \<and> euclideanDivisionQuotient (-255) 256 = -1 \<and> euclideanDivisionRemainder (-255) 256 = 1"
  using euclidean_division [of 256 "-256"] euclidean_division [of 256 "-255"] by simp



subsection \<open>The tiles of an axis\<close>

text \<open>
  The pixels from \<open>lo\<close> to \<open>hi - 1\<close> on an axis with tiles of \<open>n\<close> pixels: the first tile, the number
  of tiles, and what each tile gives of itself. \<open>divides_well\<close> excludes the coordinates the
  quotient is wrong for.
\<close>

definition divides_well :: "int \<Rightarrow> int \<Rightarrow> bool" where
  "divides_well i n \<longleftrightarrow> \<not> (i < 0 \<and> n dvd i)"

definition axis :: "int \<Rightarrow> int \<Rightarrow> nat \<Rightarrow> bool" where
  "axis lo hi n \<longleftrightarrow> 0 < n \<and> n < 2 ^ 31 \<and> lo < hi \<and> \<bar>lo\<bar> < 2 ^ 31 \<and> \<bar>hi - 1\<bar> < 2 ^ 31
     \<and> divides_well lo (int n) \<and> divides_well (hi - 1) (int n)"

definition tiles_on :: "int \<Rightarrow> int \<Rightarrow> nat \<Rightarrow> nat" where
  "tiles_on lo hi n = nat ((hi - 1) div int n - lo div int n + 1)"

definition part :: "int \<Rightarrow> int \<Rightarrow> nat \<Rightarrow> nat \<Rightarrow> nat" where
  "part lo hi n x = n - margin_before lo (int n) x - margin_after hi (int n) (tiles_on lo hi n) x"

lemma axis_division:
  assumes "axis lo hi n"
  shows "euclideanDivisionQuotient lo (int n) = lo div int n"
    "euclideanDivisionQuotient (hi - 1) (int n) = (hi - 1) div int n"
    "margin_before lo (int n) x = (if x = 0 then nat (lo mod int n) else 0)"
    "margin_after hi (int n) nb x = (if x = nb - 1 then nat (int n - (hi - 1) mod int n - 1) else 0)"
  using assms euclidean_division [of "int n" lo] euclidean_division [of "int n" "hi - 1"]
  by (auto simp: axis_def divides_well_def margin_before_def margin_after_def)

lemma axis_tiles:
  assumes "axis lo hi n"
  shows "0 < tiles_on lo hi n" "int (tiles_on lo hi n) = (hi - 1) div int n - lo div int n + 1"
    "margin_before lo (int n) x + margin_after hi (int n) (tiles_on lo hi n) x < n"
proof -
  let ?nb = "tiles_on lo hi n"
  have n: "0 < int n" using assms by (simp add: axis_def)
  have le: "lo div int n \<le> (hi - 1) div int n" using assms n by (intro zdiv_mono1) (simp_all add: axis_def)
  then show "0 < ?nb" "int ?nb = (hi - 1) div int n - lo div int n + 1" by (simp_all add: tiles_on_def)
  have m: "0 \<le> lo mod int n" "lo mod int n < int n" "0 \<le> (hi - 1) mod int n" "(hi - 1) mod int n < int n"
    using n by simp_all
  show "margin_before lo (int n) x + margin_after hi (int n) ?nb x < n"
  proof (cases "x = 0 \<and> x = ?nb - 1")
    case True
    with \<open>0 < ?nb\<close> have "?nb = 1" by arith
    then have "(hi - 1) div int n = lo div int n" using le by (simp add: tiles_on_def)
    then have "(hi - 1) div int n * int n = lo div int n * int n" by simp
    moreover have "lo div int n * int n + lo mod int n = lo" "lo \<le> hi - 1"
      "(hi - 1) div int n * int n + (hi - 1) mod int n = hi - 1" using assms by (simp_all add: axis_def)
    ultimately have "lo mod int n \<le> (hi - 1) mod int n" by linarith
    with m True show ?thesis by (simp add: axis_division [OF assms]) linarith
  next
    case False
    moreover have "nat (int n - (hi - 1) mod int n - 1) < n" "nat (lo mod int n) < n"
      using m n by linarith+
    ultimately show ?thesis using n by (auto simp: axis_division [OF assms])
  qed
qed

text \<open>Where the part of a tile starts, counted from \<open>lo\<close>; and all parts together.\<close>

lemma axis_start:
  assumes "axis lo hi n" "x < tiles_on lo hi n"
  shows "lo + int (row_start (part lo hi n) x) = (lo div int n + int x) * int n + int (margin_before lo (int n) x)"
  using assms(2)
proof (induction x)
  case 0
  have "0 < int n" using assms(1) by (simp add: axis_def)
  then show ?case by (simp add: axis_division [OF assms(1)])
next
  case (Suc x)
  then have "margin_after hi (int n) (tiles_on lo hi n) x = 0" by (simp add: axis_division [OF assms(1)])
  moreover have "margin_before lo (int n) x < n" using axis_tiles(3) [OF assms(1), of x] by simp
  ultimately have "int (part lo hi n x) = int n - int (margin_before lo (int n) x)" by (simp add: part_def)
  with Suc show ?case by (simp add: axis_division [OF assms(1)] algebra_simps)
qed

lemma axis_total:
  assumes "axis lo hi n"
  shows "int (row_start (part lo hi n) (tiles_on lo hi n)) = hi - lo"
proof -
  obtain x where x: "tiles_on lo hi n = Suc x" using axis_tiles(1) [OF assms] by (cases "tiles_on lo hi n") auto
  have n: "0 < int n" using assms by (simp add: axis_def)
  have "int (part lo hi n x) = int n - int (margin_before lo (int n) x) - int (margin_after hi (int n) (tiles_on lo hi n) x)"
    using axis_tiles(3) [OF assms, of x] by (simp add: part_def)
  moreover have "int (margin_after hi (int n) (tiles_on lo hi n) x) = int n - (hi - 1) mod int n - 1"
    using x n by (simp add: axis_division [OF assms])
  moreover have "lo + int (row_start (part lo hi n) x) = (lo div int n + int x) * int n + int (margin_before lo (int n) x)"
    using axis_start [OF assms, of x] x by simp
  moreover have "lo div int n + int x = (hi - 1) div int n" using axis_tiles(2) [OF assms] x by simp
  then have "(lo div int n + int x) * int n = (hi - 1) div int n * int n" by (rule arg_cong)
  moreover have "(hi - 1) div int n * int n + (hi - 1) mod int n = hi - 1" by simp
  ultimately show ?thesis unfolding x row_start_simps of_nat_add by linarith
qed



subsection \<open>Images of tiles\<close>

text \<open>The pixel at column i and line j of a raster with lines of \<open>tw\<close> pixels of \<open>psz\<close> bytes.\<close>

definition pixel_of :: "nat \<Rightarrow> nat \<Rightarrow> bytes \<Rightarrow> nat \<Rightarrow> nat \<Rightarrow> bytes" where
  "pixel_of tw psz raster i j = window ((j * tw + i) * psz) psz raster"

lemma row_pixels:
  assumes "(a + m) * psz \<le> length r"
  shows "window (a * psz) (m * psz) r = concat (map (\<lambda>q. window ((a + q) * psz) psz r) [0..<m])"
proof -
  have "m * psz \<le> length (drop (a * psz) r)" using assms by (simp add: distrib_right)
  then have "concat (map (\<lambda>q. window (q * psz) psz (drop (a * psz) r)) [0..<m]) = take (m * psz) (drop (a * psz) r)"
    by (rule concat_windows)
  moreover have "window (q * psz) psz (drop (a * psz) r) = window ((a + q) * psz) psz r" for q
    by (simp add: window_def distrib_right add.commute)
  ultimately show ?thesis by (simp add: window_def)
qed

definition nodata_pixel :: "(int \<Rightarrow> bytes) \<Rightarrow> sample_type \<Rightarrow> Level \<Rightarrow> bytes" where
  "nodata_pixel F T L = concat (map (convert_int F T) (take (level_channels L) (nodataValue L)))"

definition nodata_raster :: "(int \<Rightarrow> bytes) \<Rightarrow> sample_type \<Rightarrow> Level \<Rightarrow> bytes" where
  "nodata_raster F T L = concat (replicate (tileH (tm L) * tileW (tm L)) (nodata_pixel F T L))"

definition raster_size :: "sample_type \<Rightarrow> Level \<Rightarrow> nat" where
  "raster_size T L = tileH (tm L) * tileW (tm L) * (level_channels L * sizeof T)"

text \<open>The raster a tile is shown as: its data, black where decoding fails, or nodata.\<close>

definition tile_serves ::
    "(int \<Rightarrow> bytes) \<Rightarrow> sample_type \<Rightarrow> 'z zlib \<Rightarrow> libjpeg \<Rightarrow> Level \<Rightarrow> tile_source option \<Rightarrow> bytes \<Rightarrow> bool" where
  "tile_serves F T Z J L ds raster \<longleftrightarrow>
     (case ds of
        None \<Rightarrow> raster = nodata_raster F T L
      | Some s \<Rightarrow> \<exists>r. source_gives Z J s r \<and> raster_size T L \<le> length raster
          \<and> raster = (case r of Some raw \<Rightarrow> raw | None \<Rightarrow> replicate (raster_size T L) 0))"

text \<open>Lines are asked for in the type the level stores.\<close>

definition native :: "sample_type \<Rightarrow> eformat_data \<Rightarrow> bool" where
  "native T f \<longleftrightarrow> T = U8 \<and> pixel_size f = 1 \<or> T = F32 \<and> pixel_size f = 4"

definition level_ok :: "(int \<Rightarrow> bytes) \<Rightarrow> sample_type \<Rightarrow> Level \<Rightarrow> bool" where
  "level_ok F T L \<longleftrightarrow> native T (level_format L) \<and> (\<forall>v. length (F v) = 4)
     \<and> level_channels L \<le> length (nodataValue L)"

locale level_tiles =
  fixes P :: path_of_slab and C :: "'c Context" and L :: Level
    and F :: "int \<Rightarrow> bytes" and T :: sample_type and Z :: "'z zlib" and J :: libjpeg
    and known :: "int \<Rightarrow> int \<Rightarrow> bool" and serve :: "'c \<Rightarrow> bool" and raster :: "int \<Rightarrow> int \<Rightarrow> bytes"
  assumes tile_law:
      "known x y \<Longrightarrow> serve c \<Longrightarrow>
         \<exists>ds c'. getDecodedTile P C L x y c = (Inr ds, c') \<and> serve c' \<and> tile_serves F T Z J L ds (raster x y)"
    and level_law: "serve c \<Longrightarrow> level_ok F T L"
begin

lemma length_nodata_pixel:
  assumes "level_ok F T L"
  shows "length (nodata_pixel F T L) = level_channels L * sizeof T"
proof -
  have "length (convert_int F T v) = sizeof T" for v using assms by (cases T) (simp_all add: level_ok_def)
  then have "length (nodata_pixel F T L) = length (map (convert_int F T) (take (level_channels L) (nodataValue L))) * sizeof T"
    unfolding nodata_pixel_def by (intro length_concat_const) auto
  then show ?thesis using assms by (simp add: level_ok_def)
qed

lemma nodata_pixel_of:
  assumes "i < tileW (tm L)" "j < tileH (tm L)" "level_ok F T L"
  shows "pixel_of (tileW (tm L)) (level_channels L * sizeof T) (nodata_raster F T L) i j = nodata_pixel F T L"
proof -
  let ?p = "level_channels L * sizeof T" and ?tw = "tileW (tm L)" and ?th = "tileH (tm L)"
  have "j * ?tw + i < ?th * ?tw" using row_in [OF assms(2), of i 1 ?tw] assms(1) by simp
  then have "window ((j * ?tw + i) * ?p + 0) ?p (concat (replicate (?th * ?tw) (nodata_pixel F T L)))
      = window 0 ?p (replicate (?th * ?tw) (nodata_pixel F T L) ! (j * ?tw + i))"
    by (intro window_concat) (simp_all add: length_nodata_pixel [OF assms(3)])
  also have "\<dots> = nodata_pixel F T L"
    using \<open>j * ?tw + i < ?th * ?tw\<close> by (simp add: window_all length_nodata_pixel [OF assms(3)])
  finally show ?thesis by (simp add: pixel_of_def nodata_raster_def)
qed

lemma native_getDataline:
  assumes "level_ok F T L" "channel_size im = pixel_size (level_format L)" "id_channels im = level_channels L"
    "((margin_top im + l) * source_width im + margin_left im + id_width im) * (level_channels L * sizeof T) \<le> length raw"
  shows "getDataline F T im raw l = Inr (id_width im * level_channels L,
      concat (map (\<lambda>q. pixel_of (source_width im) (level_channels L * sizeof T) raw (margin_left im + q) (margin_top im + l))
        [0..<id_width im]))"
proof -
  let ?a = "(margin_top im + l) * source_width im + margin_left im" and ?p = "level_channels L * sizeof T"
  have "getDataline F T im raw l = Inr (id_width im * level_channels L, window (?a * ?p) (id_width im * ?p) raw)"
    using assms
    by (auto simp: level_ok_def native_def getDataline_def bytes_at_def Let_def mult.assoc distrib_right add.assoc)
  moreover have "window (?a * ?p) (id_width im * ?p) raw = concat (map (\<lambda>q. window ((?a + q) * ?p) ?p raw) [0..<id_width im])"
    using assms(4) by (rule row_pixels)
  ultimately show ?thesis by (simp add: pixel_of_def add.assoc)
qed

text \<open>The image of a tile shows its part of the raster.\<close>

abbreviation tile_line :: "int \<Rightarrow> int \<Rightarrow> nat \<Rightarrow> nat \<Rightarrow> nat \<Rightarrow> nat \<Rightarrow> bytes" where
  "tile_line x y ml mt w l \<equiv>
     concat (map (\<lambda>q. pixel_of (tileW (tm L)) (level_channels L * sizeof T) (raster x y) (ml + q) (mt + l)) [0..<w])"

lemma getTileImage_ok:
  assumes "known x y" "serve c" "ml + mr < tileW (tm L)" "mt + mb < tileH (tm L)"
  shows "\<exists>i c'. getTileImage P C L x y ml mt mr mb c = (Inr i, c') \<and> serve c'
    \<and> tile_rows F T Z J i (\<lambda>l. ((tileW (tm L) - ml - mr) * level_channels L,
         tile_line x y ml mt (tileW (tm L) - ml - mr) l))
    \<and> tile_width i = tileW (tm L) - ml - mr \<and> tile_height i = tileH (tm L) - mt - mb
    \<and> tile_channels i = level_channels L"
proof -
  let ?tw = "tileW (tm L)" and ?th = "tileH (tm L)" and ?ch = "level_channels L"
  let ?w = "?tw - ml - mr" and ?h = "?th - mt - mb"
  obtain ds c' where d: "getDecodedTile P C L x y c = (Inr ds, c')" "serve c'" "tile_serves F T Z J L ds (raster x y)"
    using tile_law [OF assms(1,2)] by blast
  have ok: "level_ok F T L" using assms(2) by (rule level_law)
  show ?thesis
  proof (cases ds)
    case None
    let ?im = "\<lparr>em_width = ?w, em_height = ?h, em_channels = ?ch, color = take ?ch (nodataValue L)\<rparr>"
    have "getTileImage P C L x y ml mt mr mb c = (Inr (NodataTile ?im), c')"
      using d(1) None assms(3,4) ok by (simp add: getTileImage_def EmptyImage_new_def level_ok_def)
    moreover have "empty_getline F T ?im l = (?w * ?ch, tile_line x y ml mt ?w l)" if "l < ?h" for l
    proof -
      have "tile_line x y ml mt ?w l = concat (map (\<lambda>q. nodata_pixel F T L) [0..<?w])"
        using d(3) None that assms(4)
        by (intro arg_cong [of _ _ concat] map_cong refl) (simp add: tile_serves_def nodata_pixel_of ok)
      then show ?thesis by (simp add: empty_getline_def nodata_pixel_def map_replicate_const)
    qed
    ultimately show ?thesis using d(2) by simp
  next
    case (Some s)
    with d(3) obtain r where r: "source_gives Z J s r" "raster_size T L \<le> length (raster x y)"
      "raster x y = (case r of Some raw \<Rightarrow> raw | None \<Rightarrow> replicate (raster_size T L) 0)"
      by (auto simp: tile_serves_def)
    let ?im = "\<lparr>dataSource = Some s, source_width = ?tw, margin_top = mt, margin_left = ml,
        channel_size = pixel_size (level_format L), rawData = None, id_width = ?w, id_height = ?h, id_channels = ?ch\<rparr>"
    have "getTileImage P C L x y ml mt mr mb c = (Inr (DecodedTile ?im), c')"
      using d(1) Some assms(3,4) by (simp add: getTileImage_def ImageDecoder_new_def)
    moreover have "data_line F T ?im r l = Inr (?w * ?ch, tile_line x y ml mt ?w l)" if l: "l < ?h" for l
    proof -
      let ?p = "?ch * sizeof T"
      have "(mt + l) * ?tw + ml + ?w \<le> ?th * ?tw" using l assms(3) by (intro row_in) simp_all
      then have b: "((mt + l) * ?tw + ml + ?w) * ?p \<le> raster_size T L"
        unfolding raster_size_def by (rule mult_le_mono1)
      with r(2) have "((mt + l) * ?tw + ml + ?w) * ?p \<le> length (raster x y)" by linarith
      then have line: "getDataline F T ?im (raster x y) l = Inr (?w * ?ch, tile_line x y ml mt ?w l)"
        using native_getDataline [OF ok, of ?im l "raster x y"] by simp
      show ?thesis
      proof (cases r)
        case None
        have "tile_line x y ml mt ?w l = window (((mt + l) * ?tw + ml) * ?p) (?w * ?p) (raster x y)"
          using row_pixels [OF \<open>((mt + l) * ?tw + ml + ?w) * ?p \<le> length (raster x y)\<close>]
          by (simp add: pixel_of_def add.assoc)
        also have "\<dots> = replicate (?w * ?p) 0"
          using b r(3) None by (simp add: window_def distrib_right)
        finally show ?thesis using None by (simp add: data_line_def getNoDataline_def mult.assoc)
      qed (use line r(3) in \<open>simp add: data_line_def\<close>)
    qed
    ultimately show ?thesis using d(2) r(1)
      by (intro exI [of _ "DecodedTile ?im"] exI [of _ c']) (auto simp: tile_data_def)
  qed
qed

end



subsection \<open>Windows of pixels\<close>

lemma map_state_ok:
  assumes "\<And>x c. x \<in> set xs \<Longrightarrow> I c \<Longrightarrow> \<exists>b c'. f x c = (Inr b, c') \<and> I c' \<and> Q x b" "I c"
  shows "\<exists>bs c'. map_state f xs c = (Inr bs, c') \<and> I c' \<and> length bs = length xs
    \<and> (\<forall>i < length xs. Q (xs ! i) (bs ! i))"
  using assms
proof (induction xs arbitrary: c)
  case (Cons x xs)
  obtain b c1 where b: "f x c = (Inr b, c1)" "I c1" "Q x b" using Cons.prems(1) [of x c] Cons.prems(2) by auto
  obtain bs c2 where bs: "map_state f xs c1 = (Inr bs, c2)" "I c2" "length bs = length xs"
    "\<forall>i < length xs. Q (xs ! i) (bs ! i)" using Cons.IH [OF _ b(2)] Cons.prems(1) by auto
  have "\<forall>i < length (x # xs). Q ((x # xs) ! i) ((b # bs) ! i)"
    using b(3) bs(4) by (auto simp: nth_Cons split: nat.split)
  with b bs show ?case by (intro exI [of _ "b # bs"] exI [of _ c2]) simp
qed simp

lemma concat_parts:
  "concat (map (\<lambda>x. concat (map (\<lambda>q. g (row_start ws x + q)) [0..<ws x])) [0..<n])
     = concat (map g [0..<row_start ws n])"
proof (induction n)
  case (Suc n)
  have "map (\<lambda>q. g (row_start ws n + q)) [0..<ws n] = map g [row_start ws n..<row_start ws n + ws n]"
    by (simp add: map_add_upt [of "row_start ws n", symmetric] comp_def add.commute del: map_add_upt)
  with Suc show ?case by (simp add: upt_add_eq_append [of 0 "row_start ws n" "ws n", simplified])
qed simp

text \<open>The pixel of a level at a place of the whole plane.\<close>

definition level_pixel :: "Level \<Rightarrow> nat \<Rightarrow> (int \<Rightarrow> int \<Rightarrow> bytes) \<Rightarrow> int \<Rightarrow> int \<Rightarrow> bytes" where
  "level_pixel L psz raster px py =
     (let tw = int (tileW (tm L)); th = int (tileH (tm L)) in
      pixel_of (tileW (tm L)) psz (raster (px div tw) (py div th)) (nat (px mod tw)) (nat (py mod th)))"

definition level_line :: "Level \<Rightarrow> nat \<Rightarrow> (int \<Rightarrow> int \<Rightarrow> bytes) \<Rightarrow> int \<Rightarrow> int \<Rightarrow> nat \<Rightarrow> bytes" where
  "level_line L psz raster px py w = concat (map (\<lambda>p. level_pixel L psz raster (px + int p) py) [0..<w])"

lemma axis_place:
  assumes "axis lo hi n" "x < tiles_on lo hi n" "q < part lo hi n x"
  shows "(lo + int (row_start (part lo hi n) x + q)) div int n = lo div int n + int x"
    "nat ((lo + int (row_start (part lo hi n) x + q)) mod int n) = margin_before lo (int n) x + q"
proof -
  let ?m = "margin_before lo (int n) x"
  have e: "lo + int (row_start (part lo hi n) x + q) = int (?m + q) + (lo div int n + int x) * int n"
    using axis_start [OF assms(1,2)] by simp
  have "?m + q < n" using assms(3) axis_tiles(3) [OF assms(1), of x] by (simp add: part_def)
  then have "int (?m + q) div int n = 0" "int (?m + q) mod int n = int (?m + q)" "int n \<noteq> 0" by simp_all
  then show "(lo + int (row_start (part lo hi n) x + q)) div int n = lo div int n + int x"
    "nat ((lo + int (row_start (part lo hi n) x + q)) mod int n) = ?m + q"
    unfolding e by (simp_all only: div_mult_self1 mod_mult_self1 nat_int add_0_right not_False_eq_True)
qed

text \<open>What a window shows: tile (x, y) of it gives line l as \<open>f y x l\<close>.\<close>

definition window_shows ::
    "(int \<Rightarrow> bytes) \<Rightarrow> sample_type \<Rightarrow> 'z zlib \<Rightarrow> libjpeg \<Rightarrow> (nat \<Rightarrow> nat) \<Rightarrow> (nat \<Rightarrow> nat) \<Rightarrow>
     (nat \<Rightarrow> nat \<Rightarrow> nat \<Rightarrow> nat \<times> bytes) \<Rightarrow> nat \<Rightarrow> nat \<Rightarrow> nat \<Rightarrow> window_image \<Rightarrow> bool" where
  "window_shows F T Z J ws hs f nbx nby ch W \<longleftrightarrow>
     (case W of
        SingleTile i \<Rightarrow> nbx = 1 \<and> nby = 1 \<and> tile_rows F T Z J i (f 0 0) \<and> tile_width i = ws 0 \<and> tile_height i = hs 0
      | ManyTiles im \<Rightarrow> mosaic tile_height (tile_rows F T Z J) hs f nby nbx im
          \<and> ci_width im = row_start ws nbx \<and> ci_channels im = ch)"

lemma window_getline_ok:
  assumes "window_shows F T Z J ws hs f nbx nby ch W" "l < row_start hs nby"
    "\<And>y x l. fst (f y x l) = ws x * ch"
  shows "\<exists>y W'. window_getline F T Z J C W l c =
      (Some (Inr (row_start ws nbx * ch, concat (map (\<lambda>x. snd (f y x (l - row_start hs y))) [0..<nbx]))), W', c)
    \<and> window_shows F T Z J ws hs f nbx nby ch W'
    \<and> y < nby \<and> row_start hs y \<le> l \<and> l < row_start hs (Suc y)"
proof (cases W)
  case (SingleTile i)
  with assms(1) have s: "nbx = 1" "nby = 1" "tile_rows F T Z J i (f 0 0)" "tile_width i = ws 0" "tile_height i = hs 0"
    by (simp_all add: window_shows_def)
  have l: "l < tile_height i" using assms(2) s by (simp add: row_start_def)
  have one: "row_start ws nbx = ws 0" "row_start hs nby = hs 0" using s(1,2) by (simp_all add: row_start_def)
  obtain i' where i': "tile_getline F T Z J C i l c = (Some (Inr (f 0 0 l)), i', c)" "tile_rows F T Z J i' (f 0 0)"
    "tile_height i' = tile_height i" using tile_lines.row_law [OF s(3) l, of C c] by blast
  have w: "tile_width i' = tile_width i"
  proof (cases i)
    case (DecodedTile im)
    with i'(1) show ?thesis
      by (auto simp: decoder_getline_def split: prod.splits option.splits sum.splits)
  next
    case (NodataTile im)
    with i'(1) show ?thesis by auto
  qed
  have "f 0 0 l = (ws 0 * ch, snd (f 0 0 l))" using assms(3) [of 0 0 l] by (simp add: prod_eq_iff)
  then have "window_getline F T Z J C W l c =
      (Some (Inr (row_start ws nbx * ch, concat (map (\<lambda>x. snd (f 0 x (l - row_start hs 0))) [0..<nbx]))), SingleTile i', c)"
    using i'(1) SingleTile s(1) one by simp
  moreover have "window_shows F T Z J ws hs f nbx nby ch (SingleTile i')"
    using i' w s by (simp add: window_shows_def)
  ultimately show ?thesis using l s(2,5) by (intro exI [of _ 0] exI [of _ "SingleTile i'"]) simp
next
  case (ManyTiles im)
  with assms(1) have m: "mosaic tile_height (tile_rows F T Z J) hs f nby nbx im"
    "ci_width im = row_start ws nbx" "ci_channels im = ch" by (simp_all add: window_shows_def)
  from tile_lines.compound_getline_ok [OF m(1) assms(2), of C c] obtain y im' where
    "compound_getline (tile_getline F T Z J C) tile_height im l c =
      (Some (Inr (ci_width im * ci_channels im,
         concat (map (\<lambda>x. snd (f y x (l - row_start hs y))) [0..<nbx]))), im', c)"
    "mosaic tile_height (tile_rows F T Z J) hs f nby nbx im'" "ci_width im' = ci_width im"
    "ci_channels im' = ci_channels im" "y < nby" "row_start hs y \<le> l" "l < row_start hs (Suc y)" by blast
  with ManyTiles m show ?thesis
    by (intro exI [of _ y] exI [of _ "ManyTiles im'"]) (simp add: window_shows_def)
qed



text \<open>Lines of a window, read one after the other in any order.\<close>

fun window_getlines ::
    "(int \<Rightarrow> bytes) \<Rightarrow> sample_type \<Rightarrow> 'z zlib \<Rightarrow> libjpeg \<Rightarrow> 'c Context \<Rightarrow> window_image \<Rightarrow> nat list \<Rightarrow> 'c \<Rightarrow>
     (nat \<times> bytes) list option" where
  "window_getlines F T Z J C W [] c = Some []"
| "window_getlines F T Z J C W (l # ls) c =
     (case window_getline F T Z J C W l c of
        (Some (Inr r), W', c') \<Rightarrow> map_option ((#) r) (window_getlines F T Z J C W' ls c')
      | _ \<Rightarrow> None)"

lemma sum_first_ok:
  assumes "\<And>y. y < length rows \<Longrightarrow> rows ! y \<noteq> [] \<and> ht (rows ! y ! 0) = hs y"
  shows "sum_first ht rows = Inr (row_start hs (length rows))"
  using assms
proof (induction rows arbitrary: hs)
  case (Cons row rows)
  have "sum_first ht rows = Inr (row_start (hs \<circ> Suc) (length rows))"
    by (rule Cons.IH) (use Cons.prems in force)
  moreover have "row \<noteq> []" "ht (row ! 0) = hs 0" using Cons.prems [of 0] by simp_all
  moreover have "row_start hs (Suc (length rows)) = hs 0 + row_start (hs \<circ> Suc) (length rows)"
    by (simp only: row_start_def upt_conv_Cons [OF zero_less_Suc] map_Suc_upt [symmetric] list.map(2) map_map sum_list.Cons)
  ultimately show ?case by (simp add: elem_def)
qed simp

context level_tiles begin

abbreviation psz :: nat where "psz \<equiv> level_channels L * sizeof T"

abbreviation tile_part :: "int \<Rightarrow> int \<Rightarrow> int \<Rightarrow> int \<Rightarrow> nat \<Rightarrow> nat \<Rightarrow> nat \<Rightarrow> nat \<times> bytes" where
  "tile_part xmin ymin xmax ymax y x l \<equiv>
     (part xmin xmax (tileW (tm L)) x * level_channels L,
      tile_line (xmin div int (tileW (tm L)) + int x) (ymin div int (tileH (tm L)) + int y)
        (margin_before xmin (int (tileW (tm L))) x) (margin_before ymin (int (tileH (tm L))) y)
        (part xmin xmax (tileW (tm L)) x) l)"

lemma window_line_pixels:
  assumes ax: "axis xmin xmax (tileW (tm L))" and ay: "axis ymin ymax (tileH (tm L))"
    and y: "y < tiles_on ymin ymax (tileH (tm L))"
      "row_start (part ymin ymax (tileH (tm L))) y \<le> l" "l < row_start (part ymin ymax (tileH (tm L))) (Suc y)"
  shows "concat (map (\<lambda>x. snd (tile_part xmin ymin xmax ymax y x (l - row_start (part ymin ymax (tileH (tm L))) y)))
      [0..<tiles_on xmin xmax (tileW (tm L))]) = level_line L psz raster xmin (ymin + int l) (nat (xmax - xmin))"
proof -
  let ?ws = "part xmin xmax (tileW (tm L))" and ?hs = "part ymin ymax (tileH (tm L))"
  let ?X = "xmin div int (tileW (tm L))" and ?Y = "ymin div int (tileH (tm L))"
  let ?l = "l - row_start ?hs y" and ?nbx = "tiles_on xmin xmax (tileW (tm L))"
  let ?g = "\<lambda>p. level_pixel L psz raster (xmin + int p) (ymin + int l)"
  have l: "row_start ?hs y + ?l = l" "?l < ?hs y" using y by simp_all
  from axis_place [OF ay y(1) l(2)] have py: "(ymin + int l) div int (tileH (tm L)) = ?Y + int y"
    "nat ((ymin + int l) mod int (tileH (tm L))) = margin_before ymin (int (tileH (tm L))) y + ?l"
    by (simp_all only: l(1))
  have "snd (tile_part xmin ymin xmax ymax y x ?l) = concat (map (\<lambda>q. ?g (row_start ?ws x + q)) [0..<?ws x])"
    if "x < ?nbx" for x
    unfolding snd_conv
  proof (intro arg_cong [of _ _ concat] map_cong refl)
    fix q assume "q \<in> set [0..<?ws x]"
    then have q: "q < ?ws x" by simp
    show "pixel_of (tileW (tm L)) psz (raster (?X + int x) (?Y + int y)) (margin_before xmin (int (tileW (tm L))) x + q)
        (margin_before ymin (int (tileH (tm L))) y + ?l) = ?g (row_start ?ws x + q)"
      using axis_place [OF ax that q] py unfolding level_pixel_def Let_def by simp
  qed
  then have "concat (map (\<lambda>x. snd (tile_part xmin ymin xmax ymax y x ?l)) [0..<?nbx])
      = concat (map (\<lambda>x. concat (map (\<lambda>q. ?g (row_start ?ws x + q)) [0..<?ws x])) [0..<?nbx])"
    by (intro arg_cong [of _ _ concat] map_cong refl) simp
  also have "\<dots> = concat (map ?g [0..<row_start ?ws ?nbx])" by (rule concat_parts)
  also have "row_start ?ws ?nbx = nat (xmax - xmin)" using axis_total [OF ax] by simp
  finally show ?thesis by (simp add: level_line_def)
qed

lemma window_getlines_ok:
  assumes ax: "axis xmin xmax (tileW (tm L))" and ay: "axis ymin ymax (tileH (tm L))"
    and W: "window_shows F T Z J (part xmin xmax (tileW (tm L))) (part ymin ymax (tileH (tm L)))
      (tile_part xmin ymin xmax ymax) (tiles_on xmin xmax (tileW (tm L))) (tiles_on ymin ymax (tileH (tm L)))
      (level_channels L) W"
    and ls: "\<forall>l \<in> set ls. int l < ymax - ymin"
  shows "window_getlines F T Z J C W ls c =
    Some (map (\<lambda>l. (nat (xmax - xmin) * level_channels L,
                     level_line L psz raster xmin (ymin + int l) (nat (xmax - xmin)))) ls)"
  using W ls
proof (induction ls arbitrary: W)
  case (Cons l ls)
  have l: "l < row_start (part ymin ymax (tileH (tm L))) (tiles_on ymin ymax (tileH (tm L)))"
    using Cons.prems(2) axis_total [OF ay] by simp
  have w: "row_start (part xmin xmax (tileW (tm L))) (tiles_on xmin xmax (tileW (tm L))) = nat (xmax - xmin)"
    using axis_total [OF ax] by simp
  obtain y W' where g: "window_getline F T Z J C W l c =
      (Some (Inr (nat (xmax - xmin) * level_channels L,
         concat (map (\<lambda>x. snd (tile_part xmin ymin xmax ymax y x (l - row_start (part ymin ymax (tileH (tm L))) y)))
           [0..<tiles_on xmin xmax (tileW (tm L))]))), W', c)"
    "window_shows F T Z J (part xmin xmax (tileW (tm L))) (part ymin ymax (tileH (tm L)))
      (tile_part xmin ymin xmax ymax) (tiles_on xmin xmax (tileW (tm L))) (tiles_on ymin ymax (tileH (tm L)))
      (level_channels L) W'"
    "y < tiles_on ymin ymax (tileH (tm L))" "row_start (part ymin ymax (tileH (tm L))) y \<le> l"
    "l < row_start (part ymin ymax (tileH (tm L))) (Suc y)"
    using window_getline_ok [OF Cons.prems(1) l, where C = C and c = c, unfolded w] by auto
  with window_line_pixels [OF ax ay g(3-5)] Cons.IH [OF g(2)] Cons.prems(2) show ?case by simp
qed simp

end



lemma count_error_ok: "0 < nb \<Longrightarrow> nb < unat m \<Longrightarrow> count_error m (int nb) = None"
proof -
  assume nb: "0 < nb" "nb < unat m"
  then have "unat (word_of_nat nb :: u32) = nb"
    using unsigned_less [of m, where 'a = nat] by (intro unat_u32) simp
  then have "\<not> m \<le> word_of_int (int nb)" using nb(2) by (simp add: word_le_nat_alt not_le)
  then show ?thesis using nb(1) by (simp add: count_error_def)
qed

context level_tiles begin

lemma window_rows_ok:
  assumes ax: "axis xmin xmax (tileW (tm L))" and ay: "axis ymin ymax (tileH (tm L))" and c: "serve c"
    and k: "\<And>x y. x < tiles_on xmin xmax (tileW (tm L)) \<Longrightarrow> y < tiles_on ymin ymax (tileH (tm L)) \<Longrightarrow>
      known (xmin div int (tileW (tm L)) + int x) (ymin div int (tileH (tm L)) + int y)"
  shows "\<exists>rows c'. map_state (\<lambda>y. map_state (\<lambda>x.
          getTileImage P C L (xmin div int (tileW (tm L)) + int x) (ymin div int (tileH (tm L)) + int y)
            (margin_before xmin (int (tileW (tm L))) x) (margin_before ymin (int (tileH (tm L))) y)
            (margin_after xmax (int (tileW (tm L))) (tiles_on xmin xmax (tileW (tm L))) x)
            (margin_after ymax (int (tileH (tm L))) (tiles_on ymin ymax (tileH (tm L))) y))
          [0..<tiles_on xmin xmax (tileW (tm L))]) [0..<tiles_on ymin ymax (tileH (tm L))] c = (Inr rows, c')
    \<and> serve c' \<and> length rows = tiles_on ymin ymax (tileH (tm L))
    \<and> (\<forall>y < tiles_on ymin ymax (tileH (tm L)). length (rows ! y) = tiles_on xmin xmax (tileW (tm L))
       \<and> (\<forall>x < tiles_on xmin xmax (tileW (tm L)). tile_rows F T Z J (rows ! y ! x) (tile_part xmin ymin xmax ymax y x)
          \<and> tile_width (rows ! y ! x) = part xmin xmax (tileW (tm L)) x
          \<and> tile_height (rows ! y ! x) = part ymin ymax (tileH (tm L)) y
          \<and> tile_channels (rows ! y ! x) = level_channels L))"
  (is "\<exists>rows c'. map_state (\<lambda>y. map_state (?get y) _) _ c = _ \<and> _ \<and> _ \<and> (\<forall>y < ?nby. ?row y (rows ! y))")
proof -
  let ?nbx = "tiles_on xmin xmax (tileW (tm L))" and ?nby = "tiles_on ymin ymax (tileH (tm L))"
  let ?Q = "\<lambda>y x i. tile_rows F T Z J i (tile_part xmin ymin xmax ymax y x)
    \<and> tile_width i = part xmin xmax (tileW (tm L)) x \<and> tile_height i = part ymin ymax (tileH (tm L)) y
    \<and> tile_channels i = level_channels L"
  have tile: "\<exists>i c'. ?get y x c = (Inr i, c') \<and> serve c' \<and> ?Q y x i" if "x < ?nbx" "y < ?nby" "serve c" for x y c
    using getTileImage_ok [OF k [OF that(1,2)] that(3) axis_tiles(3) [OF ax, of x] axis_tiles(3) [OF ay, of y]]
    by (simp add: part_def)
  have row: "\<exists>r c'. map_state (?get y) [0..<?nbx] c = (Inr r, c') \<and> serve c' \<and> ?row y r"
    if "y < ?nby" "serve c" for y c
    using map_state_ok [of "[0..<?nbx]" serve "?get y" "?Q y" c] tile [OF _ that(1)] that(2) by simp
  have "\<exists>rows c'. map_state (\<lambda>y. map_state (?get y) [0..<?nbx]) [0..<?nby] c = (Inr rows, c') \<and> serve c'
      \<and> length rows = length [0..<?nby] \<and> (\<forall>i < length [0..<?nby]. ?row ([0..<?nby] ! i) (rows ! i))"
    by (rule map_state_ok) (use row c in simp_all)
  then show ?thesis by simp
qed

lemma getwindow_ok:
  assumes ax: "axis xmin xmax (tileW (tm L))" and ay: "axis ymin ymax (tileH (tm L))" and c: "serve c"
    and k: "\<And>x y. x < tiles_on xmin xmax (tileW (tm L)) \<Longrightarrow> y < tiles_on ymin ymax (tileH (tm L)) \<Longrightarrow>
      known (xmin div int (tileW (tm L)) + int x) (ymin div int (tileH (tm L)) + int y)"
    and m: "tiles_on xmin xmax (tileW (tm L)) < unat maxX" "tiles_on ymin ymax (tileH (tm L)) < unat maxY"
  shows "\<exists>W c'. getwindow P C L maxX maxY xmin ymin xmax ymax c = (Inr (Inr W), c') \<and> serve c'
    \<and> int (window_width W) = xmax - xmin \<and> int (window_height W) = ymax - ymin
    \<and> window_shows F T Z J (part xmin xmax (tileW (tm L))) (part ymin ymax (tileH (tm L)))
        (tile_part xmin ymin xmax ymax) (tiles_on xmin xmax (tileW (tm L))) (tiles_on ymin ymax (tileH (tm L)))
        (level_channels L) W"
proof -
  let ?tw = "tileW (tm L)" and ?th = "tileH (tm L)"
  let ?nbx = "tiles_on xmin xmax ?tw" and ?nby = "tiles_on ymin ymax ?th"
  let ?ws = "part xmin xmax ?tw" and ?hs = "part ymin ymax ?th"
  note dx = axis_division(1,2) [OF ax] and dy = axis_division(1,2) [OF ay]
  note tx = axis_tiles(1,2) [OF ax] and ty = axis_tiles(1,2) [OF ay]
  have nz: "?tw \<noteq> 0" "?th \<noteq> 0" using ax ay by (simp_all add: axis_def)
  have nb: "(xmax - 1) div int ?tw - xmin div int ?tw + 1 = int ?nbx"
    "(ymax - 1) div int ?th - ymin div int ?th + 1 = int ?nby" using tx(2) ty(2) by simp_all
  obtain rows c' where r: "map_state (\<lambda>y. map_state (\<lambda>x.
          getTileImage P C L (xmin div int ?tw + int x) (ymin div int ?th + int y)
            (margin_before xmin (int ?tw) x) (margin_before ymin (int ?th) y)
            (margin_after xmax (int ?tw) ?nbx x) (margin_after ymax (int ?th) ?nby y))
          [0..<?nbx]) [0..<?nby] c = (Inr rows, c')" "serve c'" "length rows = ?nby"
    "\<forall>y < ?nby. length (rows ! y) = ?nbx
       \<and> (\<forall>x < ?nbx. tile_rows F T Z J (rows ! y ! x) (tile_part xmin ymin xmax ymax y x)
          \<and> tile_width (rows ! y ! x) = ?ws x \<and> tile_height (rows ! y ! x) = ?hs y
          \<and> tile_channels (rows ! y ! x) = level_channels L)"
    using window_rows_ok [OF ax ay c k] by blast
  have w: "row_start ?ws ?nbx = nat (xmax - xmin)" "row_start ?hs ?nby = nat (ymax - ymin)"
    and pos: "xmin < xmax" "ymin < ymax"
    using axis_total [OF ax] axis_total [OF ay] ax ay by (simp_all add: axis_def)
  show ?thesis
  proof (cases "?nbx = 1 \<and> ?nby = 1")
    case True
    then have "getwindow P C L maxX maxY xmin ymin xmax ymax c = (Inr (Inr (SingleTile (rows ! 0 ! 0))), c')"
      unfolding getwindow_def Let_def dx dy nb
      using nz r(1) count_error_ok [OF tx(1) m(1)] count_error_ok [OF ty(1) m(2)] by simp
    moreover have "?ws 0 = nat (xmax - xmin)" "?hs 0 = nat (ymax - ymin)"
      using w True by (simp_all add: row_start_def)
    ultimately show ?thesis using True r(2,4) pos by (simp add: window_shows_def)
  next
    case False
    let ?im = "\<lparr>images = rows, cur_y = 0, cur_top = 0, ci_width = sum_list (map tile_width (rows ! 0)),
      ci_height = row_start ?hs ?nby, ci_channels = tile_channels (rows ! 0 ! 0)\<rparr>"
    have ne: "rows ! y \<noteq> [] \<and> tile_height (rows ! y ! 0) = ?hs y" if "y < length rows" for y
      using r(3,4) that tx(1) by auto
    have el: "elem rows 0 = Inr (rows ! 0)" "elem (rows ! 0) 0 = Inr (rows ! 0 ! 0)"
      using r(3,4) tx(1) ty(1) by (simp_all add: elem_def)
    have sf: "sum_first tile_height rows = Inr (row_start ?hs ?nby)"
      using sum_first_ok [of rows tile_height ?hs, OF ne] r(3) by simp
    have new: "CompoundImage_new tile_width tile_height tile_channels rows = Inr ?im"
      by (simp add: CompoundImage_new_def el sf)
    have "map tile_width (rows ! 0) = map ?ws [0..<?nbx]"
      using r(4) ty(1) by (intro nth_equalityI) simp_all
    then have "ci_width ?im = row_start ?ws ?nbx" by (simp add: row_start_def)
    moreover have "mosaic tile_height (tile_rows F T Z J) ?hs (tile_part xmin ymin xmax ymax) ?nby ?nbx ?im"
      using r(3,4) tx(1) ty(1) unfolding mosaic_def by simp
    moreover have "getwindow P C L maxX maxY xmin ymin xmax ymax c = (Inr (Inr (ManyTiles ?im)), c')"
      unfolding getwindow_def Let_def dx dy nb
      using nz r(1) count_error_ok [OF tx(1) m(1)] count_error_ok [OF ty(1) m(2)] False new by simp
    ultimately show ?thesis using r(2,4) tx(1) ty(1) w pos by (simp add: window_shows_def)
  qed
qed

end


end
