(* ===== verification/LevelServe.thy ===== *)
theory LevelServe
  imports Level
begin

text \<open>
  What a level serves: the tiles of a written slab, the tiles of a pyramid of files, and windows of
  pixels over them.
\<close>

subsection \<open>The data source of a tile\<close>

text \<open>Number of tiles of a slab, per row and per column, and whether its index fits 32 bits.\<close>

abbreviation slab_w :: "Level \<Rightarrow> nat" where "slab_w L \<equiv> unat (tilesPerWidth L)"
abbreviation slab_h :: "Level \<Rightarrow> nat" where "slab_h L \<equiv> unat (tilesPerHeight L)"

definition index_fits :: "Level \<Rightarrow> bool" where
  "index_fits L \<longleftrightarrow> 0 < slab_w L \<and> 0 < slab_h L \<and> ROK4_IMAGE_HEADER_SIZE + 8 * (slab_h L * slab_w L) < 2 ^ 32"

definition place_in_slab :: "Level \<Rightarrow> nat \<Rightarrow> nat \<Rightarrow> nat" where
  "place_in_slab L x y = (y mod slab_h L) * slab_w L + x mod slab_w L"

lemma place_in_slab_less:
  assumes "index_fits L"
  shows "place_in_slab L x y < slab_h L * slab_w L"
  using row_in [of "y mod slab_h L" "slab_h L" "x mod slab_w L" 1 "slab_w L"] assms
  by (simp add: place_in_slab_def index_fits_def Suc_le_eq)

lemma word_of_mod: "x < 2 ^ 32 \<Longrightarrow> word_of_int (int x) mod w = (word_of_nat (x mod unat w) :: u32)"
proof -
  assume x: "x < 2 ^ 32"
  have "x mod unat w \<le> x" by (rule mod_less_eq_dividend)
  then have "x mod unat w < 2 ^ 32" using x by (rule le_less_trans)
  with x show ?thesis by (simp add: word_unat_eq_iff unat_mod_distrib unat_u32)
qed

lemma getEncodedTile_value:
  assumes "index_fits L" "x < 2 ^ 31" "y < 2 ^ 31"
  shows "getEncodedTile P L (int x) (int y) =
    bindR (P (racine L) (int (x div slab_w L)) (int (y div slab_h L)) (pathDepth L)) (\<lambda>path.
      Inr (store_indexed path (ROK4_IMAGE_HEADER_SIZE + 4 * place_in_slab L x y)
        (ROK4_IMAGE_HEADER_SIZE + 4 * (slab_h L * slab_w L) + 4 * place_in_slab L x y)
        (ROK4_IMAGE_HEADER_SIZE + 8 * (slab_h L * slab_w L))
        (toMimeType (level_format L)) (toEncoding (level_format L))))"
proof -
  let ?n = "place_in_slab L x y" and ?h = ROK4_IMAGE_HEADER_SIZE
  have nz: "tilesPerWidth L \<noteq> 0" "tilesPerHeight L \<noteq> 0"
    using assms(1) by (auto simp: index_fits_def)
  have "tile_index L (int x) (int y) = word_of_nat ?n"
    using word_of_mod [of x "tilesPerWidth L"] word_of_mod [of y "tilesPerHeight L"] assms(2,3)
    by (simp add: tile_index_def place_in_slab_def)
  then have w: "word_of_nat ?h + 4 * tile_index L (int x) (int y) = (word_of_nat (?h + 4 * ?n) :: u32)"
    "word_of_nat ?h + tilesPerWidth L * tilesPerHeight L * 4 + 4 * tile_index L (int x) (int y)
       = (word_of_nat (?h + 4 * (slab_h L * slab_w L) + 4 * ?n) :: u32)"
    "word_of_nat ?h + 2 * 4 * tilesPerWidth L * tilesPerHeight L
       = (word_of_nat (?h + 8 * (slab_h L * slab_w L)) :: u32)"
    by (simp_all add: algebra_simps)
  have "?h + 4 * ?n < 2 ^ 32" "?h + 4 * (slab_h L * slab_w L) + 4 * ?n < 2 ^ 32"
    "?h + 8 * (slab_h L * slab_w L) < 2 ^ 32"
    using place_in_slab_less [OF assms(1), of x y] assms(1) by (simp_all add: index_fits_def)
  then have u: "unat (word_of_nat (?h + 4 * ?n) :: u32) = ?h + 4 * ?n"
    "unat (word_of_nat (?h + 4 * (slab_h L * slab_w L) + 4 * ?n) :: u32) = ?h + 4 * (slab_h L * slab_w L) + 4 * ?n"
    "unat (word_of_nat (?h + 8 * (slab_h L * slab_w L)) :: u32) = ?h + 8 * (slab_h L * slab_w L)"
    by (simp_all only: unat_u32)
  have "level_getPath P L (int x) (int y)
      = P (racine L) (int (x div slab_w L)) (int (y div slab_h L)) (pathDepth L)"
    using nz by (simp add: level_getPath_def zdiv_int)
  then show ?thesis
    unfolding getEncodedTile_def Let_def w u by (simp only: nz simp_thms if_False)
qed

lemma getData_tried:
  assumes "alreadyTried s = False" "sd_data s = None" "getData C s c = (Inr r, s', c')"
  shows "alreadyTried s' \<and> sd_data s' = r"
  using assms unfolding getData_def
  by (auto simp: Let_def dest: getData_direct_kept getData_indexed_kept split: if_splits)

text \<open>The data a stored tile is shown as.\<close>

fun level_decode :: "'z zlib \<Rightarrow> libjpeg \<Rightarrow> tile_decoder option \<Rightarrow> bytes \<Rightarrow> decoded" where
  "level_decode Z J None t = Some (Inr (Some t))"
| "level_decode Z J (Some d) t = decode_with Z J d (Some t)"

lemma decoded_source_gives:
  "alreadyTried s \<Longrightarrow> sd_data s = Some t \<Longrightarrow> level_decode Z J d t = Some (Inr r) \<Longrightarrow>
     source_gives Z J (decoded_source d s) r"
  by (cases d) (simp_all add: DataSourceDecoder_new_def)

lemma getDecodedTile_ok:
  assumes "getEncodedTile P L x y = Inr (store_indexed p po ps hs t e)"
    "getData C (store_indexed p po ps hs t e) c = (Inr (Some b), s', c')"
    "level_decoder (level_format L) = Some d" "level_decode Z J d b = Some (Inr r)"
  shows "\<exists>ds. getDecodedTile P C L x y c = (Inr (Some ds), c') \<and> source_gives Z J ds r"
proof -
  have "alreadyTried s'" "sd_data s' = Some b"
    using getData_tried [OF _ _ assms(2)] by (simp_all add: store_indexed_def)
  then have "source_gives Z J (decoded_source d s') r" using assms(4) by (rule decoded_source_gives)
  then show ?thesis using assms(1-3) by (simp add: getDecodedTile_def)
qed


subsection \<open>A written slab\<close>

text \<open>
  The image is the slab of the level that holds tile (x, y).
\<close>

definition slab_of_level :: "path_of_slab \<Rightarrow> Level \<Rightarrow> Rok4Image \<Rightarrow> nat \<Rightarrow> nat \<Rightarrow> bool" where
  "slab_of_level P L im X Y \<longleftrightarrow> P (racine L) (int X) (int Y) (pathDepth L) = Inr (slab_name im)
     \<and> tileWidthwise im = slab_w L \<and> tileHeightwise im = slab_h L
     \<and> tilesNumber im = tileHeightwise im * tileWidthwise im"

text \<open>
  C14: What the writer of slabs writes, the server finds: after \<open>writeImage\<close> of the slab (X, Y) of a
  level to any storage, \<open>getDecodedTile\<close> of every tile of that slab computes the slab's name and the
  places of the tile in the index, and gives a data source whose data is the raw tile the slab was
  written from, whenever the decoder of the format inverts the compression of the slab.
\<close>

theorem written_level_served:
  assumes "storage C pending stored can_open reliable" "reliable c" "can_open (slab_name im) c"
    "\<not> isVector im" "sample_bytes im = Some k" "slab_of_level P L im X Y" "index_fits L"
    "\<And>l. l < tileHeightwise im * tileHeight im \<Longrightarrow>
       getl l = Some (src l) \<and> length (src l) = width im * channels im * k"
    "\<And>x y. x < tileWidthwise im \<Longrightarrow> y < tileHeightwise im \<Longrightarrow>
       computeTile Z J (prepareBuffers im) (tile_of im k (row_lines src (tileHeight im) y) x)
         (crop \<and> compression im = Compression_JPEG) = Inr (Some (enc x y))
       \<and> enc x y \<noteq> [] \<and> length (enc x y) \<le> MAX_TILE_SIZE
       \<and> level_decode Z J d (enc x y) = Some (Inr (Some (tile_of im k (row_lines src (tileHeight im) y) x)))"
    "level_decoder (level_format L) = Some d"
    "data_start im + room_for (all_tiles enc (tileWidthwise im) (tileHeightwise im)) < 2 ^ 31"
  shows "\<exists>im' c'. writeImage T Z J C im getl crop c = (Inr True, im', c') \<and>
    (\<forall>x y. x div slab_w L = X \<and> y div slab_h L = Y \<and> x < 2 ^ 31 \<and> y < 2 ^ 31 \<longrightarrow>
       (\<exists>ds c''. getDecodedTile P C L (int x) (int y) c' = (Inr (Some ds), c'')
         \<and> source_gives Z J ds
             (Some (tile_of im k (row_lines src (tileHeight im) (y mod slab_h L)) (x mod slab_w L)))))"
proof -
  let ?w = "tileWidthwise im" and ?h = "tileHeightwise im"
  have sl: "P (racine L) (int X) (int Y) (pathDepth L) = Inr (slab_name im)" "?w = slab_w L" "?h = slab_h L"
    "tilesNumber im = ?h * ?w" using assms(6) by (simp_all add: slab_of_level_def)
  have enc: "computeTile Z J (prepareBuffers im) (tile_of im k (row_lines src (tileHeight im) y) x)
       (crop \<and> compression im = Compression_JPEG) = Inr (Some (enc x y)) \<and> enc x y \<noteq> []"
    if "x < ?w" "y < ?h" for x y using assms(9) [OF that] by simp
  obtain im' c' b where w: "writeImage T Z J C im getl crop c = (Inr True, im', c')" "reliable c'"
    "stored c' (slab_name im) = Some b" "slab_stored T im (all_tiles enc ?w ?h) b"
    using storage.writeImage_ok [OF assms(1,4,5,3,2) sl(4) assms(11,8) enc] by blast
  have "\<exists>ds c''. getDecodedTile P C L (int x) (int y) c' = (Inr (Some ds), c'')
      \<and> source_gives Z J ds (Some (tile_of im k (row_lines src (tileHeight im) (y mod slab_h L)) (x mod slab_w L)))"
    if xy: "x div slab_w L = X" "y div slab_h L = Y" "x < 2 ^ 31" "y < 2 ^ 31" for x y
  proof -
    let ?x = "x mod slab_w L" and ?y = "y mod slab_h L"
    have in_slab: "?x < ?w" "?y < ?h" using assms(7) sl(2,3) by (simp_all add: index_fits_def)
    have n: "place_in_slab L x y = ?y * ?w + ?x" "place_in_slab L x y < tilesNumber im"
      using place_in_slab_less [OF assms(7), of x y] sl by (simp_all add: place_in_slab_def)
    have e: "getEncodedTile P L (int x) (int y) = Inr (store_indexed (slab_name im)
        (ROK4_IMAGE_HEADER_SIZE + 4 * (?y * ?w + ?x))
        (ROK4_IMAGE_HEADER_SIZE + 4 * tilesNumber im + 4 * (?y * ?w + ?x)) (data_start im)
        (toMimeType (level_format L)) (toEncoding (level_format L)))"
      using getEncodedTile_value [OF assms(7) xy(3,4), of P] sl xy(1,2) n(1) by (simp add: data_start_def)
    have t: "all_tiles enc ?w ?h ! (?y * ?w + ?x) = enc ?x ?y" by (rule nth_all_tiles [OF in_slab])
    obtain s c'' where "getData C (store_indexed (slab_name im)
        (ROK4_IMAGE_HEADER_SIZE + 4 * (?y * ?w + ?x))
        (ROK4_IMAGE_HEADER_SIZE + 4 * tilesNumber im + 4 * (?y * ?w + ?x)) (data_start im)
        (toMimeType (level_format L)) (toEncoding (level_format L))) c' = (Inr (Some (enc ?x ?y)), s, c'')"
      using storage.stored_tile [OF assms(1) w(2-4), of "?y * ?w + ?x"] n assms(9) [OF in_slab]
      unfolding t by metis
    from getDecodedTile_ok [OF e this assms(10)] assms(9) [OF in_slab] show ?thesis by blast
  qed
  with w(1) show ?thesis by blast
qed

definition raw_level :: Level where
  "raw_level = \<lparr>racine = ''L'', pathDepth = 1, tm = \<lparr>tm_id = ''0'', tileW = 1, tileH = 1\<rparr>,
     level_format = TIFF_RAW_INT8, tilesPerWidth = 2, tilesPerHeight = 1, level_channels = 1,
     nodataValue = [255]\<rparr>"

theorem written_level_served_witness:
  "\<exists>im' c' ds c''. writeImage tags6 plain_zlib plain_jpeg file_context two_tiles (\<lambda>l. Some [7, 9]) False empty_directory
     = (Inr True, im', c')
   \<and> getDecodedTile (\<lambda>r x y d. Inr (CHR ''/'' # ''s'')) file_context raw_level 5 3 c' = (Inr (Some ds), c'')
   \<and> source_gives plain_zlib plain_jpeg ds (Some [9])"
proof -
  have "\<exists>im' c'. writeImage tags6 plain_zlib plain_jpeg file_context two_tiles (\<lambda>l. Some [7, 9]) False empty_directory
     = (Inr True, im', c') \<and> (\<forall>x y. x div slab_w raw_level = 2 \<and> y div slab_h raw_level = 3 \<and> x < 2 ^ 31 \<and> y < 2 ^ 31 \<longrightarrow>
       (\<exists>ds c''. getDecodedTile (\<lambda>r x y d. Inr (CHR ''/'' # ''s'')) file_context raw_level (int x) (int y) c' = (Inr (Some ds), c'')
         \<and> source_gives plain_zlib plain_jpeg ds
             (Some (tile_of two_tiles 1 (row_lines (\<lambda>l. [7, 9]) (tileHeight two_tiles) (y mod slab_h raw_level))
                (x mod slab_w raw_level)))))"
    by (rule written_level_served [OF file_storage.storage_axioms,
          where enc = "\<lambda>x y. [[7, 9] ! x]" and d = None])
      (simp_all add: two_tiles_fields two_tiles_computed two_tiles_tile two_tiles_room empty_directory_def
        row_lines_def slab_of_level_def raw_level_def index_fits_def ROK4_IMAGE_HEADER_SIZE_def MAX_TILE_SIZE_def)
  then obtain im' c' where w: "writeImage tags6 plain_zlib plain_jpeg file_context two_tiles (\<lambda>l. Some [7, 9]) False
      empty_directory = (Inr True, im', c')"
    "\<forall>x y. x div slab_w raw_level = 2 \<and> y div slab_h raw_level = 3 \<and> x < 2 ^ 31 \<and> y < 2 ^ 31 \<longrightarrow>
       (\<exists>ds c''. getDecodedTile (\<lambda>r x y d. Inr (CHR ''/'' # ''s'')) file_context raw_level (int x) (int y) c' = (Inr (Some ds), c'')
         \<and> source_gives plain_zlib plain_jpeg ds
             (Some (tile_of two_tiles 1 (row_lines (\<lambda>l. [7, 9]) (tileHeight two_tiles) (y mod slab_h raw_level))
                (x mod slab_w raw_level))))" by blast
  have "slab_w raw_level = 2" "slab_h raw_level = 1" by (simp_all add: raw_level_def)
  with w(1) spec [OF spec [OF w(2), of 5], of 3] show ?thesis
    by (auto simp: two_tiles_tile two_tiles_fields row_lines_def)
qed



subsection \<open>A pyramid of files\<close>

text \<open>
  What the file of the slab of tile (x, y) has to be for the tile to be shown as a raster: absent,
  or a slab whose index names data the decoder of the level can read.
\<close>

definition file_shows ::
    "(int \<Rightarrow> bytes) \<Rightarrow> sample_type \<Rightarrow> 'z zlib \<Rightarrow> libjpeg \<Rightarrow> Level \<Rightarrow> FileContext \<Rightarrow> nat \<Rightarrow> nat \<Rightarrow> bytes \<Rightarrow> bool" where
  "file_shows F T Z J L c x y raster \<longleftrightarrow>
     (\<exists>p. file_getPath (racine L) (int (x div slab_w L)) (int (y div slab_h L)) (pathDepth L) = Inr p
       \<and> (case files c (root_dir c @ p) of
            None \<Rightarrow> raster = nodata_raster F T L
          | Some b \<Rightarrow>
              \<exists>t d r. ROK4_IMAGE_HEADER_SIZE + 8 * (slab_h L * slab_w L) \<le> length b
                \<and> indexed_tile b (ROK4_IMAGE_HEADER_SIZE + 4 * place_in_slab L x y)
                    (ROK4_IMAGE_HEADER_SIZE + 4 * (slab_h L * slab_w L) + 4 * place_in_slab L x y) t
                \<and> 0 < length t \<and> length t \<le> MAX_TILE_SIZE
                \<and> level_decoder (level_format L) = Some d \<and> level_decode Z J d t = Some (Inr r)
                \<and> raster_size T L \<le> length raster
                \<and> raster = (case r of Some raw \<Rightarrow> raw | None \<Rightarrow> replicate (raster_size T L) 0)))"

definition file_serve ::
    "(int \<Rightarrow> bytes) \<Rightarrow> sample_type \<Rightarrow> 'z zlib \<Rightarrow> libjpeg \<Rightarrow> Level \<Rightarrow> (int \<Rightarrow> int \<Rightarrow> bool) \<Rightarrow>
     (int \<Rightarrow> int \<Rightarrow> bytes) \<Rightarrow> FileContext \<Rightarrow> bool" where
  "file_serve F T Z J L known raster c \<longleftrightarrow> level_ok F T L \<and> index_fits L \<and> fconnected c
     \<and> (\<forall>x y. known x y \<longrightarrow> 0 \<le> x \<and> 0 \<le> y \<and> x < 2 ^ 31 \<and> y < 2 ^ 31
          \<and> file_shows F T Z J L c (nat x) (nat y) (raster x y))"

text \<open>Reading files changes nothing.\<close>

lemma file_read_same: "read_at file_context off k n c = (r, c') \<Longrightarrow> c' = c"
  by (auto simp: file_context_def file_read_def Let_def split: option.splits if_splits)

lemma read_header_file_same: "read_header file_context hs n c = (r, n', c') \<Longrightarrow> c' = c"
  unfolding read_header_def
  by (auto dest!: file_read_same split: prod.splits sum.splits option.splits bool.splits if_splits)

lemma getData_sized_file_same: "getData_sized file_context s off k c = (r, s', c') \<Longrightarrow> c' = c"
  unfolding getData_sized_def
  by (auto dest!: file_read_same split: prod.splits sum.splits option.splits if_splits)

lemma getData_file_same:
  assumes "getData file_context s c = (r, s', c')"
  shows "c' = c"
proof -
  have d: "getData_direct file_context s c = (r, s', c') \<Longrightarrow> c' = c" for s
    unfolding getData_direct_def
    by (auto dest!: file_read_same split: prod.splits sum.splits option.splits if_splits)
  have i: "getData_indexed file_context s c = (r, s', c') \<Longrightarrow> c' = c" for s
    unfolding getData_indexed_def
    by (auto dest!: read_header_file_same getData_sized_file_same split: prod.splits sum.splits option.splits)
  from assms show ?thesis unfolding getData_def Let_def by (auto dest: d i split: if_splits)
qed



lemma getData_file_absent:
  assumes "files c (root_dir c @ p) = None" "fconnected c"
  shows "\<exists>s'. getData file_context (store_indexed p po ps hs t e) c = (Inr None, s', c)"
  using assms
  by (simp add: getData_defs store_indexed_def read_header_def file_context_def file_read_def)

lemma file_tile_law:
  assumes "known x y" "file_serve F T Z J L known raster c"
  shows "\<exists>ds. getDecodedTile file_getPath file_context L x y c = (Inr ds, c) \<and> tile_serves F T Z J L ds (raster x y)"
proof -
  define x' y' where "x' = nat x" and "y' = nat y"
  have "0 \<le> x \<and> 0 \<le> y \<and> x < 2 ^ 31 \<and> y < 2 ^ 31 \<and> file_shows F T Z J L c (nat x) (nat y) (raster x y)"
    and fit: "index_fits L" and conn: "fconnected c"
    using assms by (simp_all add: file_serve_def)
  then have xy: "x = int x'" "y = int y'" "x' < 2 ^ 31" "y' < 2 ^ 31"
    and sh: "file_shows F T Z J L c x' y' (raster x y)" by (auto simp: x'_def y'_def)
  let ?h = ROK4_IMAGE_HEADER_SIZE and ?n = "place_in_slab L x' y'" and ?m = "slab_h L * slab_w L"
  obtain p where p: "file_getPath (racine L) (int (x' div slab_w L)) (int (y' div slab_h L)) (pathDepth L) = Inr p"
    using sh by (auto simp: file_shows_def)
  let ?s = "store_indexed p (?h + 4 * ?n) (?h + 4 * ?m + 4 * ?n) (?h + 8 * ?m)
      (toMimeType (level_format L)) (toEncoding (level_format L))"
  have e: "getEncodedTile file_getPath L x y = Inr ?s"
    using getEncodedTile_value [OF fit xy(3,4), of file_getPath] p by (simp add: xy(1,2))
  show ?thesis
  proof (cases "files c (root_dir c @ p)")
    case None
    then obtain s' where "getData file_context ?s c = (Inr None, s', c)"
      using getData_file_absent [OF None conn] by blast
    with e have "getDecodedTile file_getPath file_context L x y c = (Inr None, c)"
      by (simp add: getDecodedTile_def)
    moreover have "raster x y = nodata_raster F T L" using sh p None by (simp add: file_shows_def)
    ultimately show ?thesis by (simp add: tile_serves_def)
  next
    case (Some b)
    with sh p obtain t d r where t: "?h + 8 * ?m \<le> length b"
      "indexed_tile b (?h + 4 * ?n) (?h + 4 * ?m + 4 * ?n) t" "0 < length t" "length t \<le> MAX_TILE_SIZE"
      "level_decoder (level_format L) = Some d" "level_decode Z J d t = Some (Inr r)"
      "raster_size T L \<le> length (raster x y)"
      "raster x y = (case r of Some raw \<Rightarrow> raw | None \<Rightarrow> replicate (raster_size T L) 0)"
      by (auto simp: file_shows_def)
    have n: "?n < ?m" by (rule place_in_slab_less [OF fit])
    obtain s' c' where g: "getData file_context ?s c = (Inr (Some t), s', c')"
      using file_storage.getData_tile [OF conn Some t(1) _ _ _ t(2-4), of "toMimeType (level_format L)"
          "toEncoding (level_format L)"] n by auto
    then have "c' = c" by (rule getData_file_same)
    with getDecodedTile_ok [OF e g t(5,6)] obtain ds where
      "getDecodedTile file_getPath file_context L x y c = (Inr (Some ds), c)" "source_gives Z J ds r" by blast
    with t(7,8) show ?thesis by (auto simp: tile_serves_def)
  qed
qed

interpretation file_tiles: level_tiles file_getPath file_context L F T Z J known
    "file_serve F T Z J L known raster" raster
  for L F T Z J known raster
proof
  show "\<exists>ds c'. getDecodedTile file_getPath file_context L x y c = (Inr ds, c')
      \<and> file_serve F T Z J L known raster c' \<and> tile_serves F T Z J L ds (raster x y)"
    if "known x y" "file_serve F T Z J L known raster c" for x y c
    using file_tile_law [OF that] that(2) by blast
  show "level_ok F T L" if "file_serve F T Z J L known raster c" for c
    using that by (simp add: file_serve_def)
qed

subsection \<open>Windows\<close>

text \<open>
  C13: A window of a level shows the level: \<open>getwindow\<close> gives an image of the size asked for, and its
  lines, read in any order, are made pixel by pixel of the rasters of the tiles the pixels are in,
  whatever tiles are there: data, black where the data cannot be decoded, the nodata value where
  there is none. (The first and last coordinates are not negative multiples of the tile size, the
  number of tiles is below the limits of the service.)
\<close>

theorem window_pixels:
  assumes "level_tiles P C L F T Z J known serve raster" "serve c"
    "axis xmin xmax (tileW (tm L))" "axis ymin ymax (tileH (tm L))"
    "\<And>x y. x < tiles_on xmin xmax (tileW (tm L)) \<Longrightarrow> y < tiles_on ymin ymax (tileH (tm L)) \<Longrightarrow>
      known (xmin div int (tileW (tm L)) + int x) (ymin div int (tileH (tm L)) + int y)"
    "tiles_on xmin xmax (tileW (tm L)) < unat maxX" "tiles_on ymin ymax (tileH (tm L)) < unat maxY"
  shows "\<exists>W c'. getwindow P C L maxX maxY xmin ymin xmax ymax c = (Inr (Inr W), c')
    \<and> int (window_width W) = xmax - xmin \<and> int (window_height W) = ymax - ymin
    \<and> (\<forall>ls. (\<forall>l \<in> set ls. int l < ymax - ymin) \<longrightarrow>
         window_getlines F T Z J C W ls c' =
           Some (map (\<lambda>l. (nat (xmax - xmin) * level_channels L,
             level_line L (level_channels L * sizeof T) raster xmin (ymin + int l) (nat (xmax - xmin)))) ls))"
  using level_tiles.getwindow_ok [OF assms(1,3,4,2,5-7)] level_tiles.window_getlines_ok [OF assms(1,3,4)]
  by blast

text \<open>Two slabs of one tile of two pixels; the second one is missing.\<close>

definition gray_level :: Level where
  "gray_level = \<lparr>racine = ''L'', pathDepth = 0, tm = \<lparr>tm_id = ''0'', tileW = 2, tileH = 1\<rparr>,
     level_format = TIFF_RAW_INT8, tilesPerWidth = 1, tilesPerHeight = 1, level_channels = 1,
     nodataValue = [255]\<rparr>"

definition one_slab :: FileContext where
  "one_slab = empty_directory\<lparr>files := [''/rL/00.tif'' \<mapsto>
     replicate 2048 0 @ put32 2056 @ put32 2 @ [7, 9]]\<rparr>"

lemma slab_of_one_tile:
  "indexed_tile (replicate 2048 0 @ put32 2056 @ put32 2 @ [7, 9]) 2048 2052 [7, 9]"
proof -
  let ?b = "replicate 2048 0 @ put32 2056 @ put32 2 @ [7, 9]"
  have "drop 2048 (replicate 2048 (0::u8) @ xs) = xs" "drop 2052 (replicate 2048 (0::u8) @ xs) = drop 4 xs"
    "drop 2056 (replicate 2048 (0::u8) @ xs) = drop 8 xs" for xs
    by (simp_all add: drop_replicate)
  then have "get32 ?b 2048 = Inr 2056" "get32 ?b 2052 = Inr 2" "window 2056 2 ?b = [7, 9]"
    by (auto intro!: get32_put simp: window_def)
  then show ?thesis by (simp add: indexed_tile_def numeral_2_eq_2 [symmetric])
qed

lemma one_slab_shows:
  "file_shows F U8 Z J gray_level one_slab 0 0 [7, 9]" "file_shows F U8 Z J gray_level one_slab 1 0 [255, 255]"
proof -
  have p: "file_getPath ''L'' 0 0 0 = Inr ''L/00.tif''" "file_getPath ''L'' 1 0 0 = Inr ''L/10.tif''"
    by code_simp+
  have f: "files one_slab (root_dir one_slab @ ''L/00.tif'') = Some (replicate 2048 0 @ put32 2056 @ put32 2 @ [7, 9])"
    "files one_slab (root_dir one_slab @ ''L/10.tif'') = None"
    by (simp_all add: one_slab_def empty_directory_def)
  show "file_shows F U8 Z J gray_level one_slab 0 0 [7, 9]"
    unfolding file_shows_def
    by (rule exI [of _ "''L/00.tif''"])
      (use p f slab_of_one_tile in \<open>simp add: gray_level_def place_in_slab_def ROK4_IMAGE_HEADER_SIZE_def
        MAX_TILE_SIZE_def raster_size_def exI [of _ "[7, 9]"]\<close>)
  show "file_shows F U8 Z J gray_level one_slab 1 0 [255, 255]"
    unfolding file_shows_def
    by (rule exI [of _ "''L/10.tif''"])
      (use p f in \<open>simp add: gray_level_def nodata_raster_def nodata_pixel_def eval_nat_numeral\<close>)
qed

theorem window_pixels_witness:
  "\<exists>W c'. getwindow file_getPath file_context gray_level 16 16 1 0 3 1 one_slab = (Inr (Inr W), c')
    \<and> window_getlines (\<lambda>_. [0, 0, 0, 0]) U8 plain_zlib plain_jpeg file_context W [0] c' = Some [(2, [9, 255])]"
proof -
  let ?known = "\<lambda>x y. (x = 0 \<or> x = 1) \<and> y = (0 :: int)"
  let ?raster = "\<lambda>x y. if x = (0 :: int) then [7, 9] else [255, 255 :: u8]"
  let ?F = "\<lambda>_. [0, 0, 0, 0]"
  have serve: "file_serve ?F U8 plain_zlib plain_jpeg gray_level ?known ?raster one_slab"
    using one_slab_shows [of ?F plain_zlib plain_jpeg]
    by (auto simp: file_serve_def level_ok_def native_def pixel_size_def index_fits_def gray_level_def
        ROK4_IMAGE_HEADER_SIZE_def one_slab_def empty_directory_def)
  have "\<exists>W c'. getwindow file_getPath file_context gray_level 16 16 1 0 3 1 one_slab = (Inr (Inr W), c')
    \<and> int (window_width W) = 3 - 1 \<and> int (window_height W) = 1 - 0
    \<and> (\<forall>ls. (\<forall>l \<in> set ls. int l < 1 - 0) \<longrightarrow>
         window_getlines ?F U8 plain_zlib plain_jpeg file_context W ls c' =
           Some (map (\<lambda>l. (nat (3 - 1) * level_channels gray_level,
             level_line gray_level (level_channels gray_level * sizeof U8) ?raster 1 (0 + int l) (nat (3 - 1)))) ls))"
    by (rule window_pixels [OF file_tiles.level_tiles_axioms serve])
      (auto simp: axis_def divides_well_def tiles_on_def gray_level_def)
  then obtain W c' where w: "getwindow file_getPath file_context gray_level 16 16 1 0 3 1 one_slab = (Inr (Inr W), c')"
    "\<forall>ls. (\<forall>l \<in> set ls. int l < 1 - 0) \<longrightarrow>
         window_getlines ?F U8 plain_zlib plain_jpeg file_context W ls c' =
           Some (map (\<lambda>l. (nat (3 - 1) * level_channels gray_level,
             level_line gray_level (level_channels gray_level * sizeof U8) ?raster 1 (0 + int l) (nat (3 - 1)))) ls)"
    by blast
  have "level_line gray_level 1 ?raster 1 0 2 = [9, 255]"
    by (simp add: level_line_def level_pixel_def pixel_of_def gray_level_def window_def upt_conv_Cons)
  with w(1) spec [OF w(2), of "[0]"] show ?thesis by (auto simp: gray_level_def)
qed


text \<open>
  A window that starts at a negative multiple of the tile size is too wide: the quotient is one
  too small there, so a tile more is taken. Here two pixels are asked for, from -2 on, and four are
  given.
\<close>

theorem negative_window_too_wide:
  "\<exists>W. getwindow file_getPath file_context gray_level 16 16 (-2) 0 0 1 one_slab = (Inr (Inr W), one_slab)
     \<and> window_width W = 4"
proof -
  have q: "euclideanDivisionQuotient (-2) 2 = -2" "euclideanDivisionQuotient (-1) 2 = -1"
    "euclideanDivisionRemainder (-2) 2 = 0" "euclideanDivisionRemainder (-1) 2 = 1"
    "euclideanDivisionQuotient 0 1 = 0" "euclideanDivisionRemainder 0 1 = 0"
    by code_simp+
  have absent: "files one_slab (root_dir one_slab @ '''') = None" "fconnected one_slab"
    by (simp_all add: one_slab_def empty_directory_def)
  have d: "getDecodedTile file_getPath file_context gray_level x 0 one_slab = (Inr None, one_slab)" if "x < 0" for x
  proof -
    have e: "getEncodedTile file_getPath gray_level x 0 = Inr (store_indexed '''' 2048 2052 2056
        (toMimeType TIFF_RAW_INT8) (toEncoding TIFF_RAW_INT8))"
      using that by (simp add: getEncodedTile_def level_getPath_def tile_index_def gray_level_def
          ROK4_IMAGE_HEADER_SIZE_def)
    obtain s' where "getData file_context (store_indexed '''' 2048 2052 2056
        (toMimeType TIFF_RAW_INT8) (toEncoding TIFF_RAW_INT8)) one_slab = (Inr None, s', one_slab)"
      using getData_file_absent [OF absent] by blast
    with e show ?thesis by (simp add: getDecodedTile_def)
  qed
  let ?tile = "NodataTile \<lparr>em_width = 2, em_height = 1, em_channels = 1, color = [255]\<rparr>"
  have t: "getTileImage file_getPath file_context gray_level x 0 0 0 0 0 one_slab = (Inr ?tile, one_slab)"
    if "x < 0" for x
    using d [OF that] by (simp add: getTileImage_def EmptyImage_new_def) (simp add: gray_level_def EmptyImage_new_def)
  have c: "count_error 16 2 = None" "count_error 16 1 = None" by code_simp+
  have g: "tileW (tm gray_level) = 2" "tileH (tm gray_level) = 1" by (simp_all add: gray_level_def)
  show ?thesis
    by (simp add: getwindow_def Let_def g q c t margin_before_def margin_after_def numeral_2_eq_2 [symmetric] upt_conv_Cons
        CompoundImage_new_def elem_def)
qed


end
