(* ===== verification/DataStreams.thy ===== *)
theory DataStreams
  imports Prelude
begin

text \<open>
  lib/libimage/Data.h and Data.cpp: sources of data, streams of data, and the classes that turn one
  into the other.

  The virtual methods of \<open>DataSource\<close> and \<open>DataStream\<close> are records of functions over the state of
  the object, which every class fills with its own. An allocation is taken to succeed.
\<close>

type_synonym u64 = "64 word"

lemma unat_u64: "n < 2 ^ 64 \<Longrightarrow> unat (word_of_nat n :: u64) = n"
  by (simp add: unat_of_nat take_bit_eq_mod)

subsection \<open>The interfaces\<close>

text \<open>
  \<open>getData\<close> gives the pointer, which may be null, and the size it stores in its argument, \<open>None\<close>
  when it leaves the argument as it was.
\<close>

record 'd DataSource =
  ds_getData :: "'d \<Rightarrow> (fault + bytes option \<times> nat option) \<times> 'd"
  ds_releaseData :: "'d \<Rightarrow> bool \<times> 'd"
  ds_getType :: "'d \<Rightarrow> string"
  ds_getHttpStatus :: "'d \<Rightarrow> int"
  ds_getEncoding :: "'d \<Rightarrow> string"
  ds_getLength :: "'d \<Rightarrow> nat"

text \<open>
  \<open>read\<close> gives the bytes it stored in the buffer; \<open>getLength\<close> may prepare the stream. \<open>None\<close> is a call that
  does not return.
\<close>

record 's DataStream =
  st_read :: "'s \<Rightarrow> nat \<Rightarrow> (fault + bytes \<times> 's) option"
  st_eof :: "'s \<Rightarrow> bool"
  st_getType :: "'s \<Rightarrow> string"
  st_getHttpStatus :: "'s \<Rightarrow> int"
  st_getEncoding :: "'s \<Rightarrow> string"
  st_getLength :: "'s \<Rightarrow> (fault + nat \<times> 's) option"

subsection \<open>RawDataSource\<close>

record RawDataSource =
  rd_dataSize :: nat
  rd_data :: "bytes option"
  rd_type :: string
  rd_encoding :: string
  rd_length :: nat

definition RawDataSource_new :: "bytes \<Rightarrow> string \<Rightarrow> string \<Rightarrow> nat \<Rightarrow> RawDataSource" where
  "RawDataSource_new dat t e l =
     \<lparr>rd_dataSize = length dat, rd_data = Some dat, rd_type = t, rd_encoding = e, rd_length = l\<rparr>"

definition RawDataSource_getData :: "RawDataSource \<Rightarrow> (fault + bytes option \<times> nat option) \<times> RawDataSource" where
  "RawDataSource_getData d = (Inr (rd_data d, Some (rd_dataSize d)), d)"

definition RawDataSource_releaseData :: "RawDataSource \<Rightarrow> bool \<times> RawDataSource" where
  "RawDataSource_releaseData d = (True, d\<lparr>rd_data := None\<rparr>)"

definition raw_source :: "RawDataSource DataSource" where
  "raw_source =
     \<lparr>ds_getData = RawDataSource_getData, ds_releaseData = RawDataSource_releaseData,
      ds_getType = rd_type, ds_getHttpStatus = (\<lambda>d. 200), ds_getEncoding = rd_encoding,
      ds_getLength = rd_length\<rparr>"

subsection \<open>DataSourceProxy\<close>

datatype proxy_status = UNKNOWN | DATA | NODATA

text \<open>The data source may be a null pointer; the other one is a reference.\<close>

record ('d, 'n) DataSourceProxy =
  px_status :: proxy_status
  px_dataSource :: "'d option"
  px_noDataSource :: 'n

definition DataSourceProxy_new :: "'d option \<Rightarrow> 'n \<Rightarrow> ('d, 'n) DataSourceProxy" where
  "DataSourceProxy_new d n = \<lparr>px_status = UNKNOWN, px_dataSource = d, px_noDataSource = n\<rparr>"

text \<open>The choice of the source: \<open>True\<close> is the data source. It is made at the first call.\<close>

definition px_getDataSource ::
    "'d DataSource \<Rightarrow> ('d, 'n) DataSourceProxy \<Rightarrow> fault + bool \<times> ('d, 'n) DataSourceProxy" where
  "px_getDataSource D p =
     (case px_status p of
        UNKNOWN \<Rightarrow>
          (case px_dataSource p of
             None \<Rightarrow> Inr (False, p\<lparr>px_status := NODATA\<rparr>)
           | Some d \<Rightarrow>
               (case ds_getData D d of
                  (Inl e, d') \<Rightarrow> Inl e
                | (Inr (Some _, _), d') \<Rightarrow> Inr (True, p\<lparr>px_dataSource := Some d', px_status := DATA\<rparr>)
                | (Inr (None, _), d') \<Rightarrow> Inr (False, p\<lparr>px_dataSource := Some d', px_status := NODATA\<rparr>)))
      | DATA \<Rightarrow> Inr (True, p)
      | NODATA \<Rightarrow> Inr (False, p))"

text \<open>Every method of the proxy asks for the source and calls it.\<close>

definition px_call ::
    "'d DataSource \<Rightarrow> ('d \<Rightarrow> 'r \<times> 'd) \<Rightarrow> ('n \<Rightarrow> 'r \<times> 'n) \<Rightarrow> ('d, 'n) DataSourceProxy \<Rightarrow>
     fault + 'r \<times> ('d, 'n) DataSourceProxy" where
  "px_call D f g p =
     bindR (px_getDataSource D p) (\<lambda>(here, p').
       if here then
         (case px_dataSource p' of
            None \<Rightarrow> Inl NullPointer
          | Some d \<Rightarrow> (case f d of (r, d') \<Rightarrow> Inr (r, p'\<lparr>px_dataSource := Some d'\<rparr>)))
       else (case g (px_noDataSource p') of (r, n') \<Rightarrow> Inr (r, p'\<lparr>px_noDataSource := n'\<rparr>)))"

definition px_getData where
  "px_getData D N p = px_call D (ds_getData D) (ds_getData N) p"

definition px_releaseData where
  "px_releaseData D N p = px_call D (ds_releaseData D) (ds_releaseData N) p"

definition px_getType where
  "px_getType D N p = px_call D (\<lambda>d. (ds_getType D d, d)) (\<lambda>n. (ds_getType N n, n)) p"

definition px_getHttpStatus where
  "px_getHttpStatus D N p =
     px_call D (\<lambda>d. (ds_getHttpStatus D d, d)) (\<lambda>n. (ds_getHttpStatus N n, n)) p"

definition px_getEncoding where
  "px_getEncoding D N p = px_call D (\<lambda>d. (ds_getEncoding D d, d)) (\<lambda>n. (ds_getEncoding N n, n)) p"

definition px_getLength where
  "px_getLength D N p = px_call D (\<lambda>d. (ds_getLength D d, d)) (\<lambda>n. (ds_getLength N n, n)) p"

subsection \<open>RawDataStream\<close>

record RawDataStream =
  rs_data :: bytes
  rs_pos :: nat
  rs_type :: string
  rs_encoding :: string
  rs_length :: nat

definition RawDataStream_new :: "bytes \<Rightarrow> string \<Rightarrow> string \<Rightarrow> nat \<Rightarrow> RawDataStream" where
  "RawDataStream_new dat t e l =
     \<lparr>rs_data = dat, rs_pos = 0, rs_type = t, rs_encoding = e, rs_length = l\<rparr>"

definition RawDataStream_read :: "RawDataStream \<Rightarrow> nat \<Rightarrow> fault + bytes \<times> RawDataStream" where
  "RawDataStream_read s sz =
     (let n = (if sz > length (rs_data s) - rs_pos s then length (rs_data s) - rs_pos s else sz) in
      Inr (take n (drop (rs_pos s) (rs_data s)), s\<lparr>rs_pos := rs_pos s + n\<rparr>))"

definition RawDataStream_eof :: "RawDataStream \<Rightarrow> bool" where
  "RawDataStream_eof s \<longleftrightarrow> rs_pos s = length (rs_data s)"

definition raw_stream :: "RawDataStream DataStream" where
  "raw_stream =
     \<lparr>st_read = (\<lambda>s n. Some (RawDataStream_read s n)), st_eof = RawDataStream_eof, st_getType = rs_type,
      st_getHttpStatus = (\<lambda>s. 200), st_getEncoding = rs_encoding,
      st_getLength = (\<lambda>s. Some (Inr (rs_length s, s)))\<rparr>"

subsection \<open>DataStreamFromDataSource\<close>

record 'd DataStreamFromDataSource =
  df_source :: 'd
  df_pos :: nat
  df_data :: "bytes option"
  df_data_size :: nat

definition DataStreamFromDataSource_new :: "'d DataSource \<Rightarrow> 'd \<Rightarrow> fault + 'd DataStreamFromDataSource" where
  "DataStreamFromDataSource_new D d =
     (case ds_getData D d of
        (Inl e, d') \<Rightarrow> Inl e
      | (Inr (dat, None), d') \<Rightarrow> Inl Uninitialised
      | (Inr (dat, Some n), d') \<Rightarrow> Inr \<lparr>df_source = d', df_pos = 0, df_data = dat, df_data_size = n\<rparr>)"

definition df_read :: "'d DataStreamFromDataSource \<Rightarrow> nat \<Rightarrow> fault + bytes \<times> 'd DataStreamFromDataSource" where
  "df_read s sz =
     (let n = min (df_data_size s - df_pos s) sz in
      if n = 0 then Inr ([], s)
      else
        case df_data s of
          None \<Rightarrow> Inl NullPointer
        | Some dat \<Rightarrow>
            if length dat < df_pos s + n then Inl OverRead
            else Inr (take n (drop (df_pos s) dat), s\<lparr>df_pos := df_pos s + n\<rparr>))"

definition df_eof :: "'d DataStreamFromDataSource \<Rightarrow> bool" where
  "df_eof s \<longleftrightarrow> df_data_size s = df_pos s"

definition from_source :: "'d DataSource \<Rightarrow> 'd DataStreamFromDataSource DataStream" where
  "from_source D =
     \<lparr>st_read = (\<lambda>s n. Some (df_read s n)), st_eof = df_eof, st_getType = (\<lambda>s. ds_getType D (df_source s)),
      st_getHttpStatus = (\<lambda>s. ds_getHttpStatus D (df_source s)),
      st_getEncoding = (\<lambda>s. ds_getEncoding D (df_source s)),
      st_getLength = (\<lambda>s. Some (Inr (ds_getLength D (df_source s), s)))\<rparr>"

subsection \<open>BufferedDataSource\<close>

record BufferedDataSource =
  bd_type :: string
  bd_encoding :: string
  bd_httpStatus :: int
  bd_data :: bytes
  bd_dataSize :: nat
  bd_ok :: bool

text \<open>
  The loop of the constructor. The buffer has room for \<open>cap\<close> bytes, of which \<open>acc\<close> are filled;
  \<open>read\<close> is told that \<open>maxSize\<close> more fit. The result is the bytes read and the status.
\<close>

partial_function (option) buffered_loop ::
    "'s DataStream \<Rightarrow> 's \<Rightarrow> u64 \<Rightarrow> nat \<Rightarrow> bytes \<Rightarrow> (fault + bytes \<times> bool) option" where
  "buffered_loop S s maxSize cap acc =
     (if st_eof S s then Some (Inr (acc, True))
      else
        case st_read S s (unat maxSize) of
          None \<Rightarrow> None
        | Some (Inl e) \<Rightarrow> Some (Inl e)
        | Some (Inr (bs, s')) \<Rightarrow>
            if cap < length acc + length bs then Some (Inl BufferOverflow)
            else if bs = [] then Some (Inr (acc, False))
            else if st_eof S s' then Some (Inr (acc @ bs, True))
            else buffered_loop S s' (maxSize * 2)
                   (unat (maxSize * 2 + word_of_nat (length (acc @ bs)))) (acc @ bs))"

definition BufferedDataSource_new :: "'s DataStream \<Rightarrow> 's \<Rightarrow> (fault + BufferedDataSource) option" where
  "BufferedDataSource_new S s =
     map_option (\<lambda>r. bindR r (\<lambda>(dat, status). Inr
         \<lparr>bd_type = st_getType S s, bd_encoding = st_getEncoding S s, bd_httpStatus = st_getHttpStatus S s,
          bd_data = dat, bd_dataSize = (if status then length dat else 0), bd_ok = status\<rparr>))
       (buffered_loop S s 32768 32768 [])"

definition buffered_source :: "BufferedDataSource DataSource" where
  "buffered_source =
     \<lparr>ds_getData = (\<lambda>d. (Inr (Some (bd_data d), Some (bd_dataSize d)), d)), ds_releaseData = (\<lambda>d. (False, d)),
      ds_getType = bd_type, ds_getHttpStatus = bd_httpStatus, ds_getEncoding = bd_encoding,
      ds_getLength = (\<lambda>d. bd_dataSize d mod 2 ^ 32)\<rparr>"


subsection \<open>What a stream promises\<close>

text \<open>
  \<open>rest s\<close> is what the stream still has to give in a state the class reaches (\<open>ok s\<close>). A read
  gives the next part of it, and what does not fit; it may leave at most \<open>slack s\<close> of the space it
  is given unused, unless nothing is left. Asking for the length takes nothing from it.
\<close>

locale readable =
  fixes S :: "'s DataStream" and ok :: "'s \<Rightarrow> bool" and rest :: "'s \<Rightarrow> bytes" and slack :: "'s \<Rightarrow> nat"
  assumes read_law:
    "ok s \<Longrightarrow> \<exists>bs s'. st_read S s sz = Some (Inr (bs, s')) \<and> ok s' \<and> rest s = bs @ rest s' \<and> length bs \<le> sz
       \<and> slack s' \<le> slack s \<and> (rest s' = [] \<or> sz < length bs + slack s)"
    and length_law:
    "ok s \<Longrightarrow> \<exists>n s'. st_getLength S s = Some (Inr (n, s')) \<and> ok s' \<and> rest s' = rest s \<and> slack s' \<le> slack s"

locale ended_stream = readable +
  assumes eof_law: "ok s \<Longrightarrow> st_eof S s \<longleftrightarrow> rest s = []"

context ended_stream begin

lemma buffered_loop_whole:
  assumes "ok s" "slack s \<le> 32768" "32768 \<le> unat m" "unat m \<le> 2 * length acc + 65536"
    "unat m + length acc \<le> cap" "length acc + length (rest s) < 2 ^ 60"
  shows "buffered_loop S s m cap acc = Some (Inr (acc @ rest s, True))"
  using assms
proof (induction "length (rest s)" arbitrary: s m cap acc rule: less_induct)
  case less
  show ?case
  proof (cases "rest s = []")
    case True
    then show ?thesis using eof_law [OF less.prems(1)] by (simp add: buffered_loop.simps [of S s])
  next
    case False
    obtain bs s' where r: "st_read S s (unat m) = Some (Inr (bs, s'))" "ok s'" "rest s = bs @ rest s'"
      "length bs \<le> unat m" "slack s' \<le> slack s" "rest s' = [] \<or> unat m < length bs + slack s"
      using read_law [OF less.prems(1), of "unat m"] by blast
    have ne: "bs \<noteq> []" using r(3,6) False less.prems(2,3) by (cases bs) auto
    have e: "\<not> st_eof S s" "st_eof S s' \<longleftrightarrow> rest s' = []"
      using eof_law [OF less.prems(1)] eof_law [OF r(2)] False by simp_all
    have fits: "\<not> cap < length acc + length bs" using less.prems(5) r(4) by linarith
    show ?thesis
    proof (cases "rest s' = []")
      case True
      then show ?thesis using r(1,3) ne e fits by (simp add: buffered_loop.simps [of S s])
    next
      case more: False
      then have filled: "unat m < length bs + 32768" using r(6) less.prems(2) by simp
      have small: "2 * unat m < 2 ^ 63" using less.prems(4,6) by simp
      have dbl: "unat (m * 2) = 2 * unat m"
        using small by (simp add: unat_word_ariths)
      have len: "length (acc @ bs) < 2 ^ 60" using less.prems(6) r(3) by simp
      have "m * 2 + word_of_nat (length (acc @ bs)) = word_of_nat (2 * unat m + length (acc @ bs))"
        by simp
      then have sum: "unat (m * 2 + word_of_nat (length (acc @ bs))) = 2 * unat m + length (acc @ bs)"
        using unat_u64 [of "2 * unat m + length (acc @ bs)"] small len by (simp add: mult.commute)
      have "buffered_loop S s' (m * 2) (unat (m * 2 + word_of_nat (length (acc @ bs)))) (acc @ bs)
          = Some (Inr ((acc @ bs) @ rest s', True))"
        by (rule less.hyps) (use r ne filled dbl sum less.prems in simp_all)
      then show ?thesis using r(1,3) ne e fits more by (simp add: buffered_loop.simps [of S s])
    qed
  qed
qed

lemma buffered_whole:
  assumes "ok s" "slack s \<le> 32768" "length (rest s) < 2 ^ 60"
  shows "BufferedDataSource_new S s = Some (Inr
    \<lparr>bd_type = st_getType S s, bd_encoding = st_getEncoding S s, bd_httpStatus = st_getHttpStatus S s,
     bd_data = rest s, bd_dataSize = length (rest s), bd_ok = True\<rparr>)"
  using buffered_loop_whole [OF assms(1,2), of 32768 "[]" 32768] assms(3)
  by (simp add: BufferedDataSource_new_def)

end

subsection \<open>The streams of Data.h\<close>

lemma drop_split: "drop p xs = take n (drop p xs) @ drop (p + n) xs"
  by (metis add.commute append_take_drop_id drop_drop)

definition raw_rest :: "RawDataStream \<Rightarrow> bytes" where
  "raw_rest s = drop (rs_pos s) (rs_data s)"

interpretation raws: ended_stream raw_stream "\<lambda>s. rs_pos s \<le> length (rs_data s)" raw_rest "\<lambda>_. 1"
  by unfold_locales
    (auto simp: raw_stream_def RawDataStream_read_def RawDataStream_eof_def raw_rest_def Let_def
      intro: drop_split)

definition df_ok :: "'d DataStreamFromDataSource \<Rightarrow> bool" where
  "df_ok s \<longleftrightarrow> df_pos s \<le> df_data_size s
     \<and> (0 < df_data_size s \<longrightarrow> (\<exists>dat. df_data s = Some dat \<and> length dat = df_data_size s))"

definition df_rest :: "'d DataStreamFromDataSource \<Rightarrow> bytes" where
  "df_rest s = (case df_data s of None \<Rightarrow> [] | Some dat \<Rightarrow> drop (df_pos s) (take (df_data_size s) dat))"

lemma df_stream: "ended_stream (from_source D) df_ok df_rest (\<lambda>_. 1)"
proof
  fix s :: "'a DataStreamFromDataSource" and sz
  assume "df_ok s"
  then show "\<exists>bs s'. st_read (from_source D) s sz = Some (Inr (bs, s')) \<and> df_ok s' \<and> df_rest s = bs @ df_rest s' \<and> length bs \<le> sz
       \<and> 1 \<le> (1::nat) \<and> (df_rest s' = [] \<or> sz < length bs + 1)"
    by (auto simp: from_source_def df_read_def df_ok_def df_rest_def Let_def min_def split: option.splits
        intro: drop_split)
next
  fix s :: "'a DataStreamFromDataSource"
  assume "df_ok s"
  then show "\<exists>n s'. st_getLength (from_source D) s = Some (Inr (n, s')) \<and> df_ok s' \<and> df_rest s' = df_rest s \<and> 1 \<le> (1::nat)"
    by (simp add: from_source_def)
next
  fix s :: "'a DataStreamFromDataSource"
  assume "df_ok s"
  then show "st_eof (from_source D) s \<longleftrightarrow> df_rest s = []"
    by (auto simp: from_source_def df_eof_def df_ok_def df_rest_def split: option.splits)
qed

interpretation df_streams: ended_stream "from_source D" df_ok df_rest "\<lambda>_. 1" for D
  by (rule df_stream)

subsection \<open>From a source to a stream and back\<close>

text \<open>
  C29: A data source that is read as a stream, in pieces of a growing size, and collected into a
  buffer again gives the same bytes, type, encoding and status, whatever the size of the data
  (below 2 to the 60); the loop ends.
\<close>

theorem source_through_stream:
  assumes "ds_getData D d = (Inr (Some dat, Some (length dat)), d')" "length dat < 2 ^ 60"
  shows "\<exists>s. DataStreamFromDataSource_new D d = Inr s \<and> BufferedDataSource_new (from_source D) s = Some (Inr
    \<lparr>bd_type = ds_getType D d', bd_encoding = ds_getEncoding D d', bd_httpStatus = ds_getHttpStatus D d',
     bd_data = dat, bd_dataSize = length dat, bd_ok = True\<rparr>)"
proof -
  let ?s = "\<lparr>df_source = d', df_pos = 0, df_data = Some dat, df_data_size = length dat\<rparr>"
  have "df_ok ?s" "df_rest ?s = dat" by (simp_all add: df_ok_def df_rest_def)
  with df_streams.buffered_whole [of ?s D] assms show ?thesis
    by (simp add: from_source_def DataStreamFromDataSource_new_def)
qed

theorem source_through_stream_witness:
  "\<exists>s. DataStreamFromDataSource_new raw_source (RawDataSource_new [1, 2, 3] ''image/png'' '''' 3) = Inr s
    \<and> BufferedDataSource_new (from_source raw_source) s = Some (Inr
    \<lparr>bd_type = ''image/png'', bd_encoding = '''', bd_httpStatus = 200,
     bd_data = [1, 2, 3], bd_dataSize = 3, bd_ok = True\<rparr>)"
  using source_through_stream [of raw_source "RawDataSource_new [1, 2, 3] ''image/png'' '''' 3" "[1, 2, 3]"]
  by (simp add: raw_source_def RawDataSource_getData_def RawDataSource_new_def numeral_3_eq_3)

lemma raw_stream_buffered:
  assumes "length dat < 2 ^ 60"
  shows "BufferedDataSource_new raw_stream (RawDataStream_new dat t e l) = Some (Inr
    \<lparr>bd_type = t, bd_encoding = e, bd_httpStatus = 200, bd_data = dat, bd_dataSize = length dat, bd_ok = True\<rparr>)"
  using raws.buffered_whole [of "RawDataStream_new dat t e l"] assms
  by (simp add: RawDataStream_new_def raw_rest_def raw_stream_def)

text \<open>A source that was released has no bytes any more, but still a size: its stream reads through null.\<close>

lemma released_source_null:
  assumes "dat \<noteq> []" "0 < sz"
  shows "bindR (DataStreamFromDataSource_new raw_source
           (snd (RawDataSource_releaseData (RawDataSource_new dat t e l)))) (\<lambda>s. df_read s sz) = Inl NullPointer"
  using assms by (simp add: DataStreamFromDataSource_new_def raw_source_def RawDataSource_getData_def
      RawDataSource_releaseData_def RawDataSource_new_def df_read_def Let_def)

subsection \<open>The proxy\<close>

definition has_data :: "'d DataSource \<Rightarrow> 'd option \<Rightarrow> bool" where
  "has_data D x \<longleftrightarrow> (\<exists>d b m d'. x = Some d \<and> ds_getData D d = (Inr (Some b, m), d'))"

definition sound_source :: "'d DataSource \<Rightarrow> 'd option \<Rightarrow> bool" where
  "sound_source D x \<longleftrightarrow> (\<forall>d e d'. x = Some d \<longrightarrow> ds_getData D d \<noteq> (Inl e, d'))"

lemma px_call_first:
  "sound_source D x \<Longrightarrow> px_call D f g (DataSourceProxy_new x n) =
     Inr (if has_data D x
          then (case f (snd (ds_getData D (the x))) of
                  (r, d') \<Rightarrow> (r, \<lparr>px_status = DATA, px_dataSource = Some d', px_noDataSource = n\<rparr>))
          else (case g n of
                  (r, n') \<Rightarrow> (r, \<lparr>px_status = NODATA,
                     px_dataSource = map_option (\<lambda>d. snd (ds_getData D d)) x, px_noDataSource = n'\<rparr>)))"
  by (auto simp: px_call_def px_getDataSource_def DataSourceProxy_new_def has_data_def sound_source_def
      split: option.splits prod.splits sum.splits)

lemma px_call_later:
  "px_status p = DATA \<Longrightarrow> px_dataSource p = Some d \<Longrightarrow>
     px_call D f g p = Inr (case f d of (r, d') \<Rightarrow> (r, p\<lparr>px_dataSource := Some d'\<rparr>))"
  "px_status p = NODATA \<Longrightarrow>
     px_call D f g p = Inr (case g (px_noDataSource p) of (r, n') \<Rightarrow> (r, p\<lparr>px_noDataSource := n'\<rparr>))"
  by (auto simp: px_call_def px_getDataSource_def split: prod.splits)

text \<open>A sequence of calls, on one object and through the proxy.\<close>

fun calls :: "('x \<Rightarrow> 'r \<times> 'x) list \<Rightarrow> 'x \<Rightarrow> 'r list" where
  "calls [] x = []"
| "calls (f # fs) x = (case f x of (r, x') \<Rightarrow> r # calls fs x')"

fun px_calls ::
    "'d DataSource \<Rightarrow> (('d \<Rightarrow> 'r \<times> 'd) \<times> ('n \<Rightarrow> 'r \<times> 'n)) list \<Rightarrow> ('d, 'n) DataSourceProxy \<Rightarrow> fault + 'r list" where
  "px_calls D [] p = Inr []"
| "px_calls D ((f, g) # fgs) p =
     bindR (px_call D f g p) (\<lambda>(r, p'). bindR (px_calls D fgs p') (\<lambda>rs. Inr (r # rs)))"

lemma px_calls_data:
  "px_status p = DATA \<Longrightarrow> px_dataSource p = Some d \<Longrightarrow> px_calls D fgs p = Inr (calls (map fst fgs) d)"
  by (induction fgs arbitrary: p d) (auto simp: px_call_later split: prod.splits)

lemma px_calls_nodata:
  "px_status p = NODATA \<Longrightarrow> px_calls D fgs p = Inr (calls (map snd fgs) (px_noDataSource p))"
  by (induction fgs arbitrary: p) (auto simp: px_call_later split: prod.splits)

text \<open>
  Whatever is called through a proxy, in whatever order, the answers are those of one object: of
  the data source (after the look at its data) when it has data, and of the other source otherwise.
  The proxy never goes through a null pointer, if the first look at the data source does not.
\<close>

theorem proxy_is_one_source:
  assumes "sound_source D x"
  shows "px_calls D fgs (DataSourceProxy_new x n) =
     Inr (if has_data D x then calls (map fst fgs) (snd (ds_getData D (the x))) else calls (map snd fgs) n)"
proof (cases fgs)
  case (Cons fg fgs')
  then show ?thesis using assms
    by (cases fg) (auto simp: px_call_first px_calls_data px_calls_nodata split: prod.splits)
qed simp


theorem proxy_is_one_source_witness:
  "px_calls raw_source
     [(\<lambda>d. (rd_type d, d), \<lambda>n. (n, n)), (\<lambda>d. (rd_encoding d, d), \<lambda>n. (''none'', n))]
     (DataSourceProxy_new (Some (RawDataSource_new [1] ''image/png'' ''deflate'' 1)) ''x'') =
   Inr [''image/png'', ''deflate'']"
proof -
  let ?x = "Some (RawDataSource_new [1] ''image/png'' ''deflate'' 1)"
  have "sound_source raw_source ?x" "has_data raw_source ?x"
    by (simp_all add: sound_source_def has_data_def raw_source_def RawDataSource_getData_def RawDataSource_new_def)
  with proxy_is_one_source [of raw_source ?x
      "[(\<lambda>d. (rd_type d, d), \<lambda>n. (n, n)), (\<lambda>d. (rd_encoding d, d), \<lambda>n. (''none'', n))]" "''x''"]
  show ?thesis by (simp add: raw_source_def RawDataSource_getData_def RawDataSource_new_def)
qed

end
