(* ===== verification/TiffHeaders.thy ===== *)
theory TiffHeaders
  imports Format DataStreams Encoding
begin

text \<open>
  lib/libimage/TiffHeader.h and TiffHeaderDataSource.cpp: the constant TIFF headers that are put
  before the data of a tile or of an image, and the data source that puts one before a tile.

  A header is read back with \<open>tiff_says\<close>, which follows the TIFF format: the signature, the
  directory at byte 8 with its number of entries, the entries of 12 bytes, and the offset of the
  next directory.
\<close>

subsection \<open>Buffers that are filled in pieces\<close>

text \<open>\<open>memcpy\<close>, or a store through a pointer, into a buffer; a byte never written is \<open>None\<close>.\<close>

definition store_at :: "nat \<Rightarrow> bytes \<Rightarrow> u8 option list \<Rightarrow> fault + u8 option list" where
  "store_at off bs buf =
     (if length buf < off + length bs then Inl BufferOverflow
      else Inr (take off buf @ map Some bs @ drop (off + length bs) buf))"

definition written :: "u8 option list \<Rightarrow> fault + bytes" where
  "written buf = (if None \<in> set buf then Inl Uninitialised else Inr (map the buf))"

definition headerSize :: "nat \<Rightarrow> nat" where
  "headerSize channel =
     (if channel = 1 then 134 else if channel = 3 then 146 else if channel = 4 then 162 else 0)"

subsection \<open>The headers\<close>

definition TIFF_HEADER_RAW_INT8_GRAY :: bytes where
  "TIFF_HEADER_RAW_INT8_GRAY =
    [73, 73, 42, 0, 8, 0, 0, 0,
     10, 0,
     0, 1, 4, 0, 1, 0, 0, 0, 0, 1, 0, 0,
     1, 1, 4, 0, 1, 0, 0, 0, 0, 1, 0, 0,
     2, 1, 3, 0, 1, 0, 0, 0, 8, 0, 0, 0,
     3, 1, 3, 0, 1, 0, 0, 0, 1, 0, 0, 0,
     6, 1, 3, 0, 1, 0, 0, 0, 1, 0, 0, 0,
     17, 1, 4, 0, 1, 0, 0, 0, 134, 0, 0, 0,
     21, 1, 3, 0, 1, 0, 0, 0, 1, 0, 0, 0,
     22, 1, 4, 0, 1, 0, 0, 0, 255, 255, 255, 255,
     23, 1, 4, 0, 1, 0, 0, 0, 0, 0, 3, 0,
     83, 1, 3, 0, 1, 0, 0, 0, 1, 0, 0, 0,
     0, 0, 0, 0]"

definition TIFF_HEADER_RAW_FLOAT32_GRAY :: bytes where
  "TIFF_HEADER_RAW_FLOAT32_GRAY =
    [73, 73, 42, 0, 8, 0, 0, 0,
     10, 0,
     0, 1, 4, 0, 1, 0, 0, 0, 0, 1, 0, 0,
     1, 1, 4, 0, 1, 0, 0, 0, 0, 1, 0, 0,
     2, 1, 3, 0, 1, 0, 0, 0, 32, 0, 0, 0,
     3, 1, 3, 0, 1, 0, 0, 0, 1, 0, 0, 0,
     6, 1, 3, 0, 1, 0, 0, 0, 1, 0, 0, 0,
     17, 1, 4, 0, 1, 0, 0, 0, 134, 0, 0, 0,
     21, 1, 3, 0, 1, 0, 0, 0, 1, 0, 0, 0,
     22, 1, 4, 0, 1, 0, 0, 0, 255, 255, 255, 255,
     23, 1, 4, 0, 1, 0, 0, 0, 0, 0, 3, 0,
     83, 1, 3, 0, 1, 0, 0, 0, 3, 0, 0, 0,
     0, 0, 0, 0]"

definition TIFF_HEADER_RAW_INT8_RGB :: bytes where
  "TIFF_HEADER_RAW_INT8_RGB =
    [73, 73, 42, 0, 8, 0, 0, 0,
     10, 0,
     0, 1, 4, 0, 1, 0, 0, 0, 0, 1, 0, 0,
     1, 1, 4, 0, 1, 0, 0, 0, 0, 1, 0, 0,
     2, 1, 3, 0, 3, 0, 0, 0, 134, 0, 0, 0,
     3, 1, 3, 0, 1, 0, 0, 0, 1, 0, 0, 0,
     6, 1, 3, 0, 1, 0, 0, 0, 2, 0, 0, 0,
     17, 1, 4, 0, 1, 0, 0, 0, 146, 0, 0, 0,
     21, 1, 3, 0, 1, 0, 0, 0, 3, 0, 0, 0,
     22, 1, 4, 0, 1, 0, 0, 0, 255, 255, 255, 255,
     23, 1, 4, 0, 1, 0, 0, 0, 0, 0, 3, 0,
     83, 1, 3, 0, 3, 0, 0, 0, 140, 0, 0, 0,
     0, 0, 0, 0,
     8, 0, 8, 0, 8, 0,
     1, 0, 1, 0, 1, 0]"

definition TIFF_HEADER_RAW_INT8_RGBA :: bytes where
  "TIFF_HEADER_RAW_INT8_RGBA =
    [73, 73, 42, 0, 8, 0, 0, 0,
     11, 0,
     0, 1, 4, 0, 1, 0, 0, 0, 0, 1, 0, 0,
     1, 1, 4, 0, 1, 0, 0, 0, 0, 1, 0, 0,
     2, 1, 3, 0, 4, 0, 0, 0, 146, 0, 0, 0,
     3, 1, 3, 0, 1, 0, 0, 0, 1, 0, 0, 0,
     6, 1, 3, 0, 1, 0, 0, 0, 2, 0, 0, 0,
     17, 1, 4, 0, 1, 0, 0, 0, 162, 0, 0, 0,
     21, 1, 3, 0, 1, 0, 0, 0, 4, 0, 0, 0,
     22, 1, 4, 0, 1, 0, 0, 0, 255, 255, 255, 255,
     23, 1, 4, 0, 1, 0, 0, 0, 0, 0, 4, 0,
     82, 1, 3, 0, 1, 0, 0, 0, 2, 0, 0, 0,
     83, 1, 3, 0, 4, 0, 0, 0, 154, 0, 0, 0,
     0, 0, 0, 0,
     8, 0, 8, 0, 8, 0, 8, 0,
     1, 0, 1, 0, 1, 0, 1, 0]"

definition TIFF_HEADER_LZW_FLOAT32_GRAY :: bytes where
  "TIFF_HEADER_LZW_FLOAT32_GRAY =
    [73, 73, 42, 0, 8, 0, 0, 0,
     10, 0,
     0, 1, 4, 0, 1, 0, 0, 0, 0, 1, 0, 0,
     1, 1, 4, 0, 1, 0, 0, 0, 0, 1, 0, 0,
     2, 1, 3, 0, 1, 0, 0, 0, 32, 0, 0, 0,
     3, 1, 3, 0, 1, 0, 0, 0, 5, 0, 0, 0,
     6, 1, 3, 0, 1, 0, 0, 0, 1, 0, 0, 0,
     17, 1, 4, 0, 1, 0, 0, 0, 134, 0, 0, 0,
     21, 1, 3, 0, 1, 0, 0, 0, 1, 0, 0, 0,
     22, 1, 4, 0, 1, 0, 0, 0, 255, 255, 255, 255,
     23, 1, 4, 0, 1, 0, 0, 0, 0, 0, 3, 0,
     83, 1, 3, 0, 1, 0, 0, 0, 3, 0, 0, 0,
     0, 0, 0, 0]"

definition TIFF_HEADER_LZW_INT8_GRAY :: bytes where
  "TIFF_HEADER_LZW_INT8_GRAY =
    [73, 73, 42, 0, 8, 0, 0, 0,
     10, 0,
     0, 1, 4, 0, 1, 0, 0, 0, 0, 1, 0, 0,
     1, 1, 4, 0, 1, 0, 0, 0, 0, 1, 0, 0,
     2, 1, 3, 0, 1, 0, 0, 0, 8, 0, 0, 0,
     3, 1, 3, 0, 1, 0, 0, 0, 5, 0, 0, 0,
     6, 1, 3, 0, 1, 0, 0, 0, 1, 0, 0, 0,
     17, 1, 4, 0, 1, 0, 0, 0, 134, 0, 0, 0,
     21, 1, 3, 0, 1, 0, 0, 0, 1, 0, 0, 0,
     22, 1, 4, 0, 1, 0, 0, 0, 255, 255, 255, 255,
     23, 1, 4, 0, 1, 0, 0, 0, 0, 0, 1, 0,
     83, 1, 3, 0, 1, 0, 0, 0, 1, 0, 0, 0,
     0, 0, 0, 0]"

definition TIFF_HEADER_LZW_INT8_RGB :: bytes where
  "TIFF_HEADER_LZW_INT8_RGB =
    [73, 73, 42, 0, 8, 0, 0, 0,
     10, 0,
     0, 1, 4, 0, 1, 0, 0, 0, 0, 1, 0, 0,
     1, 1, 4, 0, 1, 0, 0, 0, 0, 1, 0, 0,
     2, 1, 3, 0, 3, 0, 0, 0, 134, 0, 0, 0,
     3, 1, 3, 0, 1, 0, 0, 0, 5, 0, 0, 0,
     6, 1, 3, 0, 1, 0, 0, 0, 2, 0, 0, 0,
     17, 1, 4, 0, 1, 0, 0, 0, 146, 0, 0, 0,
     21, 1, 3, 0, 1, 0, 0, 0, 3, 0, 0, 0,
     22, 1, 4, 0, 1, 0, 0, 0, 255, 255, 255, 255,
     23, 1, 4, 0, 1, 0, 0, 0, 0, 0, 3, 0,
     83, 1, 3, 0, 3, 0, 0, 0, 140, 0, 0, 0,
     0, 0, 0, 0,
     8, 0, 8, 0, 8, 0,
     1, 0, 1, 0, 1, 0]"

definition TIFF_HEADER_LZW_INT8_RGBA :: bytes where
  "TIFF_HEADER_LZW_INT8_RGBA =
    [73, 73, 42, 0, 8, 0, 0, 0,
     11, 0,
     0, 1, 4, 0, 1, 0, 0, 0, 0, 1, 0, 0,
     1, 1, 4, 0, 1, 0, 0, 0, 0, 1, 0, 0,
     2, 1, 3, 0, 4, 0, 0, 0, 146, 0, 0, 0,
     3, 1, 3, 0, 1, 0, 0, 0, 5, 0, 0, 0,
     6, 1, 3, 0, 1, 0, 0, 0, 2, 0, 0, 0,
     17, 1, 4, 0, 1, 0, 0, 0, 162, 0, 0, 0,
     21, 1, 3, 0, 1, 0, 0, 0, 4, 0, 0, 0,
     22, 1, 4, 0, 1, 0, 0, 0, 255, 255, 255, 255,
     23, 1, 4, 0, 1, 0, 0, 0, 0, 0, 4, 0,
     82, 1, 3, 0, 1, 0, 0, 0, 2, 0, 0, 0,
     83, 1, 3, 0, 4, 0, 0, 0, 154, 0, 0, 0,
     0, 0, 0, 0,
     8, 0, 8, 0, 8, 0, 8, 0,
     1, 0, 1, 0, 1, 0, 1, 0]"

definition TIFF_HEADER_ZIP_FLOAT32_GRAY :: bytes where
  "TIFF_HEADER_ZIP_FLOAT32_GRAY =
    [73, 73, 42, 0, 8, 0, 0, 0,
     10, 0,
     0, 1, 4, 0, 1, 0, 0, 0, 0, 1, 0, 0,
     1, 1, 4, 0, 1, 0, 0, 0, 0, 1, 0, 0,
     2, 1, 3, 0, 1, 0, 0, 0, 32, 0, 0, 0,
     3, 1, 3, 0, 1, 0, 0, 0, 8, 0, 0, 0,
     6, 1, 3, 0, 1, 0, 0, 0, 1, 0, 0, 0,
     17, 1, 4, 0, 1, 0, 0, 0, 134, 0, 0, 0,
     21, 1, 3, 0, 1, 0, 0, 0, 1, 0, 0, 0,
     22, 1, 4, 0, 1, 0, 0, 0, 255, 255, 255, 255,
     23, 1, 4, 0, 1, 0, 0, 0, 0, 0, 3, 0,
     83, 1, 3, 0, 1, 0, 0, 0, 3, 0, 0, 0,
     0, 0, 0, 0]"

definition TIFF_HEADER_ZIP_INT8_GRAY :: bytes where
  "TIFF_HEADER_ZIP_INT8_GRAY =
    [73, 73, 42, 0, 8, 0, 0, 0,
     10, 0,
     0, 1, 4, 0, 1, 0, 0, 0, 0, 1, 0, 0,
     1, 1, 4, 0, 1, 0, 0, 0, 0, 1, 0, 0,
     2, 1, 3, 0, 1, 0, 0, 0, 8, 0, 0, 0,
     3, 1, 3, 0, 1, 0, 0, 0, 8, 0, 0, 0,
     6, 1, 3, 0, 1, 0, 0, 0, 1, 0, 0, 0,
     17, 1, 4, 0, 1, 0, 0, 0, 134, 0, 0, 0,
     21, 1, 3, 0, 1, 0, 0, 0, 1, 0, 0, 0,
     22, 1, 4, 0, 1, 0, 0, 0, 255, 255, 255, 255,
     23, 1, 4, 0, 1, 0, 0, 0, 0, 0, 1, 0,
     83, 1, 3, 0, 1, 0, 0, 0, 1, 0, 0, 0,
     0, 0, 0, 0]"

definition TIFF_HEADER_ZIP_INT8_RGB :: bytes where
  "TIFF_HEADER_ZIP_INT8_RGB =
    [73, 73, 42, 0, 8, 0, 0, 0,
     10, 0,
     0, 1, 4, 0, 1, 0, 0, 0, 0, 1, 0, 0,
     1, 1, 4, 0, 1, 0, 0, 0, 0, 1, 0, 0,
     2, 1, 3, 0, 3, 0, 0, 0, 134, 0, 0, 0,
     3, 1, 3, 0, 1, 0, 0, 0, 8, 0, 0, 0,
     6, 1, 3, 0, 1, 0, 0, 0, 2, 0, 0, 0,
     17, 1, 4, 0, 1, 0, 0, 0, 146, 0, 0, 0,
     21, 1, 3, 0, 1, 0, 0, 0, 3, 0, 0, 0,
     22, 1, 4, 0, 1, 0, 0, 0, 255, 255, 255, 255,
     23, 1, 4, 0, 1, 0, 0, 0, 0, 0, 3, 0,
     83, 1, 3, 0, 3, 0, 0, 0, 140, 0, 0, 0,
     0, 0, 0, 0,
     8, 0, 8, 0, 8, 0,
     1, 0, 1, 0, 1, 0]"

definition TIFF_HEADER_ZIP_INT8_RGBA :: bytes where
  "TIFF_HEADER_ZIP_INT8_RGBA =
    [73, 73, 42, 0, 8, 0, 0, 0,
     11, 0,
     0, 1, 4, 0, 1, 0, 0, 0, 0, 1, 0, 0,
     1, 1, 4, 0, 1, 0, 0, 0, 0, 1, 0, 0,
     2, 1, 3, 0, 4, 0, 0, 0, 146, 0, 0, 0,
     3, 1, 3, 0, 1, 0, 0, 0, 8, 0, 0, 0,
     6, 1, 3, 0, 1, 0, 0, 0, 2, 0, 0, 0,
     17, 1, 4, 0, 1, 0, 0, 0, 162, 0, 0, 0,
     21, 1, 3, 0, 1, 0, 0, 0, 4, 0, 0, 0,
     22, 1, 4, 0, 1, 0, 0, 0, 255, 255, 255, 255,
     23, 1, 4, 0, 1, 0, 0, 0, 0, 0, 4, 0,
     82, 1, 3, 0, 1, 0, 0, 0, 2, 0, 0, 0,
     83, 1, 3, 0, 4, 0, 0, 0, 154, 0, 0, 0,
     0, 0, 0, 0,
     8, 0, 8, 0, 8, 0, 8, 0,
     1, 0, 1, 0, 1, 0, 1, 0]"

definition TIFF_HEADER_PKB_FLOAT32_GRAY :: bytes where
  "TIFF_HEADER_PKB_FLOAT32_GRAY =
    [73, 73, 42, 0, 8, 0, 0, 0,
     10, 0,
     0, 1, 4, 0, 1, 0, 0, 0, 0, 1, 0, 0,
     1, 1, 4, 0, 1, 0, 0, 0, 0, 1, 0, 0,
     2, 1, 3, 0, 1, 0, 0, 0, 32, 0, 0, 0,
     3, 1, 3, 0, 1, 0, 0, 0, 5, 128, 0, 0,
     6, 1, 3, 0, 1, 0, 0, 0, 1, 0, 0, 0,
     17, 1, 4, 0, 1, 0, 0, 0, 134, 0, 0, 0,
     21, 1, 3, 0, 1, 0, 0, 0, 1, 0, 0, 0,
     22, 1, 4, 0, 1, 0, 0, 0, 255, 255, 255, 255,
     23, 1, 4, 0, 1, 0, 0, 0, 0, 0, 3, 0,
     83, 1, 3, 0, 1, 0, 0, 0, 3, 0, 0, 0,
     0, 0, 0, 0]"

definition TIFF_HEADER_PKB_INT8_GRAY :: bytes where
  "TIFF_HEADER_PKB_INT8_GRAY =
    [73, 73, 42, 0, 8, 0, 0, 0,
     10, 0,
     0, 1, 4, 0, 1, 0, 0, 0, 0, 1, 0, 0,
     1, 1, 4, 0, 1, 0, 0, 0, 0, 1, 0, 0,
     2, 1, 3, 0, 1, 0, 0, 0, 8, 0, 0, 0,
     3, 1, 3, 0, 1, 0, 0, 0, 5, 128, 0, 0,
     6, 1, 3, 0, 1, 0, 0, 0, 1, 0, 0, 0,
     17, 1, 4, 0, 1, 0, 0, 0, 134, 0, 0, 0,
     21, 1, 3, 0, 1, 0, 0, 0, 1, 0, 0, 0,
     22, 1, 4, 0, 1, 0, 0, 0, 255, 255, 255, 255,
     23, 1, 4, 0, 1, 0, 0, 0, 0, 0, 1, 0,
     83, 1, 3, 0, 1, 0, 0, 0, 1, 0, 0, 0,
     0, 0, 0, 0]"

definition TIFF_HEADER_PKB_INT8_RGB :: bytes where
  "TIFF_HEADER_PKB_INT8_RGB =
    [73, 73, 42, 0, 8, 0, 0, 0,
     10, 0,
     0, 1, 4, 0, 1, 0, 0, 0, 0, 1, 0, 0,
     1, 1, 4, 0, 1, 0, 0, 0, 0, 1, 0, 0,
     2, 1, 3, 0, 3, 0, 0, 0, 134, 0, 0, 0,
     3, 1, 3, 0, 1, 0, 0, 0, 5, 128, 0, 0,
     6, 1, 3, 0, 1, 0, 0, 0, 2, 0, 0, 0,
     17, 1, 4, 0, 1, 0, 0, 0, 146, 0, 0, 0,
     21, 1, 3, 0, 1, 0, 0, 0, 3, 0, 0, 0,
     22, 1, 4, 0, 1, 0, 0, 0, 255, 255, 255, 255,
     23, 1, 4, 0, 1, 0, 0, 0, 0, 0, 3, 0,
     83, 1, 3, 0, 3, 0, 0, 0, 140, 0, 0, 0,
     0, 0, 0, 0,
     8, 0, 8, 0, 8, 0,
     1, 0, 1, 0, 1, 0]"

definition TIFF_HEADER_PKB_INT8_RGBA :: bytes where
  "TIFF_HEADER_PKB_INT8_RGBA =
    [73, 73, 42, 0, 8, 0, 0, 0,
     11, 0,
     0, 1, 4, 0, 1, 0, 0, 0, 0, 1, 0, 0,
     1, 1, 4, 0, 1, 0, 0, 0, 0, 1, 0, 0,
     2, 1, 3, 0, 4, 0, 0, 0, 146, 0, 0, 0,
     3, 1, 3, 0, 1, 0, 0, 0, 5, 128, 0, 0,
     6, 1, 3, 0, 1, 0, 0, 0, 2, 0, 0, 0,
     17, 1, 4, 0, 1, 0, 0, 0, 162, 0, 0, 0,
     21, 1, 3, 0, 1, 0, 0, 0, 4, 0, 0, 0,
     22, 1, 4, 0, 1, 0, 0, 0, 255, 255, 255, 255,
     23, 1, 4, 0, 1, 0, 0, 0, 0, 0, 4, 0,
     82, 1, 3, 0, 1, 0, 0, 0, 2, 0, 0, 0,
     83, 1, 3, 0, 4, 0, 0, 0, 154, 0, 0, 0,
     0, 0, 0, 0,
     8, 0, 8, 0, 8, 0, 8, 0,
     1, 0, 1, 0, 1, 0, 1, 0]"

definition GEOTIFF_HEADER_PART :: bytes where
  "GEOTIFF_HEADER_PART =
    [14, 131, 12, 0, 3, 0, 0, 0, 0, 0, 0, 0,
     130, 132, 12, 0, 6, 0, 0, 0, 0, 0, 0, 0,
     175, 135, 3, 0, 0, 0, 0, 0, 0, 0, 0, 0,
     176, 135, 12, 0, 0, 0, 0, 0, 0, 0, 0, 0,
     177, 135, 2, 0, 0, 0, 0, 0, 0, 0, 0, 0]"

subsection \<open>TiffHeaderDataSource\<close>

definition tiff_header_of :: "eformat_data \<Rightarrow> nat \<Rightarrow> bytes option" where
  "tiff_header_of format channel =
     (case format of
        TIFF_RAW_INT8 \<Rightarrow>
          (if channel = 1 then Some TIFF_HEADER_RAW_INT8_GRAY
           else if channel = 3 then Some TIFF_HEADER_RAW_INT8_RGB
           else if channel = 4 then Some TIFF_HEADER_RAW_INT8_RGBA else None)
      | TIFF_LZW_INT8 \<Rightarrow>
          (if channel = 1 then Some TIFF_HEADER_LZW_INT8_GRAY
           else if channel = 3 then Some TIFF_HEADER_LZW_INT8_RGB
           else if channel = 4 then Some TIFF_HEADER_LZW_INT8_RGBA else None)
      | TIFF_ZIP_INT8 \<Rightarrow>
          (if channel = 1 then Some TIFF_HEADER_ZIP_INT8_GRAY
           else if channel = 3 then Some TIFF_HEADER_ZIP_INT8_RGB
           else if channel = 4 then Some TIFF_HEADER_ZIP_INT8_RGBA else None)
      | TIFF_PKB_INT8 \<Rightarrow>
          (if channel = 1 then Some TIFF_HEADER_PKB_INT8_GRAY
           else if channel = 3 then Some TIFF_HEADER_PKB_INT8_RGB
           else if channel = 4 then Some TIFF_HEADER_PKB_INT8_RGBA else None)
      | TIFF_RAW_FLOAT32 \<Rightarrow> (if channel = 1 then Some TIFF_HEADER_RAW_FLOAT32_GRAY else None)
      | TIFF_LZW_FLOAT32 \<Rightarrow> (if channel = 1 then Some TIFF_HEADER_LZW_FLOAT32_GRAY else None)
      | TIFF_ZIP_FLOAT32 \<Rightarrow> (if channel = 1 then Some TIFF_HEADER_ZIP_FLOAT32_GRAY else None)
      | TIFF_PKB_FLOAT32 \<Rightarrow> (if channel = 1 then Some TIFF_HEADER_PKB_FLOAT32_GRAY else None)
      | _ \<Rightarrow> None)"

text \<open>\<open>*((uint32_t*)(data + off)) = v\<close>, for the four fields that are not constant.\<close>

definition set_fields :: "int \<Rightarrow> int \<Rightarrow> nat \<Rightarrow> u8 option list \<Rightarrow> fault + u8 option list" where
  "set_fields wd ht n buf =
     bindR (store_at 18 (put32 (word_of_int wd)) buf) (\<lambda>buf.
     bindR (store_at 30 (put32 (word_of_int ht)) buf) (\<lambda>buf.
     bindR (store_at 102 (put32 (word_of_int ht)) buf) (\<lambda>buf.
     store_at 114 (put32 (word_of_nat n)) buf)))"

record 'd TiffHeaderDataSource =
  th_dataSource :: "'d option"
  th_dataSize :: nat
  th_data :: "u8 option list"

text \<open>The bytes behind a pointer: \<open>memcpy\<close> from it.\<close>

definition read_ptr :: "bytes option \<Rightarrow> nat \<Rightarrow> fault + bytes" where
  "read_ptr p n =
     (if n = 0 then Inr []
      else case p of
        None \<Rightarrow> Inl NullPointer
      | Some b \<Rightarrow> if length b < n then Inl OverRead else Inr (take n b))"

definition TiffHeaderDataSource_new ::
    "'d DataSource \<Rightarrow> 'd option \<Rightarrow> eformat_data \<Rightarrow> nat \<Rightarrow> int \<Rightarrow> int \<Rightarrow> nat \<Rightarrow>
     fault + 'd TiffHeaderDataSource" where
  "TiffHeaderDataSource_new D source format channel wd ht n0 =
     bindR (case source of
              None \<Rightarrow> Inr (None, n0, None)
            | Some d \<Rightarrow>
                (case ds_getData D d of
                   (Inl e, d') \<Rightarrow> Inl e
                 | (Inr (t, m), d') \<Rightarrow> Inr (t, case m of None \<Rightarrow> n0 | Some k \<Rightarrow> k, Some d'))) (\<lambda>(tmp, n, source').
     let hs = headerSize channel;
         dataSize = hs + (if source = None then 0 else n)
     in
     bindR (case tiff_header_of format channel of
              None \<Rightarrow> Inr (replicate dataSize None)
            | Some h \<Rightarrow> bindR (read_ptr (Some h) hs) (\<lambda>h. store_at 0 h (replicate dataSize None))) (\<lambda>buf.
     bindR (set_fields wd ht n buf) (\<lambda>buf.
     bindR (if source = None then Inr buf
            else bindR (read_ptr tmp n) (\<lambda>tile. store_at hs tile buf)) (\<lambda>buf.
     Inr \<lparr>th_dataSource = source', th_dataSize = dataSize, th_data = buf\<rparr>))))"

text \<open>What is read through the pointer that \<open>getData\<close> gives.\<close>

definition th_getData :: "'d TiffHeaderDataSource \<Rightarrow> fault + bytes" where
  "th_getData s = written (th_data s)"

text \<open>The other methods go to the source, which may be null; the length is an \<open>unsigned int\<close>.\<close>

definition th_getType :: "'d DataSource \<Rightarrow> 'd TiffHeaderDataSource \<Rightarrow> fault + string" where
  "th_getType D s = (case th_dataSource s of None \<Rightarrow> Inl NullPointer | Some d \<Rightarrow> Inr (ds_getType D d))"

definition th_getHttpStatus :: "'d DataSource \<Rightarrow> 'd TiffHeaderDataSource \<Rightarrow> fault + int" where
  "th_getHttpStatus D s =
     (case th_dataSource s of None \<Rightarrow> Inl NullPointer | Some d \<Rightarrow> Inr (ds_getHttpStatus D d))"

definition th_getEncoding :: "'d DataSource \<Rightarrow> 'd TiffHeaderDataSource \<Rightarrow> fault + string" where
  "th_getEncoding D s =
     (case th_dataSource s of None \<Rightarrow> Inl NullPointer | Some d \<Rightarrow> Inr (ds_getEncoding D d))"

definition th_getLength :: "'d TiffHeaderDataSource \<Rightarrow> u32" where
  "th_getLength s = word_of_nat (th_dataSize s)"

subsection \<open>Reading a header\<close>

datatype ifd_entry = Entry u16 u16 u32 u32  \<comment> \<open>tag, type, number of values, value or offset\<close>

definition entry_at :: "bytes \<Rightarrow> nat \<Rightarrow> ifd_entry \<Rightarrow> bool" where
  "entry_at b off e =
     (case e of Entry t ty n v \<Rightarrow>
        get16 b off = Inr t \<and> get16 b (off + 2) = Inr ty \<and> get32 b (off + 4) = Inr n
        \<and> get32 b (off + 8) = Inr v)"

fun entries_at :: "bytes \<Rightarrow> nat \<Rightarrow> ifd_entry list \<Rightarrow> bool" where
  "entries_at b off [] = True"
| "entries_at b off (e # es) \<longleftrightarrow> entry_at b off e \<and> entries_at b (off + 12) es"

definition tiff_says :: "bytes \<Rightarrow> ifd_entry list \<Rightarrow> bool" where
  "tiff_says b es \<longleftrightarrow>
     take 4 b = [73, 73, 42, 0] \<and> get32 b 4 = Inr 8 \<and> get16 b 8 = Inr (word_of_nat (length es))
     \<and> entries_at b 10 es \<and> get32 b (10 + 12 * length es) = Inr 0"

text \<open>An array of \<open>n\<close> 16 bit values, all the same.\<close>

fun shorts_at :: "bytes \<Rightarrow> nat \<Rightarrow> nat \<Rightarrow> u16 \<Rightarrow> bool" where
  "shorts_at b off 0 v = True"
| "shorts_at b off (Suc n) v \<longleftrightarrow> get16 b off = Inr v \<and> shorts_at b (off + 2) n v"

text \<open>
  The entries the header of an image has to have. With more than one channel the values of
  BITSPERSAMPLE and SAMPLEFORMAT stand behind the directory.
\<close>

definition after_ifd :: "nat \<Rightarrow> u32" where
  "after_ifd ch = (if ch = 4 then 146 else 134)"

definition tiff_entries :: "eformat_data \<Rightarrow> nat \<Rightarrow> u32 \<Rightarrow> u32 \<Rightarrow> u32 \<Rightarrow> u32 \<Rightarrow> u32 \<Rightarrow> ifd_entry list" where
  "tiff_entries f ch wd ht strip rows n =
     [Entry 256 4 1 wd,
      Entry 257 4 1 ht,
      Entry 258 3 (word_of_nat ch) (if ch = 1 then word_of_int (getBitsPerSample f) else after_ifd ch),
      Entry 259 3 1 (ucast (fromROK4Compression tiff6 (getCompression f))),
      Entry 262 3 1 (ucast (fromROK4Photometric tiff6 (if ch = 1 then Photometric_GRAY else Photometric_RGB))),
      Entry 273 4 1 strip,
      Entry 277 3 1 (word_of_nat ch),
      Entry 278 4 1 rows,
      Entry 279 4 1 n]
     @ (if ch = 4 then [Entry 338 3 1 (ucast (fromROK4ExtraSample tiff6 ALPHA_UNASSOC))] else [])
     @ [Entry 339 3 (word_of_nat ch)
          (if ch = 1 then ucast (fromROK4SampleFormat tiff6 (getSampleFormat f))
           else after_ifd ch + 2 * word_of_nat ch)]"

definition has_header :: "eformat_data \<Rightarrow> nat \<Rightarrow> bool" where
  "has_header f ch \<longleftrightarrow>
     f \<in> {TIFF_RAW_INT8, TIFF_LZW_INT8, TIFF_ZIP_INT8, TIFF_PKB_INT8} \<and> ch \<in> {1, 3, 4}
     \<or> f \<in> {TIFF_RAW_FLOAT32, TIFF_LZW_FLOAT32, TIFF_ZIP_FLOAT32, TIFF_PKB_FLOAT32} \<and> ch = 1"

text \<open>What the constant of a format and a number of channels says.\<close>

definition constant_says :: "eformat_data \<Rightarrow> nat \<Rightarrow> bool" where
  "constant_says f ch \<longleftrightarrow>
     (\<exists>h n. tiff_header_of f ch = Some h \<and> length h = headerSize ch
        \<and> tiff_says h (tiff_entries f ch 256 256 (word_of_nat (headerSize ch)) 0xFFFFFFFF n)
        \<and> (1 < ch \<longrightarrow> shorts_at h (unat (after_ifd ch)) ch 8 \<and> shorts_at h (unat (after_ifd ch) + 2 * ch) ch 1))"

text \<open>The same, 12 bytes after the other.\<close>

fun entries_match :: "bytes \<Rightarrow> ifd_entry list \<Rightarrow> bool" where
  "entries_match b [] = True"
| "entries_match (t0 # t1 # y0 # y1 # n0 # n1 # n2 # n3 # v0 # v1 # v2 # v3 # b) (Entry t y n v # es) \<longleftrightarrow>
     le_nat [t0, t1] = unat t \<and> le_nat [y0, y1] = unat y \<and> le_nat [n0, n1, n2, n3] = unat n
     \<and> le_nat [v0, v1, v2, v3] = unat v \<and> entries_match b es"
| "entries_match b es = False"

lemma get16_take:
  assumes "drop off b = x # y # r" "le_nat [x, y] = unat w"
  shows "get16 b off = Inr w"
proof -
  have "length b - off = Suc (Suc (length r))" using arg_cong [OF assms(1), of length] by simp
  then have "off + 2 \<le> length b" by simp
  with assms show ?thesis by (simp add: get16_def numeral_2_eq_2 del: le_nat.simps)
qed

lemma get32_take:
  assumes "drop off b = x # y # z # u # r" "le_nat [x, y, z, u] = unat w"
  shows "get32 b off = Inr w"
proof -
  have "length b - off = 4 + length r" using arg_cong [OF assms(1), of length] by simp
  then have "off + 4 \<le> length b" by simp
  with assms show ?thesis by (simp add: get32_def eval_nat_numeral del: le_nat.simps)
qed

lemma entries_match_at: "entries_match (drop off b) es \<Longrightarrow> entries_at b off es"
proof (induction es arbitrary: off)
  case (Cons e es)
  from Cons.prems obtain t0 t1 y0 y1 n0 n1 n2 n3 v0 v1 v2 v3 r t y n v where
    d: "drop off b = t0 # t1 # y0 # y1 # n0 # n1 # n2 # n3 # v0 # v1 # v2 # v3 # r" "e = Entry t y n v"
    by (cases "(drop off b, e # es)" rule: entries_match.cases) auto
  have later: "drop (off + k) b = drop k (drop off b)" for k by (simp add: add.commute)
  have r: "drop (off + 2) b = y0 # y1 # n0 # n1 # n2 # n3 # v0 # v1 # v2 # v3 # r"
    "drop (off + 4) b = n0 # n1 # n2 # n3 # v0 # v1 # v2 # v3 # r"
    "drop (off + 8) b = v0 # v1 # v2 # v3 # r" "drop (off + 12) b = r"
    unfolding later d(1) by simp_all
  from Cons.prems d have "le_nat [t0, t1] = unat t" "le_nat [y0, y1] = unat y" "le_nat [n0, n1, n2, n3] = unat n"
    "le_nat [v0, v1, v2, v3] = unat v" "entries_match (drop (off + 12) b) es"
    unfolding r(4) by (simp_all only: entries_match.simps)
  then show ?case
    using get16_take [OF d(1)] get16_take [OF r(1)] get32_take [OF r(2)] get32_take [OF r(3)] Cons.IH
    by (simp only: entries_at.simps d(2) entry_at_def ifd_entry.case)
qed simp

lemmas format_numbers = getBitsPerSample_def getCompression_def getSampleFormat_def eformat_bitspersample_def
  eformat_compression_def eformat_sampleformat_def eformats_def tiff6_def fromROK4Compression_def
  fromROK4Photometric_def fromROK4SampleFormat_def fromROK4ExtraSample_def

subsection \<open>Bytes that are replaced\<close>

definition patch :: "nat \<Rightarrow> bytes \<Rightarrow> bytes \<Rightarrow> bytes" where
  "patch off bs b = take off b @ bs @ drop (off + length bs) b"

lemma length_patch [simp]: "off + length bs \<le> length b \<Longrightarrow> length (patch off bs b) = length b"
  by (simp add: patch_def)

lemma patch_same: "p \<le> length b \<Longrightarrow> take (length bs) (drop p (patch p bs b)) = bs"
  by (simp add: patch_def)

lemma patch_other:
  assumes "off + n \<le> p \<or> p + length bs \<le> off" "p + length bs \<le> length b"
  shows "take n (drop off (patch p bs b)) = take n (drop off b)"
proof (cases "off + n \<le> p")
  case True
  then show ?thesis using assms(2) by (simp add: patch_def take_drop)
next
  case False
  with assms have "p + length bs \<le> off" by blast
  then show ?thesis using assms(2) by (simp add: patch_def)
qed

lemma window_fits:
  assumes "take n (drop off b) = take n (drop off b')" "off + n \<le> length b" "0 < n"
  shows "off + n \<le> length b'"
  using arg_cong [OF assms(1), of length] assms(2,3) by simp

lemma get_cong:
  "take 2 (drop off b) = take 2 (drop off b') \<Longrightarrow> get16 b off = Inr v \<Longrightarrow> get16 b' off = Inr v"
  "take 4 (drop off b) = take 4 (drop off b') \<Longrightarrow> get32 b off = Inr w \<Longrightarrow> get32 b' off = Inr w"
  using window_fits [of 2 off b b'] window_fits [of 4 off b b']
  by (simp_all add: get16_def get32_def split: if_splits)

lemma patch_get [buffer_simps]:
  assumes "p + 4 \<le> length b"
  shows "get32 (patch p (put32 w) b) p = Inr w"
    "off + 2 \<le> p \<or> p + 4 \<le> off \<Longrightarrow> get16 b off = Inr v \<Longrightarrow> get16 (patch p (put32 w) b) off = Inr v"
    "off + 4 \<le> p \<or> p + 4 \<le> off \<Longrightarrow> get32 b off = Inr u \<Longrightarrow> get32 (patch p (put32 w) b) off = Inr u"
proof -
  show "get32 (patch p (put32 w) b) p = Inr w"
    using patch_same [of p b "put32 w"] assms by (intro get32_put) simp
  show "get16 (patch p (put32 w) b) off = Inr v"
    if "off + 2 \<le> p \<or> p + 4 \<le> off" "get16 b off = Inr v"
    using patch_other [of off 2 p "put32 w" b] that assms by (intro get_cong(1) [OF _ that(2)]) simp
  show "get32 (patch p (put32 w) b) off = Inr u"
    if "off + 4 \<le> p \<or> p + 4 \<le> off" "get32 b off = Inr u"
    using patch_other [of off 4 p "put32 w" b] that assms by (intro get_cong(2) [OF _ that(2)]) simp
qed

fun set_value :: "u32 \<Rightarrow> ifd_entry \<Rightarrow> ifd_entry" where
  "set_value w (Entry t y n v) = Entry t y n w"

lemma entries_outside:
  assumes "entries_at b off es" "p + 4 \<le> off \<or> off + 12 * length es \<le> p" "p + 4 \<le> length b"
  shows "entries_at (patch p (put32 w) b) off es"
  using assms
proof (induction es arbitrary: off)
  case (Cons e es)
  then have "entries_at (patch p (put32 w) b) (off + 12) es" by (intro Cons.IH) auto
  moreover have "entry_at (patch p (put32 w) b) off e"
    using Cons.prems by (auto simp: entry_at_def split: ifd_entry.splits intro!: patch_get)
  ultimately show ?case by simp
qed simp

lemma entries_patched:
  assumes "entries_at b off es" "k < length es" "off + 12 * k + 12 \<le> length b"
  shows "entries_at (patch (off + 12 * k + 8) (put32 w) b) off (es[k := set_value w (es ! k)])"
  using assms
proof (induction es arbitrary: off k)
  case (Cons e es)
  show ?case
  proof (cases k)
    case 0
    have "entries_at (patch (off + 8) (put32 w) b) (off + 12) es"
      using Cons.prems 0 by (intro entries_outside) auto
    moreover have "entry_at (patch (off + 8) (put32 w) b) off (set_value w e)"
      using Cons.prems 0 by (cases e) (auto simp: entry_at_def intro!: patch_get)
    ultimately show ?thesis using 0 by simp
  next
    case (Suc j)
    have "entries_at (patch (off + 12 + 12 * j + 8) (put32 w) b) (off + 12) (es[j := set_value w (es ! j)])"
      using Cons.prems Suc by (intro Cons.IH) auto
    moreover have "entry_at (patch (off + 12 + 12 * j + 8) (put32 w) b) off e"
      using Cons.prems Suc by (auto simp: entry_at_def split: ifd_entry.splits intro!: patch_get)
    ultimately show ?thesis using Suc by (simp add: add.commute add.left_commute)
  qed
qed simp


text \<open>The header of an image: the constant with the four fields set.\<close>

definition filled :: "bytes \<Rightarrow> int \<Rightarrow> int \<Rightarrow> nat \<Rightarrow> bytes" where
  "filled h wd ht n =
     patch 114 (put32 (word_of_nat n)) (patch 102 (put32 (word_of_int ht))
       (patch 30 (put32 (word_of_int ht)) (patch 18 (put32 (word_of_int wd)) h)))"

lemma store_at_prefix:
  "off + length bs \<le> length h \<Longrightarrow> store_at off bs (map Some h @ u) = Inr (map Some (patch off bs h) @ u)"
  by (simp add: store_at_def patch_def take_map drop_map)

lemma set_fields_filled:
  "118 \<le> length h \<Longrightarrow> set_fields wd ht n (map Some h @ u) = Inr (map Some (filled h wd ht n) @ u)"
  by (simp add: set_fields_def store_at_prefix filled_def)

lemma length_filled [simp]: "118 \<le> length h \<Longrightarrow> length (filled h wd ht n) = length h"
  by (simp add: filled_def)

lemma written_all [simp]: "written (map Some b) = Inr b"
  by (induction b) (auto simp: written_def)

text \<open>The bytes of a constant, in the order of the format.\<close>

fun shorts_match :: "bytes \<Rightarrow> nat \<Rightarrow> nat \<Rightarrow> bool" where
  "shorts_match b 0 v = True"
| "shorts_match (x # y # b) (Suc n) v \<longleftrightarrow> le_nat [x, y] = v \<and> shorts_match b n v"
| "shorts_match b (Suc n) v = False"

lemma shorts_match_numeral [simp]:
  "shorts_match (x # y # b) (numeral m) v \<longleftrightarrow> le_nat [x, y] = v \<and> shorts_match b (pred_numeral m) v"
  by (simp add: numeral_eq_Suc)

lemma shorts_match_at: "shorts_match (drop off b) n (unat v) \<Longrightarrow> shorts_at b off n v"
proof (induction n arbitrary: off)
  case (Suc n)
  then obtain x y r where d: "drop off b = x # y # r" "le_nat [x, y] = unat v" "shorts_match r n (unat v)"
    by (cases "(drop off b, Suc n, unat v)" rule: shorts_match.cases) auto
  have "drop (off + 2) b = drop 2 (drop off b)" by (simp add: add.commute)
  then have "shorts_at b (off + 2) n v" using d by (intro Suc.IH) simp
  moreover have "get16 b off = Inr v" using get16_take [OF d(1,2)] .
  ultimately show ?case by simp
qed simp

lemma constant_saysI:
  assumes "tiff_header_of f ch = Some h" "length h = headerSize ch"
    and "take 8 h = [73, 73, 42, 0, 8, 0, 0, 0]" "le_nat (take 2 (drop 8 h)) = k"
    and "length (tiff_entries f ch 256 256 (word_of_nat (headerSize ch)) 0xFFFFFFFF n) = k" "14 + 12 * k \<le> length h"
    and "entries_match (drop 10 h) (tiff_entries f ch 256 256 (word_of_nat (headerSize ch)) 0xFFFFFFFF n)"
    and "take 4 (drop (10 + 12 * k) h) = [0, 0, 0, 0]"
    and "1 < ch \<Longrightarrow> shorts_match (drop (14 + 12 * k) h) ch 8 \<and> shorts_match (drop (14 + 12 * k + 2 * ch) h) ch 1"
    and "1 < ch \<Longrightarrow> unat (after_ifd ch) = 14 + 12 * k"
  shows "constant_says f ch"
proof -
  let ?es = "tiff_entries f ch 256 256 (word_of_nat (headerSize ch)) 0xFFFFFFFF n"
  obtain t where t: "h = 73 # 73 # 42 # 0 # 8 # 0 # 0 # 0 # t"
    using append_take_drop_id [of 8 h] unfolding assms(3) by (metis append_Cons append_Nil)
  have "drop 4 h = 8 # 0 # 0 # 0 # t" by (simp add: t)
  then have g4: "get32 h 4 = Inr 8" by (rule get32_take) simp
  have g8: "get16 h 8 = Inr (word_of_nat k)" using assms(4,6) by (simp add: get16_def)
  have gn: "get32 h (10 + 12 * k) = Inr 0" using assms(6,8) by (simp add: get32_def)
  have t4: "take 4 h = [73, 73, 42, 0]" by (simp add: t)
  have "entries_at h 10 ?es" using entries_match_at [of 10 h] assms(7) by simp
  then have "tiff_says h ?es" using t4 g4 g8 gn assms(5) by (simp only: tiff_says_def simp_thms)
  moreover have "shorts_at h (unat (after_ifd ch)) ch 8 \<and> shorts_at h (unat (after_ifd ch) + 2 * ch) ch 1" if c: "1 < ch"
    using assms(9,10) [OF c] shorts_match_at [of "14 + 12 * k" h ch 8] shorts_match_at [of "14 + 12 * k + 2 * ch" h ch 1]
    by simp
  ultimately show ?thesis unfolding constant_says_def using assms(1,2) by blast
qed

lemmas constant_check = tiff_header_of_def headerSize_def tiff_entries_def after_ifd_def format_numbers

lemma says_RAW_INT8_GRAY: "constant_says TIFF_RAW_INT8 1"
  by (rule constant_saysI [where h = TIFF_HEADER_RAW_INT8_GRAY and n = 196608 and k = 10])
    (simp_all add: constant_check TIFF_HEADER_RAW_INT8_GRAY_def)

lemma says_RAW_INT8_RGB: "constant_says TIFF_RAW_INT8 3"
  by (rule constant_saysI [where h = TIFF_HEADER_RAW_INT8_RGB and n = 196608 and k = 10])
    (simp_all add: constant_check TIFF_HEADER_RAW_INT8_RGB_def)

lemma says_RAW_INT8_RGBA: "constant_says TIFF_RAW_INT8 4"
  by (rule constant_saysI [where h = TIFF_HEADER_RAW_INT8_RGBA and n = 262144 and k = 11])
    (simp_all add: constant_check TIFF_HEADER_RAW_INT8_RGBA_def)

lemma says_RAW_FLOAT32_GRAY: "constant_says TIFF_RAW_FLOAT32 1"
  by (rule constant_saysI [where h = TIFF_HEADER_RAW_FLOAT32_GRAY and n = 196608 and k = 10])
    (simp_all add: constant_check TIFF_HEADER_RAW_FLOAT32_GRAY_def)

lemma says_LZW_INT8_GRAY: "constant_says TIFF_LZW_INT8 1"
  by (rule constant_saysI [where h = TIFF_HEADER_LZW_INT8_GRAY and n = 65536 and k = 10])
    (simp_all add: constant_check TIFF_HEADER_LZW_INT8_GRAY_def)

lemma says_LZW_INT8_RGB: "constant_says TIFF_LZW_INT8 3"
  by (rule constant_saysI [where h = TIFF_HEADER_LZW_INT8_RGB and n = 196608 and k = 10])
    (simp_all add: constant_check TIFF_HEADER_LZW_INT8_RGB_def)

lemma says_LZW_INT8_RGBA: "constant_says TIFF_LZW_INT8 4"
  by (rule constant_saysI [where h = TIFF_HEADER_LZW_INT8_RGBA and n = 262144 and k = 11])
    (simp_all add: constant_check TIFF_HEADER_LZW_INT8_RGBA_def)

lemma says_LZW_FLOAT32_GRAY: "constant_says TIFF_LZW_FLOAT32 1"
  by (rule constant_saysI [where h = TIFF_HEADER_LZW_FLOAT32_GRAY and n = 196608 and k = 10])
    (simp_all add: constant_check TIFF_HEADER_LZW_FLOAT32_GRAY_def)

lemma says_ZIP_INT8_GRAY: "constant_says TIFF_ZIP_INT8 1"
  by (rule constant_saysI [where h = TIFF_HEADER_ZIP_INT8_GRAY and n = 65536 and k = 10])
    (simp_all add: constant_check TIFF_HEADER_ZIP_INT8_GRAY_def)

lemma says_ZIP_INT8_RGB: "constant_says TIFF_ZIP_INT8 3"
  by (rule constant_saysI [where h = TIFF_HEADER_ZIP_INT8_RGB and n = 196608 and k = 10])
    (simp_all add: constant_check TIFF_HEADER_ZIP_INT8_RGB_def)

lemma says_ZIP_INT8_RGBA: "constant_says TIFF_ZIP_INT8 4"
  by (rule constant_saysI [where h = TIFF_HEADER_ZIP_INT8_RGBA and n = 262144 and k = 11])
    (simp_all add: constant_check TIFF_HEADER_ZIP_INT8_RGBA_def)

lemma says_ZIP_FLOAT32_GRAY: "constant_says TIFF_ZIP_FLOAT32 1"
  by (rule constant_saysI [where h = TIFF_HEADER_ZIP_FLOAT32_GRAY and n = 196608 and k = 10])
    (simp_all add: constant_check TIFF_HEADER_ZIP_FLOAT32_GRAY_def)

lemma says_PKB_INT8_GRAY: "constant_says TIFF_PKB_INT8 1"
  by (rule constant_saysI [where h = TIFF_HEADER_PKB_INT8_GRAY and n = 65536 and k = 10])
    (simp_all add: constant_check TIFF_HEADER_PKB_INT8_GRAY_def)

lemma says_PKB_INT8_RGB: "constant_says TIFF_PKB_INT8 3"
  by (rule constant_saysI [where h = TIFF_HEADER_PKB_INT8_RGB and n = 196608 and k = 10])
    (simp_all add: constant_check TIFF_HEADER_PKB_INT8_RGB_def)

lemma says_PKB_INT8_RGBA: "constant_says TIFF_PKB_INT8 4"
  by (rule constant_saysI [where h = TIFF_HEADER_PKB_INT8_RGBA and n = 262144 and k = 11])
    (simp_all add: constant_check TIFF_HEADER_PKB_INT8_RGBA_def)

lemma says_PKB_FLOAT32_GRAY: "constant_says TIFF_PKB_FLOAT32 1"
  by (rule constant_saysI [where h = TIFF_HEADER_PKB_FLOAT32_GRAY and n = 196608 and k = 10])
    (simp_all add: constant_check TIFF_HEADER_PKB_FLOAT32_GRAY_def)

lemmas constants_say =
  says_RAW_INT8_GRAY says_RAW_INT8_RGB says_RAW_INT8_RGBA says_RAW_FLOAT32_GRAY
  says_LZW_INT8_GRAY says_LZW_INT8_RGB says_LZW_INT8_RGBA says_LZW_FLOAT32_GRAY
  says_ZIP_INT8_GRAY says_ZIP_INT8_RGB says_ZIP_INT8_RGBA says_ZIP_FLOAT32_GRAY
  says_PKB_INT8_GRAY says_PKB_INT8_RGB says_PKB_INT8_RGBA says_PKB_FLOAT32_GRAY

lemma constants_agree: "has_header f ch \<Longrightarrow> constant_says f ch"
  using constants_say by (auto simp: has_header_def)

lemma header_size_big: "has_header f ch \<Longrightarrow> 134 \<le> headerSize ch"
  by (auto simp: has_header_def headerSize_def)

subsection \<open>The header before a tile\<close>

lemma get_append:
  "get16 b off = Inr v \<Longrightarrow> get16 (b @ t) off = Inr v" "get32 b off = Inr w \<Longrightarrow> get32 (b @ t) off = Inr w"
  by (simp_all add: get16_def get32_def split: if_splits)

lemma entries_append: "entries_at b off es \<Longrightarrow> entries_at (b @ t) off es"
  by (induction es arbitrary: off) (auto simp: entry_at_def get_append split: ifd_entry.splits)

lemma shorts_append: "shorts_at b off n v \<Longrightarrow> shorts_at (b @ t) off n v"
  by (induction n arbitrary: off) (auto simp: get_append)

lemma shorts_outside:
  "shorts_at b off n v \<Longrightarrow> p + 4 \<le> off \<Longrightarrow> p + 4 \<le> length b \<Longrightarrow> shorts_at (patch p (put32 w) b) off n v"
  by (induction n arbitrary: off) (auto intro!: patch_get)

lemma tiff_append: "tiff_says b es \<Longrightarrow> 4 \<le> length b \<Longrightarrow> tiff_says (b @ t) es"
  by (simp add: tiff_says_def get_append entries_append)

lemma tiff_patched:
  assumes "tiff_says b es" "k < length es" "14 + 12 * length es \<le> length b"
  shows "tiff_says (patch (18 + 12 * k) (put32 w) b) (es[k := set_value w (es ! k)])"
proof -
  have "take 4 (patch (18 + 12 * k) (put32 w) b) = take 4 b"
    using patch_other [of 0 4 "18 + 12 * k" "put32 w" b] assms by simp
  moreover have "entries_at (patch (18 + 12 * k) (put32 w) b) 10 (es[k := set_value w (es ! k)])"
    using entries_patched [of b 10 es k w] assms by (simp add: tiff_says_def add.commute)
  ultimately show ?thesis using assms by (auto simp: tiff_says_def intro!: patch_get)
qed

lemma constant_filled:
  assumes "has_header f ch" "tiff_header_of f ch = Some h"
  shows "tiff_says (filled h wd ht n @ t)
      (tiff_entries f ch (word_of_int wd) (word_of_int ht) (word_of_nat (headerSize ch)) (word_of_int ht) (word_of_nat n))"
    "1 < ch \<Longrightarrow> shorts_at (filled h wd ht n @ t) (unat (after_ifd ch)) ch 8"
    "1 < ch \<Longrightarrow> shorts_at (filled h wd ht n @ t) (unat (after_ifd ch) + 2 * ch) ch 1"
proof -
  from constants_agree [OF assms(1)] assms(2) obtain m where h: "length h = headerSize ch"
    "tiff_says h (tiff_entries f ch 256 256 (word_of_nat (headerSize ch)) 0xFFFFFFFF m)"
    "1 < ch \<Longrightarrow> shorts_at h (unat (after_ifd ch)) ch 8" "1 < ch \<Longrightarrow> shorts_at h (unat (after_ifd ch) + 2 * ch) ch 1"
    by (auto simp: constant_says_def)
  have l: "134 \<le> length h" "14 + 12 * length (tiff_entries f ch w1 w2 w3 w4 w5) \<le> length h" for w1 w2 w3 w4 w5
    using h(1) assms(1) by (auto simp: has_header_def headerSize_def tiff_entries_def)
  define b1 where "b1 = patch 18 (put32 (word_of_int wd)) h"
  define b2 where "b2 = patch 30 (put32 (word_of_int ht)) b1"
  define b3 where "b3 = patch 102 (put32 (word_of_int ht)) b2"
  have len: "length b1 = length h" "length b2 = length h" "length b3 = length h"
    using l(1) by (simp_all add: b1_def b2_def b3_def)
  have f: "filled h wd ht n = patch 114 (put32 (word_of_nat n)) b3"
    by (simp add: filled_def b1_def b2_def b3_def)
  let ?s = "word_of_nat (headerSize ch) :: u32"
  have "tiff_says b1 (tiff_entries f ch (word_of_int wd) 256 ?s 0xFFFFFFFF m)"
    using tiff_patched [OF h(2), of 0 "word_of_int wd"] l by (simp add: b1_def tiff_entries_def)
  from tiff_patched [OF this, of 1 "word_of_int ht"] l len
  have "tiff_says b2 (tiff_entries f ch (word_of_int wd) (word_of_int ht) ?s 0xFFFFFFFF m)"
    by (simp add: b2_def tiff_entries_def)
  from tiff_patched [OF this, of 7 "word_of_int ht"] l len
  have "tiff_says b3 (tiff_entries f ch (word_of_int wd) (word_of_int ht) ?s (word_of_int ht) m)"
    by (simp add: b3_def tiff_entries_def)
  from tiff_patched [OF this, of 8 "word_of_nat n"] l len
  have "tiff_says (filled h wd ht n) (tiff_entries f ch (word_of_int wd) (word_of_int ht) ?s (word_of_int ht) (word_of_nat n))"
    by (simp add: f tiff_entries_def)
  then show "tiff_says (filled h wd ht n @ t)
      (tiff_entries f ch (word_of_int wd) (word_of_int ht) ?s (word_of_int ht) (word_of_nat n))"
    using l len by (intro tiff_append) (simp_all add: f)
  have a: "118 \<le> unat (after_ifd ch)" by (simp add: after_ifd_def)
  have s: "shorts_at (filled h wd ht n @ t) off ch v" if "shorts_at h off ch v" "118 \<le> off" for off v
    using that l len unfolding f b3_def b2_def b1_def by (intro shorts_append shorts_outside) auto
  show "shorts_at (filled h wd ht n @ t) (unat (after_ifd ch)) ch 8" if "1 < ch"
    using s [OF h(3) [OF that]] a by simp
  show "shorts_at (filled h wd ht n @ t) (unat (after_ifd ch) + 2 * ch) ch 1" if "1 < ch"
    using s [OF h(4) [OF that]] a by simp
qed

lemma store_behind:
  "store_at (length h) t (map Some h @ replicate (length t) None) = Inr (map Some (h @ t))"
  by (simp add: store_at_def)

lemma header_before_tile:
  assumes "has_header f ch" "ds_getData D d = (Inr (Some tile, Some (length tile)), d')"
  shows "\<exists>h. tiff_header_of f ch = Some h \<and> length h = headerSize ch
    \<and> TiffHeaderDataSource_new D (Some d) f ch wd ht n0 = Inr
        \<lparr>th_dataSource = Some d', th_dataSize = headerSize ch + length tile,
         th_data = map Some (filled h wd ht (length tile) @ tile)\<rparr>"
proof -
  from constants_agree [OF assms(1)] obtain h where h: "tiff_header_of f ch = Some h" "length h = headerSize ch"
    by (auto simp: constant_says_def)
  have big: "118 \<le> length h" using header_size_big [OF assms(1)] h(2) by simp
  have "read_ptr (Some h) (headerSize ch) = Inr h" using h(2) by (auto simp: read_ptr_def)
  moreover have "read_ptr (Some tile) (length tile) = Inr tile" by (simp add: read_ptr_def)
  moreover have "store_at 0 h (replicate (headerSize ch + length tile) None) = Inr (map Some h @ replicate (length tile) None)"
    using h(2) by (simp add: store_at_def replicate_add)
  moreover have "store_at (headerSize ch) tile (map Some (filled h wd ht (length tile)) @ replicate (length tile) None) =
      Inr (map Some (filled h wd ht (length tile) @ tile))"
    using store_behind [of "filled h wd ht (length tile)" tile] big h(2) by simp
  ultimately show ?thesis
    using h assms(2) set_fields_filled [OF big] by (simp add: TiffHeaderDataSource_new_def Let_def)
qed

lemma headed_tile:
  assumes "has_header f ch" "ds_getData D d = (Inr (Some tile, Some (length tile)), d')"
  shows "\<exists>hdr. TiffHeaderDataSource_new D (Some d) f ch wd ht n0 = Inr
        \<lparr>th_dataSource = Some d', th_dataSize = length (hdr @ tile), th_data = map Some (hdr @ tile)\<rparr>
    \<and> length hdr = headerSize ch
    \<and> tiff_says (hdr @ tile) (tiff_entries f ch (word_of_int wd) (word_of_int ht) (word_of_nat (length hdr))
         (word_of_int ht) (word_of_nat (length tile)))
    \<and> (1 < ch \<longrightarrow> shorts_at hdr (unat (after_ifd ch)) ch 8 \<and> shorts_at hdr (unat (after_ifd ch) + 2 * ch) ch 1)"
proof -
  from header_before_tile [OF assms] obtain h where h: "tiff_header_of f ch = Some h" "length h = headerSize ch"
    "TiffHeaderDataSource_new D (Some d) f ch wd ht n0 = Inr
        \<lparr>th_dataSource = Some d', th_dataSize = headerSize ch + length tile,
         th_data = map Some (filled h wd ht (length tile) @ tile)\<rparr>" by blast
  have l: "length (filled h wd ht (length tile)) = headerSize ch"
    using header_size_big [OF assms(1)] h(2) by simp
  show ?thesis
    using h(3) l constant_filled(1) [OF assms(1) h(1)] constant_filled(2,3) [OF assms(1) h(1), of wd ht "length tile" "[]"]
    by (intro exI [of _ "filled h wd ht (length tile)"]) simp
qed

text \<open>
  C16: A tile that is put behind the header of its format is a TIFF image: the header is the one of
  the format and the number of channels, its directory says the size of the tile, the compression,
  sample format and bits of the format (as the header of a slab says them), one strip that starts
  where the header ends and has the bytes of the tile; the arrays it points to hold 8 bits and
  unsigned integers for each channel.
\<close>

theorem tile_with_header:
  assumes "has_header f ch" "ds_getData D d = (Inr (Some tile, Some (length tile)), d')"
  shows "\<exists>s hdr. TiffHeaderDataSource_new D (Some d) f ch wd ht n0 = Inr s \<and> th_getData s = Inr (hdr @ tile)
    \<and> length hdr = headerSize ch \<and> th_getLength s = word_of_nat (length (hdr @ tile))
    \<and> tiff_says (hdr @ tile) (tiff_entries f ch (word_of_int wd) (word_of_int ht) (word_of_nat (length hdr))
         (word_of_int ht) (word_of_nat (length tile)))
    \<and> (1 < ch \<longrightarrow> shorts_at hdr (unat (after_ifd ch)) ch 8 \<and> shorts_at hdr (unat (after_ifd ch) + 2 * ch) ch 1)"
  using headed_tile [OF assms, of wd ht n0] by (fastforce simp: th_getData_def th_getLength_def simp del: map_append)

theorem tile_with_header_witness:
  "\<exists>s hdr. TiffHeaderDataSource_new raw_source (Some (RawDataSource_new [7, 8, 9] '''' '''' 3)) TIFF_RAW_INT8 3 1 1 0 = Inr s
    \<and> th_getData s = Inr (hdr @ [7, 8, 9]) \<and> length hdr = 146
    \<and> tiff_says (hdr @ [7, 8, 9]) (tiff_entries TIFF_RAW_INT8 3 1 1 146 1 3)
    \<and> shorts_at hdr 134 3 8"
proof -
  have g: "ds_getData raw_source (RawDataSource_new [7, 8, 9] '''' '''' 3) =
      (Inr (Some [7, 8, 9], Some (length [7, 8, 9 :: u8])), RawDataSource_new [7, 8, 9] '''' '''' 3)"
    by (simp add: raw_source_def RawDataSource_getData_def RawDataSource_new_def)
  have "has_header TIFF_RAW_INT8 3" by (simp add: has_header_def)
  from tile_with_header [OF this g, of 1 1 0] show ?thesis
    by (auto simp: headerSize_def after_ifd_def)
qed

text \<open>
  Two channels have no header: its size is 0, the four fields are stored into the space of the
  tile, and behind it when the tile is shorter than 118 bytes.
\<close>

lemma two_channels_no_header:
  assumes "ds_getData D d = (Inr (Some tile, Some (length tile)), d')"
  shows "TiffHeaderDataSource_new D (Some d) f 2 wd ht n0 =
    (if length tile < 118 then Inl BufferOverflow
     else Inr \<lparr>th_dataSource = Some d', th_dataSize = length tile, th_data = map Some tile\<rparr>)"
proof -
  have h: "tiff_header_of f 2 = None" "headerSize 2 = 0" by (simp_all add: tiff_header_of_def headerSize_def split: eformat_data.split)
  have p: "read_ptr (Some tile) (length tile) = Inr tile" by (simp add: read_ptr_def)
  show ?thesis
  proof (cases "length tile < 118")
    case True
    then show ?thesis using assms h p
      by (simp add: TiffHeaderDataSource_new_def set_fields_def store_at_def bindR_if)
  next
    case False
    then obtain b where b: "set_fields wd ht (length tile) (replicate (length tile) None) = Inr b" "length b = length tile"
      by (simp add: set_fields_def store_at_def)
    then show ?thesis using assms h p False
      by (simp add: TiffHeaderDataSource_new_def store_at_def)
  qed
qed

end
