(* ===== verification/Messages.thy ===== *)
theory Messages
  imports DataStreams Encoding
begin

text \<open>
  rok4server/ServiceException and rok4server/Message: the exceptions of the services, their text,
  and the sources and streams that carry them. A message is sent as its bytes.
\<close>

subsection \<open>ServiceException\<close>

datatype ExceptionCode =
    OWS_MISSING_PARAMETER_VALUE | OWS_INVALID_PARAMETER_VALUE | OWS_VERSION_NEGOTIATION_FAILED
  | OWS_INVALID_UPDATESEQUENCE | OWS_NOAPPLICABLE_CODE | WMS_INVALID_FORMAT | WMS_INVALID_CRS
  | WMS_LAYER_NOT_DEFINED | WMS_STYLE_NOT_DEFINED | WMS_LAYER_NOT_QUERYABLE | WMS_INVALID_POINT
  | WMS_CURRENT_UPDATESEQUENCE | WMS_MISSING_DIMENSION_VALUE | WMS_INVALID_DIMENSION_VALUE
  | OWS_OPERATION_NOT_SUPORTED | WMTS_TILE_OUT_OF_RANGE | HTTP_NOT_FOUND | GFI_PYRAMID_VALUES

fun getCodeAsString :: "ExceptionCode \<Rightarrow> string" where
  "getCodeAsString OWS_MISSING_PARAMETER_VALUE = ''MissingParameterValue''"
| "getCodeAsString OWS_INVALID_PARAMETER_VALUE = ''InvalidParameterValue''"
| "getCodeAsString OWS_VERSION_NEGOTIATION_FAILED = ''VersionNegotiationFailed''"
| "getCodeAsString OWS_INVALID_UPDATESEQUENCE = ''InvalidUpdateSequence''"
| "getCodeAsString OWS_NOAPPLICABLE_CODE = ''NoApplicableCode''"
| "getCodeAsString WMS_INVALID_FORMAT = ''InvalidFormat''"
| "getCodeAsString WMS_INVALID_CRS = ''InvalidCRS''"
| "getCodeAsString WMS_LAYER_NOT_DEFINED = ''LayerNotDefined''"
| "getCodeAsString WMS_STYLE_NOT_DEFINED = ''StyleNotDefined''"
| "getCodeAsString WMS_LAYER_NOT_QUERYABLE = ''LayerNotQueryable''"
| "getCodeAsString WMS_INVALID_POINT = ''InvalidPoint''"
| "getCodeAsString WMS_CURRENT_UPDATESEQUENCE = ''CurrentUpdateSequence''"
| "getCodeAsString WMS_MISSING_DIMENSION_VALUE = ''MissingDimensionValue''"
| "getCodeAsString WMS_INVALID_DIMENSION_VALUE = ''InvalidDimensionValue''"
| "getCodeAsString OWS_OPERATION_NOT_SUPORTED = ''OperationNotSupported''"
| "getCodeAsString WMTS_TILE_OUT_OF_RANGE = ''TileOutOfRange''"
| "getCodeAsString HTTP_NOT_FOUND = ''Not Found''"
| "getCodeAsString GFI_PYRAMID_VALUES = ''GFIPyramidValues''"

fun getCodeAsStatusCode :: "ExceptionCode \<Rightarrow> int" where
  "getCodeAsStatusCode OWS_NOAPPLICABLE_CODE = 500"
| "getCodeAsStatusCode OWS_OPERATION_NOT_SUPORTED = 501"
| "getCodeAsStatusCode HTTP_NOT_FOUND = 404"
| "getCodeAsStatusCode GFI_PYRAMID_VALUES = 200"
| "getCodeAsStatusCode _ = 400"

text \<open>For any other code no value is returned: the caller uses what was never set.\<close>

definition getStatusCodeAsReasonPhrase :: "int \<Rightarrow> fault + string" where
  "getStatusCodeAsReasonPhrase statusCode =
     (if statusCode = 200 then Inr ''OK''
      else if statusCode = 400 then Inr ''BadRequest''
      else if statusCode = 404 then Inr ''Not Found''
      else if statusCode = 500 then Inr ''Internal server error''
      else if statusCode = 501 then Inr ''Not implemented''
      else Inl Uninitialised)"

record ServiceException =
  se_locator :: string
  se_code :: ExceptionCode
  se_message :: string
  se_service :: string

definition ServiceException_new :: "string \<Rightarrow> ExceptionCode \<Rightarrow> string \<Rightarrow> string \<Rightarrow> ServiceException" where
  "ServiceException_new locator code message service =
     \<lparr>se_locator = locator,
      se_code = (if getCodeAsString code = '''' then OWS_NOAPPLICABLE_CODE else code),
      se_message = message, se_service = service\<rparr>"

definition newline :: string where "newline = [CHR 0x0A]"
definition quote :: string where "quote = [CHR 0x22]"

definition exception_toString :: "ServiceException \<Rightarrow> string" where
  "exception_toString e =
     (let exTagName = (if se_service e = ''wms'' then ''ServiceException'' else ''Exception'');
          codeAttName = (if se_service e = ''wms'' then ''code'' else ''exceptionCode'')
      in ''<'' @ exTagName @ '' '' @ codeAttName @ ''='' @ quote @ getCodeAsString (se_code e) @ quote @ '' ''
         @ (if se_locator e = '''' then '''' else '' locator='' @ quote @ se_locator e @ quote) @ ''>'' @ newline @ ''  ''
         @ (if se_message e = '''' then '''' else se_message e) @ newline @ ''</''
         @ (if se_service e = ''wms'' then ''ServiceException'' else ''Exception'') @ ''>'' @ newline)"

subsection \<open>Reports\<close>

definition tagName :: "string \<Rightarrow> string" where
  "tagName t = (if t = ''wms'' then ''ServiceExceptionReport'' else ''ExceptionReport'')"

definition xmlnsUri :: "string \<Rightarrow> string" where
  "xmlnsUri t = (if t = ''wms'' then ''http://www.opengis.net/ogc'' else ''http://www.opengis.net/ows/1.1'')"

definition genSER :: "ServiceException \<Rightarrow> string" where
  "genSER sex = ''<'' @ tagName (se_service sex) @ '' xmlns='' @ quote @ xmlnsUri (se_service sex) @ quote @ ''>''
     @ newline @ exception_toString sex @ ''</'' @ tagName (se_service sex) @ ''>''"

text \<open>
  The report on several exceptions: the first one is asked for its service without a test, the
  null pointers among the others are left out.
\<close>

definition first_exception :: "ServiceException option list \<Rightarrow> fault + ServiceException" where
  "first_exception es =
     (case es of [] \<Rightarrow> Inl OutOfRange | None # _ \<Rightarrow> Inl NullPointer | Some e # _ \<Rightarrow> Inr e)"

definition genSERs :: "ServiceException option list \<Rightarrow> fault + string" where
  "genSERs es =
     bindR (first_exception es) (\<lambda>e0. Inr
       (''<'' @ tagName (se_service e0) @ '' xmlns='' @ quote @ xmlnsUri (se_service e0) @ quote @ ''>'' @ newline
        @ concat (map (\<lambda>e. case e of None \<Rightarrow> '''' | Some e \<Rightarrow> exception_toString e) es)
        @ ''</'' @ tagName (se_service e0) @ ''>''))"

subsection \<open>Messages as sources and streams\<close>

record MessageDataSource =
  ms_message :: bytes
  ms_type :: string
  ms_httpStatus :: int

definition MessageDataSource_new :: "string \<Rightarrow> string \<Rightarrow> MessageDataSource" where
  "MessageDataSource_new message t =
     \<lparr>ms_message = map byte_of message, ms_type = t, ms_httpStatus = 200\<rparr>"

definition SERDataSource :: "ServiceException \<Rightarrow> MessageDataSource" where
  "SERDataSource sex =
     MessageDataSource_new (genSER sex) ''text/xml'' \<lparr>ms_httpStatus := getCodeAsStatusCode (se_code sex)\<rparr>"

definition SERDataSources :: "ServiceException option list \<Rightarrow> fault + MessageDataSource" where
  "SERDataSources es =
     bindR (genSERs es) (\<lambda>msg. bindR (first_exception es) (\<lambda>e0. Inr
       (MessageDataSource_new msg ''text/xml'' \<lparr>ms_httpStatus := getCodeAsStatusCode (se_code e0)\<rparr>)))"

definition message_source :: "MessageDataSource DataSource" where
  "message_source =
     \<lparr>ds_getData = (\<lambda>m. (Inr (Some (ms_message m), Some (length (ms_message m))), m)),
      ds_releaseData = (\<lambda>m. (True, m)), ds_getType = ms_type, ds_getHttpStatus = ms_httpStatus,
      ds_getEncoding = (\<lambda>m. ''''), ds_getLength = (\<lambda>m. length (ms_message m) mod 2 ^ 32)\<rparr>"

text \<open>The position in a stream has 32 bits.\<close>

record MessageDataStream =
  mt_message :: bytes
  mt_pos :: u32
  mt_type :: string
  mt_httpStatus :: int

definition MessageDataStream_new :: "string \<Rightarrow> string \<Rightarrow> MessageDataStream" where
  "MessageDataStream_new message t =
     \<lparr>mt_message = map byte_of message, mt_pos = 0, mt_type = t, mt_httpStatus = 200\<rparr>"

definition SERDataStream :: "ServiceException \<Rightarrow> MessageDataStream" where
  "SERDataStream sex =
     MessageDataStream_new (genSER sex) ''text/xml'' \<lparr>mt_httpStatus := getCodeAsStatusCode (se_code sex)\<rparr>"

definition SERDataStreams :: "ServiceException option list \<Rightarrow> fault + MessageDataStream" where
  "SERDataStreams es =
     bindR (genSERs es) (\<lambda>msg. bindR (first_exception es) (\<lambda>e0. Inr
       (MessageDataStream_new msg ''text/xml'' \<lparr>mt_httpStatus := getCodeAsStatusCode (se_code e0)\<rparr>)))"

definition MessageDataStream_read :: "MessageDataStream \<Rightarrow> nat \<Rightarrow> fault + bytes \<times> MessageDataStream" where
  "MessageDataStream_read s sz =
     (let n = (if sz > length (mt_message s) - unat (mt_pos s) then length (mt_message s) - unat (mt_pos s) else sz) in
      Inr (take n (drop (unat (mt_pos s)) (mt_message s)), s\<lparr>mt_pos := mt_pos s + word_of_nat n\<rparr>))"

definition MessageDataStream_eof :: "MessageDataStream \<Rightarrow> bool" where
  "MessageDataStream_eof s \<longleftrightarrow> unat (mt_pos s) = length (mt_message s)"

definition message_stream :: "MessageDataStream DataStream" where
  "message_stream =
     \<lparr>st_read = (\<lambda>s n. Some (MessageDataStream_read s n)), st_eof = MessageDataStream_eof, st_getType = mt_type,
      st_getHttpStatus = mt_httpStatus, st_getEncoding = (\<lambda>s. ''''),
      st_getLength = (\<lambda>s. Some (Inr (length (mt_message s) mod 2 ^ 32, s)))\<rparr>"

subsection \<open>What they give\<close>

text \<open>Every exception has a status with a reason, which is what the header of its answer needs.\<close>

lemma status_has_reason: "\<exists>r. getStatusCodeAsReasonPhrase (getCodeAsStatusCode code) = Inr r"
  by (cases code) (simp_all add: getStatusCodeAsReasonPhrase_def)

definition mt_ok :: "MessageDataStream \<Rightarrow> bool" where
  "mt_ok s \<longleftrightarrow> unat (mt_pos s) \<le> length (mt_message s) \<and> length (mt_message s) < 2 ^ 32"

definition mt_rest :: "MessageDataStream \<Rightarrow> bytes" where
  "mt_rest s = drop (unat (mt_pos s)) (mt_message s)"

interpretation messages: ended_stream message_stream mt_ok mt_rest "\<lambda>_. 1"
proof
  fix s :: MessageDataStream and sz
  assume ok: "mt_ok s"
  define n where "n = min sz (length (mt_message s) - unat (mt_pos s))"
  have "mt_pos s + word_of_nat n = word_of_nat (unat (mt_pos s) + n)" by simp
  moreover have "unat (mt_pos s) + n < 2 ^ 32" using ok unfolding mt_ok_def n_def by linarith
  ultimately have p: "unat (mt_pos s + word_of_nat n) = unat (mt_pos s) + n" by (simp only: unat_u32)
  have r: "st_read message_stream s sz = Some (Inr (take n (drop (unat (mt_pos s)) (mt_message s)), s\<lparr>mt_pos := mt_pos s + word_of_nat n\<rparr>))"
    by (simp add: message_stream_def MessageDataStream_read_def n_def min_def not_less)
  have "mt_rest s = take n (drop (unat (mt_pos s)) (mt_message s)) @ mt_rest (s\<lparr>mt_pos := mt_pos s + word_of_nat n\<rparr>)"
    using drop_split [of "unat (mt_pos s)" "mt_message s" n] by (simp add: mt_rest_def p)
  moreover have "unat (mt_pos s) + n \<le> length (mt_message s)" using ok unfolding mt_ok_def n_def by linarith
  then have "mt_ok (s\<lparr>mt_pos := mt_pos s + word_of_nat n\<rparr>)" using ok p by (simp add: mt_ok_def)
  moreover have "mt_rest (s\<lparr>mt_pos := mt_pos s + word_of_nat n\<rparr>) = drop (unat (mt_pos s) + n) (mt_message s)"
    by (simp add: mt_rest_def p)
  then have "mt_rest (s\<lparr>mt_pos := mt_pos s + word_of_nat n\<rparr>) = [] \<or> n = sz"
    unfolding n_def by auto
  ultimately show "\<exists>bs s'. st_read message_stream s sz = Some (Inr (bs, s')) \<and> mt_ok s' \<and> mt_rest s = bs @ mt_rest s' \<and> length bs \<le> sz
       \<and> 1 \<le> (1::nat) \<and> (mt_rest s' = [] \<or> sz < length bs + 1)"
    unfolding r by (intro exI conjI) (auto simp: n_def)
next
  fix s :: MessageDataStream
  assume "mt_ok s"
  then show "\<exists>n s'. st_getLength message_stream s = Some (Inr (n, s')) \<and> mt_ok s' \<and> mt_rest s' = mt_rest s \<and> 1 \<le> (1::nat)"
    by (simp add: message_stream_def)
next
  fix s :: MessageDataStream
  assume "mt_ok s"
  then show "st_eof message_stream s \<longleftrightarrow> mt_rest s = []"
    by (auto simp: message_stream_def MessageDataStream_eof_def mt_rest_def mt_ok_def)
qed


end
