(* ===== verification/Responses.thy ===== *)
theory Responses
  imports Messages
begin

text \<open>
  rok4server/ResponseSender.cpp: the answer to a request, a header and the bytes of a source or of
  a stream, put into the output of a FastCGI request.

  FastCGI is a parameter: \<open>pt b out\<close> is \<open>FCGX_PutStr\<close>, with the number it returns. What the
  documentation says of a call that succeeds is \<open>puts_all\<close>: all bytes are added to the output and
  their number is returned.
\<close>

type_synonym 'o putstr = "bytes \<Rightarrow> 'o \<Rightarrow> int \<times> 'o"

definition puts_all :: "'o putstr \<Rightarrow> ('o \<Rightarrow> bytes) \<Rightarrow> bool" where
  "puts_all pt content \<longleftrightarrow>
     (\<forall>b out. fst (pt b out) = int (length b) \<and> content (snd (pt b out)) = content out @ b)"

subsection \<open>The header\<close>

definition crlf :: string where "crlf = [CHR 0x0D, CHR 0x0A]"

definition genStatusHeader :: "int \<Rightarrow> fault + string" where
  "genStatusHeader statusCode =
     bindR (getStatusCodeAsReasonPhrase statusCode) (\<lambda>reason. Inr
       (''Status: '' @ show_int statusCode @ '' '' @ reason @ crlf))"

definition genFileName :: "string \<Rightarrow> string" where
  "genFileName mime =
     (if mime = ''image/tiff'' then ''image.tif''
      else if mime = ''image/geotiff'' then ''image.tif''
      else if mime = ''image/jpeg'' then ''image.jpg''
      else if mime = ''image/png'' then ''image.png''
      else if mime = ''image/x-bil;bits=32'' then ''image.bil''
      else if mime = ''text/plain'' then ''message.txt''
      else if mime = ''text/xml'' then ''message.xml''
      else if mime = ''text/asc'' then ''file.asc''
      else ''file'')"

text \<open>A string as a C string.\<close>

definition c_str :: "string \<Rightarrow> string" where
  "c_str s = takeWhile (\<lambda>c. c \<noteq> CHR 0x00) s"

text \<open>What the calls of \<open>FCGX_PutStr\<close> before the body put out; a length of 0 is left out.\<close>

definition header_parts :: "string \<Rightarrow> string \<Rightarrow> string \<Rightarrow> nat \<Rightarrow> string list" where
  "header_parts status type encoding len =
     [status, ''Content-Type: '', c_str type]
     @ (if encoding = '''' then [] else [crlf @ ''Content-Encoding: '', c_str encoding])
     @ (if len = 0 then [] else [crlf @ ''Content-Length: '', show_nat len])
     @ [crlf @ ''Content-Disposition: filename='' @ quote, genFileName type, quote, crlf @ crlf]"

fun put_parts :: "'o putstr \<Rightarrow> string list \<Rightarrow> 'o \<Rightarrow> 'o" where
  "put_parts pt [] out = out"
| "put_parts pt (p # ps) out = put_parts pt ps (snd (pt (map byte_of p) out))"

subsection \<open>The body\<close>

text \<open>
  \<open>while (wr < n) { w = FCGX_PutStr (buffer + wr, n, out); if (w < 0) return -1; wr += w; }\<close> : each
  call is given all the \<open>n\<close> bytes again from \<open>wr\<close> on, so that a call after a short one reads behind
  the bytes of the buffer. The result is \<open>None\<close> inside the sum after a failure.
\<close>

partial_function (option) put_loop ::
    "'o putstr \<Rightarrow> bytes \<Rightarrow> nat \<Rightarrow> 'o \<Rightarrow> (fault + nat option \<times> 'o) option" where
  "put_loop pt buf wr out =
     (if length buf \<le> wr then Some (Inr (Some wr, out))
      else if 0 < wr then Some (Inl OverRead)
      else
        case pt buf out of (w, out') \<Rightarrow>
          if w < 0 then Some (Inr (None, out')) else put_loop pt buf (wr + nat w) out')"

text \<open>Both \<open>sendresponse\<close> return 0, or -1 when the output fails.\<close>

definition sendresponse_source ::
    "'o putstr \<Rightarrow> 'd DataSource \<Rightarrow> 'd \<Rightarrow> 'o \<Rightarrow> (fault + int \<times> 'o) option" where
  "sendresponse_source pt D d out =
     (case genStatusHeader (ds_getHttpStatus D d) of
        Inl e \<Rightarrow> Some (Inl e)
      | Inr status \<Rightarrow>
          let out1 = put_parts pt (header_parts status (ds_getType D d) (ds_getEncoding D d) (ds_getLength D d)) out in
          (case ds_getData D d of
             (Inl e, d') \<Rightarrow> Some (Inl e)
           | (Inr (p, None), d') \<Rightarrow> Some (Inl Uninitialised)
           | (Inr (p, Some n), d') \<Rightarrow>
               (case (if n = 0 then Inr []
                      else case p of
                        None \<Rightarrow> Inl NullPointer
                      | Some b \<Rightarrow> if length b < n then Inl OverRead else Inr (take n b)) of
                  Inl e \<Rightarrow> Some (Inl e)
                | Inr buf \<Rightarrow>
                    map_option (\<lambda>r. bindR r (\<lambda>(wr, out2). Inr (if wr = None then -1 else 0, out2)))
                      (put_loop pt buf 0 out1))))"

text \<open>The stream is read in pieces of 2 MB until a read gives nothing.\<close>

definition chunk :: nat where "chunk = 2097152"

partial_function (option) stream_loop ::
    "'o putstr \<Rightarrow> 's DataStream \<Rightarrow> 's \<Rightarrow> 'o \<Rightarrow> (fault + int \<times> 'o) option" where
  "stream_loop pt S s out =
     (case st_read S s chunk of
        None \<Rightarrow> None
      | Some (Inl e) \<Rightarrow> Some (Inl e)
      | Some (Inr (bs, s')) \<Rightarrow>
          if bs = [] then Some (Inr (0, out))
          else
            (case put_loop pt bs 0 out of
               None \<Rightarrow> None
             | Some (Inl e) \<Rightarrow> Some (Inl e)
             | Some (Inr (None, out')) \<Rightarrow> Some (Inr (-1, out'))
             | Some (Inr (Some wr, out')) \<Rightarrow>
                 if wr \<noteq> length bs then Some (Inr (0, out')) else stream_loop pt S s' out'))"

definition sendresponse_stream ::
    "'o putstr \<Rightarrow> 's DataStream \<Rightarrow> 's \<Rightarrow> 'o \<Rightarrow> (fault + int \<times> 'o) option" where
  "sendresponse_stream pt S s out =
     (case genStatusHeader (st_getHttpStatus S s) of
        Inl e \<Rightarrow> Some (Inl e)
      | Inr status \<Rightarrow>
          let send = (\<lambda>len s'. stream_loop pt S s'
                 (put_parts pt (header_parts status (st_getType S s) '''' len) out)) in
          (case st_getLength S s of
             None \<Rightarrow> None
           | Some (Inl e) \<Rightarrow> Some (Inl e)
           | Some (Inr (n, s1)) \<Rightarrow>
               if n = 0 then send 0 s1
               else
                 (case st_getLength S s1 of
                    None \<Rightarrow> None
                  | Some (Inl e) \<Rightarrow> Some (Inl e)
                  | Some (Inr (n', s2)) \<Rightarrow> send n' s2)))"

subsection \<open>What is sent\<close>

lemma put_parts_content:
  "puts_all pt content \<Longrightarrow> content (put_parts pt ps out) = content out @ map byte_of (concat ps)"
  by (induction ps arbitrary: out) (auto simp: puts_all_def)

lemma put_loop_all:
  assumes "puts_all pt content"
  shows "\<exists>out'. put_loop pt buf 0 out = Some (Inr (Some (length buf), out')) \<and> content out' = content out @ buf"
proof (cases "buf = []")
  case True
  then show ?thesis by (simp add: put_loop.simps)
next
  case False
  obtain w out' where p: "pt buf out = (w, out')" by (cases "pt buf out")
  with assms have "w = int (length buf)" "content out' = content out @ buf"
    by (simp_all add: puts_all_def) (metis fst_conv, metis snd_conv)
  then show ?thesis using False p by (simp add: put_loop.simps [of pt buf])
qed

context readable begin

lemma stream_loop_all:
  assumes "puts_all pt content" "ok s" "slack s \<le> chunk"
  shows "\<exists>out'. stream_loop pt S s out = Some (Inr (0, out')) \<and> content out' = content out @ rest s"
  using assms(2,3)
proof (induction "length (rest s)" arbitrary: s out rule: less_induct)
  case less
  obtain bs s' where r: "st_read S s chunk = Some (Inr (bs, s'))" "ok s'" "rest s = bs @ rest s'" "slack s' \<le> slack s"
    "rest s' = [] \<or> chunk < length bs + slack s" using read_law [OF less.prems(1), of chunk] by blast
  show ?case
  proof (cases "bs = []")
    case True
    then have "rest s = []" using r(3,5) less.prems(2) by auto
    then show ?thesis using r(1) True by (simp add: stream_loop.simps [of pt S s])
  next
    case False
    obtain out1 where p: "put_loop pt bs 0 out = Some (Inr (Some (length bs), out1))" "content out1 = content out @ bs"
      using put_loop_all [OF assms(1)] by blast
    obtain out2 where "stream_loop pt S s' out1 = Some (Inr (0, out2))" "content out2 = content out1 @ rest s'"
      using less.hyps [of s' out1] r False less.prems(2) by auto
    then show ?thesis using r(1,3) False p by (simp add: stream_loop.simps [of pt S s])
  qed
qed

lemma stream_sent:
  assumes "puts_all pt content" "ok s" "slack s \<le> chunk" "genStatusHeader (st_getHttpStatus S s) = Inr status"
  shows "\<exists>len out'. sendresponse_stream pt S s out = Some (Inr (0, out'))
    \<and> content out' = content out @ map byte_of (concat (header_parts status (st_getType S s) '''' len)) @ rest s"
proof -
  obtain n s1 where 1: "st_getLength S s = Some (Inr (n, s1))" "ok s1" "rest s1 = rest s" "slack s1 \<le> slack s"
    using length_law [OF assms(2)] by blast
  obtain n' s2 where 2: "st_getLength S s1 = Some (Inr (n', s2))" "ok s2" "rest s2 = rest s1" "slack s2 \<le> slack s1"
    using length_law [OF 1(2)] by blast
  let ?len = "if n = 0 then 0 else n'" and ?s = "if n = 0 then s1 else s2"
  have "ok ?s" "slack ?s \<le> chunk" "rest ?s = rest s" using 1 2 assms(3) by auto
  from stream_loop_all [OF assms(1) this(1,2)] this(3) obtain out' where
    "stream_loop pt S ?s (put_parts pt (header_parts status (st_getType S s) '''' ?len) out) = Some (Inr (0, out'))"
    "content out' = content (put_parts pt (header_parts status (st_getType S s) '''' ?len) out) @ rest s" by metis
  then show ?thesis
    using 1(1) 2(1) assms(4) put_parts_content [OF assms(1)] unfolding sendresponse_stream_def
    by (cases "n = 0") (auto intro!: exI [of _ ?len])
qed

end

lemma source_sent:
  assumes "puts_all pt content" "genStatusHeader (ds_getHttpStatus D d) = Inr status"
    "ds_getData D d = (Inr (Some b, Some (length b)), d')"
  shows "\<exists>out'. sendresponse_source pt D d out = Some (Inr (0, out'))
    \<and> content out' = content out @ map byte_of (concat (header_parts status (ds_getType D d) (ds_getEncoding D d)
         (ds_getLength D d))) @ b"
proof -
  let ?out = "put_parts pt (header_parts status (ds_getType D d) (ds_getEncoding D d) (ds_getLength D d)) out"
  obtain out' where "put_loop pt b 0 ?out = Some (Inr (Some (length b), out'))" "content out' = content ?out @ b"
    using put_loop_all [OF assms(1)] by blast
  then show ?thesis using assms(2,3) put_parts_content [OF assms(1)]
    by (auto simp: sendresponse_source_def Let_def)
qed


end
