(* ===== verification/TiffEncoders.thy ===== *)
theory TiffEncoders
  imports TiffHeaders Responses Mosaic
begin

text \<open>
  lib/libimage/TiffEncoder.cpp, TiffRawEncoder.h, TiffLZWEncoder.h, TiffPackBitsEncoder.h,
  TiffDeflateEncoder.h: an image as a TIFF file in a stream. The image is read and compressed as a
  whole before the first byte is given.

  The image is a record of the methods the encoders call, over its state; zlib is the parameter of
  \<open>TileCodec\<close>. The function that adds the geographic tags to a header is an argument. The products of width, height, channels and sample size are taken not to
  overflow an \<open>int\<close>.
\<close>

subsection \<open>Images\<close>

record 'i Image =
  im_width :: "'i \<Rightarrow> nat"
  im_height :: "'i \<Rightarrow> nat"
  im_channels :: "'i \<Rightarrow> nat"
  im_getline :: "sample_type \<Rightarrow> 'i \<Rightarrow> nat \<Rightarrow> line_result \<times> 'i"

text \<open>
  The lines of an image, read in this order into pieces of \<open>linesize\<close> bytes. What a line leaves of
  its piece was never written; what is longer goes over the end of it.
\<close>

fun image_lines ::
    "('i \<Rightarrow> nat \<Rightarrow> line_result \<times> 'i) \<Rightarrow> nat \<Rightarrow> nat list \<Rightarrow> 'i \<Rightarrow> (fault + bytes list) option \<times> 'i" where
  "image_lines G linesize [] i = (Some (Inr []), i)"
| "image_lines G linesize (l # ls) i =
     (case G i l of
        (None, i') \<Rightarrow> (None, i')
      | (Some (Inl e), i') \<Rightarrow> (Some (Inl e), i')
      | (Some (Inr (n, bs)), i') \<Rightarrow>
          if linesize < length bs then (Some (Inl BufferOverflow), i')
          else if length bs < linesize then (Some (Inl Uninitialised), i')
          else
            (case image_lines G linesize ls i' of
               (Some (Inr rows), i'') \<Rightarrow> (Some (Inr (bs # rows)), i'')
             | r \<Rightarrow> r))"

subsection \<open>The encoders\<close>

datatype tiff_codec = TiffRaw | TiffLZW | TiffDeflate | TiffPackBits

text \<open>The sample type is the template parameter; \<open>line\<close> is -1 until the header was given.\<close>

record 'i TiffEncoder =
  te_codec :: tiff_codec
  te_T :: sample_type
  te_image :: 'i
  te_line :: int
  te_isGeoTiff :: bool
  te_header :: "bytes option"
  te_tmpBuffer :: "bytes option"
  te_tmpBufferPos :: nat

definition TiffEncoder_new :: "tiff_codec \<Rightarrow> sample_type \<Rightarrow> 'i \<Rightarrow> bool \<Rightarrow> 'i TiffEncoder" where
  "TiffEncoder_new k T i geo =
     \<lparr>te_codec = k, te_T = T, te_image = i, te_line = -1, te_isGeoTiff = geo, te_header = None,
      te_tmpBuffer = None, te_tmpBufferPos = 0\<rparr>"

definition te_tmpBufferSize :: "'i TiffEncoder \<Rightarrow> nat" where
  "te_tmpBufferSize e = (case te_tmpBuffer e of None \<Rightarrow> 0 | Some b \<Rightarrow> length b)"

definition getTiffEncoder :: "'i \<Rightarrow> eformat_data \<Rightarrow> bool \<Rightarrow> 'i TiffEncoder option" where
  "getTiffEncoder i format geo =
     (case format of
        TIFF_RAW_INT8 \<Rightarrow> Some (TiffEncoder_new TiffRaw U8 i geo)
      | TIFF_LZW_INT8 \<Rightarrow> Some (TiffEncoder_new TiffLZW U8 i geo)
      | TIFF_ZIP_INT8 \<Rightarrow> Some (TiffEncoder_new TiffDeflate U8 i geo)
      | TIFF_PKB_INT8 \<Rightarrow> Some (TiffEncoder_new TiffPackBits U8 i geo)
      | TIFF_RAW_FLOAT32 \<Rightarrow> Some (TiffEncoder_new TiffRaw F32 i geo)
      | TIFF_LZW_FLOAT32 \<Rightarrow> Some (TiffEncoder_new TiffLZW F32 i geo)
      | TIFF_ZIP_FLOAT32 \<Rightarrow> Some (TiffEncoder_new TiffDeflate F32 i geo)
      | TIFF_PKB_FLOAT32 \<Rightarrow> Some (TiffEncoder_new TiffPackBits F32 i geo)
      | _ \<Rightarrow> None)"

subsection \<open>The data\<close>

text \<open>The compression of the lines; a PackBits buffer has twice the size of the lines.\<close>

definition raw_buffer :: "bytes list \<Rightarrow> fault + bytes" where
  "raw_buffer rows = Inr (concat rows)"

definition lzw_buffer :: "bytes list \<Rightarrow> fault + bytes" where
  "lzw_buffer rows = bindR (lzw_encode lzwEncoder_new (concat rows)) (\<lambda>(_, b). Inr b)"

definition pkb_buffer :: "nat \<Rightarrow> bytes list \<Rightarrow> fault + bytes" where
  "pkb_buffer linesize rows = pack_lines (linesize * length rows * 2) rows []"

text \<open>
  deflate: the lines are read and compressed into a buffer that is doubled, and everything is done
  again, while they do not fit.
\<close>

partial_function (option) deflate_buffer ::
    "'z zlib \<Rightarrow> ('i \<Rightarrow> nat \<Rightarrow> line_result \<times> 'i) \<Rightarrow> nat \<Rightarrow> nat list \<Rightarrow> nat \<Rightarrow> 'i \<Rightarrow> (fault + bytes \<times> 'i) option" where
  "deflate_buffer Z G linesize ls room i =
     (case image_lines G linesize ls i of
        (None, i') \<Rightarrow> None
      | (Some (Inl e), i') \<Rightarrow> Some (Inl e)
      | (Some (Inr rows), i') \<Rightarrow>
          (case deflate_all Z 6 (concat rows) room of
             Some z \<Rightarrow> Some (Inr (z, i'))
           | None \<Rightarrow> deflate_buffer Z G linesize ls (room * 2) i'))"

definition prepareBuffer :: "'i Image \<Rightarrow> 'z zlib \<Rightarrow> 'i TiffEncoder \<Rightarrow> (fault + 'i TiffEncoder) option" where
  "prepareBuffer I Z e =
     (let i = te_image e;
          linesize = im_width I i * im_channels I i * sizeof (te_T e);
          G = im_getline I (te_T e);
          ls = [0..<im_height I i];
          with_lines = (\<lambda>f. case image_lines G linesize ls i of
              (None, i') \<Rightarrow> None
            | (Some (Inl x), i') \<Rightarrow> Some (Inl x)
            | (Some (Inr rows), i') \<Rightarrow>
                Some (bindR (f rows) (\<lambda>b. Inr (e\<lparr>te_image := i', te_tmpBuffer := Some b\<rparr>))))
      in
      case te_codec e of
        TiffRaw \<Rightarrow> with_lines raw_buffer
      | TiffLZW \<Rightarrow> with_lines lzw_buffer
      | TiffPackBits \<Rightarrow> with_lines (pkb_buffer linesize)
      | TiffDeflate \<Rightarrow>
          map_option (\<lambda>r. bindR r (\<lambda>(b, i'). Inr (e\<lparr>te_image := i', te_tmpBuffer := Some b\<rparr>)))
            (deflate_buffer Z G linesize ls (im_width I i * im_channels I i * im_height I i * 2 * sizeof (te_T e)) i))"

subsection \<open>The header\<close>

definition codec_format :: "tiff_codec \<Rightarrow> bool \<Rightarrow> eformat_data" where
  "codec_format k float =
     (case k of
        TiffRaw \<Rightarrow> if float then TIFF_RAW_FLOAT32 else TIFF_RAW_INT8
      | TiffLZW \<Rightarrow> if float then TIFF_LZW_FLOAT32 else TIFF_LZW_INT8
      | TiffDeflate \<Rightarrow> if float then TIFF_ZIP_FLOAT32 else TIFF_ZIP_INT8
      | TiffPackBits \<Rightarrow> if float then TIFF_PKB_FLOAT32 else TIFF_PKB_INT8)"

text \<open>The constant: the sample type counts for one channel only.\<close>

definition encoder_header :: "tiff_codec \<Rightarrow> sample_type \<Rightarrow> nat \<Rightarrow> bytes option" where
  "encoder_header k T ch = tiff_header_of (codec_format k (ch = 1 \<and> sizeof T = 4)) ch"

definition prepareHeader :: "'i Image \<Rightarrow> 'i TiffEncoder \<Rightarrow> fault + 'i TiffEncoder" where
  "prepareHeader I e =
     (let i = te_image e; hs = headerSize (im_channels I i) in
      bindR (case encoder_header (te_codec e) (te_T e) (im_channels I i) of
               None \<Rightarrow> Inr (replicate hs None)
             | Some h \<Rightarrow> bindR (read_ptr (Some h) hs) (\<lambda>h. store_at 0 h (replicate hs None))) (\<lambda>buf.
      bindR (set_fields (int (im_width I i)) (int (im_height I i)) (te_tmpBufferSize e) buf) (\<lambda>buf.
      bindR (written buf) (\<lambda>h. Inr (e\<lparr>te_header := Some h\<rparr>)))))"

subsection \<open>The stream\<close>

text \<open>Buffer first, then header, then the geographic tags; each only once.\<close>

definition te_prepare ::
    "'i Image \<Rightarrow> 'z zlib \<Rightarrow> ('i \<Rightarrow> bytes \<Rightarrow> fault + bytes) \<Rightarrow> 'i TiffEncoder \<Rightarrow> (fault + 'i TiffEncoder) option" where
  "te_prepare I Z geo e =
     map_option (\<lambda>r. bindR r (\<lambda>e1.
         if te_header e1 \<noteq> None then Inr e1
         else
           bindR (prepareHeader I e1) (\<lambda>e2.
           if te_isGeoTiff e2 then
             bindR (geo (te_image e2) (the (te_header e2))) (\<lambda>h. Inr (e2\<lparr>te_header := Some h\<rparr>))
           else Inr e2)))
       (if te_tmpBuffer e \<noteq> None then Some (Inr e) else prepareBuffer I Z e)"

definition te_take :: "'i TiffEncoder \<Rightarrow> nat \<Rightarrow> bytes \<times> 'i TiffEncoder" where
  "te_take e sz =
     (let h = the (te_header e); d = the (te_tmpBuffer e) in
      if sz < length h then ([], e)
      else
        let out = (if te_line e = -1 then h else []);
            e1 = (if te_line e = -1 then e\<lparr>te_line := 0\<rparr> else e)
        in
        if sz - length out > 0 \<and> te_tmpBufferPos e1 \<le> length d then
          let n = min (sz - length out) (length d - te_tmpBufferPos e1) in
          (out @ take n (drop (te_tmpBufferPos e1) d), e1\<lparr>te_tmpBufferPos := te_tmpBufferPos e1 + n\<rparr>)
        else (out, e1))"

definition te_read where
  "te_read I Z geo e sz = map_option (\<lambda>r. bindR r (\<lambda>e1. Inr (te_take e1 sz))) (te_prepare I Z geo e)"

definition te_eof :: "'i TiffEncoder \<Rightarrow> bool" where
  "te_eof e \<longleftrightarrow> te_tmpBufferSize e \<le> te_tmpBufferPos e"

definition te_getLength where
  "te_getLength I Z geo e =
     map_option (\<lambda>r. bindR r (\<lambda>e1. Inr ((length (the (te_header e1)) + te_tmpBufferSize e1) mod 2 ^ 32, e1)))
       (te_prepare I Z geo e)"

definition te_getType :: "'i TiffEncoder \<Rightarrow> string" where
  "te_getType e = (if te_isGeoTiff e then ''image/geotiff'' else ''image/tiff'')"

definition te_getEncoding :: "'i TiffEncoder \<Rightarrow> string" where
  "te_getEncoding e = (if te_codec e = TiffDeflate then ''deflate'' else '''')"

definition tiff_stream ::
    "'i Image \<Rightarrow> 'z zlib \<Rightarrow> ('i \<Rightarrow> bytes \<Rightarrow> fault + bytes) \<Rightarrow> 'i TiffEncoder DataStream" where
  "tiff_stream I Z geo =
     \<lparr>st_read = te_read I Z geo, st_eof = te_eof, st_getType = te_getType,
      st_getHttpStatus = (\<lambda>e. 200), st_getEncoding = te_getEncoding,
      st_getLength = te_getLength I Z geo\<rparr>"

subsection \<open>The encoder as a stream\<close>

text \<open>An encoder with buffer and header, which has given all of the header or nothing.\<close>

definition te_ready :: "bytes \<Rightarrow> bytes \<Rightarrow> 'i TiffEncoder \<Rightarrow> bool" where
  "te_ready h d e \<longleftrightarrow> te_header e = Some h \<and> te_tmpBuffer e = Some d \<and> te_tmpBufferPos e \<le> length d
     \<and> (te_line e = -1 \<and> te_tmpBufferPos e = 0 \<or> te_line e = 0)"

definition te_left :: "'i TiffEncoder \<Rightarrow> bytes" where
  "te_left e = (if te_line e = -1 then the (te_header e) else []) @ drop (te_tmpBufferPos e) (the (te_tmpBuffer e))"

lemma te_prepare_ready: "te_ready h d e \<Longrightarrow> te_prepare I Z geo e = Some (Inr e)"
  by (simp add: te_prepare_def te_ready_def)

lemma te_take_ready:
  assumes "te_ready h d e" "te_take e sz = (bs, e')"
  shows "te_ready h d e'" "te_left e = bs @ te_left e'" "length bs \<le> sz"
    "te_left e' = [] \<or> sz < length bs + max 1 (length h)" "te_line e' = -1 \<longrightarrow> bs = []"
proof -
  have r: "te_header e = Some h" "te_tmpBuffer e = Some d" "te_tmpBufferPos e \<le> length d"
    "te_line e = -1 \<and> te_tmpBufferPos e = 0 \<or> te_line e = 0" using assms(1) by (simp_all add: te_ready_def)
  let ?h = "if te_line e = -1 then h else []"
  have "te_ready h d e' \<and> te_left e = bs @ te_left e' \<and> length bs \<le> sz
    \<and> (te_left e' = [] \<or> sz < length bs + max 1 (length h)) \<and> (te_line e' = -1 \<longrightarrow> bs = [])"
  proof (cases "sz < length h")
    case True
    then show ?thesis using assms r by (simp add: te_take_def te_ready_def)
  next
    case False
    define n where "n = min (sz - length ?h) (length d - te_tmpBufferPos e)"
    have b: "bs = ?h @ take n (drop (te_tmpBufferPos e) d)"
      "te_header e' = Some h" "te_tmpBuffer e' = Some d" "te_line e' = 0" "te_tmpBufferPos e' = te_tmpBufferPos e + n"
      using assms(2) r False by (auto simp: te_take_def Let_def n_def split: if_splits)
    have n: "n \<le> sz - length ?h" "te_tmpBufferPos e + n \<le> length d" using r(3) unfolding n_def by linarith+
    have full: "te_tmpBufferPos e + n = length d \<or> n = sz - length ?h" using r(3) unfolding n_def by linarith
    have "length ?h \<le> sz" using False by simp
    moreover have "length bs = length ?h + n" using n(2) b(1) by simp
    moreover have "te_left e = bs @ te_left e'"
      using drop_split [of "te_tmpBufferPos e" d n] r b by (simp add: te_left_def)
    ultimately show ?thesis using b n full by (auto simp: te_ready_def te_left_def)
  qed
  then show "te_ready h d e'" "te_left e = bs @ te_left e'" "length bs \<le> sz"
    "te_left e' = [] \<or> sz < length bs + max 1 (length h)" "te_line e' = -1 \<longrightarrow> bs = []" by blast+
qed

text \<open>An encoder that is ready or can be made ready.\<close>

definition te_ok where
  "te_ok I Z geo e \<longleftrightarrow> (\<exists>e' h d. te_prepare I Z geo e = Some (Inr e') \<and> te_ready h d e')"

definition te_prepared where
  "te_prepared I Z geo e = (case te_prepare I Z geo e of Some (Inr e') \<Rightarrow> e' | _ \<Rightarrow> e)"

definition te_rest where
  "te_rest I Z geo e = te_left (te_prepared I Z geo e)"

definition te_slack where
  "te_slack I Z geo e = max 1 (length (the (te_header (te_prepared I Z geo e))))"

lemma te_ready_facts:
  assumes "te_ready h d e"
  shows "te_ok I Z geo e" "te_rest I Z geo e = te_left e" "te_slack I Z geo e = max 1 (length h)"
  using te_prepare_ready [OF assms, of I Z geo] assms
  by (auto simp: te_ok_def te_rest_def te_slack_def te_prepared_def te_ready_def)

interpretation tiff: readable "tiff_stream I Z geo" "te_ok I Z geo" "te_rest I Z geo" "te_slack I Z geo"
  for I :: "'i Image" and Z :: "'z zlib" and geo
proof
  fix e :: "'i TiffEncoder" and sz
  assume "te_ok I Z geo e"
  then obtain e1 h d where e1: "te_prepare I Z geo e = Some (Inr e1)" "te_ready h d e1" by (auto simp: te_ok_def)
  obtain bs e' where t: "te_take e1 sz = (bs, e')" by (cases "te_take e1 sz")
  have "st_read (tiff_stream I Z geo) e sz = Some (Inr (bs, e'))"
    by (simp add: tiff_stream_def te_read_def e1(1) t)
  moreover have "te_rest I Z geo e = te_left e1" "te_slack I Z geo e = max 1 (length h)"
    using e1 by (auto simp: te_rest_def te_slack_def te_prepared_def te_ready_def)
  ultimately show "\<exists>bs e'. st_read (tiff_stream I Z geo) e sz = Some (Inr (bs, e')) \<and> te_ok I Z geo e'
    \<and> te_rest I Z geo e = bs @ te_rest I Z geo e' \<and> length bs \<le> sz \<and> te_slack I Z geo e' \<le> te_slack I Z geo e
    \<and> (te_rest I Z geo e' = [] \<or> sz < length bs + te_slack I Z geo e)"
    using te_take_ready [OF e1(2) t] te_ready_facts [OF te_take_ready(1) [OF e1(2) t], of I Z geo] by simp
next
  fix e :: "'i TiffEncoder"
  assume "te_ok I Z geo e"
  then obtain e1 h d where e1: "te_prepare I Z geo e = Some (Inr e1)" "te_ready h d e1" by (auto simp: te_ok_def)
  have "te_rest I Z geo e = te_left e1" "te_slack I Z geo e = max 1 (length h)"
    using e1 by (auto simp: te_rest_def te_slack_def te_prepared_def te_ready_def)
  then show "\<exists>n e'. st_getLength (tiff_stream I Z geo) e = Some (Inr (n, e')) \<and> te_ok I Z geo e'
    \<and> te_rest I Z geo e' = te_rest I Z geo e \<and> te_slack I Z geo e' \<le> te_slack I Z geo e"
    using te_ready_facts [OF e1(2), of I Z geo] by (simp add: tiff_stream_def te_getLength_def e1(1))
qed


text \<open>Once it is ready, \<open>eof\<close> can be asked as well; a buffer without bytes ends before the header.\<close>

definition te_filled :: "'i TiffEncoder \<Rightarrow> bool" where
  "te_filled e \<longleftrightarrow> (\<exists>h d. te_ready h d e \<and> d \<noteq> [])"

interpretation tiff_ready: ended_stream "tiff_stream I Z geo" te_filled te_left "\<lambda>e. max 1 (length (the (te_header e)))"
  for I :: "'i Image" and Z :: "'z zlib" and geo
proof
  fix e :: "'i TiffEncoder" and sz
  assume "te_filled e"
  then obtain h d where e: "te_ready h d e" "d \<noteq> []" by (auto simp: te_filled_def)
  obtain bs e' where t: "te_take e sz = (bs, e')" by (cases "te_take e sz")
  have "st_read (tiff_stream I Z geo) e sz = Some (Inr (bs, e'))"
    by (simp add: tiff_stream_def te_read_def te_prepare_ready [OF e(1)] t)
  moreover have "te_header e = Some h" "te_header e' = Some h"
    using e(1) te_take_ready(1) [OF e(1) t] by (simp_all add: te_ready_def)
  ultimately show "\<exists>bs e'. st_read (tiff_stream I Z geo) e sz = Some (Inr (bs, e')) \<and> te_filled e'
    \<and> te_left e = bs @ te_left e' \<and> length bs \<le> sz
    \<and> max 1 (length (the (te_header e'))) \<le> max 1 (length (the (te_header e)))
    \<and> (te_left e' = [] \<or> sz < length bs + max 1 (length (the (te_header e))))"
    using te_take_ready [OF e(1) t] e(2) by (auto simp: te_filled_def)
next
  fix e :: "'i TiffEncoder"
  assume "te_filled e"
  then obtain h d where e: "te_ready h d e" by (auto simp: te_filled_def)
  then show "\<exists>n e'. st_getLength (tiff_stream I Z geo) e = Some (Inr (n, e')) \<and> te_filled e' \<and> te_left e' = te_left e
    \<and> max 1 (length (the (te_header e'))) \<le> max 1 (length (the (te_header e)))"
    using \<open>te_filled e\<close> by (simp add: tiff_stream_def te_getLength_def te_prepare_ready [OF e])
next
  fix e :: "'i TiffEncoder"
  assume "te_filled e"
  then show "st_eof (tiff_stream I Z geo) e \<longleftrightarrow> te_left e = []"
    by (auto simp: te_filled_def te_ready_def tiff_stream_def te_eof_def te_tmpBufferSize_def te_left_def)
qed

text \<open>
  A TIFF encoder that was just made says it is at its end, since its buffer is empty until the
  first read. A \<open>BufferedDataSource\<close> asks for the end first, so the answer it collects is empty,
  whatever the image.
\<close>

theorem fresh_encoder_buffers_nothing:
  "BufferedDataSource_new (tiff_stream I Z geo) (TiffEncoder_new k T i g) = Some (Inr
     \<lparr>bd_type = (if g then ''image/geotiff'' else ''image/tiff''),
      bd_encoding = (if k = TiffDeflate then ''deflate'' else ''''), bd_httpStatus = 200,
      bd_data = [], bd_dataSize = 0, bd_ok = True\<rparr>)"
  by (simp add: BufferedDataSource_new_def buffered_loop.simps tiff_stream_def te_eof_def te_tmpBufferSize_def
      TiffEncoder_new_def te_getType_def te_getEncoding_def)

subsection \<open>An image as an answer\<close>

text \<open>The bytes of the strip; deflate fits into the first buffer.\<close>

definition tiff_strip :: "'z zlib \<Rightarrow> tiff_codec \<Rightarrow> nat \<Rightarrow> bytes list \<Rightarrow> bytes \<Rightarrow> bool" where
  "tiff_strip Z k linesize rows b \<longleftrightarrow>
     (case k of
        TiffRaw \<Rightarrow> raw_buffer rows = Inr b
      | TiffLZW \<Rightarrow> lzw_buffer rows = Inr b
      | TiffPackBits \<Rightarrow> pkb_buffer linesize rows = Inr b
      | TiffDeflate \<Rightarrow> deflate_all Z 6 (concat rows) (linesize * length rows * 2) = Some b)"

lemma image_lines_length: "image_lines G m ls i = (Some (Inr rows), i') \<Longrightarrow> length rows = length ls"
  by (induction ls arbitrary: i rows i') (auto split: prod.splits option.splits sum.splits if_splits)

lemma prepareBuffer_strip:
  assumes "image_lines (im_getline I (te_T e)) linesize [0..<im_height I (te_image e)] (te_image e) = (Some (Inr rows), i')"
    "linesize = im_width I (te_image e) * im_channels I (te_image e) * sizeof (te_T e)"
    "tiff_strip Z (te_codec e) linesize rows b"
  shows "prepareBuffer I Z e = Some (Inr (e\<lparr>te_image := i', te_tmpBuffer := Some b\<rparr>))"
proof (cases "te_codec e = TiffDeflate")
  case True
  have "length rows = im_height I (te_image e)" using image_lines_length [OF assms(1)] by simp
  then have m: "linesize * length rows * 2
      = im_width I (te_image e) * im_channels I (te_image e) * im_height I (te_image e) * 2 * sizeof (te_T e)"
    using assms(2) by simp
  have d: "deflate_all Z 6 (concat rows)
      (im_width I (te_image e) * im_channels I (te_image e) * im_height I (te_image e) * 2 * sizeof (te_T e)) = Some b"
    unfolding m [symmetric] using assms(3) True by (simp add: tiff_strip_def)
  show ?thesis using assms(1) [unfolded assms(2)] d True
    by (simp add: prepareBuffer_def Let_def deflate_buffer.simps [of Z "im_getline I (te_T e)"])
next
  case False
  then show ?thesis using assms
    by (cases "te_codec e") (auto simp: prepareBuffer_def tiff_strip_def)
qed

lemma te_prepare_new:
  assumes "image_lines (im_getline I T) linesize [0..<im_height I i] i = (Some (Inr rows), i')"
    "linesize = im_width I i * im_channels I i * sizeof T" "tiff_strip Z k linesize rows b"
    "im_width I i' = im_width I i" "im_height I i' = im_height I i" "im_channels I i' = im_channels I i"
    "has_header (codec_format k (T = F32)) (im_channels I i)" "T \<noteq> U16"
  shows "\<exists>e h. te_prepare I Z geo (TiffEncoder_new k T i False) = Some (Inr e)
    \<and> tiff_header_of (codec_format k (T = F32)) (im_channels I i) = Some h
    \<and> te_ready (filled h (int (im_width I i)) (int (im_height I i)) (length b)) b e \<and> te_line e = -1"
proof -
  let ?e = "TiffEncoder_new k T i False" and ?f = "codec_format k (T = F32)" and ?ch = "im_channels I i"
  let ?e1 = "?e\<lparr>te_image := i', te_tmpBuffer := Some b\<rparr>"
  have p: "prepareBuffer I Z ?e = Some (Inr ?e1)"
    using prepareBuffer_strip [of I ?e linesize rows i' Z b] assms(1-3) by (simp add: TiffEncoder_new_def)
  from constants_agree [OF assms(7)] obtain h where h: "tiff_header_of ?f ?ch = Some h" "length h = headerSize ?ch"
    by (auto simp: constant_says_def)
  have big: "118 \<le> length h" using header_size_big [OF assms(7)] h(2) by simp
  have "codec_format k (?ch = 1 \<and> sizeof T = 4) = ?f"
    using assms(7,8) by (cases T; cases k) (auto simp: has_header_def codec_format_def)
  then have eh: "encoder_header k T ?ch = Some h" using h(1) by (simp add: encoder_header_def)
  have r: "read_ptr (Some h) (headerSize ?ch) = Inr h" using h(2) by (auto simp: read_ptr_def)
  have s: "store_at 0 h (replicate (headerSize ?ch) None) = Inr (map Some h @ [])" using h(2) by (simp add: store_at_def)
  let ?h = "filled h (int (im_width I i)) (int (im_height I i)) (length b)"
  have "prepareHeader I ?e1 = Inr (?e1\<lparr>te_header := Some ?h\<rparr>)"
    using eh r s set_fields_filled [OF big, of "int (im_width I i)" "int (im_height I i)" "length b" "[]"] assms(4-6)
    by (simp add: prepareHeader_def TiffEncoder_new_def te_tmpBufferSize_def)
  then have "te_prepare I Z geo ?e = Some (Inr (?e1\<lparr>te_header := Some ?h\<rparr>))"
    using p by (simp add: te_prepare_def TiffEncoder_new_def)
  then show ?thesis using h(1) by (auto simp: te_ready_def TiffEncoder_new_def)
qed

lemma getTiffEncoder_format:
  "getTiffEncoder i f g = Some e \<Longrightarrow>
     e = TiffEncoder_new (te_codec e) (te_T e) i g \<and> codec_format (te_codec e) (te_T e = F32) = f \<and> te_T e \<noteq> U16"
  by (cases f) (auto simp: getTiffEncoder_def codec_format_def TiffEncoder_new_def)

lemma status_200: "genStatusHeader 200 = Inr (''Status: 200 OK'' @ crlf)"
proof -
  have "show_int 200 = ''200''" by code_simp
  then show ?thesis by (simp add: genStatusHeader_def getStatusCodeAsReasonPhrase_def)
qed

text \<open>
  C15: An image sent as TIFF, through the stream of its encoder: after the HTTP header the output
  gets a TIFF file, a header whose directory says size, compression, sample format and place of
  the strip, and the strip, which holds the compressed lines of the image. Reading stops after
  exactly these bytes. The format has to fit the number of channels of the image, and the image
  has to give its lines.
\<close>

theorem tiff_answer:
  assumes "puts_all pt content" "getTiffEncoder i f False = Some e" "has_header f (im_channels I i)"
    "image_lines (im_getline I (te_T e)) m [0..<im_height I i] i = (Some (Inr rows), i')"
    "m = im_width I i * im_channels I i * sizeof (te_T e)"
    "im_width I i' = im_width I i" "im_height I i' = im_height I i" "im_channels I i' = im_channels I i"
    "tiff_strip Z (te_codec e) m rows b"
  shows "\<exists>len out' hdr. sendresponse_stream pt (tiff_stream I Z geo) e out = Some (Inr (0, out'))
    \<and> content out' = content out
        @ map byte_of (concat (header_parts (''Status: 200 OK'' @ crlf) ''image/tiff'' '''' len)) @ hdr @ b
    \<and> length hdr = headerSize (im_channels I i)
    \<and> tiff_says (hdr @ b) (tiff_entries f (im_channels I i) (word_of_nat (im_width I i)) (word_of_nat (im_height I i))
         (word_of_nat (length hdr)) (word_of_nat (im_height I i)) (word_of_nat (length b)))"
proof -
  from getTiffEncoder_format [OF assms(2)] obtain k T where
    e: "e = TiffEncoder_new k T i False" "codec_format k (T = F32) = f" "T \<noteq> U16" by blast
  then have kt: "te_codec e = k" "te_T e = T" by (simp_all add: TiffEncoder_new_def)
  obtain e' h where p: "te_prepare I Z geo e = Some (Inr e')" "tiff_header_of f (im_channels I i) = Some h"
    "te_ready (filled h (int (im_width I i)) (int (im_height I i)) (length b)) b e'" "te_line e' = -1"
    using te_prepare_new [OF assms(4) [unfolded kt] assms(5) [unfolded kt] assms(9) [unfolded kt] assms(6-8) _ e(3), of geo]
      assms(3) e(1,2) by blast
  let ?hdr = "filled h (int (im_width I i)) (int (im_height I i)) (length b)"
  from constants_agree [OF assms(3)] p(2) have lh: "length h = headerSize (im_channels I i)"
    by (auto simp: constant_says_def)
  have big: "118 \<le> length h" using header_size_big [OF assms(3)] lh by simp
  have ok: "te_ok I Z geo e" using p by (auto simp: te_ok_def)
  have rest: "te_rest I Z geo e = ?hdr @ b" "te_slack I Z geo e = max 1 (length ?hdr)"
    using p by (auto simp: te_rest_def te_slack_def te_prepared_def te_ready_def te_left_def)
  have small: "te_slack I Z geo e \<le> chunk" using big lh by (simp add: rest(2) chunk_def headerSize_def)
  have st: "st_getHttpStatus (tiff_stream I Z geo) e = 200" "st_getType (tiff_stream I Z geo) e = ''image/tiff''"
    using e(1) by (simp_all add: tiff_stream_def te_getType_def TiffEncoder_new_def)
  obtain len out' where "sendresponse_stream pt (tiff_stream I Z geo) e out = Some (Inr (0, out'))"
    "content out' = content out
        @ map byte_of (concat (header_parts (''Status: 200 OK'' @ crlf) ''image/tiff'' '''' len)) @ ?hdr @ b"
    using tiff.stream_sent [OF assms(1) ok small] status_200 st rest(1) by metis
  moreover have "tiff_says (?hdr @ b) (tiff_entries f (im_channels I i) (word_of_nat (im_width I i)) (word_of_nat (im_height I i))
         (word_of_nat (length ?hdr)) (word_of_nat (im_height I i)) (word_of_nat (length b)))"
    using constant_filled(1) [OF assms(3) p(2), of "int (im_width I i)" "int (im_height I i)" "length b" b] big lh by simp
  moreover have "length ?hdr = headerSize (im_channels I i)" using big lh by simp
  ultimately show ?thesis by blast
qed

text \<open>The strips of the codecs that the repository holds always exist.\<close>

lemma strips_exist:
  "tiff_strip Z TiffRaw m rows (concat rows)"
  "(\<And>l. l \<in> set rows \<Longrightarrow> length l = m) \<Longrightarrow> \<exists>b. tiff_strip Z TiffPackBits m rows b \<and> length b \<le> 2 * m * length rows"
  "3 \<le> length (concat rows) \<Longrightarrow> \<exists>b. tiff_strip Z TiffLZW m rows b \<and> length b \<le> 2 * length (concat rows)"
proof -
  show "tiff_strip Z TiffRaw m rows (concat rows)" by (simp add: tiff_strip_def raw_buffer_def)
  show "\<exists>b. tiff_strip Z TiffPackBits m rows b \<and> length b \<le> 2 * m * length rows" if "\<And>l. l \<in> set rows \<Longrightarrow> length l = m"
    using pack_lines_ok [of rows m "[]" "m * length rows * 2"] that by (auto simp: tiff_strip_def pkb_buffer_def)
  show "\<exists>b. tiff_strip Z TiffLZW m rows b \<and> length b \<le> 2 * length (concat rows)" if "3 \<le> length (concat rows)"
    using lzw_encode_run [OF that] by (auto simp: tiff_strip_def lzw_buffer_def)
qed

text \<open>A line of two pixels as an image, and an output in memory.\<close>

definition two_pixels :: "unit Image" where
  "two_pixels = \<lparr>im_width = (\<lambda>_. 2), im_height = (\<lambda>_. 1), im_channels = (\<lambda>_. 1),
     im_getline = (\<lambda>T i l. (Some (Inr (2, [5, 6])), i))\<rparr>"

theorem tiff_answer_witness:
  "\<exists>len out' hdr e. getTiffEncoder () TIFF_RAW_INT8 False = Some e
    \<and> sendresponse_stream (\<lambda>b out. (int (length b), out @ b)) (tiff_stream two_pixels plain_zlib (\<lambda>i. Inr)) e []
        = Some (Inr (0, out'))
    \<and> out' = map byte_of (concat (header_parts (''Status: 200 OK'' @ crlf) ''image/tiff'' '''' len)) @ hdr @ [5, 6]
    \<and> length hdr = 134"
proof -
  have e: "getTiffEncoder () TIFF_RAW_INT8 False = Some (TiffEncoder_new TiffRaw U8 () False)"
    by (simp add: getTiffEncoder_def)
  have p: "puts_all (\<lambda>b out. (int (length b), out @ b)) (\<lambda>out. out)" by (simp add: puts_all_def)
  have h: "has_header TIFF_RAW_INT8 (im_channels two_pixels ())" by (simp add: has_header_def two_pixels_def)
  have l: "image_lines (im_getline two_pixels (te_T (TiffEncoder_new TiffRaw U8 () False))) 2 [0..<im_height two_pixels ()] ()
      = (Some (Inr [[5, 6]]), ())"
    by (simp add: two_pixels_def)
  have m: "2 = im_width two_pixels () * im_channels two_pixels () * sizeof (te_T (TiffEncoder_new TiffRaw U8 () False))"
    by (simp add: two_pixels_def TiffEncoder_new_def)
  have s: "tiff_strip plain_zlib (te_codec (TiffEncoder_new TiffRaw U8 () False)) 2 [[5, 6]] [5, 6]"
    by (simp add: tiff_strip_def raw_buffer_def TiffEncoder_new_def)
  obtain len out' hdr where
    "sendresponse_stream (\<lambda>b out. (int (length b), out @ b)) (tiff_stream two_pixels plain_zlib (\<lambda>i. Inr))
        (TiffEncoder_new TiffRaw U8 () False) [] = Some (Inr (0, out'))"
    "out' = [] @ map byte_of (concat (header_parts (''Status: 200 OK'' @ crlf) ''image/tiff'' '''' len)) @ hdr @ [5, 6]"
    "length hdr = headerSize (im_channels two_pixels ())"
    using tiff_answer [OF p e h l m refl refl refl s, of "\<lambda>i. Inr" "[]"] by blast
  then show ?thesis using e
    by (intro exI [of _ len] exI [of _ out'] exI [of _ hdr] exI conjI) (simp_all add: two_pixels_def headerSize_def)
qed

end
