(* ===== verification/Requests.thy ===== *)
theory Requests
  imports Responses
begin

text \<open>
  rok4server/Request.cpp and Request.h: a GET request. The query is decoded in the memory it came
  in, cut into keys and values, and the service and the request are found from the parameters or,
  where there are none, from the path.

  A \<open>char*\<close> is the list of the characters from where it points to the end of its memory, so the
  final 0 is one of them and a loop that passes it is seen. Characters are those of the C locale. A
  \<open>std::map\<close> of parameters is the list of its pairs with different keys, in the order of insertion.
\<close>

subsection \<open>Names\<close>

datatype eRequestType =
    REQUEST_UNKNOWN | REQUEST_MISSING | GETSERVICES | GETCAPABILITIES | GETLAYER
  | GETLAYERMETADATA | GETMAP | GETTILE | GETFEATUREINFO | GETVERSION

datatype eServiceType = SERVICE_UNKNOWN | SERVICE_MISSING | WMTS | WMS | TMS

text \<open>The enumerators as the numbers they have, which index the tables of names.\<close>

fun requesttype_index :: "eRequestType \<Rightarrow> nat" where
  "requesttype_index REQUEST_UNKNOWN = 0"
| "requesttype_index REQUEST_MISSING = 1"
| "requesttype_index GETSERVICES = 2"
| "requesttype_index GETCAPABILITIES = 3"
| "requesttype_index GETLAYER = 4"
| "requesttype_index GETLAYERMETADATA = 5"
| "requesttype_index GETMAP = 6"
| "requesttype_index GETTILE = 7"
| "requesttype_index GETFEATUREINFO = 8"
| "requesttype_index GETVERSION = 9"

fun servicetype_index :: "eServiceType \<Rightarrow> nat" where
  "servicetype_index SERVICE_UNKNOWN = 0"
| "servicetype_index SERVICE_MISSING = 1"
| "servicetype_index WMTS = 2"
| "servicetype_index WMS = 3"
| "servicetype_index TMS = 4"

definition requesttype_name :: "string list" where
  "requesttype_name =
     [''UNKNOWN'', ''MISSING'', ''GetServices'', ''GetCapabilities'', ''GetLayer'',
      ''GetLayerMetadata'', ''GetMap'', ''GetTile'', ''GetFeatureInfo'', ''GetVersion'']"

definition servicetype_name :: "string list" where
  "servicetype_name = [''MISSING'', ''UNKNOWN'', ''WMTS'', ''WMS'', ''TMS'']"

definition RequestType_toString :: "eRequestType \<Rightarrow> fault + string" where
  "RequestType_toString rt = elem requesttype_name (requesttype_index rt)"

definition ServiceType_toString :: "eServiceType \<Rightarrow> fault + string" where
  "ServiceType_toString st = elem servicetype_name (servicetype_index st)"

lemma service_names_swapped:
  "ServiceType_toString SERVICE_UNKNOWN = Inr ''MISSING''"
  "ServiceType_toString SERVICE_MISSING = Inr ''UNKNOWN''"
  by (simp_all add: ServiceType_toString_def servicetype_name_def elem_def)

subsection \<open>Decoding\<close>

definition hex2int :: "u8 \<Rightarrow> u8" where
  "hex2int hex =
     (let h = hex - 48;
          h = (if 9 < h then ((h + 48 - 1) OR 0x20) - 97 + 11 else h)
      in if 15 < h then 0xFF else h)"

definition is_hex :: "char \<Rightarrow> bool" where
  "is_hex c \<longleftrightarrow> hex2int (byte_of c) \<noteq> 0xFF"

text \<open>The character of two hexadecimal digits, with control characters mapped out.\<close>

definition unescape :: "char \<Rightarrow> char \<Rightarrow> char" where
  "unescape h l =
     (let high = push_bit 4 (hex2int (byte_of h)) OR hex2int (byte_of l)
      in char_of_byte (if high < 32 \<or> high = 127 then 95 else high))"

definition store_char :: "string \<Rightarrow> nat \<Rightarrow> char \<Rightarrow> fault + string" where
  "store_char buf i c = (if i < length buf then Inr (buf[i := c]) else Inl BufferOverflow)"

text \<open>\<open>*dst = '%'\<close> and, where two digits follow, \<open>*dst = high; src += 2\<close>: the memory and \<open>src\<close>.\<close>

definition decode_percent :: "string \<Rightarrow> nat \<Rightarrow> nat \<Rightarrow> fault + string \<times> nat" where
  "decode_percent buf src dst =
     bindR (store_char buf dst (CHR ''%'')) (\<lambda>buf. bindR (elem buf (src + 1)) (\<lambda>h.
       if \<not> is_hex h then Inr (buf, src)
       else bindR (elem buf (src + 2)) (\<lambda>l.
         if \<not> is_hex l then Inr (buf, src)
         else bindR (store_char buf dst (unescape h l)) (\<lambda>buf. Inr (buf, src + 2)))))"

lemma store_char_length: "store_char buf i c = Inr buf' \<Longrightarrow> length buf' = length buf"
  by (auto simp: store_char_def split: if_splits)

lemma decode_percent_moves:
  "decode_percent buf src dst = Inr (buf', src') \<Longrightarrow> length buf' = length buf \<and> src \<le> src'"
  by (auto simp: decode_percent_def bindR_Inr_iff store_char_length split: if_splits)

lemma map_sum_Inr_iff: "map_sum id f r = Inr b \<longleftrightarrow> (\<exists>a. r = Inr a \<and> f a = b)"
  by (cases r) auto

function (sequential) url_decode_loop :: "string \<Rightarrow> nat \<Rightarrow> nat \<Rightarrow> fault + string" where
  "url_decode_loop buf src dst =
     bindR (elem buf src) (\<lambda>c.
       if c = CHR 0x00 then store_char buf dst (CHR 0x00)
       else
         bindR (if c = CHR ''+'' then map_sum id (\<lambda>b. (b, src)) (store_char buf dst (CHR '' ''))
                else if c = CHR ''%'' then decode_percent buf src dst
                else map_sum id (\<lambda>b. (b, src)) (store_char buf dst c))
           (\<lambda>(buf', src'). url_decode_loop buf' (src' + 1) (dst + 1)))"
  by pat_completeness auto

termination
proof (relation "measure (\<lambda>(buf, src, dst). length buf - src)", goal_cases)
  case (2 buf src dst c p buf' src')
  then have "src < length buf" "length buf' = length buf" "src \<le> src'"
    by (auto simp: elem_def map_sum_Inr_iff store_char_length dest: decode_percent_moves split: if_splits)
  then show ?case by simp
qed simp

definition url_decode :: "string \<Rightarrow> fault + string" where
  "url_decode buf = url_decode_loop buf 0 0"

declare url_decode_loop.simps [simp del]

subsubsection \<open>What decoding gives\<close>

fun decoded :: "string \<Rightarrow> string" where
  "decoded [] = []"
| "decoded (c # cs) =
     (if c = CHR ''+'' then CHR '' '' # decoded cs
      else if c = CHR ''%'' then
        (case cs of h # l # r \<Rightarrow> if is_hex h \<and> is_hex l then unescape h l # decoded r else c # decoded cs
         | _ \<Rightarrow> c # decoded cs)
      else c # decoded cs)"

lemma nul_no_hex: "\<not> is_hex (CHR 0x00)"
  by (simp add: is_hex_def hex2int_def byte_of_def)

lemma store_front:
  "store_char (out @ gap @ c # r) (length out) x = Inr (out @ x # tl (gap @ [c]) @ r)"
  by (cases gap) (simp_all add: store_char_def)

lemma elem_at: "elem (out @ gap @ r) (length out + length gap + k) = elem r k"
  by (auto simp: elem_def nth_append)

lemma elem_hd: "elem (c # r) 0 = Inr c"
  by (simp add: elem_def)

lemma decode_percent_decoded:
  assumes "CHR 0x00 \<notin> set cs"
  shows "\<exists>x gap' r. decode_percent (out @ gap @ CHR ''%'' # cs @ CHR 0x00 # rest) (length out + length gap) (length out)
      = Inr (out @ x # gap' @ r @ CHR 0x00 # rest, length out + length gap')
    \<and> decoded (CHR ''%'' # cs) = x # decoded r
    \<and> length r \<le> length cs \<and> set r \<subseteq> set cs"
proof -
  let ?gap = "tl (gap @ [CHR ''%''])" and ?r = "cs @ CHR 0x00 # rest"
  have s: "store_char (out @ gap @ CHR ''%'' # ?r) (length out) (CHR ''%'') = Inr (out @ CHR ''%'' # ?gap @ ?r)"
    by (rule store_front)
  have g: "length ?gap = length gap" by simp
  have e1: "elem (out @ CHR ''%'' # ?gap @ ?r) (length out + length gap + 1) = elem ?r 0"
    using elem_at [of "out @ [CHR ''%'']" ?gap ?r 0] g by (simp add: add.commute add.left_commute)
  have e2: "elem (out @ CHR ''%'' # ?gap @ ?r) (length out + length gap + 2) = elem ?r 1"
    using elem_at [of "out @ [CHR ''%'']" ?gap ?r 1] g by (simp add: add.commute add.left_commute)
  show ?thesis
  proof (cases "\<exists>h l r. cs = h # l # r \<and> is_hex h \<and> is_hex l")
    case True
    then obtain h l r where cs: "cs = h # l # r" "is_hex h" "is_hex l" by blast
    have "store_char (out @ CHR ''%'' # ?gap @ ?r) (length out) (unescape h l)
        = Inr (out @ unescape h l # ?gap @ ?r)"
      by (simp add: store_char_def)
    then have "decode_percent (out @ gap @ CHR ''%'' # ?r) (length out + length gap) (length out)
        = Inr (out @ unescape h l # ?gap @ ?r, length out + length gap + 2)"
      unfolding decode_percent_def s using cs e1 e2 by (simp add: elem_def)
    moreover have "?gap @ ?r = (?gap @ [h, l]) @ r @ CHR 0x00 # rest" using cs by simp
    moreover have "length (?gap @ [h, l]) = length gap + 2" using g by simp
    ultimately show ?thesis using cs
      by (intro exI [of _ "unescape h l"] exI [of _ "?gap @ [h, l]"] exI [of _ r]) auto
  next
    case False
    have "decode_percent (out @ gap @ CHR ''%'' # ?r) (length out + length gap) (length out)
        = Inr (out @ CHR ''%'' # ?gap @ ?r, length out + length gap)"
    proof (cases "\<exists>h r. cs = h # r \<and> is_hex h")
      case True
      then obtain h r where cs: "cs = h # r" "is_hex h" by blast
      have "\<exists>l. elem ?r 1 = Inr l \<and> \<not> is_hex l"
        using False cs nul_no_hex by (cases r) (auto simp: elem_def)
      then show ?thesis unfolding decode_percent_def s using cs e1 e2 by (auto simp: elem_def)
    next
      case no: False
      then have "\<exists>h. elem ?r 0 = Inr h \<and> \<not> is_hex h"
        using nul_no_hex by (cases cs) (auto simp: elem_def)
      then show ?thesis unfolding decode_percent_def s using e1 by auto
    qed
    moreover have "decoded (CHR ''%'' # cs) = CHR ''%'' # decoded cs"
      using False by (subst decoded.simps) (auto simp del: decoded.simps split: list.splits)
    moreover have "out @ CHR ''%'' # ?gap @ ?r = out @ CHR ''%'' # ?gap @ cs @ CHR 0x00 # rest"
      "length out + length gap = length out + length ?gap" using g by simp_all
    ultimately show ?thesis by (metis order_refl subset_refl)
  qed
qed

lemma url_decode_loop_decoded:
  assumes "CHR 0x00 \<notin> set cs"
  shows "\<exists>junk. url_decode_loop (out @ gap @ cs @ CHR 0x00 # rest) (length out + length gap) (length out)
      = Inr (out @ decoded cs @ CHR 0x00 # junk)"
  using assms
proof (induction "length cs" arbitrary: cs out gap rest rule: less_induct)
  case less
  have pull: "\<exists>junk. url_decode_loop ((out @ [x]) @ gap' @ r @ CHR 0x00 # rest)
        (length (out @ [x]) + length gap') (length (out @ [x])) = Inr ((out @ [x]) @ decoded r @ CHR 0x00 # junk)"
    if "length r < length cs" "set r \<subseteq> set cs" for x gap' r
    using that less.prems by (intro less.hyps) auto
  show ?case
  proof (cases cs)
    case Nil
    then show ?thesis
      using store_front [of out gap "CHR 0x00" rest "CHR 0x00"] elem_at [of out gap "CHR 0x00 # rest" 0]
      by (subst url_decode_loop.simps) (simp add: elem_hd)
  next
    case (Cons c r)
    have e: "elem (out @ gap @ c # r @ CHR 0x00 # rest) (length out + length gap) = Inr c"
      using elem_at [of out gap "c # r @ CHR 0x00 # rest" 0] by (simp add: elem_hd)
    have c: "c \<noteq> CHR 0x00" using less.prems Cons by auto
    show ?thesis
    proof (cases "c = CHR ''%''")
      case True
      obtain x gap' r' where
        d: "decode_percent (out @ gap @ CHR ''%'' # r @ CHR 0x00 # rest) (length out + length gap) (length out)
          = Inr (out @ x # gap' @ r' @ CHR 0x00 # rest, length out + length gap')"
        "decoded (CHR ''%'' # r) = x # decoded r'"
        "length r' \<le> length r" "set r' \<subseteq> set r"
        using decode_percent_decoded [of r out gap rest] less.prems Cons by auto
      then have "length r' < length cs" "set r' \<subseteq> set cs" using Cons by auto
      from pull [OF this, of x gap'] obtain junk where
        "url_decode_loop (out @ x # gap' @ r' @ CHR 0x00 # rest) (length out + length gap' + 1) (length out + 1)
          = Inr (out @ x # decoded r' @ CHR 0x00 # junk)" by auto
      moreover have "url_decode_loop (out @ gap @ cs @ CHR 0x00 # rest) (length out + length gap) (length out)
          = url_decode_loop (out @ x # gap' @ r' @ CHR 0x00 # rest) (length out + length gap' + 1) (length out + 1)"
        using e c d(1) unfolding True Cons by (subst url_decode_loop.simps) simp
      ultimately show ?thesis using d(2) unfolding True Cons by (intro exI [of _ junk]) simp
    next
      case False
      let ?x = "if c = CHR ''+'' then CHR '' '' else c"
      have len: "length (tl (gap @ [c])) = length gap" by simp
      have d: "decoded cs = ?x # decoded r" using Cons False by simp
      from pull [of r ?x "tl (gap @ [c])"] len Cons obtain junk where
        "url_decode_loop (out @ ?x # tl (gap @ [c]) @ r @ CHR 0x00 # rest) (length out + length gap + 1) (length out + 1)
          = Inr (out @ ?x # decoded r @ CHR 0x00 # junk)" by auto
      moreover have "url_decode_loop (out @ gap @ cs @ CHR 0x00 # rest) (length out + length gap) (length out)
          = url_decode_loop (out @ ?x # tl (gap @ [c]) @ r @ CHR 0x00 # rest) (length out + length gap + 1) (length out + 1)"
        using e c False unfolding Cons
        by (subst url_decode_loop.simps) (cases "c = CHR ''+''"; simp add: store_front)
      ultimately show ?thesis unfolding d by (intro exI [of _ junk]) simp
    qed
  qed
qed


text \<open>
  C: \<open>Request::url_decode\<close> works in the memory of the query: for every query that ends
  with a 0 it reads and writes nothing behind that 0, ends, and leaves the decoded text, with a 0
  behind it, at the start of the memory.
\<close>

text \<open>
  C10: \<open>Request::url_decode\<close> works in the memory of the query: for every query that ends
  with a 0 it reads and writes nothing behind that 0, ends, and leaves the decoded text, with a 0
  behind it, at the start of the memory.
\<close>

theorem url_decode_in_place:
  assumes "CHR 0x00 \<notin> set cs"
  shows "\<exists>junk. url_decode (cs @ CHR 0x00 # rest) = Inr (decoded cs @ CHR 0x00 # junk)"
  using url_decode_loop_decoded [OF assms, of "[]" "[]" rest] by (simp add: url_decode_def)

theorem url_decode_in_place_witness:
  "\<exists>junk. url_decode (''a+%41%zz'' @ CHR 0x00 # ''rest'') = Inr (decoded ''a+%41%zz'' @ CHR 0x00 # junk)"
  by (rule url_decode_in_place) simp

definition control :: "char \<Rightarrow> bool" where
  "control c \<longleftrightarrow> (of_char c :: nat) < 32 \<or> (of_char c :: nat) = 127"

lemma of_char_of_byte [simp]: "(of_char (char_of_byte b) :: nat) = unat b"
  using unsigned_less [of b, where ?'a = nat] by (simp add: char_of_byte_def)

lemma unescape_printable: "\<not> control (unescape h l)"
  by (auto simp: control_def unescape_def Let_def word_less_nat_alt dest: arg_cong [of _ _ "word_of_nat :: nat \<Rightarrow> u8"])

lemma decoded_step:
  "\<exists>x r. decoded (c # cs) = x # decoded r \<and> (x = c \<or> \<not> control x) \<and> length r \<le> length cs \<and> set r \<subseteq> set cs"
proof (cases "c = CHR ''%'' \<and> (\<exists>h l r. cs = h # l # r \<and> is_hex h \<and> is_hex l)")
  case True
  then obtain h l r where "c = CHR ''%''" "cs = h # l # r" "is_hex h" "is_hex l" by blast
  then show ?thesis using unescape_printable
    by (intro exI [of _ "unescape h l"] exI [of _ r]) auto
next
  case False
  then have "decoded (c # cs) = (if c = CHR ''+'' then CHR '' '' else c) # decoded cs"
    by (subst decoded.simps) (auto simp del: decoded.simps split: list.splits)
  then show ?thesis
    by (intro exI [of _ "if c = CHR ''+'' then CHR '' '' else c"] exI [of _ cs]) (simp add: control_def)
qed

lemma decoded_printable: "set (decoded cs) \<subseteq> set cs \<union> {c. \<not> control c}"
proof (induction "length cs" arbitrary: cs rule: less_induct)
  case less
  show ?case
  proof (cases cs)
    case (Cons c r)
    obtain x r' where r: "decoded (c # r) = x # decoded r'" "x = c \<or> \<not> control x"
      "length r' \<le> length r" "set r' \<subseteq> set r" using decoded_step [of c r] by blast
    then have "set (decoded r') \<subseteq> set r' \<union> {c. \<not> control c}" using less [of r'] Cons by simp
    with r Cons show ?thesis by auto
  qed simp
qed

lemma decoded_shorter: "length (decoded cs) \<le> length cs"
proof (induction "length cs" arbitrary: cs rule: less_induct)
  case less
  show ?case
  proof (cases cs)
    case (Cons c r)
    obtain x r' where "decoded (c # r) = x # decoded r'" "length r' \<le> length r"
      using decoded_step [of c r] by auto
    with less [of r'] Cons show ?thesis by simp
  qed simp
qed

subsubsection \<open>Percent encoding\<close>

definition hexdigit :: "nat \<Rightarrow> char" where
  "hexdigit n = char_of (if n < 10 then 48 + n else 55 + n)"

definition escape :: "string \<Rightarrow> string" where
  "escape s = concat (map (\<lambda>c. [CHR ''%'', hexdigit (of_char c div 16), hexdigit (of_char c mod 16)]) s)"

lemma hex2int_hexdigit: "n < 16 \<Longrightarrow> hex2int (byte_of (hexdigit n)) = word_of_nat n"
proof -
  have "\<forall>k\<in>set [0..<16]. hex2int (byte_of (hexdigit k)) = word_of_nat k"
    by (simp add: upt_rec hex2int_def byte_of_def hexdigit_def)
  moreover assume "n < 16"
  ultimately show ?thesis by simp
qed

lemma is_hex_hexdigit: "n < 16 \<Longrightarrow> is_hex (hexdigit n)"
  by (simp add: is_hex_def hex2int_hexdigit) (simp add: word_unat_eq_iff unat_of_nat)

lemma two_digits:
  assumes "h < 16" "l < 16"
  shows "push_bit 4 (word_of_nat h) OR word_of_nat l = (word_of_nat (16 * h + l) :: u8)"
proof -
  have "take_bit 4 l = l" using assms by (simp add: take_bit_nat_eq_self)
  then have "bit l n \<Longrightarrow> \<not> 4 \<le> n" for n by (metis bit_take_bit_iff not_le)
  then have "push_bit 4 (word_of_nat h) + word_of_nat l = (push_bit 4 (word_of_nat h) OR word_of_nat l :: u8)"
    by (intro disjunctive_add) (auto simp: bit_simps)
  then have "push_bit 4 (word_of_nat h) OR word_of_nat l = (push_bit 4 (word_of_nat h) + word_of_nat l :: u8)"
    by simp
  then show ?thesis by (simp add: push_bit_eq_mult)
qed

lemma unescape_escape:
  assumes "\<not> control c"
  shows "unescape (hexdigit (of_char c div 16)) (hexdigit (of_char c mod 16)) = c"
proof -
  let ?n = "of_char c :: nat"
  have n: "?n < 256" "?n div 16 < 16"
    by (simp, rule less_mult_imp_div_less, simp)
  have "push_bit 4 (word_of_nat (?n div 16)) OR word_of_nat (?n mod 16) = (word_of_nat ?n :: u8)"
    using two_digits [of "?n div 16" "?n mod 16"] n by simp
  moreover have "\<not> word_of_nat ?n < (32 :: u8)" "(word_of_nat ?n :: u8) \<noteq> 127"
    using assms n unfolding control_def
    by (auto simp: word_less_nat_alt word_unat_eq_iff unat_of_nat take_bit_eq_mod)
  ultimately show ?thesis
    using n by (simp add: unescape_def hex2int_hexdigit) (metis byte_of_def char_of_byte_of)
qed

lemma decoded_hex: "is_hex h \<Longrightarrow> is_hex l \<Longrightarrow> decoded (CHR ''%'' # h # l # r) = unescape h l # decoded r"
  by simp

lemma decoded_escape: "\<forall>c\<in>set s. \<not> control c \<Longrightarrow> decoded (escape s @ t) = s @ decoded t"
proof (induction s)
  case (Cons c s)
  have "(of_char c :: nat) div 16 < 16" by (rule less_mult_imp_div_less) simp
  then show ?case using Cons
    by (simp add: escape_def is_hex_hexdigit decoded_hex unescape_escape del: decoded.simps)
qed (simp add: escape_def)


subsection \<open>Keys and values\<close>

type_synonym params = "(string \<times> string) list"

text \<open>\<open>std::map::insert\<close>: a key that is there keeps its value.\<close>

definition insert_param :: "string \<Rightarrow> string \<Rightarrow> params \<Rightarrow> params" where
  "insert_param k v ps = (if map_of ps k = None then ps @ [(k, v)] else ps)"

definition toLowerCase :: "string \<Rightarrow> string" where
  "toLowerCase str = map tolower str"

definition containForbiddenChars :: "string \<Rightarrow> bool" where
  "containForbiddenChars str \<longleftrightarrow> list_ex (\<lambda>c. c \<in> set str) ''<>''"

definition key_end :: "char \<Rightarrow> bool" where
  "key_end c \<longleftrightarrow> c = CHR ''='' \<or> c = CHR ''&''"

text \<open>
  One key and its value, cut off the front of the query: the key ends at the first \<open>=\<close> or \<open>&\<close>, the
  value at the next \<open>&\<close>, and what is left begins behind it.
\<close>

definition next_pair :: "string \<Rightarrow> string \<times> string \<times> string" where
  "next_pair q =
     (let key = takeWhile (\<lambda>c. \<not> key_end c) q;
          val = dropWhile (\<lambda>c. \<not> key_end c) q;
          v = takeWhile (\<lambda>c. c \<noteq> CHR ''&'') val
      in (key, if val \<noteq> [] \<and> hd val = CHR ''='' then tl v else v,
          tl (dropWhile (\<lambda>c. c \<noteq> CHR ''&'') val)))"

lemma tl_dropWhile_shorter: "s \<noteq> [] \<Longrightarrow> length t \<le> length s \<Longrightarrow> length (tl (dropWhile P t)) < length s"
  using length_dropWhile_le [of P t] length_greater_0_conv [of s] unfolding length_tl by linarith

lemma next_pair_shorter: "q \<noteq> [] \<Longrightarrow> next_pair q = (k, v, r) \<Longrightarrow> length r < length q"
  by (auto simp: next_pair_def Let_def intro!: tl_dropWhile_shorter length_dropWhile_le)

function (sequential) parse_pairs :: "string \<Rightarrow> params \<Rightarrow> params" where
  "parse_pairs q ps =
     (if q = [] then ps
      else case next_pair q of (key, value, rest) \<Rightarrow>
        parse_pairs rest (insert_param (toLowerCase key) value ps))"
  by pat_completeness auto
termination
  by (relation "measure (\<lambda>(q, ps). length q)") (auto dest!: sym [of _ "next_pair _"] dest: next_pair_shorter)

declare parse_pairs.simps [simp del]

definition query_params :: "string \<Rightarrow> fault + params" where
  "query_params strquery = map_sum id (\<lambda>s. parse_pairs (c_str s) []) (url_decode strquery)"

subsection \<open>Requests\<close>

record Request =
  rq_hostName :: string
  rq_path :: string
  rq_scheme :: string
  rq_request :: eRequestType
  rq_service :: eServiceType
  rq_params :: params

definition hasParam :: "Request \<Rightarrow> string \<Rightarrow> bool" where
  "hasParam r paramName \<longleftrightarrow> map_of (rq_params r) paramName \<noteq> None"

definition getParam :: "Request \<Rightarrow> string \<Rightarrow> string" where
  "getParam r paramName = (case map_of (rq_params r) paramName of None \<Rightarrow> '''' | Some v \<Rightarrow> v)"

text \<open>\<open>while (std::getline (ss, token, delim))\<close>: a string that ends with the delimiter has no
  empty part behind it.\<close>

function (sequential) getline_parts :: "char \<Rightarrow> string \<Rightarrow> string list" where
  "getline_parts d s =
     (if s = [] then []
      else takeWhile (\<lambda>c. c \<noteq> d) s # getline_parts d (tl (dropWhile (\<lambda>c. c \<noteq> d) s)))"
  by pat_completeness auto
termination
  by (relation "measure (\<lambda>(d, s). length s)")
    (simp_all only: in_measure case_prod_conv wf_measure tl_dropWhile_shorter order_refl not_False_eq_True)

declare getline_parts.simps [simp del]

text \<open>The parts of a path, and the place of the last one that is the version, or -1.\<close>

definition version_step :: "string \<Rightarrow> int \<times> string list \<Rightarrow> int \<times> string list" where
  "version_step token s =
     (case s of (pos, parts) \<Rightarrow> (if token = ''1.0.0'' then int (length parts) else pos, parts @ [token]))"

definition tms_parts :: "string \<Rightarrow> int \<times> string list" where
  "tms_parts path = fold version_step (getline_parts (CHR ''/'') path) (-1, [])"

text \<open>\<open>tmsVersionPos == pathParts.size() - k\<close>, in the unsigned arithmetic of \<open>size_t\<close>.\<close>

definition pos_is_size_minus :: "int \<Rightarrow> string list \<Rightarrow> int \<Rightarrow> bool" where
  "pos_is_size_minus pos parts k \<longleftrightarrow> pos mod 2 ^ 64 = (int (length parts) - k) mod 2 ^ 64"

definition tms_request :: "string \<Rightarrow> eRequestType" where
  "tms_request path =
     (case tms_parts path of (pos, parts) \<Rightarrow>
        if pos = - 1 then GETSERVICES
        else if pos_is_size_minus pos parts 1 then GETCAPABILITIES
        else if pos_is_size_minus pos parts 2 then GETLAYER
        else if pos_is_size_minus pos parts 3 \<and> last parts = ''metadata.json'' then GETLAYERMETADATA
        else if pos_is_size_minus pos parts 5 then GETTILE
        else REQUEST_UNKNOWN)"

definition determineService :: "Request \<Rightarrow> Request" where
  "determineService r =
     (case map_of (rq_params r) ''service'' of
        None \<Rightarrow> if rq_params r = [] then r\<lparr>rq_service := TMS\<rparr> else r
      | Some v \<Rightarrow>
          let str_service = map tolower v
          in if str_service = ''wms'' then r\<lparr>rq_service := WMS\<rparr>
             else if str_service = ''wmts'' then r\<lparr>rq_service := WMTS\<rparr>
             else if str_service \<noteq> '''' then r\<lparr>rq_service := SERVICE_UNKNOWN\<rparr>
             else r)"

definition determineRequest :: "Request \<Rightarrow> Request" where
  "determineRequest r =
     (case map_of (rq_params r) ''request'' of
        None \<Rightarrow>
          if rq_params r = [] \<and> rq_service r = TMS then r\<lparr>rq_request := tms_request (rq_path r)\<rparr> else r
      | Some v \<Rightarrow>
          let str_request = map tolower v; service = rq_service r
          in if str_request = ''getmap'' \<or> str_request = ''map'' then
               if service = SERVICE_MISSING \<or> service = WMS
               then r\<lparr>rq_service := WMS, rq_request := GETMAP\<rparr> else r\<lparr>rq_request := REQUEST_UNKNOWN\<rparr>
             else if str_request = ''gettile'' then
               if service \<noteq> WMTS then r\<lparr>rq_request := REQUEST_UNKNOWN\<rparr> else r\<lparr>rq_request := GETTILE\<rparr>
             else if str_request = ''getfeatureinfo'' then
               if service \<noteq> WMS \<and> service \<noteq> WMTS then r\<lparr>rq_request := REQUEST_UNKNOWN\<rparr>
               else r\<lparr>rq_request := GETFEATUREINFO\<rparr>
             else if str_request = ''getcapabilities'' \<or> str_request = ''capabilities'' then
               if service \<noteq> WMTS \<and> service \<noteq> WMS then r\<lparr>rq_request := REQUEST_UNKNOWN\<rparr>
               else r\<lparr>rq_request := GETCAPABILITIES\<rparr>
             else if str_request = ''getversion'' then
               if service \<noteq> WMTS \<and> service \<noteq> WMS then r\<lparr>rq_request := REQUEST_UNKNOWN\<rparr>
               else r\<lparr>rq_request := GETVERSION\<rparr>
             else if str_request \<noteq> '''' then r\<lparr>rq_request := REQUEST_UNKNOWN\<rparr>
             else r)"

definition determineServiceAndRequest :: "Request \<Rightarrow> Request" where
  "determineServiceAndRequest r = determineRequest (determineService r)"

text \<open>A \<open>std::string\<close> from a \<open>char*\<close>, which may be null.\<close>

definition string_of_ptr :: "string option \<Rightarrow> fault + string" where
  "string_of_ptr p = (case p of None \<Rightarrow> Inl NullPointer | Some s \<Rightarrow> Inr s)"

definition scheme_of :: "string option \<Rightarrow> string" where
  "scheme_of https =
     (if https = Some ''on'' \<or> https = Some ''ON'' then ''https://'' else ''http://'')"

definition fresh_request :: "string option \<Rightarrow> string option \<Rightarrow> string option \<Rightarrow> fault + Request" where
  "fresh_request hostName path https =
     bindR (string_of_ptr hostName) (\<lambda>h. bindR (string_of_ptr path) (\<lambda>p. Inr
       \<lparr>rq_hostName = h, rq_path = p, rq_scheme = scheme_of https,
        rq_request = REQUEST_MISSING, rq_service = SERVICE_MISSING, rq_params = []\<rparr>))"

definition Request_get ::
    "string option \<Rightarrow> string option \<Rightarrow> string option \<Rightarrow> string option \<Rightarrow> fault + Request" where
  "Request_get strquery hostName path https =
     bindR (fresh_request hostName path https) (\<lambda>r. bindR (string_of_ptr strquery) (\<lambda>q.
       bindR (query_params q) (\<lambda>ps. Inr (determineServiceAndRequest (r\<lparr>rq_params := ps\<rparr>)))))"


subsection \<open>Services and their requests\<close>

text \<open>The requests a service can be found with.\<close>

fun allowed :: "eServiceType \<Rightarrow> eRequestType \<Rightarrow> bool" where
  "allowed WMTS rt \<longleftrightarrow>
     rt \<in> {GETTILE, GETFEATUREINFO, GETCAPABILITIES, GETVERSION, REQUEST_UNKNOWN, REQUEST_MISSING}"
| "allowed WMS rt \<longleftrightarrow>
     rt \<in> {GETMAP, GETFEATUREINFO, GETCAPABILITIES, GETVERSION, REQUEST_UNKNOWN, REQUEST_MISSING}"
| "allowed TMS rt \<longleftrightarrow>
     rt \<in> {GETSERVICES, GETCAPABILITIES, GETLAYER, GETLAYERMETADATA, GETTILE, REQUEST_UNKNOWN}"
| "allowed SERVICE_UNKNOWN rt \<longleftrightarrow> rt \<in> {REQUEST_UNKNOWN, REQUEST_MISSING}"
| "allowed SERVICE_MISSING rt \<longleftrightarrow> rt \<in> {REQUEST_UNKNOWN, REQUEST_MISSING}"

lemma tms_request_allowed: "allowed TMS (tms_request path)"
  by (simp add: tms_request_def split: prod.split)

lemma determineService_params [simp]:
  "rq_params (determineService r) = rq_params r" "rq_request (determineService r) = rq_request r"
  "rq_path (determineService r) = rq_path r"
  by (simp_all add: determineService_def Let_def split: option.split)

lemma determineRequest_params [simp]: "rq_params (determineRequest r) = rq_params r"
  by (simp add: determineRequest_def Let_def split: option.split)

lemma determineService_service:
  assumes "rq_service r = SERVICE_MISSING"
  shows "rq_service (determineService r) = TMS \<longleftrightarrow> rq_params r = []"
  using assms by (auto simp: determineService_def Let_def split: option.split)

lemma determineRequest_TMS:
  "rq_params r = [] \<Longrightarrow> rq_service r = TMS \<Longrightarrow> determineRequest r = r\<lparr>rq_request := tms_request (rq_path r)\<rparr>"
  by (simp add: determineRequest_def)

lemma determineRequest_allowed:
  assumes "rq_service r \<noteq> TMS" "rq_request r = REQUEST_MISSING"
  shows "allowed (rq_service (determineRequest r)) (rq_request (determineRequest r))
    \<and> rq_service (determineRequest r) \<noteq> TMS"
  using assms
  by (cases "rq_service r") (auto simp: determineRequest_def Let_def split: option.split)

lemma determined_allowed:
  "allowed (rq_service (determineServiceAndRequest (r\<lparr>rq_service := SERVICE_MISSING, rq_request := REQUEST_MISSING\<rparr>)))
     (rq_request (determineServiceAndRequest (r\<lparr>rq_service := SERVICE_MISSING, rq_request := REQUEST_MISSING\<rparr>)))
   \<and> (rq_service (determineServiceAndRequest (r\<lparr>rq_service := SERVICE_MISSING, rq_request := REQUEST_MISSING\<rparr>)) = TMS
      \<longleftrightarrow> rq_params r = [])"
proof -
  let ?r = "r\<lparr>rq_service := SERVICE_MISSING, rq_request := REQUEST_MISSING\<rparr>"
  show ?thesis
  proof (cases "rq_params r = []")
    case True
    then have "rq_service (determineService ?r) = TMS" by (simp add: determineService_service)
    with True have "determineServiceAndRequest ?r
        = (determineService ?r)\<lparr>rq_request := tms_request (rq_path (determineService ?r))\<rparr>"
      unfolding determineServiceAndRequest_def by (intro determineRequest_TMS) simp_all
    with True \<open>rq_service (determineService ?r) = TMS\<close> show ?thesis
      using tms_request_allowed by (simp del: allowed.simps)
  next
    case False
    then have "rq_service (determineService ?r) \<noteq> TMS" by (simp add: determineService_service)
    from determineRequest_allowed [OF this] False show ?thesis
      by (simp add: determineServiceAndRequest_def del: allowed.simps)
  qed
qed

subsection \<open>What a query is read to\<close>

definition well_formed_params :: "params \<Rightarrow> bool" where
  "well_formed_params ps \<longleftrightarrow> distinct (map fst ps) \<and>
     (\<forall>(k, v) \<in> set ps. toLowerCase k = k \<and> (\<forall>c\<in>set k. \<not> key_end c \<and> \<not> control c)
        \<and> (\<forall>c\<in>set v. c \<noteq> CHR ''&'' \<and> \<not> control c))"

lemma tolower_tolower [simp]: "tolower (tolower c) = tolower c"
  by (simp add: tolower_def)

lemma tolower_plain: "tolower c = c \<or> 97 \<le> (of_char (tolower c) :: nat) \<and> (of_char (tolower c) :: nat) \<le> 122"
  by (auto simp: tolower_def)

lemma tolower_not_special: "\<not> key_end c \<Longrightarrow> \<not> control c \<Longrightarrow> \<not> key_end (tolower c) \<and> \<not> control (tolower c)"
  using tolower_plain [of c] by (auto simp: key_end_def control_def)

lemma well_formed_insert:
  assumes "well_formed_params ps" "\<forall>c\<in>set k. \<not> key_end c \<and> \<not> control c"
    "\<forall>c\<in>set v. c \<noteq> CHR ''&'' \<and> \<not> control c"
  shows "well_formed_params (insert_param (toLowerCase k) v ps)"
  using assms tolower_not_special
  by (auto simp: well_formed_params_def insert_param_def toLowerCase_def map_of_eq_None_iff image_iff comp_def)

lemma next_pair_parts:
  assumes "next_pair q = (k, v, r)"
  shows "set k \<union> set v \<union> set r \<subseteq> set q" "\<forall>c\<in>set k. \<not> key_end c" "CHR ''&'' \<notin> set v"
proof -
  let ?val = "dropWhile (\<lambda>c. \<not> key_end c) q"
  have s: "set (tl xs) \<subseteq> set xs" for xs :: string by (cases xs) auto
  have d: "set ?val \<subseteq> set q" by (auto dest: set_dropWhileD)
  have v: "v = takeWhile (\<lambda>c. c \<noteq> CHR ''&'') ?val \<or> v = tl (takeWhile (\<lambda>c. c \<noteq> CHR ''&'') ?val)"
    and k: "k = takeWhile (\<lambda>c. \<not> key_end c) q"
    and r: "r = tl (dropWhile (\<lambda>c. c \<noteq> CHR ''&'') ?val)"
    using assms by (auto simp: next_pair_def Let_def split: if_splits)
  then have v': "set v \<subseteq> set (takeWhile (\<lambda>c. c \<noteq> CHR ''&'') ?val)" using s by auto
  then show "CHR ''&'' \<notin> set v" by (auto dest: set_takeWhileD)
  show "\<forall>c\<in>set k. \<not> key_end c" unfolding k by (auto dest: set_takeWhileD)
  have "set v \<subseteq> set q" using v' d by (auto dest: set_takeWhileD)
  moreover have "set k \<subseteq> set q" unfolding k by (auto dest: set_takeWhileD)
  moreover have "set r \<subseteq> set q" unfolding r using s d by (blast dest: set_dropWhileD)
  ultimately show "set k \<union> set v \<union> set r \<subseteq> set q" by blast
qed

lemma parse_pairs_well_formed:
  "well_formed_params ps \<Longrightarrow> \<forall>c\<in>set q. \<not> control c \<Longrightarrow> well_formed_params (parse_pairs q ps)"
proof (induction q ps rule: parse_pairs.induct)
  case (1 q ps)
  obtain k v r where n: "next_pair q = (k, v, r)" by (cases "next_pair q") auto
  show ?case
  proof (cases "q = []")
    case False
    have "well_formed_params (insert_param (toLowerCase k) v ps)"
      using next_pair_parts [OF n] 1(2,3) by (intro well_formed_insert) blast+
    moreover have "\<forall>c\<in>set r. \<not> control c" using next_pair_parts(1) [OF n] 1(3) by blast
    ultimately show ?thesis using 1(1) [OF False n [symmetric] refl] False n
      by (subst parse_pairs.simps) simp
  qed (use 1 in \<open>subst parse_pairs.simps, simp\<close>)
qed

lemma c_str_nul: "CHR 0x00 \<notin> set s \<Longrightarrow> c_str (s @ CHR 0x00 # r) = s"
  by (simp add: c_str_def takeWhile_append)

lemma control_nul: "control (CHR 0x00)"
  by (simp add: control_def)

lemma query_params_decoded:
  assumes "CHR 0x00 \<notin> set q"
  shows "query_params (q @ CHR 0x00 # rest) = Inr (parse_pairs (decoded q) [])"
proof -
  obtain junk where "url_decode (q @ CHR 0x00 # rest) = Inr (decoded q @ CHR 0x00 # junk)"
    using url_decode_loop_decoded [OF assms, of "[]" "[]" rest] by (auto simp: url_decode_def)
  moreover have "CHR 0x00 \<notin> set (decoded q)" using decoded_printable [of q] assms control_nul by blast
  ultimately show ?thesis by (simp add: query_params_def c_str_nul)
qed

lemma determineRequest_hostName: "rq_hostName (determineRequest r) = rq_hostName r"
  by (simp add: determineRequest_def Let_def split: option.split)

lemma determineRequest_path: "rq_path (determineRequest r) = rq_path r"
  by (simp add: determineRequest_def Let_def split: option.split)

lemma determineService_hostName: "rq_hostName (determineService r) = rq_hostName r"
  by (simp add: determineService_def Let_def split: option.split)

lemma determined_fields [simp]:
  "rq_params (determineServiceAndRequest r) = rq_params r"
  "rq_hostName (determineServiceAndRequest r) = rq_hostName r"
  "rq_path (determineServiceAndRequest r) = rq_path r"
  by (simp_all add: determineServiceAndRequest_def determineRequest_hostName determineRequest_path
      determineService_hostName)

lemma Request_get_eq:
  assumes "CHR 0x00 \<notin> set q"
  shows "Request_get (Some (q @ CHR 0x00 # rest)) (Some h) (Some p) https = Inr (determineServiceAndRequest
     \<lparr>rq_hostName = h, rq_path = p, rq_scheme = scheme_of https, rq_request = REQUEST_MISSING,
      rq_service = SERVICE_MISSING, rq_params = parse_pairs (decoded q) []\<rparr>)"
  using assms by (simp add: Request_get_def fresh_request_def string_of_ptr_def query_params_decoded)

lemma determined_fresh:
  assumes "rq_service r = SERVICE_MISSING" "rq_request r = REQUEST_MISSING"
  shows "allowed (rq_service (determineServiceAndRequest r)) (rq_request (determineServiceAndRequest r))"
    "rq_service (determineServiceAndRequest r) = TMS \<longleftrightarrow> rq_params r = []"
proof -
  have "r\<lparr>rq_service := SERVICE_MISSING, rq_request := REQUEST_MISSING\<rparr> = r" using assms by simp
  with determined_allowed [of r] show
    "allowed (rq_service (determineServiceAndRequest r)) (rq_request (determineServiceAndRequest r))"
    "rq_service (determineServiceAndRequest r) = TMS \<longleftrightarrow> rq_params r = []" by simp_all
qed

text \<open>
  C11: every GET request is well typed. From a query without control characters the
  constructor makes a request whose keys are different, in lower case and without separators,
  whose values hold no \<open>&\<close>, and where no control character has come in through the escapes; the
  request is one of those of its service, and the service is TMS exactly when there are no
  parameters.
\<close>

theorem request_well_typed:
  assumes "\<forall>c\<in>set q. \<not> control c"
  shows "\<exists>r. Request_get (Some (q @ CHR 0x00 # rest)) (Some h) (Some p) https = Inr r
    \<and> well_formed_params (rq_params r) \<and> allowed (rq_service r) (rq_request r)
    \<and> (rq_service r = TMS \<longleftrightarrow> rq_params r = []) \<and> rq_hostName r = h \<and> rq_path r = p"
proof -
  have "CHR 0x00 \<notin> set q" using assms control_nul by blast
  moreover have "\<forall>c\<in>set (decoded q). \<not> control c" using decoded_printable [of q] assms by blast
  then have "well_formed_params (parse_pairs (decoded q) [])"
    by (rule parse_pairs_well_formed [rotated]) (simp add: well_formed_params_def)
  ultimately show ?thesis by (simp add: Request_get_eq determined_fresh del: allowed.simps)
qed

theorem request_well_typed_witness:
  "\<exists>r. Request_get (Some (''SERVICE=WMS&x=%07'' @ CHR 0x00 # '''')) (Some ''host'') (Some ''/p'') None = Inr r
    \<and> well_formed_params (rq_params r) \<and> allowed (rq_service r) (rq_request r)
    \<and> (rq_service r = TMS \<longleftrightarrow> rq_params r = []) \<and> rq_hostName r = ''host'' \<and> rq_path r = ''/p''"
  by (rule request_well_typed) (simp add: control_def)

subsubsection \<open>Queries that are read back\<close>

fun query_of :: "(string \<times> string) list \<Rightarrow> string" where
  "query_of [] = ''''"
| "query_of [(k, v)] = escape k @ ''='' @ escape v"
| "query_of ((k, v) # kv # kvs) = escape k @ ''='' @ escape v @ ''&'' @ query_of (kv # kvs)"

definition plain_pair :: "string \<times> string \<Rightarrow> bool" where
  "plain_pair kv \<longleftrightarrow> (\<forall>c\<in>set (fst kv). \<not> key_end c \<and> \<not> control c)
     \<and> (\<forall>c\<in>set (snd kv). c \<noteq> CHR ''&'' \<and> \<not> control c)"

fun joined :: "(string \<times> string) list \<Rightarrow> string" where
  "joined [] = ''''"
| "joined [(k, v)] = k @ ''='' @ v"
| "joined ((k, v) # kv # kvs) = k @ ''='' @ v @ ''&'' @ joined (kv # kvs)"

lemma decoded_other: "c \<noteq> CHR ''+'' \<Longrightarrow> c \<noteq> CHR ''%'' \<Longrightarrow> decoded (c # cs) = c # decoded cs"
  by simp

lemma decoded_query: "\<forall>kv\<in>set kvs. plain_pair kv \<Longrightarrow> decoded (query_of kvs) = joined kvs"
proof (induction kvs rule: joined.induct)
  case (2 k v)
  then show ?case using decoded_escape [of v "''''"]
    by (simp add: plain_pair_def decoded_escape decoded_other del: decoded.simps(2))
next
  case (3 k v kv kvs)
  then show ?case
    by (simp add: plain_pair_def decoded_escape decoded_other del: decoded.simps(2) query_of.simps joined.simps)
      (simp add: plain_pair_def decoded_escape decoded_other del: decoded.simps(2))
qed simp

lemma next_pair_joined:
  assumes "plain_pair (k, v)"
  shows "next_pair (k @ ''='' @ v) = (k, v, '''')"
    "next_pair (k @ ''='' @ v @ CHR ''&'' # r) = (k, v, r)"
proof -
  have "dropWhile (\<lambda>c. c \<noteq> CHR ''&'') v = []"
    using assms by (auto simp: plain_pair_def)
  then have "tl (dropWhile (\<lambda>c. c \<noteq> CHR ''&'') v) = []" by (simp only: list.sel)
  then show "next_pair (k @ ''='' @ v) = (k, v, '''')"
    "next_pair (k @ ''='' @ v @ CHR ''&'' # r) = (k, v, r)"
    using assms
    by (simp_all add: next_pair_def plain_pair_def key_end_def takeWhile_append dropWhile_append)
qed

definition insert_pair :: "string \<times> string \<Rightarrow> params \<Rightarrow> params" where
  "insert_pair kv = insert_param (toLowerCase (fst kv)) (snd kv)"

lemma insert_pair_simp [simp]: "insert_pair (k, v) ps = insert_param (toLowerCase k) v ps"
  by (simp add: insert_pair_def)

lemma map_of_insert_param: "map_of (insert_param k v ps) = [k \<mapsto> v] ++ map_of ps"
  by (auto simp: insert_param_def fun_eq_iff map_add_def split: option.splits)

lemma parse_pairs_Nil: "parse_pairs '''' ps = ps"
  by (subst parse_pairs.simps) simp

lemma parse_pairs_joined:
  "\<forall>kv\<in>set kvs. plain_pair kv \<Longrightarrow> parse_pairs (joined kvs) ps = fold insert_pair kvs ps"
proof (induction kvs arbitrary: ps rule: joined.induct)
  case (2 k v)
  then show ?case using next_pair_joined(1) [of k v]
    by (subst parse_pairs.simps) (simp add: parse_pairs_Nil)
next
  case (3 k v kv kvs)
  then show ?case using next_pair_joined(2) [of k v "joined (kv # kvs)"]
    by (subst parse_pairs.simps) simp
qed (simp add: parse_pairs_Nil)

lemma map_of_insert_pairs:
  "map_of (fold insert_pair kvs ps) = map_of (map (\<lambda>(k, v). (toLowerCase k, v)) kvs) ++ map_of ps"
proof (induction kvs arbitrary: ps)
  case (Cons kv kvs)
  show ?case
    by (cases kv) (simp add: Cons map_of_insert_param map_add_def fun_eq_iff split: option.splits)
qed simp

lemma hexdigit_printable: "n < 16 \<Longrightarrow> \<not> control (hexdigit n)"
  by (auto simp: control_def hexdigit_def)

lemma escape_printable: "c \<in> set (escape s) \<Longrightarrow> \<not> control c"
proof -
  have d: "\<not> control (hexdigit (of_char x div 16))" "\<not> control (hexdigit (of_char x mod 16))" for x :: char
    by (rule hexdigit_printable, rule less_mult_imp_div_less, simp) (rule hexdigit_printable, simp)
  have p: "\<not> control (CHR ''%'')" by (simp add: control_def)
  assume "c \<in> set (escape s)"
  then show ?thesis using d p by (auto simp: escape_def split: if_splits)
qed

lemma query_printable: "c \<in> set (query_of kvs) \<Longrightarrow> \<not> control c"
proof (induction kvs rule: query_of.induct)
  case (2 k v)
  then show ?case using escape_printable by (auto simp: control_def)
next
  case (3 k v kv kvs)
  then show ?case using escape_printable by (auto simp: control_def)
qed simp

definition read_query :: "(string \<times> string) list \<Rightarrow> params \<Rightarrow> bool" where
  "read_query kvs ps \<longleftrightarrow> map_of ps = map_of (map (\<lambda>(k, v). (toLowerCase k, v)) kvs)"

text \<open>
  C30: parameters that are percent encoded come back. For keys and values without
  control characters, where no key holds \<open>=\<close> or \<open>&\<close> and no value holds \<open>&\<close>, the request that is
  read from the encoded query has exactly these parameters, with the keys in lower case and the
  first value of a key that is repeated in any case of its letters.
\<close>

theorem query_roundtrip:
  assumes "\<forall>kv\<in>set kvs. plain_pair kv"
  shows "\<exists>r. Request_get (Some (query_of kvs @ CHR 0x00 # rest)) (Some h) (Some p) https = Inr r
    \<and> read_query kvs (rq_params r)"
proof -
  have "CHR 0x00 \<notin> set (query_of kvs)" using query_printable control_nul by blast
  then show ?thesis
    using assms by (simp add: Request_get_eq decoded_query parse_pairs_joined map_of_insert_pairs read_query_def)
qed

theorem query_roundtrip_witness:
  "\<exists>r. Request_get (Some (query_of [(''LAYER'', ''a b''), (''layer'', ''c=d'')] @ CHR 0x00 # '''')) (Some ''h'') (Some '''') None = Inr r
    \<and> read_query [(''LAYER'', ''a b''), (''layer'', ''c=d'')] (rq_params r)"
  by (rule query_roundtrip) (simp add: plain_pair_def key_end_def control_def)

text \<open>
  C: the query is decoded before it is cut, so an encoded separator inside a value
  cuts it: the query with the one parameter \<open>k\<close> whose value is \<open>v & k' = v'\<close> is read as the one with
  the two parameters \<open>k\<close> and \<open>k'\<close>.
\<close>

theorem encoded_separator_splits:
  assumes "plain_pair (k, v)" "plain_pair (k', v')"
  shows "Request_get (Some (query_of [(k, v @ ''&'' @ k' @ ''='' @ v')] @ CHR 0x00 # rest)) (Some h) (Some p) https
    = Request_get (Some (query_of [(k, v), (k', v')] @ CHR 0x00 # rest)) (Some h) (Some p) https"
proof -
  have nul: "CHR 0x00 \<notin> set (query_of kvs)" for kvs using query_printable control_nul by blast
  have sep: "\<not> control (CHR ''&'')" "\<not> control (CHR ''='')" by (simp_all add: control_def)
  have "decoded (query_of [(k, v @ ''&'' @ k' @ ''='' @ v')]) = k @ ''='' @ v @ ''&'' @ k' @ ''='' @ v'"
    using assms sep decoded_escape [of "v @ CHR ''&'' # k' @ CHR ''='' # v'" "''''"]
    by (simp add: plain_pair_def decoded_escape decoded_other ball_Un del: decoded.simps(2))
  moreover have "decoded (query_of [(k, v), (k', v')]) = k @ ''='' @ v @ ''&'' @ k' @ ''='' @ v'"
    using assms by (simp add: decoded_query del: query_of.simps)
  ultimately show ?thesis by (simp only: Request_get_eq [OF nul])
qed

theorem encoded_separator_splits_witness:
  "Request_get (Some (query_of [(''layer'', ''rock'' @ ''&'' @ ''style'' @ ''='' @ ''x'')] @ CHR 0x00 # '''')) (Some '''') (Some '''') None
    = Request_get (Some (query_of [(''layer'', ''rock''), (''style'', ''x'')] @ CHR 0x00 # '''')) (Some '''') (Some '''') None"
  by (rule encoded_separator_splits) (simp_all add: plain_pair_def key_end_def control_def)

subsection \<open>Paths of TMS\<close>

fun slashed :: "string list \<Rightarrow> string" where
  "slashed [] = ''''"
| "slashed [p] = p"
| "slashed (p # q # ps) = p @ ''/'' @ slashed (q # ps)"

lemma getline_parts_Nil: "getline_parts d '''' = []"
  by (subst getline_parts.simps) simp

lemma getline_parts_slashed:
  "\<forall>p\<in>set ps. CHR ''/'' \<notin> set p \<Longrightarrow> ps \<noteq> [] \<Longrightarrow> last ps \<noteq> '''' \<Longrightarrow> getline_parts (CHR ''/'') (slashed ps) = ps"
proof (induction ps rule: slashed.induct)
  case (2 p)
  then have "takeWhile (\<lambda>c. c \<noteq> CHR ''/'') p = p" by (auto simp: takeWhile_eq_all_conv)
  moreover from this have "dropWhile (\<lambda>c. c \<noteq> CHR ''/'') p = []" by (metis append_self_conv takeWhile_dropWhile_id)
  then have "getline_parts (CHR ''/'') (tl (dropWhile (\<lambda>c. c \<noteq> CHR ''/'') p)) = []" by (simp only: list.sel getline_parts_Nil)
  ultimately show ?case using 2 by (subst getline_parts.simps) simp
next
  case (3 p q ps)
  then have "takeWhile (\<lambda>c. c \<noteq> CHR ''/'') (p @ ''/'' @ slashed (q # ps)) = p"
    "dropWhile (\<lambda>c. c \<noteq> CHR ''/'') (p @ ''/'' @ slashed (q # ps)) = ''/'' @ slashed (q # ps)"
    by (auto simp: takeWhile_append dropWhile_append)
  with 3 show ?case by (subst getline_parts.simps) simp
qed simp

lemma version_steps:
  "''1.0.0'' \<notin> set ts \<Longrightarrow> fold version_step ts (pos, parts) = (pos, parts @ ts)"
  by (induction ts arbitrary: parts) (auto simp: version_step_def)

lemma version_parts: "snd (fold version_step ts s) = snd s @ ts"
  by (induction ts arbitrary: s) (auto simp: version_step_def split: prod.split)

lemma tms_parts_slashed:
  assumes "\<forall>p\<in>set (pre @ post). CHR ''/'' \<notin> set p" "''1.0.0'' \<notin> set post" "post \<noteq> [] \<longrightarrow> last post \<noteq> ''''"
  shows "tms_parts (slashed (pre @ ''1.0.0'' # post)) = (int (length pre), pre @ ''1.0.0'' # post)"
proof -
  have "getline_parts (CHR ''/'') (slashed (pre @ ''1.0.0'' # post)) = pre @ ''1.0.0'' # post"
    using assms by (intro getline_parts_slashed) auto
  moreover obtain i where "fold version_step pre (-1, []) = (i, pre)"
    using version_parts [of pre "(-1, [])"] by (cases "fold version_step pre (-1, [])") auto
  ultimately show ?thesis using assms(2)
    by (simp add: tms_parts_def version_step_def version_steps)
qed

lemma pos_is_size_minus_iff:
  assumes "n < 2 ^ 31" "length parts < 2 ^ 31" "0 \<le> k" "k < 8"
  shows "pos_is_size_minus (int n) parts k \<longleftrightarrow> int n + k = int (length parts)"
proof (cases "k \<le> int (length parts)")
  case True
  then have "(int (length parts) - k) mod 2 ^ 64 = int (length parts) - k" using assms by simp
  moreover have "int n mod 2 ^ 64 = int n" using assms by simp
  ultimately show ?thesis unfolding pos_is_size_minus_def by linarith
next
  case False
  have "(int (length parts) - k) mod 2 ^ 64 = (int (length parts) - k + 2 ^ 64) mod 2 ^ 64" by simp
  also have "\<dots> = int (length parts) - k + 2 ^ 64" using assms False by (intro mod_pos_pos_trivial) simp_all
  finally have "(int (length parts) - k) mod 2 ^ 64 = int (length parts) - k + 2 ^ 64" .
  moreover have "int n mod 2 ^ 64 = int n" using assms by simp
  moreover have "int n < 2 ^ 31" "(2::int) ^ 31 + 8 \<le> 2 ^ 64" using assms by simp_all
  ultimately show ?thesis using False assms unfolding pos_is_size_minus_def by linarith
qed

text \<open>The request of a path, by the number of its parts behind the version.\<close>

definition request_of_depth :: "string list \<Rightarrow> eRequestType" where
  "request_of_depth post =
     (if length post = 0 then GETCAPABILITIES
      else if length post = 1 then GETLAYER
      else if length post = 2 \<and> last post = ''metadata.json'' then GETLAYERMETADATA
      else if length post = 4 then GETTILE
      else REQUEST_UNKNOWN)"

definition plain_path :: "string list \<Rightarrow> string list \<Rightarrow> bool" where
  "plain_path pre post \<longleftrightarrow> (\<forall>p\<in>set (pre @ post). CHR ''/'' \<notin> set p) \<and> ''1.0.0'' \<notin> set post
     \<and> (post \<noteq> [] \<longrightarrow> last post \<noteq> '''') \<and> length pre + length post + 1 < 2 ^ 31"

lemma tms_request_depth:
  assumes "plain_path pre post"
  shows "tms_request (slashed (pre @ ''1.0.0'' # post)) = request_of_depth post"
proof -
  have l: "length pre < 2 ^ 31" "length (pre @ ''1.0.0'' # post) < 2 ^ 31"
    using assms by (simp_all add: plain_path_def)
  have t: "tms_parts (slashed (pre @ ''1.0.0'' # post)) = (int (length pre), pre @ ''1.0.0'' # post)"
    using assms by (intro tms_parts_slashed) (simp_all add: plain_path_def)
  have m: "pos_is_size_minus (int (length pre)) (pre @ ''1.0.0'' # post) k \<longleftrightarrow> k = 1 + int (length post)"
    if "0 \<le> k" "k < 8" for k
    using pos_is_size_minus_iff [OF l that] by auto
  have "length post = 2 \<Longrightarrow> last (pre @ ''1.0.0'' # post) = last post" by auto
  then show ?thesis
    by (auto simp: tms_request_def t m request_of_depth_def)
qed

text \<open>
  A request without parameters is one of TMS, and the number of the parts of its path
  behind the version says which: the capabilities, a layer, its metadata, or a tile.
\<close>

theorem tms_path_request:
  assumes "plain_path pre post"
  shows "Request_get (Some (CHR 0x00 # rest)) (Some h) (Some (slashed (pre @ ''1.0.0'' # post))) https
    = Inr \<lparr>rq_hostName = h, rq_path = slashed (pre @ ''1.0.0'' # post), rq_scheme = scheme_of https,
           rq_request = request_of_depth post, rq_service = TMS, rq_params = []\<rparr>"
proof -
  have "determineServiceAndRequest r = r\<lparr>rq_service := TMS, rq_request := tms_request (rq_path r)\<rparr>"
    if "rq_params r = []" for r
    using that by (simp add: determineServiceAndRequest_def determineService_def determineRequest_TMS)
  then show ?thesis
    using Request_get_eq [of "''''" rest h "slashed (pre @ ''1.0.0'' # post)" https]
    by (simp add: parse_pairs_Nil tms_request_depth [OF assms])
qed

theorem tms_path_request_witness:
  "Request_get (Some (CHR 0x00 # '''')) (Some ''h'') (Some (slashed ([''tms''] @ ''1.0.0'' # [''rock'', ''5'', ''3'', ''4.png'']))) None
    = Inr \<lparr>rq_hostName = ''h'', rq_path = slashed ([''tms''] @ ''1.0.0'' # [''rock'', ''5'', ''3'', ''4.png'']), rq_scheme = scheme_of None,
           rq_request = request_of_depth [''rock'', ''5'', ''3'', ''4.png''], rq_service = TMS, rq_params = []\<rparr>"
  by (rule tms_path_request) (simp add: plain_path_def)

end
