(* ===== verification/PostRequests.thy ===== *)
theory PostRequests
  imports Requests
begin

text \<open>
  rok4server/Request.cpp: the requests that come as an XML document by POST. TinyXML is a parameter:
  a record of the accessors the code calls, over a type of elements; an element that is missing is
  a null pointer, \<open>None\<close>. That the elements are those of a document is the hypothesis \<open>reads\<close>.

  The loops over elements may not end, so a result is \<open>None\<close> when the code does not return. A
  condition \<open>!pElem && pElem->...\<close> dereferences a null pointer and is false for any other.
\<close>

subsection \<open>Elements\<close>

record 'e TinyXML =
  x_value :: "'e \<Rightarrow> string"                    \<comment> \<open>ValueStr\<close>
  x_attr :: "'e \<Rightarrow> string \<Rightarrow> string option"    \<comment> \<open>QueryStringAttribute, Attribute\<close>
  x_text :: "'e \<Rightarrow> string option"              \<comment> \<open>GetText: the first child, where it is a text\<close>
  x_first :: "'e \<Rightarrow> 'e option"                 \<comment> \<open>FirstChildElement\<close>
  x_next :: "'e \<Rightarrow> 'e option"                  \<comment> \<open>NextSiblingElement\<close>
  x_named :: "'e \<Rightarrow> string \<Rightarrow> 'e option"       \<comment> \<open>NextSiblingElement with a name\<close>

fun bindO :: "('x + 'a) option \<Rightarrow> ('a \<Rightarrow> ('x + 'b) option) \<Rightarrow> ('x + 'b) option" where
  "bindO None f = None"
| "bindO (Some (Inl x)) f = Some (Inl x)"
| "bindO (Some (Inr a)) f = f a"

text \<open>A pointer that is used without a test, and \<open>GetText\<close> where a string is needed.\<close>

fun with_element :: "'e option \<Rightarrow> ('e \<Rightarrow> (fault + 'b) option) \<Rightarrow> (fault + 'b) option" where
  "with_element None f = Some (Inl NullPointer)"
| "with_element (Some e) f = f e"

definition with_text :: "'e TinyXML \<Rightarrow> 'e \<Rightarrow> (string \<Rightarrow> (fault + 'b) option) \<Rightarrow> (fault + 'b) option" where
  "with_text X e f = with_element (x_text X e) f"

definition named :: "'e TinyXML \<Rightarrow> 'e \<Rightarrow> string \<Rightarrow> bool" where
  "named X e s \<longleftrightarrow> find_sub s (x_value X e) \<noteq> None"

definition getTextStrFromElem :: "'e TinyXML \<Rightarrow> 'e \<Rightarrow> string" where
  "getTextStrFromElem X e = (case x_text X e of None \<Rightarrow> '''' | Some t \<Rightarrow> t)"

subsection \<open>GetCapabilities\<close>

definition parseGetCapabilitiesPost :: "'e TinyXML \<Rightarrow> 'e \<Rightarrow> params \<Rightarrow> params" where
  "parseGetCapabilitiesPost X e ps =
     (let ps = insert_param ''request'' ''getcapabilities'' ps
      in case x_attr X e ''service'' of
           None \<Rightarrow> ps
         | Some service \<Rightarrow>
             let ps = insert_param ''service'' (map tolower service) ps
             in case x_attr X e ''version'' of
                  None \<Rightarrow> ps
                | Some version \<Rightarrow> insert_param ''version'' version ps)"

subsection \<open>GetTile\<close>

text \<open>\<open>continue\<close> without a name: the element stays the same.\<close>

partial_function (option) dimension_loop ::
    "'e TinyXML \<Rightarrow> 'e option \<Rightarrow> params \<Rightarrow> (fault + 'e option \<times> params) option" where
  "dimension_loop X eo ps =
     (case eo of
        None \<Rightarrow> Some (Inr (None, ps))
      | Some e \<Rightarrow>
          if named X e ''DimensionNameValue'' \<and> x_text X e \<noteq> None then
            (case x_attr X e ''name'' of
               None \<Rightarrow> dimension_loop X eo ps
             | Some n \<Rightarrow> dimension_loop X (x_next X e) (insert_param n (getTextStrFromElem X e) ps))
          else Some (Inr (eo, ps)))"

definition vendor_option :: "'e TinyXML \<Rightarrow> 'e \<Rightarrow> params \<Rightarrow> params" where
  "vendor_option X e ps =
     (case x_attr X e ''name'' of
        Some n \<Rightarrow>
          if named X e ''VendorOption''
          then insert_param (map tolower n) (case x_text X e of None \<Rightarrow> ''true'' | Some t \<Rightarrow> getTextStrFromElem X e) ps
          else ps
      | None \<Rightarrow> ps)"

partial_function (option) vendor_loop ::
    "'e TinyXML \<Rightarrow> 'e option \<Rightarrow> params \<Rightarrow> (fault + params) option" where
  "vendor_loop X eo ps =
     (case eo of
        None \<Rightarrow> Some (Inr ps)
      | Some e \<Rightarrow> vendor_loop X (x_next X e) (vendor_option X e ps))"

text \<open>
  From TileMatrixSet on. The first loop over the vendor options ends at the null pointer, and the
  next statement asks that for its sibling.
\<close>

definition gettile_matrix :: "'e TinyXML \<Rightarrow> 'e option \<Rightarrow> params \<Rightarrow> (fault + params) option" where
  "gettile_matrix X eo ps =
     with_element eo (\<lambda>e.
       let ps = insert_param ''tilematrixset'' (getTextStrFromElem X e) ps in with_element (x_next X e) (\<lambda>e.
       let ps = insert_param ''tilematrix'' (getTextStrFromElem X e) ps in with_element (x_next X e) (\<lambda>e.
       let ps = insert_param ''tilerow'' (getTextStrFromElem X e) ps in with_element (x_next X e) (\<lambda>e.
       let ps = insert_param ''tilecol'' (getTextStrFromElem X e) ps
       in bindO (vendor_loop X (x_next X e) ps) (\<lambda>ps.
            with_element None (\<lambda>e. vendor_loop X (x_next X e) ps))))))"

definition parseGetTilePost :: "'e TinyXML \<Rightarrow> 'e \<Rightarrow> params \<Rightarrow> (fault + params) option" where
  "parseGetTilePost X e ps =
     (let ps = insert_param ''request'' ''gettile'' ps
      in case x_attr X e ''service'' of
           None \<Rightarrow> Some (Inr ps)
         | Some service \<Rightarrow>
             let ps = insert_param ''service'' (map tolower service) ps
             in case x_attr X e ''version'' of
                  None \<Rightarrow> Some (Inr ps)
                | Some version \<Rightarrow>
                    let ps = insert_param ''version'' version ps in with_element (x_first X e) (\<lambda>e.
                    let ps = insert_param ''layer'' (getTextStrFromElem X e) ps in with_element (x_next X e) (\<lambda>e.
                    let ps = insert_param ''style'' (getTextStrFromElem X e) ps in with_element (x_next X e) (\<lambda>e.
                    let ps = insert_param ''format'' (getTextStrFromElem X e) ps
                    in bindO (dimension_loop X (x_next X e) ps) (\<lambda>(eo, ps). gettile_matrix X eo ps)))))"

subsection \<open>GetMap\<close>

text \<open>The search for the style of a layer, from its name on.\<close>

partial_function (option) style_loop :: "'e TinyXML \<Rightarrow> 'e \<Rightarrow> 'e option option" where
  "style_loop X e =
     (if named X e ''NamedStyle'' then Some (Some e)
      else case x_next X e of None \<Rightarrow> Some None | Some e' \<Rightarrow> style_loop X e')"

text \<open>One layer: its name and its style are put behind those of the layers before it.\<close>

definition named_layer :: "'e TinyXML \<Rightarrow> 'e \<Rightarrow> string \<Rightarrow> string \<Rightarrow> (fault + string \<times> string) option" where
  "named_layer X e layers styles =
     with_element (x_first X e) (\<lambda>n. with_text X n (\<lambda>layer.
       let comma = (if layers = '''' then '''' else '','')
       in case style_loop X n of
            None \<Rightarrow> None
          | Some st \<Rightarrow> with_element st (\<lambda>st. with_element (x_first X st) (\<lambda>sn. with_text X sn (\<lambda>style.
              Some (Inr (layers @ comma @ layer, styles @ comma @ style)))))))"

partial_function (option) layers_loop ::
    "'e TinyXML \<Rightarrow> 'e option \<Rightarrow> string \<Rightarrow> string \<Rightarrow> (fault + string \<times> string) option" where
  "layers_loop X eo layers styles =
     (case eo of
        None \<Rightarrow> Some (Inr (layers, styles))
      | Some e \<Rightarrow>
          if \<not> named X e ''NamedLayer'' then layers_loop X (x_next X e) layers styles
          else
            (case named_layer X e layers styles of
               None \<Rightarrow> None
             | Some (Inl x) \<Rightarrow> Some (Inl x)
             | Some (Inr (ls, ss)) \<Rightarrow> layers_loop X (x_named X e (x_value X e)) ls ss))"

text \<open>\<open>bbox.replace (bbox.find (" "), 1, ",")\<close> throws where there is no space.\<close>

definition replace_space :: "string \<Rightarrow> fault + string" where
  "replace_space s = (case find_sub '' '' s of None \<Rightarrow> Inl OutOfRange | Some i \<Rightarrow> Inr (s[i := CHR '','']))"

definition bounding_box :: "'e TinyXML \<Rightarrow> 'e \<Rightarrow> (fault + string) option" where
  "bounding_box X e =
     with_element (x_first X e) (\<lambda>lower. with_text X lower (\<lambda>t.
       bindO (Some (replace_space t)) (\<lambda>bbox.
         with_element (x_next X lower) (\<lambda>upper. with_text X upper (\<lambda>t.
           Some (replace_space (bbox @ '','' @ t)))))))"

text \<open>An element that may be there: its text becomes a parameter and the next one follows.\<close>

definition optional_param ::
    "'e TinyXML \<Rightarrow> string \<Rightarrow> string \<Rightarrow> 'e option \<Rightarrow> params \<Rightarrow> 'e option \<times> params" where
  "optional_param X name key eo ps =
     (case eo of
        None \<Rightarrow> (None, ps)
      | Some e \<Rightarrow>
          (case x_text X e of
             Some t \<Rightarrow> if named X e name then (x_next X e, insert_param key t ps) else (eo, ps)
           | None \<Rightarrow> (eo, ps)))"

definition format_option :: "'e TinyXML \<Rightarrow> 'e \<Rightarrow> string \<Rightarrow> string" where
  "format_option X e opts =
     (case (x_attr X e ''name'', x_text X e) of
        (Some n, Some t) \<Rightarrow>
          if named X e ''VendorOption''
          then opts @ (if opts = '''' then '''' else '';'') @ n @ '':'' @ t else opts
      | _ \<Rightarrow> opts)"

partial_function (option) options_loop ::
    "'e TinyXML \<Rightarrow> 'e option \<Rightarrow> string \<Rightarrow> (fault + string) option" where
  "options_loop X eo opts =
     (case eo of
        None \<Rightarrow> Some (Inr opts)
      | Some e \<Rightarrow> options_loop X (x_next X e) (format_option X e opts))"

definition getmap_output :: "'e TinyXML \<Rightarrow> 'e \<Rightarrow> params \<Rightarrow> (fault + params) option" where
  "getmap_output X e ps =
     with_element (x_first X e) (\<lambda>size. with_element (x_first X size) (\<lambda>w. with_text X w (\<lambda>t.
       let ps = insert_param ''width'' t ps in with_element (x_next X w) (\<lambda>h. with_text X h (\<lambda>t.
       let ps = insert_param ''height'' t ps in with_element (x_next X size) (\<lambda>f. with_text X f (\<lambda>t.
       let ps = insert_param ''format'' t ps;
           (eo, ps) = optional_param X ''Transparent'' ''transparent'' (x_next X f) ps;
           (eo, ps) = optional_param X ''BGcolor'' ''bgcolor'' eo ps
       in bindO (options_loop X eo '''') (\<lambda>opts.
            Some (Inr (if opts = '''' then ps else insert_param ''format_options'' opts ps))))))))))"

partial_function (option) elevation_loop ::
    "'e TinyXML \<Rightarrow> 'e option \<Rightarrow> string \<Rightarrow> (fault + string) option" where
  "elevation_loop X eo elevation =
     (case eo of
        None \<Rightarrow> Some (Inr elevation)
      | Some e \<Rightarrow>
          (case x_text X e of
             None \<Rightarrow> Some (Inr elevation)
           | Some t \<Rightarrow> elevation_loop X (x_named X e (x_value X e))
                 (elevation @ (if elevation = '''' then '''' else '','') @ t)))"

definition elevation_of :: "'e TinyXML \<Rightarrow> 'e \<Rightarrow> (fault + string) option" where
  "elevation_of X e =
     (if named X e ''Interval'' then
        with_element (x_first X e) (\<lambda>mn. with_element (x_next X mn) (\<lambda>mx.
          Some (Inr (getTextStrFromElem X mn @ ''/'' @ getTextStrFromElem X mx))))
      else if named X e ''Value'' then elevation_loop X (Some e) ''''
      else Some (Inr ''''))"

definition getmap_optional :: "'e TinyXML \<Rightarrow> 'e option \<Rightarrow> params \<Rightarrow> (fault + params) option" where
  "getmap_optional X eo ps =
     (let (eo, ps) = optional_param X ''Exceptions'' ''exceptions'' eo ps;
          (eo, ps) = optional_param X ''Time'' ''time'' eo ps
      in case eo of
           None \<Rightarrow> Some (Inr ps)
         | Some e \<Rightarrow>
             if \<not> named X e ''Elevation'' then Some (Inr ps)
             else
               (case x_first X e of
                  None \<Rightarrow> Some (Inr ps)
                | Some e \<Rightarrow> bindO (elevation_of X e) (\<lambda>v. Some (Inr (insert_param ''elevation'' v ps)))))"

text \<open>Behind the layers: CRS, bounding box, output and the rest.\<close>

definition getmap_rest :: "'e TinyXML \<Rightarrow> 'e option \<Rightarrow> params \<Rightarrow> (fault + params) option" where
  "getmap_rest X eo ps =
     with_element eo (\<lambda>crs.
       let ps = insert_param ''crs'' (getTextStrFromElem X crs) ps in with_element (x_next X crs) (\<lambda>bb.
       bindO (bounding_box X bb) (\<lambda>bbox.
       let ps = insert_param ''bbox'' bbox ps in with_element (x_next X bb) (\<lambda>out.
       bindO (getmap_output X out ps) (\<lambda>ps. getmap_optional X (x_next X out) ps)))))"

definition parseGetMapPost :: "'e TinyXML \<Rightarrow> 'e \<Rightarrow> params \<Rightarrow> (fault + params) option" where
  "parseGetMapPost X e ps =
     (let ps = insert_param ''request'' ''getmap'' (insert_param ''service'' ''wms'' ps)
      in case x_attr X e ''version'' of
           None \<Rightarrow> Some (Inr ps)
         | Some version \<Rightarrow>
             let ps = insert_param ''version'' version ps in with_element (x_first X e) (\<lambda>sld.
             case x_first X sld of
               None \<Rightarrow> Some (Inr ps)
             | Some layer \<Rightarrow> bindO (layers_loop X (Some layer) '''' '''') (\<lambda>(layers, styles).
                 if layers = '''' then Some (Inr ps)
                 else getmap_rest X (x_next X sld) (insert_param ''styles'' styles (insert_param ''layers'' layers ps)))))"

subsection \<open>Requests\<close>

text \<open>\<open>parse content\<close> is \<open>None\<close> where TinyXML cannot parse it, and the root element otherwise.\<close>

definition parsePostContent ::
    "'e TinyXML \<Rightarrow> (string \<Rightarrow> 'e option option) \<Rightarrow> string \<Rightarrow> params \<Rightarrow> (fault + params) option" where
  "parsePostContent X parse content ps =
     (case parse (content @ newline) of
        None \<Rightarrow> Some (Inr ps)
      | Some None \<Rightarrow> Some (Inr ps)
      | Some (Some rootEl) \<Rightarrow>
          if named X rootEl ''GetCapabilities'' then Some (Inr (parseGetCapabilitiesPost X rootEl ps))
          else if named X rootEl ''GetMap'' then parseGetMapPost X rootEl ps
          else if named X rootEl ''GetTile'' then parseGetTilePost X rootEl ps
          else Some (Inr ps))"

definition Request_post ::
    "'e TinyXML \<Rightarrow> (string \<Rightarrow> 'e option option) \<Rightarrow> string option \<Rightarrow> string option \<Rightarrow> string option
     \<Rightarrow> string \<Rightarrow> (fault + Request) option" where
  "Request_post X parse hostName path https postContent =
     bindO (Some (fresh_request hostName path https)) (\<lambda>r.
       bindO (if postContent = '''' then Some (Inr []) else parsePostContent X parse postContent []) (\<lambda>ps.
         Some (Inr (determineServiceAndRequest (r\<lparr>rq_params := ps\<rparr>)))))"

subsection \<open>Documents\<close>

datatype xml = Xml (xml_name: string) (xml_attrs: "(string \<times> string) list") (xml_text: "string option")
  (xml_children: "xml list")

lemma size_named: "size_list size (dropWhile P ts) \<le> size_list size (ts :: xml list)"
  by (induction ts) auto

text \<open>The pointer \<open>eo\<close> is at the first of the elements \<open>ts\<close>.\<close>

function (sequential) reads :: "'e TinyXML \<Rightarrow> 'e option \<Rightarrow> xml list \<Rightarrow> bool" where
  "reads X eo [] \<longleftrightarrow> eo = None"
| "reads X eo (t # ts) \<longleftrightarrow> (\<exists>e. eo = Some e \<and> x_value X e = xml_name t \<and> x_attr X e = map_of (xml_attrs t)
     \<and> x_text X e = xml_text t \<and> reads X (x_first X e) (xml_children t) \<and> reads X (x_next X e) ts
     \<and> (\<forall>n. reads X (x_named X e n) (dropWhile (\<lambda>t. xml_name t \<noteq> n) ts)))"
  by pat_completeness auto
termination
proof (relation "measure (\<lambda>(X, eo, ts). size_list size ts)", goal_cases)
  case (2 X eo t ts e)
  show ?case by (cases t) simp
next
  case (4 X eo t ts e n)
  show ?case using size_named [of "\<lambda>t. xml_name t \<noteq> n" ts] by simp
qed simp_all

text \<open>A model of the accessors: an element is the list of the elements from it on.\<close>

definition cursor :: "xml list \<Rightarrow> xml list option" where
  "cursor ts = (if ts = [] then None else Some ts)"

definition dom :: "xml list TinyXML" where
  "dom = \<lparr>x_value = (\<lambda>ts. xml_name (hd ts)), x_attr = (\<lambda>ts. map_of (xml_attrs (hd ts))),
     x_text = (\<lambda>ts. xml_text (hd ts)), x_first = (\<lambda>ts. cursor (xml_children (hd ts))),
     x_next = (\<lambda>ts. cursor (tl ts)), x_named = (\<lambda>ts n. cursor (dropWhile (\<lambda>t. xml_name t \<noteq> n) (tl ts)))\<rparr>"

lemma cursor_Cons [simp]: "cursor (t # ts) = Some (t # ts)"
  by (simp add: cursor_def)

lemma dom_simps [simp]:
  "x_value dom (t # ts) = xml_name t" "x_attr dom (t # ts) = map_of (xml_attrs t)"
  "x_text dom (t # ts) = xml_text t" "x_first dom (t # ts) = cursor (xml_children t)"
  "x_next dom (t # ts) = cursor ts" "x_named dom (t # ts) n = cursor (dropWhile (\<lambda>t. xml_name t \<noteq> n) ts)"
  by (simp_all add: dom_def)

lemma dom_reads: "reads dom (cursor ts) ts"
proof (induction "size_list size ts" arbitrary: ts rule: less_induct)
  case less
  show ?case
  proof (cases ts)
    case (Cons t us)
    have "size_list size (xml_children t) < size_list size ts" using Cons by (cases t) simp
    moreover have "size_list size (dropWhile P us) < size_list size ts" for P
      using Cons size_named [of P us] by simp
    moreover have "size_list size us < size_list size ts" using Cons by simp
    ultimately show ?thesis using less Cons by simp
  qed (simp add: cursor_def)
qed

subsection \<open>Loops end on documents\<close>

lemma vendor_loop_ends: "reads X eo ts \<Longrightarrow> \<exists>ps'. vendor_loop X eo ps = Some (Inr ps')"
  by (induction ts arbitrary: eo ps) (auto simp: vendor_loop.simps)

lemma options_loop_ends: "reads X eo ts \<Longrightarrow> \<exists>s. options_loop X eo opts = Some (Inr s)"
  by (induction ts arbitrary: eo opts) (auto simp: options_loop.simps)

lemma style_loop_ends: "reads X (Some e) (t # ts) \<Longrightarrow> \<exists>st. style_loop X e = Some st"
proof (induction ts arbitrary: e t)
  case Nil
  then show ?case by (subst style_loop.simps) simp
next
  case (Cons u us)
  then show ?case by (subst style_loop.simps) auto
qed

definition returns :: "('x + 'a) option \<Rightarrow> bool" where
  "returns r \<longleftrightarrow> r \<noteq> None"

lemma returns_with_element: "(\<And>e. eo = Some e \<Longrightarrow> returns (f e)) \<Longrightarrow> returns (with_element eo f)"
  by (cases eo) (simp_all add: returns_def)

lemma returns_with_text: "(\<And>t. returns (f t)) \<Longrightarrow> returns (with_text X e f)"
  by (simp add: with_text_def returns_with_element)

lemma returns_bindO: "returns r \<Longrightarrow> (\<And>a. r = Some (Inr a) \<Longrightarrow> returns (f a)) \<Longrightarrow> returns (bindO r f)"
  by (cases "(r, f)" rule: bindO.cases) (auto simp: returns_def)

lemma returns_Some [simp]: "returns (Some r)"
  by (simp add: returns_def)

lemmas returns_intros = returns_with_element returns_with_text returns_bindO

lemma reads_first: "reads X (Some e) (t # ts) \<Longrightarrow> reads X (x_first X e) (xml_children t)"
  and reads_next: "reads X (Some e) (t # ts) \<Longrightarrow> reads X (x_next X e) ts"
  by simp_all

lemma reads_Some: "reads X (Some e) ts \<Longrightarrow> \<exists>t us. ts = t # us"
  by (cases ts) auto

lemma named_layer_returns:
  assumes "reads X (Some e) (t # ts)"
  shows "returns (named_layer X e layers styles)"
proof -
  have "\<exists>st. style_loop X n = Some st" if "x_first X e = Some n" for n
    using reads_first [OF assms] that reads_Some style_loop_ends by metis
  then show ?thesis
    unfolding named_layer_def Let_def
    by (intro returns_intros) (auto intro!: returns_intros)
qed

lemma layers_loop_returns: "reads X eo ts \<Longrightarrow> returns (layers_loop X eo layers styles)"
proof (induction "length ts" arbitrary: ts eo layers styles rule: less_induct)
  case less
  show ?case
  proof (cases ts)
    case Nil
    with less show ?thesis by (subst layers_loop.simps) simp
  next
    case (Cons t us)
    then obtain e where e: "eo = Some e" "reads X (Some e) (t # us)" using less.prems by auto
    have "length (dropWhile P us) < length ts" for P using Cons length_dropWhile_le [of P us] by simp
    with e less.hyps have n: "returns (layers_loop X (x_named X e n) ls ss)" for n ls ss
      by (simp add: returns_def) blast
    have m: "returns (layers_loop X (x_next X e) ls ss)" for ls ss
      using less.hyps [OF _ reads_next [OF e(2)]] Cons by simp
    show ?thesis
      using named_layer_returns [OF e(2), of layers styles] n m e(1)
      by (subst layers_loop.simps) (auto simp: returns_def split: sum.splits)
  qed
qed

lemma elevation_loop_returns: "reads X eo ts \<Longrightarrow> returns (elevation_loop X eo elevation)"
proof (induction "length ts" arbitrary: ts eo elevation rule: less_induct)
  case less
  show ?case
  proof (cases ts)
    case Nil
    with less show ?thesis by (subst elevation_loop.simps) simp
  next
    case (Cons t us)
    then obtain e where e: "eo = Some e" "reads X (Some e) (t # us)" using less.prems by auto
    have "length (dropWhile P us) < length ts" for P using Cons length_dropWhile_le [of P us] by simp
    with e less.hyps have n: "returns (elevation_loop X (x_named X e n) el)" for n el
      by (simp add: returns_def) blast
    then show ?thesis using e(1)
      by (subst elevation_loop.simps) (simp split: option.split)
  qed
qed


definition in_doc :: "'e TinyXML \<Rightarrow> 'e option \<Rightarrow> bool" where
  "in_doc X eo \<longleftrightarrow> (\<exists>ts. reads X eo ts)"

named_theorems in_doc_intros

lemma in_doc_None [in_doc_intros]: "in_doc X None"
  by (auto simp: in_doc_def intro: exI [of _ "[]"])

lemma in_doc_first [in_doc_intros]: "in_doc X (Some e) \<Longrightarrow> in_doc X (x_first X e)"
  unfolding in_doc_def using reads_first reads_Some by metis

lemma in_doc_next [in_doc_intros]: "in_doc X (Some e) \<Longrightarrow> in_doc X (x_next X e)"
  unfolding in_doc_def using reads_next reads_Some by metis

lemma in_doc_first_Some: "in_doc X (Some e) \<Longrightarrow> x_first X e = Some e' \<Longrightarrow> in_doc X (Some e')"
  using in_doc_first by metis

lemma in_doc_next_Some: "in_doc X (Some e) \<Longrightarrow> x_next X e = Some e' \<Longrightarrow> in_doc X (Some e')"
  using in_doc_next by metis

lemma in_doc_optional_param [in_doc_intros]:
  "in_doc X eo \<Longrightarrow> in_doc X (fst (optional_param X name key eo ps))"
  by (auto simp: optional_param_def in_doc_None in_doc_next split: option.split)

lemma doc_loops:
  "in_doc X eo \<Longrightarrow> returns (layers_loop X eo layers styles)"
  "in_doc X eo \<Longrightarrow> returns (elevation_loop X eo elevation)"
  "in_doc X eo \<Longrightarrow> returns (options_loop X eo opts)"
  "in_doc X eo \<Longrightarrow> returns (vendor_loop X eo ps)"
  unfolding in_doc_def using layers_loop_returns elevation_loop_returns
  by (blast, blast, metis options_loop_ends returns_Some, metis vendor_loop_ends returns_Some)

lemma elevation_of_returns: "in_doc X (Some e) \<Longrightarrow> returns (elevation_of X e)"
  unfolding elevation_of_def by (auto intro!: returns_intros doc_loops)

lemma getmap_optional_returns: "in_doc X eo \<Longrightarrow> returns (getmap_optional X eo ps)"
proof -
  assume d: "in_doc X eo"
  obtain eo1 ps1 where 1: "optional_param X ''Exceptions'' ''exceptions'' eo ps = (eo1, ps1)" by fastforce
  obtain eo2 ps2 where 2: "optional_param X ''Time'' ''time'' eo1 ps1 = (eo2, ps2)" by fastforce
  have "in_doc X eo2" using d 1 2 in_doc_optional_param by (metis fst_conv)
  then show ?thesis
    unfolding getmap_optional_def 1 Let_def 2 prod.case
    using in_doc_first_Some
    by (auto intro!: returns_intros elevation_of_returns split: option.split)
qed

lemma getmap_output_returns: "in_doc X (Some e) \<Longrightarrow> returns (getmap_output X e ps)"
proof -
  assume d: "in_doc X (Some e)"
  have f: "in_doc X (Some f)" if "x_first X e = Some s" "x_next X s = Some f" for s f
    using d that in_doc_first_Some in_doc_next_Some by metis
  show ?thesis
    unfolding getmap_output_def Let_def case_prod_beta
    by (intro returns_intros returns_Some doc_loops in_doc_intros) (rule f)
qed

lemma bounding_box_returns: "returns (bounding_box X e)"
  unfolding bounding_box_def by (intro returns_intros returns_Some)

lemma getmap_rest_returns:
  assumes "in_doc X eo"
  shows "returns (getmap_rest X eo ps)"
proof -
  have "in_doc X (Some crs) \<Longrightarrow> x_next X crs = Some bb \<Longrightarrow> x_next X bb = Some ot \<Longrightarrow> in_doc X (Some ot)" for crs bb ot
    using in_doc_next_Some by metis
  then show ?thesis
    using assms unfolding getmap_rest_def Let_def
    by (auto intro!: returns_intros bounding_box_returns getmap_output_returns getmap_optional_returns in_doc_next)
qed

text \<open>
  Reading a GetMap document comes to an end, whatever the document: all the loops over its elements end.
\<close>

lemma getmap_post_ends:
  assumes "reads X (Some e) [t]"
  shows "parseGetMapPost X e ps \<noteq> None"
proof -
  have d: "in_doc X (Some e)" using assms unfolding in_doc_def by blast
  have "returns (layers_loop X (Some l) '''' '''')" if "x_first X e = Some s" "x_first X s = Some l" for s l
    using d that by (intro doc_loops) (metis in_doc_first_Some)
  moreover have "returns (getmap_rest X (x_next X s) ps)" if "x_first X e = Some s" for s ps
    using d that by (intro getmap_rest_returns in_doc_next) (metis in_doc_first_Some)
  ultimately have "returns (parseGetMapPost X e ps)"
    unfolding parseGetMapPost_def Let_def
    by (auto intro!: returns_intros split: option.split)
  then show ?thesis by (simp add: returns_def)
qed


subsection \<open>GetTile documents\<close>

definition no_result :: "('x + 'a) option \<Rightarrow> bool" where
  "no_result r \<longleftrightarrow> (\<forall>a. r \<noteq> Some (Inr a))"

lemma no_result_with_element: "(\<And>e. no_result (f e)) \<Longrightarrow> no_result (with_element eo f)"
  by (cases eo) (simp_all add: no_result_def)

lemma no_result_bindO: "(\<And>a. no_result (f a)) \<Longrightarrow> no_result (bindO r f)"
  by (cases "(r, f)" rule: bindO.cases) (auto simp: no_result_def)

lemma no_result_bind_left: "no_result r \<Longrightarrow> no_result (bindO r f)"
  by (cases "(r, f)" rule: bindO.cases) (auto simp: no_result_def)

lemma gettile_matrix_no_result: "no_result (gettile_matrix X eo ps)"
  unfolding gettile_matrix_def Let_def with_element.simps(1)
  by (intro no_result_with_element no_result_bindO) (simp add: no_result_def)

lemma parseGetTilePost_no_result:
  assumes "x_attr X e ''service'' = Some s" "x_attr X e ''version'' = Some v"
  shows "no_result (parseGetTilePost X e ps)"
  using assms unfolding parseGetTilePost_def Let_def
  by (auto intro!: no_result_with_element no_result_bindO gettile_matrix_no_result)

text \<open>
  C: no GetTile document with a service and a version is ever answered: once the column
  has been read the code follows a null pointer, whatever the document holds, so the constructor
  of the request either faults or does not return.
\<close>

theorem gettile_post_fails:
  assumes "parse (content @ newline) = Some (Some e)" "content \<noteq> ''''" "x_value X e = ''GetTile''"
    "x_attr X e ''service'' = Some s" "x_attr X e ''version'' = Some v"
  shows "\<nexists>r. Request_post X parse hostName path https content = Some (Inr r)"
proof -
  have "\<not> named X e ''GetCapabilities''" "\<not> named X e ''GetMap''" "named X e ''GetTile''"
    using assms(3) by (simp_all add: named_def)
  then have "no_result (parsePostContent X parse content [])"
    using assms parseGetTilePost_no_result by (simp add: parsePostContent_def)
  then have "no_result (Request_post X parse hostName path https content)"
    using assms(2) unfolding Request_post_def by (intro no_result_bindO [OF no_result_bind_left]) simp
  then show ?thesis by (simp add: no_result_def)
qed

theorem gettile_post_fails_witness:
  "\<nexists>r. Request_post dom (\<lambda>s. Some (Some [Xml ''GetTile'' [(''service'', ''WMTS''), (''version'', ''1.0.0'')] None []]))
     (Some ''h'') (Some '''') None ''<GetTile/>'' = Some (Inr r)"
  by (rule gettile_post_fails [where e = "[Xml ''GetTile'' [(''service'', ''WMTS''), (''version'', ''1.0.0'')] None []]"
      and s = "''WMTS''" and v = "''1.0.0''"]) simp_all

text \<open>A dimension without a name is read again and again.\<close>

definition stuck :: "'e TinyXML \<Rightarrow> 'e option \<Rightarrow> bool" where
  "stuck X eo \<longleftrightarrow> (\<exists>e. eo = Some e \<and> named X e ''DimensionNameValue'' \<and> x_text X e \<noteq> None
     \<and> x_attr X e ''name'' = None)"

lemma dimension_loop_stays: "dimension_loop X eo ps = Some y \<Longrightarrow> \<not> stuck X eo"
proof (rule dimension_loop.raw_induct [where P = "\<lambda>X eo ps y. \<not> stuck X eo"])
  show "dimension_loop X eo ps = Some y" if "dimension_loop X eo ps = Some y" using that .
  fix f :: "'a TinyXML \<Rightarrow> 'a option \<Rightarrow> params \<Rightarrow> (fault + 'a option \<times> params) option" and X eo ps y
  assume IH: "\<And>X eo ps y. f X eo ps = Some y \<Longrightarrow> \<not> stuck X eo"
    and eq: "(case eo of None \<Rightarrow> Some (Inr (None, ps))
      | Some e \<Rightarrow> if named X e ''DimensionNameValue'' \<and> x_text X e \<noteq> None
          then case x_attr X e ''name'' of None \<Rightarrow> f X eo ps
            | Some n \<Rightarrow> f X (x_next X e) (insert_param n (getTextStrFromElem X e) ps)
          else Some (Inr (eo, ps))) = Some y"
  show "\<not> stuck X eo"
  proof
    assume "stuck X eo"
    then have "f X eo ps = Some y" using eq by (auto simp: stuck_def)
    with IH \<open>stuck X eo\<close> show False by blast
  qed
qed

text \<open>The elements of a tile request up to a dimension that has a text and no name.\<close>

definition nameless_dimension :: "string \<Rightarrow> string \<Rightarrow> xml list \<Rightarrow> xml" where
  "nameless_dimension service version rest =
     Xml ''GetTile'' [(''service'', service), (''version'', version)] None
       ([Xml ''Layer'' [] (Some ''l'') [], Xml ''Style'' [] (Some ''s'') [], Xml ''Format'' [] (Some ''f'') [],
         Xml ''DimensionNameValue'' [] (Some ''2020'') []] @ rest)"

text \<open>
  C: a GetTile document with a dimension that has a text but no name is never finished:
  the loop over the dimensions tests the same element for ever.
\<close>

theorem nameless_dimension_hangs:
  assumes "reads X (Some e) [nameless_dimension service version rest]"
  shows "parseGetTilePost X e ps = None"
proof -
  obtain l s f d where c: "x_attr X e = map_of [(''service'', service), (''version'', version)]"
    "x_first X e = Some l" "x_next X l = Some s" "x_next X s = Some f" "x_next X f = Some d"
    "x_value X d = ''DimensionNameValue''" "x_text X d = Some ''2020''" "x_attr X d = map_of []"
    using assms by (auto simp: nameless_dimension_def simp del: map_of.simps)
  have "named X d ''DimensionNameValue''" using c(6) by (simp add: named_def)
  then have "dimension_loop X (Some d) ps = None" for ps
    using dimension_loop_stays [of X "Some d" ps] c(7,8)
    by (cases "dimension_loop X (Some d) ps") (auto simp: stuck_def)
  then show ?thesis using c by (simp add: parseGetTilePost_def Let_def)
qed

theorem nameless_dimension_hangs_witness:
  "parseGetTilePost dom [nameless_dimension ''WMTS'' ''1.0.0'' []] [] = None"
proof (rule nameless_dimension_hangs)
  show "reads dom (Some [nameless_dimension ''WMTS'' ''1.0.0'' []]) [nameless_dimension ''WMTS'' ''1.0.0'' []]"
    using dom_reads [of "[nameless_dimension ''WMTS'' ''1.0.0'' []]"] by (simp only: cursor_Cons)
qed


subsection \<open>GetMap documents and queries\<close>

text \<open>What a map request asks for, as a document and as the keys and values of a query.\<close>

record MapSpec =
  m_version :: string
  m_layers :: "(string \<times> string) list"
  m_crs :: string
  m_lower :: "string \<times> string"
  m_upper :: "string \<times> string"
  m_width :: string
  m_height :: string
  m_format :: string

definition leaf :: "string \<Rightarrow> string \<Rightarrow> xml" where
  "leaf name text = Xml name [] (Some text) []"

definition layer_xml :: "string \<times> string \<Rightarrow> xml" where
  "layer_xml l = Xml ''NamedLayer'' [] None
     [leaf ''Name'' (fst l), Xml ''NamedStyle'' [] None [leaf ''Name'' (snd l)]]"

definition corner :: "string \<times> string \<Rightarrow> string" where
  "corner c = fst c @ '' '' @ snd c"

definition map_xml :: "MapSpec \<Rightarrow> xml" where
  "map_xml m = Xml ''GetMap'' [(''version'', m_version m)] None
     [Xml ''StyledLayerDescriptor'' [] None (map layer_xml (m_layers m)),
      leaf ''CRS'' (m_crs m),
      Xml ''BoundingBox'' [] None
        [leaf ''LowerCorner'' (corner (m_lower m)), leaf ''UpperCorner'' (corner (m_upper m))],
      Xml ''Output'' [] None
        [Xml ''Size'' [] None [leaf ''Width'' (m_width m), leaf ''Height'' (m_height m)],
         leaf ''Format'' (m_format m)]]"

fun commas :: "string list \<Rightarrow> string" where
  "commas [] = ''''"
| "commas (s # ss) = s @ concat (map (\<lambda>s. '','' @ s) ss)"

definition map_query :: "MapSpec \<Rightarrow> (string \<times> string) list" where
  "map_query m =
     [(''service'', ''wms''), (''request'', ''getmap''), (''version'', m_version m),
      (''layers'', commas (map fst (m_layers m))), (''styles'', commas (map snd (m_layers m))),
      (''crs'', m_crs m),
      (''bbox'', commas [fst (m_lower m), snd (m_lower m), fst (m_upper m), snd (m_upper m)]),
      (''width'', m_width m), (''height'', m_height m), (''format'', m_format m)]"

definition plain_map :: "MapSpec \<Rightarrow> bool" where
  "plain_map m \<longleftrightarrow> m_layers m \<noteq> [] \<and> list_all (\<lambda>l. fst l \<noteq> '''') (m_layers m)
     \<and> list_all (\<lambda>s. CHR '' '' \<notin> set s) [fst (m_lower m), snd (m_lower m), fst (m_upper m)]
     \<and> list_all plain_pair (map_query m)"

lemma find_space: "CHR '' '' \<notin> set a \<Longrightarrow> find_sub '' '' (a @ '' '' @ b) = Some (length a)"
  by (induction a) auto

lemma replace_space_at: "CHR '' '' \<notin> set a \<Longrightarrow> replace_space (a @ '' '' @ b) = Inr (a @ '','' @ b)"
  unfolding replace_space_def find_space by simp

lemma named_iff: "named X e s \<longleftrightarrow> find_sub s (x_value X e) \<noteq> None"
  by (simp add: named_def)

lemma named_layer_doc:
  assumes "reads X (Some e) (layer_xml l # ts)"
  shows "named_layer X e layers styles = Some (Inr
    (layers @ (if layers = '''' then '''' else '','') @ fst l, styles @ (if layers = '''' then '''' else '','') @ snd l))"
proof -
  obtain n st sn where c: "x_first X e = Some n" "x_value X n = ''Name''" "x_text X n = Some (fst l)"
    "x_next X n = Some st" "x_value X st = ''NamedStyle''" "x_first X st = Some sn" "x_text X sn = Some (snd l)"
    using assms by (auto simp: layer_xml_def leaf_def)
  have "style_loop X st = Some (Some st)"
    using c(5) by (subst style_loop.simps) (simp add: named_iff)
  then have "style_loop X n = Some (Some st)"
    using c(2,4) by (subst style_loop.simps) (simp add: named_iff)
  then show ?thesis using c by (simp add: named_layer_def with_text_def Let_def)
qed

lemma dropWhile_layers: "dropWhile (\<lambda>t. xml_name t \<noteq> ''NamedLayer'') (map layer_xml ls) = map layer_xml ls"
  by (cases ls) (simp_all add: layer_xml_def)

lemma layers_loop_step:
  assumes "reads X (Some e) (layer_xml l # map layer_xml ls)"
  shows "layers_loop X (Some e) layers styles = layers_loop X (x_named X e ''NamedLayer'')
      (layers @ (if layers = '''' then '''' else '','') @ fst l) (styles @ (if layers = '''' then '''' else '','') @ snd l)"
    "reads X (x_named X e ''NamedLayer'') (map layer_xml ls)"
proof -
  have v: "x_value X e = ''NamedLayer''" using assms by (auto simp: layer_xml_def)
  then show "layers_loop X (Some e) layers styles = layers_loop X (x_named X e ''NamedLayer'')
      (layers @ (if layers = '''' then '''' else '','') @ fst l) (styles @ (if layers = '''' then '''' else '','') @ snd l)"
    using named_layer_doc [OF assms, of layers styles]
    by (subst layers_loop.simps) (simp add: named_iff)
  have "reads X (x_named X e ''NamedLayer'') (dropWhile (\<lambda>t. xml_name t \<noteq> ''NamedLayer'') (map layer_xml ls))"
    using assms by simp
  then show "reads X (x_named X e ''NamedLayer'') (map layer_xml ls)" by (simp only: dropWhile_layers)
qed

lemma layers_loop_more:
  assumes "reads X eo (map layer_xml ls)" "layers \<noteq> ''''"
  shows "layers_loop X eo layers styles = Some (Inr
    (layers @ concat (map (\<lambda>l. '','' @ fst l) ls), styles @ concat (map (\<lambda>l. '','' @ snd l) ls)))"
  using assms
proof (induction ls arbitrary: eo layers styles)
  case Nil
  then show ?case by (subst layers_loop.simps) simp
next
  case (Cons l ls)
  then obtain e where e: "eo = Some e" "reads X (Some e) (layer_xml l # map layer_xml ls)" by auto
  from Cons.IH [OF layers_loop_step(2) [OF e(2)]] Cons.prems(2) show ?case
    unfolding e(1) layers_loop_step(1) [OF e(2)] by simp
qed

lemma layers_loop_doc:
  assumes "reads X eo (map layer_xml (l # ls))" "fst l \<noteq> ''''"
  shows "layers_loop X eo '''' '''' = Some (Inr (commas (map fst (l # ls)), commas (map snd (l # ls))))"
proof -
  obtain e where e: "eo = Some e" "reads X (Some e) (layer_xml l # map layer_xml ls)" using assms by auto
  show ?thesis
    unfolding e(1) layers_loop_step(1) [OF e(2)]
    using layers_loop_more [OF layers_loop_step(2) [OF e(2)] assms(2), of "snd l"]
    by (simp add: comp_def)
qed


lemma bounding_box_doc:
  assumes "reads X (Some e) (Xml ''BoundingBox'' [] None [leaf ''LowerCorner'' (corner a), leaf ''UpperCorner'' (corner b)] # ts)"
    "CHR '' '' \<notin> set (fst a)" "CHR '' '' \<notin> set (snd a)" "CHR '' '' \<notin> set (fst b)"
  shows "bounding_box X e = Some (Inr (commas [fst a, snd a, fst b, snd b]))"
proof -
  obtain l u where c: "x_first X e = Some l" "x_text X l = Some (corner a)" "x_next X l = Some u"
    "x_text X u = Some (corner b)"
    using assms(1) by (auto simp: leaf_def)
  have "replace_space (corner a) = Inr (fst a @ '','' @ snd a)"
    using replace_space_at [OF assms(2), of "snd a"] by (simp add: corner_def)
  moreover have "CHR '' '' \<notin> set (fst a @ '','' @ snd a @ '','' @ fst b)" using assms by simp
  from replace_space_at [OF this, of "snd b"]
  have "replace_space ((fst a @ '','' @ snd a) @ '','' @ corner b) = Inr (commas [fst a, snd a, fst b, snd b])"
    by (simp add: corner_def)
  ultimately show ?thesis using c by (simp add: bounding_box_def with_text_def)
qed

lemma getmap_output_doc:
  assumes "reads X (Some e) [Xml ''Output'' [] None
      [Xml ''Size'' [] None [leaf ''Width'' w, leaf ''Height'' h], leaf ''Format'' f]]"
  shows "getmap_output X e ps = Some (Inr (insert_param ''format'' f (insert_param ''height'' h (insert_param ''width'' w ps))))"
proof -
  obtain s we he fe where c: "x_first X e = Some s" "x_first X s = Some we" "x_text X we = Some w"
    "x_next X we = Some he" "x_text X he = Some h" "x_next X s = Some fe" "x_text X fe = Some f" "x_next X fe = None"
    using assms by (auto simp: leaf_def)
  then show ?thesis
    by (simp add: getmap_output_def with_text_def optional_param_def options_loop.simps)
qed

lemma insert_pair_eq: "insert_pair (k, v) = insert_param (toLowerCase k) v"
  by (simp add: fun_eq_iff)

lemma getmap_doc:
  assumes "reads X (Some e) [map_xml m]" "plain_map m"
  shows "parseGetMapPost X e [] = Some (Inr (map_query m))"
proof -
  obtain sld crs bb out where c: "x_attr X e = map_of [(''version'', m_version m)]"
    "x_first X e = Some sld" "reads X (x_first X sld) (map layer_xml (m_layers m))"
    "x_next X sld = Some crs" "x_text X crs = Some (m_crs m)" "x_next X crs = Some bb"
    "x_next X bb = Some out" "x_next X out = None"
    using assms(1) by (auto simp: map_xml_def leaf_def simp del: map_of.simps)
  have b: "reads X (Some bb) [Xml ''BoundingBox'' [] None [leaf ''LowerCorner'' (corner (m_lower m)), leaf ''UpperCorner'' (corner (m_upper m))],
      Xml ''Output'' [] None [Xml ''Size'' [] None [leaf ''Width'' (m_width m), leaf ''Height'' (m_height m)], leaf ''Format'' (m_format m)]]"
    and o: "reads X (Some out) [Xml ''Output'' [] None [Xml ''Size'' [] None [leaf ''Width'' (m_width m), leaf ''Height'' (m_height m)],
         leaf ''Format'' (m_format m)]]"
    using assms(1) c(2,4,6,7) by (auto simp: map_xml_def simp del: map_of.simps)
  obtain l ls where ls: "m_layers m = l # ls" "fst l \<noteq> ''''"
    using assms(2) by (cases "m_layers m") (auto simp: plain_map_def)
  obtain le where le: "x_first X sld = Some le" using c(3) ls(1) by auto
  have loop: "layers_loop X (Some le) '''' '''' = Some (Inr (commas (map fst (m_layers m)), commas (map snd (m_layers m))))"
    using layers_loop_doc [of X "Some le" l ls] c(3) ls le by simp
  have nonempty: "commas (map fst (m_layers m)) \<noteq> ''''" using ls by simp
  have bbox: "bounding_box X bb = Some (Inr (commas [fst (m_lower m), snd (m_lower m), fst (m_upper m), snd (m_upper m)]))"
    using assms(2) by (intro bounding_box_doc [OF b]) (simp_all add: plain_map_def)
  have rest: "getmap_rest X (Some crs) ps = Some (Inr (insert_param ''format'' (m_format m) (insert_param ''height'' (m_height m)
      (insert_param ''width'' (m_width m)
        (insert_param ''bbox'' (commas [fst (m_lower m), snd (m_lower m), fst (m_upper m), snd (m_upper m)])
          (insert_param ''crs'' (m_crs m) ps))))))" for ps
    unfolding getmap_rest_def Let_def
    by (simp only: with_element.simps c(5-8) bbox bindO.simps getmap_output_doc [OF o] getTextStrFromElem_def
        option.case getmap_optional_def optional_param_def Let_def prod.case)
  have v: "x_attr X e ''version'' = Some (m_version m)" using c(1) by simp
  have i: "insert_param k v ps = ps @ [(k, v)]" if "list_all (\<lambda>p. fst p \<noteq> k) ps" for k v ps
    using that by (auto simp: insert_param_def list_all_iff map_of_eq_None_iff)
  show ?thesis
    unfolding parseGetMapPost_def Let_def v c(2,4) with_element.simps le option.case loop bindO.simps prod.case rest
    by (simp add: nonempty i map_query_def del: commas.simps)
qed


lemma insert_param_new: "list_all (\<lambda>p. fst p \<noteq> k) ps \<Longrightarrow> insert_param k v ps = ps @ [(k, v)]"
  by (auto simp: insert_param_def list_all_iff map_of_eq_None_iff)

lemma map_query_inserted: "fold insert_pair (map_query m) [] = map_query m"
  by (simp add: map_query_def insert_param_new toLowerCase_def tolower_def del: commas.simps)

text \<open>
  C12: a GetMap document and the query with the same content make the same request. For
  layers with names and styles, corners without spaces in the wrong place, and values without control
  characters and \<open>&\<close>, the constructor for POST gives from the document what the constructor for
  GET gives from the encoded keys and values.
\<close>

theorem getmap_post_is_get:
  assumes "reads X (Some e) [map_xml m]" "plain_map m" "parse (content @ newline) = Some (Some e)" "content \<noteq> ''''"
  shows "Request_post X parse (Some h) (Some p) https content
    = Some (Request_get (Some (query_of (map_query m) @ CHR 0x00 # rest)) (Some h) (Some p) https)"
proof -
  have nul: "CHR 0x00 \<notin> set (query_of (map_query m))" using query_printable control_nul by blast
  have plain: "\<forall>kv\<in>set (map_query m). plain_pair kv" using assms(2) by (simp add: plain_map_def list_all_iff)
  have "x_value X e = ''GetMap''" using assms(1) by (auto simp: map_xml_def)
  then have "parsePostContent X parse content [] = Some (Inr (map_query m))"
    using getmap_doc [OF assms(1,2)] assms(3) by (simp add: parsePostContent_def named_iff)
  then show ?thesis
    unfolding Request_get_eq [OF nul] decoded_query [OF plain] parse_pairs_joined [OF plain] map_query_inserted
    using assms(4) by (simp add: Request_post_def fresh_request_def string_of_ptr_def)
qed

definition sample_map :: MapSpec where
  "sample_map = \<lparr>m_version = ''1.3.0'', m_layers = [(''ortho'', ''normal''), (''roads'', '''')],
     m_crs = ''EPSG:3857'', m_lower = (''0'', ''1''), m_upper = (''2'', ''3''),
     m_width = ''256'', m_height = ''256'', m_format = ''image/png''\<rparr>"

theorem getmap_post_is_get_witness:
  "Request_post dom (\<lambda>s. Some (Some [map_xml sample_map])) (Some ''h'') (Some ''/p'') None ''<GetMap/>''
    = Some (Request_get (Some (query_of (map_query sample_map) @ CHR 0x00 # '''')) (Some ''h'') (Some ''/p'') None)"
proof (rule getmap_post_is_get [where e = "[map_xml sample_map]"])
  show "reads dom (Some [map_xml sample_map]) [map_xml sample_map]"
    using dom_reads [of "[map_xml sample_map]"] by (simp only: cursor_Cons)
  show "plain_map sample_map"
    by (simp add: plain_map_def sample_map_def map_query_def plain_pair_def key_end_def control_def)
qed simp_all


subsection \<open>GetMap documents with all their parts\<close>

text \<open>What a document can hold besides: the options of the output and the elements behind it.\<close>

datatype elevation = Values "string list" | Interval string string

record MapOptions =
  o_transparent :: "string option"
  o_bgcolor :: "string option"
  o_vendor :: "(string \<times> string) list"
  o_exceptions :: "string option"
  o_time :: "string option"
  o_elevation :: "elevation option"

definition optional_xml :: "string \<Rightarrow> string option \<Rightarrow> xml list" where
  "optional_xml name content = (case content of None \<Rightarrow> [] | Some t \<Rightarrow> [leaf name t])"

definition vendor_xml :: "string \<times> string \<Rightarrow> xml" where
  "vendor_xml p = Xml ''VendorOption'' [(''name'', fst p)] (Some (snd p)) []"

lemma vendor_xml_sel [simp]: "xml_name (vendor_xml p) = ''VendorOption''" "xml_attrs (vendor_xml p) = [(''name'', fst p)]"
  "xml_text (vendor_xml p) = Some (snd p)" "xml_children (vendor_xml p) = []"
  by (simp_all add: vendor_xml_def)

lemma leaf_sel [simp]: "xml_name (leaf n t) = n" "xml_attrs (leaf n t) = []" "xml_text (leaf n t) = Some t" "xml_children (leaf n t) = []"
  by (simp_all add: leaf_def)

definition elevation_xml :: "elevation option \<Rightarrow> xml list" where
  "elevation_xml el =
     (case el of
        None \<Rightarrow> []
      | Some (Values vs) \<Rightarrow> [Xml ''Elevation'' [] None (map (leaf ''Value'') vs)]
      | Some (Interval a b) \<Rightarrow> [Xml ''Elevation'' [] None [Xml ''Interval'' [] None [leaf ''Min'' a, leaf ''Max'' b]]])"

definition full_map_xml :: "MapSpec \<Rightarrow> MapOptions \<Rightarrow> xml" where
  "full_map_xml m p = Xml ''GetMap'' [(''version'', m_version m)] None
     ([Xml ''StyledLayerDescriptor'' [] None (map layer_xml (m_layers m)),
       leaf ''CRS'' (m_crs m),
       Xml ''BoundingBox'' [] None
         [leaf ''LowerCorner'' (corner (m_lower m)), leaf ''UpperCorner'' (corner (m_upper m))],
       Xml ''Output'' [] None
         ([Xml ''Size'' [] None [leaf ''Width'' (m_width m), leaf ''Height'' (m_height m)], leaf ''Format'' (m_format m)]
          @ optional_xml ''Transparent'' (o_transparent p) @ optional_xml ''BGcolor'' (o_bgcolor p) @ map vendor_xml (o_vendor p))]
      @ optional_xml ''Exceptions'' (o_exceptions p) @ optional_xml ''Time'' (o_time p) @ elevation_xml (o_elevation p))"

text \<open>The parameters they stand for.\<close>

definition optional_pair :: "string \<Rightarrow> string option \<Rightarrow> params" where
  "optional_pair key content = (case content of None \<Rightarrow> [] | Some t \<Rightarrow> [(key, t)])"

fun semicolons :: "(string \<times> string) list \<Rightarrow> string" where
  "semicolons [] = ''''"
| "semicolons ((n, t) # ps) = n @ '':'' @ t @ concat (map (\<lambda>(n, t). '';'' @ n @ '':'' @ t) ps)"

definition elevation_pair :: "elevation option \<Rightarrow> params" where
  "elevation_pair el =
     (case el of
        None \<Rightarrow> []
      | Some (Values vs) \<Rightarrow> [(''elevation'', commas vs)]
      | Some (Interval a b) \<Rightarrow> [(''elevation'', a @ ''/'' @ b)])"

definition option_pairs :: "MapOptions \<Rightarrow> params" where
  "option_pairs p =
     optional_pair ''transparent'' (o_transparent p) @ optional_pair ''bgcolor'' (o_bgcolor p)
     @ (if o_vendor p = [] then [] else [(''format_options'', semicolons (o_vendor p))])
     @ optional_pair ''exceptions'' (o_exceptions p) @ optional_pair ''time'' (o_time p)
     @ elevation_pair (o_elevation p)"

definition plain_options :: "MapOptions \<Rightarrow> bool" where
  "plain_options p \<longleftrightarrow>
     (case o_elevation p of Some (Values vs) \<Rightarrow> vs \<noteq> [] \<and> hd vs \<noteq> '''' | _ \<Rightarrow> True)"

text \<open>A key that is not there yet.\<close>

definition without :: "string \<Rightarrow> params \<Rightarrow> bool" where
  "without k ps \<longleftrightarrow> list_all (\<lambda>q. fst q \<noteq> k) ps"

lemma without_simps [simp]: "without k []" "without k (q # ps) \<longleftrightarrow> fst q \<noteq> k \<and> without k ps"
  "without k (ps @ qs) \<longleftrightarrow> without k ps \<and> without k qs" "k' \<noteq> k \<Longrightarrow> without k (optional_pair k' content)"
  by (simp_all add: without_def optional_pair_def split: option.split)

lemma insert_without: "without k ps \<Longrightarrow> insert_param k v ps = ps @ [(k, v)]"
  by (simp add: without_def insert_param_new)

lemma optional_without:
  "without k ps \<Longrightarrow> (case content of None \<Rightarrow> ps | Some t \<Rightarrow> insert_param k t ps) = ps @ optional_pair k content"
  by (simp add: optional_pair_def insert_without split: option.split)

lemma optional_param_doc:
  assumes "reads X eo (optional_xml name content @ ts)" "ts = [] \<or> find_sub name (xml_name (hd ts)) = None" "find_sub name name \<noteq> None"
  obtains eo' where "optional_param X name key eo ps = (eo', case content of None \<Rightarrow> ps | Some t \<Rightarrow> insert_param key t ps)" "reads X eo' ts"
proof (cases content)
  case None
  show ?thesis
  proof (cases ts)
    case Nil
    then show ?thesis using assms(1) None that [of eo] by (simp add: optional_xml_def optional_param_def)
  next
    case (Cons t us)
    then show ?thesis using assms(1,2) None that [of eo]
      by (auto simp: optional_xml_def optional_param_def named_iff split: option.split)
  qed
next
  case (Some x)
  then obtain e where e: "eo = Some e" "x_value X e = name" "x_text X e = Some x" "reads X (x_next X e) ts"
    using assms(1) by (auto simp: optional_xml_def leaf_def)
  then show ?thesis using assms(3) Some that [of "x_next X e"] by (simp add: optional_param_def named_iff)
qed

lemma optional_param_new:
  assumes "reads X eo (optional_xml name content @ ts)" "ts = [] \<or> find_sub name (xml_name (hd ts)) = None" "find_sub name name \<noteq> None"
    "without key ps"
  obtains eo' where "optional_param X name key eo ps = (eo', ps @ optional_pair key content)" "reads X eo' ts"
  using optional_param_doc [OF assms(1-3), of key ps] unfolding optional_without [OF assms(4)] by blast

lemma options_loop_more:
  assumes "reads X eo (map vendor_xml vs)" "opts \<noteq> ''''"
  shows "options_loop X eo opts = Some (Inr (opts @ concat (map (\<lambda>(n, t). '';'' @ n @ '':'' @ t) vs)))"
  using assms
proof (induction vs arbitrary: eo opts)
  case Nil
  then show ?case by (subst options_loop.simps) simp
next
  case (Cons p vs)
  then obtain e where e: "eo = Some e" "x_value X e = ''VendorOption''" "x_attr X e = map_of [(''name'', fst p)]"
    "x_text X e = Some (snd p)" "reads X (x_next X e) (map vendor_xml vs)" by (auto simp del: map_of.simps)
  have "options_loop X eo opts = options_loop X (x_next X e) (opts @ '';'' @ fst p @ '':'' @ snd p)"
    unfolding e(1) using e(2-4) Cons.prems(2) by (subst options_loop.simps) (simp add: format_option_def named_iff)
  with Cons.IH [OF e(5), of "opts @ '';'' @ fst p @ '':'' @ snd p"] show ?case by (simp add: case_prod_beta)
qed

lemma options_loop_doc:
  assumes "reads X eo (map vendor_xml vs)"
  shows "options_loop X eo '''' = Some (Inr (semicolons vs))"
proof (cases vs)
  case Nil
  then show ?thesis using assms by (subst options_loop.simps) simp
next
  case (Cons p ps)
  then obtain e where e: "eo = Some e" "x_value X e = ''VendorOption''" "x_attr X e = map_of [(''name'', fst p)]"
    "x_text X e = Some (snd p)" "reads X (x_next X e) (map vendor_xml ps)" using assms by (auto simp del: map_of.simps)
  have "options_loop X eo '''' = options_loop X (x_next X e) (fst p @ '':'' @ snd p)"
    unfolding e(1) using e(2-4) by (subst options_loop.simps) (simp add: format_option_def named_iff)
  with options_loop_more [OF e(5), of "fst p @ '':'' @ snd p"] Cons show ?thesis by (cases p) simp
qed

lemma elevation_loop_more:
  assumes "reads X eo (map (leaf ''Value'') vs)" "el \<noteq> ''''"
  shows "elevation_loop X eo el = Some (Inr (el @ concat (map (\<lambda>s. '','' @ s) vs)))"
  using assms
proof (induction vs arbitrary: eo el)
  case Nil
  then show ?case by (subst elevation_loop.simps) simp
next
  case (Cons t vs)
  have d: "dropWhile (\<lambda>t. xml_name t \<noteq> ''Value'') (map (leaf ''Value'') vs) = map (leaf ''Value'') vs"
    by (cases vs) simp_all
  obtain e where e: "eo = Some e" "x_value X e = ''Value''" "x_text X e = Some t"
    and n: "reads X (x_named X e ''Value'') (dropWhile (\<lambda>t. xml_name t \<noteq> ''Value'') (map (leaf ''Value'') vs))"
    using Cons.prems(1) by auto
  have "elevation_loop X eo el = elevation_loop X (x_named X e ''Value'') (el @ '','' @ t)"
    unfolding e(1) using e(2,3) Cons.prems(2) by (subst elevation_loop.simps) simp
  with Cons.IH [OF n [unfolded d], of "el @ '','' @ t"] show ?case by simp
qed

lemma elevation_loop_doc:
  assumes "reads X (Some e) (map (leaf ''Value'') (t # vs))" "t \<noteq> ''''"
  shows "elevation_loop X (Some e) '''' = Some (Inr (commas (t # vs)))"
proof -
  have d: "dropWhile (\<lambda>t. xml_name t \<noteq> ''Value'') (map (leaf ''Value'') vs) = map (leaf ''Value'') vs"
    by (cases vs) simp_all
  have e: "x_value X e = ''Value''" "x_text X e = Some t"
    and n: "reads X (x_named X e ''Value'') (dropWhile (\<lambda>t. xml_name t \<noteq> ''Value'') (map (leaf ''Value'') vs))"
    using assms(1) by auto
  have "elevation_loop X (Some e) '''' = elevation_loop X (x_named X e ''Value'') t"
    using e by (subst elevation_loop.simps) simp
  with elevation_loop_more [OF n [unfolded d] assms(2)] show ?thesis by (simp only: commas.simps)
qed

lemma getmap_optional_doc:
  assumes "reads X eo (optional_xml ''Exceptions'' (o_exceptions p) @ optional_xml ''Time'' (o_time p) @ elevation_xml (o_elevation p))"
    "plain_options p" "without ''exceptions'' ps" "without ''time'' ps" "without ''elevation'' ps"
  shows "getmap_optional X eo ps = Some (Inr
    (ps @ optional_pair ''exceptions'' (o_exceptions p) @ optional_pair ''time'' (o_time p) @ elevation_pair (o_elevation p)))"
proof -
  let ?ps1 = "ps @ optional_pair ''exceptions'' (o_exceptions p)"
  let ?ps2 = "?ps1 @ optional_pair ''time'' (o_time p)"
  have names: "optional_xml ''Time'' (o_time p) @ elevation_xml (o_elevation p) = []
      \<or> find_sub ''Exceptions'' (xml_name (hd (optional_xml ''Time'' (o_time p) @ elevation_xml (o_elevation p)))) = None"
    "elevation_xml (o_elevation p) = [] \<or> find_sub ''Time'' (xml_name (hd (elevation_xml (o_elevation p)))) = None"
    by (auto simp: optional_xml_def elevation_xml_def leaf_def split: option.split elevation.split)
  have self: "find_sub ''Exceptions'' ''Exceptions'' \<noteq> None" "find_sub ''Time'' ''Time'' \<noteq> None" by simp_all
  obtain eo1 where 1: "optional_param X ''Exceptions'' ''exceptions'' eo ps = (eo1, ?ps1)"
    "reads X eo1 (optional_xml ''Time'' (o_time p) @ elevation_xml (o_elevation p))"
    using optional_param_new [OF assms(1) names(1) self(1) assms(3)] by blast
  have new: "without ''time'' ?ps1" "without ''elevation'' ?ps2" using assms(4,5) by simp_all
  obtain eo2 where 2: "optional_param X ''Time'' ''time'' eo1 ?ps1 = (eo2, ?ps2)" "reads X eo2 (elevation_xml (o_elevation p))"
    using optional_param_new [OF 1(2) names(2) self(2) new(1)] by blast
  have el: "insert_param ''elevation'' v ?ps2 = ?ps2 @ [(''elevation'', v)]" for v
    by (rule insert_without [OF new(2)])
  have opt: "getmap_optional X eo ps = (case eo2 of None \<Rightarrow> Some (Inr ?ps2)
     | Some e \<Rightarrow> if \<not> named X e ''Elevation'' then Some (Inr ?ps2)
         else (case x_first X e of None \<Rightarrow> Some (Inr ?ps2)
           | Some e \<Rightarrow> bindO (elevation_of X e) (\<lambda>v. Some (Inr (insert_param ''elevation'' v ?ps2)))))"
    by (simp only: getmap_optional_def Let_def 1(1) 2(1) prod.case)
  show ?thesis
  proof (cases "o_elevation p")
    case None
    then show ?thesis unfolding opt using 2(2) by (simp add: elevation_xml_def elevation_pair_def)
  next
    case (Some el)
    show ?thesis
    proof (cases el)
      case (Values vs)
      then obtain t us where vs: "vs = t # us" "t \<noteq> ''''" using assms(2) Some by (cases vs) (auto simp: plain_options_def)
      obtain e where e: "eo2 = Some e" "x_value X e = ''Elevation''" "reads X (x_first X e) (map (leaf ''Value'') vs)"
        using 2(2) Some Values by (auto simp: elevation_xml_def)
      obtain f where f: "x_first X e = Some f" "x_value X f = ''Value''" using e(3) vs by auto
      have "elevation_of X f = Some (Inr (commas vs))"
        using elevation_loop_doc [of X f t us] e(3) f vs by (simp add: elevation_of_def named_iff del: commas.simps)
      then show ?thesis unfolding opt using e(1,2) f(1) Some Values el by (simp add: named_iff elevation_pair_def del: commas.simps)
    next
      case (Interval a b)
      obtain e f mn mx where e: "eo2 = Some e" "x_value X e = ''Elevation''" "x_first X e = Some f" "x_value X f = ''Interval''"
        "x_first X f = Some mn" "x_text X mn = Some a" "x_next X mn = Some mx" "x_text X mx = Some b"
        using 2(2) Some Interval by (auto simp: elevation_xml_def leaf_def)
      then show ?thesis unfolding opt using Some Interval el
        by (simp add: elevation_of_def named_iff getTextStrFromElem_def elevation_pair_def)
    qed
  qed
qed

lemma getmap_output_options:
  assumes "reads X (Some e) (Xml ''Output'' [] None
      ([Xml ''Size'' [] None [leaf ''Width'' w, leaf ''Height'' h], leaf ''Format'' f]
       @ optional_xml ''Transparent'' (o_transparent p) @ optional_xml ''BGcolor'' (o_bgcolor p) @ map vendor_xml (o_vendor p)) # ts)"
    and new: "without ''width'' ps" "without ''height'' ps" "without ''format'' ps" "without ''transparent'' ps" "without ''bgcolor'' ps"
      "without ''format_options'' ps"
  shows "getmap_output X e ps = Some (Inr
    (ps @ [(''width'', w), (''height'', h), (''format'', f)] @ optional_pair ''transparent'' (o_transparent p)
      @ optional_pair ''bgcolor'' (o_bgcolor p)
      @ (if o_vendor p = [] then [] else [(''format_options'', semicolons (o_vendor p))])))"
proof -
  let ?ps0 = "ps @ [(''width'', w), (''height'', h), (''format'', f)]"
  let ?ps1 = "?ps0 @ optional_pair ''transparent'' (o_transparent p)"
  let ?ps2 = "?ps1 @ optional_pair ''bgcolor'' (o_bgcolor p)"
  have ps0: "insert_param ''format'' f (insert_param ''height'' h (insert_param ''width'' w ps)) = ?ps0"
    using new by (simp add: insert_without)
  have new': "without ''transparent'' ?ps0" "without ''bgcolor'' ?ps1" "without ''format_options'' ?ps2" using new by simp_all
  obtain s we he fe where c: "x_first X e = Some s" "x_first X s = Some we" "x_text X we = Some w"
    "x_next X we = Some he" "x_text X he = Some h" "x_next X s = Some fe" "x_text X fe = Some f"
    "reads X (x_next X fe) (optional_xml ''Transparent'' (o_transparent p) @ optional_xml ''BGcolor'' (o_bgcolor p) @ map vendor_xml (o_vendor p))"
    using assms(1) by (auto simp: leaf_def)
  have names: "optional_xml ''BGcolor'' (o_bgcolor p) @ map vendor_xml (o_vendor p) = []
      \<or> find_sub ''Transparent'' (xml_name (hd (optional_xml ''BGcolor'' (o_bgcolor p) @ map vendor_xml (o_vendor p)))) = None"
    "map vendor_xml (o_vendor p) = [] \<or> find_sub ''BGcolor'' (xml_name (hd (map vendor_xml (o_vendor p)))) = None"
    by (cases "o_vendor p"; auto simp: optional_xml_def vendor_xml_def leaf_def split: option.split)+
  have self: "find_sub ''Transparent'' ''Transparent'' \<noteq> None" "find_sub ''BGcolor'' ''BGcolor'' \<noteq> None" by simp_all
  obtain eo1 where 1: "optional_param X ''Transparent'' ''transparent'' (x_next X fe) ?ps0 = (eo1, ?ps1)"
    "reads X eo1 (optional_xml ''BGcolor'' (o_bgcolor p) @ map vendor_xml (o_vendor p))"
    using optional_param_new [OF c(8) names(1) self(1) new'(1)] by blast
  obtain eo2 where 2: "optional_param X ''BGcolor'' ''bgcolor'' eo1 ?ps1 = (eo2, ?ps2)" "reads X eo2 (map vendor_xml (o_vendor p))"
    using optional_param_new [OF 1(2) names(2) self(2) new'(2)] by blast
  have last: "(if semicolons (o_vendor p) = '''' then ?ps2 else insert_param ''format_options'' (semicolons (o_vendor p)) ?ps2)
      = ?ps2 @ (if o_vendor p = [] then [] else [(''format_options'', semicolons (o_vendor p))])"
    unfolding insert_without [OF new'(3)] by (cases "o_vendor p" rule: semicolons.cases) simp_all
  have "getmap_output X e ps = Some (Inr
      (if semicolons (o_vendor p) = '''' then ?ps2 else insert_param ''format_options'' (semicolons (o_vendor p)) ?ps2))"
    by (simp only: getmap_output_def with_text_def with_element.simps c(1-7) option.case Let_def ps0 1(1) 2(1) prod.case
        options_loop_doc [OF 2(2)] bindO.simps)
  then show ?thesis unfolding last by simp
qed

text \<open>
  C31: a GetMap document with any of its optional elements (transparency, background, vendor options,
  exceptions, time, elevations) is read to its end without a null pointer, and gives the parameters of
  the query with the same content: those of the map, and one for each element that is there.
\<close>

theorem getmap_post_options:
  assumes "reads X (Some e) [full_map_xml m p]" "plain_map m" "plain_options p"
  shows "parseGetMapPost X e [] = Some (Inr (map_query m @ option_pairs p))"
proof -
  obtain sld crs bb out where c: "x_attr X e = map_of [(''version'', m_version m)]"
    "x_first X e = Some sld" "reads X (x_first X sld) (map layer_xml (m_layers m))"
    "x_next X sld = Some crs" "x_text X crs = Some (m_crs m)" "x_next X crs = Some bb"
    "x_next X bb = Some out"
    "reads X (x_next X out) (optional_xml ''Exceptions'' (o_exceptions p) @ optional_xml ''Time'' (o_time p) @ elevation_xml (o_elevation p))"
    using assms(1) by (auto simp: full_map_xml_def leaf_def simp del: map_of.simps)
  obtain ts ts' where b: "reads X (Some bb) (Xml ''BoundingBox'' [] None [leaf ''LowerCorner'' (corner (m_lower m)), leaf ''UpperCorner'' (corner (m_upper m))] # ts)"
    and o: "reads X (Some out) (Xml ''Output'' [] None
         ([Xml ''Size'' [] None [leaf ''Width'' (m_width m), leaf ''Height'' (m_height m)], leaf ''Format'' (m_format m)]
          @ optional_xml ''Transparent'' (o_transparent p) @ optional_xml ''BGcolor'' (o_bgcolor p) @ map vendor_xml (o_vendor p)) # ts')"
  proof -
    let ?out = "Xml ''Output'' [] None
         ([Xml ''Size'' [] None [leaf ''Width'' (m_width m), leaf ''Height'' (m_height m)], leaf ''Format'' (m_format m)]
          @ optional_xml ''Transparent'' (o_transparent p) @ optional_xml ''BGcolor'' (o_bgcolor p) @ map vendor_xml (o_vendor p))"
    let ?ts = "optional_xml ''Exceptions'' (o_exceptions p) @ optional_xml ''Time'' (o_time p) @ elevation_xml (o_elevation p)"
    have "reads X (x_first X e) (Xml ''StyledLayerDescriptor'' [] None (map layer_xml (m_layers m)) # leaf ''CRS'' (m_crs m)
        # Xml ''BoundingBox'' [] None [leaf ''LowerCorner'' (corner (m_lower m)), leaf ''UpperCorner'' (corner (m_upper m))] # ?out # ?ts)"
      using reads_first [OF assms(1)] by (simp only: full_map_xml_def xml.sel append_Cons append_Nil)
    then have "reads X (Some bb) (Xml ''BoundingBox'' [] None [leaf ''LowerCorner'' (corner (m_lower m)), leaf ''UpperCorner'' (corner (m_upper m))] # ?out # ?ts)"
      using reads_next c(2,4,6) by metis
    moreover from reads_next [OF this] have "reads X (Some out) (?out # ?ts)" using c(7) by simp
    ultimately show ?thesis using that by blast
  qed
  obtain l ls where ls: "m_layers m = l # ls" "fst l \<noteq> ''''"
    using assms(2) by (cases "m_layers m") (auto simp: plain_map_def)
  obtain le where le: "x_first X sld = Some le" using c(3) ls(1) by auto
  have loop: "layers_loop X (Some le) '''' '''' = Some (Inr (commas (map fst (m_layers m)), commas (map snd (m_layers m))))"
    using layers_loop_doc [of X "Some le" l ls] c(3) ls le by simp
  have nonempty: "commas (map fst (m_layers m)) \<noteq> ''''" using ls by simp
  have bbox: "bounding_box X bb = Some (Inr (commas [fst (m_lower m), snd (m_lower m), fst (m_upper m), snd (m_upper m)]))"
    using assms(2) by (intro bounding_box_doc [OF b]) (simp_all add: plain_map_def)
  have v: "x_attr X e ''version'' = Some (m_version m)" using c(1) by simp
  let ?ps = "[(''service'', ''wms''), (''request'', ''getmap''), (''version'', m_version m),
      (''layers'', commas (map fst (m_layers m))), (''styles'', commas (map snd (m_layers m)))]"
  let ?ps' = "?ps @ [(''crs'', m_crs m), (''bbox'', commas [fst (m_lower m), snd (m_lower m), fst (m_upper m), snd (m_upper m)])]"
  have layers: "parseGetMapPost X e [] = getmap_rest X (Some crs) ?ps"
    unfolding parseGetMapPost_def Let_def v c(2,4) with_element.simps le option.case loop bindO.simps prod.case if_not_P [OF nonempty]
    by (simp add: insert_without del: commas.simps)
  have ps': "insert_param ''bbox'' b (insert_param ''crs'' c ?ps) = ?ps @ [(''crs'', c), (''bbox'', b)]" for b c
    by (simp add: insert_without del: commas.simps)
  have rest: "getmap_rest X (Some crs) ?ps = bindO (getmap_output X out ?ps') (getmap_optional X (x_next X out))"
    unfolding getmap_rest_def Let_def with_element.simps c(5-7) getTextStrFromElem_def option.case bbox bindO.simps ps' by simp
  show ?thesis unfolding layers rest
    by (simp add: getmap_output_options [OF o] getmap_optional_doc [OF c(8) assms(3)] option_pairs_def map_query_def
        del: commas.simps)
qed

definition sample_options :: MapOptions where
  "sample_options = \<lparr>o_transparent = Some ''true'', o_bgcolor = None, o_vendor = [(''dpi'', ''96''), (''quality'', ''75'')],
     o_exceptions = Some ''xml'', o_time = None, o_elevation = Some (Values [''1'', ''2''])\<rparr>"

theorem getmap_post_options_witness:
  "parseGetMapPost dom [full_map_xml sample_map sample_options] []
    = Some (Inr (map_query sample_map @ [(''transparent'', ''true''), (''format_options'', ''dpi:96;quality:75''),
        (''exceptions'', ''xml''), (''elevation'', ''1,2'')]))"
proof -
  have "parseGetMapPost dom [full_map_xml sample_map sample_options] [] = Some (Inr (map_query sample_map @ option_pairs sample_options))"
  proof (rule getmap_post_options)
    show "reads dom (Some [full_map_xml sample_map sample_options]) [full_map_xml sample_map sample_options]"
      using dom_reads [of "[full_map_xml sample_map sample_options]"] by (simp only: cursor_Cons)
    show "plain_map sample_map"
      by (simp add: plain_map_def sample_map_def map_query_def plain_pair_def key_end_def control_def)
    show "plain_options sample_options" by (simp add: plain_options_def sample_options_def)
  qed
  then show ?thesis by (simp add: option_pairs_def sample_options_def optional_pair_def elevation_pair_def)
qed

end
