(* ===== verification/Palettes.thy ===== *)
theory Palettes
  imports TiffHeaders
begin

text \<open>
  lib/libimage/Palette.cpp and PaletteDataSource.cpp: the colours of a style as the chunks PLTE and
  tRNS of a PNG, and the data source that puts them into the PNG of a tile.

  The interpolation of colours (\<open>getColour\<close>) works on doubles: a palette has the function from the
  256 levels to their colours. \<open>crc32\<close> is the one of zlib, \<open>crc32 (0, Z_NULL, 0)\<close> reads nothing.
\<close>

subsection \<open>Palettes\<close>

record Colour =
  co_r :: u8
  co_g :: u8
  co_b :: u8
  co_a :: int

record Palette =
  pal_colours :: "(nat \<Rightarrow> Colour) option"  \<comment> \<open>getColour, and None for an empty map\<close>
  pal_noAlpha :: bool
  pal_initialised :: bool
  pal_png :: bytes                         \<comment> \<open>pngPalette, of pngPaletteSize bytes\<close>

type_synonym crc32 = "u32 \<Rightarrow> bytes \<Rightarrow> u32"

definition Palette_empty :: Palette where
  "Palette_empty = \<lparr>pal_colours = None, pal_noAlpha = False, pal_initialised = False, pal_png = []\<rparr>"

definition Palette_new :: "(nat \<Rightarrow> Colour) option \<Rightarrow> bool \<Rightarrow> Palette" where
  "Palette_new colours noAlpha =
     \<lparr>pal_colours = colours, pal_noAlpha = noAlpha, pal_initialised = False, pal_png = []\<rparr>"

definition bswap_32 :: "u32 \<Rightarrow> u32" where
  "bswap_32 w = word_of_nat (le_nat (rev (put32 w)))"

text \<open>A colour map without transparency has the alpha -1.\<close>

definition level_colour :: "(nat \<Rightarrow> Colour) \<Rightarrow> nat \<Rightarrow> Colour" where
  "level_colour getColour k =
     (let c = getColour k in c\<lparr>co_a := (if co_a c = -1 then 255 - int k else co_a c)\<rparr>)"

fun colours_loop :: "bool \<Rightarrow> nat \<Rightarrow> nat \<Rightarrow> Colour list \<Rightarrow> u8 option list \<Rightarrow> fault + u8 option list" where
  "colours_loop noAlpha paletteLength i [] buf = Inr buf"
| "colours_loop noAlpha paletteLength i (c # cs) buf =
     bindR (store_at (3 * i + 8) [co_r c, co_g c, co_b c] buf) (\<lambda>buf.
     bindR (if noAlpha then Inr buf
            else store_at (paletteLength + 12 + i + 8) [word_of_int (co_a c)] buf) (\<lambda>buf.
     colours_loop noAlpha paletteLength (i + 1) cs buf))"

text \<open>\<open>crc32\<close> of \<open>n\<close> bytes of the buffer from \<open>off\<close> on, and its store.\<close>

definition store_crc ::
    "crc32 \<Rightarrow> nat \<Rightarrow> nat \<Rightarrow> nat \<Rightarrow> u8 option list \<Rightarrow> fault + u8 option list" where
  "store_crc crc off n at buf =
     (if length buf < off + n then Inl OverRead
      else bindR (written (take n (drop off buf))) (\<lambda>b.
        store_at at (put32 (bswap_32 (crc (crc 0 []) b))) buf))"

definition palette_chunks :: "crc32 \<Rightarrow> bool \<Rightarrow> Colour list \<Rightarrow> fault + bytes" where
  "palette_chunks crc noAlpha colours =
     (let n = length colours; len = 3 * n
      in bindR (store_at 0 (put32 (bswap_32 (word_of_nat len)))
                  (replicate (len + 12 + (if noAlpha then 0 else n + 12)) (Some 0))) (\<lambda>buf.
         bindR (store_at 0 ([0, 0, 3, 0] @ map byte_of ''PLTE'') buf) (\<lambda>buf.
         bindR (if noAlpha then Inr buf
                else store_at (len + 12) ([0, 0, 3, 0] @ map byte_of ''tRNS'') buf) (\<lambda>buf.
         bindR (colours_loop noAlpha len 0 colours buf) (\<lambda>buf.
         bindR (store_crc crc 4 (len + 4) (len + 8) buf) (\<lambda>buf.
         bindR (if noAlpha then Inr buf
                else bindR (store_crc crc (len + 12 + 4) (4 + n) (len + 12 + 8 + n) buf)
                       (store_at (len + 12) (put32 (bswap_32 (word_of_nat n))))) written))))))"

definition buildPalettePNG :: "crc32 \<Rightarrow> Palette \<Rightarrow> fault + Palette" where
  "buildPalettePNG crc p =
     (case pal_colours p of
        None \<Rightarrow> Inr (p\<lparr>pal_png := [], pal_initialised := True\<rparr>)
      | Some getColour \<Rightarrow>
          bindR (palette_chunks crc (pal_noAlpha p) (map (level_colour getColour) [0..<256])) (\<lambda>png.
          Inr (p\<lparr>pal_png := png, pal_initialised := True\<rparr>)))"

text \<open>\<open>getPalettePNGSize\<close> and \<open>getPalettePNG\<close> build the chunks when they are first asked.\<close>

definition built :: "crc32 \<Rightarrow> Palette \<Rightarrow> fault + Palette" where
  "built crc p = (if pal_initialised p then Inr p else buildPalettePNG crc p)"

subsection \<open>PaletteDataSource\<close>

record 'd PaletteDataSource =
  pd_dataSource :: 'd
  pd_palette :: Palette
  pd_data :: "u8 option list"   \<comment> \<open>data, of dataSize bytes\<close>

definition PaletteDataSource_new ::
    "crc32 \<Rightarrow> 'd DataSource \<Rightarrow> 'd \<Rightarrow> Palette option \<Rightarrow> fault + 'd PaletteDataSource" where
  "PaletteDataSource_new crc D d mpalette =
     (let p = (case mpalette of None \<Rightarrow> Palette_empty
               | Some p \<Rightarrow> if ds_getType D d = ''image/png'' then p else Palette_empty)
      in bindR (built crc p) (\<lambda>p.
        if pal_png p = [] then Inr \<lparr>pd_dataSource = d, pd_palette = p, pd_data = []\<rparr>
        else
          (case ds_getData D d of
             (Inl f, _) \<Rightarrow> Inl f
           | (Inr (_, None), _) \<Rightarrow> Inl Uninitialised
           | (Inr (tmp, Some n), d) \<Rightarrow>
               bindR (read_ptr tmp 33) (\<lambda>hdr.
               bindR (store_at 0 hdr (replicate (n + length (pal_png p) + 1) None)) (\<lambda>buf.
               bindR (store_at 25 [3] buf) (\<lambda>buf.
               bindR (store_crc crc 12 17 29 buf) (\<lambda>buf.
               bindR (store_at 33 (pal_png p) buf) (\<lambda>buf.
               bindR (read_ptr tmp n) (\<lambda>all.
               bindR (store_at (33 + length (pal_png p)) (drop 33 all) buf) (\<lambda>buf.
               Inr \<lparr>pd_dataSource = d, pd_palette = p, pd_data = buf\<rparr>))))))))))"

definition pd_getData ::
    "crc32 \<Rightarrow> 'd DataSource \<Rightarrow> 'd PaletteDataSource \<Rightarrow> (fault + bytes option \<times> nat option) \<times> 'd PaletteDataSource" where
  "pd_getData crc D s =
     (if pal_png (pd_palette s) \<noteq> []
      then (map_sum id (\<lambda>b. (Some b, Some (length b))) (written (pd_data s)), s)
      else case ds_getData D (pd_dataSource s) of (r, d) \<Rightarrow> (r, s\<lparr>pd_dataSource := d\<rparr>))"

definition pd_getLength :: "'d DataSource \<Rightarrow> 'd PaletteDataSource \<Rightarrow> nat" where
  "pd_getLength D s =
     (if pal_png (pd_palette s) \<noteq> [] then length (pd_data s) mod 2 ^ 32 else ds_getLength D (pd_dataSource s))"

definition palette_source :: "crc32 \<Rightarrow> 'd DataSource \<Rightarrow> 'd PaletteDataSource DataSource" where
  "palette_source crc D =
     \<lparr>ds_getData = pd_getData crc D,
      ds_releaseData = (\<lambda>s. case ds_releaseData D (pd_dataSource s) of (r, d) \<Rightarrow> (r, s\<lparr>pd_dataSource := d\<rparr>)),
      ds_getType = (\<lambda>s. ds_getType D (pd_dataSource s)),
      ds_getHttpStatus = (\<lambda>s. ds_getHttpStatus D (pd_dataSource s)),
      ds_getEncoding = (\<lambda>s. ds_getEncoding D (pd_dataSource s)), ds_getLength = pd_getLength D\<rparr>"

subsection \<open>Chunks\<close>

definition png_chunk :: "crc32 \<Rightarrow> string \<Rightarrow> bytes \<Rightarrow> bytes" where
  "png_chunk crc type b =
     rev (put32 (word_of_nat (length b))) @ map byte_of type @ b
     @ rev (put32 (crc (crc 0 []) (map byte_of type @ b)))"

lemma le_bytes_le_nat: "le_bytes (length b) (le_nat b) = b"
proof (induction b)
  case (Cons x b)
  then show ?case using unsigned_less [of x, where 'a = nat] by simp
qed simp

lemma le_nat_less: "le_nat b < 256 ^ length b"
proof (induction b)
  case (Cons x b)
  then show ?case using unsigned_less [of x, where 'a = nat] by simp
qed simp

lemma put32_bswap: "put32 (bswap_32 w) = rev (put32 w)"
proof -
  have "le_nat (rev (put32 w)) < 2 ^ 32" using le_nat_less [of "rev (put32 w)"] by simp
  then show ?thesis
    using le_bytes_le_nat [of "rev (put32 w)"] by (simp add: bswap_32_def put32_def)
qed

lemma store_piece:
  assumes "length bs = n" "n \<le> length z" "off = length a"
  shows "store_at off bs (map Some (a @ z @ c)) = Inr (map Some (a @ bs @ drop n z @ c))"
  using assms by (simp add: store_at_def drop_map)

lemma colours_opaque:
  assumes "length a = 8" "length old = 3 * i" "length zs = 3 * length cs"
  shows "colours_loop True len i cs (map Some (a @ old @ zs @ c)) =
    Inr (map Some (a @ old @ concat (map (\<lambda>c. [co_r c, co_g c, co_b c]) cs) @ c))"
  using assms
proof (induction cs arbitrary: i old zs)
  case (Cons k cs)
  let ?b = "[co_r k, co_g k, co_b k]"
  have "store_at (3 * i + 8) ?b (map Some (a @ old @ zs @ c)) = Inr (map Some (a @ (old @ ?b) @ drop 3 zs @ c))"
    using store_piece [of ?b 3 zs "3 * i + 8" "a @ old" c] Cons.prems by simp
  with Cons.IH [of "old @ ?b" "i + 1" "drop 3 zs"] Cons.prems show ?case by simp
qed simp

lemma colours_alpha:
  assumes "length a = 8" "length old = 3 * i" "length zs = 3 * length cs" "length b = 12"
    "length al = i" "length az = length cs" "len = 3 * i + 3 * length cs"
  shows "colours_loop False len i cs (map Some (a @ old @ zs @ b @ al @ az @ c)) =
    Inr (map Some (a @ (old @ concat (map (\<lambda>c. [co_r c, co_g c, co_b c]) cs)) @ b
       @ (al @ map (\<lambda>c. word_of_int (co_a c)) cs) @ c))"
  using assms
proof (induction cs arbitrary: i old zs al az)
  case (Cons k cs)
  let ?b = "[co_r k, co_g k, co_b k]" and ?a = "[word_of_int (co_a k)] :: bytes"
  have 1: "store_at (3 * i + 8) ?b (map Some (a @ old @ zs @ b @ al @ az @ c))
      = Inr (map Some (a @ (old @ ?b) @ drop 3 zs @ b @ al @ az @ c))"
    using store_piece [of ?b 3 zs "3 * i + 8" "a @ old" "b @ al @ az @ c"] Cons.prems by simp
  have "length ((a @ old @ ?b @ drop 3 zs @ b @ al)) = len + 12 + i + 8" using Cons.prems by simp
  then have 2: "store_at (len + 12 + i + 8) ?a (map Some (a @ (old @ ?b) @ drop 3 zs @ b @ al @ az @ c))
      = Inr (map Some (a @ (old @ ?b) @ drop 3 zs @ b @ (al @ ?a) @ drop 1 az @ c))"
    using store_piece [of ?a 1 az "len + 12 + i + 8" "a @ old @ ?b @ drop 3 zs @ b @ al" c]
      Cons.prems by simp
  have "colours_loop False len (i + 1) cs (map Some (a @ (old @ ?b) @ drop 3 zs @ b @ (al @ ?a) @ drop 1 az @ c)) =
    Inr (map Some (a @ ((old @ ?b) @ concat (map (\<lambda>c. [co_r c, co_g c, co_b c]) cs)) @ b
       @ ((al @ ?a) @ map (\<lambda>c. word_of_int (co_a c)) cs) @ c))"
    using Cons.prems by (intro Cons.IH) simp_all
  with 1 2 show ?case by simp
qed simp


lemma store_crc_piece:
  assumes "length a = off" "length x = n" "off + n = at" "length z = 4"
  shows "store_crc crc off n at (map Some (a @ x @ z @ c)) =
    Inr (map Some (a @ x @ rev (put32 (crc (crc 0 []) x)) @ c))"
proof -
  have "take n (drop off (map Some (a @ x @ z @ c))) = map Some x" using assms(1,2) by simp
  moreover have "store_at at (rev (put32 (crc (crc 0 []) x))) (map Some ((a @ x) @ z @ c)) =
      Inr (map Some ((a @ x) @ rev (put32 (crc (crc 0 []) x)) @ drop 4 z @ c))"
    using store_piece [of "rev (put32 (crc (crc 0 []) x))" 4 z at "a @ x" c] assms by simp
  ultimately show ?thesis using assms by (simp add: store_crc_def put32_bswap)
qed

definition rgb_bytes :: "Colour list \<Rightarrow> bytes" where
  "rgb_bytes cs = concat (map (\<lambda>c. [co_r c, co_g c, co_b c]) cs)"

definition alpha_bytes :: "Colour list \<Rightarrow> bytes" where
  "alpha_bytes cs = map (\<lambda>c. word_of_int (co_a c)) cs"

lemma length_rgb_bytes: "length (rgb_bytes cs) = 3 * length cs"
  by (induction cs) (simp_all add: rgb_bytes_def)

lemma le_bytes_4: "le_bytes 4 n = [word_of_nat (n mod 256), word_of_nat (n div 256 mod 256),
    word_of_nat (n div 256 div 256 mod 256), word_of_nat (n div 256 div 256 div 256 mod 256)]"
proof -
  have four: "(4 :: nat) = Suc (Suc (Suc (Suc 0)))" by simp
  show ?thesis unfolding four le_bytes.simps ..
qed

lemma chunk_sizes: "rev (put32 768) = [0, 0, 3, 0]" "rev (put32 256) = [0, 0, 1, 0]"
  by (simp_all add: put32_def le_bytes_4)

lemma palette_opaque:
  assumes "length cs = 256"
  shows "palette_chunks crc True cs = Inr (png_chunk crc ''PLTE'' (rgb_bytes cs))"
proof -
  let ?P = "map byte_of ''PLTE''" and ?z = "\<lambda>n. replicate n (0 :: u8)"
  have 0: "replicate 780 (Some 0) = map Some ([] @ ?z 780 @ [])" by simp
  have 1: "store_at 0 (rev (put32 768)) (map Some ([] @ ?z 780 @ [])) = Inr (map Some ([] @ ([0, 0, 3, 0] @ ?z 776) @ []))"
    using store_piece [of "rev (put32 768)" 4 "?z 780" 0 "[]" "[]"] by (simp add: chunk_sizes)
  have 2: "store_at 0 ([0, 0, 3, 0] @ ?P) (map Some ([] @ ([0, 0, 3, 0] @ ?z 776) @ [])) =
      Inr (map Some (([0, 0, 3, 0] @ ?P) @ [] @ ?z 768 @ ?z 4))"
    using store_piece [of "[0, 0, 3, 0] @ ?P" 8 "[0, 0, 3, 0] @ ?z 776" 0 "[]" "[]"]
    by (simp add: replicate_add [symmetric])
  have 3: "colours_loop True 768 0 cs (map Some (([0, 0, 3, 0] @ ?P) @ [] @ ?z 768 @ ?z 4)) =
      Inr (map Some ([0, 0, 3, 0] @ (?P @ rgb_bytes cs) @ ?z 4 @ []))"
    using colours_opaque [of "[0, 0, 3, 0] @ ?P" "[]" 0 "?z 768" cs 768 "?z 4"] assms by (simp add: rgb_bytes_def)
  have 4: "store_crc crc 4 772 776 (map Some ([0, 0, 3, 0] @ (?P @ rgb_bytes cs) @ ?z 4 @ [])) =
      Inr (map Some ([0, 0, 3, 0] @ (?P @ rgb_bytes cs) @ rev (put32 (crc (crc 0 []) (?P @ rgb_bytes cs))) @ []))"
    using assms by (intro store_crc_piece) (simp_all add: length_rgb_bytes)
  show ?thesis
    unfolding palette_chunks_def Let_def assms put32_bswap
    using 0 1 2 3 4 assms
    by (simp add: png_chunk_def length_rgb_bytes chunk_sizes del: map_append list.map)
qed

lemma palette_transparent:
  assumes "length cs = 256"
  shows "palette_chunks crc False cs =
    Inr (png_chunk crc ''PLTE'' (rgb_bytes cs) @ png_chunk crc ''tRNS'' (alpha_bytes cs))"
proof -
  let ?P = "map byte_of ''PLTE''" and ?T = "map byte_of ''tRNS''" and ?z = "\<lambda>n. replicate n (0 :: u8)"
  let ?C = "rev (put32 (crc (crc 0 []) (?P @ rgb_bytes cs)))" and ?D = "rev (put32 (crc (crc 0 []) (?T @ alpha_bytes cs)))"
  have l: "length (rgb_bytes cs) = 768" "length (alpha_bytes cs) = 256"
    using assms by (simp_all add: length_rgb_bytes alpha_bytes_def)
  have 0: "replicate 1048 (Some 0) = map Some ([] @ ?z 1048 @ [])" by simp
  have 1: "store_at 0 (rev (put32 768)) (map Some ([] @ ?z 1048 @ [])) = Inr (map Some ([] @ ([0, 0, 3, 0] @ ?z 1044) @ []))"
    using store_piece [of "rev (put32 768)" 4 "?z 1048" 0 "[]" "[]"] by (simp add: chunk_sizes)
  have 2: "store_at 0 ([0, 0, 3, 0] @ ?P) (map Some ([] @ ([0, 0, 3, 0] @ ?z 1044) @ [])) =
      Inr (map Some (([0, 0, 3, 0] @ ?P @ ?z 768 @ ?z 4) @ ?z 8 @ ?z 256 @ ?z 4))"
    using store_piece [of "[0, 0, 3, 0] @ ?P" 8 "[0, 0, 3, 0] @ ?z 1044" 0 "[]" "[]"]
    by (simp add: replicate_add [symmetric])
  have 3: "store_at 780 ([0, 0, 3, 0] @ ?T) (map Some (([0, 0, 3, 0] @ ?P @ ?z 768 @ ?z 4) @ ?z 8 @ ?z 256 @ ?z 4)) =
      Inr (map Some (([0, 0, 3, 0] @ ?P) @ [] @ ?z 768 @ (?z 4 @ [0, 0, 3, 0] @ ?T) @ [] @ ?z 256 @ ?z 4))"
    using store_piece [of "[0, 0, 3, 0] @ ?T" 8 "?z 8" 780 "[0, 0, 3, 0] @ ?P @ ?z 768 @ ?z 4" "?z 256 @ ?z 4"]
    by simp
  have 4: "colours_loop False 768 0 cs
        (map Some (([0, 0, 3, 0] @ ?P) @ [] @ ?z 768 @ (?z 4 @ [0, 0, 3, 0] @ ?T) @ [] @ ?z 256 @ ?z 4)) =
      Inr (map Some ([0, 0, 3, 0] @ (?P @ rgb_bytes cs) @ ?z 4 @ [0, 0, 3, 0] @ ?T @ alpha_bytes cs @ ?z 4))"
  proof -
    have "colours_loop False 768 0 cs
        (map Some (([0, 0, 3, 0] @ ?P) @ [] @ ?z 768 @ (?z 4 @ [0, 0, 3, 0] @ ?T) @ [] @ ?z 256 @ ?z 4)) =
      Inr (map Some (([0, 0, 3, 0] @ ?P) @ ([] @ rgb_bytes cs) @ (?z 4 @ [0, 0, 3, 0] @ ?T) @ ([] @ alpha_bytes cs) @ ?z 4))"
      unfolding rgb_bytes_def alpha_bytes_def by (rule colours_alpha) (simp_all add: assms)
    then show ?thesis by (simp only: append_assoc append_Nil)
  qed
  have 5: "store_crc crc 4 772 776 (map Some ([0, 0, 3, 0] @ (?P @ rgb_bytes cs) @ ?z 4 @ [0, 0, 3, 0] @ ?T @ alpha_bytes cs @ ?z 4)) =
      Inr (map Some (([0, 0, 3, 0] @ ?P @ rgb_bytes cs @ ?C @ [0, 0, 3, 0]) @ (?T @ alpha_bytes cs) @ ?z 4 @ []))"
    using store_crc_piece [of "[0, 0, 3, 0]" 4 "?P @ rgb_bytes cs" 772 776 "?z 4" crc "[0, 0, 3, 0] @ ?T @ alpha_bytes cs @ ?z 4"] l
    by simp
  have 6: "store_crc crc 784 260 1044 (map Some (([0, 0, 3, 0] @ ?P @ rgb_bytes cs @ ?C @ [0, 0, 3, 0]) @ (?T @ alpha_bytes cs) @ ?z 4 @ [])) =
      Inr (map Some (([0, 0, 3, 0] @ ?P @ rgb_bytes cs @ ?C) @ [0, 0, 3, 0] @ (?T @ alpha_bytes cs @ ?D)))"
    using store_crc_piece [of "[0, 0, 3, 0] @ ?P @ rgb_bytes cs @ ?C @ [0, 0, 3, 0]" 784 "?T @ alpha_bytes cs" 260 1044 "?z 4" crc "[]"] l
    by simp
  have 7: "store_at 780 (rev (put32 256)) (map Some (([0, 0, 3, 0] @ ?P @ rgb_bytes cs @ ?C) @ [0, 0, 3, 0] @ (?T @ alpha_bytes cs @ ?D))) =
      Inr (map Some ([0, 0, 3, 0] @ ?P @ rgb_bytes cs @ ?C @ [0, 0, 1, 0] @ ?T @ alpha_bytes cs @ ?D))"
    using store_piece [of "rev (put32 256)" 4 "[0, 0, 3, 0]" 780 "[0, 0, 3, 0] @ ?P @ rgb_bytes cs @ ?C" "?T @ alpha_bytes cs @ ?D"] l
    by (simp add: chunk_sizes)
  show ?thesis
    unfolding palette_chunks_def Let_def assms put32_bswap
    using 0 1 2 3 4 5 6 7 l
    by (simp add: png_chunk_def chunk_sizes del: map_append list.map)
qed


subsection \<open>The PNG of a tile\<close>

definition palette_bytes :: "crc32 \<Rightarrow> bool \<Rightarrow> (nat \<Rightarrow> Colour) \<Rightarrow> bytes" where
  "palette_bytes crc noAlpha g =
     png_chunk crc ''PLTE'' (rgb_bytes (map (level_colour g) [0..<256]))
     @ (if noAlpha then [] else png_chunk crc ''tRNS'' (alpha_bytes (map (level_colour g) [0..<256])))"

lemma built_palette:
  assumes "pal_colours p = Some g" "\<not> pal_initialised p"
  shows "built crc p = Inr (p\<lparr>pal_png := palette_bytes crc (pal_noAlpha p) g, pal_initialised := True\<rparr>)"
proof -
  have "length (map (level_colour g) [0..<256]) = 256" by (simp del: upt_rec_numeral)
  from palette_opaque [OF this] palette_transparent [OF this] show ?thesis
    using assms by (cases "pal_noAlpha p") (simp_all add: built_def buildPalettePNG_def palette_bytes_def del: upt_rec_numeral)
qed

lemma palette_bytes_nonempty: "palette_bytes crc na g \<noteq> []"
  by (simp add: palette_bytes_def png_chunk_def)

lemma patch_piece: "length a = off \<Longrightarrow> length z = length bs \<Longrightarrow> patch off bs (a @ z @ c) = a @ bs @ c"
  by (simp add: patch_def)

lemma store_crc_prefix:
  assumes "off + n \<le> length h" "at + 4 \<le> length h"
  shows "store_crc crc off n at (map Some h @ u) =
    Inr (map Some (patch at (rev (put32 (crc (crc 0 []) (take n (drop off h))))) h) @ u)"
proof -
  have "take n (drop off (map Some h @ u)) = map Some (take n (drop off h))"
    using assms(1) by (simp add: take_map drop_map)
  then show ?thesis
    using assms store_at_prefix [of "at" "rev (put32 (crc (crc 0 []) (take n (drop off h))))" h u]
    by (simp add: store_crc_def put32_bswap)
qed

text \<open>The first 33 bytes, the signature and the chunk IHDR, with the colour type of a palette.\<close>

lemma palette_header:
  assumes "length sig = 8" "length ihdr = 13" "33 + k = m"
  shows "bindR (store_at 0 (sig @ png_chunk crc ''IHDR'' ihdr) (replicate m None)) (\<lambda>buf.
      bindR (store_at 25 [3] buf) (store_crc crc 12 17 29))
    = Inr (map Some (sig @ png_chunk crc ''IHDR'' (ihdr[9 := 3])) @ replicate k None)"
proof -
  let ?I = "map byte_of ''IHDR''" and ?l = "rev (put32 13)" and ?i = "ihdr[9 := 3]"
  have i: "ihdr = take 9 ihdr @ [ihdr ! 9] @ drop 10 ihdr" "?i = take 9 ihdr @ [3] @ drop 10 ihdr"
    using id_take_nth_drop [of 9 ihdr] assms(2) by (simp_all add: upd_conv_take_nth_drop)
  define C where "C = rev (put32 (crc (crc 0 []) (?I @ ihdr)))"
  have lc: "length C = 4" by (simp add: C_def)
  have h: "sig @ png_chunk crc ''IHDR'' ihdr = sig @ ?l @ ?I @ ihdr @ C"
    using assms(2) by (simp add: png_chunk_def C_def)
  have "length (sig @ ?l @ ?I @ ihdr @ C) = 33" using assms lc by simp
  then have "store_at 0 (sig @ ?l @ ?I @ ihdr @ C) (replicate m None) = Inr (map Some (sig @ ?l @ ?I @ ihdr @ C) @ replicate k None)"
    using assms(3) by (simp add: store_at_def del: map_append)
  moreover have "patch 25 [3] (sig @ ?l @ ?I @ ihdr @ C) = sig @ ?l @ ?I @ ?i @ C"
  proof -
    have "patch 25 [3] ((sig @ ?l @ ?I @ take 9 ihdr) @ [ihdr ! 9] @ (drop 10 ihdr @ C)) =
        (sig @ ?l @ ?I @ take 9 ihdr) @ [3] @ (drop 10 ihdr @ C)"
      using assms by (intro patch_piece) simp_all
    then show ?thesis by (subst (1) i(1), subst i(2)) simp
  qed
  moreover have "take 17 (drop 12 (sig @ ?l @ ?I @ ?i @ C)) = ?I @ ?i"
    using assms by simp
  moreover have "patch 29 (rev (put32 (crc (crc 0 []) (?I @ ?i)))) (sig @ ?l @ ?I @ ?i @ C) =
      sig @ ?l @ ?I @ ?i @ rev (put32 (crc (crc 0 []) (?I @ ?i)))"
    using patch_piece [of "sig @ ?l @ ?I @ ?i" 29 C "rev (put32 (crc (crc 0 []) (?I @ ?i)))" "[]"] assms lc by simp
  ultimately show ?thesis
    using store_at_prefix [of 25 "[3]" "sig @ ?l @ ?I @ ihdr @ C" "replicate k None"]
      store_crc_prefix [of 12 17 "sig @ ?l @ ?I @ ?i @ C" 29 crc "replicate k None"] assms lc
    unfolding h by (simp add: png_chunk_def del: map_append list.map)
qed


definition is_png :: "crc32 \<Rightarrow> bytes \<Rightarrow> bytes \<Rightarrow> bytes \<Rightarrow> bytes \<Rightarrow> bool" where
  "is_png crc sig ihdr rest b \<longleftrightarrow>
     length sig = 8 \<and> length ihdr = 13 \<and> b = sig @ png_chunk crc ''IHDR'' ihdr @ rest"

text \<open>
  C32: a palette in a PNG. From a tile that is a PNG and a style with colours, the data source makes the
  PNG with the colour type of a palette in its first chunk, whose CRC is right again, the chunks PLTE and,
  unless the style is opaque, tRNS with 256 entries and their CRC behind it, and the rest of the tile as it
  was. It is one byte longer: the last byte is never written and is sent as it is.
\<close>

theorem palette_png:
  assumes "is_png crc sig ihdr rest b" "ds_getType D d = ''image/png''"
    "ds_getData D d = (Inr (Some b, Some (length b)), d')" "pal_colours p = Some g" "\<not> pal_initialised p"
  shows "\<exists>s. PaletteDataSource_new crc D d (Some p) = Inr s
    \<and> pd_data s = map Some (sig @ png_chunk crc ''IHDR'' (ihdr[9 := 3]) @ palette_bytes crc (pal_noAlpha p) g @ rest) @ [None]
    \<and> fst (ds_getData (palette_source crc D) s) = Inl Uninitialised"
proof -
  let ?H = "sig @ png_chunk crc ''IHDR'' ihdr" and ?H' = "sig @ png_chunk crc ''IHDR'' (ihdr[9 := 3])"
  let ?P = "palette_bytes crc (pal_noAlpha p) g"
  let ?m = "length b + length ?P + 1" and ?k = "length ?P + (length rest + 1)"
  have l: "length sig = 8" "length ihdr = 13" and b: "b = ?H @ rest"
    using assms(1) by (simp_all add: is_png_def)
  have h: "length ?H = 33" "length ?H' = 33" using l by (simp_all add: png_chunk_def)
  have "33 + ?k = ?m" using h(1) unfolding b by simp
  from palette_header [OF l this, of crc] obtain b1 b2 where
    s: "store_at 0 ?H (replicate ?m None) = Inr b1" "store_at 25 [3] b1 = Inr b2"
      "store_crc crc 12 17 29 b2 = Inr (map Some ?H' @ replicate ?k None)"
    by (auto simp: bindR_Inr_iff)
  have 1: "store_at 33 ?P (map Some ?H' @ replicate ?k None) = Inr (map Some (?H' @ ?P) @ replicate (length rest + 1) None)"
    using h(2) by (simp add: store_at_def replicate_add del: replicate.simps)
  have 2: "store_at (33 + length ?P) rest (map Some (?H' @ ?P) @ replicate (length rest + 1) None) =
      Inr (map Some (?H' @ ?P @ rest) @ [None])"
    using h(2) by (simp add: store_at_def replicate_add del: replicate.simps) simp
  have r: "read_ptr (Some b) 33 = Inr ?H" "read_ptr (Some b) (length b) = Inr b" "drop 33 b = rest"
    using h(1) unfolding b by (simp_all add: read_ptr_def)
  have "PaletteDataSource_new crc D d (Some p) = Inr \<lparr>pd_dataSource = d',
      pd_palette = p\<lparr>pal_png := ?P, pal_initialised := True\<rparr>, pd_data = map Some (?H' @ ?P @ rest) @ [None]\<rparr>"
    using s 1 2 r assms(2,3) built_palette [OF assms(4,5), of crc] palette_bytes_nonempty
    by (simp add: PaletteDataSource_new_def del: map_append)
  then show ?thesis
    by (simp add: palette_source_def pd_getData_def palette_bytes_nonempty written_def del: map_append)
qed


definition sample_png :: bytes where
  "sample_png = replicate 8 137 @ png_chunk (\<lambda>c b. c + word_of_nat (length b)) ''IHDR'' (replicate 13 0) @ [1, 2]"

definition sample_palette :: Palette where
  "sample_palette = Palette_new (Some (\<lambda>k. \<lparr>co_r = word_of_nat k, co_g = 0, co_b = 0, co_a = -1\<rparr>)) False"

theorem palette_png_witness:
  "\<exists>s. PaletteDataSource_new (\<lambda>c b. c + word_of_nat (length b)) raw_source (RawDataSource_new sample_png ''image/png'' '''' 0)
      (Some sample_palette) = Inr s
    \<and> fst (ds_getData (palette_source (\<lambda>c b. c + word_of_nat (length b)) raw_source) s) = Inl Uninitialised"
proof -
  have p: "is_png (\<lambda>c b. c + word_of_nat (length b)) (replicate 8 137) (replicate 13 0) [1, 2] sample_png"
    by (simp add: is_png_def sample_png_def del: replicate.simps)
  have d: "ds_getData raw_source (RawDataSource_new sample_png ''image/png'' '''' 0) =
      (Inr (Some sample_png, Some (length sample_png)), RawDataSource_new sample_png ''image/png'' '''' 0)"
    by (simp add: raw_source_def RawDataSource_getData_def RawDataSource_new_def)
  have t: "ds_getType raw_source (RawDataSource_new sample_png ''image/png'' '''' 0) = ''image/png''"
    by (simp add: raw_source_def RawDataSource_new_def)
  have c: "pal_colours sample_palette = Some (\<lambda>k. \<lparr>co_r = word_of_nat k, co_g = 0, co_b = 0, co_a = -1\<rparr>)"
    "\<not> pal_initialised sample_palette" by (simp_all add: sample_palette_def Palette_new_def)
  from palette_png [OF p t d c] show ?thesis by blast
qed


end
