(* ===== verification/TileRequests.thy ===== *)
theory TileRequests
  imports Requests Palettes Level
begin

text \<open>
  rok4server/UtilsWMTS.cpp, UtilsTMS.cpp, Rok4Server.cpp and Level.cpp: from a request for a tile to
  its answer. The parameters are checked one by one, the first that is missing or wrong gives an
  exception; then the tile is looked up in the level.

  The configuration (layers, pyramids, tile matrix sets, styles) is a record; its pointers from a layer
  to its pyramid and from there to its tile matrix set are taken not to be null. The translation of
  messages (gettext) is the parameter \<open>tr\<close>, and so are the two ways to make a tile that is not
  stored.
\<close>

subsection \<open>The configuration\<close>

record Style =
  sy_identifier :: string
  sy_palette :: Palette

record TileMatrixSet =
  ts_id :: string
  ts_list :: "(string \<times> TileMatrix) list"

text \<open>A level with its limits and the way its tiles are made.\<close>

record PyramidLevel =
  pl_level :: Level
  minTileRow :: u32
  maxTileRow :: u32
  minTileCol :: u32
  maxTileCol :: u32
  onFly :: bool
  onDemand :: bool

record Pyramid =
  py_tms :: TileMatrixSet
  py_levels :: "(string \<times> PyramidLevel) list"
  py_format :: eformat_data

record Layer =
  ly_dataPyramid :: Pyramid
  ly_styles :: "Style list"
  ly_defaultStyle :: string
  ly_WMTSAuthorized :: bool
  ly_TMSAuthorized :: bool

record ServerConf =
  sc_layersList :: "(string \<times> Layer) list"
  sc_tmsList :: "(string \<times> TileMatrixSet) list"
  sc_stylesList :: "(string \<times> Style) list"
  sc_serviceTypeVersion :: string
  sc_supportWMTS :: bool
  sc_supportWMS :: bool
  sc_supportTMS :: bool

text \<open>\<open>std::map::find\<close>; \<open>None\<close> is the null pointer.\<close>

definition getLayer :: "ServerConf \<Rightarrow> string \<Rightarrow> Layer option" where
  "getLayer conf i = map_of (sc_layersList conf) i"

definition getTMS :: "ServerConf \<Rightarrow> string \<Rightarrow> TileMatrixSet option" where
  "getTMS conf i = map_of (sc_tmsList conf) i"

definition getStyle :: "ServerConf \<Rightarrow> string \<Rightarrow> Style option" where
  "getStyle conf i = map_of (sc_stylesList conf) i"

definition getTm :: "TileMatrixSet \<Rightarrow> string \<Rightarrow> TileMatrix option" where
  "getTm t i = map_of (ts_list t) i"

definition getLevel :: "Pyramid \<Rightarrow> string \<Rightarrow> PyramidLevel option" where
  "getLevel p i = map_of (py_levels p) i"

definition getStyleByIdentifier :: "Layer \<Rightarrow> string \<Rightarrow> Style option" where
  "getStyleByIdentifier l identifier = find (\<lambda>s. identifier = sy_identifier s) (ly_styles l)"

subsection \<open>The parameters of a WMTS tile\<close>

record TileParam =
  tp_layer :: Layer
  tp_tileMatrix :: string
  tp_tileCol :: int
  tp_tileRow :: int
  tp_format :: string
  tp_style :: "Style option"

definition ows :: "ExceptionCode \<Rightarrow> string \<Rightarrow> string \<Rightarrow> ServiceException" where
  "ows code message service = ServiceException_new '''' code message service"

text \<open>The characters with accents, in UTF-8.\<close>

definition e_acute :: string where "e_acute = [CHR 0xC3, CHR 0xA9]"
definition e_circ :: string where "e_circ = [CHR 0xC3, CHR 0xAA]"

definition other_tms_message :: string where
  "other_tms_message = ''Parametre TILEMATRIXSET diff'' @ e_acute @ ''rent de celui de la couche demand'' @ e_acute
     @ ''e. TILEMATRIXSET devrait '' @ e_circ @ ''tre ''"

definition wmts_layer :: "(string \<Rightarrow> string) \<Rightarrow> ServerConf \<Rightarrow> Request \<Rightarrow> ServiceException + string \<times> Layer" where
  "wmts_layer tr conf r =
     (let version = getParam r ''version''; str_layer = getParam r ''layer''
      in if version = '''' then Inl (ows OWS_MISSING_PARAMETER_VALUE (tr ''Parametre VERSION absent.'') ''wmts'')
         else if find_sub (sc_serviceTypeVersion conf) version = None
         then Inl (ows OWS_INVALID_PARAMETER_VALUE (tr ''Valeur du parametre VERSION invalide (doit contenir ''
                @ sc_serviceTypeVersion conf @ tr '')'') ''wmts'')
         else if str_layer = '''' then Inl (ows OWS_MISSING_PARAMETER_VALUE (tr ''Parametre LAYER absent.'') ''wmts'')
         else if containForbiddenChars str_layer
         then Inl (ows OWS_INVALID_PARAMETER_VALUE (tr ''Layer inconnu.'') ''wmts'')
         else
           (case getLayer conf str_layer of
              None \<Rightarrow> Inl (ows OWS_INVALID_PARAMETER_VALUE (tr ''Layer '' @ str_layer @ tr '' inconnu.'') ''wmts'')
            | Some layer \<Rightarrow>
                if \<not> ly_WMTSAuthorized layer
                then Inl (ows OWS_INVALID_PARAMETER_VALUE (tr ''Layer '' @ str_layer @ tr '' inconnu.'') ''wmts'')
                else Inr (str_layer, layer)))"

definition wmts_matrix :: "(string \<Rightarrow> string) \<Rightarrow> ServerConf \<Rightarrow> Request \<Rightarrow> Layer \<Rightarrow> ServiceException + string" where
  "wmts_matrix tr conf r layer =
     (let str_tms = getParam r ''tilematrixset''; str_tileMatrix = getParam r ''tilematrix'';
          own = ts_id (py_tms (ly_dataPyramid layer))
      in if str_tms = '''' then Inl (ows OWS_MISSING_PARAMETER_VALUE (tr ''Parametre TILEMATRIXSET absent.'') ''wmts'')
         else if containForbiddenChars str_tms
         then Inl (ows OWS_INVALID_PARAMETER_VALUE (tr ''TileMatrixSet inconnu.'') ''wmts'')
         else
           (case getTMS conf str_tms of
              None \<Rightarrow> Inl (ows OWS_INVALID_PARAMETER_VALUE (tr ''TileMatrixSet '' @ str_tms @ tr '' inconnu.'') ''wmts'')
            | Some tms \<Rightarrow>
                if ts_id tms \<noteq> own
                then Inl (ows OWS_MISSING_PARAMETER_VALUE (tr other_tms_message @ own) ''wmts'')
                else if str_tileMatrix = ''''
                then Inl (ows OWS_MISSING_PARAMETER_VALUE (tr ''Parametre TILEMATRIX absent.'') ''wmts'')
                else if containForbiddenChars str_tileMatrix
                then Inl (ows OWS_INVALID_PARAMETER_VALUE (tr ''TileMatrix inconnu pour le TileMatrixSet '' @ str_tms) ''wmts'')
                else if getTm tms str_tileMatrix = None
                then Inl (ows OWS_INVALID_PARAMETER_VALUE (tr ''TileMatrix '' @ str_tileMatrix
                       @ tr '' inconnu pour le TileMatrixSet '' @ str_tms) ''wmts'')
                else Inr str_tileMatrix))"

definition wmts_number :: "(string \<Rightarrow> string) \<Rightarrow> Request \<Rightarrow> string \<Rightarrow> string \<Rightarrow> ServiceException + int" where
  "wmts_number tr r key name =
     (if getParam r key = ''''
      then Inl (ows OWS_MISSING_PARAMETER_VALUE (tr (''Parametre '' @ name @ '' absent.'')) ''wmts'')
      else case scan_int (getParam r key) of
             None \<Rightarrow> Inl (ows OWS_INVALID_PARAMETER_VALUE (tr (''La valeur du parametre '' @ name @ '' est incorrecte.'')) ''wmts'')
           | Some n \<Rightarrow> Inr n)"

definition wmts_format :: "(string \<Rightarrow> string) \<Rightarrow> Request \<Rightarrow> string \<Rightarrow> Layer \<Rightarrow> ServiceException + string" where
  "wmts_format tr r str_layer layer =
     (let format = getParam r ''format''
      in if format = '''' then Inl (ows OWS_MISSING_PARAMETER_VALUE (tr ''Parametre FORMAT absent.'') ''wmts'')
         else if containForbiddenChars format
         then Inl (ows OWS_INVALID_PARAMETER_VALUE (tr ''Le format n'est pas gere pour la couche '' @ str_layer) ''wmts'')
         else if format \<noteq> toMimeType (py_format (ly_dataPyramid layer))
         then Inl (ows OWS_INVALID_PARAMETER_VALUE (tr ''Le format '' @ format
                @ tr '' n'est pas gere pour la couche '' @ str_layer) ''wmts'')
         else Inr format)"

definition wmts_style :: "(string \<Rightarrow> string) \<Rightarrow> Request \<Rightarrow> string \<Rightarrow> Layer \<Rightarrow> ServiceException + Style option" where
  "wmts_style tr r str_layer layer =
     (let str_style = getParam r ''style''
      in if str_style = '''' then Inl (ows OWS_MISSING_PARAMETER_VALUE (tr ''Parametre STYLE absent.'') ''wmts'')
         else if isRaster (py_format (ly_dataPyramid layer)) then
           (case getStyleByIdentifier layer str_style of
              None \<Rightarrow> Inl (ows OWS_INVALID_PARAMETER_VALUE (tr ''Le style '' @ str_style
                       @ tr '' n'est pas gere pour la couche '' @ str_layer) ''wmts'')
            | Some s \<Rightarrow> Inr (Some s))
         else Inr None)"

definition getTileParamWMTS :: "(string \<Rightarrow> string) \<Rightarrow> ServerConf \<Rightarrow> Request \<Rightarrow> ServiceException + TileParam" where
  "getTileParamWMTS tr conf r =
     bindR (wmts_layer tr conf r) (\<lambda>(str_layer, layer).
     bindR (wmts_matrix tr conf r layer) (\<lambda>matrix.
     bindR (wmts_number tr r ''tilerow'' ''TILEROW'') (\<lambda>tileRow.
     bindR (wmts_number tr r ''tilecol'' ''TILECOL'') (\<lambda>tileCol.
     bindR (wmts_format tr r str_layer layer) (\<lambda>format.
     bindR (wmts_style tr r str_layer layer) (\<lambda>style.
     Inr \<lparr>tp_layer = layer, tp_tileMatrix = matrix, tp_tileCol = tileCol, tp_tileRow = tileRow,
          tp_format = format, tp_style = style\<rparr>))))))"

subsection \<open>The parameters of a TMS tile\<close>

text \<open>\<open>std::vector::at\<close>: the conversion of a place to \<open>size_t\<close> makes a negative one too large.\<close>

definition vector_at :: "'a list \<Rightarrow> int \<Rightarrow> fault + 'a" where
  "vector_at xs i = (if 0 \<le> i \<and> i < int (length xs) then Inr (xs ! nat i) else Inl OutOfRange)"

text \<open>The part of a string before the first dot, and the part between the first and the second.\<close>

definition row_and_extension :: "string \<Rightarrow> string \<times> string" where
  "row_and_extension s =
     (case getline_parts (CHR ''.'') s of
        [] \<Rightarrow> ('''', '''')
      | [row] \<Rightarrow> (row, '''')
      | row # ext # _ \<Rightarrow> (row, ext))"

definition tms_tile ::
    "(string \<Rightarrow> string) \<Rightarrow> ServerConf \<Rightarrow> string \<Rightarrow> string \<Rightarrow> string \<Rightarrow> string \<Rightarrow> ServiceException + TileParam" where
  "tms_tile tr conf str_layer str_tileMatrix str_TileCol tileRowWithExtension =
     (if containForbiddenChars str_layer
      then Inl (ows OWS_INVALID_PARAMETER_VALUE (tr ''Layer inconnu.'') ''tms'')
      else
        (case getLayer conf str_layer of
           None \<Rightarrow> Inl (ows OWS_INVALID_PARAMETER_VALUE (tr ''Layer '' @ str_layer @ tr '' inconnu.'') ''tms'')
         | Some layer \<Rightarrow>
             if \<not> ly_TMSAuthorized layer
             then Inl (ows OWS_INVALID_PARAMETER_VALUE (tr ''Layer '' @ str_layer @ tr '' inconnu.'') ''tms'')
             else
               let tms = py_tms (ly_dataPyramid layer) in
               if containForbiddenChars str_tileMatrix
               then Inl (ows OWS_INVALID_PARAMETER_VALUE (tr ''TileMatrix inconnu pour le TileMatrixSet '' @ ts_id tms) ''wmts'')
               else if getTm tms str_tileMatrix = None
               then Inl (ows OWS_INVALID_PARAMETER_VALUE (tr ''TileMatrix '' @ str_tileMatrix
                      @ tr '' inconnu pour le TileMatrixSet '' @ ts_id tms) ''wmts'')
               else
                 (case scan_int str_TileCol of
                    None \<Rightarrow> Inl (ows OWS_INVALID_PARAMETER_VALUE (tr ''La valeur du parametre TILECOL est incorrecte.'') ''tms'')
                  | Some tileCol \<Rightarrow>
                      (case row_and_extension tileRowWithExtension of (str_TileRow, extension) \<Rightarrow>
                       case scan_int str_TileRow of
                         None \<Rightarrow> Inl (ows OWS_INVALID_PARAMETER_VALUE (tr ''La valeur du parametre TILEROW est incorrecte.'') ''tms'')
                       | Some tileRow \<Rightarrow>
                           if extension = ''''
                           then Inl (ows OWS_MISSING_PARAMETER_VALUE (tr ''Extension absente.'') ''tms'')
                           else if containForbiddenChars extension
                           then Inl (ows OWS_INVALID_PARAMETER_VALUE (tr ''L'extension n'est pas gere pour la couche '' @ str_layer) ''tms'')
                           else if extension \<noteq> toExtension (py_format (ly_dataPyramid layer))
                           then Inl (ows OWS_INVALID_PARAMETER_VALUE (tr ''L'extension '' @ extension
                                  @ tr '' n'est pas gere pour la couche '' @ str_layer) ''tms'')
                           else Inr \<lparr>tp_layer = layer, tp_tileMatrix = str_tileMatrix, tp_tileCol = tileCol,
                                     tp_tileRow = tileRow, tp_format = toMimeType (py_format (ly_dataPyramid layer)),
                                     tp_style = getStyle conf (ly_defaultStyle layer)\<rparr>))))"

definition getTileParamTMS ::
    "(string \<Rightarrow> string) \<Rightarrow> ServerConf \<Rightarrow> Request \<Rightarrow> fault + (ServiceException + TileParam)" where
  "getTileParamTMS tr conf r =
     (case tms_parts (rq_path r) of (pos, parts) \<Rightarrow>
        let absent = (\<lambda>m. Inr (Inl (ows OWS_MISSING_PARAMETER_VALUE (tr m) ''tms''))) in
        if pos = - 1 then absent ''Parametre VERSION absent.''
        else if pos_is_size_minus pos parts 1 then absent ''Parametre LAYER absent.''
        else if pos_is_size_minus pos parts 2 then absent ''Parametre Z absent.''
        else if pos_is_size_minus pos parts 3 then absent ''Parametre X absent.''
        else if pos_is_size_minus pos parts 4 then absent ''Parametre Y absent.''
        else
          bindR (vector_at parts (pos + 1)) (\<lambda>str_layer.
          bindR (vector_at parts (pos + 2)) (\<lambda>str_tileMatrix.
          bindR (vector_at parts (pos + 3)) (\<lambda>str_TileCol.
          bindR (vector_at parts (pos + 4)) (\<lambda>tileRow.
          Inr (tms_tile tr conf str_layer str_tileMatrix str_TileCol tileRow))))))"

subsection \<open>The answer\<close>

text \<open>
  A stored tile as a data source: its state has the storage in it. \<open>getData\<close> stores a size when it
  gives data, or when it was called before.
\<close>

definition store_getData ::
    "'c Context \<Rightarrow> StoreDataSource \<times> 'c \<Rightarrow> (fault + bytes option \<times> nat option) \<times> StoreDataSource \<times> 'c" where
  "store_getData C sc =
     (case sc of (s, c) \<Rightarrow>
        (case getData C s c of
           (Inl f, s', c') \<Rightarrow> (Inl f, (s', c'))
         | (Inr d, s', c') \<Rightarrow> (Inr (d, if d \<noteq> None \<or> alreadyTried s then Some (sd_size s') else None), (s', c'))))"

definition store_source :: "'c Context \<Rightarrow> (StoreDataSource \<times> 'c) DataSource" where
  "store_source C =
     \<lparr>ds_getData = store_getData C, ds_releaseData = (\<lambda>(s, c). (True, (releaseData s, c))),
      ds_getType = (\<lambda>(s, c). sd_type s), ds_getHttpStatus = (\<lambda>_. 200),
      ds_getEncoding = (\<lambda>(s, c). sd_encoding s), ds_getLength = (\<lambda>(s, c). getLength s mod 2 ^ 32)\<rparr>"

text \<open>What \<open>Level::getTile\<close> gives: an exception, the stored tile, or the tile behind a header.\<close>

datatype 'c tile_answer =
    NoTile MessageDataSource
  | StoredTile "StoreDataSource \<times> 'c"
  | HeadedTile "(StoreDataSource \<times> 'c) TiffHeaderDataSource"

definition no_data :: "(string \<Rightarrow> string) \<Rightarrow> MessageDataSource" where
  "no_data tr = SERDataSource (ows HTTP_NOT_FOUND (tr ''No data found'') ''wmts'')"

text \<open>The formats whose tiles get a header.\<close>

definition gets_header :: "eformat_data \<Rightarrow> bool" where
  "gets_header f \<longleftrightarrow>
     f \<in> {TIFF_RAW_INT8, TIFF_LZW_INT8, TIFF_LZW_FLOAT32, TIFF_ZIP_INT8, TIFF_PKB_FLOAT32, TIFF_PKB_INT8}"

definition level_getTile ::
    "(string \<Rightarrow> string) \<Rightarrow> path_of_slab \<Rightarrow> 'c Context \<Rightarrow> Level \<Rightarrow> int \<Rightarrow> int \<Rightarrow> 'c \<Rightarrow> (fault + 'c tile_answer)" where
  "level_getTile tr P C L x y c =
     bindR (getEncodedTile P L x y) (\<lambda>s.
       (case store_getData C (s, c) of
          (Inl f, _) \<Rightarrow> Inl f
        | (Inr (None, _), _) \<Rightarrow> Inr (NoTile (no_data tr))
        | (Inr (Some _, n), sc) \<Rightarrow>
            if gets_header (level_format L) then
              bindR (TiffHeaderDataSource_new (store_source C) (Some sc) (level_format L) (level_channels L)
                       (int (tileW (tm L))) (int (tileH (tm L))) (case n of None \<Rightarrow> 0 | Some n \<Rightarrow> n))
                (\<lambda>h. Inr (HeadedTile h))
            else Inr (StoredTile sc)))"

definition answer_source :: "'c Context \<Rightarrow> 'c tile_answer DataSource" where
  "answer_source C =
     \<lparr>ds_getData = (\<lambda>a. case a of
          NoTile m \<Rightarrow> (case ds_getData message_source m of (r, m') \<Rightarrow> (r, NoTile m'))
        | StoredTile sc \<Rightarrow> (case store_getData C sc of (r, sc') \<Rightarrow> (r, StoredTile sc'))
        | HeadedTile h \<Rightarrow> (map_sum id (\<lambda>b. (Some b, Some (th_dataSize h))) (th_getData h), a)),
      ds_releaseData = (\<lambda>a. case a of
          StoredTile sc \<Rightarrow> (case ds_releaseData (store_source C) sc of (r, sc') \<Rightarrow> (r, StoredTile sc'))
        | _ \<Rightarrow> (True, a)),
      ds_getType = (\<lambda>a. case a of
          NoTile m \<Rightarrow> ms_type m
        | StoredTile sc \<Rightarrow> ds_getType (store_source C) sc
        | HeadedTile h \<Rightarrow> (case th_getType (store_source C) h of Inl _ \<Rightarrow> '''' | Inr t \<Rightarrow> t)),
      ds_getHttpStatus = (\<lambda>a. case a of NoTile m \<Rightarrow> ms_httpStatus m | _ \<Rightarrow> 200),
      ds_getEncoding = (\<lambda>a. case a of
          NoTile m \<Rightarrow> ''''
        | StoredTile sc \<Rightarrow> ds_getEncoding (store_source C) sc
        | HeadedTile h \<Rightarrow> (case th_getEncoding (store_source C) h of Inl _ \<Rightarrow> '''' | Inr t \<Rightarrow> t)),
      ds_getLength = (\<lambda>a. case a of
          NoTile m \<Rightarrow> ds_getLength message_source m
        | StoredTile sc \<Rightarrow> ds_getLength (store_source C) sc
        | HeadedTile h \<Rightarrow> unat (th_getLength h))\<rparr>"

datatype 'c served = Exception MessageDataSource | Tile "'c tile_answer" | PaletteTile "'c tile_answer PaletteDataSource"

definition getTileUsual ::
    "(string \<Rightarrow> string) \<Rightarrow> crc32 \<Rightarrow> path_of_slab \<Rightarrow> 'c Context \<Rightarrow> PyramidLevel \<Rightarrow> TileParam \<Rightarrow> 'c \<Rightarrow> fault + 'c served" where
  "getTileUsual tr crc P C level tp c =
     bindR (level_getTile tr P C (pl_level level) (tp_tileCol tp) (tp_tileRow tp) c) (\<lambda>a.
       if tp_format tp = ''image/png'' then
         (case tp_style tp of
            None \<Rightarrow> Inl NullPointer
          | Some style \<Rightarrow>
              bindR (PaletteDataSource_new crc (answer_source C) a (Some (sy_palette style))) (\<lambda>p. Inr (PaletteTile p)))
       else Inr (Tile a))"

text \<open>A signed number against an unsigned limit: compared as unsigned.\<close>

definition outside_limits :: "PyramidLevel \<Rightarrow> int \<Rightarrow> int \<Rightarrow> bool" where
  "outside_limits level tileCol tileRow \<longleftrightarrow>
     word_of_int tileRow < minTileRow level \<or> word_of_int tileRow > maxTileRow level
     \<or> word_of_int tileCol < minTileCol level \<or> word_of_int tileCol > maxTileCol level"

definition getTile ::
    "(string \<Rightarrow> string) \<Rightarrow> crc32 \<Rightarrow> path_of_slab \<Rightarrow> 'c Context
     \<Rightarrow> (PyramidLevel \<Rightarrow> TileParam \<Rightarrow> fault + 'c served) \<Rightarrow> (PyramidLevel \<Rightarrow> TileParam \<Rightarrow> fault + 'c served)
     \<Rightarrow> ServerConf \<Rightarrow> Request \<Rightarrow> 'c \<Rightarrow> fault + 'c served" where
  "getTile tr crc P C on_fly on_demand conf r c =
     bindR (if rq_service r = WMTS then Inr (getTileParamWMTS tr conf r) else getTileParamTMS tr conf r) (\<lambda>param.
       (case param of
          Inl e \<Rightarrow> Inr (Exception (SERDataSource e))
        | Inr tp \<Rightarrow>
            (case getLevel (ly_dataPyramid (tp_layer tp)) (tp_tileMatrix tp) of
               None \<Rightarrow> Inr (Exception (no_data tr))
             | Some level \<Rightarrow>
                 if outside_limits level (tp_tileCol tp) (tp_tileRow tp) then Inr (Exception (no_data tr))
                 else if onFly level then on_fly level tp
                 else if onDemand level then on_demand level tp
                 else getTileUsual tr crc P C level tp c)))"

subsection \<open>Headers and types\<close>

text \<open>
  C: the tiles that get a TIFF header are exactly those whose MIME type is TIFF, and a tile of a
  pyramid with PNG, JPEG or vector tiles or with floats that are announced as BIL gets none.
\<close>

theorem header_iff_tiff:
  "gets_header f = (toMimeType f = ''image/tiff'')"
  by (cases f) (simp_all add: gets_header_def toMimeType_def eformat_mime_def eformats_def)


subsection \<open>What is accepted\<close>

definition wmts_accepts :: "ServerConf \<Rightarrow> Request \<Rightarrow> TileParam \<Rightarrow> bool" where
  "wmts_accepts conf r tp \<longleftrightarrow>
     (let pyr = ly_dataPyramid (tp_layer tp)
      in list_all (\<lambda>k. getParam r k \<noteq> '''')
           [''version'', ''layer'', ''tilematrixset'', ''tilematrix'', ''tilerow'', ''tilecol'', ''format'', ''style'']
         \<and> list_all (\<lambda>k. \<not> containForbiddenChars (getParam r k)) [''layer'', ''tilematrixset'', ''tilematrix'', ''format'']
         \<and> find_sub (sc_serviceTypeVersion conf) (getParam r ''version'') \<noteq> None
         \<and> getLayer conf (getParam r ''layer'') = Some (tp_layer tp) \<and> ly_WMTSAuthorized (tp_layer tp)
         \<and> (\<exists>tms. getTMS conf (getParam r ''tilematrixset'') = Some tms \<and> ts_id tms = ts_id (py_tms pyr)
              \<and> getTm tms (getParam r ''tilematrix'') \<noteq> None)
         \<and> tp_tileMatrix tp = getParam r ''tilematrix''
         \<and> scan_int (getParam r ''tilerow'') = Some (tp_tileRow tp)
         \<and> scan_int (getParam r ''tilecol'') = Some (tp_tileCol tp)
         \<and> tp_format tp = getParam r ''format'' \<and> tp_format tp = toMimeType (py_format pyr)
         \<and> (if isRaster (py_format pyr)
            then tp_style tp \<noteq> None \<and> tp_style tp = getStyleByIdentifier (tp_layer tp) (getParam r ''style'')
            else tp_style tp = None))"

lemma wmts_layer_ok:
  "wmts_layer tr conf r = Inr (s, layer) \<longleftrightarrow> s = getParam r ''layer'' \<and> getParam r ''version'' \<noteq> ''''
     \<and> find_sub (sc_serviceTypeVersion conf) (getParam r ''version'') \<noteq> None \<and> s \<noteq> '''' \<and> \<not> containForbiddenChars s
     \<and> getLayer conf s = Some layer \<and> ly_WMTSAuthorized layer"
  by (auto simp: wmts_layer_def Let_def split: option.split)

lemma wmts_matrix_ok:
  "wmts_matrix tr conf r layer = Inr m \<longleftrightarrow> m = getParam r ''tilematrix'' \<and> m \<noteq> '''' \<and> \<not> containForbiddenChars m
     \<and> getParam r ''tilematrixset'' \<noteq> '''' \<and> \<not> containForbiddenChars (getParam r ''tilematrixset'')
     \<and> (\<exists>tms. getTMS conf (getParam r ''tilematrixset'') = Some tms \<and> ts_id tms = ts_id (py_tms (ly_dataPyramid layer))
          \<and> getTm tms m \<noteq> None)"
  by (auto simp: wmts_matrix_def Let_def split: option.split)

lemma wmts_number_ok: "wmts_number tr r key name = Inr n \<longleftrightarrow> getParam r key \<noteq> '''' \<and> scan_int (getParam r key) = Some n"
  by (auto simp: wmts_number_def split: option.split)

lemma wmts_format_ok:
  "wmts_format tr r s layer = Inr f \<longleftrightarrow> f = getParam r ''format'' \<and> f \<noteq> '''' \<and> \<not> containForbiddenChars f
     \<and> f = toMimeType (py_format (ly_dataPyramid layer))"
  by (auto simp: wmts_format_def Let_def)

lemma wmts_style_ok:
  "wmts_style tr r s layer = Inr st \<longleftrightarrow> getParam r ''style'' \<noteq> ''''
     \<and> (if isRaster (py_format (ly_dataPyramid layer))
        then st \<noteq> None \<and> st = getStyleByIdentifier layer (getParam r ''style'') else st = None)"
  by (auto simp: wmts_style_def Let_def split: option.split)

text \<open>
  C33: a WMTS tile request is accepted exactly when every parameter is there, the version is the one
  of the service, the layer is one for WMTS, its tile matrix set and one of its matrices are named,
  row and column begin with numbers, the format is the one of the pyramid, and, for rasters, the
  style is one of the layer; the layer, numbers, format and style given on are those.
\<close>

theorem wmts_parameters:
  "getTileParamWMTS tr conf r = Inr tp \<longleftrightarrow> wmts_accepts conf r tp"
  by (cases tp)
    (auto simp: getTileParamWMTS_def bindR_Inr_iff wmts_layer_ok wmts_matrix_ok wmts_number_ok wmts_format_ok
      wmts_style_ok wmts_accepts_def Let_def)

text \<open>
  The texts the messages are made of, besides the parameters: a translation holds no \<open><\<close> or \<open>>\<close> where the
  message it is for holds none, as is the case for messages that are not translated.
\<close>

definition clean_texts :: "(string \<Rightarrow> string) \<Rightarrow> ServerConf \<Rightarrow> bool" where
  "clean_texts tr conf \<longleftrightarrow> (\<forall>m. \<not> containForbiddenChars m \<longrightarrow> \<not> containForbiddenChars (tr m)) \<and> \<not> containForbiddenChars (sc_serviceTypeVersion conf)
     \<and> (\<forall>n l. getLayer conf n = Some l \<longrightarrow> \<not> containForbiddenChars (ts_id (py_tms (ly_dataPyramid l))))"

lemma forbidden_append [simp]: "containForbiddenChars (a @ b) \<longleftrightarrow> containForbiddenChars a \<or> containForbiddenChars b"
  by (auto simp: containForbiddenChars_def)

lemma forbidden_Cons: "containForbiddenChars (c # s) \<longleftrightarrow> c = CHR ''<'' \<or> c = CHR ''>'' \<or> containForbiddenChars s"
  "\<not> containForbiddenChars []"
  by (auto simp: containForbiddenChars_def)

lemma clean_text:
  assumes "clean_texts tr conf"
  shows "\<not> containForbiddenChars m \<Longrightarrow> \<not> containForbiddenChars (tr m)" "\<not> containForbiddenChars (sc_serviceTypeVersion conf)"
    "getLayer conf n = Some l \<Longrightarrow> \<not> containForbiddenChars (ts_id (py_tms (ly_dataPyramid l)))"
  using assms unfolding clean_texts_def by blast+

lemma message_of_ows [simp]: "se_message (ows c m s) = m"
  by (simp add: ows_def ServiceException_new_def)

lemma clean_layer:
  "clean_texts tr conf \<Longrightarrow> wmts_layer tr conf r = Inl e \<Longrightarrow> \<not> containForbiddenChars (se_message e)"
  by (auto simp: wmts_layer_def Let_def forbidden_Cons clean_text split: if_splits option.splits)

lemma clean_other_tms: "\<not> containForbiddenChars other_tms_message"
  by (simp add: other_tms_message_def e_acute_def e_circ_def containForbiddenChars_def)

lemma clean_matrix:
  "clean_texts tr conf \<Longrightarrow> getLayer conf n = Some layer \<Longrightarrow> wmts_matrix tr conf r layer = Inl e \<Longrightarrow>
     \<not> containForbiddenChars (se_message e)"
  by (auto simp: wmts_matrix_def Let_def forbidden_Cons clean_text clean_other_tms split: if_splits option.splits)

lemma clean_number:
  "clean_texts tr conf \<Longrightarrow> \<not> containForbiddenChars n \<Longrightarrow> wmts_number tr r k n = Inl e \<Longrightarrow>
     \<not> containForbiddenChars (se_message e)"
  by (auto simp: wmts_number_def forbidden_Cons clean_text split: if_splits option.splits)

lemma clean_format:
  "clean_texts tr conf \<Longrightarrow> \<not> containForbiddenChars s \<Longrightarrow> wmts_format tr r s layer = Inl e \<Longrightarrow>
     \<not> containForbiddenChars (se_message e)"
  by (auto simp: wmts_format_def Let_def forbidden_Cons clean_text split: if_splits)

lemma clean_style:
  "clean_texts tr conf \<Longrightarrow> \<not> containForbiddenChars s \<Longrightarrow> \<not> containForbiddenChars (getParam r ''style'') \<Longrightarrow>
     wmts_style tr r s layer = Inl e \<Longrightarrow> \<not> containForbiddenChars (se_message e)"
  by (auto simp: wmts_style_def Let_def forbidden_Cons clean_text split: if_splits option.splits)

text \<open>
  C35: no exception of a WMTS tile request carries a tag from the request into the report, as long
  as the parameter STYLE has none: the messages hold \<open><\<close> and \<open>>\<close> only where the configuration does.
\<close>

theorem messages_without_tags:
  assumes "clean_texts tr conf" "\<not> containForbiddenChars (getParam r ''style'')"
    "getTileParamWMTS tr conf r = Inl e"
  shows "\<not> containForbiddenChars (se_message e)"
proof (cases "wmts_layer tr conf r")
  case (Inl e')
  then show ?thesis using assms clean_layer by (auto simp: getTileParamWMTS_def)
next
  case (Inr sl)
  obtain s layer where sl: "sl = (s, layer)" by fastforce
  have s: "getLayer conf s = Some layer" "\<not> containForbiddenChars s"
    using Inr unfolding sl wmts_layer_ok by blast+
  have "wmts_matrix tr conf r layer = Inl e
      \<or> wmts_number tr r ''tilerow'' ''TILEROW'' = Inl e \<or> wmts_number tr r ''tilecol'' ''TILECOL'' = Inl e
      \<or> wmts_format tr r s layer = Inl e \<or> wmts_style tr r s layer = Inl e"
    using assms(3) Inr unfolding sl getTileParamWMTS_def by (auto simp: bindR_Inl_iff)
  moreover have "\<not> containForbiddenChars ''TILEROW''" "\<not> containForbiddenChars ''TILECOL''"
    by (simp_all add: forbidden_Cons)
  ultimately show ?thesis
    using clean_matrix [OF assms(1) s(1)] clean_number [OF assms(1)] clean_format [OF assms(1) s(2)]
      clean_style [OF assms(1) s(2) assms(2)] by blast
qed


definition sample_pyramid :: Pyramid where
  "sample_pyramid = \<lparr>py_tms = \<lparr>ts_id = ''PM'', ts_list = [(''0'', \<lparr>tm_id = ''0'', tileW = 1, tileH = 1\<rparr>)]\<rparr>,
     py_levels = [], py_format = TIFF_RAW_INT8\<rparr>"

definition sample_layer :: Layer where
  "sample_layer = \<lparr>ly_dataPyramid = sample_pyramid, ly_styles = [], ly_defaultStyle = '''',
     ly_WMTSAuthorized = True, ly_TMSAuthorized = True\<rparr>"

definition sample_conf :: ServerConf where
  "sample_conf = \<lparr>sc_layersList = [(''rock'', sample_layer)], sc_tmsList = [(''PM'', py_tms sample_pyramid)],
     sc_stylesList = [], sc_serviceTypeVersion = ''1.0.0'', sc_supportWMTS = True, sc_supportWMS = True,
     sc_supportTMS = True\<rparr>"

definition wmts_query :: "string \<Rightarrow> string \<Rightarrow> Request" where
  "wmts_query layer style = \<lparr>rq_hostName = ''h'', rq_path = '''', rq_scheme = ''http://'', rq_request = GETTILE,
     rq_service = WMTS, rq_params = [(''service'', ''WMTS''), (''request'', ''GetTile''), (''version'', ''1.0.0''),
       (''layer'', layer), (''tilematrixset'', ''PM''), (''tilematrix'', ''0''), (''tilerow'', ''3''),
       (''tilecol'', ''5''), (''format'', ''image/tiff''), (''style'', style)]\<rparr>"

lemma sample_clean: "clean_texts (\<lambda>m. m) sample_conf"
  by (auto simp: clean_texts_def containForbiddenChars_def sample_conf_def getLayer_def sample_layer_def sample_pyramid_def
      split: if_splits)

text \<open>Without a translation, a layer whose name is a tag.\<close>

theorem messages_without_tags_witness:
  "\<exists>e. getTileParamWMTS (\<lambda>m. m) sample_conf (wmts_query ''<b>'' ''x'') = Inl e \<and> se_message e \<noteq> []
     \<and> \<not> containForbiddenChars (se_message e)"
proof -
  obtain e where e: "getTileParamWMTS (\<lambda>m. m) sample_conf (wmts_query ''<b>'' ''x'') = Inl e" "se_message e \<noteq> []"
    by (simp add: getTileParamWMTS_def wmts_layer_def wmts_query_def getParam_def sample_conf_def containForbiddenChars_def)
  moreover have "\<not> containForbiddenChars (getParam (wmts_query ''<b>'' ''x'') ''style'')"
    by (simp add: wmts_query_def getParam_def containForbiddenChars_def)
  ultimately show ?thesis
    using messages_without_tags [OF sample_clean, of "wmts_query ''<b>'' ''x''"] by blast
qed

text \<open>
  C: the parameter STYLE is not looked at: where everything else is right and the style
  is not one of a raster layer, its value is put into the message as it is, tags included.
\<close>

theorem style_reflected:
  assumes "wmts_layer tr conf r = Inr (s, layer)" "wmts_matrix tr conf r layer = Inr m"
    "wmts_number tr r ''tilerow'' ''TILEROW'' = Inr y" "wmts_number tr r ''tilecol'' ''TILECOL'' = Inr x"
    "wmts_format tr r s layer = Inr f" "isRaster (py_format (ly_dataPyramid layer))"
    "getParam r ''style'' \<noteq> ''''" "getStyleByIdentifier layer (getParam r ''style'') = None"
  shows "\<exists>e before after. getTileParamWMTS tr conf r = Inl e \<and> se_message e = before @ getParam r ''style'' @ after"
proof -
  have "getTileParamWMTS tr conf r = Inl (ows OWS_INVALID_PARAMETER_VALUE (tr ''Le style '' @ getParam r ''style''
      @ tr '' n'est pas gere pour la couche '' @ s) ''wmts'')"
    using assms by (simp add: getTileParamWMTS_def wmts_style_def Let_def)
  then show ?thesis by auto
qed

theorem style_reflected_witness:
  "\<exists>e before after. getTileParamWMTS (\<lambda>m. m) sample_conf (wmts_query ''rock'' ''<script>'') = Inl e
    \<and> se_message e = before @ ''<script>'' @ after"
proof -
  let ?r = "wmts_query ''rock'' ''<script>''"
  have p: "getParam ?r ''style'' = ''<script>''" by (simp add: wmts_query_def getParam_def)
  have "\<exists>e before after. getTileParamWMTS (\<lambda>m. m) sample_conf ?r = Inl e \<and> se_message e = before @ getParam ?r ''style'' @ after"
  proof (rule style_reflected [where layer = sample_layer and s = "''rock''" and m = "''0''" and f = "''image/tiff''"])
    show "wmts_layer (\<lambda>m. m) sample_conf ?r = Inr (''rock'', sample_layer)"
      by (simp add: wmts_layer_ok wmts_query_def getParam_def containForbiddenChars_def sample_conf_def getLayer_def sample_layer_def)
    show "wmts_matrix (\<lambda>m. m) sample_conf ?r sample_layer = Inr ''0''"
      by (simp add: wmts_matrix_ok wmts_query_def getParam_def containForbiddenChars_def sample_conf_def getTMS_def getTm_def
          sample_layer_def sample_pyramid_def)
    show "wmts_number (\<lambda>m. m) ?r ''tilerow'' ''TILEROW'' = Inr 3" "wmts_number (\<lambda>m. m) ?r ''tilecol'' ''TILECOL'' = Inr 5"
      by (simp_all add: wmts_number_ok wmts_query_def getParam_def scan_int_def is_space_def is_digit_def digits_value_def to_int32_def)
    show "wmts_format (\<lambda>m. m) ?r ''rock'' sample_layer = Inr ''image/tiff''"
      by (simp add: wmts_format_ok wmts_query_def getParam_def containForbiddenChars_def sample_layer_def sample_pyramid_def
          toMimeType_def eformat_mime_def eformats_def)
    show "isRaster (py_format (ly_dataPyramid sample_layer))"
      by (simp add: sample_layer_def sample_pyramid_def isRaster_def eformat_israster_def eformats_def)
  qed (simp_all add: p getStyleByIdentifier_def sample_layer_def)
  then show ?thesis by (simp only: p)
qed

subsection \<open>Paths of tiles\<close>

lemma version_pos_range:
  "fst (fold version_step ts (-1, [])) = -1 \<or>
   0 \<le> fst (fold version_step ts (-1, [])) \<and> fst (fold version_step ts (-1, [])) < int (length ts)"
proof (induction ts rule: rev_induct)
  case (snoc t ts)
  obtain p qs where f: "fold version_step ts (-1, []) = (p, qs)" by fastforce
  with version_parts [of ts "(-1, [])"] have "qs = ts" by simp
  moreover have "version_step t (p, qs) = (if t = ''1.0.0'' then int (length qs) else p, qs @ [t])"
    by (simp add: version_step_def)
  ultimately show ?case using snoc f by auto
qed simp

lemma getline_parts_length: "length (getline_parts d s) \<le> length s"
proof (induction d s rule: getline_parts.induct)
  case (1 d s)
  show ?case
  proof (cases "s = []")
    case False
    then have "length (tl (dropWhile (\<lambda>c. c \<noteq> d) s)) < length s" by (rule tl_dropWhile_shorter) simp
    then show ?thesis using 1 False by (subst getline_parts.simps) (simp del: length_tl)
  qed (simp add: getline_parts_Nil)
qed

lemma tile_parts_read:
  assumes "tms_parts (rq_path r) = (int pos, parts)" "length parts < 2 ^ 31" "pos < 2 ^ 31" "pos + 5 = length parts"
  shows "getTileParamTMS tr conf r =
    Inr (tms_tile tr conf (parts ! (pos + 1)) (parts ! (pos + 2)) (parts ! (pos + 3)) (parts ! (pos + 4)))"
proof -
  have v: "vector_at parts (int pos + k) = Inr (parts ! (pos + nat k))" if "0 \<le> k" "k < 5" for k
    using that assms(4) by (simp add: vector_at_def nat_add_distrib)
  have n: "\<not> pos_is_size_minus (int pos) parts k" if "0 \<le> k" "k < 5" for k
    using pos_is_size_minus_iff [OF assms(3,2), of k] that assms(4) by simp
  show ?thesis using v n unfolding getTileParamTMS_def assms(1) by (simp add: Let_def)
qed

text \<open>
  C: the parts of the path of a tile are there: whenever the request of a path is found to be a tile,
  the reading of its parameters does not run behind the end of the list of its parts.
\<close>

theorem tms_tile_parts:
  assumes "tms_request (rq_path r) = GETTILE" "length (rq_path r) < 2 ^ 31"
  shows "\<exists>parts pos. tms_parts (rq_path r) = (int pos, parts) \<and> pos + 5 = length parts
    \<and> getTileParamTMS tr conf r = Inr (tms_tile tr conf (parts ! (pos + 1)) (parts ! (pos + 2)) (parts ! (pos + 3)) (parts ! (pos + 4)))"
proof -
  obtain p parts where t: "tms_parts (rq_path r) = (p, parts)" by fastforce
  have ps: "parts = getline_parts (CHR ''/'') (rq_path r)"
    using t version_parts [of "getline_parts (CHR ''/'') (rq_path r)" "(-1, [])"] by (simp add: tms_parts_def)
  have l: "length parts < 2 ^ 31" using getline_parts_length [of "CHR ''/''" "rq_path r"] assms(2) ps by simp
  have five: "p \<noteq> -1" "pos_is_size_minus p parts 5"
    using assms(1) t by (auto simp: tms_request_def split: if_splits)
  then have "0 \<le> p" "p < int (length parts)"
    using version_pos_range [of "getline_parts (CHR ''/'') (rq_path r)"] t ps by (auto simp: tms_parts_def)
  then obtain pos where pos: "p = int pos" "pos < 2 ^ 31" using l nonneg_int_cases by (metis of_nat_less_iff order_less_trans)
  then have "pos + 5 = length parts" using pos_is_size_minus_iff [OF pos(2) l, of 5] five(2) by simp
  with tile_parts_read [OF t [unfolded pos(1)] l pos(2)] t pos(1) show ?thesis by auto
qed

definition tile_path_request :: "string \<Rightarrow> Request" where
  "tile_path_request path = \<lparr>rq_hostName = ''h'', rq_path = path, rq_scheme = ''http://'', rq_request = GETTILE,
     rq_service = TMS, rq_params = []\<rparr>"

theorem tms_tile_parts_witness:
  "\<exists>parts pos. tms_parts (slashed ([''tms''] @ ''1.0.0'' # [''rock'', ''0'', ''5'', ''3.tif''])) = (int pos, parts)
    \<and> pos + 5 = length parts
    \<and> getTileParamTMS (\<lambda>m. m) sample_conf (tile_path_request (slashed ([''tms''] @ ''1.0.0'' # [''rock'', ''0'', ''5'', ''3.tif''])))
      = Inr (tms_tile (\<lambda>m. m) sample_conf (parts ! (pos + 1)) (parts ! (pos + 2)) (parts ! (pos + 3)) (parts ! (pos + 4)))"
proof -
  let ?p = "slashed ([''tms''] @ ''1.0.0'' # [''rock'', ''0'', ''5'', ''3.tif''])"
  have "tms_request ?p = GETTILE"
    by (subst tms_request_depth) (simp_all add: plain_path_def request_of_depth_def)
  moreover have "length ?p < 2 ^ 31" by simp
  ultimately show ?thesis
    using tms_tile_parts [of "tile_path_request ?p" "\<lambda>m. m" sample_conf] by (simp only: tile_path_request_def Request.simps)
qed

subsubsection \<open>Numbers that are read back\<close>

lemma show_nat_is_digit: "c \<in> set (show_nat n) \<Longrightarrow> is_digit c"
  using show_nat_digits [of c n] by (simp add: is_digit_def)

lemma take_digits:
  "rest = [] \<or> \<not> is_digit (hd rest) \<Longrightarrow> takeWhile is_digit (show_nat n @ rest) = show_nat n"
  using show_nat_is_digit [of _ n] by (cases rest) (auto simp: takeWhile_append takeWhile_eq_all_conv)

lemma show_nat_head: "hd (show_nat n @ rest) \<noteq> CHR ''-''" "hd (show_nat n @ rest) \<noteq> CHR ''+''"
  "\<not> is_space (hd (show_nat n @ rest))"
proof -
  have "hd (show_nat n) \<in> set (show_nat n)" by simp
  from show_nat_digits [OF this] show "hd (show_nat n @ rest) \<noteq> CHR ''-''" "hd (show_nat n @ rest) \<noteq> CHR ''+''"
    "\<not> is_space (hd (show_nat n @ rest))" by (auto simp: is_space_def)
qed

lemma to_int32_small: "- (2 ^ 31) \<le> i \<Longrightarrow> i < 2 ^ 31 \<Longrightarrow> to_int32 (max (- (2 ^ 63)) (min (2 ^ 63 - 1) i)) = i"
  by (simp add: to_int32_def signed_take_bit_int_eq_self)

lemma scan_show_int:
  assumes "- (2 ^ 31) \<le> i" "i < 2 ^ 31" "rest = [] \<or> \<not> is_digit (hd rest)"
  shows "scan_int (show_int i @ rest) = Some i"
proof -
  have d: "dropWhile is_space (show_nat n @ rest) = show_nat n @ rest" for n
    using show_nat_head(3) [of n rest] by (cases "show_nat n") auto
  show ?thesis
  proof (cases "i < 0")
    case True
    then have s: "show_int i @ rest = CHR ''-'' # show_nat (nat (- i)) @ rest" by (simp add: show_int_def)
    have "scan_int (show_int i @ rest) = Some (to_int32 (max (- (2 ^ 63)) (min (2 ^ 63 - 1) i)))"
      unfolding s using True
      by (simp add: scan_int_def Let_def is_space_def take_digits [OF assms(3)] digits_value_show)
    then show ?thesis by (simp only: to_int32_small [OF assms(1,2)])
  next
    case False
    then have s: "show_int i @ rest = show_nat (nat i) @ rest" by (simp add: show_int_def)
    have "scan_int (show_int i @ rest) = Some (to_int32 (max (- (2 ^ 63)) (min (2 ^ 63 - 1) i)))"
      unfolding s using False show_nat_head [of "nat i" rest]
      by (simp add: scan_int_def Let_def d take_digits [OF assms(3)] digits_value_show)
    then show ?thesis by (simp only: to_int32_small [OF assms(1,2)])
  qed
qed


lemma getline_two:
  assumes "d \<notin> set a" "d \<notin> set b" "b \<noteq> ''''"
  shows "getline_parts d (a @ d # b) = [a, b]"
proof -
  have b: "takeWhile (\<lambda>c. c \<noteq> d) b = b" "dropWhile (\<lambda>c. c \<noteq> d) b = []"
    using assms(2) by (auto simp: takeWhile_eq_all_conv dropWhile_eq_Nil_conv)
  have "getline_parts d b = [b]"
    using assms(3) b by (subst getline_parts.simps) (simp only: b list.sel getline_parts_Nil if_False)
  moreover have "takeWhile (\<lambda>c. c \<noteq> d) (a @ d # b) = a" "dropWhile (\<lambda>c. c \<noteq> d) (a @ d # b) = d # b"
    using assms(1) by (auto simp: takeWhile_append dropWhile_append)
  ultimately show ?thesis by (subst getline_parts.simps) simp
qed

lemma show_int_chars: "c \<in> set (show_int i) \<Longrightarrow> c = CHR ''-'' \<or> is_digit c"
  using show_nat_is_digit by (auto simp: show_int_def split: if_splits)

lemma extension_chars: "CHR ''.'' \<notin> set (toExtension f)" "toExtension f \<noteq> ''''" "\<not> containForbiddenChars (toExtension f)"
  by (cases f; simp add: toExtension_def eformat_extension_def eformats_def containForbiddenChars_def)+

lemma row_of_show:
  "row_and_extension (show_int y @ ''.'' @ toExtension f) = (show_int y, toExtension f)"
proof -
  have "CHR ''.'' \<notin> set (show_int y)" using show_int_chars [of "CHR ''.''" y] by (auto simp: is_digit_def)
  from getline_two [OF this extension_chars(1,2)] show ?thesis by (simp add: row_and_extension_def)
qed

text \<open>
  C34: the path of a tile names that tile: from layer, matrix, column and row written into a path, with
  the extension of the pyramid's format behind the row, the server reads these again, for every
  column and row that fits an \<open>int\<close>, and takes the format and the default style of the layer.
\<close>

theorem tms_path_names_tile:
  assumes "plain_path pre [l, m, show_int x, show_int y @ ''.'' @ toExtension (py_format (ly_dataPyramid layer))]"
    "rq_path r = slashed (pre @ ''1.0.0'' # [l, m, show_int x, show_int y @ ''.'' @ toExtension (py_format (ly_dataPyramid layer))])"
    "getLayer conf l = Some layer" "ly_TMSAuthorized layer" "getTm (py_tms (ly_dataPyramid layer)) m \<noteq> None"
    "\<not> containForbiddenChars l" "\<not> containForbiddenChars m"
    "- (2 ^ 31) \<le> x" "x < 2 ^ 31" "- (2 ^ 31) \<le> y" "y < 2 ^ 31"
  shows "getTileParamTMS tr conf r = Inr (Inr \<lparr>tp_layer = layer, tp_tileMatrix = m, tp_tileCol = x, tp_tileRow = y,
    tp_format = toMimeType (py_format (ly_dataPyramid layer)), tp_style = getStyle conf (ly_defaultStyle layer)\<rparr>)"
proof -
  let ?yx = "show_int y @ ''.'' @ toExtension (py_format (ly_dataPyramid layer))"
  let ?post = "[l, m, show_int x, ?yx]"
  have t: "tms_parts (rq_path r) = (int (length pre), pre @ ''1.0.0'' # ?post)"
    unfolding assms(2) using assms(1) by (intro tms_parts_slashed) (simp_all add: plain_path_def)
  have l: "length (pre @ ''1.0.0'' # ?post) < 2 ^ 31" "length pre < 2 ^ 31" using assms(1) by (simp_all add: plain_path_def)
  have "getTileParamTMS tr conf r = Inr (tms_tile tr conf l m (show_int x) ?yx)"
    using tile_parts_read [OF t l] by (simp add: nth_append)
  also have "tms_tile tr conf l m (show_int x) ?yx = Inr \<lparr>tp_layer = layer, tp_tileMatrix = m, tp_tileCol = x, tp_tileRow = y,
    tp_format = toMimeType (py_format (ly_dataPyramid layer)), tp_style = getStyle conf (ly_defaultStyle layer)\<rparr>"
    using assms(3-7) scan_show_int [OF assms(8,9), of "''''"] scan_show_int [OF assms(10,11), of "''''"] extension_chars(2,3)
    by (simp add: tms_tile_def Let_def row_of_show del: append.simps)
  finally show ?thesis .
qed

theorem tms_path_names_tile_witness:
  "getTileParamTMS (\<lambda>m. m) sample_conf
      (tile_path_request (slashed ([''tms''] @ ''1.0.0'' # [''rock'', ''0'', show_int 5, show_int (-3) @ ''.'' @ toExtension TIFF_RAW_INT8])))
    = Inr (Inr \<lparr>tp_layer = sample_layer, tp_tileMatrix = ''0'', tp_tileCol = 5, tp_tileRow = -3,
        tp_format = toMimeType TIFF_RAW_INT8, tp_style = getStyle sample_conf ''''\<rparr>)"
proof -
  have f: "py_format (ly_dataPyramid sample_layer) = TIFF_RAW_INT8" "ly_defaultStyle sample_layer = ''''"
    by (simp_all add: sample_layer_def sample_pyramid_def)
  have n: "show_int 5 = ''5''" "show_int (-3) = ''-3''" "toExtension TIFF_RAW_INT8 = ''tif''"
    by (simp_all add: show_int_def show_nat.simps digit_def toExtension_def eformat_extension_def eformats_def char_of_def bit_0)
  show ?thesis
    unfolding f [symmetric]
    by (rule tms_path_names_tile [where l = "''rock''" and pre = "[''tms'']"])
      (simp_all add: f n plain_path_def tile_path_request_def sample_conf_def getLayer_def sample_layer_def sample_pyramid_def
        getTm_def containForbiddenChars_def)
qed

end
