(* ===== verification/TileServer.thy ===== *)
theory TileServer
  imports TileRequests LevelServe
begin

text \<open>
  rok4server/Rok4Server.cpp: which service and which operation a request is given to, and the answer
  to a request for a stored tile as it leaves the server: the parameters of \<open>TileRequests\<close>, the slab
  of \<open>LevelServe\<close>, the header of \<open>TiffHeaders\<close>, the response of \<open>Responses\<close>.

  The operations that are not modelled are only named. \<open>info\<close> is the name and version the build puts
  into some messages.
\<close>

subsection \<open>Dispatch\<close>

datatype operation =
    Op_GetCapabilities eServiceType
  | Op_GetMap
  | Op_GetTile
  | Op_GetFeatureInfo eServiceType
  | Op_GetServices
  | Op_GetLayer
  | Op_GetLayerMetadata
  | Op_Exception ServiceException

definition unsupported :: "(string \<Rightarrow> string) \<Rightarrow> Request \<Rightarrow> string \<Rightarrow> string \<Rightarrow> operation" where
  "unsupported tr r info service =
     Op_Exception (ows OWS_OPERATION_NOT_SUPORTED
       (tr ''L'operation '' @ getParam r ''request'' @ tr '' n'est pas prise en charge par ce serveur.'' @ info) service)"

definition missing_request :: "string \<Rightarrow> operation" where
  "missing_request service =
     Op_Exception (ows OWS_MISSING_PARAMETER_VALUE ''Le parametre REQUEST n'est pas renseigne.'' service)"

text \<open>The first text of \<open>GETVERSION\<close>, and of WMS, is not translated.\<close>

definition unsupported_raw :: "(string \<Rightarrow> string) \<Rightarrow> Request \<Rightarrow> string \<Rightarrow> string \<Rightarrow> operation" where
  "unsupported_raw tr r info service =
     Op_Exception (ows OWS_OPERATION_NOT_SUPORTED
       (''L'operation '' @ getParam r ''request'' @ tr '' n'est pas prise en charge par ce serveur.'' @ info) service)"

definition processWMTS :: "(string \<Rightarrow> string) \<Rightarrow> string \<Rightarrow> Request \<Rightarrow> operation" where
  "processWMTS tr info r =
     (if rq_request r = GETCAPABILITIES then Op_GetCapabilities WMTS
      else if rq_request r = GETTILE then Op_GetTile
      else if rq_request r = GETFEATUREINFO then Op_GetFeatureInfo WMTS
      else if rq_request r = GETVERSION then unsupported_raw tr r info ''wmts''
      else if rq_request r = REQUEST_MISSING then missing_request ''wmts''
      else unsupported tr r '''' ''wmts'')"

definition processTMS :: "string \<Rightarrow> Request \<Rightarrow> operation" where
  "processTMS info r =
     (if rq_request r = GETCAPABILITIES then Op_GetCapabilities TMS
      else if rq_request r = GETSERVICES then Op_GetServices
      else if rq_request r = GETTILE then Op_GetTile
      else if rq_request r = GETLAYER then Op_GetLayer
      else if rq_request r = GETLAYERMETADATA then Op_GetLayerMetadata
      else Op_Exception (ows OWS_OPERATION_NOT_SUPORTED
             (''L'operation n'est pas prise en charge par ce serveur.'' @ info) ''tms''))"

definition processWMS :: "(string \<Rightarrow> string) \<Rightarrow> string \<Rightarrow> Request \<Rightarrow> operation" where
  "processWMS tr info r =
     (if rq_request r = GETCAPABILITIES then Op_GetCapabilities WMS
      else if rq_request r = GETMAP then Op_GetMap
      else if rq_request r = GETFEATUREINFO then Op_GetFeatureInfo WMS
      else if rq_request r = GETVERSION then unsupported_raw tr r info ''wms''
      else if rq_request r = REQUEST_MISSING then missing_request ''wms''
      else unsupported_raw tr r '''' ''wms'')"

definition processRequest :: "(string \<Rightarrow> string) \<Rightarrow> string \<Rightarrow> ServerConf \<Rightarrow> Request \<Rightarrow> operation" where
  "processRequest tr info conf r =
     (if sc_supportWMTS conf \<and> rq_service r = WMTS then processWMTS tr info r
      else if sc_supportWMS conf \<and> rq_service r = WMS then processWMS tr info r
      else if sc_supportTMS conf \<and> rq_service r = TMS then processTMS info r
      else if sc_supportTMS conf \<and> rq_service r = SERVICE_MISSING
      then Op_Exception (ows OWS_MISSING_PARAMETER_VALUE (tr ''Le service est manquant'') ''wmts'')
      else Op_Exception (ows OWS_INVALID_PARAMETER_VALUE (tr ''Le service est inconnu pour ce serveur.'') ''wmts''))"

text \<open>The operation of a request, where its service is there.\<close>

fun operation_of :: "eServiceType \<Rightarrow> eRequestType \<Rightarrow> operation option" where
  "operation_of s GETCAPABILITIES = Some (Op_GetCapabilities s)"
| "operation_of s GETMAP = Some Op_GetMap"
| "operation_of s GETTILE = Some Op_GetTile"
| "operation_of s GETFEATUREINFO = Some (Op_GetFeatureInfo s)"
| "operation_of s GETSERVICES = Some Op_GetServices"
| "operation_of s GETLAYER = Some Op_GetLayer"
| "operation_of s GETLAYERMETADATA = Some Op_GetLayerMetadata"
| "operation_of s _ = None"

fun supported :: "ServerConf \<Rightarrow> eServiceType \<Rightarrow> bool" where
  "supported conf WMTS = sc_supportWMTS conf"
| "supported conf WMS = sc_supportWMS conf"
| "supported conf TMS = sc_supportTMS conf"
| "supported conf _ = False"

lemma operation_found:
  assumes "allowed (rq_service r) (rq_request r)" "supported conf (rq_service r)"
  shows "case operation_of (rq_service r) (rq_request r) of
      Some op' \<Rightarrow> processRequest tr info conf r = op'
    | None \<Rightarrow> (\<exists>e. processRequest tr info conf r = Op_Exception e)"
  using assms
  by (cases "rq_service r"; cases "rq_request r")
    (simp_all add: processRequest_def processWMTS_def processWMS_def processTMS_def unsupported_def unsupported_raw_def
      missing_request_def)

text \<open>
  C36: every request the constructor makes from a query is dispatched to the operation it names: with a
  supported service, the operation of its kind for its service and no other, and an exception exactly
  where there is none (no or an unknown request, and GetVersion); without one, an exception.
\<close>

theorem requests_dispatched:
  assumes "Request_get (Some (q @ CHR 0x00 # rest)) (Some h) (Some p) https = Inr r" "CHR 0x00 \<notin> set q"
  shows "if supported conf (rq_service r)
    then (case operation_of (rq_service r) (rq_request r) of
        Some op' \<Rightarrow> processRequest tr info conf r = op'
      | None \<Rightarrow> (\<exists>e. processRequest tr info conf r = Op_Exception e))
    else (\<exists>e. processRequest tr info conf r = Op_Exception e)"
proof -
  have "allowed (rq_service r) (rq_request r)"
    using assms(1) determined_fresh(1) unfolding Request_get_eq [OF assms(2)] by auto
  then show ?thesis
    using operation_found [of r conf tr info]
    by (cases "rq_service r") (auto simp: processRequest_def simp del: allowed.simps)
qed

theorem requests_dispatched_witness:
  "\<exists>r. Request_get (Some (''service=wms&request=map'' @ CHR 0x00 # '''')) (Some ''h'') (Some '''') None = Inr r
    \<and> (if supported sample_conf (rq_service r)
       then (case operation_of (rq_service r) (rq_request r) of
           Some op' \<Rightarrow> processRequest (\<lambda>m. m) '''' sample_conf r = op'
         | None \<Rightarrow> (\<exists>e. processRequest (\<lambda>m. m) '''' sample_conf r = Op_Exception e))
       else (\<exists>e. processRequest (\<lambda>m. m) '''' sample_conf r = Op_Exception e))"
proof -
  have n: "CHR 0x00 \<notin> set ''service=wms&request=map''" by simp
  obtain r where r: "Request_get (Some (''service=wms&request=map'' @ CHR 0x00 # '''')) (Some ''h'') (Some '''') None = Inr r"
    using Request_get_eq [OF n, of "''''" "''h''" "''''" None] by blast
  from r requests_dispatched [OF r n, of sample_conf "\<lambda>m. m" "''''"] show ?thesis by blast
qed

subsection \<open>A tile that is stored\<close>

definition send_served ::
    "'o putstr \<Rightarrow> crc32 \<Rightarrow> 'c Context \<Rightarrow> 'c served \<Rightarrow> 'o \<Rightarrow> (fault + int \<times> 'o) option" where
  "send_served pt crc C s out =
     (case s of
        Exception m \<Rightarrow> sendresponse_source pt message_source m out
      | Tile a \<Rightarrow> sendresponse_source pt (answer_source C) a out
      | PaletteTile p \<Rightarrow> sendresponse_source pt (palette_source crc (answer_source C)) p out)"

definition respond_tile ::
    "'o putstr \<Rightarrow> (string \<Rightarrow> string) \<Rightarrow> crc32 \<Rightarrow> path_of_slab \<Rightarrow> 'c Context
     \<Rightarrow> (PyramidLevel \<Rightarrow> TileParam \<Rightarrow> fault + 'c served) \<Rightarrow> (PyramidLevel \<Rightarrow> TileParam \<Rightarrow> fault + 'c served)
     \<Rightarrow> ServerConf \<Rightarrow> Request \<Rightarrow> 'c \<Rightarrow> 'o \<Rightarrow> (fault + int \<times> 'o) option" where
  "respond_tile pt tr crc P C on_fly on_demand conf r c out =
     (case getTile tr crc P C on_fly on_demand conf r c of
        Inl f \<Rightarrow> Some (Inl f)
      | Inr s \<Rightarrow> send_served pt crc C s out)"

text \<open>The slab of tile (x, y) is there, and its index names the bytes \<open>t\<close>.\<close>

definition tile_stored ::
    "path_of_slab \<Rightarrow> ('c \<Rightarrow> string \<Rightarrow> bytes option) \<Rightarrow> Level \<Rightarrow> 'c \<Rightarrow> nat \<Rightarrow> nat \<Rightarrow> bytes \<Rightarrow> bool" where
  "tile_stored P stored L c x y t \<longleftrightarrow> index_fits L \<and> x < 2 ^ 31 \<and> y < 2 ^ 31
     \<and> 0 < length t \<and> length t \<le> MAX_TILE_SIZE
     \<and> (\<exists>p b. P (racine L) (int (x div slab_w L)) (int (y div slab_h L)) (pathDepth L) = Inr p
          \<and> stored c p = Some b \<and> ROK4_IMAGE_HEADER_SIZE + 8 * (slab_h L * slab_w L) \<le> length b
          \<and> indexed_tile b (ROK4_IMAGE_HEADER_SIZE + 4 * place_in_slab L x y)
              (ROK4_IMAGE_HEADER_SIZE + 4 * (slab_h L * slab_w L) + 4 * place_in_slab L x y) t)"

lemma getData_sized_type: "getData_sized C s po k c = (r, s', c') \<Longrightarrow> sd_type s' = sd_type s \<and> sd_encoding s' = sd_encoding s"
  by (auto simp: getData_sized_def split: prod.splits sum.splits option.splits if_splits)

lemma getData_direct_type: "getData_direct C s c = (r, s', c') \<Longrightarrow> sd_type s' = sd_type s \<and> sd_encoding s' = sd_encoding s"
  by (auto simp: getData_direct_def split: prod.splits sum.splits option.splits)

lemma getData_indexed_type: "getData_indexed C s c = (r, s', c') \<Longrightarrow> sd_type s' = sd_type s \<and> sd_encoding s' = sd_encoding s"
  by (auto simp: getData_indexed_def dest!: getData_sized_type split: prod.splits sum.splits option.splits)

lemma getData_type: "getData C s c = (r, s', c') \<Longrightarrow> sd_type s' = sd_type s \<and> sd_encoding s' = sd_encoding s"
  by (auto simp: getData_def Let_def dest!: getData_direct_type getData_indexed_type split: if_splits)

lemma stored_tile_read:
  assumes "storage C pending stored can_open reliable" "reliable c" "tile_stored P stored L c x y t"
  shows "\<exists>s s' c'. getEncodedTile P L (int x) (int y) = Inr s \<and> alreadyTried s = False
    \<and> getData C s c = (Inr (Some t), s', c') \<and> sd_size s' = length t \<and> alreadyTried s' \<and> sd_data s' = Some t
    \<and> sd_type s' = toMimeType (level_format L) \<and> sd_encoding s' = toEncoding (level_format L)"
proof -
  let ?h = ROK4_IMAGE_HEADER_SIZE and ?n = "place_in_slab L x y" and ?m = "slab_h L * slab_w L"
  obtain p b where t: "index_fits L" "x < 2 ^ 31" "y < 2 ^ 31" "0 < length t" "length t \<le> MAX_TILE_SIZE"
    "P (racine L) (int (x div slab_w L)) (int (y div slab_h L)) (pathDepth L) = Inr p" "stored c p = Some b"
    "?h + 8 * ?m \<le> length b" "indexed_tile b (?h + 4 * ?n) (?h + 4 * ?m + 4 * ?n) t"
    using assms(3) unfolding tile_stored_def by blast
  let ?s = "store_indexed p (?h + 4 * ?n) (?h + 4 * ?m + 4 * ?n) (?h + 8 * ?m)
      (toMimeType (level_format L)) (toEncoding (level_format L))"
  have e: "getEncodedTile P L (int x) (int y) = Inr ?s"
    using getEncodedTile_value [OF t(1-3), of P] t(6) by simp
  have n: "?n < ?m" by (rule place_in_slab_less [OF t(1)])
  obtain s' c' where g: "getData C ?s c = (Inr (Some t), s', c')" "getLength s' = length t"
    using storage.getData_tile [OF assms(1,2) t(7,8) _ _ _ t(9,4,5), of "toMimeType (level_format L)"
        "toEncoding (level_format L)"] n by auto
  have "alreadyTried ?s = False" "sd_data ?s = None" "sd_type ?s = toMimeType (level_format L)"
    "sd_encoding ?s = toEncoding (level_format L)" by (simp_all add: store_indexed_def)
  with e g getData_tried [OF _ _ g(1)] getData_type [OF g(1)] show ?thesis
    by (intro exI [of _ ?s] exI [of _ s'] exI [of _ c']) (simp add: getLength_def)
qed

lemma tried_again: "alreadyTried s \<Longrightarrow> sd_data s = Some t \<Longrightarrow> sd_size s = length t \<Longrightarrow>
    store_getData C (s, c) = (Inr (Some t, Some (length t)), (s, c))"
  by (simp add: store_getData_def getData_def)

text \<open>The header in front of the bytes of a tile, where its format has one.\<close>

definition tile_header :: "Level \<Rightarrow> bytes \<Rightarrow> bytes \<Rightarrow> bool" where
  "tile_header L t hdr \<longleftrightarrow>
     (if gets_header (level_format L) then length hdr = headerSize (level_channels L)
        \<and> tiff_says (hdr @ t) (tiff_entries (level_format L) (level_channels L) (word_of_nat (tileW (tm L)))
            (word_of_nat (tileH (tm L))) (word_of_nat (length hdr)) (word_of_nat (tileH (tm L))) (word_of_nat (length t)))
      else hdr = [])"

lemma level_getTile_stored:
  assumes "storage C pending stored can_open reliable" "reliable c" "tile_stored P stored L c x y t"
    "gets_header (level_format L) \<longrightarrow> has_header (level_format L) (level_channels L)"
  shows "\<exists>a hdr. level_getTile tr P C L (int x) (int y) c = Inr a \<and> tile_header L t hdr
    \<and> (\<exists>a'. ds_getData (answer_source C) a = (Inr (Some (hdr @ t), Some (length (hdr @ t))), a'))
    \<and> ds_getType (answer_source C) a = toMimeType (level_format L)
    \<and> ds_getEncoding (answer_source C) a = toEncoding (level_format L)
    \<and> ds_getHttpStatus (answer_source C) a = 200 \<and> ds_getLength (answer_source C) a = length (hdr @ t)"
proof -
  obtain s s' c' where s: "getEncodedTile P L (int x) (int y) = Inr s" "alreadyTried s = False"
    "getData C s c = (Inr (Some t), s', c')" "sd_size s' = length t" "alreadyTried s'" "sd_data s' = Some t"
    "sd_type s' = toMimeType (level_format L)" "sd_encoding s' = toEncoding (level_format L)"
    using stored_tile_read [OF assms(1-3)] by blast
  have small: "length t \<le> 1048576" using assms(3) by (simp add: tile_stored_def MAX_TILE_SIZE_def)
  have again: "store_getData C (s', c') = (Inr (Some t, Some (length t)), (s', c'))"
    by (rule tried_again [OF s(5,6,4)])
  have first: "store_getData C (s, c) = (Inr (Some t, Some (length t)), (s', c'))"
    using s(3,4) by (simp add: store_getData_def)
  show ?thesis
  proof (cases "gets_header (level_format L)")
    case False
    then have "level_getTile tr P C L (int x) (int y) c = Inr (StoredTile (s', c'))"
      using s(1) first by (simp add: level_getTile_def)
    then show ?thesis using again s(4,7,8) False small
      by (intro exI [of _ "StoredTile (s', c')"] exI [of _ "[]"])
        (simp add: answer_source_def store_source_def tile_header_def getLength_def)
  next
    case True
    have d: "ds_getData (store_source C) (s', c') = (Inr (Some t, Some (length t)), (s', c'))"
      using again by (simp add: store_source_def)
    from headed_tile [OF mp [OF assms(4) True] d, of "int (tileW (tm L))" "int (tileH (tm L))" "length t"]
    obtain hdr where h: "TiffHeaderDataSource_new (store_source C) (Some (s', c')) (level_format L) (level_channels L)
          (int (tileW (tm L))) (int (tileH (tm L))) (length t)
        = Inr \<lparr>th_dataSource = Some (s', c'), th_dataSize = length (hdr @ t), th_data = map Some (hdr @ t)\<rparr>"
      "length hdr = headerSize (level_channels L)"
      "tiff_says (hdr @ t) (tiff_entries (level_format L) (level_channels L) (word_of_int (int (tileW (tm L))))
         (word_of_int (int (tileH (tm L)))) (word_of_nat (length hdr)) (word_of_int (int (tileH (tm L)))) (word_of_nat (length t)))"
      by blast
    let ?h = "\<lparr>th_dataSource = Some (s', c'), th_dataSize = length (hdr @ t), th_data = map Some (hdr @ t)\<rparr>"
    have "headerSize (level_channels L) \<le> 162" by (simp add: headerSize_def)
    then have l: "length (hdr @ t) < 2 ^ 32" using h(2) small by simp
    have "level_getTile tr P C L (int x) (int y) c = Inr (HeadedTile ?h)"
      using s(1) first True h(1) by (simp add: level_getTile_def)
    moreover have "tile_header L t hdr" using True h(2,3) by (simp add: tile_header_def)
    moreover have "ds_getData (answer_source C) (HeadedTile ?h) = (Inr (Some (hdr @ t), Some (length (hdr @ t))), HeadedTile ?h)"
      by (simp add: answer_source_def th_getData_def del: map_append)
    moreover have "ds_getLength (answer_source C) (HeadedTile ?h) = length (hdr @ t)"
      using l by (simp add: answer_source_def th_getLength_def unat_u32 del: length_append)
    ultimately show ?thesis using s(7,8)
      by (intro exI [of _ "HeadedTile ?h"] exI [of _ hdr])
        (simp add: answer_source_def th_getType_def th_getEncoding_def store_source_def)
  qed
qed

text \<open>
  C9: a tile that is stored is what the client gets. When the parameters of a request are accepted and
  name a level that stores its tiles, a column and a row inside its limits and a tile that is in its
  slab, the server sends a header with status 200, the MIME type, encoding and length, and as its body
  the bytes of the slab: alone, or behind a TIFF header that describes them where the type is TIFF.
\<close>

theorem stored_tile_sent:
  assumes "storage C pending stored can_open reliable" "reliable c" "puts_all pt content"
    "(if rq_service r = WMTS then Inr (getTileParamWMTS tr conf r) else getTileParamTMS tr conf r) = Inr (Inr tp)"
    "getLevel (ly_dataPyramid (tp_layer tp)) (tp_tileMatrix tp) = Some level"
    "\<not> outside_limits level (tp_tileCol tp) (tp_tileRow tp)" "\<not> onFly level" "\<not> onDemand level"
    "tp_format tp \<noteq> ''image/png''" "tp_tileCol tp = int x" "tp_tileRow tp = int y"
    "tile_stored P stored (pl_level level) c x y t"
    "gets_header (level_format (pl_level level)) \<longrightarrow> has_header (level_format (pl_level level)) (level_channels (pl_level level))"
  shows "\<exists>out' hdr status. respond_tile pt tr crc P C on_fly on_demand conf r c out = Some (Inr (0, out'))
    \<and> genStatusHeader 200 = Inr status \<and> tile_header (pl_level level) t hdr
    \<and> content out' = content out
        @ map byte_of (concat (header_parts status (toMimeType (level_format (pl_level level)))
            (toEncoding (level_format (pl_level level))) (length (hdr @ t)))) @ hdr @ t"
proof -
  let ?L = "pl_level level"
  obtain a hdr a' where a: "level_getTile tr P C ?L (int x) (int y) c = Inr a" "tile_header ?L t hdr"
    "ds_getData (answer_source C) a = (Inr (Some (hdr @ t), Some (length (hdr @ t))), a')"
    "ds_getType (answer_source C) a = toMimeType (level_format ?L)"
    "ds_getEncoding (answer_source C) a = toEncoding (level_format ?L)"
    "ds_getHttpStatus (answer_source C) a = 200" "ds_getLength (answer_source C) a = length (hdr @ t)"
    using level_getTile_stored [OF assms(1,2,12,13), of tr] by blast
  obtain status where st: "genStatusHeader 200 = Inr status"
    by (simp add: genStatusHeader_def getStatusCodeAsReasonPhrase_def)
  have "getTile tr crc P C on_fly on_demand conf r c = Inr (Tile a)"
    unfolding getTile_def assms(4) using assms(5-11) a(1) by (simp add: getTileUsual_def)
  moreover obtain out' where "sendresponse_source pt (answer_source C) a out = Some (Inr (0, out'))"
    "content out' = content out @ map byte_of (concat (header_parts status (toMimeType (level_format ?L))
        (toEncoding (level_format ?L)) (length (hdr @ t)))) @ hdr @ t"
    using source_sent [OF assms(3) _ a(3), of status out] st a(4-7) by auto
  ultimately show ?thesis using st a(2) by (auto simp: respond_tile_def send_served_def)
qed

text \<open>The level and the slab of \<open>LevelServe\<close>, and a request for their tile.\<close>

definition gray_pyramid :: Pyramid where
  "gray_pyramid = \<lparr>py_tms = \<lparr>ts_id = ''PM'', ts_list = [(''0'', tm gray_level)]\<rparr>,
     py_levels = [(''0'', \<lparr>pl_level = gray_level, minTileRow = 0, maxTileRow = 0, minTileCol = 0, maxTileCol = 1,
       onFly = False, onDemand = False\<rparr>)], py_format = TIFF_RAW_INT8\<rparr>"

definition gray_layer :: Layer where
  "gray_layer = \<lparr>ly_dataPyramid = gray_pyramid, ly_styles = [\<lparr>sy_identifier = ''normal'', sy_palette = Palette_empty\<rparr>],
     ly_defaultStyle = ''normal'', ly_WMTSAuthorized = True, ly_TMSAuthorized = True\<rparr>"

definition gray_conf :: ServerConf where
  "gray_conf = \<lparr>sc_layersList = [(''rock'', gray_layer)], sc_tmsList = [(''PM'', py_tms gray_pyramid)],
     sc_stylesList = [], sc_serviceTypeVersion = ''1.0.0'', sc_supportWMTS = True, sc_supportWMS = True,
     sc_supportTMS = True\<rparr>"

definition gray_query :: Request where
  "gray_query = (wmts_query ''rock'' ''normal'')\<lparr>rq_params := [(''service'', ''WMTS''), (''request'', ''GetTile''),
     (''version'', ''1.0.0''), (''layer'', ''rock''), (''tilematrixset'', ''PM''), (''tilematrix'', ''0''), (''tilerow'', ''0''),
     (''tilecol'', ''0''), (''format'', ''image/tiff''), (''style'', ''normal'')]\<rparr>"

lemma gray_params:
  "\<exists>st. getTileParamWMTS (\<lambda>m. m) gray_conf gray_query = Inr \<lparr>tp_layer = gray_layer, tp_tileMatrix = ''0'', tp_tileCol = 0,
     tp_tileRow = 0, tp_format = ''image/tiff'', tp_style = Some st\<rparr>"
proof -
  let ?r = gray_query
  have "wmts_layer (\<lambda>m. m) gray_conf ?r = Inr (''rock'', gray_layer)"
    by (simp add: wmts_layer_ok gray_query_def getParam_def containForbiddenChars_def gray_conf_def getLayer_def gray_layer_def)
  moreover have "wmts_matrix (\<lambda>m. m) gray_conf ?r gray_layer = Inr ''0''"
    by (simp add: wmts_matrix_ok gray_query_def getParam_def containForbiddenChars_def gray_conf_def getTMS_def getTm_def
        gray_layer_def gray_pyramid_def)
  moreover have "wmts_number (\<lambda>m. m) ?r ''tilerow'' ''TILEROW'' = Inr 0" "wmts_number (\<lambda>m. m) ?r ''tilecol'' ''TILECOL'' = Inr 0"
    by (simp_all add: wmts_number_ok gray_query_def getParam_def scan_int_def is_space_def is_digit_def digits_value_def to_int32_def)
  moreover have "wmts_format (\<lambda>m. m) ?r ''rock'' gray_layer = Inr ''image/tiff''"
    by (simp add: wmts_format_ok gray_query_def getParam_def containForbiddenChars_def gray_layer_def gray_pyramid_def
        toMimeType_def eformat_mime_def eformats_def)
  moreover have "\<exists>st. wmts_style (\<lambda>m. m) ?r ''rock'' gray_layer = Inr (Some st)"
    by (simp add: wmts_style_ok gray_query_def getParam_def gray_layer_def gray_pyramid_def isRaster_def eformat_israster_def
        eformats_def getStyleByIdentifier_def)
  ultimately show ?thesis by (auto simp: getTileParamWMTS_def)
qed

lemma gray_stored:
  "tile_stored file_getPath (\<lambda>c n. files c (root_dir c @ n)) gray_level one_slab 0 0 [7, 9]"
proof -
  have "file_getPath ''L'' 0 0 0 = Inr ''L/00.tif''" by code_simp
  moreover have "files one_slab (root_dir one_slab @ ''L/00.tif'') = Some (replicate 2048 0 @ put32 2056 @ put32 2 @ [7, 9])"
    by (simp add: one_slab_def empty_directory_def)
  ultimately show ?thesis using slab_of_one_tile
    by (simp add: tile_stored_def index_fits_def gray_level_def place_in_slab_def ROK4_IMAGE_HEADER_SIZE_def MAX_TILE_SIZE_def)
qed

theorem stored_tile_sent_witness:
  "\<exists>out' hdr status. respond_tile (\<lambda>b out. (int (length b), out @ b)) (\<lambda>m. m) (\<lambda>_ _. 0) file_getPath file_context
      (\<lambda>_ _. Inl NullPointer) (\<lambda>_ _. Inl NullPointer) gray_conf gray_query one_slab [] = Some (Inr (0, out'))
    \<and> genStatusHeader 200 = Inr status \<and> tile_header gray_level [7, 9] hdr
    \<and> out' = map byte_of (concat (header_parts status (toMimeType TIFF_RAW_INT8) (toEncoding TIFF_RAW_INT8)
        (length (hdr @ [7, 9])))) @ hdr @ [7, 9]"
proof -
  let ?level = "\<lparr>pl_level = gray_level, minTileRow = 0, maxTileRow = 0, minTileCol = 0, maxTileCol = 1,
       onFly = False, onDemand = False\<rparr>"
  obtain st where p: "getTileParamWMTS (\<lambda>m. m) gray_conf gray_query = Inr \<lparr>tp_layer = gray_layer, tp_tileMatrix = ''0'',
      tp_tileCol = 0, tp_tileRow = 0, tp_format = ''image/tiff'', tp_style = Some st\<rparr>"
    using gray_params by blast
  have g: "pl_level ?level = gray_level" "level_format gray_level = TIFF_RAW_INT8" "level_channels gray_level = 1"
    by (simp_all add: gray_level_def)
  have "fconnected one_slab" "puts_all (\<lambda>b out. (int (length b), out @ b)) (\<lambda>b. b)"
    by (simp_all add: one_slab_def empty_directory_def puts_all_def)
  from stored_tile_sent [OF file_storage.storage_axioms this, where level = ?level and x = 0 and y = 0 and t = "[7, 9]"
      and r = gray_query and conf = gray_conf and tr = "\<lambda>m. m" and P = file_getPath and out = "[]" and crc = "\<lambda>_ _. 0"
      and on_fly = "\<lambda>_ _. Inl NullPointer" and on_demand = "\<lambda>_ _. Inl NullPointer", unfolded g]
  show ?thesis using gray_stored p
    by (simp add: gray_query_def wmts_query_def getLevel_def outside_limits_def gray_layer_def gray_pyramid_def has_header_def)
qed

end
