(* ===== verification/Lines.thy ===== *)
theory Lines
  imports Prelude
begin

text \<open>
  Buffers of samples of any type, written in place, and loops over their places: what the tools that
  work on whole images and the images that rearrange the samples of others share. A write or a copy
  outside of its buffer is a fault; \<open>foldR\<close> is a loop whose body may fail, with a rule that carries an
  invariant through it.
\<close>

subsection \<open>Writing in place\<close>

text \<open>\<open>memcpy (buf + p, xs, ...)\<close>.\<close>

definition write_at :: "nat \<Rightarrow> 'a list \<Rightarrow> 'a list \<Rightarrow> fault + 'a list" where
  "write_at p xs buf =
     (if p + length xs \<le> length buf then Inr (take p buf @ xs @ drop (p + length xs) buf)
      else Inl BufferOverflow)"

text \<open>\<open>n\<close> samples from place \<open>p\<close> on.\<close>

definition read_at :: "nat \<Rightarrow> nat \<Rightarrow> 'a list \<Rightarrow> fault + 'a list" where
  "read_at p n buf = (if p + n \<le> length buf then Inr (take n (drop p buf)) else Inl OverRead)"

definition put_at :: "nat \<Rightarrow> 'a \<Rightarrow> 'a list \<Rightarrow> fault + 'a list" where
  "put_at p x buf = (if p < length buf then Inr (buf[p := x]) else Inl BufferOverflow)"

lemma put_at_ok [buffer_simps]: "p < length buf \<Longrightarrow> put_at p x buf = Inr (buf[p := x])"
  by (simp add: put_at_def)

lemma read_at_ok [buffer_simps]: "p + n \<le> length buf \<Longrightarrow> read_at p n buf = Inr (take n (drop p buf))"
  by (simp add: read_at_def)

definition patched :: "nat \<Rightarrow> 'a list \<Rightarrow> 'a list \<Rightarrow> 'a list" where
  "patched p xs buf = take p buf @ xs @ drop (p + length xs) buf"

lemma write_at_ok [buffer_simps]: "p + length xs \<le> length buf \<Longrightarrow> write_at p xs buf = Inr (patched p xs buf)"
  by (simp add: write_at_def patched_def)

lemma length_patched [simp]: "p + length xs \<le> length buf \<Longrightarrow> length (patched p xs buf) = length buf"
  by (simp add: patched_def)

lemma nth_patched:
  "p + length xs \<le> length buf \<Longrightarrow> i < length buf \<Longrightarrow>
     patched p xs buf ! i = (if p \<le> i \<and> i < p + length xs then xs ! (i - p) else buf ! i)"
  by (auto simp: patched_def nth_append)

subsection \<open>Integers\<close>

text \<open>Values of the type \<open>int\<close> of 32 bits: the results of its arithmetic.\<close>

definition int_range :: "int \<Rightarrow> fault + int" where
  "int_range v = (if - (2 ^ 31) \<le> v \<and> v < 2 ^ 31 then Inr v else Inl SignedOverflow)"

definition int_mul :: "int \<Rightarrow> int \<Rightarrow> fault + int" where
  "int_mul a b = (if - (2 ^ 31) \<le> a * b \<and> a * b < 2 ^ 31 then Inr (a * b) else Inl SignedOverflow)"

lemma int_range_nat: "n < 2 ^ 31 \<Longrightarrow> int_range (int n) = Inr (int n)"
proof -
  assume "n < 2 ^ 31"
  then have "int n < int (2 ^ 31)" by (simp only: of_nat_less_iff)
  moreover have "- (2 ^ 31) \<le> int n" by (rule order_trans [of _ 0]) simp_all
  ultimately show ?thesis by (simp add: int_range_def)
qed

lemma int_range_next: "n + 1 < 2 ^ 31 \<Longrightarrow> int_range (int n + 1) = Inr (int n + 1)"
  using int_range_nat [of "n + 1"] by (simp only: of_nat_add of_nat_1)

lemma int_mul_nat: "a * b < 2 ^ 31 \<Longrightarrow> int_mul (int a) (int b) = Inr (int (a * b))"
proof -
  assume "a * b < 2 ^ 31"
  then have "int (a * b) < int (2 ^ 31)" by (simp only: of_nat_less_iff)
  moreover have "- (2 ^ 31) \<le> int (a * b)" by (rule order_trans [of _ 0]) simp_all
  ultimately show ?thesis by (simp add: int_mul_def)
qed

subsection \<open>Loops\<close>

fun foldR :: "('x \<Rightarrow> 's \<Rightarrow> 'e + 's) \<Rightarrow> 'x list \<Rightarrow> 's \<Rightarrow> 'e + 's" where
  "foldR f [] s = Inr s"
| "foldR f (x # xs) s = bindR (f x s) (foldR f xs)"

lemma foldR_append: "foldR f (xs @ ys) s = bindR (foldR f xs s) (foldR f ys)"
  by (induction xs arbitrary: s) (auto simp: bindR_assoc intro!: bindR_cong)

lemma foldR_inv:
  assumes "\<And>i s. i < length xs \<Longrightarrow> I i s \<Longrightarrow> \<exists>s'. f (xs ! i) s = Inr s' \<and> I (Suc i) s'" "I 0 s"
  shows "\<exists>s'. foldR f xs s = Inr s' \<and> I (length xs) s'"
  using assms
proof (induction xs arbitrary: s I)
  case (Cons x xs)
  from Cons.prems(1) [of 0 s] Cons.prems(2) obtain t where t: "f x s = Inr t" "I 1 t" by auto
  have "\<exists>s'. foldR f xs t = Inr s' \<and> I (Suc (length xs)) s'"
  proof (rule Cons.IH [where I = "\<lambda>i. I (Suc i)"])
    fix i s assume "i < length xs" "I (Suc i) s"
    then show "\<exists>s'. f (xs ! i) s = Inr s' \<and> I (Suc (Suc i)) s'" using Cons.prems(1) [of "Suc i" s] by simp
  qed (use t in simp)
  then show ?case using t by simp
qed simp

lemma foldR_upt:
  assumes "\<And>i s. i < n \<Longrightarrow> I i s \<Longrightarrow> \<exists>s'. f i s = Inr s' \<and> I (Suc i) s'" "I 0 s"
  shows "\<exists>s'. foldR f [0..<n] s = Inr s' \<and> I n s'"
  using foldR_inv [of "[0..<n]" I f s] assms by simp

text \<open>The invariant need not count.\<close>

lemma foldR_keeps:
  assumes "\<And>x s. x \<in> set xs \<Longrightarrow> I s \<Longrightarrow> \<exists>s'. f x s = Inr s' \<and> I s'" "I s"
  shows "\<exists>s'. foldR f xs s = Inr s' \<and> I s'"
  using foldR_inv [of xs "\<lambda>_. I" f s] assms by simp

text \<open>Samples stored one after the other.\<close>

lemma patched_Nil [simp]: "patched p [] buf = buf"
  by (simp add: patched_def)

lemma put_patched:
  assumes "p + length xs < length buf"
  shows "put_at (p + length xs) x (patched p xs buf) = Inr (patched p (xs @ [x]) buf)"
proof -
  have "patched p xs buf = take p buf @ xs @ buf ! (p + length xs) # drop (Suc (p + length xs)) buf"
    using assms by (simp add: patched_def Cons_nth_drop_Suc)
  then show ?thesis using assms by (simp add: put_at_def patched_def list_update_append)
qed

lemma foldR_puts:
  assumes "\<And>c. c < n \<Longrightarrow> g c = Inr (v c)" "p + n \<le> length buf"
  shows "foldR (\<lambda>c s. bindR (g c) (\<lambda>x. put_at (p + c) x s)) [0..<n] buf = Inr (patched p (map v [0..<n]) buf)"
proof -
  have "\<exists>s. foldR (\<lambda>c s. bindR (g c) (\<lambda>x. put_at (p + c) x s)) [0..<n] buf = Inr s \<and> s = patched p (map v [0..<n]) buf"
  proof (rule foldR_upt [where I = "\<lambda>i s. s = patched p (map v [0..<i]) buf"])
    fix i s assume "i < n" "s = patched p (map v [0..<i]) buf"
    then show "\<exists>s'. bindR (g i) (\<lambda>x. put_at (p + i) x s) = Inr s' \<and> s' = patched p (map v [0..<Suc i]) buf"
      using assms put_patched [of p "map v [0..<i]" buf "v i"] by simp
  qed simp
  then show ?thesis by blast
qed

subsection \<open>Strides\<close>

text \<open>\<open>for ( pos = p; pos < n; pos += k )\<close>, where \<open>k\<close> is not 0 if the body is entered.\<close>

function (sequential) stride :: "nat \<Rightarrow> nat \<Rightarrow> nat \<Rightarrow> nat list" where
  "stride p n k = (if p < n \<and> 0 < k then p # stride (p + k) n k else [])"
  by pat_completeness auto
termination
  by (relation "measure (\<lambda>(p, n, k). n - p)") auto

declare stride.simps [simp del]

lemma stride_multiples: "0 < k \<Longrightarrow> stride (k * a) (k * b) k = map ((*) k) [a..<b]"
proof (induction "b - a" arbitrary: a)
  case (Suc d)
  then have "a < b" "d = b - Suc a" by auto
  with Suc(1) [of "Suc a"] Suc.prems show ?case
    by (subst stride.simps) (simp add: upt_conv_Cons add.commute)
qed (subst stride.simps, simp)

subsection \<open>Pixels\<close>

text \<open>Pixel \<open>p\<close> of a buffer of pixels of \<open>n\<close> samples.\<close>

definition pixel :: "nat \<Rightarrow> nat \<Rightarrow> 'a list \<Rightarrow> 'a list" where
  "pixel n p buf = take n (drop (n * p) buf)"

lemma pixel_room: "p < w \<Longrightarrow> n * p + n \<le> n * (w :: nat)"
  using mult_le_mono2 [of "Suc p" w n] by simp

lemma length_pixel [simp]: "p < w \<Longrightarrow> length buf = n * w \<Longrightarrow> length (pixel n p buf) = n"
  using pixel_room [of p w n] by (simp add: pixel_def)

lemma nth_pixel: "p < w \<Longrightarrow> length buf = n * w \<Longrightarrow> i < n \<Longrightarrow> pixel n p buf ! i = buf ! (n * p + i)"
  using pixel_room [of p w n] by (simp add: pixel_def)

lemma pixel_patched:
  assumes "p < w" "q < w" "length buf = n * w" "length xs = n"
  shows "pixel n q (patched (n * p) xs buf) = (if q = p then xs else pixel n q buf)"
proof (rule nth_equalityI)
  have room: "n * p + length xs \<le> length buf" using pixel_room [OF assms(1)] assms(3,4) by simp
  have l: "length (patched (n * p) xs buf) = n * w" using room assms(3) by simp
  show "length (pixel n q (patched (n * p) xs buf)) = length (if q = p then xs else pixel n q buf)"
    using length_pixel [OF assms(2) l] length_pixel [OF assms(2,3)] assms(4) by simp
  fix i assume "i < length (pixel n q (patched (n * p) xs buf))"
  then have i: "i < n" using length_pixel [OF assms(2) l] by simp
  have q: "n * q + i < length buf" using pixel_room [OF assms(2), of n] i assms(3) by simp
  have "(n * p \<le> n * q + i \<and> n * q + i < n * p + n) \<longleftrightarrow> q = p"
  proof
    assume a: "n * p \<le> n * q + i \<and> n * q + i < n * p + n"
    have "(n * q + i) div n = q" "0 < n" using i by (simp_all add: div_mult_self2)
    moreover have "(n * q + i) div n = p"
      using a i by (intro div_nat_eqI) (simp_all add: mult.commute)
    ultimately show "q = p" by simp
  qed (use i in simp)
  then show "pixel n q (patched (n * p) xs buf) ! i = (if q = p then xs else pixel n q buf) ! i"
    using nth_patched [OF room q] nth_pixel [OF assms(2) l i] nth_pixel [OF assms(2,3) i] assms(4) i by auto
qed

lemma buffer_of_pixels:
  assumes "length a = n * w" "length b = n * w" "\<And>p. p < w \<Longrightarrow> pixel n p a = pixel n p b"
  shows "a = b"
proof (rule nth_equalityI)
  fix i assume i: "i < length a"
  then have "0 < n" using assms(1) by (cases n) simp_all
  then have "i div n < w" "i mod n < n" using i assms(1) by (simp_all add: less_mult_imp_div_less mult.commute)
  with nth_pixel [OF _ assms(1), of "i div n" "i mod n"] nth_pixel [OF _ assms(2), of "i div n" "i mod n"]
    assms(3) [of "i div n"] show "a ! i = b ! i" by simp
qed (use assms in simp)

lemma write_all: "length xs = length buf \<Longrightarrow> write_at 0 xs buf = Inr xs"
  by (simp add: write_at_def)

text \<open>A line of \<open>w\<close> pixels written behind \<open>off\<close> pixels.\<close>

lemma pixel_patched_line:
  assumes "length xs = n * w" "off + w \<le> W" "length buf = n * W" "p < W"
  shows "pixel n p (patched (n * off) xs buf) = (if off \<le> p \<and> p < off + w then pixel n (p - off) xs else pixel n p buf)"
proof (rule nth_equalityI)
  have "n * (off + w) \<le> n * W" using assms(2) by (rule mult_le_mono2)
  then have room: "n * off + length xs \<le> length buf" using assms(1,3) by (simp add: add_mult_distrib2)
  have l: "length (patched (n * off) xs buf) = n * W" using room assms(3) by simp
  show len: "length (pixel n p (patched (n * off) xs buf)) =
      length (if off \<le> p \<and> p < off + w then pixel n (p - off) xs else pixel n p buf)"
    using length_pixel [OF assms(4) l] length_pixel [OF assms(4,3)] length_pixel [OF _ assms(1), of "p - off"] by auto
  fix i assume "i < length (pixel n p (patched (n * off) xs buf))"
  then have i: "i < n" using length_pixel [OF assms(4) l] by simp
  have q: "n * p + i < length buf" using pixel_room [OF assms(4), of n] i assms(3) by simp
  have "n * off \<le> n * p + i \<longleftrightarrow> off \<le> p"
  proof
    assume "n * off \<le> n * p + i"
    then have "n * off < n * Suc p" using i by simp
    then show "off \<le> p" using i by (simp only: mult_less_cancel1) simp
  qed (simp add: trans_le_add1)
  moreover have "n * p + i < n * off + n * w \<longleftrightarrow> p < off + w"
  proof
    assume "n * p + i < n * off + n * w"
    then have "n * p < n * (off + w)" by (simp add: add_mult_distrib2)
    then show "p < off + w" by simp
  next
    assume "p < off + w"
    then have "n * Suc p \<le> n * (off + w)" by (intro mult_le_mono2) simp
    then show "n * p + i < n * off + n * w" using i by (simp add: add_mult_distrib2)
  qed
  ultimately have inside: "n * off \<le> n * p + i \<and> n * p + i < n * off + length xs \<longleftrightarrow> off \<le> p \<and> p < off + w"
    using assms(1) by simp
  have "n * p + i - n * off = n * (p - off) + i" if "off \<le> p" using that by (simp add: diff_mult_distrib2)
  then show "pixel n p (patched (n * off) xs buf) ! i = (if off \<le> p \<and> p < off + w then pixel n (p - off) xs else pixel n p buf) ! i"
    using nth_patched [OF room q] inside nth_pixel [OF assms(4) l i] nth_pixel [OF assms(4,3) i] nth_pixel [OF _ assms(1) i, of "p - off"]
    by (cases "off \<le> p \<and> p < off + w") auto
qed

text \<open>A loop over the pixels that puts the pixel \<open>v\<close> at \<open>p\<close> where \<open>c p\<close> says so.\<close>

lemma pixel_loop:
  assumes "length IM = k * n"
    "\<And>p s. p < n \<Longrightarrow> length s = k * n \<Longrightarrow> pixel k p s = pixel k p IM \<Longrightarrow>
       body p s = (if c p then write_at (k * p) v s else Inr s)" "length v = k"
  shows "\<exists>IM'. foldR body [0..<n] IM = Inr IM' \<and> length IM' = k * n
    \<and> (\<forall>p < n. pixel k p IM' = (if c p then v else pixel k p IM))"
proof -
  let ?I = "\<lambda>i s. length s = k * n \<and> (\<forall>p < n. pixel k p s = (if p < i \<and> c p then v else pixel k p IM))"
  have "\<exists>s'. foldR body [0..<n] IM = Inr s' \<and> ?I n s'"
  proof (rule foldR_upt [where I = ?I])
    fix i s assume i: "i < n" and s: "?I i s"
    then have b: "body i s = (if c i then write_at (k * i) v s else Inr s)" using assms(2) by simp
    have room: "k * i + length v \<le> length s" using pixel_room [OF i, of k] s assms(3) by simp
    show "\<exists>s'. body i s = Inr s' \<and> ?I (Suc i) s'"
    proof (cases "c i")
      case True
      then show ?thesis
        using b room pixel_patched [OF i _ _ assms(3), of _ s] s by (auto simp: write_at_ok less_Suc_eq)
    next
      case False
      then show ?thesis using b s by (auto simp: less_Suc_eq)
    qed
  qed (use assms(1) in simp)
  then show ?thesis by auto
qed

end
