(* ===== verification/MergeTiff.thy ===== *)
theory MergeTiff
  imports Lines Format
begin

text \<open>
  rok4generation/tools/merge4tiff/merge4tiff.cpp: four images become one of the same size, each pixel of
  which is the average of a square of four. This is how a level of a pyramid is made from the one
  below it.

  The samples have any type; how they are added up and averaged is a record of three functions: for
  bytes a sum and the table of the gamma correction, whose entries are computed with doubles and are
  a parameter, for floats the sum and the division of the machine. An image is what its \<open>getline\<close>
  gives, \<open>None\<close> for a failure. Sizes of lines are taken to fit an \<open>int\<close>.
\<close>

subsection \<open>Images\<close>

record 't MergeInput =
  mi_line :: "nat \<Rightarrow> 't list option"
  mi_mask :: "(nat \<Rightarrow> u8 list option) option"

datatype merge_error = Memory fault | Failed  \<comment> \<open>\<open>Failed\<close>: -1 is returned\<close>

definition checked :: "fault + 'a \<Rightarrow> merge_error + 'a" where
  "checked r = map_sum Memory id r"

definition some_line :: "'a list option \<Rightarrow> merge_error + 'a list" where
  "some_line l = (case l of None \<Rightarrow> Inl Failed | Some l \<Rightarrow> Inr l)"

text \<open>The global variables of the tool.\<close>

record merge_size =
  mg_width :: nat
  mg_height :: nat
  mg_samplesperpixel :: nat

subsection \<open>The background\<close>

definition fillBgLine ::
    "merge_size \<Rightarrow> 't MergeInput \<Rightarrow> 't list \<times> u8 list \<Rightarrow> nat \<Rightarrow> 't list \<Rightarrow> merge_error + 't list \<times> u8 list" where
  "fillBgLine g bg s line nodata =
     bindR (some_line (mi_line bg line)) (\<lambda>l. bindR (checked (write_at 0 l (fst s))) (\<lambda>img.
       case mi_mask bg of
         None \<Rightarrow> bindR (checked (write_at 0 (replicate (mg_width g) 255) (snd s))) (\<lambda>msk. Inr (img, msk))
       | Some mk \<Rightarrow>
           bindR (some_line (mk line)) (\<lambda>l. bindR (checked (write_at 0 l (snd s))) (\<lambda>msk.
           bindR (checked (foldR (\<lambda>w img. bindR (elem msk w) (\<lambda>b.
                    if b = 0 then bindR (read_at 0 (mg_samplesperpixel g) nodata) (\<lambda>v.
                      write_at (w * mg_samplesperpixel g) v img)
                    else Inr img)) [0..<mg_width g] img)) (\<lambda>img. Inr (img, msk))))))"

subsection \<open>The average of four pixels\<close>

record ('t, 'f) averaging =
  av_zero :: 'f
  av_add :: "'f \<Rightarrow> 't \<Rightarrow> 'f"
  av_out :: "'f \<Rightarrow> nat \<Rightarrow> fault + 't"

text \<open>\<open>MERGE[ ( int ) pix[c]*4/nbData]\<close>: the table has 1024 entries, of which 1021 are set.\<close>

definition byte_averaging :: "(nat \<Rightarrow> u8) \<Rightarrow> (u8, nat) averaging" where
  "byte_averaging MERGE =
     \<lparr>av_zero = 0, av_add = (\<lambda>s b. s + unat b),
      av_out = (\<lambda>s n. if s * 4 div n \<le> 1020 then Inr (MERGE (s * 4 div n)) else Inl Uninitialised)\<rparr>"

text \<open>A pixel that holds data is added to the sums, and counted.\<close>

definition add_pixel ::
    "('t, 'f) averaging \<Rightarrow> nat \<Rightarrow> u8 list \<Rightarrow> 't list \<Rightarrow> nat \<Rightarrow> nat \<Rightarrow> 'f list \<times> nat \<Rightarrow> fault + 'f list \<times> nat" where
  "add_pixel A spp msk line pixIn sampleIn s =
     bindR (elem msk pixIn) (\<lambda>b.
       if b = 0 then Inr s
       else bindR (foldR (\<lambda>c pix. bindR (elem line (sampleIn + c)) (\<lambda>v. bindR (elem pix c) (\<lambda>p. put_at c (av_add A p v) pix)))
                     [0..<spp] (fst s)) (\<lambda>pix. Inr (pix, snd s + 1)))"

definition merge_pixel ::
    "('t, 'f) averaging \<Rightarrow> nat \<Rightarrow> 't list \<Rightarrow> u8 list \<Rightarrow> 't list \<Rightarrow> u8 list \<Rightarrow> nat \<Rightarrow> 't list \<times> u8 list \<Rightarrow> fault + 't list \<times> u8 list" where
  "merge_pixel A spp line_1I line_1M line_2I line_2M pixIn out =
     (let sampleIn = pixIn * spp
      in bindR (add_pixel A spp line_1M line_1I pixIn sampleIn (replicate spp (av_zero A), 0)) (\<lambda>s.
         bindR (add_pixel A spp line_1M line_1I (pixIn + 1) (sampleIn + spp) s) (\<lambda>s.
         bindR (add_pixel A spp line_2M line_2I pixIn sampleIn s) (\<lambda>s.
         bindR (add_pixel A spp line_2M line_2I (pixIn + 1) (sampleIn + spp) s) (\<lambda>s.
           if snd s > 1 then
             bindR (put_at (pixIn div 2) 255 (snd out)) (\<lambda>outM.
             bindR (foldR (\<lambda>c outI. bindR (bindR (elem (fst s) c) (\<lambda>p. av_out A p (snd s)))
                      (\<lambda>v. put_at (sampleIn div 2 + c) v outI)) [0..<spp] (fst out)) (\<lambda>outI. Inr (outI, outM)))
           else Inr out)))))"

subsection \<open>A line\<close>

text \<open>
  The buffers that live over the lines, and what was written. The two lines of the sources are wide
  enough for two images side by side.
\<close>

record 't merge_state =
  ms_bgI :: "'t list"
  ms_bgM :: "u8 list"
  ms_1I :: "'t list"
  ms_2I :: "'t list"
  ms_image :: "(nat \<times> 't list) list"
  ms_mask :: "(nat \<times> u8 list) list"

text \<open>The two lines of one source, at pixel \<open>off\<close> of the buffers, with their masks.\<close>

definition load_source ::
    "merge_size \<Rightarrow> 't MergeInput option \<Rightarrow> nat \<Rightarrow> nat \<Rightarrow> ('t list \<times> 't list) \<times> (u8 list \<times> u8 list)
     \<Rightarrow> merge_error + ('t list \<times> 't list) \<times> (u8 list \<times> u8 list)" where
  "load_source g input off h s =
     (case input of
        None \<Rightarrow> Inr s
      | Some im \<Rightarrow>
          bindR (some_line (mi_line im (2 * h))) (\<lambda>l.
          bindR (checked (write_at (off * mg_samplesperpixel g) l (fst (fst s)))) (\<lambda>line_1I.
          bindR (some_line (mi_line im (2 * h + 1))) (\<lambda>l.
          bindR (checked (write_at (off * mg_samplesperpixel g) l (snd (fst s)))) (\<lambda>line_2I.
            case mi_mask im of
              None \<Rightarrow> Inr ((line_1I, line_2I), snd s)
            | Some mk \<Rightarrow>
                bindR (some_line (mk (2 * h))) (\<lambda>l.
                bindR (checked (write_at off l (fst (snd s)))) (\<lambda>line_1M.
                bindR (some_line (mk (2 * h + 1))) (\<lambda>l.
                bindR (checked (write_at off l (snd (snd s)))) (\<lambda>line_2M.
                Inr ((line_1I, line_2I), (line_1M, line_2M)))))))))))"

text \<open>
  The writing of a line. \<open>ok\<close> and \<open>okM\<close> tell whether \<open>writeLine\<close> of the image and of the mask works;
  without a mask to write \<open>okM\<close> is \<open>None\<close>.
\<close>

definition write_lines ::
    "(nat \<Rightarrow> bool) \<Rightarrow> (nat \<Rightarrow> bool) option \<Rightarrow> nat \<Rightarrow> 't list \<Rightarrow> u8 list \<Rightarrow> 't merge_state \<Rightarrow> merge_error + 't merge_state" where
  "write_lines ok okM line img msk s =
     (if \<not> ok line then Inl Failed
      else let s = s\<lparr>ms_image := ms_image s @ [(line, img)]\<rparr>
      in case okM of
        None \<Rightarrow> Inr s
      | Some okM \<Rightarrow> if okM line then Inr (s\<lparr>ms_mask := ms_mask s @ [(line, msk)]\<rparr>) else Inl Failed)"

definition merge_line ::
    "merge_size \<Rightarrow> ('t, 'f) averaging \<Rightarrow> 't MergeInput option \<Rightarrow> (nat \<Rightarrow> nat \<Rightarrow> 't MergeInput option)
     \<Rightarrow> (nat \<Rightarrow> bool) \<Rightarrow> (nat \<Rightarrow> bool) option \<Rightarrow> 't list \<Rightarrow> nat \<Rightarrow> nat \<Rightarrow> 't merge_state \<Rightarrow> merge_error + 't merge_state" where
  "merge_line g A BGI INPUTI ok okM nodata y h s =
     (let w = mg_width g; spp = mg_samplesperpixel g;
          left = (if INPUTI y 0 \<noteq> None then 0 else w);
          right = (if INPUTI y 1 \<noteq> None then 2 * w else w);
          line = y * mg_height g div 2 + h
      in bindR (case BGI of None \<Rightarrow> Inr (ms_bgI s, ms_bgM s) | Some bg \<Rightarrow> fillBgLine g bg (ms_bgI s, ms_bgM s) line nodata) (\<lambda>b.
         let s = s\<lparr>ms_bgI := fst b, ms_bgM := snd b\<rparr>
         in if left = right then write_lines ok okM line (ms_bgI s) (ms_bgM s) s
            else
              bindR (load_source g (INPUTI y 0) 0 h ((ms_1I s, ms_2I s), (replicate (2 * w) 255, replicate (2 * w) 255))) (\<lambda>l.
              bindR (load_source g (INPUTI y 1) w h l) (\<lambda>l.
              bindR (checked (foldR (merge_pixel A spp (fst (fst l)) (fst (snd l)) (snd (fst l)) (snd (snd l)))
                        (stride left right 2) (ms_bgI s, ms_bgM s))) (\<lambda>out.
              write_lines ok okM line (fst out) (snd out) (s\<lparr>ms_1I := fst (fst l), ms_2I := snd (fst l)\<rparr>))))))"

text \<open>\<open>memory\<close> is what the two lines of the sources hold before they are read.\<close>

definition merge ::
    "merge_size \<Rightarrow> ('t, 'f) averaging \<Rightarrow> 't MergeInput option \<Rightarrow> (nat \<Rightarrow> nat \<Rightarrow> 't MergeInput option)
     \<Rightarrow> (nat \<Rightarrow> bool) \<Rightarrow> (nat \<Rightarrow> bool) option \<Rightarrow> 't list \<Rightarrow> 't list \<Rightarrow> merge_error + 't merge_state" where
  "merge g A BGI INPUTI ok okM nodata memory =
     bindR (checked (foldR (\<lambda>i l. bindR (elem nodata (i mod mg_samplesperpixel g)) (\<lambda>v. Inr (l @ [v])))
              [0..<mg_width g * mg_samplesperpixel g] [])) (\<lambda>bg.
     foldR (\<lambda>y. foldR (merge_line g A BGI INPUTI ok okM nodata y) [0..<mg_height g div 2]) [0, 1]
       \<lparr>ms_bgI = bg, ms_bgM = replicate (mg_width g) 0, ms_1I = memory, ms_2I = memory, ms_image = [], ms_mask = []\<rparr>)"

subsection \<open>What a pixel of the result is\<close>

text \<open>The four places a pixel is made from, in a pair of lines.\<close>

definition data_of :: "nat \<Rightarrow> u8 list \<Rightarrow> 't list \<Rightarrow> nat \<Rightarrow> 't list list" where
  "data_of spp msk line p = (if msk ! p = 0 then [] else [pixel spp p line])"

definition square :: "nat \<Rightarrow> 't list \<Rightarrow> u8 list \<Rightarrow> 't list \<Rightarrow> u8 list \<Rightarrow> nat \<Rightarrow> 't list list" where
  "square spp l1 m1 l2 m2 x =
     data_of spp m1 l1 (2 * x) @ data_of spp m1 l1 (2 * x + 1) @ data_of spp m2 l2 (2 * x) @ data_of spp m2 l2 (2 * x + 1)"

definition sums :: "('t, 'f) averaging \<Rightarrow> nat \<Rightarrow> 't list list \<Rightarrow> 'f list" where
  "sums A spp ps = map (\<lambda>c. foldl (av_add A) (av_zero A) (map (\<lambda>p. p ! c) ps)) [0..<spp]"

text \<open>The averaging never fails, and gives \<open>avg\<close> of the samples of two to four pixels.\<close>

definition averages :: "('t, 'f) averaging \<Rightarrow> ('t list \<Rightarrow> 't) \<Rightarrow> bool" where
  "averages A avg \<longleftrightarrow>
     (\<forall>vs. 1 < length vs \<and> length vs \<le> 4 \<longrightarrow> av_out A (foldl (av_add A) (av_zero A) vs) (length vs) = Inr (avg vs))"

definition byte_average :: "(nat \<Rightarrow> u8) \<Rightarrow> u8 list \<Rightarrow> u8" where
  "byte_average MERGE vs = MERGE (sum_list (map unat vs) * 4 div length vs)"

lemma byte_averages: "averages (byte_averaging MERGE) (byte_average MERGE)"
proof -
  have f: "foldl (\<lambda>s b. s + unat b) k vs = k + sum_list (map unat vs)" for k and vs :: "u8 list"
    by (induction vs arbitrary: k) simp_all
  have b: "sum_list (map unat vs) \<le> length vs * 255" for vs :: "u8 list"
  proof (induction vs)
    case (Cons v vs)
    have "unat v < 2 ^ LENGTH(8)" by (rule unsigned_less)
    then have "unat v \<le> 255" by simp
    with Cons show ?case by simp
  qed simp
  have "sum_list (map unat vs) * 4 div length vs \<le> 1020" if "1 < length vs" for vs :: "u8 list"
  proof -
    have "sum_list (map unat vs) * 4 div length vs \<le> length vs * 1020 div length vs"
      using b [of vs] by (intro div_le_mono) simp
    also have "\<dots> = 1020" using that by (intro nonzero_mult_div_cancel_left) auto
    finally show ?thesis .
  qed
  then show ?thesis by (simp add: averages_def byte_averaging_def byte_average_def f)
qed

definition average_pixel :: "nat \<Rightarrow> ('t list \<Rightarrow> 't) \<Rightarrow> 't list list \<Rightarrow> 't list" where
  "average_pixel spp avg ps = map (\<lambda>c. avg (map (\<lambda>p. p ! c) ps)) [0..<spp]"

subsubsection \<open>Adding and averaging\<close>

lemma add_pixel_ok:
  assumes "p < length msk" "length line = spp * length msk"
  shows "add_pixel A spp msk line p (p * spp) (sums A spp ps, length ps)
    = Inr (sums A spp (ps @ data_of spp msk line p), length (ps @ data_of spp msk line p))"
proof (cases "msk ! p = 0")
  case False
  let ?px = "pixel spp p line"
  have e: "elem line (p * spp + c) = Inr (?px ! c)" if "c < spp" for c
    using nth_pixel [OF assms(1,2) that] pixel_room [OF assms(1), of spp] assms(2) that
    by (simp add: elem_def mult.commute)
  have "\<exists>s. foldR (\<lambda>c pix. bindR (elem line (p * spp + c)) (\<lambda>v. bindR (elem pix c) (\<lambda>q. put_at c (av_add A q v) pix)))
      [0..<spp] (sums A spp ps) = Inr s \<and> length s = spp
      \<and> (\<forall>c < spp. s ! c = sums A spp (if c < spp then ps @ [?px] else ps) ! c)"
  proof (rule foldR_upt [where I = "\<lambda>i s. length s = spp \<and> (\<forall>c < spp. s ! c = sums A spp (if c < i then ps @ [?px] else ps) ! c)"])
    fix i s assume "i < spp"
      and "length s = spp \<and> (\<forall>c < spp. s ! c = sums A spp (if c < i then ps @ [?px] else ps) ! c)"
    then show "\<exists>s'. bindR (elem line (p * spp + i)) (\<lambda>v. bindR (elem s i) (\<lambda>q. put_at i (av_add A q v) s)) = Inr s'
        \<and> length s' = spp \<and> (\<forall>c < spp. s' ! c = sums A spp (if c < Suc i then ps @ [?px] else ps) ! c)"
      by (auto simp: e elem_ok put_at_ok nth_list_update sums_def less_Suc_eq)
  qed (simp add: sums_def)
  then obtain s where s: "foldR (\<lambda>c pix. bindR (elem line (p * spp + c)) (\<lambda>v. bindR (elem pix c) (\<lambda>q. put_at c (av_add A q v) pix)))
      [0..<spp] (sums A spp ps) = Inr s" "length s = spp" "\<forall>c < spp. s ! c = sums A spp (ps @ [?px]) ! c"
    by auto
  then have "s = sums A spp (ps @ [?px])" by (intro nth_equalityI) (simp_all add: sums_def)
  with s(1) False assms(1) show ?thesis by (simp add: add_pixel_def elem_ok data_of_def)
qed (use assms in \<open>simp add: add_pixel_def elem_ok data_of_def\<close>)

lemma merge_pixel_ok:
  fixes l1 l2 :: "'t list"
  assumes "averages A avg" "x < w" "length m1 = 2 * w" "length m2 = 2 * w" "length l1 = spp * (2 * w)" "length l2 = spp * (2 * w)"
    "length outI = spp * w" "length outM = w" "ps = square spp l1 m1 l2 m2 x"
  shows "merge_pixel A spp l1 m1 l2 m2 (2 * x) (outI, outM) =
    Inr (if 1 < length ps then (patched (spp * x) (average_pixel spp avg ps) outI, outM[x := 255]) else (outI, outM))"
proof -
  have add: "add_pixel A spp m l p (p * spp) (sums A spp qs, length qs)
      = Inr (sums A spp (qs @ data_of spp m l p), length (qs @ data_of spp m l p))"
    if "p < 2 * w" "length m = 2 * w" "length l = spp * (2 * w)" for p m l qs
    using add_pixel_ok [of p m l spp A qs] that by simp
  have z: "(replicate spp (av_zero A), 0) = (sums A spp [], length ([] :: 't list list))"
    by (simp add: sums_def map_replicate_const)
  have odd: "2 * x * spp + spp = (2 * x + 1) * spp" by simp
  have p: "2 * x < 2 * w" "2 * x + 1 < 2 * w" using assms(2) by simp_all
  have four: "bindR (add_pixel A spp m1 l1 (2 * x) (2 * x * spp) (replicate spp (av_zero A), 0)) (\<lambda>s.
      bindR (add_pixel A spp m1 l1 (2 * x + 1) (2 * x * spp + spp) s) (\<lambda>s.
      bindR (add_pixel A spp m2 l2 (2 * x) (2 * x * spp) s) (\<lambda>s.
      bindR (add_pixel A spp m2 l2 (2 * x + 1) (2 * x * spp + spp) s) k))) = k (sums A spp ps, length ps)" for k :: "_ \<Rightarrow> fault + 'z"
    unfolding z odd add [OF p(1) assms(3,5)] bindR.simps add [OF p(2) assms(3,5)] add [OF p(1) assms(4,6)] add [OF p(2) assms(4,6)]
    by (simp add: assms(9) square_def)
  have len: "length ps \<le> 4" by (simp add: assms(9) square_def data_of_def)
  have out: "foldR (\<lambda>c outI. bindR (bindR (elem (sums A spp ps) c) (\<lambda>p. av_out A p (length ps))) (\<lambda>v. put_at (2 * x * spp div 2 + c) v outI))
      [0..<spp] outI = Inr (patched (spp * x) (average_pixel spp avg ps) outI)" if "1 < length ps"
  proof -
    have e: "bindR (elem (sums A spp ps) c) (\<lambda>p. av_out A p (length ps)) = Inr (avg (map (\<lambda>p. p ! c) ps))" if "c < spp" for c
    proof -
      have "1 < length (map (\<lambda>p. p ! c) ps) \<and> length (map (\<lambda>p. p ! c) ps) \<le> 4" using \<open>1 < length ps\<close> len by simp
      from assms(1) [unfolded averages_def, rule_format, OF this] that show ?thesis by (simp add: sums_def elem_ok)
    qed
    have d: "2 * x * spp div 2 = spp * x" by (simp add: mult.assoc mult.commute)
    have room: "spp * x + spp \<le> length outI" using pixel_room [OF assms(2), of spp] assms(7) by simp
    show ?thesis unfolding d average_pixel_def by (rule foldR_puts [OF e room])
  qed
  show ?thesis
    unfolding merge_pixel_def Let_def four
    using out assms(2,8) by (simp add: put_at_ok)
qed

subsubsection \<open>A line of pixels\<close>

lemma merge_pixels_ok:
  fixes l1 l2 :: "'t list" and a b :: nat
  assumes "averages A avg" "b \<le> w" "length m1 = 2 * w" "length m2 = 2 * w" "length l1 = spp * (2 * w)" "length l2 = spp * (2 * w)"
    "length outI = spp * w" "length outM = w"
  defines "new x \<equiv> a \<le> x \<and> x < b \<and> 1 < length (square spp l1 m1 l2 m2 x)"
  shows "\<exists>outI' outM'. foldR (merge_pixel A spp l1 m1 l2 m2) (stride (2 * a) (2 * b) 2) (outI, outM) = Inr (outI', outM')
    \<and> length outI' = spp * w \<and> length outM' = w
    \<and> (\<forall>x < w. pixel spp x outI' = (if new x then average_pixel spp avg (square spp l1 m1 l2 m2 x) else pixel spp x outI)
         \<and> outM' ! x = (if new x then 255 else outM ! x))"
proof -
  let ?I = "\<lambda>i s. length (fst s) = spp * w \<and> length (snd s) = w
    \<and> (\<forall>x < w. pixel spp x (fst s) = (if new x \<and> x < a + i then average_pixel spp avg (square spp l1 m1 l2 m2 x) else pixel spp x outI)
         \<and> snd s ! x = (if new x \<and> x < a + i then 255 else outM ! x))"
  have st: "stride (2 * a) (2 * b) 2 = map ((*) 2) [a..<b]" by (rule stride_multiples) simp
  have "\<exists>s'. foldR (merge_pixel A spp l1 m1 l2 m2) (map ((*) 2) [a..<b]) (outI, outM) = Inr s' \<and> ?I (length (map ((*) 2) [a..<b])) s'"
  proof (rule foldR_inv [where I = ?I])
    fix i s assume "i < length (map ((*) (2 :: nat)) [a..<b])" and s: "?I i s"
    then have i: "a + i < b" and x: "a + i < w" using assms(2) by simp_all
    let ?ps = "square spp l1 m1 l2 m2 (a + i)"
    have len: "length (average_pixel spp avg ?ps) = spp" by (simp add: average_pixel_def)
    have room: "spp * (a + i) + length (average_pixel spp avg ?ps) \<le> length (fst s)"
      using pixel_room [OF x, of spp] s len by simp
    have st: "merge_pixel A spp l1 m1 l2 m2 (map ((*) 2) [a..<b] ! i) s =
        Inr (if 1 < length ?ps then (patched (spp * (a + i)) (average_pixel spp avg ?ps) (fst s), (snd s)[a + i := 255]) else s)"
      using merge_pixel_ok [OF assms(1) x assms(3-6) _ _ refl, of "fst s" "snd s"] s i by simp
    have n: "new (a + i) \<longleftrightarrow> 1 < length ?ps" using i by (simp add: new_def)
    show "\<exists>s'. merge_pixel A spp l1 m1 l2 m2 (map ((*) 2) [a..<b] ! i) s = Inr s' \<and> ?I (Suc i) s'"
    proof (cases "1 < length ?ps")
      case True
      have "pixel spp y (patched (spp * (a + i)) (average_pixel spp avg ?ps) (fst s))
          = (if y = a + i then average_pixel spp avg ?ps else pixel spp y (fst s))" if "y < w" for y
        using pixel_patched [OF x that _ len] s by simp
      then show ?thesis using st True s n room x
        by (auto simp: nth_list_update less_Suc_eq)
    next
      case False
      then show ?thesis using st s n by (auto simp: less_Suc_eq)
    qed
  qed (use assms(7,8) in \<open>auto simp: new_def\<close>)
  then obtain s' where s': "foldR (merge_pixel A spp l1 m1 l2 m2) (map ((*) 2) [a..<b]) (outI, outM) = Inr s'" "?I (b - a) s'"
    by auto
  have "new x \<and> x < a + (b - a) \<longleftrightarrow> new x" for x by (auto simp: new_def)
  then show ?thesis using s' unfolding st by (intro exI [of _ "fst s'"] exI [of _ "snd s'"]) simp
qed

subsection \<open>Sources and background\<close>

definition readable :: "merge_size \<Rightarrow> 't MergeInput \<Rightarrow> bool" where
  "readable g im \<longleftrightarrow> (\<forall>n < mg_height g.
     (\<exists>l. mi_line im n = Some l \<and> length l = mg_samplesperpixel g * mg_width g)
     \<and> (case mi_mask im of None \<Rightarrow> True | Some mk \<Rightarrow> \<exists>l. mk n = Some l \<and> length l = mg_width g))"

definition source_line :: "'t MergeInput \<Rightarrow> nat \<Rightarrow> 't list" where
  "source_line im n = the (mi_line im n)"

text \<open>An image without a mask holds data everywhere.\<close>

definition mask_line :: "merge_size \<Rightarrow> 't MergeInput \<Rightarrow> nat \<Rightarrow> u8 list" where
  "mask_line g im n = (case mi_mask im of None \<Rightarrow> replicate (mg_width g) 255 | Some mk \<Rightarrow> the (mk n))"

lemma readable_lines:
  assumes "readable g im" "n < mg_height g"
  shows "some_line (mi_line im n) = Inr (source_line im n)" "length (source_line im n) = mg_samplesperpixel g * mg_width g"
    "mi_mask im = Some mk \<Longrightarrow> some_line (mk n) = Inr (mask_line g im n)" "length (mask_line g im n) = mg_width g"
proof -
  obtain l where l: "mi_line im n = Some l" "length l = mg_samplesperpixel g * mg_width g"
    and m: "case mi_mask im of None \<Rightarrow> True | Some mk \<Rightarrow> \<exists>l. mk n = Some l \<and> length l = mg_width g"
    using assms unfolding readable_def by blast
  show "some_line (mi_line im n) = Inr (source_line im n)" "length (source_line im n) = mg_samplesperpixel g * mg_width g"
    using l by (simp_all add: some_line_def source_line_def)
  show "mi_mask im = Some mk \<Longrightarrow> some_line (mk n) = Inr (mask_line g im n)" "length (mask_line g im n) = mg_width g"
    using m by (auto simp: some_line_def mask_line_def split: option.splits)
qed

lemma checked_Inr [simp]: "checked (Inr a) = Inr a"
  by (simp add: checked_def)

text \<open>The pixel and the mask of the background.\<close>

definition bg_pixel :: "merge_size \<Rightarrow> 't MergeInput option \<Rightarrow> 't list \<Rightarrow> nat \<Rightarrow> nat \<Rightarrow> 't list" where
  "bg_pixel g BGI nodata line x =
     (case BGI of
        Some bg \<Rightarrow> if mask_line g bg line ! x \<noteq> 0 then pixel (mg_samplesperpixel g) x (source_line bg line)
                   else take (mg_samplesperpixel g) nodata
      | None \<Rightarrow> take (mg_samplesperpixel g) nodata)"

definition bg_mask :: "merge_size \<Rightarrow> 't MergeInput option \<Rightarrow> nat \<Rightarrow> nat \<Rightarrow> u8" where
  "bg_mask g BGI line x = (case BGI of Some bg \<Rightarrow> mask_line g bg line ! x | None \<Rightarrow> 0)"

lemma fillBgLine_ok:
  assumes "readable g bg" "line < mg_height g" "mg_samplesperpixel g \<le> length nodata"
    "length (fst s) = mg_samplesperpixel g * mg_width g" "length (snd s) = mg_width g"
  shows "\<exists>img. fillBgLine g bg s line nodata = Inr (img, mask_line g bg line)
    \<and> length img = mg_samplesperpixel g * mg_width g
    \<and> (\<forall>x < mg_width g. pixel (mg_samplesperpixel g) x img = bg_pixel g (Some bg) nodata line x)"
proof -
  note r = readable_lines [OF assms(1,2)]
  have i: "write_at 0 (source_line bg line) (fst s) = Inr (source_line bg line)" using r(2) assms(4) by (simp add: write_all)
  show ?thesis
  proof (cases "mi_mask bg")
    case None
    then have "mask_line g bg line = replicate (mg_width g) 255" by (simp add: mask_line_def)
    then show ?thesis using None r(1,2) i assms(5) by (simp add: fillBgLine_def write_all bg_pixel_def)
  next
    case (Some mk)
    let ?m = "mask_line g bg line" and ?k = "mg_samplesperpixel g"
    have m: "write_at 0 ?m (snd s) = Inr ?m" using r(4) assms(5) by (simp add: write_all)
    have "\<exists>img. foldR (\<lambda>w img. bindR (elem ?m w) (\<lambda>b. if b = 0 then bindR (read_at 0 ?k nodata) (\<lambda>v. write_at (w * ?k) v img) else Inr img))
        [0..<mg_width g] (source_line bg line) = Inr img \<and> length img = ?k * mg_width g
      \<and> (\<forall>x < mg_width g. pixel ?k x img = (if ?m ! x = 0 then take ?k nodata else pixel ?k x (source_line bg line)))"
      by (rule pixel_loop [OF r(2), where v = "take ?k nodata" and c = "\<lambda>x. ?m ! x = 0"])
        (use r(4) assms(3) in \<open>auto simp: elem_ok read_at_ok mult.commute\<close>)
    then show ?thesis using Some r(1) r(3) [OF Some] i m
      by (auto simp: fillBgLine_def bg_pixel_def)
  qed
qed

text \<open>The buffers of a pair of lines, of two images side by side.\<close>

definition wide :: "merge_size \<Rightarrow> ('t list \<times> 't list) \<times> (u8 list \<times> u8 list) \<Rightarrow> bool" where
  "wide g b \<longleftrightarrow> length (fst (fst b)) = mg_samplesperpixel g * (2 * mg_width g)
     \<and> length (snd (fst b)) = mg_samplesperpixel g * (2 * mg_width g)
     \<and> length (fst (snd b)) = 2 * mg_width g \<and> length (snd (snd b)) = 2 * mg_width g"

text \<open>
  The buffers hold place \<open>p - off\<close> of a source at place \<open>p\<close>; two states of the buffers agree on a place.
\<close>

definition holds ::
    "merge_size \<Rightarrow> nat \<Rightarrow> nat \<Rightarrow> 't MergeInput \<Rightarrow> ('t list \<times> 't list) \<times> (u8 list \<times> u8 list) \<Rightarrow> nat \<Rightarrow> bool" where
  "holds g h off im b p \<longleftrightarrow>
     pixel (mg_samplesperpixel g) p (fst (fst b)) = pixel (mg_samplesperpixel g) (p - off) (source_line im (2 * h))
     \<and> pixel (mg_samplesperpixel g) p (snd (fst b)) = pixel (mg_samplesperpixel g) (p - off) (source_line im (2 * h + 1))
     \<and> fst (snd b) ! p = mask_line g im (2 * h) ! (p - off) \<and> snd (snd b) ! p = mask_line g im (2 * h + 1) ! (p - off)"

definition same_at ::
    "merge_size \<Rightarrow> ('t list \<times> 't list) \<times> (u8 list \<times> u8 list) \<Rightarrow> ('t list \<times> 't list) \<times> (u8 list \<times> u8 list) \<Rightarrow> nat \<Rightarrow> bool" where
  "same_at g b' b p \<longleftrightarrow>
     pixel (mg_samplesperpixel g) p (fst (fst b')) = pixel (mg_samplesperpixel g) p (fst (fst b))
     \<and> pixel (mg_samplesperpixel g) p (snd (fst b')) = pixel (mg_samplesperpixel g) p (snd (fst b))
     \<and> fst (snd b') ! p = fst (snd b) ! p \<and> snd (snd b') ! p = snd (snd b) ! p"

lemma same_at_refl [simp]: "same_at g b b p"
  by (simp add: same_at_def)

lemma holds_same: "holds g h off im b p \<Longrightarrow> same_at g b' b p \<Longrightarrow> holds g h off im b' p"
  by (simp add: holds_def same_at_def)

lemma load_source_ok:
  assumes "readable g im" "2 * h + 1 < mg_height g" "wide g b" "off + mg_width g \<le> 2 * mg_width g"
    "\<And>p. off \<le> p \<Longrightarrow> p < off + mg_width g \<Longrightarrow> fst (snd b) ! p = 255 \<and> snd (snd b) ! p = 255"
  shows "\<exists>b'. load_source g (Some im) off h b = Inr b' \<and> wide g b'
    \<and> (\<forall>p < 2 * mg_width g. if off \<le> p \<and> p < off + mg_width g then holds g h off im b' p else same_at g b' b p)"
proof -
  obtain l1 l2 m1 m2 where b: "b = ((l1, l2), (m1, m2))" by (metis surj_pair)
  let ?k = "mg_samplesperpixel g" and ?w = "mg_width g"
  have n: "2 * h < mg_height g" using assms(2) by simp
  note r1 = readable_lines [OF assms(1) n] and r2 = readable_lines [OF assms(1,2)]
  have l: "length l1 = ?k * (2 * ?w)" "length l2 = ?k * (2 * ?w)" "length m1 = 2 * ?w" "length m2 = 2 * ?w"
    using assms(3) by (simp_all add: wide_def b)
  have "?k * (off + ?w) \<le> ?k * (2 * ?w)" using assms(4) by (rule mult_le_mono2)
  then have room: "?k * off + ?k * ?w \<le> ?k * (2 * ?w)" by (simp add: add_mult_distrib2)
  have w: "write_at (off * ?k) (source_line im (2 * h)) l1 = Inr (patched (?k * off) (source_line im (2 * h)) l1)"
    "write_at (off * ?k) (source_line im (2 * h + 1)) l2 = Inr (patched (?k * off) (source_line im (2 * h + 1)) l2)"
    using room r1(2) r2(2) l by (simp_all add: write_at_ok mult.commute)
  define m1' m2' where "m1' = (if mi_mask im = None then m1 else patched off (mask_line g im (2 * h)) m1)"
    and "m2' = (if mi_mask im = None then m2 else patched off (mask_line g im (2 * h + 1)) m2)"
  have load: "load_source g (Some im) off h b =
      Inr ((patched (?k * off) (source_line im (2 * h)) l1, patched (?k * off) (source_line im (2 * h + 1)) l2), (m1', m2'))"
  proof (cases "mi_mask im")
    case (Some mk)
    have "write_at off (mask_line g im (2 * h)) m1 = Inr (patched off (mask_line g im (2 * h)) m1)"
      "write_at off (mask_line g im (2 * h + 1)) m2 = Inr (patched off (mask_line g im (2 * h + 1)) m2)"
      using r1(4) r2(4) l assms(4) by (simp_all add: write_at_ok)
    then show ?thesis
      unfolding load_source_def option.case r1(1) r2(1) bindR.simps b prod.sel w checked_Inr Some r1(3) [OF Some] r2(3) [OF Some]
      by (simp add: m1'_def m2'_def Some)
  next
    case None
    show ?thesis
      unfolding load_source_def option.case r1(1) r2(1) bindR.simps b prod.sel w checked_Inr None
      by (simp add: m1'_def m2'_def None)
  qed
  have masks: "length m1' = 2 * ?w" "length m2' = 2 * ?w"
    using l r1(4) r2(4) assms(4) by (simp_all add: m1'_def m2'_def)
  have mp: "m1' ! p = (if off \<le> p \<and> p < off + ?w then mask_line g im (2 * h) ! (p - off) else m1 ! p)"
    "m2' ! p = (if off \<le> p \<and> p < off + ?w then mask_line g im (2 * h + 1) ! (p - off) else m2 ! p)" if "p < 2 * ?w" for p
    using that l r1(4) r2(4) assms(4) assms(5) [of p]
    by (auto simp: m1'_def m2'_def nth_patched b mask_line_def split: option.splits)
  show ?thesis
    unfolding load
    using masks mp l room r1(2) r2(2) pixel_patched_line [OF r1(2) assms(4) l(1)] pixel_patched_line [OF r2(2) assms(4) l(2)]
    by (auto simp: wide_def holds_def same_at_def b)
qed

subsection \<open>A line of the result\<close>

text \<open>
  The pixels of the sources behind pixel \<open>x\<close> of line \<open>line\<close>, and what is made of them. Each source
  covers a quarter of the result.
\<close>

definition sources ::
    "merge_size \<Rightarrow> (nat \<Rightarrow> nat \<Rightarrow> 't MergeInput option) \<Rightarrow> nat \<Rightarrow> nat \<Rightarrow> nat \<Rightarrow> 't list list" where
  "sources g INPUTI y h x =
     (let s = (if x < mg_width g div 2 then 0 else 1); u = x - s * (mg_width g div 2)
      in case INPUTI y s of
        None \<Rightarrow> []
      | Some im \<Rightarrow> square (mg_samplesperpixel g) (source_line im (2 * h)) (mask_line g im (2 * h))
                     (source_line im (2 * h + 1)) (mask_line g im (2 * h + 1)) u)"

definition good_line ::
    "merge_size \<Rightarrow> ('t list \<Rightarrow> 't) \<Rightarrow> 't MergeInput option \<Rightarrow> (nat \<Rightarrow> nat \<Rightarrow> 't MergeInput option) \<Rightarrow> 't list
     \<Rightarrow> nat \<Rightarrow> nat \<Rightarrow> nat \<Rightarrow> 't list \<Rightarrow> bool" where
  "good_line g avg BGI INPUTI nodata y h line img \<longleftrightarrow> length img = mg_samplesperpixel g * mg_width g
     \<and> (\<forall>x < mg_width g. pixel (mg_samplesperpixel g) x img =
          (if 1 < length (sources g INPUTI y h x) then average_pixel (mg_samplesperpixel g) avg (sources g INPUTI y h x)
           else bg_pixel g BGI nodata line x))"

definition good_mask ::
    "merge_size \<Rightarrow> 't MergeInput option \<Rightarrow> (nat \<Rightarrow> nat \<Rightarrow> 't MergeInput option) \<Rightarrow> nat \<Rightarrow> nat \<Rightarrow> nat \<Rightarrow> u8 list \<Rightarrow> bool" where
  "good_mask g BGI INPUTI y h line m \<longleftrightarrow> length m = mg_width g
     \<and> (\<forall>x < mg_width g. m ! x = (if 1 < length (sources g INPUTI y h x) then 255 else bg_mask g BGI line x))"

text \<open>What the tool checks of its images before it merges them.\<close>

definition mergeable :: "merge_size \<Rightarrow> 't MergeInput option \<Rightarrow> (nat \<Rightarrow> nat \<Rightarrow> 't MergeInput option) \<Rightarrow> 't list \<Rightarrow> bool" where
  "mergeable g BGI INPUTI nodata \<longleftrightarrow> 0 < mg_width g \<and> even (mg_width g) \<and> even (mg_height g)
     \<and> mg_samplesperpixel g \<le> length nodata
     \<and> (\<forall>bg. BGI = Some bg \<longrightarrow> readable g bg) \<and> (\<forall>y x im. INPUTI y x = Some im \<longrightarrow> readable g im)"

text \<open>The sizes of the buffers, and the background without a background image.\<close>

definition line_state :: "merge_size \<Rightarrow> 't MergeInput option \<Rightarrow> 't list \<Rightarrow> 't merge_state \<Rightarrow> bool" where
  "line_state g BGI nodata s \<longleftrightarrow>
     length (ms_bgI s) = mg_samplesperpixel g * mg_width g \<and> length (ms_bgM s) = mg_width g
     \<and> length (ms_1I s) = mg_samplesperpixel g * (2 * mg_width g) \<and> length (ms_2I s) = mg_samplesperpixel g * (2 * mg_width g)
     \<and> (BGI = None \<longrightarrow> (\<forall>x < mg_width g. pixel (mg_samplesperpixel g) x (ms_bgI s) = take (mg_samplesperpixel g) nodata \<and> ms_bgM s ! x = 0))"

lemma background_ok:
  assumes "mergeable g BGI INPUTI nodata" "line < mg_height g" "line_state g BGI nodata s"
  shows "\<exists>bI bM. (case BGI of None \<Rightarrow> Inr (ms_bgI s, ms_bgM s) | Some bg \<Rightarrow> fillBgLine g bg (ms_bgI s, ms_bgM s) line nodata) = Inr (bI, bM)
    \<and> length bI = mg_samplesperpixel g * mg_width g \<and> length bM = mg_width g
    \<and> (\<forall>x < mg_width g. pixel (mg_samplesperpixel g) x bI = bg_pixel g BGI nodata line x \<and> bM ! x = bg_mask g BGI line x)
    \<and> line_state g BGI nodata (s\<lparr>ms_bgI := bI, ms_bgM := bM\<rparr>)"
proof (cases BGI)
  case None
  then show ?thesis using assms(3) by (auto simp: line_state_def bg_pixel_def bg_mask_def)
next
  case (Some bg)
  then have r: "readable g bg" "mg_samplesperpixel g \<le> length nodata" using assms(1) by (simp_all add: mergeable_def)
  obtain img where "fillBgLine g bg (ms_bgI s, ms_bgM s) line nodata = Inr (img, mask_line g bg line)"
    "length img = mg_samplesperpixel g * mg_width g"
    "\<forall>x < mg_width g. pixel (mg_samplesperpixel g) x img = bg_pixel g (Some bg) nodata line x"
    using fillBgLine_ok [OF r(1) assms(2) r(2), of "(ms_bgI s, ms_bgM s)"] assms(3) by (auto simp: line_state_def)
  then show ?thesis using Some assms(3) readable_lines(4) [OF r(1) assms(2)]
    by (simp add: line_state_def bg_mask_def)
qed

text \<open>One of the two sources, or none: what is not read stays.\<close>

lemma load_input_ok:
  assumes "mergeable g BGI INPUTI nodata" "2 * h + 1 < mg_height g" "wide g b" "off + mg_width g \<le> 2 * mg_width g"
    "\<And>p. off \<le> p \<Longrightarrow> p < off + mg_width g \<Longrightarrow> fst (snd b) ! p = 255 \<and> snd (snd b) ! p = 255"
  shows "\<exists>b'. load_source g (INPUTI y c) off h b = Inr b' \<and> wide g b'
    \<and> (\<forall>p < 2 * mg_width g. \<not> (off \<le> p \<and> p < off + mg_width g) \<longrightarrow> same_at g b' b p)
    \<and> (\<forall>im p. INPUTI y c = Some im \<longrightarrow> off \<le> p \<and> p < off + mg_width g \<longrightarrow> holds g h off im b' p)"
proof (cases "INPUTI y c")
  case None
  then show ?thesis using assms(3) by (simp add: load_source_def)
next
  case (Some im)
  then have "readable g im" using assms(1) by (simp add: mergeable_def)
  from load_source_ok [OF this assms(2-5)] obtain b' where
    "load_source g (Some im) off h b = Inr b'" "wide g b'"
    "\<forall>p < 2 * mg_width g. if off \<le> p \<and> p < off + mg_width g then holds g h off im b' p else same_at g b' b p"
    by blast
  then show ?thesis using Some assms(4) by (intro exI [of _ b']) (auto split: if_splits)
qed

text \<open>Both sources of a row in the buffers: pixel \<open>2 x\<close> of the pair of lines is where \<open>sources\<close> looks.\<close>

lemma square_holds:
  assumes "holds g h off im b (2 * x)" "holds g h off im b (2 * x + 1)" "off \<le> 2 * x" "even off"
  shows "square (mg_samplesperpixel g) (fst (fst b)) (fst (snd b)) (snd (fst b)) (snd (snd b)) x =
    square (mg_samplesperpixel g) (source_line im (2 * h)) (mask_line g im (2 * h))
      (source_line im (2 * h + 1)) (mask_line g im (2 * h + 1)) (x - off div 2)"
proof -
  have "2 * x - off = 2 * (x - off div 2)" "2 * x + 1 - off = 2 * (x - off div 2) + 1"
    using assms(3,4) by auto
  then show ?thesis using assms(1,2) by (simp add: square_def data_of_def holds_def)
qed

lemma load_row_ok:
  assumes "mergeable g BGI INPUTI nodata" "2 * h + 1 < mg_height g"
    "length l1 = mg_samplesperpixel g * (2 * mg_width g)" "length l2 = mg_samplesperpixel g * (2 * mg_width g)"
  shows "\<exists>b1 b2. load_source g (INPUTI y 0) 0 h ((l1, l2), (replicate (2 * mg_width g) 255, replicate (2 * mg_width g) 255)) = Inr b1
    \<and> load_source g (INPUTI y 1) (mg_width g) h b1 = Inr b2 \<and> wide g b2
    \<and> (\<forall>x < mg_width g. INPUTI y (if x < mg_width g div 2 then 0 else 1) \<noteq> None \<longrightarrow>
         square (mg_samplesperpixel g) (fst (fst b2)) (fst (snd b2)) (snd (fst b2)) (snd (snd b2)) x = sources g INPUTI y h x)"
proof -
  let ?w = "mg_width g" and ?b0 = "((l1, l2), (replicate (2 * mg_width g) (255 :: u8), replicate (2 * mg_width g) (255 :: u8)))"
  have ev: "even ?w" using assms(1) by (simp add: mergeable_def)
  have "wide g ?b0" using assms(3,4) by (simp add: wide_def)
  from load_input_ok [where off = 0, OF assms(1,2) this, of y 0] obtain b1 where b1: "load_source g (INPUTI y 0) 0 h ?b0 = Inr b1" "wide g b1"
    "\<forall>p < 2 * ?w. \<not> p < ?w \<longrightarrow> same_at g b1 ?b0 p"
    "\<forall>im p. INPUTI y 0 = Some im \<longrightarrow> p < ?w \<longrightarrow> holds g h 0 im b1 p"
    by auto
  have "fst (snd b1) ! p = 255 \<and> snd (snd b1) ! p = 255" if "?w \<le> p" "p < ?w + ?w" for p
    using that b1(3) by (simp add: same_at_def)
  from load_input_ok [where off = "mg_width g", OF assms(1,2) b1(2) _ this, of y 1] obtain b2 where b2: "load_source g (INPUTI y 1) ?w h b1 = Inr b2" "wide g b2"
    "\<forall>p < 2 * ?w. \<not> (?w \<le> p \<and> p < ?w + ?w) \<longrightarrow> same_at g b2 b1 p"
    "\<forall>im p. INPUTI y 1 = Some im \<longrightarrow> ?w \<le> p \<and> p < ?w + ?w \<longrightarrow> holds g h ?w im b2 p"
    by auto
  have "square (mg_samplesperpixel g) (fst (fst b2)) (fst (snd b2)) (snd (fst b2)) (snd (snd b2)) x = sources g INPUTI y h x"
    if x: "x < ?w" and i: "INPUTI y (if x < ?w div 2 then 0 else 1) \<noteq> None" for x
  proof (cases "x < ?w div 2")
    case True
    then obtain im where im: "INPUTI y 0 = Some im" using i by auto
    have p: "2 * x < ?w" "2 * x + 1 < ?w" using True by simp_all
    have "holds g h 0 im b2 (2 * x)" "holds g h 0 im b2 (2 * x + 1)"
      using p b2(3) b1(4) im by (auto intro: holds_same [where b = b1])
    from square_holds [OF this] show ?thesis using im True by (simp add: sources_def)
  next
    case False
    then obtain im where im: "INPUTI y 1 = Some im" using i by auto
    have p: "?w \<le> 2 * x" "2 * x + 1 < ?w + ?w" using False x ev by auto
    then have "holds g h ?w im b2 (2 * x)" "holds g h ?w im b2 (2 * x + 1)" using b2(4) im by auto
    from square_holds [OF this p(1) ev] show ?thesis using im False by (simp add: sources_def)
  qed
  then show ?thesis using b1(1) b2(1,2) by blast
qed

lemma write_lines_ok:
  assumes "ok line" "\<forall>f. okM = Some f \<longrightarrow> f line"
  shows "write_lines ok okM line img msk s =
    Inr (s\<lparr>ms_image := ms_image s @ [(line, img)], ms_mask := ms_mask s @ (if okM = None then [] else [(line, msk)])\<rparr>)"
  using assms by (cases okM) (simp_all add: write_lines_def)

lemma written_line:
  assumes "ok line" "\<forall>f. okM = Some f \<longrightarrow> f line" "line_state g BGI nodata t"
    "good_line g avg BGI INPUTI nodata y h line img" "good_mask g BGI INPUTI y h line m"
  shows "\<exists>s' img' m'. write_lines ok okM line img m t = Inr s' \<and> line_state g BGI nodata s'
    \<and> ms_image s' = ms_image t @ [(line, img')] \<and> ms_mask s' = ms_mask t @ (if okM = None then [] else [(line, m')])
    \<and> good_line g avg BGI INPUTI nodata y h line img' \<and> good_mask g BGI INPUTI y h line m'"
  unfolding write_lines_ok [where ok = ok and okM = okM, OF assms(1) assms(2)]
  using assms(3-5) by (intro exI [of _ img] exI [of _ m] exI [of _ "t\<lparr>ms_image := _, ms_mask := _\<rparr>"]) (simp add: line_state_def)

text \<open>What is left and right of the loop over the pixels, as pixels of the result.\<close>

definition first_pixel :: "merge_size \<Rightarrow> (nat \<Rightarrow> nat \<Rightarrow> 't MergeInput option) \<Rightarrow> nat \<Rightarrow> nat" where
  "first_pixel g INPUTI y = (if INPUTI y 0 \<noteq> None then 0 else mg_width g div 2)"

definition last_pixel :: "merge_size \<Rightarrow> (nat \<Rightarrow> nat \<Rightarrow> 't MergeInput option) \<Rightarrow> nat \<Rightarrow> nat" where
  "last_pixel g INPUTI y = (if INPUTI y 1 \<noteq> None then mg_width g else mg_width g div 2)"

lemma no_source:
  assumes "x < mg_width g" "\<not> (first_pixel g INPUTI y \<le> x \<and> x < last_pixel g INPUTI y)"
  shows "sources g INPUTI y h x = []"
  using assms by (auto simp: sources_def first_pixel_def last_pixel_def split: if_splits option.splits)

lemma some_source:
  assumes "x < mg_width g" "first_pixel g INPUTI y \<le> x" "x < last_pixel g INPUTI y"
  shows "INPUTI y (if x < mg_width g div 2 then 0 else 1) \<noteq> None"
  using assms by (auto simp: first_pixel_def last_pixel_def split: if_splits)

lemma merge_line_ok:
  assumes "averages A avg" "mergeable g BGI INPUTI nodata" "h < mg_height g div 2" "line < mg_height g"
    "line_state g BGI nodata s" "line = y * mg_height g div 2 + h" "ok line" "\<forall>f. okM = Some f \<longrightarrow> f line"
  shows "\<exists>s' img m. merge_line g A BGI INPUTI ok okM nodata y h s = Inr s' \<and> line_state g BGI nodata s'
    \<and> ms_image s' = ms_image s @ [(line, img)] \<and> ms_mask s' = ms_mask s @ (if okM = None then [] else [(line, m)])
    \<and> good_line g avg BGI INPUTI nodata y h line img \<and> good_mask g BGI INPUTI y h line m"
proof -
  let ?w = "mg_width g" and ?k = "mg_samplesperpixel g" and ?a = "first_pixel g INPUTI y" and ?b = "last_pixel g INPUTI y"
  have ev: "even ?w" using assms(2) by (simp add: mergeable_def)
  have n: "2 * h + 1 < mg_height g" using assms(3) by simp
  obtain bI bM where bg:
    "(case BGI of None \<Rightarrow> Inr (ms_bgI s, ms_bgM s) | Some bg \<Rightarrow> fillBgLine g bg (ms_bgI s, ms_bgM s) line nodata) = Inr (bI, bM)"
    "length bI = ?k * ?w" "length bM = ?w"
    "\<forall>x < ?w. pixel ?k x bI = bg_pixel g BGI nodata line x \<and> bM ! x = bg_mask g BGI line x"
    "line_state g BGI nodata (s\<lparr>ms_bgI := bI, ms_bgM := bM\<rparr>)"
    using background_ok [OF assms(2,4,5)] by blast
  have ends: "(if INPUTI y 0 \<noteq> None then 0 else ?w) = 2 * ?a" "(if INPUTI y 1 \<noteq> None then 2 * ?w else ?w) = 2 * ?b"
    using ev by (simp_all add: first_pixel_def last_pixel_def)
  note wr = written_line [where ok = ok and okM = okM, OF assms(7,8)]
  show ?thesis
  proof (cases "?a = ?b")
    case True
    then have "sources g INPUTI y h x = []" if "x < ?w" for x using no_source [OF that, of INPUTI y h] by simp
    then have "good_line g avg BGI INPUTI nodata y h line bI" "good_mask g BGI INPUTI y h line bM"
      using bg(2-4) by (simp_all add: good_line_def good_mask_def)
    from wr [OF bg(5) this] show ?thesis using True
      unfolding merge_line_def Let_def ends assms(6) [symmetric] bg(1) by simp
  next
    case False
    have l: "length (ms_1I s) = ?k * (2 * ?w)" "length (ms_2I s) = ?k * (2 * ?w)"
      using assms(5) by (simp_all add: line_state_def)
    obtain b1 b2 where load: "load_source g (INPUTI y 0) 0 h ((ms_1I s, ms_2I s), (replicate (2 * ?w) 255, replicate (2 * ?w) 255)) = Inr b1"
      "load_source g (INPUTI y 1) ?w h b1 = Inr b2" "wide g b2"
      "\<forall>x < ?w. INPUTI y (if x < ?w div 2 then 0 else 1) \<noteq> None \<longrightarrow>
         square ?k (fst (fst b2)) (fst (snd b2)) (snd (fst b2)) (snd (snd b2)) x = sources g INPUTI y h x"
      using load_row_ok [OF assms(2) n l] by blast
    have b: "?b \<le> ?w" by (simp add: last_pixel_def)
    have wd: "length (fst (snd b2)) = 2 * ?w" "length (snd (snd b2)) = 2 * ?w"
      "length (fst (fst b2)) = ?k * (2 * ?w)" "length (snd (fst b2)) = ?k * (2 * ?w)"
      using load(3) by (simp_all add: wide_def)
    have new: "(?a \<le> x \<and> x < ?b \<and> 1 < length (square ?k (fst (fst b2)) (fst (snd b2)) (snd (fst b2)) (snd (snd b2)) x))
        = (1 < length (sources g INPUTI y h x))"
      and sq: "1 < length (sources g INPUTI y h x) \<longrightarrow>
        square ?k (fst (fst b2)) (fst (snd b2)) (snd (fst b2)) (snd (snd b2)) x = sources g INPUTI y h x" if "x < ?w" for x
      using no_source [OF that, of INPUTI y h] some_source [OF that, of INPUTI y] load(4) that by (fastforce, fastforce)
    obtain oI oM where out: "foldR (merge_pixel A ?k (fst (fst b2)) (fst (snd b2)) (snd (fst b2)) (snd (snd b2)))
        (stride (2 * ?a) (2 * ?b) 2) (bI, bM) = Inr (oI, oM)" "length oI = ?k * ?w" "length oM = ?w"
      and px: "good_line g avg BGI INPUTI nodata y h line oI" "good_mask g BGI INPUTI y h line oM"
      using merge_pixels_ok [OF assms(1) b wd bg(2,3), of ?a] bg(4) new sq
      by (auto simp: good_line_def good_mask_def)
    have "line_state g BGI nodata (s\<lparr>ms_bgI := bI, ms_bgM := bM, ms_1I := fst (fst b2), ms_2I := snd (fst b2)\<rparr>)"
      using bg(5) wd by (simp add: line_state_def)
    from wr [OF this px] show ?thesis using False load(1,2) out(1)
      unfolding merge_line_def Let_def ends assms(6) [symmetric] bg(1) by simp
  qed
qed

subsection \<open>The whole image\<close>

text \<open>The lines written are numbered from 0 on, and each of them is good.\<close>

definition numbered :: "(nat \<Rightarrow> 'a \<Rightarrow> bool) \<Rightarrow> nat \<Rightarrow> (nat \<times> 'a) list \<Rightarrow> bool" where
  "numbered P n ls \<longleftrightarrow> map fst ls = [0..<n] \<and> (\<forall>i < n. P i (snd (ls ! i)))"

lemma numbered_Nil [simp]: "numbered P 0 []"
  by (simp add: numbered_def)

lemma numbered_snoc:
  assumes "numbered P n ls" "P n x"
  shows "numbered P (Suc n) (ls @ [(n, x)])"
proof -
  have "length (map fst ls) = length [0..<n]" using assms(1) by (simp only: numbered_def)
  then show ?thesis using assms by (auto simp: numbered_def nth_append less_Suc_eq)
qed

text \<open>Line \<open>i\<close> comes from the first or the second pair of sources.\<close>

definition good_image ::
    "merge_size \<Rightarrow> ('t list \<Rightarrow> 't) \<Rightarrow> 't MergeInput option \<Rightarrow> (nat \<Rightarrow> nat \<Rightarrow> 't MergeInput option) \<Rightarrow> 't list
     \<Rightarrow> nat \<Rightarrow> (nat \<times> 't list) list \<Rightarrow> bool" where
  "good_image g avg BGI INPUTI nodata =
     numbered (\<lambda>i. good_line g avg BGI INPUTI nodata (i div (mg_height g div 2)) (i mod (mg_height g div 2)) i)"

definition good_masks ::
    "merge_size \<Rightarrow> 't MergeInput option \<Rightarrow> (nat \<Rightarrow> nat \<Rightarrow> 't MergeInput option) \<Rightarrow> nat \<Rightarrow> (nat \<times> u8 list) list \<Rightarrow> bool" where
  "good_masks g BGI INPUTI =
     numbered (\<lambda>i. good_mask g BGI INPUTI (i div (mg_height g div 2)) (i mod (mg_height g div 2)) i)"

definition merged_up_to ::
    "merge_size \<Rightarrow> ('t list \<Rightarrow> 't) \<Rightarrow> 't MergeInput option \<Rightarrow> (nat \<Rightarrow> nat \<Rightarrow> 't MergeInput option) \<Rightarrow> bool \<Rightarrow> 't list
     \<Rightarrow> nat \<Rightarrow> 't merge_state \<Rightarrow> bool" where
  "merged_up_to g avg BGI INPUTI masked nodata n s \<longleftrightarrow> line_state g BGI nodata s
     \<and> good_image g avg BGI INPUTI nodata n (ms_image s)
     \<and> (if masked then good_masks g BGI INPUTI n (ms_mask s) else ms_mask s = [])"

lemma merge_line_up_to:
  assumes "averages A avg" "mergeable g BGI INPUTI nodata" "y < 2" "h < mg_height g div 2"
    "\<forall>n < mg_height g. ok n" "\<forall>n < mg_height g. \<forall>f. okM = Some f \<longrightarrow> f n"
    "merged_up_to g avg BGI INPUTI (okM \<noteq> None) nodata (y * (mg_height g div 2) + h) s"
  shows "\<exists>s'. merge_line g A BGI INPUTI ok okM nodata y h s = Inr s'
    \<and> merged_up_to g avg BGI INPUTI (okM \<noteq> None) nodata (Suc (y * (mg_height g div 2) + h)) s'"
proof -
  let ?H = "mg_height g div 2"
  have H: "mg_height g = 2 * ?H" using assms(2) by (simp add: mergeable_def)
  have "y * ?H \<le> 1 * ?H" using assms(3) by (intro mult_le_mono1) simp
  then have n: "y * ?H + h < mg_height g" using assms(4) H by linarith
  have line: "y * ?H + h = y * mg_height g div 2 + h" using assms(2) by (simp add: mergeable_def div_mult_swap)
  have at: "(y * ?H + h) div ?H = y" "(y * ?H + h) mod ?H = h" using assms(4) by auto
  have s: "line_state g BGI nodata s" "good_image g avg BGI INPUTI nodata (y * ?H + h) (ms_image s)"
    "if okM \<noteq> None then good_masks g BGI INPUTI (y * ?H + h) (ms_mask s) else ms_mask s = []"
    using assms(7) by (simp_all add: merged_up_to_def)
  obtain s' img m where l: "merge_line g A BGI INPUTI ok okM nodata y h s = Inr s'" "line_state g BGI nodata s'"
    "ms_image s' = ms_image s @ [(y * ?H + h, img)]" "ms_mask s' = ms_mask s @ (if okM = None then [] else [(y * ?H + h, m)])"
    "good_line g avg BGI INPUTI nodata y h (y * ?H + h) img" "good_mask g BGI INPUTI y h (y * ?H + h) m"
    using merge_line_ok [OF assms(1,2,4) n s(1) line, of ok okM] assms(5,6) n by blast
  have "good_image g avg BGI INPUTI nodata (Suc (y * ?H + h)) (ms_image s')"
    unfolding l(3) good_image_def
    by (rule numbered_snoc) (use s(2) l(5) in \<open>simp_all only: at good_image_def\<close>)
  moreover have "if okM \<noteq> None then good_masks g BGI INPUTI (Suc (y * ?H + h)) (ms_mask s') else ms_mask s' = []"
  proof (cases "okM = None")
    case False
    then have "good_masks g BGI INPUTI (y * ?H + h) (ms_mask s)" using s(3) by simp
    then have "good_masks g BGI INPUTI (Suc (y * ?H + h)) (ms_mask s @ [(y * ?H + h, m)])"
      unfolding good_masks_def by (rule numbered_snoc) (use l(6) in \<open>simp only: at\<close>)
    then show ?thesis using False unfolding l(4) by auto
  qed (use s(3) l(4) in simp)
  ultimately show ?thesis using l(1,2) by (simp add: merged_up_to_def)
qed

lemma merge_ok:
  assumes "averages A avg" "mergeable g BGI INPUTI nodata" "\<forall>n < mg_height g. ok n"
    "\<forall>n < mg_height g. \<forall>f. okM = Some f \<longrightarrow> f n" "length memory = mg_samplesperpixel g * (2 * mg_width g)"
  shows "\<exists>s. merge g A BGI INPUTI ok okM nodata memory = Inr s
    \<and> merged_up_to g avg BGI INPUTI (okM \<noteq> None) nodata (mg_height g) s"
proof -
  let ?H = "mg_height g div 2" and ?k = "mg_samplesperpixel g" and ?w = "mg_width g"
  have H: "mg_height g = 2 * ?H" using assms(2) by (simp add: mergeable_def)
  have bg: "foldR (\<lambda>i l. bindR (elem nodata (i mod ?k)) (\<lambda>v. Inr (l @ [v]))) [0..<?w * ?k] []
      = Inr (map (\<lambda>i. nodata ! (i mod ?k)) [0..<?w * ?k])"
  proof -
    have "\<exists>l. foldR (\<lambda>i l. bindR (elem nodata (i mod ?k)) (\<lambda>v. Inr (l @ [v]))) [0..<?w * ?k] [] = Inr l
        \<and> l = map (\<lambda>i. nodata ! (i mod ?k)) [0..<?w * ?k]"
    proof (rule foldR_upt [where I = "\<lambda>n l. l = map (\<lambda>i. nodata ! (i mod ?k)) [0..<n]"])
      fix i l assume "i < ?w * ?k" "l = map (\<lambda>i. nodata ! (i mod ?k)) [0..<i]"
      then have "0 < ?k" by (cases ?k) simp_all
      then have "i mod ?k < ?k" by simp
      also have "\<dots> \<le> length nodata" using assms(2) by (simp add: mergeable_def)
      finally show "\<exists>l'. bindR (elem nodata (i mod ?k)) (\<lambda>v. Inr (l @ [v])) = Inr l' \<and> l' = map (\<lambda>i. nodata ! (i mod ?k)) [0..<Suc i]"
        using \<open>l = _\<close> by (simp add: elem_ok)
    qed simp
    then show ?thesis by blast
  qed
  let ?bg = "map (\<lambda>i. nodata ! (i mod ?k)) [0..<?w * ?k]"
  let ?s0 = "\<lparr>ms_bgI = ?bg, ms_bgM = replicate ?w 0, ms_1I = memory, ms_2I = memory, ms_image = [], ms_mask = []\<rparr>"
  have "pixel ?k x ?bg = take ?k nodata" if "x < ?w" for x
  proof (rule nth_equalityI)
    have k: "?k \<le> length nodata" using assms(2) by (simp add: mergeable_def)
    have l: "length ?bg = ?k * ?w" by simp
    show "length (pixel ?k x ?bg) = length (take ?k nodata)" using length_pixel [OF that l] k by simp
    fix i assume "i < length (pixel ?k x ?bg)"
    then have i: "i < ?k" using length_pixel [OF that l] by simp
    then have "?k * x + i < ?w * ?k" using pixel_room [OF that, of ?k] by (simp add: mult.commute)
    then show "pixel ?k x ?bg ! i = take ?k nodata ! i" using nth_pixel [OF that l i] i by simp
  qed
  then have s0: "merged_up_to g avg BGI INPUTI (okM \<noteq> None) nodata 0 ?s0"
    using assms(5) by (simp add: merged_up_to_def line_state_def good_image_def good_masks_def mult.commute)
  have "\<exists>s. foldR (\<lambda>y. foldR (merge_line g A BGI INPUTI ok okM nodata y) [0..<?H]) [0..<2] ?s0 = Inr s
      \<and> merged_up_to g avg BGI INPUTI (okM \<noteq> None) nodata (2 * ?H) s"
  proof (rule foldR_upt [where I = "\<lambda>y. merged_up_to g avg BGI INPUTI (okM \<noteq> None) nodata (y * ?H)"])
    fix y s assume y: "y < 2" and s: "merged_up_to g avg BGI INPUTI (okM \<noteq> None) nodata (y * ?H) s"
    have "\<exists>s'. foldR (merge_line g A BGI INPUTI ok okM nodata y) [0..<?H] s = Inr s'
        \<and> merged_up_to g avg BGI INPUTI (okM \<noteq> None) nodata (y * ?H + ?H) s'"
    proof (rule foldR_upt [where I = "\<lambda>h. merged_up_to g avg BGI INPUTI (okM \<noteq> None) nodata (y * ?H + h)"])
      fix h s assume "h < ?H" "merged_up_to g avg BGI INPUTI (okM \<noteq> None) nodata (y * ?H + h) s"
      from merge_line_up_to [OF assms(1,2) y this(1) assms(3,4) this(2)]
      show "\<exists>s'. merge_line g A BGI INPUTI ok okM nodata y h s = Inr s'
          \<and> merged_up_to g avg BGI INPUTI (okM \<noteq> None) nodata (y * ?H + Suc h) s'" by simp
    qed (use s in simp)
    then show "\<exists>s'. foldR (merge_line g A BGI INPUTI ok okM nodata y) [0..<?H] s = Inr s'
        \<and> merged_up_to g avg BGI INPUTI (okM \<noteq> None) nodata (Suc y * ?H) s'" by (simp add: add.commute)
  qed (use s0 in simp)
  moreover have "[0..<2] = [0, 1 :: nat]" by (simp add: upt_rec)
  ultimately show ?thesis using bg H by (simp add: merge_def)
qed

subsection \<open>Correctness\<close>

text \<open>
  Merging four images of bytes never reads or writes outside of a buffer and writes every line of
  the image once and in order, and of the mask when there is one: a pixel with data in two or more of
  the four places it is made from is their average, looked up in the gamma table, and has the mask
  255; all other pixels and their mask are those of the background, with nodata where it has no data.
\<close>

theorem merge_averages_squares:
  assumes "mergeable g BGI INPUTI nodata" "\<forall>n < mg_height g. ok n"
    "\<forall>n < mg_height g. \<forall>f. okM = Some f \<longrightarrow> f n" "length memory = mg_samplesperpixel g * (2 * mg_width g)"
  shows "\<exists>s. merge g (byte_averaging MERGE) BGI INPUTI ok okM nodata memory = Inr s
    \<and> good_image g (byte_average MERGE) BGI INPUTI nodata (mg_height g) (ms_image s)
    \<and> (if okM \<noteq> None then good_masks g BGI INPUTI (mg_height g) (ms_mask s) else ms_mask s = [])"
proof -
  obtain s where "merge g (byte_averaging MERGE) BGI INPUTI ok okM nodata memory = Inr s"
    "merged_up_to g (byte_average MERGE) BGI INPUTI (okM \<noteq> None) nodata (mg_height g) s"
    using merge_ok [OF byte_averages assms] by blast
  then show ?thesis unfolding merged_up_to_def by blast
qed

text \<open>One source of 2 x 2 bytes in the first quarter of the result.\<close>

definition merge_example_size :: merge_size where
  "merge_example_size = \<lparr>mg_width = 2, mg_height = 2, mg_samplesperpixel = 1\<rparr>"

definition merge_example_source :: "nat \<Rightarrow> nat \<Rightarrow> u8 MergeInput option" where
  "merge_example_source y x =
     (if y = 0 \<and> x = 0
      then Some \<lparr>mi_line = (\<lambda>n. if n < 2 then Some [10 + of_nat n, 20] else None),
                 mi_mask = Some (\<lambda>n. Some [if n = 0 then 255 else 0, 255])\<rparr>
      else None)"

theorem merge_averages_squares_witness:
  "mergeable merge_example_size None merge_example_source [7 :: u8] \<and>
   (\<exists>s. merge merge_example_size (byte_averaging (\<lambda>i. of_nat (i div 4))) None merge_example_source (\<lambda>n. n < 2) (Some (\<lambda>n. n < 2))
        [7] [1, 2, 3, 4] = Inr s
    \<and> good_image merge_example_size (byte_average (\<lambda>i. of_nat (i div 4))) None merge_example_source [7] 2 (ms_image s)
    \<and> good_masks merge_example_size None merge_example_source 2 (ms_mask s))"
proof -
  have m: "mergeable merge_example_size None merge_example_source [7 :: u8]"
    by (auto simp: mergeable_def readable_def merge_example_size_def merge_example_source_def split: if_splits)
  show ?thesis
    using m merge_averages_squares [OF m, of "\<lambda>n. n < 2" "Some (\<lambda>n. n < 2)" "[1, 2, 3, 4]" "\<lambda>i. of_nat (i div 4)"]
    by (simp add: merge_example_size_def)
qed

lemma merge_example:
  "map_sum id (\<lambda>s. (ms_image s, ms_mask s))
     (merge merge_example_size (byte_averaging (\<lambda>i. of_nat (i div 4))) None merge_example_source (\<lambda>n. n < 2) (Some (\<lambda>n. n < 2))
        [7] [1, 2, 3, 4]) = Inr ([(0, [16, 7]), (1, [7, 7])], [(0, [255, 0]), (1, [0, 0])])"
  by code_simp

end
