(* ===== verification/OneBit.thy ===== *)
theory OneBit
  imports Lines
begin

text \<open>
  lib/libimage/OneBitConverter.h: eight samples of one bit in a byte become eight bytes, 0 or 255, with
  two tables of 256 rows. The tables are those of the code; that they are right is proved row by row.
\<close>

definition mb2gray :: "u8 list list" where
  "mb2gray =
    [[0,0,0,0,0,0,0,0], [0,0,0,0,0,0,0,255], [0,0,0,0,0,0,255,0], [0,0,0,0,0,0,255,255],
     [0,0,0,0,0,255,0,0], [0,0,0,0,0,255,0,255], [0,0,0,0,0,255,255,0], [0,0,0,0,0,255,255,255],
     [0,0,0,0,255,0,0,0], [0,0,0,0,255,0,0,255], [0,0,0,0,255,0,255,0], [0,0,0,0,255,0,255,255],
     [0,0,0,0,255,255,0,0], [0,0,0,0,255,255,0,255], [0,0,0,0,255,255,255,0], [0,0,0,0,255,255,255,255],
     [0,0,0,255,0,0,0,0], [0,0,0,255,0,0,0,255], [0,0,0,255,0,0,255,0], [0,0,0,255,0,0,255,255],
     [0,0,0,255,0,255,0,0], [0,0,0,255,0,255,0,255], [0,0,0,255,0,255,255,0], [0,0,0,255,0,255,255,255],
     [0,0,0,255,255,0,0,0], [0,0,0,255,255,0,0,255], [0,0,0,255,255,0,255,0], [0,0,0,255,255,0,255,255],
     [0,0,0,255,255,255,0,0], [0,0,0,255,255,255,0,255], [0,0,0,255,255,255,255,0], [0,0,0,255,255,255,255,255],
     [0,0,255,0,0,0,0,0], [0,0,255,0,0,0,0,255], [0,0,255,0,0,0,255,0], [0,0,255,0,0,0,255,255],
     [0,0,255,0,0,255,0,0], [0,0,255,0,0,255,0,255], [0,0,255,0,0,255,255,0], [0,0,255,0,0,255,255,255],
     [0,0,255,0,255,0,0,0], [0,0,255,0,255,0,0,255], [0,0,255,0,255,0,255,0], [0,0,255,0,255,0,255,255],
     [0,0,255,0,255,255,0,0], [0,0,255,0,255,255,0,255], [0,0,255,0,255,255,255,0], [0,0,255,0,255,255,255,255],
     [0,0,255,255,0,0,0,0], [0,0,255,255,0,0,0,255], [0,0,255,255,0,0,255,0], [0,0,255,255,0,0,255,255],
     [0,0,255,255,0,255,0,0], [0,0,255,255,0,255,0,255], [0,0,255,255,0,255,255,0], [0,0,255,255,0,255,255,255],
     [0,0,255,255,255,0,0,0], [0,0,255,255,255,0,0,255], [0,0,255,255,255,0,255,0], [0,0,255,255,255,0,255,255],
     [0,0,255,255,255,255,0,0], [0,0,255,255,255,255,0,255], [0,0,255,255,255,255,255,0], [0,0,255,255,255,255,255,255],
     [0,255,0,0,0,0,0,0], [0,255,0,0,0,0,0,255], [0,255,0,0,0,0,255,0], [0,255,0,0,0,0,255,255],
     [0,255,0,0,0,255,0,0], [0,255,0,0,0,255,0,255], [0,255,0,0,0,255,255,0], [0,255,0,0,0,255,255,255],
     [0,255,0,0,255,0,0,0], [0,255,0,0,255,0,0,255], [0,255,0,0,255,0,255,0], [0,255,0,0,255,0,255,255],
     [0,255,0,0,255,255,0,0], [0,255,0,0,255,255,0,255], [0,255,0,0,255,255,255,0], [0,255,0,0,255,255,255,255],
     [0,255,0,255,0,0,0,0], [0,255,0,255,0,0,0,255], [0,255,0,255,0,0,255,0], [0,255,0,255,0,0,255,255],
     [0,255,0,255,0,255,0,0], [0,255,0,255,0,255,0,255], [0,255,0,255,0,255,255,0], [0,255,0,255,0,255,255,255],
     [0,255,0,255,255,0,0,0], [0,255,0,255,255,0,0,255], [0,255,0,255,255,0,255,0], [0,255,0,255,255,0,255,255],
     [0,255,0,255,255,255,0,0], [0,255,0,255,255,255,0,255], [0,255,0,255,255,255,255,0], [0,255,0,255,255,255,255,255],
     [0,255,255,0,0,0,0,0], [0,255,255,0,0,0,0,255], [0,255,255,0,0,0,255,0], [0,255,255,0,0,0,255,255],
     [0,255,255,0,0,255,0,0], [0,255,255,0,0,255,0,255], [0,255,255,0,0,255,255,0], [0,255,255,0,0,255,255,255],
     [0,255,255,0,255,0,0,0], [0,255,255,0,255,0,0,255], [0,255,255,0,255,0,255,0], [0,255,255,0,255,0,255,255],
     [0,255,255,0,255,255,0,0], [0,255,255,0,255,255,0,255], [0,255,255,0,255,255,255,0], [0,255,255,0,255,255,255,255],
     [0,255,255,255,0,0,0,0], [0,255,255,255,0,0,0,255], [0,255,255,255,0,0,255,0], [0,255,255,255,0,0,255,255],
     [0,255,255,255,0,255,0,0], [0,255,255,255,0,255,0,255], [0,255,255,255,0,255,255,0], [0,255,255,255,0,255,255,255],
     [0,255,255,255,255,0,0,0], [0,255,255,255,255,0,0,255], [0,255,255,255,255,0,255,0], [0,255,255,255,255,0,255,255],
     [0,255,255,255,255,255,0,0], [0,255,255,255,255,255,0,255], [0,255,255,255,255,255,255,0], [0,255,255,255,255,255,255,255],
     [255,0,0,0,0,0,0,0], [255,0,0,0,0,0,0,255], [255,0,0,0,0,0,255,0], [255,0,0,0,0,0,255,255],
     [255,0,0,0,0,255,0,0], [255,0,0,0,0,255,0,255], [255,0,0,0,0,255,255,0], [255,0,0,0,0,255,255,255],
     [255,0,0,0,255,0,0,0], [255,0,0,0,255,0,0,255], [255,0,0,0,255,0,255,0], [255,0,0,0,255,0,255,255],
     [255,0,0,0,255,255,0,0], [255,0,0,0,255,255,0,255], [255,0,0,0,255,255,255,0], [255,0,0,0,255,255,255,255],
     [255,0,0,255,0,0,0,0], [255,0,0,255,0,0,0,255], [255,0,0,255,0,0,255,0], [255,0,0,255,0,0,255,255],
     [255,0,0,255,0,255,0,0], [255,0,0,255,0,255,0,255], [255,0,0,255,0,255,255,0], [255,0,0,255,0,255,255,255],
     [255,0,0,255,255,0,0,0], [255,0,0,255,255,0,0,255], [255,0,0,255,255,0,255,0], [255,0,0,255,255,0,255,255],
     [255,0,0,255,255,255,0,0], [255,0,0,255,255,255,0,255], [255,0,0,255,255,255,255,0], [255,0,0,255,255,255,255,255],
     [255,0,255,0,0,0,0,0], [255,0,255,0,0,0,0,255], [255,0,255,0,0,0,255,0], [255,0,255,0,0,0,255,255],
     [255,0,255,0,0,255,0,0], [255,0,255,0,0,255,0,255], [255,0,255,0,0,255,255,0], [255,0,255,0,0,255,255,255],
     [255,0,255,0,255,0,0,0], [255,0,255,0,255,0,0,255], [255,0,255,0,255,0,255,0], [255,0,255,0,255,0,255,255],
     [255,0,255,0,255,255,0,0], [255,0,255,0,255,255,0,255], [255,0,255,0,255,255,255,0], [255,0,255,0,255,255,255,255],
     [255,0,255,255,0,0,0,0], [255,0,255,255,0,0,0,255], [255,0,255,255,0,0,255,0], [255,0,255,255,0,0,255,255],
     [255,0,255,255,0,255,0,0], [255,0,255,255,0,255,0,255], [255,0,255,255,0,255,255,0], [255,0,255,255,0,255,255,255],
     [255,0,255,255,255,0,0,0], [255,0,255,255,255,0,0,255], [255,0,255,255,255,0,255,0], [255,0,255,255,255,0,255,255],
     [255,0,255,255,255,255,0,0], [255,0,255,255,255,255,0,255], [255,0,255,255,255,255,255,0], [255,0,255,255,255,255,255,255],
     [255,255,0,0,0,0,0,0], [255,255,0,0,0,0,0,255], [255,255,0,0,0,0,255,0], [255,255,0,0,0,0,255,255],
     [255,255,0,0,0,255,0,0], [255,255,0,0,0,255,0,255], [255,255,0,0,0,255,255,0], [255,255,0,0,0,255,255,255],
     [255,255,0,0,255,0,0,0], [255,255,0,0,255,0,0,255], [255,255,0,0,255,0,255,0], [255,255,0,0,255,0,255,255],
     [255,255,0,0,255,255,0,0], [255,255,0,0,255,255,0,255], [255,255,0,0,255,255,255,0], [255,255,0,0,255,255,255,255],
     [255,255,0,255,0,0,0,0], [255,255,0,255,0,0,0,255], [255,255,0,255,0,0,255,0], [255,255,0,255,0,0,255,255],
     [255,255,0,255,0,255,0,0], [255,255,0,255,0,255,0,255], [255,255,0,255,0,255,255,0], [255,255,0,255,0,255,255,255],
     [255,255,0,255,255,0,0,0], [255,255,0,255,255,0,0,255], [255,255,0,255,255,0,255,0], [255,255,0,255,255,0,255,255],
     [255,255,0,255,255,255,0,0], [255,255,0,255,255,255,0,255], [255,255,0,255,255,255,255,0], [255,255,0,255,255,255,255,255],
     [255,255,255,0,0,0,0,0], [255,255,255,0,0,0,0,255], [255,255,255,0,0,0,255,0], [255,255,255,0,0,0,255,255],
     [255,255,255,0,0,255,0,0], [255,255,255,0,0,255,0,255], [255,255,255,0,0,255,255,0], [255,255,255,0,0,255,255,255],
     [255,255,255,0,255,0,0,0], [255,255,255,0,255,0,0,255], [255,255,255,0,255,0,255,0], [255,255,255,0,255,0,255,255],
     [255,255,255,0,255,255,0,0], [255,255,255,0,255,255,0,255], [255,255,255,0,255,255,255,0], [255,255,255,0,255,255,255,255],
     [255,255,255,255,0,0,0,0], [255,255,255,255,0,0,0,255], [255,255,255,255,0,0,255,0], [255,255,255,255,0,0,255,255],
     [255,255,255,255,0,255,0,0], [255,255,255,255,0,255,0,255], [255,255,255,255,0,255,255,0], [255,255,255,255,0,255,255,255],
     [255,255,255,255,255,0,0,0], [255,255,255,255,255,0,0,255], [255,255,255,255,255,0,255,0], [255,255,255,255,255,0,255,255],
     [255,255,255,255,255,255,0,0], [255,255,255,255,255,255,0,255], [255,255,255,255,255,255,255,0], [255,255,255,255,255,255,255,255]]"

definition mw2gray :: "u8 list list" where
  "mw2gray =
    [[255,255,255,255,255,255,255,255], [255,255,255,255,255,255,255,0], [255,255,255,255,255,255,0,255], [255,255,255,255,255,255,0,0],
     [255,255,255,255,255,0,255,255], [255,255,255,255,255,0,255,0], [255,255,255,255,255,0,0,255], [255,255,255,255,255,0,0,0],
     [255,255,255,255,0,255,255,255], [255,255,255,255,0,255,255,0], [255,255,255,255,0,255,0,255], [255,255,255,255,0,255,0,0],
     [255,255,255,255,0,0,255,255], [255,255,255,255,0,0,255,0], [255,255,255,255,0,0,0,255], [255,255,255,255,0,0,0,0],
     [255,255,255,0,255,255,255,255], [255,255,255,0,255,255,255,0], [255,255,255,0,255,255,0,255], [255,255,255,0,255,255,0,0],
     [255,255,255,0,255,0,255,255], [255,255,255,0,255,0,255,0], [255,255,255,0,255,0,0,255], [255,255,255,0,255,0,0,0],
     [255,255,255,0,0,255,255,255], [255,255,255,0,0,255,255,0], [255,255,255,0,0,255,0,255], [255,255,255,0,0,255,0,0],
     [255,255,255,0,0,0,255,255], [255,255,255,0,0,0,255,0], [255,255,255,0,0,0,0,255], [255,255,255,0,0,0,0,0],
     [255,255,0,255,255,255,255,255], [255,255,0,255,255,255,255,0], [255,255,0,255,255,255,0,255], [255,255,0,255,255,255,0,0],
     [255,255,0,255,255,0,255,255], [255,255,0,255,255,0,255,0], [255,255,0,255,255,0,0,255], [255,255,0,255,255,0,0,0],
     [255,255,0,255,0,255,255,255], [255,255,0,255,0,255,255,0], [255,255,0,255,0,255,0,255], [255,255,0,255,0,255,0,0],
     [255,255,0,255,0,0,255,255], [255,255,0,255,0,0,255,0], [255,255,0,255,0,0,0,255], [255,255,0,255,0,0,0,0],
     [255,255,0,0,255,255,255,255], [255,255,0,0,255,255,255,0], [255,255,0,0,255,255,0,255], [255,255,0,0,255,255,0,0],
     [255,255,0,0,255,0,255,255], [255,255,0,0,255,0,255,0], [255,255,0,0,255,0,0,255], [255,255,0,0,255,0,0,0],
     [255,255,0,0,0,255,255,255], [255,255,0,0,0,255,255,0], [255,255,0,0,0,255,0,255], [255,255,0,0,0,255,0,0],
     [255,255,0,0,0,0,255,255], [255,255,0,0,0,0,255,0], [255,255,0,0,0,0,0,255], [255,255,0,0,0,0,0,0],
     [255,0,255,255,255,255,255,255], [255,0,255,255,255,255,255,0], [255,0,255,255,255,255,0,255], [255,0,255,255,255,255,0,0],
     [255,0,255,255,255,0,255,255], [255,0,255,255,255,0,255,0], [255,0,255,255,255,0,0,255], [255,0,255,255,255,0,0,0],
     [255,0,255,255,0,255,255,255], [255,0,255,255,0,255,255,0], [255,0,255,255,0,255,0,255], [255,0,255,255,0,255,0,0],
     [255,0,255,255,0,0,255,255], [255,0,255,255,0,0,255,0], [255,0,255,255,0,0,0,255], [255,0,255,255,0,0,0,0],
     [255,0,255,0,255,255,255,255], [255,0,255,0,255,255,255,0], [255,0,255,0,255,255,0,255], [255,0,255,0,255,255,0,0],
     [255,0,255,0,255,0,255,255], [255,0,255,0,255,0,255,0], [255,0,255,0,255,0,0,255], [255,0,255,0,255,0,0,0],
     [255,0,255,0,0,255,255,255], [255,0,255,0,0,255,255,0], [255,0,255,0,0,255,0,255], [255,0,255,0,0,255,0,0],
     [255,0,255,0,0,0,255,255], [255,0,255,0,0,0,255,0], [255,0,255,0,0,0,0,255], [255,0,255,0,0,0,0,0],
     [255,0,0,255,255,255,255,255], [255,0,0,255,255,255,255,0], [255,0,0,255,255,255,0,255], [255,0,0,255,255,255,0,0],
     [255,0,0,255,255,0,255,255], [255,0,0,255,255,0,255,0], [255,0,0,255,255,0,0,255], [255,0,0,255,255,0,0,0],
     [255,0,0,255,0,255,255,255], [255,0,0,255,0,255,255,0], [255,0,0,255,0,255,0,255], [255,0,0,255,0,255,0,0],
     [255,0,0,255,0,0,255,255], [255,0,0,255,0,0,255,0], [255,0,0,255,0,0,0,255], [255,0,0,255,0,0,0,0],
     [255,0,0,0,255,255,255,255], [255,0,0,0,255,255,255,0], [255,0,0,0,255,255,0,255], [255,0,0,0,255,255,0,0],
     [255,0,0,0,255,0,255,255], [255,0,0,0,255,0,255,0], [255,0,0,0,255,0,0,255], [255,0,0,0,255,0,0,0],
     [255,0,0,0,0,255,255,255], [255,0,0,0,0,255,255,0], [255,0,0,0,0,255,0,255], [255,0,0,0,0,255,0,0],
     [255,0,0,0,0,0,255,255], [255,0,0,0,0,0,255,0], [255,0,0,0,0,0,0,255], [255,0,0,0,0,0,0,0],
     [0,255,255,255,255,255,255,255], [0,255,255,255,255,255,255,0], [0,255,255,255,255,255,0,255], [0,255,255,255,255,255,0,0],
     [0,255,255,255,255,0,255,255], [0,255,255,255,255,0,255,0], [0,255,255,255,255,0,0,255], [0,255,255,255,255,0,0,0],
     [0,255,255,255,0,255,255,255], [0,255,255,255,0,255,255,0], [0,255,255,255,0,255,0,255], [0,255,255,255,0,255,0,0],
     [0,255,255,255,0,0,255,255], [0,255,255,255,0,0,255,0], [0,255,255,255,0,0,0,255], [0,255,255,255,0,0,0,0],
     [0,255,255,0,255,255,255,255], [0,255,255,0,255,255,255,0], [0,255,255,0,255,255,0,255], [0,255,255,0,255,255,0,0],
     [0,255,255,0,255,0,255,255], [0,255,255,0,255,0,255,0], [0,255,255,0,255,0,0,255], [0,255,255,0,255,0,0,0],
     [0,255,255,0,0,255,255,255], [0,255,255,0,0,255,255,0], [0,255,255,0,0,255,0,255], [0,255,255,0,0,255,0,0],
     [0,255,255,0,0,0,255,255], [0,255,255,0,0,0,255,0], [0,255,255,0,0,0,0,255], [0,255,255,0,0,0,0,0],
     [0,255,0,255,255,255,255,255], [0,255,0,255,255,255,255,0], [0,255,0,255,255,255,0,255], [0,255,0,255,255,255,0,0],
     [0,255,0,255,255,0,255,255], [0,255,0,255,255,0,255,0], [0,255,0,255,255,0,0,255], [0,255,0,255,255,0,0,0],
     [0,255,0,255,0,255,255,255], [0,255,0,255,0,255,255,0], [0,255,0,255,0,255,0,255], [0,255,0,255,0,255,0,0],
     [0,255,0,255,0,0,255,255], [0,255,0,255,0,0,255,0], [0,255,0,255,0,0,0,255], [0,255,0,255,0,0,0,0],
     [0,255,0,0,255,255,255,255], [0,255,0,0,255,255,255,0], [0,255,0,0,255,255,0,255], [0,255,0,0,255,255,0,0],
     [0,255,0,0,255,0,255,255], [0,255,0,0,255,0,255,0], [0,255,0,0,255,0,0,255], [0,255,0,0,255,0,0,0],
     [0,255,0,0,0,255,255,255], [0,255,0,0,0,255,255,0], [0,255,0,0,0,255,0,255], [0,255,0,0,0,255,0,0],
     [0,255,0,0,0,0,255,255], [0,255,0,0,0,0,255,0], [0,255,0,0,0,0,0,255], [0,255,0,0,0,0,0,0],
     [0,0,255,255,255,255,255,255], [0,0,255,255,255,255,255,0], [0,0,255,255,255,255,0,255], [0,0,255,255,255,255,0,0],
     [0,0,255,255,255,0,255,255], [0,0,255,255,255,0,255,0], [0,0,255,255,255,0,0,255], [0,0,255,255,255,0,0,0],
     [0,0,255,255,0,255,255,255], [0,0,255,255,0,255,255,0], [0,0,255,255,0,255,0,255], [0,0,255,255,0,255,0,0],
     [0,0,255,255,0,0,255,255], [0,0,255,255,0,0,255,0], [0,0,255,255,0,0,0,255], [0,0,255,255,0,0,0,0],
     [0,0,255,0,255,255,255,255], [0,0,255,0,255,255,255,0], [0,0,255,0,255,255,0,255], [0,0,255,0,255,255,0,0],
     [0,0,255,0,255,0,255,255], [0,0,255,0,255,0,255,0], [0,0,255,0,255,0,0,255], [0,0,255,0,255,0,0,0],
     [0,0,255,0,0,255,255,255], [0,0,255,0,0,255,255,0], [0,0,255,0,0,255,0,255], [0,0,255,0,0,255,0,0],
     [0,0,255,0,0,0,255,255], [0,0,255,0,0,0,255,0], [0,0,255,0,0,0,0,255], [0,0,255,0,0,0,0,0],
     [0,0,0,255,255,255,255,255], [0,0,0,255,255,255,255,0], [0,0,0,255,255,255,0,255], [0,0,0,255,255,255,0,0],
     [0,0,0,255,255,0,255,255], [0,0,0,255,255,0,255,0], [0,0,0,255,255,0,0,255], [0,0,0,255,255,0,0,0],
     [0,0,0,255,0,255,255,255], [0,0,0,255,0,255,255,0], [0,0,0,255,0,255,0,255], [0,0,0,255,0,255,0,0],
     [0,0,0,255,0,0,255,255], [0,0,0,255,0,0,255,0], [0,0,0,255,0,0,0,255], [0,0,0,255,0,0,0,0],
     [0,0,0,0,255,255,255,255], [0,0,0,0,255,255,255,0], [0,0,0,0,255,255,0,255], [0,0,0,0,255,255,0,0],
     [0,0,0,0,255,0,255,255], [0,0,0,0,255,0,255,0], [0,0,0,0,255,0,0,255], [0,0,0,0,255,0,0,0],
     [0,0,0,0,0,255,255,255], [0,0,0,0,0,255,255,0], [0,0,0,0,0,255,0,255], [0,0,0,0,0,255,0,0],
     [0,0,0,0,0,0,255,255], [0,0,0,0,0,0,255,0], [0,0,0,0,0,0,0,255], [0,0,0,0,0,0,0,0]]"

text \<open>The loops run from the last byte to the first one.\<close>

definition toGray :: "u8 list list \<Rightarrow> u8 list \<Rightarrow> u8 list \<Rightarrow> nat \<Rightarrow> fault + u8 list" where
  "toGray table to from sz =
     foldR (\<lambda>i to. bindR (elem from i) (\<lambda>b. bindR (elem table (unat b)) (\<lambda>row. write_at (i * 8) row to))) (rev [0..<sz]) to"

definition minblackToGray :: "u8 list \<Rightarrow> u8 list \<Rightarrow> nat \<Rightarrow> fault + u8 list" where
  "minblackToGray = toGray mb2gray"

definition minwhiteToGray :: "u8 list \<Rightarrow> u8 list \<Rightarrow> nat \<Rightarrow> fault + u8 list" where
  "minwhiteToGray = toGray mw2gray"

text \<open>The bits of a byte, the highest one first.\<close>

definition gray_bits :: "bool \<Rightarrow> u8 \<Rightarrow> u8 list" where
  "gray_bits one b = map (\<lambda>i. if bit b (7 - i) = one then 255 else 0) [0..<8]"

lemma mb2gray_rows: "mb2gray = map (\<lambda>n. gray_bits True (word_of_nat n)) [0..<256]"
  by code_simp

lemma mw2gray_rows: "mw2gray = map (\<lambda>n. gray_bits False (word_of_nat n)) [0..<256]"
  by code_simp

lemma length_gray_bits [simp]: "length (gray_bits one b) = 8"
  by (simp add: gray_bits_def)

lemma gray_row:
  "elem mb2gray (unat b) = Inr (gray_bits True b)" "elem mw2gray (unat b) = Inr (gray_bits False b)"
proof -
  have "unat b < 2 ^ LENGTH(8)" by (rule unsigned_less)
  then show "elem mb2gray (unat b) = Inr (gray_bits True b)" "elem mw2gray (unat b) = Inr (gray_bits False b)"
    unfolding mb2gray_rows mw2gray_rows by (simp_all add: elem_ok)
qed

text \<open>Both conversions, with what one of them makes of a byte.\<close>

lemma toGray_bits:
  assumes "\<And>b. elem table (unat b) = Inr (gray_bits one b)" "n \<le> length from" "8 * n \<le> length to"
  shows "toGray table to from n = Inr (concat (map (gray_bits one) (take n from)) @ drop (8 * n) to)"
  using assms(2,3)
proof (induction n arbitrary: to)
  case (Suc n)
  let ?row = "gray_bits one (from ! n)"
  have room: "n * 8 + length ?row \<le> length to" using Suc.prems(2) by simp
  have "toGray table to from (Suc n) = toGray table (patched (n * 8) ?row to) from n"
    using Suc.prems assms(1) room by (simp add: toGray_def elem_ok write_at_ok)
  also have "\<dots> = Inr (concat (map (gray_bits one) (take n from)) @ drop (8 * n) (patched (n * 8) ?row to))"
    using Suc.prems room by (intro Suc.IH) simp_all
  also have "drop (8 * n) (patched (n * 8) ?row to) = ?row @ drop (8 * Suc n) to"
    using Suc.prems by (simp add: patched_def ac_simps)
  finally show ?case using Suc.prems by (simp add: take_Suc_conv_app_nth)
qed (simp add: toGray_def)

lemma toGray_overflow:
  assumes "\<And>b. elem table (unat b) = Inr (gray_bits one b)" "n \<le> length from" "length to < 8 * n"
  shows "toGray table to from n = Inl BufferOverflow"
proof (cases n)
  case (Suc m)
  then show ?thesis using assms by (simp add: toGray_def elem_ok write_at_def)
qed (use assms in simp)

lemmas minblackToGray_bits = toGray_bits [OF gray_row(1), folded minblackToGray_def]
lemmas minwhiteToGray_bits = toGray_bits [OF gray_row(2), folded minwhiteToGray_def]

end
