(* ===== verification/TiffImage.thy ===== *)
theory TiffImage
  imports OneBit Format Encoding
begin

text \<open>
  lib/libimage/LibtiffImage.cpp, FileImage.h, PixelConverter.h: the reading of a TIFF file line by line.
  An image keeps one strip of the file in a buffer, decoded by libtiff, and reads the next one when a
  line is asked for that is not in it. The samples are then made to be of 8 bits, not multiplied by
  alpha, and of the number of channels that is wanted.

  libtiff is a parameter: the fields of the directory and \<open>strip\<close>, what \<open>TIFFReadEncodedStrip\<close> gives
  for the number of a strip: \<open>Inr\<close> the bytes of the strip, or \<open>Inl\<close> for an error, with the bytes it
  had put into the buffer before it failed. Widths and heights are taken to fit an \<open>int\<close>.
\<close>

subsection \<open>Samples in memory\<close>

text \<open>
  The sample type \<open>T\<close> of the templates, with what they do with a sample: its bytes, the value of full
  opacity, \<open>pix * coeff / alpha\<close>, and the grey value of three colours, which is computed with doubles
  and is a parameter. 16 bit samples are multiplied as an \<open>int\<close>.
\<close>

record 't cell =
  cell_size :: nat
  cell_get :: "u8 list \<Rightarrow> 't"
  cell_put :: "'t \<Rightarrow> u8 list"
  cell_full :: 't
  cell_zero :: 't
  cell_scale :: "'t \<Rightarrow> 't \<Rightarrow> fault + 't"
  cell_gray :: "'t \<Rightarrow> 't \<Rightarrow> 't \<Rightarrow> 't"

definition cell_u8 :: "(u8 \<Rightarrow> u8 \<Rightarrow> u8 \<Rightarrow> u8) \<Rightarrow> u8 cell" where
  "cell_u8 gray =
     \<lparr>cell_size = 1, cell_get = hd, cell_put = (\<lambda>v. [v]), cell_full = 255, cell_zero = 0,
      cell_scale = (\<lambda>p a. bindR (int_mul (uint p) 255) (\<lambda>m. Inr (word_of_int (m div uint a)))), cell_gray = gray\<rparr>"

definition cell_u16 :: "(u16 \<Rightarrow> u16 \<Rightarrow> u16 \<Rightarrow> u16) \<Rightarrow> u16 cell" where
  "cell_u16 gray =
     \<lparr>cell_size = 2, cell_get = (\<lambda>b. word_of_nat (le_nat b)), cell_put = put16, cell_full = 65535, cell_zero = 0,
      cell_scale = (\<lambda>p a. bindR (int_mul (uint p) 65535) (\<lambda>m. Inr (word_of_int (m div uint a)))), cell_gray = gray\<rparr>"

text \<open>Bytes seen as samples, and samples as bytes.\<close>

definition cells :: "'t cell \<Rightarrow> u8 list \<Rightarrow> 't list" where
  "cells C b = map (\<lambda>i. cell_get C (pixel (cell_size C) i b)) [0..<length b div cell_size C]"

definition cell_bytes :: "'t cell \<Rightarrow> 't list \<Rightarrow> u8 list" where
  "cell_bytes C xs = concat (map (cell_put C) xs)"

subsection \<open>Alpha\<close>

definition unassociate_pixel :: "'t cell \<Rightarrow> nat \<Rightarrow> nat \<Rightarrow> 't list \<Rightarrow> fault + 't list" where
  "unassociate_pixel C channels i buffer =
     (let pix = i * channels; alphaInd = channels - 1
      in bindR (elem buffer (pix + alphaInd)) (\<lambda>alpha.
           if alpha = cell_full C then Inr buffer
           else if alpha = cell_zero C then
             bindR (read_at pix channels buffer) (\<lambda>px.
             write_at pix (cells C (replicate channels 0 @ drop channels (cell_bytes C px))) buffer)
           else
             foldR (\<lambda>c buffer. bindR (elem buffer (pix + c)) (\<lambda>p. bindR (cell_scale C p alpha) (\<lambda>v. put_at (pix + c) v buffer)))
               [0..<alphaInd] buffer))"

definition unassociateAlpha :: "'t cell \<Rightarrow> nat \<Rightarrow> nat \<Rightarrow> 't list \<Rightarrow> fault + 't list" where
  "unassociateAlpha C width channels = foldR (unassociate_pixel C channels) [0..<width]"

subsection \<open>Channels\<close>

record PixelConverter =
  pc_outSampleFormat :: eSampleFormat
  pc_outBitsPerSample :: nat
  pc_inSamplesPerPixel :: nat
  pc_outSamplesPerPixel :: nat
  pc_width :: nat
  pc_yesWeCan :: bool

definition PixelConverter_new ::
    "nat \<Rightarrow> eSampleFormat \<Rightarrow> nat \<Rightarrow> nat \<Rightarrow> eSampleFormat \<Rightarrow> nat \<Rightarrow> nat \<Rightarrow> PixelConverter" where
  "PixelConverter_new w isf ibps ispp osf obps ospp =
     \<lparr>pc_outSampleFormat = osf, pc_outBitsPerSample = obps, pc_inSamplesPerPixel = ispp, pc_outSamplesPerPixel = ospp,
      pc_width = w,
      pc_yesWeCan =
        (if isf = SampleFormat_FLOAT \<or> osf = SampleFormat_FLOAT then False
         else if isf \<noteq> osf then False
         else if ibps \<noteq> obps then False
         else if ispp = ospp then False
         else if ibps \<noteq> 8 then False
         else True)\<rparr>"

text \<open>What one turn of the loops of \<open>convertLine\<close> makes of a pixel; \<open>None\<close> where there is no loop.\<close>

definition converted_pixel :: "'t cell \<Rightarrow> nat \<Rightarrow> nat \<Rightarrow> ('t list \<Rightarrow> 't list) option" where
  "converted_pixel C m n =
     (let full = cell_full C; gray = (\<lambda>p. cell_gray C (p ! 0) (p ! 1) (p ! 2))
      in if m = 1 then
           (if n = 2 then Some (\<lambda>p. [p ! 0, full])
            else if n = 3 then Some (\<lambda>p. [p ! 0, p ! 0, p ! 0])
            else if n = 4 then Some (\<lambda>p. [p ! 0, p ! 0, p ! 0, full]) else None)
         else if m = 2 then
           (if n = 1 then Some (\<lambda>p. [p ! 0])
            else if n = 3 then Some (\<lambda>p. [p ! 0, p ! 0, p ! 0])
            else if n = 4 then Some (\<lambda>p. [p ! 0, p ! 0, p ! 0, p ! 1]) else None)
         else if m = 3 then
           (if n = 1 then Some (\<lambda>p. [gray p])
            else if n = 2 then Some (\<lambda>p. [gray p, full])
            else if n = 4 then Some (\<lambda>p. [p ! 0, p ! 1, p ! 2, full]) else None)
         else if m = 4 then
           (if n = 1 then Some (\<lambda>p. [gray p])
            else if n = 2 then Some (\<lambda>p. [gray p, p ! 3])
            else if n = 3 then Some (\<lambda>p. [p ! 0, p ! 1, p ! 2]) else None)
         else None)"

definition convertLine :: "'t cell \<Rightarrow> PixelConverter \<Rightarrow> 't list \<Rightarrow> 't list \<Rightarrow> fault + 't list" where
  "convertLine C P bufferto bufferfrom =
     (let m = pc_inSamplesPerPixel P; n = pc_outSamplesPerPixel P
      in case converted_pixel C m n of
           None \<Rightarrow> Inr bufferto
         | Some f \<Rightarrow> foldR (\<lambda>i bufferto. bindR (read_at (m * i) m bufferfrom) (\<lambda>p. write_at (n * i) (f p) bufferto))
                      [0..<pc_width P] bufferto)"

subsection \<open>The image\<close>

record LibtiffImage =
  lt_width :: nat
  lt_height :: nat
  lt_channels :: nat
  lt_sampleformat :: eSampleFormat
  lt_bitspersample :: nat
  lt_pixelSize :: nat
  lt_esType :: eExtraSample
  lt_converter :: "PixelConverter option"
  lt_rowsperstrip :: u16
  lt_current_strip :: u16
  lt_strip_buffer :: "u8 list"
  lt_oneTo8bits :: nat
  lt_oneTo8bits_buffer :: "u8 list"

text \<open>The constants of \<open>tiff.h\<close> that only the reading of files needs.\<close>

record tiff_h_read = tiff_h +
  PHOTOMETRIC_MINISWHITE :: u16
  PLANARCONFIG_CONTIG :: u16

definition libtiff_photometric :: "tiff_h_read \<Rightarrow> u16 \<Rightarrow> ePhotometric" where
  "libtiff_photometric T ph =
     (if ph = PHOTOMETRIC_MINISBLACK T then Photometric_GRAY
      else if ph = PHOTOMETRIC_MINISWHITE T then Photometric_GRAY
      else if ph = PHOTOMETRIC_RGB T then Photometric_RGB
      else if ph = PHOTOMETRIC_YCBCR T then Photometric_YCBCR
      else if ph = PHOTOMETRIC_MASK T then Photometric_MASK
      else Photometric_UNKNOWN)"

text \<open>\<open>new uint8_t[n]\<close>, on memory of some content.\<close>

definition new_bytes :: "(nat \<Rightarrow> u8) \<Rightarrow> int \<Rightarrow> fault + u8 list" where
  "new_bytes memory n = (if n < 0 then Inl NegativeSize else Inr (map memory [0..<nat n]))"

text \<open>\<open>rowsperstrip\<close> is an \<open>int\<close> of the constructor and 16 bits wide in the image.\<close>

definition LibtiffImage_new ::
    "tiff_h_read \<Rightarrow> (nat \<Rightarrow> u8) \<Rightarrow> nat \<Rightarrow> nat \<Rightarrow> nat \<Rightarrow> u16 \<Rightarrow> nat \<Rightarrow> u16 \<Rightarrow> int \<Rightarrow> eExtraSample \<Rightarrow> fault + LibtiffImage" where
  "LibtiffImage_new T memory width height channels sf bps ph rowsperstrip esType =
     (let sampleformat = toROK4SampleFormat T sf;
          one = (bps = 1 \<and> sampleformat = SampleFormat_UINT);
          bitspersample = (if one then 8 else bps);
          pixelSize = (if one then channels else bps * channels div 8);
          oneTo8bits = (if one then (if ph = PHOTOMETRIC_MINISWHITE T then 1 else if ph = PHOTOMETRIC_MINISBLACK T then 2 else 0)
                        else 0)
      in bindR (int_mul (int width) rowsperstrip) (\<lambda>n. bindR (int_mul n (int pixelSize)) (\<lambda>stripSize.
         bindR (new_bytes memory stripSize) (\<lambda>strip_buffer.
         bindR (if oneTo8bits \<noteq> (0 :: nat) then new_bytes memory stripSize else Inr []) (\<lambda>oneTo8bits_buffer.
         Inr \<lparr>lt_width = width, lt_height = height, lt_channels = channels, lt_sampleformat = sampleformat,
              lt_bitspersample = bitspersample, lt_pixelSize = pixelSize, lt_esType = esType, lt_converter = None,
              lt_rowsperstrip = word_of_int rowsperstrip, lt_current_strip = - 1, lt_strip_buffer = strip_buffer,
              lt_oneTo8bits = oneTo8bits, lt_oneTo8bits_buffer = oneTo8bits_buffer\<rparr>)))))"

text \<open>What \<open>TIFFGetField\<close> gives for the tags of the file, \<open>None\<close> for a tag that is not there.\<close>

record tiff_fields =
  tf_width :: "nat option"
  tf_height :: "nat option"
  tf_channels :: "nat option"
  tf_planarconfig :: "u16 option"
  tf_bitspersample :: "nat option"
  tf_sampleformat :: "u16 option"
  tf_photometric :: "u16 option"
  tf_compression :: "u16 option"
  tf_rowsperstrip :: "u32 option"
  tf_extrasamples :: "u16 list option"

definition libtiff_canRead :: "nat \<Rightarrow> eSampleFormat \<Rightarrow> bool" where
  "libtiff_canRead bps sf \<longleftrightarrow> bps = 32 \<and> sf = SampleFormat_FLOAT \<or> bps = 16 \<and> sf = SampleFormat_UINT
     \<or> bps = 8 \<and> sf = SampleFormat_UINT \<or> bps = 1 \<and> sf = SampleFormat_UINT"

definition default_sampleformat :: "tiff_h_read \<Rightarrow> nat \<Rightarrow> u16 option" where
  "default_sampleformat T bps =
     (if bps = 8 then Some (SAMPLEFORMAT_UINT T)
      else if bps = 16 then Some (SAMPLEFORMAT_UINT T)
      else if bps = 32 then Some (SAMPLEFORMAT_IEEEFP T)
      else if bps = 1 then Some (SAMPLEFORMAT_UINT T)
      else None)"

text \<open>
  \<open>consistent\<close> tells whether no resolution is given, or one that fits the bounding box: this is
  computed with doubles. \<open>Inr None\<close> is the null pointer the factory returns on an error.
\<close>

definition createLibtiffImageToRead ::
    "tiff_h_read \<Rightarrow> (nat \<Rightarrow> u8) \<Rightarrow> (nat \<Rightarrow> nat \<Rightarrow> bool) \<Rightarrow> tiff_fields option \<Rightarrow> fault + LibtiffImage option" where
  "createLibtiffImageToRead T memory consistent tif =
     (case tif of None \<Rightarrow> Inr None | Some f \<Rightarrow>
      (case tf_width f of None \<Rightarrow> Inr None | Some width \<Rightarrow>
      (case tf_height f of None \<Rightarrow> Inr None | Some height \<Rightarrow>
      (case tf_channels f of None \<Rightarrow> Inr None | Some channels \<Rightarrow>
      (case tf_planarconfig f of None \<Rightarrow> Inr None | Some planarconfig \<Rightarrow>
       if planarconfig \<noteq> PLANARCONFIG_CONTIG T \<and> channels \<noteq> 1 then Inr None else
      (case tf_bitspersample f of None \<Rightarrow> Inr None | Some bitspersample \<Rightarrow>
      (case (case tf_sampleformat f of Some sf \<Rightarrow> Some sf | None \<Rightarrow> default_sampleformat T bitspersample) of
         None \<Rightarrow> Inr None | Some sf \<Rightarrow>
      (case tf_photometric f of None \<Rightarrow> Inr None | Some ph \<Rightarrow>
       if libtiff_photometric T ph = Photometric_UNKNOWN then Inr None else
      (case tf_compression f of None \<Rightarrow> Inr None | Some _ \<Rightarrow>
      (case tf_rowsperstrip f of None \<Rightarrow> Inr None | Some rowsperstrip \<Rightarrow>
       bindR (case tf_extrasamples f of None \<Rightarrow> Inr ExtraSample_UNKNOWN
              | Some es \<Rightarrow> bindR (elem es 0) (\<lambda>e. Inr (toROK4ExtraSample T e))) (\<lambda>es.
       if \<not> libtiff_canRead bitspersample (toROK4SampleFormat T sf) then Inr None
       else if \<not> consistent width height then Inr None
       else bindR (LibtiffImage_new T memory width height channels sf bitspersample ph (sint rowsperstrip) es) (\<lambda>im. Inr (Some im)))))))))))))"

definition addConverter :: "LibtiffImage \<Rightarrow> eSampleFormat \<Rightarrow> nat \<Rightarrow> nat \<Rightarrow> bool \<times> LibtiffImage" where
  "addConverter im osf obps ospp =
     (if lt_sampleformat im = osf \<and> lt_bitspersample im = obps \<and> lt_channels im = ospp then (True, im)
      else let P = PixelConverter_new (lt_width im) (lt_sampleformat im) (lt_bitspersample im) (lt_channels im) osf obps ospp
           in (pc_yesWeCan P, im\<lparr>lt_converter := Some P\<rparr>))"

definition lt_getChannels :: "LibtiffImage \<Rightarrow> nat" where
  "lt_getChannels im = (case lt_converter im of Some P \<Rightarrow> pc_outSamplesPerPixel P | None \<Rightarrow> lt_channels im)"

definition lt_getPixelSize :: "LibtiffImage \<Rightarrow> nat" where
  "lt_getPixelSize im =
     (case lt_converter im of Some P \<Rightarrow> pc_outBitsPerSample P * pc_outSamplesPerPixel P div 8 | None \<Rightarrow> lt_pixelSize im)"

subsection \<open>Reading a line\<close>

definition strip_to_8bits :: "nat \<Rightarrow> u8 list \<Rightarrow> u8 list \<Rightarrow> nat \<Rightarrow> fault + u8 list" where
  "strip_to_8bits oneTo8bits ob sb sz =
     (if oneTo8bits = 1 then minwhiteToGray ob sb sz
      else if oneTo8bits = 2 then minblackToGray ob sb sz
      else Inr ob)"

text \<open>What \<open>TIFFReadEncodedStrip\<close> gives.\<close>

type_synonym strips = "nat \<Rightarrow> u8 list + u8 list"

text \<open>The strip of a line is made the current one before it is read; \<open>False\<close> is an error of libtiff.\<close>

definition load_strip :: "strips \<Rightarrow> nat \<Rightarrow> LibtiffImage \<Rightarrow> fault + bool \<times> LibtiffImage" where
  "load_strip strip line im =
     (if lt_rowsperstrip im = 0 then Inl DivisionByZero
      else if line div unat (lt_rowsperstrip im) \<noteq> unat (lt_current_strip im) then
        let im = im\<lparr>lt_current_strip := word_of_nat (line div unat (lt_rowsperstrip im))\<rparr>
        in case strip (unat (lt_current_strip im)) of
             Inl left \<Rightarrow> bindR (write_at 0 left (lt_strip_buffer im)) (\<lambda>sb. Inr (False, im\<lparr>lt_strip_buffer := sb\<rparr>))
           | Inr data \<Rightarrow>
               bindR (write_at 0 data (lt_strip_buffer im)) (\<lambda>sb.
               bindR (strip_to_8bits (lt_oneTo8bits im) (lt_oneTo8bits_buffer im) sb (length data)) (\<lambda>ob.
               Inr (True, im\<lparr>lt_strip_buffer := sb, lt_oneTo8bits_buffer := ob\<rparr>)))
      else Inr (True, im))"

text \<open>The buffer lines are taken from.\<close>

definition lt_active :: "LibtiffImage \<Rightarrow> u8 list" where
  "lt_active im = (if lt_oneTo8bits im \<noteq> 0 then lt_oneTo8bits_buffer im else lt_strip_buffer im)"

text \<open>What is done with the bytes of a line.\<close>

definition finish_line :: "'t cell \<Rightarrow> LibtiffImage \<Rightarrow> 't list \<Rightarrow> u8 list \<Rightarrow> fault + 't list" where
  "finish_line C im buffer b =
     bindR (if lt_esType im = ALPHA_ASSOC then unassociateAlpha C (lt_width im) (lt_channels im) (cells C b)
            else Inr (cells C b)) (\<lambda>buffertmp.
     case lt_converter im of
       Some P \<Rightarrow> convertLine C P buffer buffertmp
     | None \<Rightarrow> write_at 0 buffertmp buffer)"

definition lt_line ::
    "'t cell \<Rightarrow> strips \<Rightarrow> 't list \<Rightarrow> nat \<Rightarrow> LibtiffImage \<Rightarrow> fault + 't list option \<times> LibtiffImage" where
  "lt_line C strip buffer line im =
     bindR (load_strip strip line im) (\<lambda>(ok, im).
       if \<not> ok then Inr (None, im)
       else
         bindR (read_at ((line mod unat (lt_rowsperstrip im)) * lt_width im * lt_pixelSize im) (lt_width im * lt_pixelSize im) (lt_active im))
           (\<lambda>b. bindR (finish_line C im buffer b) (\<lambda>buffer. Inr (Some buffer, im))))"

text \<open>
  \<open>getline\<close> for buffers of bytes and of 16 bit integers, as the pyramids use them. The result of the
  inner \<open>_getline\<close> is not looked at: after an error, a line that was never written is copied. \<open>F\<close> is
  the type \<open>float\<close>.
\<close>

definition inner_line ::
    "'t cell \<Rightarrow> strips \<Rightarrow> 't list \<Rightarrow> nat \<Rightarrow> LibtiffImage \<Rightarrow> fault + 't list \<times> LibtiffImage" where
  "inner_line C strip buffer line im =
     bindR (lt_line C strip buffer line im) (\<lambda>(r, im). case r of None \<Rightarrow> Inl Uninitialised | Some l \<Rightarrow> Inr (l, im))"

definition lt_getline_u8 ::
    "(u8 \<Rightarrow> u8 \<Rightarrow> u8 \<Rightarrow> u8) \<Rightarrow> (u16 \<Rightarrow> u16 \<Rightarrow> u16 \<Rightarrow> u16) \<Rightarrow> 'f cell \<Rightarrow> strips \<Rightarrow> u8 list \<Rightarrow> nat \<Rightarrow> LibtiffImage
     \<Rightarrow> fault + u8 list option \<times> LibtiffImage" where
  "lt_getline_u8 gray8 gray16 F strip buffer line im =
     (if lt_bitspersample im = 8 \<and> lt_sampleformat im = SampleFormat_UINT then lt_line (cell_u8 gray8) strip buffer line im
      else if lt_bitspersample im = 16 \<and> lt_sampleformat im = SampleFormat_UINT then
        bindR (inner_line (cell_u16 gray16) strip (replicate (lt_width im * lt_getChannels im) 0) line im) (\<lambda>(l, im).
        bindR (read_at 0 (lt_width im * lt_getPixelSize im) (cell_bytes (cell_u16 gray16) l)) (\<lambda>b.
        bindR (write_at 0 b buffer) (\<lambda>buffer. Inr (Some buffer, im))))
      else if lt_bitspersample im = 32 \<and> lt_sampleformat im = SampleFormat_FLOAT then
        bindR (inner_line F strip (replicate (lt_width im * lt_getChannels im) (cell_zero F)) line im) (\<lambda>(l, im).
        bindR (read_at 0 (lt_width im * lt_getPixelSize im) (cell_bytes F l)) (\<lambda>b.
        bindR (write_at 0 b buffer) (\<lambda>buffer. Inr (Some buffer, im))))
      else Inr (None, im))"

definition lt_getline_u16 ::
    "(u8 \<Rightarrow> u8 \<Rightarrow> u8 \<Rightarrow> u8) \<Rightarrow> (u16 \<Rightarrow> u16 \<Rightarrow> u16 \<Rightarrow> u16) \<Rightarrow> 'f cell \<Rightarrow> strips \<Rightarrow> u16 list \<Rightarrow> nat \<Rightarrow> LibtiffImage
     \<Rightarrow> fault + u16 list option \<times> LibtiffImage" where
  "lt_getline_u16 gray8 gray16 F strip buffer line im =
     (if lt_bitspersample im = 8 \<and> lt_sampleformat im = SampleFormat_UINT then
        bindR (inner_line (cell_u8 gray8) strip (replicate (lt_width im * lt_getChannels im) 0) line im) (\<lambda>(l, im).
        bindR (read_at 0 (lt_width im * lt_getChannels im) l) (\<lambda>l.
        bindR (write_at 0 (map ucast l) buffer) (\<lambda>buffer. Inr (Some buffer, im))))
      else if lt_bitspersample im = 16 \<and> lt_sampleformat im = SampleFormat_UINT then lt_line (cell_u16 gray16) strip buffer line im
      else if lt_bitspersample im = 32 \<and> lt_sampleformat im = SampleFormat_FLOAT then
        bindR (inner_line F strip (replicate (lt_width im * lt_channels im) (cell_zero F)) line im) (\<lambda>(l, im).
        bindR (read_at 0 (lt_width im * lt_pixelSize im) (cell_bytes F l)) (\<lambda>b.
        bindR (write_at 0 (cells (cell_u16 gray16) b) buffer) (\<lambda>buffer. Inr (Some buffer, im))))
      else Inr (None, im))"

text \<open>\<open>from8\<close> and \<open>from16\<close> are the conversions of integers to the type \<open>float\<close>.\<close>

definition lt_getline_float ::
    "(u8 \<Rightarrow> u8 \<Rightarrow> u8 \<Rightarrow> u8) \<Rightarrow> (u16 \<Rightarrow> u16 \<Rightarrow> u16 \<Rightarrow> u16) \<Rightarrow> 'f cell \<Rightarrow> (u8 \<Rightarrow> 'f) \<Rightarrow> (u16 \<Rightarrow> 'f) \<Rightarrow> strips
     \<Rightarrow> 'f list \<Rightarrow> nat \<Rightarrow> LibtiffImage \<Rightarrow> fault + 'f list option \<times> LibtiffImage" where
  "lt_getline_float gray8 gray16 F from8 from16 strip buffer line im =
     (if lt_bitspersample im = 8 \<and> lt_sampleformat im = SampleFormat_UINT then
        bindR (inner_line (cell_u8 gray8) strip (replicate (lt_width im * lt_getChannels im) 0) line im) (\<lambda>(l, im).
        bindR (read_at 0 (lt_width im * lt_getChannels im) l) (\<lambda>l.
        bindR (write_at 0 (map from8 l) buffer) (\<lambda>buffer. Inr (Some buffer, im))))
      else if lt_bitspersample im = 16 \<and> lt_sampleformat im = SampleFormat_UINT then
        bindR (inner_line (cell_u16 gray16) strip (replicate (lt_width im * lt_getChannels im) 0) line im) (\<lambda>(l, im).
        bindR (read_at 0 (lt_width im * lt_getChannels im) l) (\<lambda>l.
        bindR (write_at 0 (map from16 l) buffer) (\<lambda>buffer. Inr (Some buffer, im))))
      else if lt_bitspersample im = 32 \<and> lt_sampleformat im = SampleFormat_FLOAT then lt_line F strip buffer line im
      else Inr (None, im))"

subsection \<open>What a file says\<close>

text \<open>
  The bytes of a strip are those of its rows. \<open>decoded\<close> is what a row is once its bits are bytes.
\<close>

definition strip_data :: "(nat \<Rightarrow> u8 list) \<Rightarrow> nat \<Rightarrow> nat \<Rightarrow> nat \<Rightarrow> u8 list" where
  "strip_data rows h rps k = concat (map rows [k * rps..<min (Suc k * rps) h])"

definition decoded :: "LibtiffImage \<Rightarrow> u8 list \<Rightarrow> u8 list" where
  "decoded im b =
     (if lt_oneTo8bits im = 0 then b else concat (map (gray_bits (lt_oneTo8bits im = 2)) b))"

definition line_size :: "LibtiffImage \<Rightarrow> nat" where
  "line_size im = lt_width im * lt_pixelSize im"

definition file_ok :: "(nat \<Rightarrow> u8 list) \<Rightarrow> strips \<Rightarrow> LibtiffImage \<Rightarrow> bool" where
  "file_ok rows strip im \<longleftrightarrow>
     (let rps = unat (lt_rowsperstrip im); h = lt_height im
      in 0 < rps \<and> (\<forall>n < h. n div rps < 65535)
       \<and> (\<forall>n < h. length (decoded im (rows n)) = line_size im)
       \<and> (\<forall>n < h. strip (n div rps) = Inr (strip_data rows h rps (n div rps)))
       \<and> lt_oneTo8bits im \<le> 2 \<and> length (lt_strip_buffer im) = rps * line_size im
       \<and> (lt_oneTo8bits im \<noteq> 0 \<longrightarrow> length (lt_oneTo8bits_buffer im) = rps * line_size im))"

text \<open>The invariant of the buffers: no strip was read yet, or the current one lies in them.\<close>

definition holds_strip :: "(nat \<Rightarrow> u8 list) \<Rightarrow> LibtiffImage \<Rightarrow> nat \<Rightarrow> bool" where
  "holds_strip rows im k \<longleftrightarrow>
     (let b = decoded im (strip_data rows (lt_height im) (unat (lt_rowsperstrip im)) k)
      in take (length b) (lt_active im) = b)"

definition cache_ok :: "(nat \<Rightarrow> u8 list) \<Rightarrow> LibtiffImage \<Rightarrow> bool" where
  "cache_ok rows im \<longleftrightarrow>
     unat (lt_current_strip im) = 65535 \<or> holds_strip rows im (unat (lt_current_strip im))"

lemma decoded_concat: "decoded im (concat xs) = concat (map (decoded im) xs)"
  by (induction xs) (auto simp: decoded_def)

lemma length_decoded: "length (decoded im b) = (if lt_oneTo8bits im = 0 then length b else 8 * length b)"
  by (induction b) (auto simp: decoded_def)

lemma block_of_concat:
  assumes "\<forall>x \<in> set xs. length x = W" "i < length xs"
  shows "take W (drop (i * W) (concat xs)) = xs ! i"
  using assms
proof (induction xs arbitrary: i)
  case (Cons x xs)
  then show ?case by (cases i) simp_all
qed simp

lemma strip_size:
  assumes "file_ok rows strip im"
  shows "length (decoded im (strip_data rows (lt_height im) (unat (lt_rowsperstrip im)) k)) =
    (min (Suc k * unat (lt_rowsperstrip im)) (lt_height im) - k * unat (lt_rowsperstrip im)) * line_size im"
proof -
  let ?ns = "[k * unat (lt_rowsperstrip im)..<min (Suc k * unat (lt_rowsperstrip im)) (lt_height im)]"
  have "length (decoded im (rows n)) = line_size im" if "n \<in> set ?ns" for n
    using that assms by (auto simp: file_ok_def Let_def)
  then have "sum_list (map (length \<circ> (decoded im \<circ> rows)) ?ns) = sum_list (map (\<lambda>_. line_size im) ?ns)"
    by (intro arg_cong [where f = sum_list] map_cong) simp_all
  then show ?thesis by (simp add: strip_data_def decoded_concat length_concat sum_list_triv comp_def)
qed

text \<open>A line in a buffer that holds its strip.\<close>

lemma held_line:
  assumes "file_ok rows strip im" "holds_strip rows im (line div unat (lt_rowsperstrip im))" "line < lt_height im"
  shows "read_at (line mod unat (lt_rowsperstrip im) * lt_width im * lt_pixelSize im) (line_size im) (lt_active im)
    = Inr (decoded im (rows line))"
proof -
  let ?rps = "unat (lt_rowsperstrip im)" and ?W = "line_size im"
  let ?k = "line div ?rps" and ?i = "line mod ?rps"
  let ?ns = "[?k * ?rps..<min (Suc ?k * ?rps) (lt_height im)]"
  let ?d = "decoded im (strip_data rows (lt_height im) ?rps ?k)"
  have rps: "0 < ?rps" using assms(1) by (simp add: file_ok_def Let_def)
  have "line < Suc ?k * ?rps" using dividend_less_div_times [OF rps, of line] by simp
  moreover have k: "?k * ?rps \<le> line" by (rule div_times_less_eq_dividend)
  moreover have i_def: "?i = line - ?k * ?rps" by (rule minus_div_mult_eq_mod [symmetric])
  ultimately have i: "?i < length ?ns" using assms(3) by (simp only: length_upt)
  have "?k * ?rps + ?i < min (Suc ?k * ?rps) (lt_height im)" using i unfolding length_upt by linarith
  from nth_upt [OF this] have n: "?ns ! ?i = line" by (simp only: div_mult_mod_eq)
  have d: "?d = concat (map (decoded im \<circ> rows) ?ns)" by (simp add: strip_data_def decoded_concat)
  have "\<forall>x \<in> set (map (decoded im \<circ> rows) ?ns). length x = ?W"
    using assms(1) by (auto simp: file_ok_def Let_def)
  from block_of_concat [OF this, of ?i] i n have b: "take ?W (drop (?i * ?W) ?d) = decoded im (rows line)"
    unfolding d by simp
  have "Suc ?i * ?W \<le> length ?ns * ?W" using i by (intro mult_le_mono1) simp
  then have len: "?i * ?W + ?W \<le> length ?d" using strip_size [OF assms(1), of ?k] by simp
  have h: "take (length ?d) (lt_active im) = ?d" using assms(2) by (simp add: holds_strip_def Let_def)
  have "length ?d \<le> length (lt_active im)" using arg_cong [OF h, of length] by simp
  then have room: "?i * ?W + ?W \<le> length (lt_active im)" using len by simp
  have "take ?W (drop (?i * ?W) (take (length ?d) (lt_active im))) = take ?W (drop (?i * ?W) (lt_active im))"
    using len by (simp add: drop_take)
  then have "take ?W (drop (?i * ?W) (lt_active im)) = decoded im (rows line)" using b h by simp
  then show ?thesis using room by (simp add: read_at_ok line_size_def mult.assoc)
qed

subsection \<open>Reading lines\<close>

text \<open>The image after a read: only the strip in memory has changed.\<close>

definition reloaded :: "u16 \<Rightarrow> u8 list \<Rightarrow> u8 list \<Rightarrow> LibtiffImage \<Rightarrow> LibtiffImage" where
  "reloaded cs sb ob im = im\<lparr>lt_current_strip := cs, lt_strip_buffer := sb, lt_oneTo8bits_buffer := ob\<rparr>"

lemma reloaded_simps [simp]:
  "lt_current_strip (reloaded cs sb ob im) = cs" "lt_strip_buffer (reloaded cs sb ob im) = sb"
  "lt_oneTo8bits_buffer (reloaded cs sb ob im) = ob" "lt_rowsperstrip (reloaded cs sb ob im) = lt_rowsperstrip im"
  "lt_width (reloaded cs sb ob im) = lt_width im" "lt_height (reloaded cs sb ob im) = lt_height im"
  "lt_pixelSize (reloaded cs sb ob im) = lt_pixelSize im" "lt_oneTo8bits (reloaded cs sb ob im) = lt_oneTo8bits im"
  "decoded (reloaded cs sb ob im) = decoded im" "line_size (reloaded cs sb ob im) = line_size im"
  "finish_line C (reloaded cs sb ob im) = finish_line C im"
  by (simp_all add: reloaded_def decoded_def line_size_def finish_line_def fun_eq_iff)

lemma reloaded_same: "reloaded (lt_current_strip im) (lt_strip_buffer im) (lt_oneTo8bits_buffer im) im = im"
  by (simp add: reloaded_def)

lemma file_ok_reloaded:
  assumes "file_ok rows strip im" "length sb = length (lt_strip_buffer im)" "length ob = length (lt_oneTo8bits_buffer im)"
  shows "file_ok rows strip (reloaded cs sb ob im)"
  using assms by (simp add: file_ok_def Let_def)

lemma load_strip_ok:
  assumes "file_ok rows strip im" "cache_ok rows im" "line < lt_height im"
  shows "\<exists>cs sb ob. load_strip strip line im = Inr (True, reloaded cs sb ob im)
    \<and> file_ok rows strip (reloaded cs sb ob im) \<and> cache_ok rows (reloaded cs sb ob im)
    \<and> holds_strip rows (reloaded cs sb ob im) (line div unat (lt_rowsperstrip im))"
proof -
  let ?rps = "unat (lt_rowsperstrip im)" and ?h = "lt_height im"
  let ?k = "line div ?rps"
  let ?data = "strip_data rows ?h ?rps ?k"
  have f: "0 < ?rps" "?k < 65535" "strip ?k = Inr ?data" "lt_oneTo8bits im \<le> 2"
    "length (lt_strip_buffer im) = ?rps * line_size im"
    "lt_oneTo8bits im \<noteq> 0 \<Longrightarrow> length (lt_oneTo8bits_buffer im) = ?rps * line_size im"
    using assms(1,3) by (simp_all add: file_ok_def Let_def)
  then have z: "lt_rowsperstrip im \<noteq> 0" by auto
  show ?thesis
  proof (cases "?k = unat (lt_current_strip im)")
    case True
    then have "holds_strip rows im ?k" using assms(2) f(2) by (simp add: cache_ok_def)
    then show ?thesis using True z assms(1,2) reloaded_same [of im]
      by (intro exI [of _ "lt_current_strip im"] exI [of _ "lt_strip_buffer im"] exI [of _ "lt_oneTo8bits_buffer im"])
        (simp add: load_strip_def)
  next
    case False
    have cs: "unat (word_of_nat ?k :: u16) = ?k" using f(2) by (intro unat_u16) simp
    have "(min (Suc ?k * ?rps) ?h - ?k * ?rps) * line_size im \<le> ?rps * line_size im"
      by (intro mult_le_mono1) simp
    then have d: "length (decoded im ?data) \<le> ?rps * line_size im" using strip_size [OF assms(1), of ?k] by simp
    then have n: "length ?data \<le> length (lt_strip_buffer im)" using f(5) by (auto simp: length_decoded split: if_splits)
    define sb where "sb = patched 0 ?data (lt_strip_buffer im)"
    have sb: "write_at 0 ?data (lt_strip_buffer im) = Inr sb" "length sb = length (lt_strip_buffer im)"
      "take (length ?data) sb = ?data" using n by (simp_all add: sb_def write_at_ok) (simp add: patched_def)
    have l: "length ?data \<le> length sb" using sb(2) n by simp
    obtain ob where ob: "strip_to_8bits (lt_oneTo8bits im) (lt_oneTo8bits_buffer im) sb (length ?data) = Inr ob" "length ob = length (lt_oneTo8bits_buffer im)"
      "lt_oneTo8bits im \<noteq> 0 \<Longrightarrow> take (length (decoded im ?data)) ob = decoded im ?data"
    proof (cases "lt_oneTo8bits im = 0")
      case False
      then have room: "8 * length ?data \<le> length (lt_oneTo8bits_buffer im)" using d f(6) by (simp add: length_decoded)
      consider "lt_oneTo8bits im = 1" | "lt_oneTo8bits im = 2" using False f(4) by linarith
      then show ?thesis
      proof cases
        case 1
        let ?ob = "concat (map (gray_bits False) ?data) @ drop (8 * length ?data) (lt_oneTo8bits_buffer im)"
        have "decoded im ?data = concat (map (gray_bits False) ?data)" using 1 by (simp add: decoded_def)
        then show ?thesis using 1 minwhiteToGray_bits [OF l room] sb(3) length_decoded [of im ?data] room
          by (intro that [of ?ob]) (simp_all add: strip_to_8bits_def)
      next
        case 2
        let ?ob = "concat (map (gray_bits True) ?data) @ drop (8 * length ?data) (lt_oneTo8bits_buffer im)"
        have "decoded im ?data = concat (map (gray_bits True) ?data)" using 2 by (simp add: decoded_def)
        then show ?thesis using 2 minblackToGray_bits [OF l room] sb(3) length_decoded [of im ?data] room
          by (intro that [of ?ob]) (simp_all add: strip_to_8bits_def)
      qed
    qed (simp add: strip_to_8bits_def)
    have load: "load_strip strip line im = Inr (True, reloaded (word_of_nat ?k) sb ob im)"
      using False z cs f(3) sb(1) ob(1) by (simp add: load_strip_def Let_def reloaded_def)
    have holds: "holds_strip rows (reloaded (word_of_nat ?k) sb ob im) ?k"
      using ob(3) sb(3) by (simp add: holds_strip_def lt_active_def decoded_def)
    then have "cache_ok rows (reloaded (word_of_nat ?k) sb ob im)" using cs by (simp add: cache_ok_def)
    then show ?thesis using load holds file_ok_reloaded [OF assms(1) sb(2) ob(2)] by blast
  qed
qed

text \<open>A line that is read is the line of the file, and the next one can be read.\<close>

lemma lt_line_ok:
  assumes "file_ok rows strip im" "cache_ok rows im" "line < lt_height im"
    "finish_line C im buffer (decoded im (rows line)) = Inr out"
  shows "\<exists>cs sb ob. lt_line C strip buffer line im = Inr (Some out, reloaded cs sb ob im)
    \<and> file_ok rows strip (reloaded cs sb ob im) \<and> cache_ok rows (reloaded cs sb ob im)"
proof -
  obtain cs sb ob where l: "load_strip strip line im = Inr (True, reloaded cs sb ob im)"
    "file_ok rows strip (reloaded cs sb ob im)" "cache_ok rows (reloaded cs sb ob im)"
    "holds_strip rows (reloaded cs sb ob im) (line div unat (lt_rowsperstrip im))"
    using load_strip_ok [OF assms(1-3)] by blast
  from held_line [OF l(2), of line] l(4) assms(3)
  have "read_at (line mod unat (lt_rowsperstrip im) * lt_width im * lt_pixelSize im) (lt_width im * lt_pixelSize im)
      (lt_active (reloaded cs sb ob im)) = Inr (decoded im (rows line))" by (simp add: line_size_def)
  then show ?thesis using l(1-3) assms(4) by (simp add: lt_line_def) blast
qed

text \<open>Lines read one after the other, in any order and as often as one likes.\<close>

fun lt_lines ::
    "'t cell \<Rightarrow> strips \<Rightarrow> 't list \<Rightarrow> nat list \<Rightarrow> LibtiffImage \<Rightarrow> fault + 't list option list \<times> LibtiffImage" where
  "lt_lines C strip buffer [] im = Inr ([], im)"
| "lt_lines C strip buffer (n # ns) im =
     bindR (lt_line C strip buffer n im) (\<lambda>(l, im). bindR (lt_lines C strip buffer ns im) (\<lambda>(ls, im). Inr (l # ls, im)))"

lemma lt_lines_ok:
  assumes "file_ok rows strip im" "cache_ok rows im" "\<forall>n \<in> set ns. n < lt_height im"
    "\<forall>n \<in> set ns. finish_line C im buffer (decoded im (rows n)) = Inr (out n)"
  shows "\<exists>cs sb ob. lt_lines C strip buffer ns im = Inr (map (\<lambda>n. Some (out n)) ns, reloaded cs sb ob im)"
  using assms
proof (induction ns arbitrary: im)
  case Nil
  show ?case using reloaded_same [of im] by (metis list.simps(8) lt_lines.simps(1))
next
  case (Cons n ns)
  obtain cs sb ob where l: "lt_line C strip buffer n im = Inr (Some (out n), reloaded cs sb ob im)"
    "file_ok rows strip (reloaded cs sb ob im)" "cache_ok rows (reloaded cs sb ob im)"
    using lt_line_ok [OF Cons.prems(1,2), of n C buffer "out n"] Cons.prems(3,4) by auto
  obtain cs' sb' ob' where
    "lt_lines C strip buffer ns (reloaded cs sb ob im) = Inr (map (\<lambda>n. Some (out n)) ns, reloaded cs' sb' ob' (reloaded cs sb ob im))"
    using Cons.IH [OF l(2,3)] Cons.prems(3,4) by auto
  then show ?case using l(1) by (auto simp: reloaded_def)
qed

subsection \<open>An opened image\<close>

lemma new_image:
  assumes "LibtiffImage_new T memory w h ch sf bps ph rps es = Inr im"
  defines "one \<equiv> bps = 1 \<and> toROK4SampleFormat T sf = SampleFormat_UINT"
  shows "lt_width im = w" "lt_height im = h" "lt_channels im = ch" "lt_sampleformat im = toROK4SampleFormat T sf"
    "lt_esType im = es" "lt_converter im = None" "lt_rowsperstrip im = word_of_int rps" "lt_current_strip im = - 1"
    "lt_bitspersample im = (if one then 8 else bps)" "lt_pixelSize im = (if one then ch else bps * ch div 8)"
    "lt_oneTo8bits im =
      (if one then if ph = PHOTOMETRIC_MINISWHITE T then 1 else if ph = PHOTOMETRIC_MINISBLACK T then 2 else 0 else 0)"
    "lt_strip_buffer im = map memory [0..<nat (int w * rps * int (lt_pixelSize im))]"
    "lt_oneTo8bits im \<noteq> 0 \<Longrightarrow> lt_oneTo8bits_buffer im = map memory [0..<nat (int w * rps * int (lt_pixelSize im))]"
  using assms(1)
  by (auto simp: LibtiffImage_new_def Let_def bindR_Inr_iff int_mul_def new_bytes_def one_def split: if_splits)

lemma unat_rowsperstrip:
  assumes "0 < rps" "rps < 65536"
  shows "unat (word_of_int rps :: u16) = nat rps"
  using assms by (simp add: unsigned_of_int take_bit_eq_mod)

lemma minus_one_strip: "unat (- 1 :: u16) = 65535"
  by (simp add: unsigned_minus_1_eq_mask mask_eq_exp_minus_1)

lemma opened_file:
  assumes "LibtiffImage_new T memory w h ch sf bps ph rps es = Inr im" "0 < rps" "rps < 65536"
    "\<forall>n < h. n div nat rps < 65535" "bps \<in> {1, 8, 16, 32}"
    "bps = 1 \<longrightarrow> toROK4SampleFormat T sf = SampleFormat_UINT \<and> ph \<in> {PHOTOMETRIC_MINISWHITE T, PHOTOMETRIC_MINISBLACK T}"
    "\<forall>n < h. 8 * length (rows n) = w * ch * bps"
    "\<forall>n < h. strip (n div nat rps) = Inr (strip_data rows h (nat rps) (n div nat rps))"
  shows "file_ok rows strip im" "cache_ok rows im" "line_size im = w * (ch * (if bps = 1 then 1 else bps div 8))"
    "decoded im b = (if bps = 1 then concat (map (gray_bits (ph \<noteq> PHOTOMETRIC_MINISWHITE T)) b) else b)"
proof -
  note n = new_image [OF assms(1)]
  have one: "bps = 1 \<and> toROK4SampleFormat T sf = SampleFormat_UINT \<longleftrightarrow> bps = 1" using assms(6) by auto
  have ps: "lt_pixelSize im = ch * (if bps = 1 then 1 else bps div 8)"
    using n(10) assms(5) unfolding one by auto
  then show size: "line_size im = w * (ch * (if bps = 1 then 1 else bps div 8))" using n(1) by (simp add: line_size_def)
  have to8: "lt_oneTo8bits im = (if bps = 1 then if ph = PHOTOMETRIC_MINISWHITE T then 1 else 2 else 0)"
    using n(11) assms(6) unfolding one by auto
  then show d: "decoded im b = (if bps = 1 then concat (map (gray_bits (ph \<noteq> PHOTOMETRIC_MINISWHITE T)) b) else b)" for b
    by (auto simp: decoded_def)
  have rps: "unat (lt_rowsperstrip im) = nat rps" using n(7) assms(2,3) by (simp add: unat_rowsperstrip)
  have "nat (int w * rps * int (lt_pixelSize im)) = nat rps * line_size im"
    using assms(2) by (simp add: line_size_def n(1) nat_mult_distrib)
  then have buffers: "length (lt_strip_buffer im) = nat rps * line_size im"
    "lt_oneTo8bits im \<noteq> 0 \<Longrightarrow> length (lt_oneTo8bits_buffer im) = nat rps * line_size im"
    using n(12,13) by simp_all
  have "length (decoded im (rows k)) = line_size im" if "k < h" for k
  proof -
    have r: "8 * length (rows k) = w * ch * bps" using assms(7) that by simp
    show ?thesis using r assms(5) unfolding length_decoded size to8 by auto
  qed
  then show "file_ok rows strip im"
    using assms(2,4,8) buffers to8 by (auto simp: file_ok_def Let_def rps n(2))
  show "cache_ok rows im" using n(8) by (simp add: cache_ok_def minus_one_strip)
qed

lemma length_cells: "length (cells C b) = length b div cell_size C"
  by (simp add: cells_def)

lemma cells_u8 [simp]: "cells (cell_u8 gray) b = b"
  by (rule nth_equalityI) (simp_all add: cells_def cell_u8_def pixel_def hd_drop_conv_nth take_Suc hd_conv_nth)

lemma cell_u8_size: "cell_size (cell_u8 gray) = 1"
  by (simp add: cell_u8_def)

lemma finish_plain:
  assumes "lt_esType im \<noteq> ALPHA_ASSOC" "lt_converter im = None" "length b div cell_size C = length buffer"
  shows "finish_line C im buffer b = Inr (cells C b)"
  using assms by (simp add: finish_line_def write_all length_cells)

text \<open>Values of TIFF 6.0, and new images that can be made.\<close>

definition tiff6_read :: tiff_h_read where
  "tiff6_read = tiff_h.extend tiff6 (tiff_h_read.fields 0 1)"

lemma new_example:
  assumes "bps = 1 \<or> bps = 8" "0 < rps" "int w * rps < 2 ^ 31" "int w * rps * int ch < 2 ^ 31"
  shows "\<exists>im. LibtiffImage_new tiff6_read memory w h ch 1 bps 1 rps es = Inr im"
proof -
  have p: "0 \<le> int w * rps" "0 \<le> int w * rps * int ch" using assms(2) by simp_all
  have "- (2 ^ 31) \<le> int w * rps" by (rule order_trans [OF _ p(1)]) simp
  moreover have "- (2 ^ 31) \<le> int w * rps * int ch" by (rule order_trans [OF _ p(2)]) simp
  ultimately have "int_mul (int w) rps = Inr (int w * rps)" "int_mul (int w * rps) (int ch) = Inr (int w * rps * int ch)"
    using assms(3,4) by (simp_all only: int_mul_def if_True simp_thms)
  moreover have "\<not> int w * rps * int ch < 0" using p(2) by linarith
  moreover have "toROK4SampleFormat tiff6_read 1 = SampleFormat_UINT"
    by (simp add: toROK4SampleFormat_def tiff6_read_def tiff6_def tiff_h.defs)
  ultimately show ?thesis using assms(1)
    by (elim disjE) (simp_all add: LibtiffImage_new_def Let_def new_bytes_def)
qed

lemma tiff6_read_simps:
  "toROK4SampleFormat tiff6_read 1 = SampleFormat_UINT" "PHOTOMETRIC_MINISBLACK tiff6_read = 1" "PHOTOMETRIC_MINISWHITE tiff6_read = 0"
  by (simp_all add: toROK4SampleFormat_def tiff6_read_def tiff6_def tiff_h.defs tiff_h_read.defs)

subsection \<open>Correctness\<close>

text \<open>
  C6: the lines of an opened file, asked for in any order and as often as one likes, are the rows of
  the file, with bits made to bytes, and no buffer is read or written out of its bounds. The file has at
  most 65535 strips, fewer than 65536 rows in a strip, and rows of whole bytes.
\<close>

theorem lines_of_file:
  assumes "LibtiffImage_new T memory w h ch sf bps ph rps es = Inr im" "0 < rps" "rps < 65536"
    "\<forall>n < h. n div nat rps < 65535" "bps \<in> {1, 8, 16, 32}"
    "bps = 1 \<longrightarrow> toROK4SampleFormat T sf = SampleFormat_UINT \<and> ph \<in> {PHOTOMETRIC_MINISWHITE T, PHOTOMETRIC_MINISBLACK T}"
    "\<forall>n < h. 8 * length (rows n) = w * ch * bps"
    "\<forall>n < h. strip (n div nat rps) = Inr (strip_data rows h (nat rps) (n div nat rps))"
    "cell_size C = (if bps = 1 then 1 else bps div 8)" "es \<noteq> ALPHA_ASSOC" "\<forall>n \<in> set ns. n < h" "length buffer = w * ch"
  shows "\<exists>im'. lt_lines C strip buffer ns im =
    Inr (map (\<lambda>n. Some (cells C (if bps = 1 then concat (map (gray_bits (ph \<noteq> PHOTOMETRIC_MINISWHITE T)) (rows n)) else rows n))) ns, im')"
proof -
  note f = opened_file [OF assms(1-8)] and n = new_image [OF assms(1)]
  have "finish_line C im buffer (decoded im (rows k)) = Inr (cells C (decoded im (rows k)))" if "k \<in> set ns" for k
  proof (rule finish_plain)
    have "length (decoded im (rows k)) = line_size im"
      using f(1) that assms(11) by (simp add: file_ok_def Let_def n(2))
    then show "length (decoded im (rows k)) div cell_size C = length buffer"
      using f(3) assms(5,9,12) by (auto simp: mult.assoc [symmetric])
  qed (use n(5,6) assms(10) in simp_all)
  then show ?thesis
    using lt_lines_ok [OF f(1,2), of ns C buffer "\<lambda>k. cells C (decoded im (rows k))"] assms(11) n(2) by (auto simp: f(4))
qed

theorem lines_of_file_witness:
  "\<exists>im im'. LibtiffImage_new tiff6_read (\<lambda>i. of_nat i) 8 3 1 1 1 1 2 ExtraSample_UNKNOWN = Inr im
    \<and> lt_lines (cell_u8 (\<lambda>r g b. r)) (\<lambda>k. Inr (strip_data (\<lambda>n. [of_nat n + 5]) 3 2 k)) (replicate 8 0) [2, 0, 1, 0] im
      = Inr (map (\<lambda>n. Some (cells (cell_u8 (\<lambda>r g b. r)) (gray_bits True (of_nat n + 5)))) [2, 0, 1, 0], im')"
proof -
  obtain im where im: "LibtiffImage_new tiff6_read (\<lambda>i. of_nat i) 8 3 1 1 1 1 2 ExtraSample_UNKNOWN = Inr im"
    using new_example [of 1 2 8 1 "\<lambda>i. of_nat i" 3 ExtraSample_UNKNOWN] by auto
  have "\<exists>im'. lt_lines (cell_u8 (\<lambda>r g b. r)) (\<lambda>k. Inr (strip_data (\<lambda>n. [of_nat n + 5]) 3 2 k)) (replicate 8 0) [2, 0, 1, 0] im =
    Inr (map (\<lambda>n. Some (cells (cell_u8 (\<lambda>r g b. r)) (if (1 :: nat) = 1 then concat (map (gray_bits ((1 :: u16) \<noteq> PHOTOMETRIC_MINISWHITE tiff6_read)) [of_nat n + 5])
      else [of_nat n + 5]))) [2, 0, 1, 0], im')"
    by (rule lines_of_file [OF im]) (auto simp: tiff6_read_simps cell_u8_def)
  then show ?thesis using im by (simp add: tiff6_read_simps)
qed

subsection \<open>Errors\<close>

lemma first_load:
  assumes "lt_current_strip im = - 1" "unat (lt_rowsperstrip im) = r" "0 < r" "line div r < 65535"
  shows "load_strip strip line im =
    (case strip (line div r) of
       Inl left \<Rightarrow> bindR (write_at 0 left (lt_strip_buffer im)) (\<lambda>sb.
         Inr (False, im\<lparr>lt_current_strip := word_of_nat (line div r), lt_strip_buffer := sb\<rparr>))
     | Inr data \<Rightarrow> bindR (write_at 0 data (lt_strip_buffer im)) (\<lambda>sb.
         bindR (strip_to_8bits (lt_oneTo8bits im) (lt_oneTo8bits_buffer im) sb (length data)) (\<lambda>ob.
         Inr (True, reloaded (word_of_nat (line div r)) sb ob im))))"
proof -
  have "unat (word_of_nat (line div r) :: u16) = line div r" using assms(4) by (intro unat_u16) simp
  moreover have "lt_rowsperstrip im \<noteq> 0" using assms(2,3) by auto
  ultimately show ?thesis using assms
    by (simp add: load_strip_def minus_one_strip reloaded_def Let_def split: sum.split)
qed

text \<open>
  C40: an image of one bit whose rows do not fill their last byte overflows the buffer of the converted
  strip when its first line is read: a row has \<open>(w * ch + 7) div 8\<close> bytes, each of which becomes eight.
\<close>

theorem one_bit_overflow:
  assumes "LibtiffImage_new T memory w h ch sf 1 ph rps es = Inr im" "0 < rps" "rps < 65536"
    "toROK4SampleFormat T sf = SampleFormat_UINT" "ph \<in> {PHOTOMETRIC_MINISWHITE T, PHOTOMETRIC_MINISBLACK T}"
    "w * ch mod 8 \<noteq> 0" "strip 0 = Inr data" "length data = nat rps * ((w * ch + 7) div 8)"
  shows "lt_getline_u8 gray8 gray16 F strip buffer 0 im = Inl BufferOverflow"
proof -
  note n = new_image [OF assms(1)]
  have to8: "lt_oneTo8bits im \<in> {1, 2}" and ps: "lt_pixelSize im = ch"
    using n(10,11) assms(4,5) by auto
  have rps: "unat (lt_rowsperstrip im) = nat rps" using n(7) assms(2,3) by (simp add: unat_rowsperstrip)
  have sz: "nat (int w * rps * int (lt_pixelSize im)) = nat rps * (w * ch)"
    using assms(2) by (simp add: ps nat_mult_distrib)
  have len: "length (lt_strip_buffer im) = nat rps * (w * ch)" "length (lt_oneTo8bits_buffer im) = nat rps * (w * ch)"
    using n(12,13) to8 sz by auto
  have "(w * ch + 7) div 8 \<le> w * ch" using assms(6) by (cases "w * ch") auto
  then have fits: "length data \<le> nat rps * (w * ch)" using assms(8) by simp
  have "w * ch < 8 * ((w * ch + 7) div 8)" using assms(6) by presburger
  then have "nat rps * (w * ch) < nat rps * (8 * ((w * ch + 7) div 8))" using assms(2) by simp
  then have over: "nat rps * (w * ch) < 8 * length data" using assms(8) by (simp add: ac_simps)
  have "toGray table (lt_oneTo8bits_buffer im) (patched 0 data (lt_strip_buffer im)) (length data) = Inl BufferOverflow"
    if "\<And>b. elem table (unat b) = Inr (gray_bits one b)" for table one
    using fits over len by (intro toGray_overflow [OF that]) simp_all
  from this [OF gray_row(1)] this [OF gray_row(2)] to8
  have "strip_to_8bits (lt_oneTo8bits im) (lt_oneTo8bits_buffer im) (patched 0 data (lt_strip_buffer im)) (length data) = Inl BufferOverflow"
    by (auto simp: strip_to_8bits_def minblackToGray_def minwhiteToGray_def)
  then have "load_strip strip 0 im = Inl BufferOverflow"
    using first_load [OF n(8) rps, of 0 strip] assms(2,7) fits len(1) by (simp add: write_at_ok)
  then show ?thesis using n(4,9) assms(4) by (simp add: lt_getline_u8_def lt_line_def)
qed

theorem one_bit_overflow_witness:
  "\<exists>im. LibtiffImage_new tiff6_read (\<lambda>i. of_nat i) 4 2 1 1 1 1 2 ExtraSample_UNKNOWN = Inr im
    \<and> lt_getline_u8 (\<lambda>r g b. r) (\<lambda>r g b. r) (cell_u8 (\<lambda>r g b. r)) (\<lambda>k. Inr [1, 2]) (replicate 4 0) 0 im = Inl BufferOverflow"
proof -
  obtain im where im: "LibtiffImage_new tiff6_read (\<lambda>i. of_nat i) 4 2 1 1 1 1 2 ExtraSample_UNKNOWN = Inr im"
    using new_example [of 1 2 4 1 "\<lambda>i. of_nat i" 2 ExtraSample_UNKNOWN] by auto
  have "lt_getline_u8 (\<lambda>r g b. r) (\<lambda>r g b. r) (cell_u8 (\<lambda>r g b. r)) (\<lambda>k. Inr [1, 2]) (replicate 4 0) 0 im = Inl BufferOverflow"
    by (rule one_bit_overflow [OF im, where data = "[1, 2]"]) (simp_all add: tiff6_read_simps)
  with im show ?thesis by blast
qed

text \<open>
  C39: when libtiff cannot read a strip, only the first line that is asked for tells so. The next ones of
  this strip are answered with success, from what libtiff had put into the buffer before it failed and,
  behind it, what was there before: in a new image the content of its memory.
\<close>

theorem failed_strip_served:
  assumes "LibtiffImage_new T memory w h ch sf 8 ph rps es = Inr im" "0 < rps" "rps < 65536"
    "toROK4SampleFormat T sf = SampleFormat_UINT" "line div nat rps < 65535" "strip (line div nat rps) = Inl part"
    "length part \<le> nat rps * (w * ch)" "next div nat rps = line div nat rps" "es \<noteq> ALPHA_ASSOC" "length buffer = w * ch"
  shows "\<exists>im'. lt_getline_u8 gray8 gray16 F strip buffer line im = Inr (None, im')
    \<and> lt_getline_u8 gray8 gray16 F strip buffer next im' =
        Inr (Some (pixel (w * ch) (next mod nat rps) (part @ map memory [length part..<nat rps * (w * ch)])), im')"
proof -
  note n = new_image [OF assms(1)]
  let ?r = "nat rps" and ?sb = "part @ map memory [length part..<nat rps * (w * ch)]"
  let ?im = "im\<lparr>lt_current_strip := word_of_nat (line div nat rps), lt_strip_buffer := ?sb\<rparr>"
  have rps: "unat (lt_rowsperstrip im) = ?r" using n(7) assms(2,3) by (simp add: unat_rowsperstrip)
  have ps: "lt_pixelSize im = ch" and bps: "lt_bitspersample im = 8" and to8: "lt_oneTo8bits im = 0" using n(9-11) by auto
  have sb: "lt_strip_buffer im = map memory [0..<?r * (w * ch)]"
    using n(12) assms(2) by (simp add: ps nat_mult_distrib ac_simps)
  have wr: "write_at 0 part (lt_strip_buffer im) = Inr ?sb"
    using assms(7) by (simp add: sb write_at_def drop_map)
  have cs: "unat (word_of_nat (line div ?r) :: u16) = line div ?r" using assms(5) by (intro unat_u16) simp
  have z: "lt_rowsperstrip im \<noteq> 0" using rps assms(2) by auto
  have one: "load_strip strip line im = Inr (False, ?im)"
    using first_load [OF n(8) rps _ assms(5), of strip] assms(2,6) wr by simp
  have two: "load_strip strip next ?im = Inr (True, ?im)" using z rps cs assms(8) by (simp add: load_strip_def)
  have "next mod ?r < ?r" using assms(2) by simp
  then have "Suc (next mod ?r) * (w * ch) \<le> ?r * (w * ch)" by (intro mult_le_mono1) simp
  moreover have "length ?sb = ?r * (w * ch)" using assms(7) by simp
  ultimately have room: "next mod ?r * w * ch + w * ch \<le> length ?sb" by (simp add: mult.assoc)
  let ?l = "pixel (w * ch) (next mod ?r) ?sb"
  have "read_at (next mod ?r * w * ch) (w * ch) (lt_active ?im) = Inr ?l"
    using read_at_ok [OF room] by (simp add: lt_active_def to8 pixel_def ac_simps)
  moreover have "length (pixel k i b) = k" if "k * i + k \<le> length b" for k i and b :: "u8 list"
    using that by (simp add: pixel_def)
  from this [of "w * ch" "next mod ?r" ?sb] room have "length ?l = w * ch" by (simp only: ac_simps)
  then have "finish_line (cell_u8 gray8) ?im buffer ?l = Inr ?l"
    using assms(9,10) n(5,6) finish_plain [of ?im ?l "cell_u8 gray8" buffer] by (simp add: cell_u8_size)
  ultimately show ?thesis
    using one two n(1,4) bps ps rps assms(4) by (simp add: lt_getline_u8_def lt_line_def)
qed

theorem failed_strip_served_witness:
  "\<exists>im im'. LibtiffImage_new tiff6_read (\<lambda>i. of_nat i + 7) 2 2 1 1 8 1 2 ExtraSample_UNKNOWN = Inr im
    \<and> lt_getline_u8 (\<lambda>r g b. r) (\<lambda>r g b. r) (cell_u8 (\<lambda>r g b. r)) (\<lambda>k. Inl [1, 2, 3]) [0, 0] 0 im = Inr (None, im')
    \<and> lt_getline_u8 (\<lambda>r g b. r) (\<lambda>r g b. r) (cell_u8 (\<lambda>r g b. r)) (\<lambda>k. Inl [1, 2, 3]) [0, 0] 1 im' = Inr (Some [3, 10], im')"
proof -
  obtain im where im: "LibtiffImage_new tiff6_read (\<lambda>i. of_nat i + 7) 2 2 1 1 8 1 2 ExtraSample_UNKNOWN = Inr im"
    using new_example [of 8 2 2 1 "\<lambda>i. of_nat i + 7" 2 ExtraSample_UNKNOWN] by auto
  have "\<exists>im'. lt_getline_u8 (\<lambda>r g b. r) (\<lambda>r g b. r) (cell_u8 (\<lambda>r g b. r)) (\<lambda>k. Inl [1, 2, 3]) [0, 0] 0 im = Inr (None, im')
    \<and> lt_getline_u8 (\<lambda>r g b. r) (\<lambda>r g b. r) (cell_u8 (\<lambda>r g b. r)) (\<lambda>k. Inl [1, 2, 3]) [0, 0] 1 im' =
        Inr (Some (pixel (2 * 1) (1 mod nat 2) ([1, 2, 3] @ map (\<lambda>i. of_nat i + 7) [length [1, 2, 3 :: u8]..<nat 2 * (2 * 1)])), im')"
    by (rule failed_strip_served [OF im]) (simp_all add: tiff6_read_simps)
  moreover have "pixel (2 * 1) (1 mod nat 2) ([1, 2, 3] @ map (\<lambda>i. of_nat i + 7) [length [1, 2, 3 :: u8]..<nat 2 * (2 * 1)]) = [3, 10 :: u8]"
    by code_simp
  ultimately show ?thesis using im by auto
qed

lemma load_strip_rows:
  assumes "load_strip strip line im = Inr (ok, im')"
  shows "lt_rowsperstrip im' = lt_rowsperstrip im"
  using assms by (auto simp: load_strip_def Let_def bindR_Inr_iff split: if_splits sum.splits)

text \<open>
  The number of the current strip has 16 bits. The lines of strip 65535 of a new image are taken from
  memory that was never written, and those of the strips after it are read from the beginning of the file.
\<close>

theorem late_strips_wrong:
  assumes "LibtiffImage_new T memory w h ch sf bps ph rps es = Inr im" "0 < rps" "rps < 65536"
  shows "(line div nat rps = 65535 \<longrightarrow> load_strip strip line im = Inr (True, im))
    \<and> (line div nat rps = 65536 + j \<and> j < 65535 \<longrightarrow>
         lt_line C strip buffer line im = lt_line C strip buffer (line - 65536 * nat rps) im)"
proof (rule conjI)
  note n = new_image [OF assms(1)]
  let ?r = "nat rps"
  have rps: "unat (lt_rowsperstrip im) = ?r" using n(7) assms(2,3) by (simp add: unat_rowsperstrip)
  have z: "lt_rowsperstrip im \<noteq> 0" using rps assms(2) by auto
  show "line div nat rps = 65535 \<longrightarrow> load_strip strip line im = Inr (True, im)"
    using rps z n(8) by (simp add: load_strip_def minus_one_strip)
  show "line div nat rps = 65536 + j \<and> j < 65535 \<longrightarrow> lt_line C strip buffer line im = lt_line C strip buffer (line - 65536 * nat rps) im"
  proof (intro impI, elim conjE)
    assume k: "line div ?r = 65536 + j" and j: "j < 65535"
    have "65536 * ?r \<le> line div ?r * ?r" unfolding k by (intro mult_le_mono1) simp
    also have "\<dots> \<le> line" by (rule div_times_less_eq_dividend)
    finally have le: "65536 * ?r \<le> line" .
    have m: "(line - 65536 * ?r) mod ?r = line mod ?r" "(line - 65536 * ?r) div ?r = j"
      using k le assms(2) div_mult_self1 [of ?r "line - 65536 * ?r" 65536] mod_mult_self1 [of "line - 65536 * ?r" 65536 ?r]
      by (simp_all add: mult.commute)
    have w: "(word_of_nat (65536 + j) :: u16) = word_of_nat j"
      unfolding word_of_nat_eq_iff by (simp add: take_bit_eq_mod)
    have "load_strip strip line im = load_strip strip (line - 65536 * ?r) im"
      using rps z n(8) k m(2) j unfolding load_strip_def k m(2) rps w
      by (simp add: minus_one_strip Let_def)
    then show "lt_line C strip buffer line im = lt_line C strip buffer (line - 65536 * ?r) im"
      unfolding lt_line_def using load_strip_rows [of strip "line - 65536 * ?r" im] m(1) rps
      by (cases "load_strip strip (line - 65536 * ?r) im") auto
  qed
qed

theorem late_strips_wrong_witness:
  "\<exists>im. LibtiffImage_new tiff6_read (\<lambda>i. of_nat i) 1 70000 1 1 8 1 1 ExtraSample_UNKNOWN = Inr im
    \<and> load_strip (\<lambda>k. Inr [of_nat k]) 65535 im = Inr (True, im)
    \<and> lt_line (cell_u8 (\<lambda>r g b. r)) (\<lambda>k. Inr [of_nat k]) [0] 65537 im = lt_line (cell_u8 (\<lambda>r g b. r)) (\<lambda>k. Inr [of_nat k]) [0] 1 im"
proof -
  obtain im where im: "LibtiffImage_new tiff6_read (\<lambda>i. of_nat i) 1 70000 1 1 8 1 1 ExtraSample_UNKNOWN = Inr im"
    using new_example [of 8 1 1 1 "\<lambda>i. of_nat i" 70000 ExtraSample_UNKNOWN] by auto
  have "load_strip (\<lambda>k. Inr [of_nat k]) 65535 im = Inr (True, im)"
    using late_strips_wrong [OF im, of 65535 "\<lambda>k. Inr [of_nat k]"] by simp
  moreover have "lt_line (cell_u8 (\<lambda>r g b. r)) (\<lambda>k. Inr [of_nat k]) [0] 65537 im
      = lt_line (cell_u8 (\<lambda>r g b. r)) (\<lambda>k. Inr [of_nat k]) [0] 1 im"
    using late_strips_wrong [OF im, of 65537 "\<lambda>k. Inr [of_nat k]" 1 "cell_u8 (\<lambda>r g b. r)" "[0]"] by simp
  ultimately show ?thesis using im by blast
qed

text \<open>
  A file whose number of rows per strip is the default of TIFF, 2^32 - 1 for a single strip, cannot
  be opened: the number is -1 as an \<open>int\<close> and so is the sign of the size of the buffer. With 65536 rows
  the image is made, but its 16 bit number of rows is 0 and the first line divides by it.
\<close>

definition plain_file :: "tiff_h_read \<Rightarrow> nat \<Rightarrow> nat \<Rightarrow> nat \<Rightarrow> u16 \<Rightarrow> u32 \<Rightarrow> tiff_fields" where
  "plain_file T w h ch ph r =
     \<lparr>tf_width = Some w, tf_height = Some h, tf_channels = Some ch, tf_planarconfig = Some (PLANARCONFIG_CONTIG T),
      tf_bitspersample = Some 8, tf_sampleformat = None, tf_photometric = Some ph, tf_compression = Some 1,
      tf_rowsperstrip = Some r, tf_extrasamples = None\<rparr>"

theorem rows_per_strip_limits:
  assumes "libtiff_photometric T ph \<noteq> Photometric_UNKNOWN" "consistent w h" "0 < w" "0 < ch" "w * 65536 * ch < 2 ^ 31"
  shows "createLibtiffImageToRead T memory consistent (Some (plain_file T w h ch ph (- 1))) = Inl NegativeSize
    \<and> (\<exists>im. createLibtiffImageToRead T memory consistent (Some (plain_file T w h ch ph 65536)) = Inr (Some im)
          \<and> lt_getline_u8 gray8 gray16 F strip buffer line im = Inl DivisionByZero)"
proof -
  have sf: "toROK4SampleFormat T (SAMPLEFORMAT_UINT T) = SampleFormat_UINT" by (simp add: toROK4SampleFormat_def)
  have opened: "createLibtiffImageToRead T memory consistent (Some (plain_file T w h ch ph r)) =
      bindR (LibtiffImage_new T memory w h ch (SAMPLEFORMAT_UINT T) 8 ph (sint r) ExtraSample_UNKNOWN) (\<lambda>im. Inr (Some im))" for r
    using assms(1,2) by (simp add: createLibtiffImageToRead_def plain_file_def default_sampleformat_def libtiff_canRead_def sf)
  have "w * ch \<le> w * 65536 * ch" by simp
  then have wc: "w * ch < 2 ^ 31" using assms(5) by linarith
  have "w * 65536 \<le> w * 65536 * ch" "w \<le> w * ch" using assms(4) by simp_all
  then have w: "w * 65536 < 2 ^ 31" "w < 2 ^ 31" using assms(5) wc by linarith+
  have minus: "int_mul (int w) (- 1) = Inr (- int w)" "int_mul (- int w) (int ch) = Inr (- int (w * ch))"
    using w(2) wc by (simp_all add: int_mul_def flip: of_nat_mult)
  have plus: "int_mul (int w) 65536 = Inr (int (w * 65536))" "int_mul (int (w * 65536)) (int ch) = Inr (int (w * 65536 * ch))"
    using w(1) assms(5) by (simp_all add: int_mul_def flip: of_nat_mult)
  have nonneg: "\<not> int ch * int w < 0" by (simp flip: of_nat_mult)
  have neg: "- int (w * ch) < 0" using assms(3,4) by simp
  have "LibtiffImage_new T memory w h ch (SAMPLEFORMAT_UINT T) 8 ph (- 1) ExtraSample_UNKNOWN = Inl NegativeSize"
    unfolding LibtiffImage_new_def Let_def minus(1) bindR.simps
    using neg by (simp add: minus(2) new_bytes_def)
  then have fails: "createLibtiffImageToRead T memory consistent (Some (plain_file T w h ch ph (- 1))) = Inl NegativeSize"
    using opened [of "- 1"] by simp
  have "\<exists>im. LibtiffImage_new T memory w h ch (SAMPLEFORMAT_UINT T) 8 ph 65536 ExtraSample_UNKNOWN = Inr im"
    unfolding LibtiffImage_new_def Let_def plus(1) bindR.simps
    using plus(2) nonneg by (simp add: new_bytes_def)
  then obtain im where im: "LibtiffImage_new T memory w h ch (SAMPLEFORMAT_UINT T) 8 ph 65536 ExtraSample_UNKNOWN = Inr im"
    by blast
  have "sint (65536 :: u32) = 65536" by simp
  then have "createLibtiffImageToRead T memory consistent (Some (plain_file T w h ch ph 65536)) = Inr (Some im)"
    using opened [of 65536] im by simp
  moreover have "lt_rowsperstrip im = 0" using new_image(7) [OF im] by simp
  then have "lt_getline_u8 gray8 gray16 F strip buffer line im = Inl DivisionByZero"
    using new_image(4,9) [OF im] sf by (simp add: lt_getline_u8_def lt_line_def load_strip_def)
  ultimately show ?thesis using fails by blast
qed

theorem rows_per_strip_limits_witness:
  "createLibtiffImageToRead tiff6_read (\<lambda>i. 0) (\<lambda>w h. True) (Some (plain_file tiff6_read 20 30 3 2 (- 1))) = Inl NegativeSize"
proof -
  have "libtiff_photometric tiff6_read 2 \<noteq> Photometric_UNKNOWN"
    by (simp add: libtiff_photometric_def tiff6_read_def tiff6_def tiff_h.defs tiff_h_read.defs)
  from rows_per_strip_limits [OF this, of "\<lambda>w h. True" 20 30 3 "\<lambda>i. 0" "\<lambda>r g b. r" "\<lambda>r g b. r" "cell_u8 (\<lambda>r g b. r)"] show ?thesis by simp
qed

subsection \<open>Alpha and channels\<close>

text \<open>A loop that replaces each pixel by another one.\<close>

lemma pixels_replaced:
  assumes "length to = k * n" "\<And>i. i < n \<Longrightarrow> length (g i) = k"
    "\<And>i s. i < n \<Longrightarrow> length s = k * n \<Longrightarrow> pixel k i s = pixel k i to \<Longrightarrow> body i s = Inr (patched (k * i) (g i) s)"
  shows "\<exists>s. foldR body [0..<n] to = Inr s \<and> length s = k * n \<and> (\<forall>i < n. pixel k i s = g i)"
proof -
  let ?I = "\<lambda>i s. length s = k * n \<and> (\<forall>p < n. pixel k p s = (if p < i then g p else pixel k p to))"
  have "\<exists>s'. foldR body [0..<n] to = Inr s' \<and> ?I n s'"
  proof (rule foldR_upt [where I = ?I])
    fix i s assume i: "i < n" and s: "?I i s"
    have room: "k * i + length (g i) \<le> length s" using pixel_room [OF i, of k] s assms(2) [OF i] by simp
    have "body i s = Inr (patched (k * i) (g i) s)" using assms(3) i s by simp
    moreover have "pixel k p (patched (k * i) (g i) s) = (if p = i then g i else pixel k p s)" if "p < n" for p
      using pixel_patched [OF i that _ assms(2) [OF i]] s by simp
    ultimately show "\<exists>s'. body i s = Inr s' \<and> ?I (Suc i) s'" using s room by (auto simp: less_Suc_eq)
  qed (use assms(1) in simp)
  then show ?thesis by auto
qed

lemma patched_pixel:
  assumes "p < w" "length buf = n * w"
  shows "patched (n * p) (pixel n p buf) buf = buf"
proof -
  have "n * p + n \<le> length buf" using pixel_room [OF assms(1), of n] assms(2) by simp
  then have "drop (n * p) buf = pixel n p buf @ drop (n * p + n) buf"
    by (simp add: pixel_def) (metis add.commute append_take_drop_id drop_drop)
  then show ?thesis using length_pixel [OF assms]
    by (simp add: patched_def) (metis append_take_drop_id)
qed

text \<open>What becomes of a pixel with alpha: its colours times 255, by alpha.\<close>

definition unassociated :: "u8 list \<Rightarrow> u8 list" where
  "unassociated p =
     (if last p = 255 then p else if last p = 0 then replicate (length p) 0
      else map (\<lambda>v. word_of_int (uint v * 255 div uint (last p))) (butlast p) @ [last p])"

lemma u8_scale: "cell_scale (cell_u8 gray) p a = Inr (word_of_int (uint p * 255 div uint a))"
proof -
  have "- (2 ^ 31) \<le> uint p * 255" by (rule order_trans [of _ 0]) simp_all
  moreover have "uint p * 255 < 2 ^ 31" using uint_lt2p [of p] by simp
  ultimately have "int_mul (uint p) 255 = Inr (uint p * 255)" unfolding int_mul_def by simp
  then show ?thesis by (simp add: cell_u8_def)
qed

lemma unassociate_pixel_ok:
  assumes "i < w" "0 < ch" "length s = ch * w"
  shows "unassociate_pixel (cell_u8 gray) ch i s = Inr (patched (ch * i) (unassociated (pixel ch i s)) s)"
proof -
  let ?p = "pixel ch i s"
  have l: "length ?p = ch" using length_pixel [OF assms(1,3)] by simp
  have room: "ch * i + ch \<le> length s" using pixel_room [OF assms(1), of ch] assms(3) by simp
  have at: "s ! (ch * i + c) = ?p ! c" if "c < ch" for c using nth_pixel [OF assms(1,3) that] by simp
  have "?p \<noteq> []" using l assms(2) by auto
  then have last: "last ?p = ?p ! (ch - 1)" using l by (simp add: last_conv_nth)
  have alpha: "elem s (i * ch + (ch - 1)) = Inr (last ?p)"
    using at [of "ch - 1"] room assms(2) last by (simp add: elem_ok mult.commute)
  consider "last ?p = 255" | "last ?p \<noteq> 255" "last ?p = 0" | "last ?p \<noteq> 255" "last ?p \<noteq> 0" by blast
  then show ?thesis
  proof cases
    case 1
    then show ?thesis using alpha patched_pixel [OF assms(1,3)]
      by (simp add: unassociate_pixel_def unassociated_def cell_u8_def)
  next
    case 2
    have "cell_bytes (cell_u8 gray) ?p = ?p" by (simp add: cell_bytes_def cell_u8_def)
    moreover have "read_at (i * ch) ch s = Inr ?p" using room by (simp add: read_at_ok pixel_def mult.commute)
    ultimately have "bindR (read_at (i * ch) ch s)
        (\<lambda>px. write_at (i * ch) (cells (cell_u8 gray) (replicate ch 0 @ drop ch (cell_bytes (cell_u8 gray) px))) s)
      = Inr (patched (ch * i) (replicate ch 0) s)"
      using l room by (simp add: write_at_ok mult.commute)
    then show ?thesis using 2 alpha l
      unfolding unassociate_pixel_def unassociated_def Let_def by (simp add: cell_u8_def)
  next
    case 3
    let ?f = "\<lambda>c. word_of_int (uint (?p ! c) * 255 div uint (last ?p)) :: u8"
    have "\<exists>s'. foldR (\<lambda>c buffer. bindR (elem buffer (i * ch + c)) (\<lambda>p.
          bindR (cell_scale (cell_u8 gray) p (last ?p)) (\<lambda>v. put_at (i * ch + c) v buffer))) [0..<ch - 1] s = Inr s'
        \<and> s' = patched (i * ch) (map ?f [0..<ch - 1]) s"
    proof (rule foldR_upt [where I = "\<lambda>c s'. s' = patched (i * ch) (map ?f [0..<c]) s"])
      fix c s' assume c: "c < ch - 1" and s': "s' = patched (i * ch) (map ?f [0..<c]) s"
      have r: "i * ch + length (map ?f [0..<c]) < length s" using c room by (simp add: mult.commute)
      have "s' ! (i * ch + c) = ?p ! c" using s' r c at [of c] by (simp add: nth_patched mult.commute)
      then have "elem s' (i * ch + c) = Inr (?p ! c)" using s' r by (simp add: elem_ok)
      then show "\<exists>s''. bindR (elem s' (i * ch + c)) (\<lambda>p. bindR (cell_scale (cell_u8 gray) p (last ?p)) (\<lambda>v. put_at (i * ch + c) v s')) = Inr s''
          \<and> s'' = patched (i * ch) (map ?f [0..<Suc c]) s"
        using put_patched [OF r, of "?f c"] by (simp add: u8_scale s')
    qed simp
    moreover have "patched (i * ch) (map ?f [0..<ch - 1]) s = patched (ch * i) (unassociated ?p) s"
    proof -
      have "butlast ?p = map ((!) ?p) [0..<ch - 1]" using l by (intro nth_equalityI) (simp_all add: nth_butlast)
      then have u: "unassociated ?p = map ?f [0..<ch - 1] @ [last ?p]" using 3 by (simp add: unassociated_def)
      have "drop (ch * i + (ch - 1)) s = last ?p # drop (ch * i + ch) s"
        using at [of "ch - 1"] last room assms(2) Cons_nth_drop_Suc [of "ch * i + (ch - 1)" s] by simp
      then show ?thesis using assms(2) by (simp add: u patched_def mult.commute)
    qed
    ultimately show ?thesis using 3 alpha
      unfolding unassociate_pixel_def Let_def by (simp add: cell_u8_def)
  qed
qed

text \<open>
  Taking the alpha out of a line of bytes works in place, on every pixel: an opaque one is left, a
  transparent one is cleared, and the colours of all others are multiplied by 255 and divided by alpha.
\<close>

lemma unassociated_pixels:
  assumes "0 < ch" "length buffer = ch * w"
  shows "\<exists>b. unassociateAlpha (cell_u8 gray) w ch buffer = Inr b \<and> length b = ch * w
    \<and> (\<forall>i < w. pixel ch i b = unassociated (pixel ch i buffer))"
  unfolding unassociateAlpha_def
proof (rule pixels_replaced [OF assms(2)])
  show "length (unassociated (pixel ch i buffer)) = ch" if "i < w" for i
  proof -
    have "length (pixel ch i buffer) = ch" using length_pixel [OF that assms(2)] .
    then show ?thesis using assms(1) by (simp add: unassociated_def)
  qed
qed (simp add: unassociate_pixel_ok assms(1))

lemma cells_of_bytes: "cells (cell_u16 gray) (cell_bytes (cell_u16 gray) xs) = xs"
proof (rule nth_equalityI)
  let ?b = "cell_bytes (cell_u16 gray) xs"
  have len: "length ?b = 2 * length xs"
    by (induction xs) (simp_all add: cell_bytes_def cell_u16_def)
  then show l: "length (cells (cell_u16 gray) ?b) = length xs" by (simp add: length_cells) (simp add: cell_u16_def)
  fix i assume "i < length (cells (cell_u16 gray) ?b)"
  then have i: "i < length xs" using l by simp
  have "take 2 (drop (i * 2) (concat (map put16 xs))) = map put16 xs ! i"
    using i by (intro block_of_concat) simp_all
  then have "pixel 2 i ?b = put16 (xs ! i)" using i by (simp add: pixel_def cell_bytes_def cell_u16_def mult.commute)
  moreover have "le_nat (put16 (xs ! i)) = unat (xs ! i)"
  proof -
    have "unat (xs ! i) < 2 ^ LENGTH(16)" by (rule unsigned_less)
    then show ?thesis by (simp add: put16_def le_nat_le_bytes)
  qed
  ultimately show "cells (cell_u16 gray) ?b ! i = xs ! i" using i len by (simp add: cells_def cell_u16_def)
qed

text \<open>
  With samples of 16 bits a transparent pixel of four channels is only half cleared, since
  \<open>memset\<close> is given the number of channels as a number of bytes, and the product of a colour and 65535
  does not fit an \<open>int\<close> for colours from 32769 on.
\<close>

theorem alpha_16_bits:
  "unassociateAlpha (cell_u16 gray) 1 4 [r, g, b, 0] = Inr [0, 0, b, 0]
   \<and> (32769 \<le> unat p \<and> a \<noteq> 0 \<and> a \<noteq> 65535 \<longrightarrow> unassociateAlpha (cell_u16 gray) 1 2 [p, a] = Inl SignedOverflow)"
proof
  have q: "replicate 4 (0 :: u8) = [0, 0, 0, 0]" by (simp add: numeral_eq_Suc)
  have z: "put16 0 = [0, 0]" by (simp add: put16_def numeral_2_eq_2)
  have p: "cell_bytes (cell_u16 gray) xs = concat (map put16 xs)" for xs by (simp add: cell_bytes_def cell_u16_def)
  have "replicate 4 0 @ drop 4 (cell_bytes (cell_u16 gray) [r, g, b, 0]) = cell_bytes (cell_u16 gray) [0, 0, b, 0]"
    by (simp add: p z q)
  then have c: "cells (cell_u16 gray) (replicate 4 0 @ drop 4 (cell_bytes (cell_u16 gray) [r, g, b, 0])) = [0, 0, b, 0]"
    by (simp only: cells_of_bytes)
  show "unassociateAlpha (cell_u16 gray) 1 4 [r, g, b, 0] = Inr [0, 0, b, 0]"
  proof -
    have f: "cell_full (cell_u16 gray) = 65535" "cell_zero (cell_u16 gray) = 0" by (simp_all add: cell_u16_def)
    show ?thesis
      unfolding unassociateAlpha_def unassociate_pixel_def Let_def f
      by (simp add: elem_def read_at_def write_at_def c)
  qed
  show "32769 \<le> unat p \<and> a \<noteq> 0 \<and> a \<noteq> 65535 \<longrightarrow> unassociateAlpha (cell_u16 gray) 1 2 [p, a] = Inl SignedOverflow"
  proof
    assume p: "32769 \<le> unat p \<and> a \<noteq> 0 \<and> a \<noteq> 65535"
    moreover have "int (unat p) = uint p" by simp
    ultimately have "32769 \<le> uint p" by linarith
    then have "int_mul (uint p) 65535 = Inl SignedOverflow" by (simp add: int_mul_def)
    then have sc: "cell_scale (cell_u16 gray) p a = Inl SignedOverflow" by (simp only: cell_u16_def cell.simps bindR.simps)
    have f: "(a = cell_full (cell_u16 gray)) = False" "(a = cell_zero (cell_u16 gray)) = False"
      using p by (simp_all add: cell_u16_def)
    show "unassociateAlpha (cell_u16 gray) 1 2 [p, a] = Inl SignedOverflow"
      by (simp add: unassociateAlpha_def unassociate_pixel_def elem_def sc f)
  qed
qed

theorem alpha_16_bits_witness:
  "unassociateAlpha (cell_u16 (\<lambda>r g b. r)) 1 2 [40000, 50000] = Inl SignedOverflow"
  using alpha_16_bits [of "\<lambda>r g b. r" 1 2 3 40000 50000] by simp

text \<open>
  What a pixel means, whatever its channels: one or three of them are colours, and an even number has
  the opacity as the last. \<open>as_channels\<close> is the same pixel in \<open>n\<close> channels.
\<close>

definition opacity :: "'t \<Rightarrow> 't list \<Rightarrow> 't" where
  "opacity full p = (if even (length p) then last p else full)"

definition colours :: "'t list \<Rightarrow> 't list" where
  "colours p = (if length p \<le> 2 then replicate 3 (hd p) else take 3 p)"

definition grey_value :: "('t \<Rightarrow> 't \<Rightarrow> 't \<Rightarrow> 't) \<Rightarrow> 't list \<Rightarrow> 't" where
  "grey_value gray p = (case p of [r, g, b] \<Rightarrow> gray r g b | [r, g, b, a] \<Rightarrow> gray r g b | _ \<Rightarrow> hd p)"

definition as_channels :: "('t \<Rightarrow> 't \<Rightarrow> 't \<Rightarrow> 't) \<Rightarrow> 't \<Rightarrow> nat \<Rightarrow> 't list \<Rightarrow> 't list" where
  "as_channels gray full n p =
     (if n \<le> 2 then [grey_value gray p] else colours p) @ (if even n then [opacity full p] else [])"

lemma converted_pixel_meaning:
  assumes "m \<in> {1, 2, 3, 4}" "n \<in> {1, 2, 3, 4}" "m \<noteq> n"
  obtains f where "converted_pixel C m n = Some f"
    "\<And>p. length p = m \<Longrightarrow> f p = as_channels (cell_gray C) (cell_full C) n p" "\<And>p. length (f p) = n"
proof -
  obtain f where f: "converted_pixel C m n = Some f" using assms by (auto simp: converted_pixel_def Let_def)
  have "f p = as_channels (cell_gray C) (cell_full C) n p" if "length p = m" for p
  proof -
    have "length p = 1 \<or> length p = 2 \<or> length p = 3 \<or> length p = 4" using assms(1) that by auto
    then have "(\<exists>r. p = [r]) \<or> (\<exists>r g. p = [r, g]) \<or> (\<exists>r g b. p = [r, g, b]) \<or> (\<exists>r g b a. p = [r, g, b, a])"
      by (auto simp: length_Suc_conv numeral_eq_Suc)
    moreover have "replicate 3 x = [x, x, x]" for x :: 'a by (simp add: numeral_eq_Suc)
    ultimately show ?thesis using f assms(2,3) that
      by (elim disjE exE)
        (auto simp: converted_pixel_def Let_def as_channels_def opacity_def colours_def grey_value_def)
  qed
  moreover have "length (f p) = n" for p using f assms(2) by (auto simp: converted_pixel_def Let_def split: if_splits)
  ultimately show ?thesis using f that by blast
qed

lemma convertLine_pixels:
  fixes C :: "'t cell"
  assumes "pc_inSamplesPerPixel P = m" "pc_outSamplesPerPixel P = n" "m \<in> {1, 2, 3, 4}" "n \<in> {1, 2, 3, 4}" "m \<noteq> n"
    "length from = m * pc_width P" "length to = n * pc_width P"
  shows "\<exists>out. convertLine C P to from = Inr out \<and> length out = n * pc_width P
    \<and> (\<forall>i < pc_width P. pixel n i out = as_channels (cell_gray C) (cell_full C) n (pixel m i from))"
proof -
  obtain f where f: "converted_pixel C m n = Some f"
    "\<And>p. length p = m \<Longrightarrow> f p = as_channels (cell_gray C) (cell_full C) n p" "\<And>p. length (f p) = n"
    using converted_pixel_meaning [OF assms(3-5)] by blast
  have r: "read_at (m * i) m from = Inr (pixel m i from)" if "i < pc_width P" for i
    using pixel_room [OF that, of m] assms(6) by (simp add: read_at_ok pixel_def)
  have "\<exists>out. foldR (\<lambda>i bufferto. bindR (read_at (m * i) m from) (\<lambda>p. write_at (n * i) (f p) bufferto)) [0..<pc_width P] to = Inr out
      \<and> length out = n * pc_width P \<and> (\<forall>i < pc_width P. pixel n i out = f (pixel m i from))"
  proof (rule pixels_replaced [OF assms(7)])
    fix i and s :: "'t list" assume i: "i < pc_width P" and s: "length s = n * pc_width P"
    show "bindR (read_at (m * i) m from) (\<lambda>p. write_at (n * i) (f p) s) = Inr (patched (n * i) (f (pixel m i from)) s)"
      using pixel_room [OF i, of n] s by (simp add: r [OF i] write_at_ok f(3))
  qed (use f(3) in simp)
  then show ?thesis using f(1,2) assms(1,2) length_pixel [OF _ assms(6)] by (auto simp: convertLine_def)
qed

text \<open>
  C38: a line of bytes of a file is given in the channels that are wanted: from each pixel the alpha is
  taken out where the file has it multiplied in, and then the colours become their grey value, a grey value
  all three colours, and the opacity is kept, dropped, or full where there was none.
\<close>

theorem converted_line:
  assumes "lt_converter im = Some P" "pc_width P = lt_width im" "pc_inSamplesPerPixel P = lt_channels im"
    "pc_outSamplesPerPixel P = n" "lt_channels im \<in> {1, 2, 3, 4}" "n \<in> {1, 2, 3, 4}" "lt_channels im \<noteq> n"
    "length b = lt_channels im * lt_width im" "length buffer = n * lt_width im"
  shows "\<exists>out. finish_line (cell_u8 gray) im buffer b = Inr out \<and> length out = n * lt_width im
    \<and> (\<forall>i < lt_width im. pixel n i out = as_channels gray 255 n
          (if lt_esType im = ALPHA_ASSOC then unassociated (pixel (lt_channels im) i b) else pixel (lt_channels im) i b))"
proof -
  let ?m = "lt_channels im" and ?w = "lt_width im"
  have C: "cell_gray (cell_u8 gray) = gray" "cell_full (cell_u8 gray) = 255" by (simp_all add: cell_u8_def)
  obtain l where l: "(if lt_esType im = ALPHA_ASSOC then unassociateAlpha (cell_u8 gray) ?w ?m (cells (cell_u8 gray) b)
        else Inr (cells (cell_u8 gray) b)) = Inr l" "length l = ?m * ?w"
      "\<forall>i < ?w. pixel ?m i l = (if lt_esType im = ALPHA_ASSOC then unassociated (pixel ?m i b) else pixel ?m i b)"
  proof (cases "lt_esType im = ALPHA_ASSOC")
    case True
    have "0 < ?m" using assms(5) by auto
    from unassociated_pixels [OF this assms(8), of gray] True that show ?thesis by auto
  qed (use assms(8) that in simp)
  obtain out where "convertLine (cell_u8 gray) P buffer l = Inr out" "length out = n * ?w"
    "\<forall>i < ?w. pixel n i out = as_channels gray 255 n (pixel ?m i l)"
    using convertLine_pixels [OF assms(3,4,5-7), of l buffer "cell_u8 gray"] l(2) assms(2,9) by (auto simp: C)
  then show ?thesis using l(1,3) assms(1) by (simp add: finish_line_def)
qed

theorem converted_line_witness:
  "\<exists>im. LibtiffImage_new tiff6_read (\<lambda>i. of_nat i) 2 1 2 1 8 1 1 ALPHA_ASSOC = Inr im
    \<and> (\<exists>out. finish_line (cell_u8 (\<lambda>r g b. r)) (snd (addConverter im SampleFormat_UINT 8 4)) [0, 0, 0, 0, 0, 0, 0, 0] [7, 128, 9, 0] = Inr out
      \<and> pixel 4 0 out = [13, 13, 13, 128] \<and> pixel 4 1 out = [0, 0, 0, 0])"
proof -
  obtain im where im: "LibtiffImage_new tiff6_read (\<lambda>i. of_nat i) 2 1 2 1 8 1 1 ALPHA_ASSOC = Inr im"
    using new_example [of 8 1 2 2 "\<lambda>i. of_nat i" 1 ALPHA_ASSOC] by auto
  note n = new_image [OF im]
  let ?im = "snd (addConverter im SampleFormat_UINT 8 4)"
  let ?P = "PixelConverter_new 2 SampleFormat_UINT 8 2 SampleFormat_UINT 8 4"
  have c: "lt_converter ?im = Some ?P" "lt_width ?im = 2" "lt_channels ?im = 2" "lt_esType ?im = ALPHA_ASSOC"
    using n(1-5) n(9) by (simp_all add: addConverter_def Let_def tiff6_read_simps)
  have P: "pc_width ?P = 2" "pc_inSamplesPerPixel ?P = 2" "pc_outSamplesPerPixel ?P = 4" by (simp_all add: PixelConverter_new_def)
  have "\<exists>out. finish_line (cell_u8 (\<lambda>r g b. r)) ?im [0, 0, 0, 0, 0, 0, 0, 0] [7, 128, 9, 0] = Inr out \<and> length out = 4 * lt_width ?im
    \<and> (\<forall>i < lt_width ?im. pixel 4 i out = as_channels (\<lambda>r g b. r) 255 4
          (if lt_esType ?im = ALPHA_ASSOC then unassociated (pixel (lt_channels ?im) i [7, 128, 9, 0])
           else pixel (lt_channels ?im) i [7, 128, 9, 0]))"
    by (rule converted_line [OF c(1)]) (simp_all add: c P)
  then obtain out where out: "finish_line (cell_u8 (\<lambda>r g b. r)) ?im [0, 0, 0, 0, 0, 0, 0, 0] [7, 128, 9, 0] = Inr out"
    "\<forall>i < 2. pixel 4 i out = as_channels (\<lambda>r g b. r) 255 4 (unassociated (pixel 2 i [7, 128, 9, 0]))"
    unfolding c by auto
  have "as_channels (\<lambda>r g b. r) 255 4 (unassociated (pixel 2 0 [7, 128, 9, 0])) = [13, 13, 13, 128]"
    "as_channels (\<lambda>r g b. r) 255 4 (unassociated (pixel 2 1 [7, 128, 9, 0])) = [0, 0, 0, 0]"
    by code_simp+
  then show ?thesis using im out(1) out(2) [rule_format, of 0] out(2) [rule_format, of 1] by auto
qed

end
