(* ===== verification/TiffWrite.thy ===== *)
theory TiffWrite
  imports TiffImage
begin

text \<open>
  lib/libimage/LibtiffImage.cpp: the writing of TIFF files, whole images or line by line, and what is read
  from a file that was written.

  A file is its fields and its rows. libtiff is a parameter in what it refuses: \<open>accepts\<close> is false where
  \<open>TIFFOpen\<close> or one of the \<open>TIFFSetField\<close> fails, \<open>scan_ok line\<close> where \<open>TIFFWriteScanline\<close> does. What it
  accepts it keeps: the fields, and a row for every line (for compressions without loss).
\<close>

subsection \<open>Files to write\<close>

text \<open>What is created: the members of the image, the fields set in the file, the rows written so far.\<close>

record TiffOut =
  to_width :: nat
  to_height :: nat
  to_channels :: nat
  to_sampleformat :: eSampleFormat
  to_bitspersample :: nat
  to_fields :: tiff_fields
  to_rows :: "nat \<Rightarrow> u8 list option"

definition libtiff_canWrite :: "nat \<Rightarrow> eSampleFormat \<Rightarrow> bool" where
  "libtiff_canWrite bps sf \<longleftrightarrow> bps = 32 \<and> sf = SampleFormat_FLOAT \<or> bps = 8 \<and> sf = SampleFormat_UINT
     \<or> bps = 16 \<and> sf = SampleFormat_UINT"

definition written_photometric :: "eCompression \<Rightarrow> ePhotometric \<Rightarrow> ePhotometric" where
  "written_photometric compression photometric =
     (if compression = Compression_JPEG \<and> photometric = Photometric_RGB then Photometric_YCBCR
      else if compression \<noteq> Compression_JPEG \<and> photometric = Photometric_YCBCR then Photometric_RGB else photometric)"

text \<open>\<open>fits\<close> tells whether no resolution is given, or one that fits the bounding box (doubles).\<close>

definition createLibtiffImageToWrite ::
    "tiff_h_read \<Rightarrow> bool \<Rightarrow> bool \<Rightarrow> nat \<Rightarrow> nat \<Rightarrow> nat \<Rightarrow> eSampleFormat \<Rightarrow> nat \<Rightarrow> ePhotometric \<Rightarrow> eCompression \<Rightarrow> u16
     \<Rightarrow> fault + TiffOut option" where
  "createLibtiffImageToWrite T accepts fits width height channels sampleformat bitspersample photometric compression rowsperstrip =
     (let photometric = written_photometric compression photometric
      in if width = 0 \<or> height = 0 then Inr None
         else if channels = 0 then Inr None
         else if \<not> libtiff_canWrite bitspersample sampleformat then Inr None
         else if \<not> fits then Inr None
         else if \<not> accepts then Inr None
         else
           bindR (int_mul (int width) (uint rowsperstrip)) (\<lambda>n. bindR (int_mul n (int (bitspersample * channels div 8))) (\<lambda>stripSize. Inr (Some
           \<lparr>to_width = width, to_height = height, to_channels = channels, to_sampleformat = sampleformat,
            to_bitspersample = bitspersample,
            to_fields =
              \<lparr>tf_width = Some width, tf_height = Some height, tf_channels = Some channels,
               tf_planarconfig = Some (PLANARCONFIG_CONTIG T), tf_bitspersample = Some bitspersample,
               tf_sampleformat = Some (fromROK4SampleFormat T sampleformat),
               tf_photometric = Some (fromROK4Photometric T photometric),
               tf_compression = Some (fromROK4Compression T compression), tf_rowsperstrip = Some (ucast rowsperstrip),
               tf_extrasamples = (if channels = 4 \<or> channels = 2 then Some [EXTRASAMPLE_UNASSALPHA T] else None)\<rparr>,
            to_rows = (\<lambda>n. None)\<rparr>))))"

subsection \<open>Writing\<close>

text \<open>\<open>Inl None\<close> is the result -1, \<open>Inl (Some f)\<close> a fault.\<close>

definition guarded :: "fault + 'a \<Rightarrow> fault option + 'a" where
  "guarded r = map_sum Some id r"

definition write_scanline :: "'t cell \<Rightarrow> (nat \<Rightarrow> bool) \<Rightarrow> 't list \<Rightarrow> nat \<Rightarrow> nat \<Rightarrow> TiffOut \<Rightarrow> fault option + TiffOut" where
  "write_scanline C scan_ok buffer pos line out =
     bindR (guarded (read_at pos (to_width out * to_channels out) buffer)) (\<lambda>b.
       if scan_ok line then Inr (out\<lparr>to_rows := (to_rows out)(line \<mapsto> cell_bytes C b)\<rparr>) else Inl None)"

text \<open>The three \<open>writeImage\<close> and \<open>writeLine\<close> of a buffer differ in the format they ask for.\<close>

definition write_buffer ::
    "'t cell \<Rightarrow> nat \<Rightarrow> eSampleFormat \<Rightarrow> (nat \<Rightarrow> bool) \<Rightarrow> 't list \<Rightarrow> TiffOut \<Rightarrow> fault option + TiffOut" where
  "write_buffer C bps sf scan_ok buffer out =
     (if to_bitspersample out = bps \<and> to_sampleformat out = sf then
        foldR (\<lambda>line out.
            bindR (guarded (int_mul (int line) (int (to_width out)))) (\<lambda>n. bindR (guarded (int_mul n (int (to_channels out)))) (\<lambda>pos.
            write_scanline C scan_ok buffer (nat pos) line out))) [0..<to_height out] out
      else Inl None)"

definition writeImage_u8 :: "(u8 \<Rightarrow> u8 \<Rightarrow> u8 \<Rightarrow> u8) \<Rightarrow> (nat \<Rightarrow> bool) \<Rightarrow> u8 list \<Rightarrow> TiffOut \<Rightarrow> fault option + TiffOut" where
  "writeImage_u8 gray = write_buffer (cell_u8 gray) 8 SampleFormat_UINT"

definition writeImage_u16 :: "(u16 \<Rightarrow> u16 \<Rightarrow> u16 \<Rightarrow> u16) \<Rightarrow> (nat \<Rightarrow> bool) \<Rightarrow> u16 list \<Rightarrow> TiffOut \<Rightarrow> fault option + TiffOut" where
  "writeImage_u16 gray = write_buffer (cell_u16 gray) 16 SampleFormat_UINT"

definition writeImage_float :: "'f cell \<Rightarrow> (nat \<Rightarrow> bool) \<Rightarrow> 'f list \<Rightarrow> TiffOut \<Rightarrow> fault option + TiffOut" where
  "writeImage_float F = write_buffer F 32 SampleFormat_FLOAT"

definition write_line ::
    "'t cell \<Rightarrow> nat \<Rightarrow> eSampleFormat \<Rightarrow> (nat \<Rightarrow> bool) \<Rightarrow> 't list \<Rightarrow> nat \<Rightarrow> TiffOut \<Rightarrow> fault option + TiffOut" where
  "write_line C bps sf scan_ok buffer line out =
     (if to_bitspersample out = bps \<and> to_sampleformat out = sf then write_scanline C scan_ok buffer 0 line out else Inl None)"

definition writeLine_u8 :: "(u8 \<Rightarrow> u8 \<Rightarrow> u8 \<Rightarrow> u8) \<Rightarrow> (nat \<Rightarrow> bool) \<Rightarrow> u8 list \<Rightarrow> nat \<Rightarrow> TiffOut \<Rightarrow> fault option + TiffOut" where
  "writeLine_u8 gray = write_line (cell_u8 gray) 8 SampleFormat_UINT"

definition writeLine_u16 :: "(u16 \<Rightarrow> u16 \<Rightarrow> u16 \<Rightarrow> u16) \<Rightarrow> (nat \<Rightarrow> bool) \<Rightarrow> u16 list \<Rightarrow> nat \<Rightarrow> TiffOut \<Rightarrow> fault option + TiffOut" where
  "writeLine_u16 gray = write_line (cell_u16 gray) 16 SampleFormat_UINT"

definition writeLine_float :: "'f cell \<Rightarrow> (nat \<Rightarrow> bool) \<Rightarrow> 'f list \<Rightarrow> nat \<Rightarrow> TiffOut \<Rightarrow> fault option + TiffOut" where
  "writeLine_float F = write_line F 32 SampleFormat_FLOAT"

text \<open>
  \<open>writeImage ( Image* )\<close>: the lines of another image, through its \<open>getline\<close> for the type of the samples.
  In another format nothing is written, and this is no error. The buffer of a line has the size this
  image needs, whatever the channels of the other one are.
\<close>

definition copy_lines ::
    "'t cell \<Rightarrow> (nat \<Rightarrow> 't) \<Rightarrow> (nat \<Rightarrow> bool) \<Rightarrow> (nat \<Rightarrow> 't list option) \<Rightarrow> TiffOut \<Rightarrow> fault option + TiffOut" where
  "copy_lines C memory scan_ok getline out =
     bindR (foldR (\<lambda>line (buf, out).
         case getline line of
           None \<Rightarrow> Inl None
         | Some l \<Rightarrow>
             bindR (guarded (write_at 0 l buf)) (\<lambda>buf. bindR (write_scanline C scan_ok buf 0 line out) (\<lambda>out. Inr (buf, out))))
       [0..<to_height out] (map memory [0..<to_width out * to_channels out], out)) (\<lambda>(buf, out). Inr out)"

definition writeImage_from ::
    "(u8 \<Rightarrow> u8 \<Rightarrow> u8 \<Rightarrow> u8) \<Rightarrow> (u16 \<Rightarrow> u16 \<Rightarrow> u16 \<Rightarrow> u16) \<Rightarrow> 'f cell \<Rightarrow> (nat \<Rightarrow> u8) \<Rightarrow> (nat \<Rightarrow> u16) \<Rightarrow> (nat \<Rightarrow> 'f) \<Rightarrow> (nat \<Rightarrow> bool)
     \<Rightarrow> nat \<Rightarrow> nat \<Rightarrow> (nat \<Rightarrow> u8 list option) \<Rightarrow> (nat \<Rightarrow> u16 list option) \<Rightarrow> (nat \<Rightarrow> 'f list option) \<Rightarrow> TiffOut \<Rightarrow> fault option + TiffOut" where
  "writeImage_from gray8 gray16 F memory8 memory16 memoryF scan_ok w h line8 line16 lineF out =
     (if to_width out \<noteq> w \<or> to_height out \<noteq> h then Inl None
      else if to_bitspersample out = 8 \<and> to_sampleformat out = SampleFormat_UINT then copy_lines (cell_u8 gray8) memory8 scan_ok line8 out
      else if to_bitspersample out = 16 \<and> to_sampleformat out = SampleFormat_UINT then copy_lines (cell_u16 gray16) memory16 scan_ok line16 out
      else if to_bitspersample out = 32 \<and> to_sampleformat out = SampleFormat_FLOAT then copy_lines F memoryF scan_ok lineF out
      else Inr out)"

subsection \<open>What a written file is\<close>

text \<open>The same image, but for its rows.\<close>

definition with_rows :: "TiffOut \<Rightarrow> (nat \<Rightarrow> u8 list option) \<Rightarrow> TiffOut" where
  "with_rows out rows = out\<lparr>to_rows := rows\<rparr>"

lemma with_rows_simps [simp]:
  "to_width (with_rows out rows) = to_width out" "to_height (with_rows out rows) = to_height out"
  "to_channels (with_rows out rows) = to_channels out" "to_rows (with_rows out rows) = rows"
  "with_rows (with_rows out rows) rows' = with_rows out rows'" "with_rows out (to_rows out) = out"
  "to_fields (with_rows out rows) = to_fields out"
  by (simp_all add: with_rows_def)

text \<open>Rows written one after the other; \<open>row\<close> is what is written for a line.\<close>

lemma rows_written:
  assumes "\<And>n rows. n < to_height out \<Longrightarrow>
    body n (with_rows out rows) = Inr (with_rows out (rows(n \<mapsto> row n)))"
  shows "foldR body [0..<to_height out] out = Inr (with_rows out (\<lambda>n. if n < to_height out then Some (row n) else to_rows out n))"
proof -
  let ?rows = "\<lambda>i n. if n < i then Some (row n) else to_rows out n"
  have "\<exists>s. foldR body [0..<to_height out] out = Inr s \<and> s = with_rows out (?rows (to_height out))"
  proof (rule foldR_upt [where I = "\<lambda>i s. s = with_rows out (?rows i)"])
    fix i s assume i: "i < to_height out" "s = with_rows out (?rows i)"
    have "(?rows i)(i \<mapsto> row i) = ?rows (Suc i)" by (auto simp: less_Suc_eq)
    then show "\<exists>s'. body i s = Inr s' \<and> s' = with_rows out (?rows (Suc i))" using assms [OF i(1)] i(2) by simp
  qed simp
  then show ?thesis by simp
qed

lemma write_scanline_ok:
  assumes "pos + to_width out * to_channels out \<le> length buffer" "scan_ok line"
  shows "write_scanline C scan_ok buffer pos line (with_rows out rows) =
    Inr (with_rows out (rows(line \<mapsto> cell_bytes C (take (to_width out * to_channels out) (drop pos buffer)))))"
  using assms by (simp add: write_scanline_def read_at_ok guarded_def) (simp add: with_rows_def)

text \<open>The file with all rows written.\<close>

definition full_file :: "TiffOut \<Rightarrow> (nat \<Rightarrow> u8 list) \<Rightarrow> TiffOut" where
  "full_file out row = with_rows out (\<lambda>n. if n < to_height out then Some (row n) else to_rows out n)"

lemma write_buffer_ok:
  assumes "to_bitspersample out = bps" "to_sampleformat out = sf" "length buffer = to_height out * (to_width out * to_channels out)"
    "\<forall>n < to_height out. scan_ok n" "to_height out * (to_width out * to_channels out) < 2 ^ 31" "0 < to_channels out"
  shows "write_buffer C bps sf scan_ok buffer out =
    Inr (full_file out (\<lambda>n. cell_bytes C (pixel (to_width out * to_channels out) n buffer)))"
proof -
  let ?w = "to_width out" and ?ch = "to_channels out"
  have "bindR (guarded (int_mul (int n) (int (to_width (with_rows out rows))))) (\<lambda>m.
      bindR (guarded (int_mul m (int (to_channels (with_rows out rows))))) (\<lambda>pos.
      write_scanline C scan_ok buffer (nat pos) n (with_rows out rows))) =
      Inr (with_rows out (rows(n \<mapsto> cell_bytes C (pixel (?w * ?ch) n buffer))))" if n: "n < to_height out" for n rows
  proof -
    have room: "n * ?w * ?ch + ?w * ?ch \<le> length buffer"
      using pixel_room [OF n, of "?w * ?ch"] assms(3) by (simp add: ac_simps)
    have "n * ?w \<le> n * ?w * ?ch" using assms(6) by simp
    then have "n * ?w < 2 ^ 31" "n * ?w * ?ch < 2 ^ 31" using room assms(3,5) by linarith+
    then have m: "int_mul (int n) (int ?w) = Inr (int (n * ?w))" "int_mul (int (n * ?w)) (int ?ch) = Inr (int (n * ?w * ?ch))"
      by (simp_all only: int_mul_nat)
    have w: "write_scanline C scan_ok buffer (n * ?w * ?ch) n (with_rows out rows) =
        Inr (with_rows out (rows(n \<mapsto> cell_bytes C (pixel (?w * ?ch) n buffer))))"
      using write_scanline_ok [OF room, of scan_ok n C rows] n assms(4) by (simp add: pixel_def ac_simps)
    show ?thesis by (simp add: m w guarded_def del: of_nat_mult)
  qed
  from rows_written [OF this] show ?thesis using assms(1,2) unfolding write_buffer_def full_file_def by simp
qed

text \<open>Lines that are written one by one in any order make the same file.\<close>

lemma write_line_ok:
  assumes "to_bitspersample out = bps" "to_sampleformat out = sf" "length l = to_width out * to_channels out" "scan_ok n"
  shows "write_line C bps sf scan_ok l n out = Inr (with_rows out ((to_rows out)(n \<mapsto> cell_bytes C l)))"
  using write_scanline_ok [of 0 out l scan_ok n C "to_rows out"] assms by (simp add: write_line_def)

lemma copy_lines_ok:
  assumes "\<forall>n < to_height out. scan_ok n \<and> (\<exists>l. getline n = Some l \<and> length l = to_width out * to_channels out)"
  shows "copy_lines C memory scan_ok getline out = Inr (full_file out (\<lambda>n. cell_bytes C (the (getline n))))"
proof -
  let ?W = "to_width out * to_channels out"
  let ?rows = "\<lambda>i n. if n < i then Some (cell_bytes C (the (getline n))) else to_rows out n"
  let ?body = "\<lambda>line (buf, out). case getline line of None \<Rightarrow> Inl None
    | Some l \<Rightarrow> bindR (guarded (write_at 0 l buf)) (\<lambda>buf. bindR (write_scanline C scan_ok buf 0 line out) (\<lambda>out. Inr (buf, out)))"
  have "\<exists>s. foldR ?body [0..<to_height out] (map memory [0..<?W], out) = Inr s
    \<and> length (fst s) = ?W \<and> snd s = with_rows out (?rows (to_height out))"
  proof (rule foldR_upt [where I = "\<lambda>i s. length (fst s) = ?W \<and> snd s = with_rows out (?rows i)"])
    fix i and s :: "'a list \<times> TiffOut"
    assume i: "i < to_height out" and s: "length (fst s) = ?W \<and> snd s = with_rows out (?rows i)"
    obtain l where l: "getline i = Some l" "length l = ?W" "scan_ok i" using assms i by blast
    obtain buf where s': "s = (buf, with_rows out (?rows i))" "length buf = ?W" using s by (cases s) simp
    have "(?rows i)(i \<mapsto> cell_bytes C l) = ?rows (Suc i)" using l(1) by (auto simp: less_Suc_eq)
    moreover have "write_scanline C scan_ok l 0 i (with_rows out (?rows i)) =
        Inr (with_rows out ((?rows i)(i \<mapsto> cell_bytes C l)))"
      using write_scanline_ok [of 0 out l scan_ok i C "?rows i"] l by simp
    ultimately show "\<exists>s'. ?body i s = Inr s' \<and> length (fst s') = ?W \<and> snd s' = with_rows out (?rows (Suc i))"
      using l s' by (simp add: write_all guarded_def)
  qed simp
  then show ?thesis by (auto simp: copy_lines_def full_file_def)
qed

subsection \<open>Written and read again\<close>

text \<open>The strips of a file whose rows are there, as libtiff reads them.\<close>

definition file_strips :: "TiffOut \<Rightarrow> strips" where
  "file_strips out k =
     (case tf_rowsperstrip (to_fields out) of
        None \<Rightarrow> Inl []
      | Some r \<Rightarrow>
          if \<forall>n \<in> set [k * unat r..<min (Suc k * unat r) (to_height out)]. to_rows out n \<noteq> None
          then Inr (strip_data (\<lambda>n. the (to_rows out n)) (to_height out) (unat r) k) else Inl [])"

lemma full_file_strips:
  assumes "tf_rowsperstrip (to_fields out) = Some r"
  shows "file_strips (full_file out row) k = Inr (strip_data row (to_height out) (unat r) k)"
proof -
  let ?f = "full_file out row"
  have f: "to_fields ?f = to_fields out" "to_height ?f = to_height out" by (simp_all add: full_file_def)
  have rows: "to_rows ?f n = Some (row n)" if "n < to_height out" for n using that by (simp add: full_file_def)
  have "map (\<lambda>n. the (to_rows ?f n)) [i..<min j (to_height out)] = map row [i..<min j (to_height out)]" for i j
    by (simp add: rows)
  then have "strip_data (\<lambda>n. the (to_rows ?f n)) (to_height out) (unat r) k = strip_data row (to_height out) (unat r) k"
    by (simp only: strip_data_def)
  moreover have "\<forall>n \<in> set [k * unat r..<min (Suc k * unat r) (to_height out)]. to_rows ?f n \<noteq> None"
    by (simp add: rows)
  ultimately show ?thesis unfolding file_strips_def f assms option.case by (subst if_P) simp_all
qed

definition cell_ok :: "'t cell \<Rightarrow> nat \<Rightarrow> bool" where
  "cell_ok C bps \<longleftrightarrow> 8 * cell_size C = bps \<and> (\<forall>v. length (cell_put C v) = cell_size C \<and> cell_get C (cell_put C v) = v)"

lemma cells_cell_bytes:
  assumes "cell_ok C bps" "0 < bps"
  shows "cells C (cell_bytes C xs) = xs"
proof -
  have c: "0 < cell_size C" "\<forall>v. length (cell_put C v) = cell_size C" "\<forall>v. cell_get C (cell_put C v) = v"
    using assms by (auto simp: cell_ok_def)
  have len: "length (cell_bytes C xs) = length xs * cell_size C"
    using c(2) by (simp add: cell_bytes_def length_concat sum_list_triv comp_def)
  have "pixel (cell_size C) i (cell_bytes C xs) = cell_put C (xs ! i)" if "i < length xs" for i
    using block_of_concat [of "map (cell_put C) xs" "cell_size C" i] c(2) that
    by (simp add: cell_bytes_def pixel_def mult.commute)
  then show ?thesis using c(1,3) by (auto simp: cells_def len intro: nth_equalityI)
qed

lemma length_cell_bytes: "cell_ok C bps \<Longrightarrow> 8 * length (cell_bytes C xs) = length xs * bps"
  by (auto simp: cell_ok_def cell_bytes_def length_concat sum_list_triv comp_def)

lemma cell_u8_ok: "cell_ok (cell_u8 gray) 8"
  by (simp add: cell_ok_def cell_u8_def)

lemma unat_u16_u32: "unat (ucast (r :: u16) :: u32) = unat r"
proof -
  have "unat r < 2 ^ LENGTH(16)" by (rule unsigned_less)
  then show ?thesis by (simp add: unsigned_ucast_eq take_bit_nat_eq_self)
qed

lemma created_file:
  assumes "createLibtiffImageToWrite T accepts fits w h ch sf bps ph cm rps = Inr (Some out)"
  shows "to_width out = w" "to_height out = h" "to_channels out = ch" "to_sampleformat out = sf" "to_bitspersample out = bps"
    "to_rows out = (\<lambda>n. None)" "tf_rowsperstrip (to_fields out) = Some (ucast rps)" "0 < w" "0 < ch" "libtiff_canWrite bps sf"
  using assms by (auto simp: createLibtiffImageToWrite_def Let_def bindR_Inr_iff split: if_splits)

text \<open>A file that was created can be opened: its fields are those the reading accepts.\<close>

lemma photometric_read:
  assumes "tiff_h_ok T" "ph \<noteq> Photometric_UNKNOWN"
  shows "libtiff_photometric T (fromROK4Photometric T ph) \<noteq> Photometric_UNKNOWN"
  using assms by (cases ph) (auto simp: libtiff_photometric_def fromROK4Photometric_def)

lemma created_opened:
  assumes "createLibtiffImageToWrite T accepts fits w h ch sf bps ph cm rps = Inr (Some out)" "tiff_h_ok T"
    "ph \<noteq> Photometric_UNKNOWN" "consistent w h"
  shows "\<exists>im ph es. createLibtiffImageToRead T memory consistent (Some (to_fields out)) = Inr (Some im)
    \<and> LibtiffImage_new T memory w h ch (fromROK4SampleFormat T sf) bps ph (uint rps) es = Inr im \<and> es \<noteq> ALPHA_ASSOC"
proof -
  have sf: "toROK4SampleFormat T (fromROK4SampleFormat T sf) = sf" by (rule tiff_roundtrip(1) [OF assms(2)])
  have r: "sint (ucast rps :: u32) = uint rps"
  proof -
    have "uint rps < 2 ^ LENGTH(16)" by (rule unsigned_less)
    moreover have "- (2 ^ 31) \<le> uint rps" by (rule order_trans [of _ 0]) simp_all
    ultimately show ?thesis by (simp add: signed_ucast_eq signed_take_bit_int_eq_self_iff)
  qed
  have e: "toROK4ExtraSample T (EXTRASAMPLE_UNASSALPHA T) \<noteq> ALPHA_ASSOC"
    using assms(2) by (auto simp: toROK4ExtraSample_def tiff_h_ok_def)
  have can: "libtiff_canWrite bps sf" by (rule created_file(10) [OF assms(1)])
  then have b: "bps \<noteq> 1" "libtiff_canRead bps sf" by (auto simp: libtiff_canWrite_def libtiff_canRead_def)
  let ?ph = "written_photometric cm ph"
  have ph: "?ph \<noteq> Photometric_UNKNOWN" using assms(3) by (simp add: written_photometric_def)
  have out: "to_fields out =
      \<lparr>tf_width = Some w, tf_height = Some h, tf_channels = Some ch, tf_planarconfig = Some (PLANARCONFIG_CONTIG T),
       tf_bitspersample = Some bps, tf_sampleformat = Some (fromROK4SampleFormat T sf),
       tf_photometric = Some (fromROK4Photometric T ?ph), tf_compression = Some (fromROK4Compression T cm),
       tf_rowsperstrip = Some (ucast rps), tf_extrasamples = (if ch = 4 \<or> ch = 2 then Some [EXTRASAMPLE_UNASSALPHA T] else None)\<rparr>"
    using assms(1) by (auto simp: createLibtiffImageToWrite_def Let_def bindR_Inr_iff split: if_splits)
  let ?es = "if ch = 4 \<or> ch = 2 then toROK4ExtraSample T (EXTRASAMPLE_UNASSALPHA T) else ExtraSample_UNKNOWN"
  let ?new = "LibtiffImage_new T memory w h ch (fromROK4SampleFormat T sf) bps (fromROK4Photometric T ?ph) (uint rps) ?es"
  obtain m sz where "int_mul (int w) (uint rps) = Inr m" "int_mul m (int (bps * ch div 8)) = Inr sz"
    using assms(1) by (auto simp: createLibtiffImageToWrite_def Let_def bindR_Inr_iff split: if_splits)
  moreover have "0 \<le> sz" using calculation by (auto simp: int_mul_def split: if_splits)
  ultimately obtain im where im: "?new = Inr im" using b by (auto simp: LibtiffImage_new_def Let_def new_bytes_def sf)
  have "createLibtiffImageToRead T memory consistent (Some (to_fields out)) = Inr (Some im)"
    using im photometric_read [OF assms(2) ph] b assms(4)
    by (auto simp: createLibtiffImageToRead_def out sf r elem_def)
  moreover have "?es \<noteq> ALPHA_ASSOC" using e by simp
  ultimately show ?thesis using im by blast
qed

text \<open>A file of integers read as floats: its rows, each sample converted.\<close>

lemma float_line:
  assumes "file_ok rows strip im" "cache_ok rows im" "n < lt_height im" "lt_oneTo8bits im = 0" "lt_bitspersample im = 8"
    "lt_sampleformat im = SampleFormat_UINT" "lt_pixelSize im = lt_channels im" "lt_esType im \<noteq> ALPHA_ASSOC"
    "lt_converter im = None" "length buffer = lt_width im * lt_channels im"
  shows "\<exists>im'. lt_getline_float gray8 gray16 F from8 from16 strip buffer n im = Inr (Some (map from8 (rows n)), im')"
proof -
  let ?tmp = "replicate (lt_width im * lt_getChannels im) 0 :: u8 list"
  have ch: "lt_getChannels im = lt_channels im" using assms(9) by (simp add: lt_getChannels_def)
  have len: "length (rows n) = lt_width im * lt_channels im"
    using assms(1,3,4,7) by (simp add: file_ok_def Let_def decoded_def line_size_def)
  have "finish_line (cell_u8 gray8) im ?tmp (decoded im (rows n)) = Inr (rows n)"
    using finish_plain [OF assms(8,9), of "rows n" "cell_u8 gray8" ?tmp] assms(4)
    by (simp add: decoded_def len ch) (simp add: cell_u8_def)
  from lt_line_ok [OF assms(1-3) this] obtain cs sb ob where
    "lt_line (cell_u8 gray8) strip ?tmp n im = Inr (Some (rows n), reloaded cs sb ob im)" by blast
  moreover have "lt_getChannels (reloaded cs sb ob im) = lt_channels im" using assms(9) by (simp add: lt_getChannels_def reloaded_def)
  ultimately show ?thesis using assms(5,6,10)
    by (simp add: lt_getline_float_def inner_line_def read_at_ok write_all len)
qed

text \<open>
  C7: a file that LibtiffImage creates, writes from a buffer and opens again gives back the lines of the
  buffer, in any order they are asked for: for bytes, 16 bit integers and floats alike (\<open>cell_ok\<close>), with or
  without an alpha channel, in a compression without loss, for up to 65535 strips and 2^31 samples.
\<close>

theorem written_file_read:
  assumes "createLibtiffImageToWrite T accepts fits w h ch sf bps ph cm rps = Inr (Some out)" "tiff_h_ok T"
    "ph \<noteq> Photometric_UNKNOWN" "cm \<noteq> Compression_JPEG" "consistent w h" "0 < rps" "\<forall>n < h. n div unat rps < 65535"
    "cell_ok C bps" "length buffer = h * (w * ch)" "h * (w * ch) < 2 ^ 31" "\<forall>n < h. scan_ok n"
    "length line = w * ch" "\<forall>n \<in> set ns. n < h"
  shows "\<exists>out' im im'. write_buffer C bps sf scan_ok buffer out = Inr out'
    \<and> createLibtiffImageToRead T memory consistent (Some (to_fields out')) = Inr (Some im)
    \<and> lt_lines C (file_strips out') line ns im = Inr (map (\<lambda>n. Some (pixel (w * ch) n buffer)) ns, im')"
proof -
  note c = created_file [OF assms(1)]
  let ?row = "\<lambda>n. cell_bytes C (pixel (w * ch) n buffer)"
  let ?out = "full_file out ?row"
  have bps: "bps \<in> {8, 16, 32}" using c(10) by (auto simp: libtiff_canWrite_def)
  have rps: "nat (uint rps) = unat rps" "0 < uint rps" "uint rps < 65536" "unat (ucast rps :: u32) = unat rps"
  proof -
    have "uint rps < 2 ^ LENGTH(16)" by (rule unsigned_less)
    then show "uint rps < 65536" by simp
    show "0 < uint rps" using assms(6) by (simp add: word_less_def)
    show "unat (ucast rps :: u32) = unat rps" by (rule unat_u16_u32)
  qed simp
  have "write_buffer C bps sf scan_ok buffer out = Inr ?out"
    using write_buffer_ok [OF c(5,4), of buffer scan_ok C] c(1-3,9) assms(9-11) by simp
  moreover have "to_fields ?out = to_fields out" by (simp add: full_file_def)
  moreover obtain im pht es where o: "createLibtiffImageToRead T memory consistent (Some (to_fields out)) = Inr (Some im)"
    "LibtiffImage_new T memory w h ch (fromROK4SampleFormat T sf) bps pht (uint rps) es = Inr im" "es \<noteq> ALPHA_ASSOC"
    using created_opened [OF assms(1-3), of consistent memory] assms(5) by blast
  moreover have "\<exists>im'. lt_lines C (file_strips ?out) line ns im = Inr (map (\<lambda>n. Some (pixel (w * ch) n buffer)) ns, im')"
  proof -
    have row: "8 * length (?row n) = w * ch * bps" if "n < h" for n
      using that assms(9) by (simp add: length_cell_bytes [OF assms(8)] mult.commute)
    note new = new_image [OF o(2)]
    have strips: "file_strips ?out (n div unat rps) = Inr (strip_data ?row h (unat rps) (n div unat rps))" for n
      using full_file_strips [OF c(7), of ?row "n div unat rps", unfolded c(2) rps(4)] .
    have one: "bps \<noteq> 1" "bps \<in> {1, 8, 16, 32}"
      "bps = 1 \<longrightarrow> toROK4SampleFormat T (fromROK4SampleFormat T sf) = SampleFormat_UINT
        \<and> pht \<in> {PHOTOMETRIC_MINISWHITE T, PHOTOMETRIC_MINISBLACK T}" using bps by auto
    have rows: "\<forall>n < h. 8 * length (?row n) = w * ch * bps" using row by blast
    have "\<forall>n < h. file_strips ?out (n div unat rps) = Inr (strip_data ?row h (unat rps) (n div unat rps))"
      using strips by blast
    note f = opened_file [OF o(2) rps(2,3), unfolded rps(1), OF assms(7) one(2,3) rows this]
    have d: "decoded im b = b" for b using f(4) one(1) by simp
    have "finish_line C im line (decoded im (?row n)) = Inr (pixel (w * ch) n buffer)" if "n \<in> set ns" for n
    proof -
      have n: "n < h" using that assms(13) by blast
      have b: "cells C (?row n) = pixel (w * ch) n buffer" using bps by (intro cells_cell_bytes [OF assms(8)]) auto
      have "length (cells C (?row n)) = length line" using n assms(9,12) unfolding b by simp
      then have "length (?row n) div cell_size C = length line" unfolding length_cells .
      then show ?thesis
        using finish_plain [of im "?row n" C line] new(5,6) o(3) by (simp add: d b)
    qed
    then show ?thesis using lt_lines_ok [OF f(1,2), of ns C line "\<lambda>n. pixel (w * ch) n buffer"] assms(13) new(2) by auto
  qed
  ultimately show ?thesis by auto
qed

theorem written_file_read_witness:
  "\<exists>out out' im im'. createLibtiffImageToWrite tiff6_read True True 2 3 2 SampleFormat_UINT 8 Photometric_GRAY Compression_LZW 2 = Inr (Some out)
    \<and> writeImage_u8 (\<lambda>r g b. r) (\<lambda>n. True) [1, 2, 3, 4, 5, 6, 7, 8, 9, 10, 11, 12] out = Inr out'
    \<and> createLibtiffImageToRead tiff6_read (\<lambda>i. of_nat i) (\<lambda>w h. True) (Some (to_fields out')) = Inr (Some im)
    \<and> lt_lines (cell_u8 (\<lambda>r g b. r)) (file_strips out') [0, 0, 0, 0] [2, 0, 1] im
      = Inr ([Some [9, 10, 11, 12], Some [1, 2, 3, 4], Some [5, 6, 7, 8]], im')"
proof -
  obtain out where out: "createLibtiffImageToWrite tiff6_read True True 2 3 2 SampleFormat_UINT 8 Photometric_GRAY Compression_LZW 2 = Inr (Some out)"
    by (simp add: createLibtiffImageToWrite_def Let_def libtiff_canWrite_def int_mul_def)
  have t: "tiff_h_ok tiff6_read" by code_simp
  have k: "\<forall>n < 3. n div 2 < (65535 :: nat)"
  proof (intro allI impI)
    fix n :: nat assume "n < 3"
    then show "n div 2 < 65535" using div_le_dividend [of n 2] by linarith
  qed
  show ?thesis
    using written_file_read [OF out t, of "\<lambda>w h. True" "cell_u8 (\<lambda>r g b. r)" "[1, 2, 3, 4, 5, 6, 7, 8, 9, 10, 11, 12]" "\<lambda>n. True"
        "[0, 0, 0, 0]" "[2, 0, 1]" "\<lambda>i. of_nat i"] out k
    by (auto simp: cell_u8_ok writeImage_u8_def pixel_def simp del: lt_lines.simps)
qed

text \<open>
  Only the sizes of an image are compared with those of the file it is written to: lines of more
  channels are put behind the end of the buffer, although the image is read by the functions meant for it.
\<close>

theorem more_channels_overflow:
  assumes "to_height out \<noteq> 0" "getline 0 = Some l" "to_width out * to_channels out < length l"
  shows "copy_lines C memory scan_ok getline out = Inl (Some BufferOverflow)"
  using assms by (simp add: copy_lines_def upt_conv_Cons write_at_def guarded_def)

theorem more_channels_overflow_witness:
  "\<exists>out. createLibtiffImageToWrite tiff6_read True True 2 3 1 SampleFormat_UINT 8 Photometric_GRAY Compression_LZW 2 = Inr (Some out)
    \<and> copy_lines (cell_u8 (\<lambda>r g b. r)) (\<lambda>i. 0) (\<lambda>n. True) (\<lambda>n. Some [1, 2, 3, 4, 5, 6]) out = Inl (Some BufferOverflow)"
proof -
  obtain out where out: "createLibtiffImageToWrite tiff6_read True True 2 3 1 SampleFormat_UINT 8 Photometric_GRAY Compression_LZW 2 = Inr (Some out)"
    by (simp add: createLibtiffImageToWrite_def Let_def libtiff_canWrite_def int_mul_def)
  then show ?thesis
    using more_channels_overflow [of out "\<lambda>n. Some [1, 2, 3, 4, 5, 6]" "[1, 2, 3, 4, 5, 6]"] created_file [OF out] by auto
qed

end
