(* ===== verification/FileImages.thy ===== *)
theory FileImages
  imports TiffWrite
begin

text \<open>
  lib/libimage/FileImage.h, FileImage.cpp: what a tool sees of the image of a file, and the factory that
  chooses a driver by the name of the file. What the drivers make of a file and whether a file can be
  written are parameters. The arguments of a tool: what the command line tools share.
\<close>

subsection \<open>Images of files\<close>

text \<open>
  \<open>fi_u8\<close>, \<open>fi_u16\<close> and \<open>fi_float\<close> are the three \<open>getline\<close>, for a converter that was added; a mask is
  read as bytes. Lines are functions of their number: \<open>TiffImage\<close> shows of a TIFF file that it does not
  matter what was read before.
\<close>

record 'f FileImage =
  fi_width :: nat
  fi_height :: nat
  fi_channels :: nat
  fi_sampleformat :: eSampleFormat
  fi_bitspersample :: nat
  fi_photometric :: ePhotometric
  fi_compression :: eCompression
  fi_esType :: eExtraSample
  fi_converter :: "PixelConverter option"
  fi_mask :: "(nat \<Rightarrow> u8 list option) option"
  fi_u8 :: "PixelConverter option \<Rightarrow> nat \<Rightarrow> u8 list option"
  fi_u16 :: "PixelConverter option \<Rightarrow> nat \<Rightarrow> u16 list option"
  fi_float :: "PixelConverter option \<Rightarrow> nat \<Rightarrow> 'f list option"

definition fi_getChannels :: "'f FileImage \<Rightarrow> nat" where
  "fi_getChannels im = (case fi_converter im of Some P \<Rightarrow> pc_outSamplesPerPixel P | None \<Rightarrow> fi_channels im)"

definition fi_getBitsPerSample :: "'f FileImage \<Rightarrow> nat" where
  "fi_getBitsPerSample im = (case fi_converter im of Some P \<Rightarrow> pc_outBitsPerSample P | None \<Rightarrow> fi_bitspersample im)"

definition fi_getSampleFormat :: "'f FileImage \<Rightarrow> eSampleFormat" where
  "fi_getSampleFormat im = (case fi_converter im of Some P \<Rightarrow> pc_outSampleFormat P | None \<Rightarrow> fi_sampleformat im)"

definition fi_addConverter :: "'f FileImage \<Rightarrow> eSampleFormat \<Rightarrow> nat \<Rightarrow> nat \<Rightarrow> bool \<times> 'f FileImage" where
  "fi_addConverter im osf obps ospp =
     (if fi_sampleformat im = osf \<and> fi_bitspersample im = obps \<and> fi_channels im = ospp then (True, im)
      else let P = PixelConverter_new (fi_width im) (fi_sampleformat im) (fi_bitspersample im) (fi_channels im) osf obps ospp
           in (pc_yesWeCan P, im\<lparr>fi_converter := Some P\<rparr>))"

definition fi_setMask :: "'f FileImage \<Rightarrow> 'f FileImage \<Rightarrow> bool \<times> 'f FileImage" where
  "fi_setMask im newMask =
     (if fi_width newMask \<noteq> fi_width im \<or> fi_height newMask \<noteq> fi_height im \<or> fi_getChannels newMask \<noteq> 1 then (False, im)
      else (True, im\<lparr>fi_mask := Some (fi_u8 newMask (fi_converter newMask))\<rparr>))"

text \<open>\<open>strrchr ( name, '.' ) + 1\<close>, \<open>None\<close> where there is no dot. \<open>begins\<close> is \<open>strncmp\<close> with a whole literal.\<close>

definition extension :: "string \<Rightarrow> string option" where
  "extension name = (if CHR ''.'' \<in> set name then Some (rev (takeWhile (\<lambda>c. c \<noteq> CHR ''.'') (rev name))) else None)"

definition begins :: "string \<Rightarrow> string \<Rightarrow> bool" where
  "begins literal s \<longleftrightarrow> take (length literal) s = literal"

datatype driver = Libtiff | Bilz | Libpng | Libjpeg | Jpeg2000

definition read_driver :: "string \<Rightarrow> driver option" where
  "read_driver e =
     (if begins ''tif'' e \<or> begins ''TIF'' e then Some Libtiff
      else if begins ''msk'' e \<or> begins ''MSK'' e then Some Libtiff
      else if begins ''bil'' e \<or> begins ''BIL'' e then Some Bilz
      else if begins ''zbil'' e \<or> begins ''ZBIL'' e then Some Bilz
      else if begins ''png'' e \<or> begins ''PNG'' e then Some Libpng
      else if begins ''jpg'' e \<or> begins ''jpeg'' e \<or> begins ''JPEG'' e \<or> begins ''JPG'' e then Some Libjpeg
      else if begins ''jp2'' e \<or> begins ''JP2'' e then Some Jpeg2000
      else None)"

definition createImageToRead :: "(driver \<Rightarrow> string \<Rightarrow> 'f FileImage option) \<Rightarrow> string \<Rightarrow> 'f FileImage option" where
  "createImageToRead drivers name =
     (case extension name of None \<Rightarrow> None | Some e \<Rightarrow> (case read_driver e of None \<Rightarrow> None | Some d \<Rightarrow> drivers d name))"

text \<open>\<open>written\<close> tells whether libtiff takes the file and its fields. A name without a dot is a null pointer.\<close>

definition createImageToWrite ::
    "(string \<Rightarrow> bool) \<Rightarrow> string \<Rightarrow> nat \<Rightarrow> nat \<Rightarrow> nat \<Rightarrow> eSampleFormat \<Rightarrow> nat \<Rightarrow> fault + bool" where
  "createImageToWrite written name width height channels sf bps =
     (case extension name of None \<Rightarrow> Inl NullPointer
      | Some e \<Rightarrow>
          if begins ''tif'' e \<or> begins ''TIF'' e \<or> begins ''msk'' e \<or> begins ''MSK'' e then
            Inr (if width = 0 \<or> height = 0 then False
                 else if channels = 0 then False
                 else if \<not> libtiff_canWrite bps sf then False
                 else written name)
          else Inr False)"

subsection \<open>Arguments\<close>

datatype 'a parsed = Help | Refused | Parsed 'a

text \<open>Character \<open>i\<close> of an argument, which ends with 0.\<close>

definition char_at :: "nat \<Rightarrow> string \<Rightarrow> char" where
  "char_at i s = (if i < length s then s ! i else CHR 0x00)"

text \<open>\<open>strtok\<close> with a comma: empty parts are skipped.\<close>

definition comma_parts :: "string \<Rightarrow> string list" where
  "comma_parts s =
     filter (\<lambda>p. p \<noteq> []) (foldr (\<lambda>c ps. if c = CHR '','' then [] # ps else (c # hd ps) # tl ps) s [[]])"

end
