(* ===== verification/MergeTool.thy ===== *)
theory MergeTool
  imports MergeTiff FileImages
begin

text \<open>
  rok4generation/tools/merge4tiff/merge4tiff.cpp from the command line on: the options, the checks of
  the images against each other, and the merge in the format they have. What the drivers make of a
  file, whether a file can be written and \<open>atof\<close> are parameters.
\<close>

subsection \<open>The command line\<close>








subsection \<open>The checks of the images\<close>

text \<open>The global variables the checks set.\<close>

record merge_globals =
  gl_width :: nat
  gl_height :: nat
  gl_outputProvided :: bool
  gl_samplesperpixel :: nat
  gl_bitspersample :: nat
  gl_sampleformat :: eSampleFormat
  gl_photometric :: ePhotometric









subsection \<open>The tool\<close>



definition merge_size_of :: "merge_globals \<Rightarrow> merge_size" where
  "merge_size_of g = \<lparr>mg_width = gl_width g, mg_height = gl_height g, mg_samplesperpixel = gl_samplesperpixel g\<rparr>"







subsection \<open>What the checks make sure of\<close>













































subsection \<open>From the command line to the merged image\<close>




lemma merge_size_of_simps [simp]:
  "mg_width (merge_size_of g) = gl_width g" "mg_height (merge_size_of g) = gl_height g"
  "mg_samplesperpixel (merge_size_of g) = gl_samplesperpixel g"
  by (simp_all add: merge_size_of_def)



















end
