(* ===== verification/Nodata.thy ===== *)
theory Nodata
  imports Lines
begin

text \<open>
  lib/libimage/TiffNodataManager.h: the pixels of an image that hold no data. They have a given colour,
  up to a tolerance, and, when asked for, are joined to an edge of the image through pixels of this
  colour. Their colour and the one of the other pixels of the colour can be changed, and a mask
  of them written.

  A sample has any type; what the code does with one is to convert it to and from an \<open>int\<close>, which
  are the functions \<open>to_int\<close> and \<open>sample_of\<close>. The images are behind \<open>FileImageFactory\<close>: opening one and
  creating one are parameters. Sums of colours and tolerances are taken not to overflow an \<open>int\<close>; the
  places of samples, which the loops over an image compute as an \<open>int\<close>, may do so.
\<close>

subsection \<open>The manager\<close>

record 't TiffNodataManager =
  nm_width :: u32
  nm_height :: u32
  nm_samplesperpixel :: nat
  nm_maxChannels :: nat
  nm_targetValue :: "'t list"
  nm_tolerance :: int
  nm_touchEdges :: bool
  nm_dataValue :: "'t list"
  nm_nodataValue :: "'t list"
  nm_removeTargetValue :: bool
  nm_newNodataValue :: bool

definition TiffNodataManager_new ::
    "(int \<Rightarrow> 't) \<Rightarrow> nat \<Rightarrow> int list \<Rightarrow> bool \<Rightarrow> int list \<Rightarrow> int list \<Rightarrow> int \<Rightarrow> fault + 't TiffNodataManager" where
  "TiffNodataManager_new sample_of channels tv touchEdges dv nv t =
     bindR (read_at 0 channels tv) (\<lambda>tv. bindR (read_at 0 channels dv) (\<lambda>dv. bindR (read_at 0 channels nv) (\<lambda>nv. Inr
       \<lparr>nm_width = 0, nm_height = 0, nm_samplesperpixel = 0, nm_maxChannels = channels,
        nm_targetValue = map sample_of tv, nm_tolerance = t, nm_touchEdges = touchEdges,
        nm_dataValue = map sample_of dv, nm_nodataValue = map sample_of nv,
        nm_removeTargetValue = (touchEdges \<and> tv \<noteq> dv), nm_newNodataValue = (tv \<noteq> nv)\<rparr>)))"

subsection \<open>Pixels of the target colour\<close>

text \<open>\<open>pix\<close> is the place of the pixel in the image.\<close>

fun target_loop :: "('t \<Rightarrow> int) \<Rightarrow> 't TiffNodataManager \<Rightarrow> 't list \<Rightarrow> nat \<Rightarrow> nat list \<Rightarrow> fault + bool" where
  "target_loop to_int m IM pix [] = Inr True"
| "target_loop to_int m IM pix (i # is) =
     bindR (elem IM (pix + i)) (\<lambda>p. bindR (elem (nm_targetValue m) i) (\<lambda>t.
       if to_int p < to_int t - nm_tolerance m \<or> to_int p > to_int t + nm_tolerance m then Inr False
       else target_loop to_int m IM pix is))"

definition isTargetValue :: "('t \<Rightarrow> int) \<Rightarrow> 't TiffNodataManager \<Rightarrow> 't list \<Rightarrow> nat \<Rightarrow> fault + bool" where
  "isTargetValue to_int m IM pix = target_loop to_int m IM pix [0..<nm_samplesperpixel m]"

subsection \<open>Pixels without data\<close>

text \<open>The mask and the queue. A pixel of the edge may be pushed twice.\<close>

definition seed ::
    "('t \<Rightarrow> int) \<Rightarrow> 't TiffNodataManager \<Rightarrow> 't list \<Rightarrow> nat \<Rightarrow> u8 list \<times> nat list \<Rightarrow> fault + u8 list \<times> nat list" where
  "seed to_int m IM pos s =
     bindR (isTargetValue to_int m IM (nm_samplesperpixel m * pos)) (\<lambda>t.
       if t then bindR (put_at pos 0 (fst s)) (\<lambda>msk. Inr (msk, snd s @ [pos])) else Inr s)"

definition visit ::
    "('t \<Rightarrow> int) \<Rightarrow> 't TiffNodataManager \<Rightarrow> 't list \<Rightarrow> nat \<Rightarrow> u8 list \<times> nat list \<Rightarrow> fault + u8 list \<times> nat list" where
  "visit to_int m IM newpos s =
     bindR (elem (fst s) newpos) (\<lambda>b.
       if b = 0 then Inr s
       else bindR (isTargetValue to_int m IM (newpos * nm_samplesperpixel m)) (\<lambda>t.
         if t then bindR (put_at newpos 0 (fst s)) (\<lambda>msk. Inr (msk, snd s @ [newpos])) else Inr s))"

text \<open>The four neighbours, in the order of the code.\<close>

definition neighbours :: "'t TiffNodataManager \<Rightarrow> nat \<Rightarrow> nat list" where
  "neighbours m pos =
     (let w = unat (nm_width m)
      in (if pos mod w > 0 then [pos - 1] else [])
       @ (if pos mod w < unat (nm_width m - 1) then [pos + 1] else [])
       @ (if pos div w > 0 then [pos - w] else [])
       @ (if pos div w < unat (nm_height m - 1) then [pos + w] else []))"

partial_function (option) spread ::
    "('t \<Rightarrow> int) \<Rightarrow> 't TiffNodataManager \<Rightarrow> 't list \<Rightarrow> u8 list \<times> nat list \<Rightarrow> (fault + u8 list) option" where
  "spread to_int m IM s =
     (case snd s of
        [] \<Rightarrow> Some (Inr (fst s))
      | pos # Q \<Rightarrow>
          (case foldR (visit to_int m IM) (neighbours m pos) (fst s, Q) of
             Inl f \<Rightarrow> Some (Inl f)
           | Inr s' \<Rightarrow> spread to_int m IM s'))"

text \<open>\<open>width * height\<close> in the arithmetic of \<open>uint32_t\<close>.\<close>

definition pixels :: "'t TiffNodataManager \<Rightarrow> nat" where
  "pixels m = unat (nm_width m * nm_height m)"

definition edges :: "'t TiffNodataManager \<Rightarrow> nat list" where
  "edges m =
     [0..<unat (nm_width m)] @ [unat (nm_width m * (nm_height m - 1))..<pixels m]
     @ stride 0 (pixels m) (unat (nm_width m)) @ stride (unat (nm_width m - 1)) (pixels m) (unat (nm_width m))"

definition mark_all ::
    "('t \<Rightarrow> int) \<Rightarrow> 't TiffNodataManager \<Rightarrow> 't list \<Rightarrow> nat \<Rightarrow> bool \<times> u8 list \<Rightarrow> fault + bool \<times> u8 list" where
  "mark_all to_int m IM i s =
     bindR (isTargetValue to_int m IM (i * nm_samplesperpixel m)) (\<lambda>t.
       if t then bindR (put_at i 0 (snd s)) (\<lambda>msk. Inr (True, msk)) else Inr s)"

definition identifyNodataPixels ::
    "('t \<Rightarrow> int) \<Rightarrow> 't TiffNodataManager \<Rightarrow> 't list \<Rightarrow> u8 list \<Rightarrow> (fault + bool \<times> u8 list) option" where
  "identifyNodataPixels to_int m IM MSK =
     (case write_at 0 (replicate (pixels m) 255) MSK of
        Inl f \<Rightarrow> Some (Inl f)
      | Inr MSK \<Rightarrow>
          if nm_touchEdges m then
            (case foldR (seed to_int m IM) (edges m) (MSK, []) of
               Inl f \<Rightarrow> Some (Inl f)
             | Inr (MSK, Q) \<Rightarrow>
                 if Q = [] then Some (Inr (False, MSK))
                 else map_option (map_sum id (\<lambda>MSK. (True, MSK))) (spread to_int m IM (MSK, Q)))
          else Some (foldR (mark_all to_int m IM) [0..<pixels m] (False, MSK)))"

subsection \<open>New colours\<close>

text \<open>The loops count in an \<open>int\<close>, and the place of a pixel is a product of \<open>int\<close>s.\<close>

definition change_nodata :: "'t TiffNodataManager \<Rightarrow> u8 list \<Rightarrow> nat \<Rightarrow> 't list \<Rightarrow> fault + 't list" where
  "change_nodata m MSK i IM =
     bindR (elem MSK i) (\<lambda>b.
     bindR (if b = 0 then
              bindR (int_mul (int i) (int (nm_samplesperpixel m))) (\<lambda>p.
              bindR (read_at 0 (nm_samplesperpixel m) (nm_nodataValue m)) (\<lambda>v. write_at (nat p) v IM))
            else Inr IM) (\<lambda>IM.
     bindR (int_range (int i + 1)) (\<lambda>_. Inr IM)))"

definition changeNodataValue :: "'t TiffNodataManager \<Rightarrow> 't list \<Rightarrow> u8 list \<Rightarrow> fault + 't list" where
  "changeNodataValue m IM MSK = foldR (change_nodata m MSK) [0..<pixels m] IM"

definition change_data ::
    "('t \<Rightarrow> int) \<Rightarrow> 't TiffNodataManager \<Rightarrow> u8 list \<Rightarrow> nat \<Rightarrow> 't list \<Rightarrow> fault + 't list" where
  "change_data to_int m MSK i IM =
     bindR (elem MSK i) (\<lambda>b.
     bindR (if b = 0 then Inr IM
            else
              bindR (int_mul (int i) (int (nm_samplesperpixel m))) (\<lambda>p.
              bindR (isTargetValue to_int m IM (nat p)) (\<lambda>t.
                if t then bindR (read_at 0 (nm_samplesperpixel m) (nm_dataValue m)) (\<lambda>v. write_at (nat p) v IM)
                else Inr IM))) (\<lambda>IM.
     bindR (int_range (int i + 1)) (\<lambda>_. Inr IM)))"

definition changeDataValue :: "('t \<Rightarrow> int) \<Rightarrow> 't TiffNodataManager \<Rightarrow> 't list \<Rightarrow> u8 list \<Rightarrow> fault + 't list" where
  "changeDataValue to_int m IM MSK = foldR (change_data to_int m MSK) [0..<pixels m] IM"

subsection \<open>The treatment of an image\<close>

record 't SourceImage =
  si_width :: u32
  si_height :: u32
  si_channels :: nat
  si_line :: "nat \<Rightarrow> 't list"  \<comment> \<open>what getline puts into the buffer\<close>

text \<open>
  The lines of the image, each put at its place of the buffer, of which nothing is set before. The number
  of the line is an \<open>int\<close>, the place one of \<open>uint32_t\<close>.
\<close>

definition load_line :: "'t SourceImage \<Rightarrow> nat \<Rightarrow> 't option list \<Rightarrow> fault + 't option list" where
  "load_line src h IM =
     bindR (write_at (unat (si_width src * of_nat (si_channels src) * of_nat h)) (map Some (si_line src h)) IM) (\<lambda>IM.
     bindR (int_range (int h + 1)) (\<lambda>_. Inr IM))"

definition samples :: "'t option list \<Rightarrow> fault + 't list" where
  "samples buf = (if None \<in> set buf then Inl Uninitialised else Inr (map the buf))"

definition load_image :: "'t SourceImage \<Rightarrow> fault + 't list" where
  "load_image src =
     bindR (foldR (load_line src) [0..<unat (si_height src)]
              (replicate (unat (si_width src * si_height src * of_nat (si_channels src))) None)) samples"

text \<open>What was written: the image with its channels, and the mask.\<close>

record 't Written =
  wr_image :: "(u32 \<times> u32 \<times> nat \<times> 't list) option"
  wr_mask :: "(u32 \<times> u32 \<times> u8 list) option"

definition new_pixels ::
    "('t \<Rightarrow> int) \<Rightarrow> 't TiffNodataManager \<Rightarrow> 't list \<Rightarrow> u8 list \<Rightarrow> fault + 't list" where
  "new_pixels to_int m IM MSK =
     bindR (if nm_removeTargetValue m then changeDataValue to_int m IM MSK else Inr IM) (\<lambda>IM.
       if nm_newNodataValue m then changeNodataValue m IM MSK else Inr IM)"

text \<open>
  \<open>source\<close> is what \<open>createImageToRead\<close> gives, \<open>can_write\<close> and \<open>can_write_mask\<close> whether
  \<open>createImageToWrite\<close> gives an image. The mask is in memory that is not set. With the messages of
  \<open>debug\<close> the first three samples are read, whatever the number of samples is.
\<close>

definition treatNodata ::
    "bool \<Rightarrow> ('t \<Rightarrow> int) \<Rightarrow> 't SourceImage option \<Rightarrow> bool \<Rightarrow> bool \<Rightarrow> (nat \<Rightarrow> u8 list) \<Rightarrow> bool \<Rightarrow> 't TiffNodataManager
     \<Rightarrow> (fault + bool \<times> 't Written) option" where
  "treatNodata debug to_int source can_write can_write_mask memory outputMask m =
     (let nothing = \<lparr>wr_image = None, wr_mask = None\<rparr>
      in if \<not> nm_newNodataValue m \<and> \<not> nm_removeTargetValue m \<and> \<not> outputMask then Some (Inr (True, nothing))
      else case source of
        None \<Rightarrow> Some (Inr (False, nothing))
      | Some src \<Rightarrow>
          let m = m\<lparr>nm_width := si_width src, nm_height := si_height src, nm_samplesperpixel := si_channels src\<rparr>
          in if nm_samplesperpixel m > nm_maxChannels m then Some (Inr (False, nothing))
          else case bindR (load_image src) (\<lambda>IM. bindR (if debug then read_at 0 3 IM else Inr []) (\<lambda>_. Inr IM)) of
            Inl f \<Rightarrow> Some (Inl f)
          | Inr IM \<Rightarrow>
              (case identifyNodataPixels to_int m IM (memory (pixels m)) of
                 None \<Rightarrow> None
               | Some (Inl f) \<Rightarrow> Some (Inl f)
               | Some (Inr (containNodata, MSK)) \<Rightarrow>
                   Some (bindR (new_pixels to_int m IM MSK) (\<lambda>IM. Inr
                     (if (nm_removeTargetValue m \<or> nm_newNodataValue m) \<and> \<not> can_write then (False, nothing)
                      else let w = nothing\<lparr>wr_image := (if nm_removeTargetValue m \<or> nm_newNodataValue m
                             then Some (nm_width m, nm_height m, nm_samplesperpixel m, IM) else None)\<rparr>
                      in if outputMask \<and> containNodata then
                           if can_write_mask then (True, w\<lparr>wr_mask := Some (nm_width m, nm_height m, MSK)\<rparr>)
                           else (False, w)
                         else (True, w))))))"

subsection \<open>What the pixels without data are\<close>

definition in_target :: "('t \<Rightarrow> int) \<Rightarrow> 't TiffNodataManager \<Rightarrow> 't list \<Rightarrow> bool" where
  "in_target to_int m px \<longleftrightarrow>
     (\<forall>i < nm_samplesperpixel m. \<bar>to_int (px ! i) - to_int (nm_targetValue m ! i)\<bar> \<le> nm_tolerance m)"

definition at_edge :: "nat \<Rightarrow> nat \<Rightarrow> nat \<Rightarrow> bool" where
  "at_edge w h p \<longleftrightarrow> p < w * h \<and> (p div w = 0 \<or> p div w = h - 1 \<or> p mod w = 0 \<or> p mod w = w - 1)"

text \<open>Neighbours: one column or one row apart.\<close>

definition adjacent :: "nat \<Rightarrow> nat \<Rightarrow> nat \<Rightarrow> bool" where
  "adjacent w p q \<longleftrightarrow>
     p div w = q div w \<and> (p mod w = q mod w + 1 \<or> q mod w = p mod w + 1)
     \<or> p mod w = q mod w \<and> (p div w = q div w + 1 \<or> q div w = p div w + 1)"

inductive joined_to_edge :: "nat \<Rightarrow> nat \<Rightarrow> (nat \<Rightarrow> bool) \<Rightarrow> nat \<Rightarrow> bool" for w h T where
  edge: "at_edge w h p \<Longrightarrow> T p \<Longrightarrow> joined_to_edge w h T p"
| next_to: "joined_to_edge w h T p \<Longrightarrow> adjacent w p q \<Longrightarrow> q < w * h \<Longrightarrow> T q \<Longrightarrow> joined_to_edge w h T q"

lemma joined_target: "joined_to_edge w h T p \<Longrightarrow> T p \<and> p < w * h"
  by (induction rule: joined_to_edge.induct) (auto simp: at_edge_def)

lemma joined_starts: "joined_to_edge w h T p \<Longrightarrow> \<exists>q. at_edge w h q \<and> T q"
  by (induction rule: joined_to_edge.induct) blast+

text \<open>The pixels of the target colour in an image, and those without data.\<close>

definition target_pixel :: "('t \<Rightarrow> int) \<Rightarrow> 't TiffNodataManager \<Rightarrow> 't list \<Rightarrow> nat \<Rightarrow> bool" where
  "target_pixel to_int m IM p \<longleftrightarrow> in_target to_int m (pixel (nm_samplesperpixel m) p IM)"

definition width_of :: "'t TiffNodataManager \<Rightarrow> nat" where "width_of m = unat (nm_width m)"
definition height_of :: "'t TiffNodataManager \<Rightarrow> nat" where "height_of m = unat (nm_height m)"

definition without_data :: "('t \<Rightarrow> int) \<Rightarrow> 't TiffNodataManager \<Rightarrow> 't list \<Rightarrow> nat \<Rightarrow> bool" where
  "without_data to_int m IM p \<longleftrightarrow>
     (if nm_touchEdges m then joined_to_edge (width_of m) (height_of m) (target_pixel to_int m IM) p
      else p < width_of m * height_of m \<and> target_pixel to_int m IM p)"

text \<open>An image that is there and small enough for its number of samples to fit \<open>uint32_t\<close>.\<close>

definition well_sized :: "'t TiffNodataManager \<Rightarrow> 't list \<Rightarrow> bool" where
  "well_sized m IM \<longleftrightarrow> 0 < width_of m \<and> 0 < height_of m \<and> width_of m * height_of m < 2 ^ 32
     \<and> length IM = nm_samplesperpixel m * (width_of m * height_of m)
     \<and> nm_samplesperpixel m \<le> length (nm_targetValue m)"

subsection \<open>The tests and places of the code\<close>

lemma target_loop_ok:
  assumes "\<And>i. i \<in> set is \<Longrightarrow> pix + i < length IM \<and> i < length (nm_targetValue m)"
  shows "target_loop to_int m IM pix is =
    Inr (\<forall>i \<in> set is. \<bar>to_int (IM ! (pix + i)) - to_int (nm_targetValue m ! i)\<bar> \<le> nm_tolerance m)"
  using assms by (induction "is") (auto simp: buffer_simps)

lemma isTargetValue_ok:
  assumes "well_sized m IM" "p < width_of m * height_of m"
  shows "isTargetValue to_int m IM (nm_samplesperpixel m * p) = Inr (target_pixel to_int m IM p)"
proof -
  have l: "length IM = nm_samplesperpixel m * (width_of m * height_of m)" using assms(1) by (simp add: well_sized_def)
  have "nm_samplesperpixel m * p + i < length IM" if "i < nm_samplesperpixel m" for i
    using pixel_room [OF assms(2), of "nm_samplesperpixel m"] that l by simp
  then show ?thesis
    using assms(1) nth_pixel [OF assms(2) l]
    by (subst isTargetValue_def, subst target_loop_ok)
      (auto simp: well_sized_def target_pixel_def in_target_def)
qed

lemma unat_mult_small: "unat (a :: u32) * unat b < 2 ^ 32 \<Longrightarrow> unat (a * b) = unat a * unat b"
  by (simp add: unat_word_ariths)

lemma pixels_ok: "well_sized m IM \<Longrightarrow> pixels m = width_of m * height_of m"
  by (simp add: pixels_def well_sized_def width_of_def height_of_def unat_mult_small)

lemma set_stride: "0 < k \<Longrightarrow> set (stride p n k) = {q. p \<le> q \<and> q < n \<and> (q - p) mod k = 0}"
proof (induction p n k rule: stride.induct)
  case (1 p n k)
  show ?case
  proof (cases "p < n")
    case True
    then have "set (stride p n k) = insert p {q. p + k \<le> q \<and> q < n \<and> (q - (p + k)) mod k = 0}"
      using 1 by (subst stride.simps) simp
    also have "\<dots> = {q. p \<le> q \<and> q < n \<and> (q - p) mod k = 0}"
    proof -
      have "p + k \<le> q \<and> (q - (p + k)) mod k = 0 \<longleftrightarrow> p < q \<and> (q - p) mod k = 0" for q
      proof (cases "p + k \<le> q")
        case True
        then have "q - p = (q - (p + k)) + k" by simp
        then show ?thesis using True 1(2) by (metis add_lessD1 le_eq_less_or_eq less_add_same_cancel1 mod_add_self2 order_less_le_trans)
      next
        case False
        then have "p < q \<Longrightarrow> (q - p) mod k \<noteq> 0" using 1(2) by simp
        then show ?thesis using False by auto
      qed
      note e = this
      show ?thesis
      proof (rule set_eqI)
        fix q
        show "q \<in> insert p {q. p + k \<le> q \<and> q < n \<and> (q - (p + k)) mod k = 0}
            \<longleftrightarrow> q \<in> {q. p \<le> q \<and> q < n \<and> (q - p) mod k = 0}"
        proof (cases "q = p")
          case False
          then have "q \<in> insert p {q. p + k \<le> q \<and> q < n \<and> (q - (p + k)) mod k = 0}
              \<longleftrightarrow> q < n \<and> p + k \<le> q \<and> (q - (p + k)) mod k = 0" by blast
          also have "\<dots> \<longleftrightarrow> q < n \<and> p < q \<and> (q - p) mod k = 0" by (simp only: e)
          finally show ?thesis using False by (auto simp del: mod_eq_0_iff_dvd)
        qed (use True in simp)
      qed
    qed
    finally show ?thesis .
  qed (subst stride.simps, auto)
qed

lemma unat_minus_one: "0 < unat (a :: u32) \<Longrightarrow> unat (a - 1) = unat a - 1"
  by (subst unat_sub) (simp_all add: word_le_nat_alt)

lemma edges_ok:
  assumes "well_sized m IM"
  shows "set (edges m) = {p. at_edge (width_of m) (height_of m) p}"
proof -
  let ?w = "width_of m" and ?h = "height_of m"
  have s: "0 < ?w" "0 < ?h" "?w * ?h < 2 ^ 32" using assms by (simp_all add: well_sized_def)
  have h1: "unat (nm_height m - 1) = ?h - 1" and w1: "unat (nm_width m - 1) = ?w - 1"
    using s unat_minus_one by (simp_all add: width_of_def height_of_def)
  have "?w * (?h - 1) < 2 ^ 32" by (rule le_less_trans [OF mult_le_mono2 s(3)]) simp
  then have b: "unat (nm_width m * (nm_height m - 1)) = ?w * (?h - 1)"
    using h1 unat_mult_small [of "nm_width m" "nm_height m - 1"] by (simp add: width_of_def)
  have le: "?w \<le> ?w * ?h" using s by simp
  have top: "p < ?w \<longleftrightarrow> p < ?w * ?h \<and> p div ?w = 0" for p
  proof
    assume "p < ?w"
    then show "p < ?w * ?h \<and> p div ?w = 0" using order.strict_trans2 [OF _ le] by simp
  qed (use s(1) in \<open>simp add: div_eq_0_iff\<close>)
  have bottom: "?w * (?h - 1) \<le> p \<and> p < ?w * ?h \<longleftrightarrow> p < ?w * ?h \<and> p div ?w = ?h - 1" for p
  proof -
    have "p < ?w * ?h \<Longrightarrow> p div ?w < ?h" using s by (simp add: less_mult_imp_div_less mult.commute)
    moreover have "?w * (?h - 1) \<le> p \<longleftrightarrow> ?h - 1 \<le> p div ?w" using s by (simp add: less_eq_div_iff_mult_less_eq mult.commute)
    ultimately show ?thesis using s by auto
  qed
  have right: "?w - 1 \<le> p \<and> (p - (?w - 1)) mod ?w = 0 \<longleftrightarrow> p mod ?w = ?w - 1" for p
  proof
    assume a: "p mod ?w = ?w - 1"
    then have "p = ?w * (p div ?w) + (?w - 1)" by (metis mult_div_mod_eq)
    then show "?w - 1 \<le> p \<and> (p - (?w - 1)) mod ?w = 0"
      by (metis add_diff_cancel_right' le_add2 mod_mult_self1_is_0)
  next
    assume a: "?w - 1 \<le> p \<and> (p - (?w - 1)) mod ?w = 0"
    then obtain k where "p = ?w * k + (?w - 1)" by (metis le_add_diff_inverse2 mod_0_imp_dvd dvd_def)
    then have "p mod ?w = (?w - 1) mod ?w" by (simp only: mod_mult_self4)
    then show "p mod ?w = ?w - 1" using s by simp
  qed
  have "set (edges m) = {p. p < ?w} \<union> {p. ?w * (?h - 1) \<le> p \<and> p < ?w * ?h} \<union> {p. p < ?w * ?h \<and> p mod ?w = 0}
      \<union> {p. ?w - 1 \<le> p \<and> p < ?w * ?h \<and> (p - (?w - 1)) mod ?w = 0}"
    unfolding edges_def pixels_ok [OF assms] b w1 width_of_def [symmetric]
    by (simp add: set_stride [OF s(1)] Un_assoc lessThan_atLeast0 [symmetric] atLeastLessThan_def lessThan_def atLeast_def Int_def)
  also have "\<dots> = {p. at_edge ?w ?h p}"
  proof (rule set_eqI)
    fix p
    show "p \<in> {p. p < ?w} \<union> {p. ?w * (?h - 1) \<le> p \<and> p < ?w * ?h} \<union> {p. p < ?w * ?h \<and> p mod ?w = 0}
        \<union> {p. ?w - 1 \<le> p \<and> p < ?w * ?h \<and> (p - (?w - 1)) mod ?w = 0} \<longleftrightarrow> p \<in> {p. at_edge ?w ?h p}"
      unfolding Un_iff mem_Collect_eq at_edge_def using top [of p] bottom [of p] right [of p] by argo
  qed
  finally show ?thesis .
qed

lemma neighbours_ok:
  assumes "well_sized m IM" "p < width_of m * height_of m"
  shows "set (neighbours m p) = {q. adjacent (width_of m) p q \<and> q < width_of m * height_of m}"
proof -
  let ?w = "width_of m" and ?h = "height_of m"
  have s: "0 < ?w" "0 < ?h" using assms(1) by (simp_all add: well_sized_def)
  have h1: "unat (nm_height m - 1) = ?h - 1" and w1: "unat (nm_width m - 1) = ?w - 1"
    using s unat_minus_one by (simp_all add: width_of_def height_of_def)
  define x y where "x = p mod ?w" and "y = p div ?w"
  have p: "p = y * ?w + x" "x < ?w" "y < ?h"
    using s assms(2) by (simp_all add: x_def y_def less_mult_imp_div_less mult.commute)
  have coord: "q = v * ?w + u \<and> u < ?w \<longleftrightarrow> q mod ?w = u \<and> q div ?w = v" for q u v
    using s by auto
  have size: "q < ?w * ?h \<longleftrightarrow> q div ?w < ?h" for q
    using s by (simp add: div_less_iff_less_mult mult.commute)
  have nb: "q \<in> set (neighbours m p) \<longleftrightarrow>
      (x > 0 \<and> q = p - 1) \<or> (x < ?w - 1 \<and> q = p + 1) \<or> (y > 0 \<and> q = p - ?w) \<or> (y < ?h - 1 \<and> q = p + ?w)" for q
    by (auto simp: neighbours_def Let_def x_def y_def h1 w1 width_of_def [symmetric])
  have "x > 0 \<and> q = p - 1 \<longleftrightarrow> x > 0 \<and> q mod ?w = x - 1 \<and> q div ?w = y" for q
    using coord [of q y "x - 1"] p by auto
  moreover have "x < ?w - 1 \<and> q = p + 1 \<longleftrightarrow> q mod ?w = x + 1 \<and> q div ?w = y" for q
    using coord [of q y "x + 1"] p s by auto
  moreover have "y > 0 \<and> q = p - ?w \<longleftrightarrow> y > 0 \<and> q mod ?w = x \<and> q div ?w = y - 1" for q
  proof (cases y)
    case (Suc v)
    then have "p - ?w = v * ?w + x" using p(1) by simp
    then show ?thesis using coord [of q v x] p(2) Suc by auto
  qed simp
  moreover have "y < ?h - 1 \<and> q = p + ?w \<longleftrightarrow> y < ?h - 1 \<and> q mod ?w = x \<and> q div ?w = y + 1" for q
  proof -
    have "p + ?w = (y + 1) * ?w + x" using p(1) by simp
    then show ?thesis using coord [of q "y + 1" x] p(2) by auto
  qed
  ultimately have "q \<in> set (neighbours m p) \<longleftrightarrow>
      (x > 0 \<and> q mod ?w = x - 1 \<and> q div ?w = y) \<or> (q mod ?w = x + 1 \<and> q div ?w = y)
      \<or> (y > 0 \<and> q mod ?w = x \<and> q div ?w = y - 1) \<or> (y < ?h - 1 \<and> q mod ?w = x \<and> q div ?w = y + 1)" for q
    unfolding nb by blast
  moreover have "adjacent ?w p q \<and> q < ?w * ?h \<longleftrightarrow>
      (x > 0 \<and> q mod ?w = x - 1 \<and> q div ?w = y) \<or> (q mod ?w = x + 1 \<and> q div ?w = y)
      \<or> (y > 0 \<and> q mod ?w = x \<and> q div ?w = y - 1) \<or> (y < ?h - 1 \<and> q mod ?w = x \<and> q div ?w = y + 1)" for q
    unfolding adjacent_def size x_def [symmetric] y_def [symmetric] using p(2,3) by auto
  ultimately show ?thesis by blast
qed

subsection \<open>The mask as a set\<close>

definition mask_of :: "nat \<Rightarrow> (nat \<Rightarrow> bool) \<Rightarrow> u8 list" where
  "mask_of n Z = map (\<lambda>p. if Z p then 0 else 255) [0..<n]"

lemma mask_of_simps [simp]:
  "length (mask_of n Z) = n" "p < n \<Longrightarrow> mask_of n Z ! p = (if Z p then 0 else 255)"
  by (simp_all add: mask_of_def)

lemma put_mask: "p < n \<Longrightarrow> put_at p 0 (mask_of n Z) = Inr (mask_of n (\<lambda>q. q = p \<or> Z q))"
  by (auto simp: put_at_def intro: nth_equalityI split: if_splits simp: nth_list_update)

lemma mask_of_cong: "(\<And>p. p < n \<Longrightarrow> Z p \<longleftrightarrow> Z' p) \<Longrightarrow> mask_of n Z = mask_of n Z'"
  by (auto simp: mask_of_def)

text \<open>The pixels that are pushed while some places are visited.\<close>

fun pushed :: "(nat \<Rightarrow> bool) \<Rightarrow> (nat \<Rightarrow> bool) \<Rightarrow> nat list \<Rightarrow> nat list" where
  "pushed T Z [] = []"
| "pushed T Z (q # qs) = (if Z q \<or> \<not> T q then pushed T Z qs else q # pushed T (\<lambda>r. r = q \<or> Z r) qs)"

lemma set_pushed: "set (pushed T Z qs) = {q \<in> set qs. T q \<and> \<not> Z q}"
  by (induction T Z qs rule: pushed.induct) auto

lemma distinct_pushed: "distinct (pushed T Z qs)"
  by (induction T Z qs rule: pushed.induct) (auto simp: set_pushed)

lemma visit_ok:
  assumes "well_sized m IM" "q < pixels m" "T = target_pixel to_int m IM"
  shows "visit to_int m IM q (mask_of (pixels m) Z, Q) =
    Inr (if Z q \<or> \<not> T q then (mask_of (pixels m) Z, Q) else (mask_of (pixels m) (\<lambda>r. r = q \<or> Z r), Q @ [q]))"
  using isTargetValue_ok [OF assms(1), of q to_int] assms(2,3) put_mask [OF assms(2), of Z] pixels_ok [OF assms(1)]
  by (auto simp: visit_def buffer_simps mult.commute)

lemma visits_ok:
  assumes "well_sized m IM" "T = target_pixel to_int m IM"
  shows "(\<And>q. q \<in> set qs \<Longrightarrow> q < pixels m) \<Longrightarrow> foldR (visit to_int m IM) qs (mask_of (pixels m) Z, Q) =
     Inr (mask_of (pixels m) (\<lambda>r. r \<in> set (pushed T Z qs) \<or> Z r), Q @ pushed T Z qs)"
proof (induction qs arbitrary: Q Z)
  case (Cons q qs)
  show ?case
  proof (cases "Z q \<or> \<not> T q")
    case True
    then show ?thesis using Cons visit_ok [OF assms(1) _ assms(2), of q Z Q] by simp
  next
    case False
    then show ?thesis
      using Cons visit_ok [OF assms(1) _ assms(2), of q Z Q]
      by (auto intro!: mask_of_cong)
  qed
qed simp

text \<open>
  Between two turns of the loop: what is marked is joined to the edge, what is in the queue is
  marked, and the neighbours of what is marked and was taken from the queue are marked too.
\<close>

definition spreading :: "('t \<Rightarrow> int) \<Rightarrow> 't TiffNodataManager \<Rightarrow> 't list \<Rightarrow> (nat \<Rightarrow> bool) \<Rightarrow> nat list \<Rightarrow> bool" where
  "spreading to_int m IM Z Q \<longleftrightarrow>
     (\<forall>p. Z p \<longrightarrow> joined_to_edge (width_of m) (height_of m) (target_pixel to_int m IM) p)
     \<and> (\<forall>p \<in> set Q. Z p)
     \<and> (\<forall>p. at_edge (width_of m) (height_of m) p \<and> target_pixel to_int m IM p \<longrightarrow> Z p)
     \<and> (\<forall>p q. Z p \<and> p \<notin> set Q \<and> adjacent (width_of m) p q \<and> q < pixels m \<and> target_pixel to_int m IM q \<longrightarrow> Z q)"

lemma spreading_step:
  assumes "well_sized m IM" "spreading to_int m IM Z (pos # Q)" "new = pushed (target_pixel to_int m IM) Z (neighbours m pos)"
  shows "spreading to_int m IM (\<lambda>r. r \<in> set new \<or> Z r) (Q @ new)"
proof -
  let ?T = "target_pixel to_int m IM" and ?J = "joined_to_edge (width_of m) (height_of m) (target_pixel to_int m IM)"
  have z: "\<forall>p. Z p \<longrightarrow> ?J p" "\<forall>p \<in> set (pos # Q). Z p" "\<forall>p. at_edge (width_of m) (height_of m) p \<and> ?T p \<longrightarrow> Z p"
    "\<forall>p q. Z p \<and> p \<notin> set (pos # Q) \<and> adjacent (width_of m) p q \<and> q < pixels m \<and> ?T q \<longrightarrow> Z q"
    using assms(2) unfolding spreading_def by blast+
  have pos: "?J pos" using z(1,2) by simp
  then have "pos < width_of m * height_of m" using joined_target by blast
  from neighbours_ok [OF assms(1) this]
  have new: "set new = {q. adjacent (width_of m) pos q \<and> q < pixels m \<and> ?T q \<and> \<not> Z q}"
    using pixels_ok [OF assms(1)] by (auto simp: assms(3) set_pushed)
  have "?J q" if "q \<in> set new" for q
    using joined_to_edge.next_to [OF pos] that pixels_ok [OF assms(1)] by (auto simp: new)
  moreover have "q \<in> set new \<or> Z q" if "p \<in> set new \<or> Z p" "p \<notin> set (Q @ new)" "adjacent (width_of m) p q" "q < pixels m" "?T q" for p q
  proof (cases "p = pos")
    case False
    then show ?thesis using that z(4) by auto
  qed (use that new in auto)
  ultimately show ?thesis using z(1-3) unfolding spreading_def by auto
qed

lemma spreading_end:
  assumes "well_sized m IM" "spreading to_int m IM Z []"
  shows "Z p \<longleftrightarrow> joined_to_edge (width_of m) (height_of m) (target_pixel to_int m IM) p"
proof
  assume "joined_to_edge (width_of m) (height_of m) (target_pixel to_int m IM) p"
  then show "Z p"
  proof (induction rule: joined_to_edge.induct)
    case (edge p)
    then show ?case using assms(2) unfolding spreading_def by blast
  next
    case (next_to p q)
    moreover have "p \<notin> set []" by simp
    ultimately show ?case using assms(2) unfolding spreading_def pixels_ok [OF assms(1)] by blast
  qed
qed (use assms(2) in \<open>simp add: spreading_def\<close>)

text \<open>Each turn takes one pixel from the queue, and each pixel is marked once.\<close>

lemma spread_ok:
  assumes "well_sized m IM" "spreading to_int m IM Z Q"
  shows "spread to_int m IM (mask_of (pixels m) Z, Q) =
    Some (Inr (mask_of (pixels m) (joined_to_edge (width_of m) (height_of m) (target_pixel to_int m IM))))"
  using assms(2)
proof (induction "card {p. p < pixels m \<and> \<not> Z p} + length Q" arbitrary: Z Q rule: less_induct)
  case less
  show ?case
  proof (cases Q)
    case Nil
    then show ?thesis
      using less.prems spreading_end [OF assms(1)] by (subst spread.simps) (auto intro: mask_of_cong)
  next
    case (Cons pos Q')
    let ?T = "target_pixel to_int m IM"
    define new where "new = pushed ?T Z (neighbours m pos)"
    have st: "spreading to_int m IM (\<lambda>r. r \<in> set new \<or> Z r) (Q' @ new)"
      using spreading_step [OF assms(1) _ new_def] less.prems Cons by simp
    have "Z pos" using less.prems Cons by (simp add: spreading_def)
    then have pos: "pos < width_of m * height_of m"
      using less.prems joined_target unfolding spreading_def by blast
    have nb: "q < pixels m" if "q \<in> set (neighbours m pos)" for q
      using that neighbours_ok [OF assms(1) pos] pixels_ok [OF assms(1)] by simp
    have sub: "set new \<subseteq> {p. p < pixels m \<and> \<not> Z p}" using nb by (auto simp: new_def set_pushed)
    have "{p. p < pixels m \<and> \<not> (p \<in> set new \<or> Z p)} = {p. p < pixels m \<and> \<not> Z p} - set new" by auto
    then have "card {p. p < pixels m \<and> \<not> (p \<in> set new \<or> Z p)} + length new = card {p. p < pixels m \<and> \<not> Z p}"
      using card_Diff_subset [OF _ sub] card_mono [OF _ sub] distinct_card [OF distinct_pushed, of ?T Z "neighbours m pos"]
      by (simp add: new_def)
    then have "card {p. p < pixels m \<and> \<not> (p \<in> set new \<or> Z p)} + length (Q' @ new)
        < card {p. p < pixels m \<and> \<not> Z p} + length Q" by (simp add: Cons)
    from less.hyps [OF this st] show ?thesis
      using visits_ok [OF assms(1) refl, of "neighbours m pos" to_int Z Q', OF nb]
      by (subst spread.simps) (simp add: Cons new_def)
  qed
qed

lemma seeds_ok:
  assumes "well_sized m IM" "T = target_pixel to_int m IM"
  shows "(\<And>q. q \<in> set qs \<Longrightarrow> q < pixels m) \<Longrightarrow> foldR (seed to_int m IM) qs (mask_of (pixels m) Z, Q) =
     Inr (mask_of (pixels m) (\<lambda>r. r \<in> set qs \<and> T r \<or> Z r), Q @ filter T qs)"
proof (induction qs arbitrary: Q Z)
  case (Cons q qs)
  have "seed to_int m IM q (mask_of (pixels m) Z, Q) =
      Inr (if T q then (mask_of (pixels m) (\<lambda>r. r = q \<or> Z r), Q @ [q]) else (mask_of (pixels m) Z, Q))"
    using isTargetValue_ok [OF assms(1), of q to_int] assms(2) Cons.prems [of q] pixels_ok [OF assms(1)]
    by (simp add: seed_def put_mask)
  then show ?case using Cons by (auto intro!: mask_of_cong)
qed simp

lemma marks_ok:
  assumes "well_sized m IM" "k \<le> pixels m"
  shows "foldR (mark_all to_int m IM) [0..<k] (False, mask_of (pixels m) (\<lambda>_. False)) =
     Inr (\<exists>p < k. target_pixel to_int m IM p, mask_of (pixels m) (\<lambda>p. p < k \<and> target_pixel to_int m IM p))"
  using assms(2)
proof (induction k)
  case (Suc k)
  then show ?case
    using isTargetValue_ok [OF assms(1), of k to_int] pixels_ok [OF assms(1)]
    by (auto simp: foldR_append mark_all_def mult.commute put_mask less_Suc_eq intro!: mask_of_cong)
qed simp

lemma identify_ok:
  assumes "well_sized m IM" "length MSK = pixels m"
  shows "identifyNodataPixels to_int m IM MSK =
    Some (Inr (\<exists>p. without_data to_int m IM p, mask_of (pixels m) (without_data to_int m IM)))"
proof -
  let ?T = "target_pixel to_int m IM" and ?n = "pixels m"
  have blank: "write_at 0 (replicate ?n 255) MSK = Inr (mask_of ?n (\<lambda>_. False))"
    using assms(2) by (simp add: write_at_def mask_of_def map_replicate_trivial list_eq_iff_nth_eq)
  show ?thesis
  proof (cases "nm_touchEdges m")
    case False
    have n: "(\<exists>p < ?n. ?T p) \<longleftrightarrow> (\<exists>p. without_data to_int m IM p)"
      "mask_of ?n (\<lambda>p. p < ?n \<and> ?T p) = mask_of ?n (without_data to_int m IM)"
      using False by (auto simp: without_data_def pixels_ok [OF assms(1)] intro!: mask_of_cong)
    show ?thesis
      unfolding identifyNodataPixels_def blank sum.case
      using marks_ok [OF assms(1), of ?n to_int] False by (simp only: n order_refl if_False)
  next
    case True
    let ?J = "joined_to_edge (width_of m) (height_of m) ?T"
    have e: "q < ?n" if "q \<in> set (edges m)" for q
      using that edges_ok [OF assms(1)] pixels_ok [OF assms(1)] by (simp add: at_edge_def)
    define Z where "Z = (\<lambda>r. r \<in> set (edges m) \<and> ?T r)"
    have s: "foldR (seed to_int m IM) (edges m) (mask_of ?n (\<lambda>_. False), []) = Inr (mask_of ?n Z, filter ?T (edges m))"
      using seeds_ok [OF assms(1) refl, of "edges m" to_int "\<lambda>_. False" "[]", OF e] by (simp add: Z_def)
    have z: "Z p \<longleftrightarrow> at_edge (width_of m) (height_of m) p \<and> ?T p" for p
      using edges_ok [OF assms(1)] by (auto simp: Z_def)
    have sp: "spreading to_int m IM Z (filter ?T (edges m))"
      unfolding spreading_def using z by (auto simp: Z_def intro: joined_to_edge.edge)
    have none: "filter ?T (edges m) = [] \<longleftrightarrow> (\<nexists>p. ?J p)"
    proof
      assume "filter ?T (edges m) = []"
      then have "\<not> (at_edge (width_of m) (height_of m) p \<and> ?T p)" for p
        using edges_ok [OF assms(1)] by (auto simp: filter_empty_conv)
      then show "\<nexists>p. ?J p" using joined_starts by blast
    next
      assume "\<nexists>p. ?J p"
      then show "filter ?T (edges m) = []"
        using edges_ok [OF assms(1)] by (auto simp: filter_empty_conv intro: joined_to_edge.edge)
    qed
    show ?thesis
    proof (cases "filter ?T (edges m) = []")
      case True
      then have "\<not> Z p" for p by (auto simp: Z_def filter_empty_conv)
      then show ?thesis using True none \<open>nm_touchEdges m\<close>
        by (auto simp: identifyNodataPixels_def blank s without_data_def intro!: mask_of_cong)
    next
      case False
      then show ?thesis using none \<open>nm_touchEdges m\<close> spread_ok [OF assms(1) sp]
        by (auto simp: identifyNodataPixels_def blank s without_data_def intro!: mask_of_cong)
    qed
  qed
qed
text \<open>
  C5: the mask of an image. \<open>identifyNodataPixels\<close> returns for every image of at least one pixel and
  less than 2^32 samples, touches only its image and its mask, and marks exactly the pixels without
  data: those of the target colour, or, when the edges count, those that are joined to an edge by
  a chain of neighbours of the target colour. It tells whether there are any.
\<close>

theorem nodata_mask:
  assumes "well_sized m IM" "length MSK = pixels m"
  shows "\<exists>contain MSK'. identifyNodataPixels to_int m IM MSK = Some (Inr (contain, MSK'))
    \<and> (contain \<longleftrightarrow> (\<exists>p. without_data to_int m IM p)) \<and> length MSK' = width_of m * height_of m
    \<and> (\<forall>p < width_of m * height_of m. MSK' ! p = (if without_data to_int m IM p then 0 else 255))"
  using identify_ok [OF assms] by (simp add: pixels_ok [OF assms(1)])

text \<open>A frame, a hole of the same colour behind it, and a pixel of the frame joined to the edge.\<close>

definition sample_manager :: "u8 TiffNodataManager" where
  "sample_manager = \<lparr>nm_width = 3, nm_height = 3, nm_samplesperpixel = 1, nm_maxChannels = 1, nm_targetValue = [255],
     nm_tolerance = 1, nm_touchEdges = True, nm_dataValue = [253], nm_nodataValue = [0],
     nm_removeTargetValue = True, nm_newNodataValue = True\<rparr>"

theorem nodata_mask_witness:
  "identifyNodataPixels uint sample_manager [255, 254, 7, 7, 255, 7, 7, 7, 7] (replicate 9 1)
    = Some (Inr (True, [0, 0, 255, 255, 0, 255, 255, 255, 255]))"
proof -
  let ?im = "[255, 254, 7, 7, 255, 7, 7, 7, 7] :: u8 list"
  have f: "width_of sample_manager = 3" "height_of sample_manager = 3" "pixels sample_manager = 9"
    by (simp_all add: sample_manager_def width_of_def height_of_def pixels_def)
  have w: "well_sized sample_manager ?im" "length (replicate 9 (1 :: u8)) = pixels sample_manager"
    by (simp_all add: well_sized_def f) (simp_all add: sample_manager_def)
  have t: "target_pixel uint sample_manager ?im p \<longleftrightarrow> p \<in> {0, 1, 4}" if "p < 9" for p
  proof -
    have "p \<in> {0, 1, 2, 3, 4, 5, 6, 7, 8}" using that by auto
    then show ?thesis
      by (auto simp: target_pixel_def in_target_def sample_manager_def pixel_def)
  qed
  have j: "joined_to_edge 3 3 (target_pixel uint sample_manager ?im) p \<longleftrightarrow> p \<in> {0, 1, 4}" for p
  proof
    assume "joined_to_edge 3 3 (target_pixel uint sample_manager ?im) p"
    then show "p \<in> {0, 1, 4}" using joined_target [of 3 3 "target_pixel uint sample_manager ?im" p] t [of p] by simp
  next
    assume "p \<in> {0, 1, 4}"
    moreover have "joined_to_edge 3 3 (target_pixel uint sample_manager ?im) 0"
      "joined_to_edge 3 3 (target_pixel uint sample_manager ?im) 1"
      using t [of 0] t [of 1] by (auto intro!: joined_to_edge.edge simp: at_edge_def)
    moreover from this(2) have "joined_to_edge 3 3 (target_pixel uint sample_manager ?im) 4"
      using t [of 4] by (intro joined_to_edge.next_to [of 3 3 _ 1 4]) (simp_all add: adjacent_def)
    ultimately show "joined_to_edge 3 3 (target_pixel uint sample_manager ?im) p" by auto
  qed
  have n: "without_data uint sample_manager ?im p \<longleftrightarrow> p \<in> {0, 1, 4}" for p
    using j [of p] by (simp add: without_data_def f) (simp add: sample_manager_def)
  obtain contain MSK' where i: "identifyNodataPixels uint sample_manager ?im (replicate 9 1) = Some (Inr (contain, MSK'))"
    "contain \<longleftrightarrow> (\<exists>p. without_data uint sample_manager ?im p)" "length MSK' = 9"
    "\<forall>p < 9. MSK' ! p = (if without_data uint sample_manager ?im p then 0 else 255)"
    using nodata_mask [OF w, of uint] unfolding f by auto
  have "MSK' = map (\<lambda>p. if p \<in> {0, 1, 4} then 0 else 255) [0..<9]"
    using i(3,4) n by (intro nth_equalityI) auto
  then have "MSK' = [0, 0, 255, 255, 0, 255, 255, 255, 255]" by (simp add: upt_conv_Cons)
  moreover have contain using i(2) n by auto
  ultimately show ?thesis using i(1) by simp
qed

subsection \<open>What becomes of an image\<close>

definition new_pixel :: "('t \<Rightarrow> int) \<Rightarrow> 't TiffNodataManager \<Rightarrow> 't list \<Rightarrow> nat \<Rightarrow> 't list" where
  "new_pixel to_int m IM p =
     (if without_data to_int m IM p then
        if nm_newNodataValue m then take (nm_samplesperpixel m) (nm_nodataValue m) else pixel (nm_samplesperpixel m) p IM
      else if nm_removeTargetValue m \<and> target_pixel to_int m IM p then take (nm_samplesperpixel m) (nm_dataValue m)
      else pixel (nm_samplesperpixel m) p IM)"

lemma new_pixels_ok:
  assumes "well_sized m IM" "nm_samplesperpixel m \<le> length (nm_dataValue m)"
    "nm_samplesperpixel m \<le> length (nm_nodataValue m)" "nm_removeTargetValue m \<longrightarrow> nm_touchEdges m"
    "width_of m * height_of m < 2 ^ 31" "width_of m * height_of m * nm_samplesperpixel m < 2 ^ 31"
  shows "\<exists>IM'. new_pixels to_int m IM (mask_of (pixels m) (without_data to_int m IM)) = Inr IM'
    \<and> length IM' = length IM \<and> (\<forall>p < width_of m * height_of m. pixel (nm_samplesperpixel m) p IM' = new_pixel to_int m IM p)"
proof -
  let ?k = "nm_samplesperpixel m" and ?n = "width_of m * height_of m" and ?N = "without_data to_int m IM"
  let ?M = "mask_of (pixels m) ?N"
  have n: "pixels m = ?n" by (rule pixels_ok [OF assms(1)])
  have l: "length IM = ?k * ?n" using assms(1) by (simp add: well_sized_def)
  have p: "int_mul (int p) (int ?k) = Inr (int (?k * p))" "int_range (int p + 1) = Inr (int p + 1)" if "p < ?n" for p
  proof -
    have "p * ?k \<le> ?n * ?k" using that by simp
    then have "p * ?k < 2 ^ 31" using assms(6) by linarith
    then show "int_mul (int p) (int ?k) = Inr (int (?k * p))" using int_mul_nat [of p ?k] by (simp add: mult.commute)
    show "int_range (int p + 1) = Inr (int p + 1)" using int_range_next [of p] that assms(5) by simp
  qed
  define c1 where "c1 = (\<lambda>p. nm_removeTargetValue m \<and> \<not> ?N p \<and> target_pixel to_int m IM p)"
  have "\<exists>IM1. (if nm_removeTargetValue m then changeDataValue to_int m IM ?M else Inr IM) = Inr IM1 \<and> length IM1 = ?k * ?n
      \<and> (\<forall>p < ?n. pixel ?k p IM1 = (if c1 p then take ?k (nm_dataValue m) else pixel ?k p IM))"
  proof (cases "nm_removeTargetValue m")
    case True
    have "\<exists>IM1. foldR (change_data to_int m ?M) [0..<?n] IM = Inr IM1 \<and> length IM1 = ?k * ?n
      \<and> (\<forall>p < ?n. pixel ?k p IM1 = (if c1 p then take ?k (nm_dataValue m) else pixel ?k p IM))"
    proof (rule pixel_loop [OF l, where c = c1 and v = "take ?k (nm_dataValue m)"])
      fix p s assume pn: "p < ?n" and s: "length s = ?k * ?n" "pixel ?k p s = pixel ?k p IM"
      have "well_sized m s" using assms(1) s(1) by (simp add: well_sized_def)
      from isTargetValue_ok [OF this pn, of to_int] s(2)
      have "isTargetValue to_int m s (?k * p) = Inr (target_pixel to_int m IM p)"
        by (simp add: target_pixel_def)
      then show "change_data to_int m ?M p s = (if c1 p then write_at (?k * p) (take ?k (nm_dataValue m)) s else Inr s)"
        using pn assms(2) True pixel_room [OF pn, of ?k] s(1)
        by (simp add: change_data_def buffer_simps n c1_def p del: of_nat_mult)
    qed (use assms(2) in simp)
    then show ?thesis using True by (simp add: changeDataValue_def n)
  qed (use l in \<open>simp add: c1_def\<close>)
  then obtain IM1 where 1: "(if nm_removeTargetValue m then changeDataValue to_int m IM ?M else Inr IM) = Inr IM1"
    "length IM1 = ?k * ?n" "\<forall>p < ?n. pixel ?k p IM1 = (if c1 p then take ?k (nm_dataValue m) else pixel ?k p IM)"
    by blast
  define c2 where "c2 = (\<lambda>p. nm_newNodataValue m \<and> ?N p)"
  have "\<exists>IM2. (if nm_newNodataValue m then changeNodataValue m IM1 ?M else Inr IM1) = Inr IM2 \<and> length IM2 = ?k * ?n
      \<and> (\<forall>p < ?n. pixel ?k p IM2 = (if c2 p then take ?k (nm_nodataValue m) else pixel ?k p IM1))"
  proof (cases "nm_newNodataValue m")
    case True
    have "\<exists>IM2. foldR (change_nodata m ?M) [0..<?n] IM1 = Inr IM2 \<and> length IM2 = ?k * ?n
      \<and> (\<forall>p < ?n. pixel ?k p IM2 = (if c2 p then take ?k (nm_nodataValue m) else pixel ?k p IM1))"
    proof (rule pixel_loop [OF 1(2), where c = c2 and v = "take ?k (nm_nodataValue m)"])
      fix q s assume q: "q < ?n" and s: "length s = ?k * ?n" "pixel ?k q s = pixel ?k q IM1"
      show "change_nodata m ?M q s = (if c2 q then write_at (?k * q) (take ?k (nm_nodataValue m)) s else Inr s)"
        using q assms(3) True pixel_room [OF q, of ?k] s(1)
        by (simp add: change_nodata_def buffer_simps n c2_def p del: of_nat_mult)
    qed (use assms(3) in simp)
    then show ?thesis using True by (simp add: changeNodataValue_def n)
  qed (use 1(2) in \<open>simp add: c2_def\<close>)
  then obtain IM2 where 2: "(if nm_newNodataValue m then changeNodataValue m IM1 ?M else Inr IM1) = Inr IM2"
    "length IM2 = ?k * ?n" "\<forall>p < ?n. pixel ?k p IM2 = (if c2 p then take ?k (nm_nodataValue m) else pixel ?k p IM1)"
    by blast
  have "new_pixels to_int m IM ?M = Inr IM2" using 1(1) 2(1) by (simp add: new_pixels_def)
  then show ?thesis using 2(2,3) 1(3) l by (auto simp: new_pixel_def c1_def c2_def)
qed

subsection \<open>Loading and treating an image\<close>

text \<open>An image whose lines have its width, and whose samples can be counted by an \<open>int\<close>.\<close>

definition fits :: "'t SourceImage \<Rightarrow> bool" where
  "fits src \<longleftrightarrow> 0 < unat (si_width src) \<and> 0 < unat (si_height src) \<and> 0 < si_channels src
     \<and> unat (si_width src) * unat (si_height src) * si_channels src < 2 ^ 31
     \<and> (\<forall>h < unat (si_height src). length (si_line src h) = unat (si_width src) * si_channels src)"

definition image_of :: "'t SourceImage \<Rightarrow> 't list" where
  "image_of src = concat (map (si_line src) [0..<unat (si_height src)])"

lemma unat_mult3_small:
  assumes "unat (a :: u32) * unat b * c < 2 ^ 32" "0 < unat a * unat b"
  shows "unat (a * b * of_nat c) = unat a * unat b * c"
proof -
  have c: "c < 2 ^ 32" using assms le_less_trans [OF _ assms(1), of c] by simp
  have "unat a * unat b < 2 ^ 32 \<or> c = 0" using le_less_trans [OF _ assms(1), of "unat a * unat b"] by (cases c) auto
  then show ?thesis
    using c assms(1) unat_mult_small [of a b] unat_mult_small [of "a * b" "of_nat c"]
    by (auto simp: unat_of_nat take_bit_nat_eq_self)
qed

lemma fits_bounds:
  assumes "fits src"
  shows "unat (si_width src) * unat (si_height src) * si_channels src < 2 ^ 31" "unat (si_width src) * unat (si_height src) < 2 ^ 31"
    "unat (si_height src) < 2 ^ 31"
proof -
  show b: "unat (si_width src) * unat (si_height src) * si_channels src < 2 ^ 31" using assms by (simp add: fits_def)
  have "unat (si_width src) * unat (si_height src) \<le> unat (si_width src) * unat (si_height src) * si_channels src"
    using assms by (simp add: fits_def)
  then show a: "unat (si_width src) * unat (si_height src) < 2 ^ 31" using b by linarith
  have "unat (si_height src) \<le> unat (si_width src) * unat (si_height src)" using assms by (simp add: fits_def)
  then show "unat (si_height src) < 2 ^ 31" using a by linarith
qed

lemma load_image_ok:
  assumes "fits src"
  shows "load_image src = Inr (image_of src)"
    and "length (image_of src) = unat (si_width src) * unat (si_height src) * si_channels src"
proof -
  let ?w = "unat (si_width src)" and ?h = "unat (si_height src)" and ?k = "si_channels src"
  have f: "0 < ?w" "0 < ?h" "0 < ?k" "?w * ?h * ?k < 2 ^ 32" "\<And>i. i < ?h \<Longrightarrow> length (si_line src i) = ?w * ?k" "?h < 2 ^ 31"
    using assms fits_bounds(3) [OF assms] by (simp_all add: fits_def)
  have ll: "length (concat (map (si_line src) [0..<i])) = i * (?w * ?k)" if "i \<le> ?h" for i
    using that f(5) by (induction i) auto
  then show len: "length (image_of src) = ?w * ?h * ?k" by (simp add: image_of_def)
  have size: "unat (si_width src * si_height src * of_nat ?k) = ?h * (?w * ?k)"
    using unat_mult3_small [OF f(4)] f(1,2) by simp
  have place: "unat (si_width src * of_nat ?k * of_nat i) = i * (?w * ?k)" if "i < ?h" for i
  proof -
    have "?w * ?k * i \<le> ?w * ?k * ?h" using that by simp
    also have "\<dots> < 2 ^ 32" using f(4) by (simp only: ac_simps)
    finally have b: "?w * ?k * i < 2 ^ 32" .
    have kb: "?k < 2 ^ 32" "i < 2 ^ 32"
      using le_less_trans [OF _ f(4), of ?k] f(1,2) less_trans [OF that unsigned_less [of "si_height src"]] by simp_all
    show ?thesis
    proof (cases i)
      case (Suc j)
      have "unat (si_width src) * unat (of_nat ?k :: u32) * i < 2 ^ 32" "0 < unat (si_width src) * unat (of_nat ?k :: u32)"
        using b f(1,3) kb(1) by (simp_all add: unat_of_nat take_bit_nat_eq_self)
      from unat_mult3_small [OF this] kb(1) show ?thesis by (simp add: unat_of_nat take_bit_nat_eq_self)
    qed simp
  qed
  let ?part = "\<lambda>i. map Some (concat (map (si_line src) [0..<i])) @ replicate ((?h - i) * (?w * ?k)) None"
  have "\<exists>s. foldR (load_line src) [0..<?h] (replicate (?h * (?w * ?k)) None) = Inr s \<and> s = ?part ?h"
  proof (rule foldR_upt [where I = "\<lambda>i s. s = ?part i"])
    fix i s assume i: "i < ?h" and s: "s = ?part i"
    obtain d where d: "?h - i = Suc d" "?h - Suc i = d" using i by (cases "?h - i") auto
    have room: "i * (?w * ?k) + ?w * ?k \<le> i * (?w * ?k) + (?h - i) * (?w * ?k)" using d by simp
    have "write_at (unat (si_width src * of_nat ?k * of_nat i)) (map Some (si_line src i)) s = Inr (?part (Suc i))"
      using room f(5) [OF i] ll [of i] i d by (simp add: place [OF i] s write_at_def)
    moreover have "int_range (int i + 1) = Inr (int i + 1)"
      using int_range_next [of i] i f(6) by simp
    ultimately have "load_line src i s = Inr (?part (Suc i))" by (simp add: load_line_def)
    then show "\<exists>s'. load_line src i s = Inr s' \<and> s' = ?part (Suc i)" by blast
  qed simp
  then show "load_image src = Inr (image_of src)"
    by (auto simp: load_image_def size samples_def image_of_def)
qed

text \<open>The manager for an image, and the colours it was made with.\<close>

definition for_image :: "'t SourceImage \<Rightarrow> 't TiffNodataManager \<Rightarrow> 't TiffNodataManager" where
  "for_image src m = m\<lparr>nm_width := si_width src, nm_height := si_height src, nm_samplesperpixel := si_channels src\<rparr>"

text \<open>Pixel \<open>x\<close> of line \<open>y\<close> of an image.\<close>

lemma image_pixel:
  assumes "fits src" "y < unat (si_height src)" "x < unat (si_width src)"
  shows "pixel (si_channels src) (y * unat (si_width src) + x) (image_of src) = pixel (si_channels src) x (si_line src y)"
proof -
  let ?w = "unat (si_width src)" and ?h = "unat (si_height src)" and ?k = "si_channels src"
  have l: "length (si_line src i) = ?w * ?k" if "i < ?h" for i using assms(1) that by (simp add: fits_def)
  have "[0..<?h] = [0..<y] @ y # [Suc y..<?h]"
    using assms(2) by (metis upt_add_eq_append upt_conv_Cons le_add_diff_inverse less_imp_le zero_le)
  then have i: "image_of src = concat (map (si_line src) [0..<y]) @ si_line src y @ concat (map (si_line src) [Suc y..<?h])"
    by (simp add: image_of_def)
  have "length (concat (map (si_line src) [0..<j])) = j * (?w * ?k)" if "j \<le> ?h" for j
    using that l by (induction j) auto
  then have d: "length (concat (map (si_line src) [0..<y])) = ?k * (y * ?w)" using assms(2) by (simp add: ac_simps)
  have "?k * x + ?k \<le> length (si_line src y)" using pixel_room [OF assms(3), of ?k] l [OF assms(2)] by (simp add: mult.commute)
  then show ?thesis using d by (simp add: pixel_def i add_mult_distrib2)
qed

text \<open>
  C37: what \<open>treatNodata\<close> does to an image of fewer than 2^31 samples (of at least three, if debug messages
  are on) that can be read and written: it returns with success
  and with an image of the same size in which the pixels without data have the new
  no-data colour, other pixels of the target colour the new data colour where one was given, and
  all others are as they were; the mask is written exactly when it was asked for and some pixel is
  without data, and says for each pixel whether it is.
\<close>

theorem nodata_treated:
  assumes "TiffNodataManager_new sample_of channels tv touch dv nv tol = Inr m0"
    "length tv = channels" "length dv = channels" "length nv = channels" "tv \<noteq> nv"
    "fits src" "si_channels src \<le> channels" "\<And>n. length (memory n) = n"
    "debug \<longrightarrow> 3 \<le> unat (si_width src) * unat (si_height src) * si_channels src"
    "m = for_image src m0" "N = without_data to_int m (image_of src)" "k = si_channels src" "w = unat (si_width src)"
  shows "\<exists>IM' MSK. treatNodata debug to_int (Some src) True True memory outputMask m0 = Some (Inr (True,
      \<lparr>wr_image = Some (si_width src, si_height src, k, IM'),
       wr_mask = (if outputMask \<and> (\<exists>p. N p) then Some (si_width src, si_height src, MSK) else None)\<rparr>))
    \<and> (\<forall>y < unat (si_height src). \<forall>x < w.
        MSK ! (y * w + x) = (if N (y * w + x) then 0 else 255)
        \<and> pixel k (y * w + x) IM' =
           (if N (y * w + x) then map sample_of (take k nv)
            else if touch \<and> tv \<noteq> dv \<and> in_target to_int m (pixel k x (si_line src y)) then map sample_of (take k dv)
            else pixel k x (si_line src y)))"
proof -
  let ?h = "unat (si_height src)" and ?IM = "image_of src"
  have m0: "m0 = \<lparr>nm_width = 0, nm_height = 0, nm_samplesperpixel = 0, nm_maxChannels = channels,
      nm_targetValue = map sample_of tv, nm_tolerance = tol, nm_touchEdges = touch,
      nm_dataValue = map sample_of dv, nm_nodataValue = map sample_of nv,
      nm_removeTargetValue = (touch \<and> tv \<noteq> dv), nm_newNodataValue = True\<rparr>"
    using assms(1-5) by (simp add: TiffNodataManager_new_def read_at_def)
  have m: "width_of m = w" "height_of m = ?h" "nm_samplesperpixel m = k" "nm_removeTargetValue m = (touch \<and> tv \<noteq> dv)"
    "nm_newNodataValue m" "nm_dataValue m = map sample_of dv" "nm_nodataValue m = map sample_of nv"
    "nm_touchEdges m = touch" "nm_targetValue m = map sample_of tv" "nm_width m = si_width src" "nm_height m = si_height src"
    by (simp_all add: assms(10,12,13) for_image_def m0 width_of_def height_of_def)
  have f: "0 < w" "0 < ?h" "0 < k" "w * ?h * k < 2 ^ 31" using assms(6,12,13) by (simp_all add: fits_def)
  have f5: "w * ?h < 2 ^ 31" using le_less_trans [OF _ f(4), of "w * ?h"] f(3) by simp
  then have "w * ?h < 2 ^ 32" by simp
  then have ws: "well_sized m ?IM"
    using f load_image_ok(2) [OF assms(6)] assms(2,7,12,13) by (simp add: well_sized_def m ac_simps)
  obtain IM' where new: "new_pixels to_int m ?IM (mask_of (pixels m) N) = Inr IM'"
      "\<forall>p < w * ?h. pixel k p IM' = new_pixel to_int m ?IM p"
    using new_pixels_ok [OF ws, of to_int] f(4) f5 assms(3,4,7,11,12) by (auto simp: m)
  have id: "identifyNodataPixels to_int m ?IM (memory (pixels m)) = Some (Inr (\<exists>p. N p, mask_of (pixels m) N))"
    using identify_ok [OF ws, of "memory (pixels m)" to_int] assms(8,11) by simp
  have treat: "treatNodata debug to_int (Some src) True True memory outputMask m0 = Some (Inr (True,
      \<lparr>wr_image = Some (si_width src, si_height src, k, IM'),
       wr_mask = (if outputMask \<and> (\<exists>p. N p) then Some (si_width src, si_height src, mask_of (pixels m) N) else None)\<rparr>))"
  proof -
    have c: "nm_newNodataValue m0" "nm_maxChannels m = channels" "m0\<lparr>nm_width := si_width src, nm_height := si_height src,
        nm_samplesperpixel := si_channels src\<rparr> = m"
      by (simp_all add: m0 assms(10) for_image_def)
    have "length ?IM = w * ?h * k" using load_image_ok(2) [OF assms(6)] assms(12,13) by simp
    then have "bindR (if debug then read_at 0 3 ?IM else Inr []) (\<lambda>_. Inr ?IM) = (Inr ?IM :: fault + 'a list)"
      using assms(9,12,13) by (simp add: read_at_def)
    then have loaded: "bindR (load_image src) (\<lambda>IM. bindR (if debug then read_at 0 3 IM else Inr []) (\<lambda>_. Inr IM)) = Inr ?IM"
      by (simp add: load_image_ok(1) [OF assms(6)])
    show ?thesis
      unfolding treatNodata_def Let_def option.case c loaded sum.case id prod.case new(1) bindR.simps
      using m assms(7,12) c(1) by simp
  qed
  have pix: "pixel k (y * w + x) IM' =
        (if N (y * w + x) then map sample_of (take k nv)
         else if touch \<and> tv \<noteq> dv \<and> in_target to_int m (pixel k x (si_line src y)) then map sample_of (take k dv)
         else pixel k x (si_line src y)) \<and> mask_of (pixels m) N ! (y * w + x) = (if N (y * w + x) then 0 else 255)"
    if "y < ?h" "x < w" for x y
  proof -
    have "y * w + x < w * ?h"
      using that mult_le_mono1 [of "Suc y" ?h w] by (simp add: mult.commute)
    moreover have "pixel k (y * w + x) ?IM = pixel k x (si_line src y)"
      using image_pixel [OF assms(6) that(1), of x] that(2) assms(12,13) by simp
    ultimately show ?thesis
      using new(2) m assms(11) by (simp add: new_pixel_def target_pixel_def pixels_ok [OF ws] take_map)
  qed
  show ?thesis
    by (rule exI [of _ IM'], rule exI [of _ "mask_of (pixels m) N"]) (use treat pix in simp)
qed

definition sample_source :: "u8 SourceImage" where
  "sample_source = \<lparr>si_width = 2, si_height = 1, si_channels = 1, si_line = (\<lambda>_. [255, 7])\<rparr>"

theorem nodata_treated_witness:
  "\<exists>m0 IM' MSK. TiffNodataManager_new word_of_int 1 [255] True [254] [0] 0 = Inr m0
    \<and> treatNodata False uint (Some sample_source) True True (\<lambda>n. replicate n 9) True m0 = Some (Inr (True,
        \<lparr>wr_image = Some (2, 1, 1, IM'), wr_mask = Some (2, 1, MSK)\<rparr>))
    \<and> MSK ! 0 = 0 \<and> MSK ! 1 = 255 \<and> pixel 1 0 IM' = [0] \<and> pixel 1 1 IM' = [7]"
proof -
  obtain m0 where m0: "TiffNodataManager_new (word_of_int :: int \<Rightarrow> u8) 1 [255] True [254] [0] 0 = Inr m0"
    by (simp add: TiffNodataManager_new_def read_at_def)
  let ?m = "for_image sample_source m0" and ?N = "without_data uint (for_image sample_source m0) (image_of sample_source)"
  have s: "unat (si_width sample_source) = 2" "unat (si_height sample_source) = 1" "si_channels sample_source = 1"
    "\<And>h. si_line sample_source h = [255, 7]" "si_width sample_source = 2" "si_height sample_source = 1"
    by (simp_all add: sample_source_def)
  have im: "image_of sample_source = [255, 7]" by (simp add: image_of_def s)
  have fit: "fits sample_source" by (simp add: fits_def s)
  have m: "width_of ?m = 2" "height_of ?m = 1" "nm_touchEdges ?m" "nm_samplesperpixel ?m = 1"
    "nm_targetValue ?m = [255]" "nm_tolerance ?m = 0"
    using m0 by (auto simp: TiffNodataManager_new_def read_at_def for_image_def width_of_def height_of_def s)
  have t: "target_pixel uint ?m (image_of sample_source) 0" "\<not> target_pixel uint ?m (image_of sample_source) 1"
    by (simp_all add: target_pixel_def in_target_def m im pixel_def)
  have n: "?N 0" "\<not> ?N 1"
    using joined_to_edge.edge [of 2 1 0 "target_pixel uint ?m (image_of sample_source)"] t
      joined_target [of 2 1 "target_pixel uint ?m (image_of sample_source)" 1]
    by (auto simp: without_data_def m at_edge_def)
  have mem: "\<And>n. length (replicate n (9 :: u8)) = n" by simp
  have "\<exists>IM' MSK. treatNodata False uint (Some sample_source) True True (\<lambda>n. replicate n 9) True m0 = Some (Inr (True,
        \<lparr>wr_image = Some (si_width sample_source, si_height sample_source, 1, IM'),
         wr_mask = (if True \<and> (\<exists>p. ?N p) then Some (si_width sample_source, si_height sample_source, MSK) else None)\<rparr>))
    \<and> (\<forall>y < unat (si_height sample_source). \<forall>x < 2.
        MSK ! (y * 2 + x) = (if ?N (y * 2 + x) then 0 else 255)
        \<and> pixel 1 (y * 2 + x) IM' =
           (if ?N (y * 2 + x) then map word_of_int (take 1 [0])
            else if True \<and> [255 :: int] \<noteq> [254] \<and> in_target uint ?m (pixel 1 x (si_line sample_source y)) then map word_of_int (take 1 [254])
            else pixel 1 x (si_line sample_source y)))"
    by (rule nodata_treated [OF m0 _ _ _ _ fit _ mem _ refl refl]) (simp_all add: s)
  then obtain IM' MSK where r: "treatNodata False uint (Some sample_source) True True (\<lambda>n. replicate n 9) True m0 = Some (Inr (True,
        \<lparr>wr_image = Some (si_width sample_source, si_height sample_source, 1, IM'),
         wr_mask = (if True \<and> (\<exists>p. ?N p) then Some (si_width sample_source, si_height sample_source, MSK) else None)\<rparr>))"
    and p: "\<forall>y < unat (si_height sample_source). \<forall>x < 2.
        MSK ! (y * 2 + x) = (if ?N (y * 2 + x) then 0 else 255)
        \<and> pixel 1 (y * 2 + x) IM' =
           (if ?N (y * 2 + x) then map word_of_int (take 1 [0])
            else if True \<and> [255 :: int] \<noteq> [254] \<and> in_target uint ?m (pixel 1 x (si_line sample_source y)) then map word_of_int (take 1 [254])
            else pixel 1 x (si_line sample_source y))"
    by blast
  have "\<not> in_target uint ?m [7]" by (simp add: in_target_def m)
  have "\<not> in_target uint ?m [7]" by (simp add: in_target_def m)
  then have "MSK ! 0 = 0" "MSK ! 1 = 255" "pixel 1 0 IM' = [0]" "pixel 1 1 IM' = [7]"
    using p [rule_format, of 0 0] p [rule_format, of 0 1] n by (simp_all add: s pixel_def)
  then show ?thesis using m0 r n(1) unfolding s(5,6) by auto
qed

end
