(* ===== verification/WorkCache.thy ===== *)
theory WorkCache
  imports SlabRoundtrip FileImages Nodata
begin

text \<open>
  rok4generation/tools/work2cache and cache2work: a work image becomes a slab of the pyramid, and a slab a
  TIFF image again. The parts they put together are those of the library: the factories, the treatment
  of white pixels, the slabs with their tiles, the writing of TIFF files. The programs are taken as built
  with the object storages (\<open>BUILD_OBJECT\<close>).
\<close>

subsection \<open>The arguments of work2cache\<close>

record w2c_options =
  wo_input :: "string option"
  wo_output :: "string option"
  wo_tileWidth :: int
  wo_tileHeight :: int
  wo_compression :: eCompression
  wo_samplesperpixel :: nat
  wo_bitspersample :: nat
  wo_sampleformat :: eSampleFormat
  wo_crop :: bool
  wo_debug :: bool
  wo_pool :: "string option"
  wo_bucket :: "string option"
  wo_container :: "string option"

definition w2c_start :: w2c_options where
  "w2c_start =
     \<lparr>wo_input = None, wo_output = None, wo_tileWidth = 256, wo_tileHeight = 256, wo_compression = Compression_NONE,
      wo_samplesperpixel = 0, wo_bitspersample = 0, wo_sampleformat = SampleFormat_UNKNOWN, wo_crop = False,
      wo_debug = False, wo_pool = None, wo_bucket = None, wo_container = None\<rparr>"

text \<open>A program stops with a status, or goes on with its options.\<close>

datatype 'a arguments = Stops int | Options 'a

definition w2c_compression :: "string \<Rightarrow> eCompression option" where
  "w2c_compression v =
     (if begins ''none'' v \<or> begins ''raw'' v then Some Compression_NONE
      else if begins ''png'' v then Some Compression_PNG
      else if begins ''jpg'' v then Some Compression_JPEG
      else if begins ''lzw'' v then Some Compression_LZW
      else if begins ''zip'' v then Some Compression_DEFLATE
      else if begins ''pkb'' v then Some Compression_PACKBITS
      else None)"

definition w2c_format :: "char \<Rightarrow> string \<Rightarrow> w2c_options \<Rightarrow> w2c_options option" where
  "w2c_format x v opts =
     (if x = CHR ''s'' then
        (if begins ''1'' v then Some (opts\<lparr>wo_samplesperpixel := 1\<rparr>)
         else if begins ''2'' v then Some (opts\<lparr>wo_samplesperpixel := 2\<rparr>)
         else if begins ''3'' v then Some (opts\<lparr>wo_samplesperpixel := 3\<rparr>)
         else if begins ''4'' v then Some (opts\<lparr>wo_samplesperpixel := 4\<rparr>) else None)
      else if x = CHR ''b'' then
        (if begins ''8'' v then Some (opts\<lparr>wo_bitspersample := 8\<rparr>)
         else if begins ''32'' v then Some (opts\<lparr>wo_bitspersample := 32\<rparr>) else None)
      else
        (if begins ''uint'' v then Some (opts\<lparr>wo_sampleformat := SampleFormat_UINT\<rparr>)
         else if begins ''float'' v then Some (opts\<lparr>wo_sampleformat := SampleFormat_FLOAT\<rparr>) else None))"

text \<open>Whole words before letters; the guard \<open>i++ >= argc\<close> of -s, -b and -a lets a null pointer pass.\<close>

fun w2c_args :: "string list \<Rightarrow> w2c_options \<Rightarrow> fault + w2c_options arguments" where
  "w2c_args [] opts = Inr (Options opts)"
| "w2c_args (a # args) opts =
     (if a = ''-crop'' then w2c_args args (opts\<lparr>wo_crop := True\<rparr>)
      else if a = ''-pool'' then
        (case args of [] \<Rightarrow> Inr (Stops (-1)) | v # args \<Rightarrow> w2c_args args (opts\<lparr>wo_pool := Some v\<rparr>))
      else if a = ''-bucket'' then
        (case args of [] \<Rightarrow> Inr (Stops (-1)) | v # args \<Rightarrow> w2c_args args (opts\<lparr>wo_bucket := Some v\<rparr>))
      else if a = ''-container'' then
        (case args of [] \<Rightarrow> Inr (Stops (-1)) | v # args \<Rightarrow> w2c_args args (opts\<lparr>wo_container := Some v\<rparr>))
      else if char_at 0 a = CHR ''-'' then
        (if char_at 1 a = CHR ''h'' then Inr (Stops 0)
         else if char_at 1 a = CHR ''d'' then w2c_args args (opts\<lparr>wo_debug := True\<rparr>)
         else if char_at 1 a = CHR ''c'' then
           (case args of
              [] \<Rightarrow> Inr (Stops (-1))
            | v # args \<Rightarrow>
                (case w2c_compression v of
                   None \<Rightarrow> Inr (Stops (-1))
                 | Some cm \<Rightarrow> w2c_args args (opts\<lparr>wo_compression := cm\<rparr>)))
         else if char_at 1 a = CHR ''t'' then
           (case args of
              v # args \<Rightarrow>
                (case args of
                   v' # args \<Rightarrow> w2c_args args (opts\<lparr>wo_tileWidth := atoi v, wo_tileHeight := atoi v'\<rparr>)
                 | [] \<Rightarrow> Inr (Stops (-1)))
            | [] \<Rightarrow> Inr (Stops (-1)))
         else if char_at 1 a \<in> set ''sba'' then
           (case args of
              [] \<Rightarrow> Inl NullPointer
            | v # args \<Rightarrow>
                (case w2c_format (char_at 1 a) v opts of
                   None \<Rightarrow> Inr (Stops (-1))
                 | Some opts \<Rightarrow> w2c_args args opts))
         else Inr (Stops (-1)))
      else if wo_input opts = None then w2c_args args (opts\<lparr>wo_input := Some a\<rparr>)
      else if wo_output opts = None then w2c_args args (opts\<lparr>wo_output := Some a\<rparr>)
      else Inr (Stops 2))"

subsection \<open>What the tools run in\<close>

text \<open>
  The drivers of image files, what is read of a file whose samples were written anew, storages and their
  connection (with the number of attempts, where it is set), the coders, floats, memory, and libtiff.
\<close>

record ('f, 'c, 'z) work_env =
  we_drivers :: "driver \<Rightarrow> string \<Rightarrow> 'f FileImage option"
  we_rewritten :: "'f FileImage \<Rightarrow> u8 list \<Rightarrow> 'f FileImage option"
  we_context :: "'c Context"
  we_connect :: "eContextType \<Rightarrow> string \<Rightarrow> nat option \<Rightarrow> 'c \<Rightarrow> (fault + bool) \<times> 'c"
  we_tags :: tiff_tags
  we_zlib :: "'z zlib"
  we_jpeg :: libjpeg
  we_cell :: "'f cell"
  we_float :: "nat \<Rightarrow> bytes"
  we_memory :: "nat \<Rightarrow> u8 list"
  we_bytes :: "nat \<Rightarrow> u8"
  we_written :: "string \<Rightarrow> bool"
  we_tiff :: tiff_h_read
  we_scan :: "nat \<Rightarrow> bool"

text \<open>The storage the options name: a Ceph pool first, then a bucket, then a container.\<close>

definition choose_context :: "string option \<Rightarrow> string option \<Rightarrow> string option \<Rightarrow> eContextType \<times> string \<times> nat option" where
  "choose_context pool bucket container =
     (case pool of Some p \<Rightarrow> (CEPHCONTEXT, p, Some (setAttempts 10)) | None \<Rightarrow>
     (case bucket of Some b \<Rightarrow> (S3CONTEXT, b, None) | None \<Rightarrow>
     (case container of Some n \<Rightarrow> (SWIFTCONTEXT, n, None) | None \<Rightarrow> (FILECONTEXT, '''', None))))"

definition open_context ::
    "('f, 'c, 'z) work_env \<Rightarrow> string option \<Rightarrow> string option \<Rightarrow> string option \<Rightarrow> 'c \<Rightarrow> (fault + bool) \<times> 'c" where
  "open_context E pool bucket container c =
     (case choose_context pool bucket container of (t, tray, tries) \<Rightarrow> we_connect E t tray tries c)"

subsection \<open>work2cache\<close>

definition whiteColour :: "int list" where "whiteColour = [255, 255, 255, 255]"
definition fastWhite :: "int list" where "fastWhite = [254, 254, 254, 255]"

text \<open>An image for the treatment of its white pixels, and the files when they were treated.\<close>

definition nodata_source :: "'f FileImage \<Rightarrow> u8 SourceImage" where
  "nodata_source im =
     \<lparr>si_width = word_of_nat (fi_width im), si_height = word_of_nat (fi_height im), si_channels = fi_getChannels im,
      si_line = (\<lambda>n. case fi_u8 im (fi_converter im) n of None \<Rightarrow> [] | Some l \<Rightarrow> l)\<rparr>"

definition crop_white ::
    "('f, 'c, 'z) work_env \<Rightarrow> bool \<Rightarrow> string \<Rightarrow> (fault + (driver \<Rightarrow> string \<Rightarrow> 'f FileImage option) option) option" where
  "crop_white E debug input =
     (case createImageToRead (we_drivers E) input of
        None \<Rightarrow> Some (Inl NullPointer)
      | Some im \<Rightarrow>
          if fi_getBitsPerSample im = 8 \<and> fi_getSampleFormat im = SampleFormat_UINT then
            (case TiffNodataManager_new word_of_int (fi_getChannels im) whiteColour True fastWhite whiteColour 0 of
               Inl e \<Rightarrow> Some (Inl e)
             | Inr m \<Rightarrow>
                 let can_write = (createImageToWrite (we_written E) input (fi_width im) (fi_height im) (fi_getChannels im)
                                    (fi_getSampleFormat im) (fi_getBitsPerSample im) = Inr True)
                 in (case treatNodata debug uint (Some (nodata_source im)) can_write False (we_memory E) False m of
                       None \<Rightarrow> None
                     | Some (Inl e) \<Rightarrow> Some (Inl e)
                     | Some (Inr (False, _)) \<Rightarrow> Some (Inr None)
                     | Some (Inr (True, w)) \<Rightarrow>
                         Some (Inr (Some
                           (case wr_image w of
                              None \<Rightarrow> we_drivers E
                            | Some (_, _, _, IM) \<Rightarrow>
                                (\<lambda>d name. if name = input then we_rewritten E im IM else we_drivers E d name))))))
          else Some (Inr (Some (we_drivers E))))"

text \<open>\<open>getline\<close> of the source for the samples of the slab, as bytes.\<close>

definition work_line :: "'f cell \<Rightarrow> 'f FileImage \<Rightarrow> nat \<Rightarrow> eSampleFormat \<Rightarrow> nat \<Rightarrow> bytes option" where
  "work_line F im bps sf n =
     (if bps = 8 \<and> sf = SampleFormat_UINT then fi_u8 im (fi_converter im) n
      else if bps = 16 \<and> sf = SampleFormat_UINT then map_option (\<lambda>l. concat (map put16 l)) (fi_u16 im (fi_converter im) n)
      else map_option (cell_bytes F) (fi_float im (fi_converter im) n))"

text \<open>The image to read, with a converter if the format is given, and the format of the slab.\<close>

definition w2c_source ::
    "(driver \<Rightarrow> string \<Rightarrow> 'f FileImage option) \<Rightarrow> w2c_options \<Rightarrow> string
     \<Rightarrow> ('f FileImage \<times> nat \<times> nat \<times> eSampleFormat \<times> ePhotometric) option" where
  "w2c_source drivers opts input =
     (case createImageToRead drivers input of
        None \<Rightarrow> None
      | Some im \<Rightarrow>
          if wo_sampleformat opts \<noteq> SampleFormat_UNKNOWN \<and> wo_bitspersample opts \<noteq> 0 \<and> wo_samplesperpixel opts \<noteq> 0 then
            (case fi_addConverter im (wo_sampleformat opts) (wo_bitspersample opts) (wo_samplesperpixel opts) of
               (False, _) \<Rightarrow> None
             | (True, im) \<Rightarrow>
                 Some (im, wo_samplesperpixel opts, wo_bitspersample opts, wo_sampleformat opts,
                   if wo_samplesperpixel opts = 1 \<or> wo_samplesperpixel opts = 2 then Photometric_GRAY else Photometric_RGB))
          else Some (im, fi_getChannels im, fi_getBitsPerSample im, fi_getSampleFormat im, fi_photometric im))"

text \<open>
  The slab. A tile size is not checked to be positive: 0 is a division by zero, and a negative one that
  divides the image gives buffers of negative size.
\<close>

definition w2c_write ::
    "('f, 'c, 'z) work_env \<Rightarrow> w2c_options \<Rightarrow> string \<Rightarrow> bool \<Rightarrow> 'f FileImage \<times> nat \<times> nat \<times> eSampleFormat \<times> ePhotometric
     \<Rightarrow> 'c \<Rightarrow> (fault + int) \<times> 'c" where
  "w2c_write E opts output crop src c =
     (case src of (im, spp, bps, sf, ph) \<Rightarrow>
        (case createRok4ImageToWrite True output (fi_width im) (fi_height im) spp sf bps ph (wo_compression opts)
                (nat \<bar>wo_tileWidth opts\<bar>) (nat \<bar>wo_tileHeight opts\<bar>) of
           Inl e \<Rightarrow> (Inl e, c)
         | Inr None \<Rightarrow> (Inr (-1), c)
         | Inr (Some slab) \<Rightarrow>
             if wo_tileWidth opts < 0 \<or> wo_tileHeight opts < 0 then (Inl NegativeSize, c)
             else
               (case writeImage (we_tags E) (we_zlib E) (we_jpeg E) (we_context E) (slab\<lparr>esType := fi_esType im\<rparr>)
                       (work_line (we_cell E) im bps sf) crop c of
                  (Inl e, _, c) \<Rightarrow> (Inl e, c)
                | (Inr ok, _, c) \<Rightarrow> (Inr (if ok then 0 else -1), c))))"

definition w2c_run :: "('f, 'c, 'z) work_env \<Rightarrow> w2c_options \<Rightarrow> string \<Rightarrow> string \<Rightarrow> 'c \<Rightarrow> (fault + int) option \<times> 'c" where
  "w2c_run E opts input output c =
     (let crop = (wo_crop opts \<and> wo_compression opts = Compression_JPEG)
      in case (if crop then crop_white E (wo_debug opts) input else Some (Inr (Some (we_drivers E)))) of
           None \<Rightarrow> (None, c)
         | Some (Inl e) \<Rightarrow> (Some (Inl e), c)
         | Some (Inr None) \<Rightarrow> (Some (Inr (-1)), c)
         | Some (Inr (Some drivers)) \<Rightarrow>
             (case w2c_source drivers opts input of
                None \<Rightarrow> (Some (Inr (-1)), c)
              | Some src \<Rightarrow> (case w2c_write E opts output crop src c of (r, c) \<Rightarrow> (Some r, c))))"

definition work2cache :: "('f, 'c, 'z) work_env \<Rightarrow> string list \<Rightarrow> 'c \<Rightarrow> (fault + int) option \<times> 'c" where
  "work2cache E args c =
     (case w2c_args args w2c_start of
        Inl e \<Rightarrow> (Some (Inl e), c)
      | Inr (Stops k) \<Rightarrow> (Some (Inr k), c)
      | Inr (Options opts) \<Rightarrow>
          (case (wo_input opts, wo_output opts) of
             (Some input, Some output) \<Rightarrow>
               (case open_context E (wo_pool opts) (wo_bucket opts) (wo_container opts) c of
                  (Inl e, c) \<Rightarrow> (Some (Inl e), c)
                | (Inr False, c) \<Rightarrow> (Some (Inr (-1)), c)
                | (Inr True, c) \<Rightarrow> w2c_run E opts input output c)
           | _ \<Rightarrow> (Some (Inr (-1)), c)))"

subsection \<open>cache2work\<close>

record c2w_options =
  co_input :: "string option"
  co_output :: "string option"
  co_compression :: eCompression
  co_debug :: bool
  co_pool :: "string option"
  co_bucket :: "string option"
  co_container :: "string option"

definition c2w_start :: c2w_options where
  "c2w_start =
     \<lparr>co_input = None, co_output = None, co_compression = Compression_NONE, co_debug = False, co_pool = None,
      co_bucket = None, co_container = None\<rparr>"

definition c2w_compression :: "string \<Rightarrow> eCompression option" where
  "c2w_compression v =
     (if begins ''none'' v \<or> begins ''raw'' v then Some Compression_NONE
      else if begins ''jpg'' v then Some Compression_JPEG
      else if begins ''lzw'' v then Some Compression_LZW
      else if begins ''zip'' v then Some Compression_DEFLATE
      else if begins ''pkb'' v then Some Compression_PACKBITS
      else None)"

fun c2w_args :: "string list \<Rightarrow> c2w_options \<Rightarrow> c2w_options arguments" where
  "c2w_args [] opts = Options opts"
| "c2w_args (a # args) opts =
     (if a = ''-pool'' then (case args of [] \<Rightarrow> Stops (-1) | v # args \<Rightarrow> c2w_args args (opts\<lparr>co_pool := Some v\<rparr>))
      else if a = ''-bucket'' then (case args of [] \<Rightarrow> Stops (-1) | v # args \<Rightarrow> c2w_args args (opts\<lparr>co_bucket := Some v\<rparr>))
      else if a = ''-container'' then
        (case args of [] \<Rightarrow> Stops (-1) | v # args \<Rightarrow> c2w_args args (opts\<lparr>co_container := Some v\<rparr>))
      else if char_at 0 a = CHR ''-'' then
        (if char_at 1 a = CHR ''h'' then Stops 0
         else if char_at 1 a = CHR ''d'' then c2w_args args (opts\<lparr>co_debug := True\<rparr>)
         else if char_at 1 a = CHR ''c'' then
           (case args of
              [] \<Rightarrow> Stops (-1)
            | v # args \<Rightarrow>
                (case c2w_compression v of
                   None \<Rightarrow> Stops (-1)
                 | Some cm \<Rightarrow> c2w_args args (opts\<lparr>co_compression := cm\<rparr>)))
         else Stops (-1))
      else if co_input opts = None then c2w_args args (opts\<lparr>co_input := Some a\<rparr>)
      else if co_output opts = None then c2w_args args (opts\<lparr>co_output := Some a\<rparr>)
      else Stops (-1))"

text \<open>
  \<open>LibtiffImage::writeImage\<close> from a slab: the lines are read through \<open>getline\<close> for the samples of the
  file, which are those of the slab. The buffer of a line is seen as bytes.
\<close>

definition slab_getline ::
    "('f, 'c, 'z) work_env \<Rightarrow> TiffOut \<Rightarrow> Rok4Image \<Rightarrow> nat \<Rightarrow> 'c \<Rightarrow> (fault + nat \<times> bytes) option \<times> Rok4Image \<times> 'c" where
  "slab_getline E out slab line c =
     (if to_bitspersample out = 8 \<and> to_sampleformat out = SampleFormat_UINT then
        getline_u8 (we_zlib E) (we_jpeg E) (we_context E) slab line c
      else if to_bitspersample out = 16 \<and> to_sampleformat out = SampleFormat_UINT then
        getline_u16 (we_zlib E) (we_jpeg E) (we_context E) slab line c
      else getline_float (we_float E) (we_zlib E) (we_jpeg E) (we_context E) slab line c)"

text \<open>A line that was read, put into the buffer and written.\<close>

definition write_row :: "(nat \<Rightarrow> bool) \<Rightarrow> nat \<Rightarrow> bytes \<Rightarrow> bytes \<Rightarrow> TiffOut \<Rightarrow> fault option + bytes \<times> TiffOut" where
  "write_row scan_ok line b buf out =
     bindR (guarded (Lines.write_at 0 b buf)) (\<lambda>buf.
       if scan_ok line then Inr (buf, out\<lparr>to_rows := (to_rows out)(line \<mapsto> buf)\<rparr>) else Inl None)"

fun copy_slab ::
    "('f, 'c, 'z) work_env \<Rightarrow> nat list \<Rightarrow> bytes \<Rightarrow> TiffOut \<Rightarrow> Rok4Image \<Rightarrow> 'c \<Rightarrow> (fault option + TiffOut) option \<times> 'c" where
  "copy_slab E [] buf out slab c = (Some (Inr out), c)"
| "copy_slab E (line # ls) buf out slab c =
     (case slab_getline E out slab line c of
        (None, slab, c) \<Rightarrow> (None, c)
      | (Some (Inl e), slab, c) \<Rightarrow> (Some (Inl (Some e)), c)
      | (Some (Inr (n, b)), slab, c) \<Rightarrow>
          if n = 0 then (Some (Inl None), c)
          else (case write_row (we_scan E) line b buf out of
                  Inl e \<Rightarrow> (Some (Inl e), c)
                | Inr (buf, out) \<Rightarrow> copy_slab E ls buf out slab c))"

definition c2w_write ::
    "('f, 'c, 'z) work_env \<Rightarrow> TiffOut \<Rightarrow> Rok4Image \<Rightarrow> 'c \<Rightarrow> (fault option + TiffOut) option \<times> 'c" where
  "c2w_write E out slab c =
     (if to_width out \<noteq> width slab \<or> to_height out \<noteq> height slab then (Some (Inl None), c)
      else copy_slab E [0..<to_height out]
             (map (we_bytes E) [0..<to_width out * to_channels out * (to_bitspersample out div 8)]) out slab c)"

text \<open>The status, and the file that was written.\<close>

definition cache2work :: "('f, 'c, 'z) work_env \<Rightarrow> string list \<Rightarrow> 'c \<Rightarrow> (fault + int \<times> TiffOut option) option \<times> 'c" where
  "cache2work E args c =
     (case c2w_args args c2w_start of
        Stops k \<Rightarrow> (Some (Inr (k, None)), c)
      | Options opts \<Rightarrow>
          (case (co_input opts, co_output opts) of
             (Some input, Some output) \<Rightarrow>
               (case open_context E (co_pool opts) (co_bucket opts) (co_container opts) c of
                  (Inl e, c) \<Rightarrow> (Some (Inl e), c)
                | (Inr False, c) \<Rightarrow> (Some (Inr (-1, None)), c)
                | (Inr True, c) \<Rightarrow>
                    (case createRok4ImageToRead (we_tags E) (\<lambda>w h. True) (we_context E) input c of
                       (Inl e, c) \<Rightarrow> (Some (Inl e), c)
                     | (Inr None, c) \<Rightarrow> (Some (Inr (1, None)), c)
                     | (Inr (Some slab), c) \<Rightarrow>
                         (case extension output of
                            None \<Rightarrow> (Some (Inl NullPointer), c)
                          | Some e \<Rightarrow>
                              if \<not> (begins ''tif'' e \<or> begins ''TIF'' e \<or> begins ''msk'' e \<or> begins ''MSK'' e)
                              then (Some (Inr (-1, None)), c)
                              else
                                (case createLibtiffImageToWrite (we_tiff E) (we_written E output) True (width slab) (height slab)
                                        (channels slab) (sampleformat slab) (bitspersample slab) (photometric slab)
                                        (co_compression opts) 16 of
                                   Inl e \<Rightarrow> (Some (Inl e), c)
                                 | Inr None \<Rightarrow> (Some (Inr (-1, None)), c)
                                 | Inr (Some out) \<Rightarrow>
                                     (case c2w_write E out slab c of
                                        (None, c) \<Rightarrow> (None, c)
                                      | (Some (Inl (Some e)), c) \<Rightarrow> (Some (Inl e), c)
                                      | (Some (Inl None), c) \<Rightarrow> (Some (Inr (-1, None)), c)
                                      | (Some (Inr out), c) \<Rightarrow> (Some (Inr (0, Some out)), c))))))
           | _ \<Rightarrow> (Some (Inr (-1, None)), c)))"

subsection \<open>Lines of a slab\<close>

text \<open>Reading leaves the format of a slab as it is.\<close>

definition same_format :: "Rok4Image \<Rightarrow> Rok4Image \<Rightarrow> bool" where
  "same_format im im' \<longleftrightarrow> bitspersample im' = bitspersample im \<and> sampleformat im' = sampleformat im"

lemma memorize_tile_format: "same_format im (snd (memorize_tile Z J enc first i im))"
  by (simp add: memorize_tile_def Let_def same_format_def split: prod.splits option.splits sum.splits)

lemma memorize_loop_format: "same_format im (snd (memorize_loop Z J enc first is im))"
proof (induction "is" arbitrary: im)
  case (Cons i "is")
  obtain r im1 where t: "memorize_tile Z J enc first i im = (r, im1)" by fastforce
  have "same_format im im1" using memorize_tile_format [of im Z J enc first i] t by simp
  then show ?case using Cons [of im1] t
    by (auto simp: same_format_def split: option.splits sum.splits bool.splits)
qed (simp add: same_format_def)

lemma memorize_loop_same:
  "memorize_loop Z J enc first is im = (r, im') \<Longrightarrow> bitspersample im' = bitspersample im \<and> sampleformat im' = sampleformat im"
  using memorize_loop_format [of im Z J enc first "is"] by (simp add: same_format_def)

lemma memorizeRawTiles_format: "memorizeRawTiles Z J C im y c = (r, im', c') \<Longrightarrow> same_format im im'"
  unfolding memorizeRawTiles_def same_format_def Let_def
  by (auto split: if_splits sum.splits prod.splits option.splits bool.splits dest: memorize_loop_same)

lemma getline_as_format: "getline_as k Z J C im l c = (r, im', c') \<Longrightarrow> same_format im im'"
  unfolding getline_as_def
  by (auto split: if_splits sum.splits prod.splits option.splits bool.splits dest: memorizeRawTiles_format simp: same_format_def)

text \<open>The lines of a slab in a file of its format.\<close>

definition file_format :: "nat \<Rightarrow> eSampleFormat \<Rightarrow> nat \<Rightarrow> bool" where
  "file_format bps sf k \<longleftrightarrow> (bps = 8 \<and> sf = SampleFormat_UINT \<and> k = 1 \<or> bps = 16 \<and> sf = SampleFormat_UINT \<and> k = 2
     \<or> bps = 32 \<and> sf = SampleFormat_FLOAT \<and> k = 4)"

lemma slab_getline_same:
  assumes "file_format (bitspersample slab) (sampleformat slab) k" "to_bitspersample out = bitspersample slab"
    "to_sampleformat out = sampleformat slab"
  shows "slab_getline E out slab l c = getline_as k (we_zlib E) (we_jpeg E) (we_context E) slab l c"
  using assms by (auto simp: slab_getline_def file_format_def getline_u8_def getline_u16_def getline_float_def)

lemma copy_slab_ok:
  assumes "getlines k (we_zlib E) (we_jpeg E) (we_context E) slab ls c = Some (map (\<lambda>l. (N, src l)) ls)" "0 < N"
    "file_format (bitspersample slab) (sampleformat slab) k" "to_bitspersample out = bitspersample slab"
    "to_sampleformat out = sampleformat slab" "\<forall>l \<in> set ls. length (src l) = length buf \<and> we_scan E l"
  shows "\<exists>c'. copy_slab E ls buf (with_rows out rows) slab c =
    (Some (Inr (with_rows out (\<lambda>n. if n \<in> set ls then Some (src n) else rows n))), c')"
  using assms
proof (induction ls arbitrary: buf slab c rows)
  case (Cons l ls)
  let ?out = "with_rows out rows"
  obtain ir c' where g: "getline_as k (we_zlib E) (we_jpeg E) (we_context E) slab l c = (Some (Inr (N, src l)), ir, c')"
    "getlines k (we_zlib E) (we_jpeg E) (we_context E) ir ls c' = Some (map (\<lambda>l. (N, src l)) ls)"
    using Cons.prems(1) by (auto split: prod.splits option.splits sum.splits)
  have f: "to_bitspersample ?out = bitspersample slab" "to_sampleformat ?out = sampleformat slab"
    using Cons.prems(4,5) by (simp_all add: with_rows_def)
  have ir: "bitspersample ir = bitspersample slab" "sampleformat ir = sampleformat slab"
    using getline_as_format [OF g(1)] by (simp_all add: same_format_def)
  have w: "write_row (we_scan E) l (src l) buf ?out = Inr (src l, with_rows out (rows(l \<mapsto> src l)))"
    using Cons.prems(6) by (simp add: write_row_def Lines.write_all guarded_def with_rows_def)
  obtain c'' where "copy_slab E ls (src l) (with_rows out (rows(l \<mapsto> src l))) ir c' =
    (Some (Inr (with_rows out (\<lambda>n. if n \<in> set ls then Some (src n) else (rows(l \<mapsto> src l)) n))), c'')"
  proof -
    have "file_format (bitspersample ir) (sampleformat ir) k" "to_bitspersample out = bitspersample ir"
      "to_sampleformat out = sampleformat ir" "\<forall>l' \<in> set ls. length (src l') = length (src l) \<and> we_scan E l'"
      using Cons.prems(3-6) ir by simp_all
    from Cons.IH [OF g(2) Cons.prems(2) this, of "rows(l \<mapsto> src l)"] show ?thesis using that by blast
  qed
  moreover have "(\<lambda>n. if n \<in> set ls then Some (src n) else (rows(l \<mapsto> src l)) n) =
      (\<lambda>n. if n \<in> set (l # ls) then Some (src n) else rows n)" by auto
  ultimately show ?case
    using g(1) w slab_getline_same [OF Cons.prems(3) f, of E l c] Cons.prems(2) by (simp del: fun_upd_apply)
qed simp

subsection \<open>From a work image to a slab and back\<close>

text \<open>A storage that can be connected, and keeps what it has.\<close>

definition connects ::
    "('f, 'c, 'z) work_env \<Rightarrow> ('c \<Rightarrow> string \<Rightarrow> bytes option) \<Rightarrow> (string \<Rightarrow> 'c \<Rightarrow> bool) \<Rightarrow> ('c \<Rightarrow> bool)
     \<Rightarrow> eContextType \<times> string \<times> nat option \<Rightarrow> bool" where
  "connects E stored can_open reliable s \<longleftrightarrow>
     (\<forall>c. reliable c \<longrightarrow> (\<exists>c'. we_connect E (fst s) (fst (snd s)) (snd (snd s)) c = (Inr True, c') \<and> reliable c'
        \<and> (\<forall>n. can_open n c \<longrightarrow> can_open n c') \<and> (\<forall>n b. stored c n = Some b \<longrightarrow> stored c' n = Some b)))"

lemma connects_open:
  assumes "connects E stored can_open reliable (choose_context p b t)" "reliable c"
  shows "\<exists>c'. open_context E p b t c = (Inr True, c') \<and> reliable c' \<and> (\<forall>n. can_open n c \<longrightarrow> can_open n c')
    \<and> (\<forall>n b. stored c n = Some b \<longrightarrow> stored c' n = Some b)"
  using assms by (auto simp: connects_def open_context_def split: prod.splits)

lemma createToWrite_extra:
  assumes "createRok4ImageToWrite True n w h ch sf bps ph cm tw th = Inr (Some im)"
  shows "\<exists>ph'. Rok4Image_new w h ch n sf bps ph' cm es tw th = Inr (im\<lparr>esType := es\<rparr>)"
proof -
  obtain ph' where "Rok4Image_new w h ch n sf bps ph' cm ALPHA_UNASSOC tw th = Inr im"
    using createToWrite_image [OF assms] .
  then show ?thesis by (auto simp: Rok4Image_new_def Let_def split: if_splits)
qed

text \<open>A slab is written by work2cache: the status is 0, and the slab is stored with its tiles.\<close>

lemma w2c_stores:
  assumes "storage (we_context E) pending stored can_open reliable" "reliable c" "can_open output c"
    "connects E stored can_open reliable (choose_context (wo_pool opts) (wo_bucket opts) (wo_container opts))"
    "w2c_args args w2c_start = Inr (Options opts)" "wo_input opts = Some input" "wo_output opts = Some output"
    "\<not> (wo_crop opts \<and> wo_compression opts = Compression_JPEG)"
    "w2c_source (we_drivers E) opts input = Some (im, ch, bps, sf, ph)"
    "0 \<le> wo_tileWidth opts" "0 \<le> wo_tileHeight opts"
    "createRok4ImageToWrite True output (fi_width im) (fi_height im) ch sf bps ph (wo_compression opts)
       (nat (wo_tileWidth opts)) (nat (wo_tileHeight opts)) = Inr (Some slab)"
    "slab_source (we_zlib E) (we_jpeg E) output (fi_width im) (fi_height im) ch sf bps ph' (wo_compression opts) (fi_esType im)
       (nat (wo_tileWidth opts)) (nat (wo_tileHeight opts)) False src enc (slab\<lparr>esType := fi_esType im\<rparr>)"
    "\<And>l. l < fi_height im \<Longrightarrow> work_line (we_cell E) im bps sf l = Some (src l)"
  shows "\<exists>c1 b. work2cache E args c = (Some (Inr 0), c1) \<and> reliable c1 \<and> stored c1 output = Some b
    \<and> slab_stored (we_tags E) (slab\<lparr>esType := fi_esType im\<rparr>)
        (all_tiles enc (fi_width im div nat (wo_tileWidth opts)) (fi_height im div nat (wo_tileHeight opts))) b"
proof -
  obtain c' where c': "open_context E (wo_pool opts) (wo_bucket opts) (wo_container opts) c = (Inr True, c')" "reliable c'"
    "can_open output c'" using connects_open [OF assms(4,2)] assms(3) by blast
  obtain im' c1 b where w: "writeImage (we_tags E) (we_zlib E) (we_jpeg E) (we_context E) (slab\<lparr>esType := fi_esType im\<rparr>)
      (work_line (we_cell E) im bps sf) False c' = (Inr True, im', c1)" "reliable c1" "stored c1 output = Some b"
    "slab_stored (we_tags E) (slab\<lparr>esType := fi_esType im\<rparr>)
        (all_tiles enc (fi_width im div nat (wo_tileWidth opts)) (fi_height im div nat (wo_tileHeight opts))) b"
    using slab_written [OF assms(1) c'(2,3) assms(13), of "work_line (we_cell E) im bps sf" "we_tags E"] assms(14) by blast
  have crop: "(wo_crop opts \<and> wo_compression opts = Compression_JPEG) = False" using assms(8) by simp
  have "w2c_write E opts output False (im, ch, bps, sf, ph) c' = (Inr 0, c1)"
    using assms(10-12) w(1) by (simp add: w2c_write_def)
  then have "w2c_run E opts input output c' = (Some (Inr 0), c1)"
    using assms(9) by (simp add: w2c_run_def Let_def crop)
  then have "work2cache E args c = (Some (Inr 0), c1)"
    using assms(5-7) c'(1) by (simp add: work2cache_def)
  then show ?thesis using w(2-4) by blast
qed

text \<open>A slab that is stored is written to a TIFF file by cache2work.\<close>

lemma new_slab_format:
  "Rok4Image_new w h ch n sf bps ph cm es tw th = Inr im \<Longrightarrow> bitspersample im = bps \<and> sampleformat im = sf \<and> height im = h"
  by (auto simp: Rok4Image_new_def Let_def split: if_splits)

lemma created_tiff:
  assumes "0 < w" "0 < h" "0 < ch" "canRead (int bps) sf" "w * 16 * (bps * ch div 8) < 2 ^ 31"
  shows "\<exists>out. createLibtiffImageToWrite T True True w h ch sf bps ph cm 16 = Inr (Some out)"
proof -
  have "bps div 8 \<noteq> 0" "bps = 8 * (bps div 8)" using canRead_bytes [OF assms(4)] by auto
  then have "0 < bps * ch div 8" using assms(3) mult_le_mono [of 8 bps 1 ch] by (simp add: div_greater_zero_iff)
  then have "w * 16 \<le> w * 16 * (bps * ch div 8)" by simp
  then have "w * 16 < 2 ^ 31" using assms(5) by linarith
  then have "int_mul (int w) (int 16) = Inr (int (w * 16))" by (rule int_mul_nat)
  moreover have "int_mul (int (w * 16)) (int (bps * ch div 8)) = Inr (int (w * 16 * (bps * ch div 8)))"
    by (rule int_mul_nat [OF assms(5)])
  moreover have "libtiff_canWrite bps sf" using assms(4) by (auto simp: canRead_def libtiff_canWrite_def)
  moreover have "uint (16 :: u16) = int 16" by simp
  ultimately show ?thesis using assms(1-3)
    by (simp add: createLibtiffImageToWrite_def Let_def del: of_nat_mult of_nat_numeral)
qed

lemma c2w_restores:
  assumes "storage (we_context E) pending stored can_open reliable" "reliable c1" "stored c1 n = Some b"
    "tiff_tags_ok (we_tags E)" "slab_stored (we_tags E) slab (all_tiles enc (w div tw) (h div th)) b"
    "slab_source (we_zlib E) (we_jpeg E) n w h ch sf bps ph cm es tw th crop src enc slab"
    "connects E stored can_open reliable (choose_context (co_pool opts) (co_bucket opts) (co_container opts))"
    "c2w_args args c2w_start = Options opts" "co_input opts = Some n" "co_output opts = Some output"
    "extension output = Some ''tif''" "we_written E output" "w * 16 * (bps * ch div 8) < 2 ^ 31" "\<forall>l < h. we_scan E l"
  shows "\<exists>c2 out. cache2work E args c1 = (Some (Inr (0, Some out)), c2) \<and> to_width out = w \<and> to_height out = h
    \<and> to_channels out = ch \<and> to_bitspersample out = bps \<and> to_sampleformat out = sf \<and> (\<forall>l < h. to_rows out l = Some (src l))"
proof -
  note a = assms(6) [unfolded slab_source_def]
  have new: "Rok4Image_new w h ch n sf bps ph cm es tw th = Inr slab" "canRead (int bps) sf" "w mod tw = 0" "h mod th = 0"
    and pos: "0 < w" "0 < h" "0 < ch" and src: "\<forall>l < h. length (src l) = w * ch * (bps div 8)" using a by blast+
  obtain c' where c': "open_context E (co_pool opts) (co_bucket opts) (co_container opts) c1 = (Inr True, c')" "reliable c'"
    "stored c' n = Some b" using connects_open [OF assms(7,2)] assms(3) by blast
  obtain ir c2 where ir: "createRok4ImageToRead (we_tags E) (\<lambda>w h. True) (we_context E) n c' = (Inr (Some ir), c2)"
    "Rok4Image_new w h ch n sf bps (photometric_read ph) (compression_read cm)
        (if ch = 4 \<or> ch = 2 then es else ExtraSample_UNKNOWN) tw th = Inr (ir\<lparr>tilesOffset := [], tilesByteCounts := []\<rparr>)"
    "getlines (bps div 8) (we_zlib E) (we_jpeg E) (we_context E) ir [0..<h] c2 = Some (map (\<lambda>l. (w * ch, src l)) [0..<h])"
    using slab_read [where consistent = "\<lambda>w h. True", OF assms(1) c'(2,3) assms(4-6)] by auto
  have f: "width ir = w" "height ir = h" "channels ir = ch" "bitspersample ir = bps" "sampleformat ir = sf"
    using Rok4Image_new_whole(2,3) [OF ir(2) new(2-4)] new_slab_format [OF ir(2)] by simp_all
  obtain out where out: "createLibtiffImageToWrite (we_tiff E) True True w h ch sf bps (photometric ir) (co_compression opts) 16
      = Inr (Some out)" using created_tiff [OF pos new(2) assms(13)] by blast
  note o = created_file [OF out]
  have fmt: "file_format (bitspersample ir) (sampleformat ir) (bps div 8)"
    using new(2) f by (auto simp: file_format_def canRead_def)
  let ?buf = "map (we_bytes E) [0..<w * ch * (bps div 8)]"
  have "\<forall>l \<in> set [0..<h]. length (src l) = length ?buf \<and> we_scan E l" using src assms(14) by simp
  from copy_slab_ok [OF ir(3) _ fmt _ _ this, of out "to_rows out"] pos o(4,5) f obtain c3 where
    "copy_slab E [0..<h] ?buf out ir c2 =
      (Some (Inr (with_rows out (\<lambda>n. if n \<in> set [0..<h] then Some (src n) else to_rows out n))), c3)" by auto
  then have "c2w_write E out ir c2 = (Some (Inr (with_rows out (\<lambda>n. if n \<in> set [0..<h] then Some (src n) else to_rows out n))), c3)"
    using o(1-3,5) f by (simp add: c2w_write_def)
  then have "cache2work E args c1 =
      (Some (Inr (0, Some (with_rows out (\<lambda>n. if n \<in> set [0..<h] then Some (src n) else to_rows out n)))), c3)"
    using assms(8-12) c'(1) ir(1) f out by (simp add: cache2work_def begins_def)
  moreover have "to_bitspersample (with_rows out r) = bps" "to_sampleformat (with_rows out r) = sf" for r
    using o(4,5) by (simp_all add: with_rows_def)
  ultimately show ?thesis using o(1-3) by auto
qed

text \<open>
  C3: an image that work2cache has put into a slab comes back from cache2work: with a format given or not,
  in any storage that keeps its promises, the rows of the TIFF file that is written are the lines of the
  image, for every compression whose decoder inverts it on the tiles.
\<close>

theorem work_image_restored:
  assumes "storage (we_context E) pending stored can_open reliable" "reliable c" "can_open target c"
    "tiff_tags_ok (we_tags E)"
    "connects E stored can_open reliable (choose_context (wo_pool opts) (wo_bucket opts) (wo_container opts))"
    "connects E stored can_open reliable (choose_context (co_pool opts') (co_bucket opts') (co_container opts'))"
    "w2c_args args w2c_start = Inr (Options opts)" "wo_input opts = Some input" "wo_output opts = Some target"
    "\<not> (wo_crop opts \<and> wo_compression opts = Compression_JPEG)"
    "w2c_source (we_drivers E) opts input = Some (im, ch, bps, sf, ph)"
    "0 \<le> wo_tileWidth opts" "0 \<le> wo_tileHeight opts"
    "createRok4ImageToWrite True target (fi_width im) (fi_height im) ch sf bps ph (wo_compression opts)
       (nat (wo_tileWidth opts)) (nat (wo_tileHeight opts)) = Inr (Some slab)"
    "slab_source (we_zlib E) (we_jpeg E) target (fi_width im) (fi_height im) ch sf bps ph' (wo_compression opts) (fi_esType im)
       (nat (wo_tileWidth opts)) (nat (wo_tileHeight opts)) False src enc (slab\<lparr>esType := fi_esType im\<rparr>)"
    "\<And>l. l < fi_height im \<Longrightarrow> work_line (we_cell E) im bps sf l = Some (src l)"
    "c2w_args args' c2w_start = Options opts'" "co_input opts' = Some target" "co_output opts' = Some result"
    "extension result = Some ''tif''" "we_written E result" "fi_width im * 16 * (bps * ch div 8) < 2 ^ 31"
    "\<forall>l < fi_height im. we_scan E l"
  shows "\<exists>c1 c2 out. work2cache E args c = (Some (Inr 0), c1) \<and> cache2work E args' c1 = (Some (Inr (0, Some out)), c2)
    \<and> to_width out = fi_width im \<and> to_height out = fi_height im \<and> to_channels out = ch \<and> to_bitspersample out = bps
    \<and> to_sampleformat out = sf \<and> (\<forall>l < fi_height im. to_rows out l = work_line (we_cell E) im bps sf l)"
proof -
  obtain c1 b where w: "work2cache E args c = (Some (Inr 0), c1)" "reliable c1" "stored c1 target = Some b"
    "slab_stored (we_tags E) (slab\<lparr>esType := fi_esType im\<rparr>)
        (all_tiles enc (fi_width im div nat (wo_tileWidth opts)) (fi_height im div nat (wo_tileHeight opts))) b"
    using w2c_stores [OF assms(1-3,5,7-16)] by blast
  from c2w_restores [OF assms(1) w(2,3) assms(4) w(4) assms(15,6,17-23)] w(1) assms(16) show ?thesis by auto
qed

text \<open>An image of two bytes, put into tiles of one byte in an empty directory.\<close>

definition work_file :: "u8 FileImage" where
  "work_file =
     \<lparr>fi_width = 2, fi_height = 1, fi_channels = 1, fi_sampleformat = SampleFormat_UINT, fi_bitspersample = 8,
      fi_photometric = Photometric_GRAY, fi_compression = Compression_NONE, fi_esType = ALPHA_UNASSOC,
      fi_converter = None, fi_mask = None, fi_u8 = (\<lambda>P n. Some [7, 9]), fi_u16 = (\<lambda>P n. None), fi_float = (\<lambda>P n. None)\<rparr>"

definition work_example :: "(u8, FileContext, bytes) work_env" where
  "work_example =
     \<lparr>we_drivers = (\<lambda>d name. if name = ''a.tif'' then Some work_file else None), we_rewritten = (\<lambda>im l. None),
      we_context = file_context, we_connect = (\<lambda>t tray tries c. no_fault (file_connection c)), we_tags = tags6,
      we_zlib = plain_zlib, we_jpeg = plain_jpeg, we_cell = cell_u8 (\<lambda>r g b. r), we_float = (\<lambda>n. []),
      we_memory = (\<lambda>n. []), we_bytes = (\<lambda>n. 0), we_written = (\<lambda>name. True), we_tiff = tiff6_read, we_scan = (\<lambda>l. True)\<rparr>"

definition work_options :: w2c_options where
  "work_options = w2c_start\<lparr>wo_input := Some ''a.tif'', wo_output := Some ''/s'', wo_tileWidth := 1, wo_tileHeight := 1\<rparr>"

definition back_options :: c2w_options where
  "back_options = c2w_start\<lparr>co_input := Some ''/s'', co_output := Some ''o.tif''\<rparr>"

lemma work_example_args:
  "w2c_args [''-c'', ''raw'', ''-t'', ''1'', ''1'', ''a.tif'', ''/s''] w2c_start = Inr (Options work_options)"
  "c2w_args [''/s'', ''o.tif''] c2w_start = Options back_options"
  by code_simp+

lemma work_example_source:
  "w2c_source (we_drivers work_example) work_options ''a.tif'' = Some (work_file, 1, 8, SampleFormat_UINT, Photometric_GRAY)"
  by (simp add: w2c_source_def createImageToRead_def extension_def read_driver_def begins_def work_example_def work_file_def
      work_options_def w2c_start_def fi_getChannels_def fi_getBitsPerSample_def fi_getSampleFormat_def)

lemma two_tiles_alpha: "two_tiles\<lparr>esType := ALPHA_UNASSOC\<rparr> = two_tiles"
  by (simp add: two_tiles_def Rok4Image_new_def Let_def)

theorem work_image_restored_witness:
  "\<exists>c1 c2 out. work2cache work_example [''-c'', ''raw'', ''-t'', ''1'', ''1'', ''a.tif'', ''/s''] empty_directory = (Some (Inr 0), c1)
     \<and> cache2work work_example [''/s'', ''o.tif''] c1 = (Some (Inr (0, Some out)), c2) \<and> to_rows out 0 = Some [7, 9]"
proof -
  have im: "createRok4ImageToWrite True ''/s'' (fi_width work_file) (fi_height work_file) 1 SampleFormat_UINT 8 Photometric_GRAY
      (wo_compression work_options) (nat (wo_tileWidth work_options)) (nat (wo_tileHeight work_options)) = Inr (Some two_tiles)"
    by (simp add: createRok4ImageToWrite_def canWrite_def two_tiles_def Rok4Image_new_def Let_def work_file_def
        work_options_def w2c_start_def)
  have c: "connects work_example (\<lambda>c n. files c (root_dir c @ n)) (\<lambda>n c. out_file c = None \<and> can_create c (root_dir c @ n)) fconnected t" for t
    by (simp add: connects_def work_example_def file_connection_def)
  have src: "slab_source plain_zlib plain_jpeg ''/s'' 2 1 1 SampleFormat_UINT 8 Photometric_GRAY Compression_NONE
      ALPHA_UNASSOC 1 1 False (\<lambda>l. [7, 9]) (\<lambda>x y. [[7, 9] ! x]) two_tiles"
    by (simp add: slab_source_def two_tiles_fields two_tiles_computed two_tiles_tile two_tiles_room row_lines_def
        decode_tile_def compression_read_def Let_def canRead_def)
      (simp add: two_tiles_def Rok4Image_new_def Let_def)
  have "\<exists>c1 c2 out. work2cache work_example [''-c'', ''raw'', ''-t'', ''1'', ''1'', ''a.tif'', ''/s''] empty_directory = (Some (Inr 0), c1)
     \<and> cache2work work_example [''/s'', ''o.tif''] c1 = (Some (Inr (0, Some out)), c2)
    \<and> to_width out = fi_width work_file \<and> to_height out = fi_height work_file \<and> to_channels out = 1 \<and> to_bitspersample out = 8
    \<and> to_sampleformat out = SampleFormat_UINT
    \<and> (\<forall>l < fi_height work_file. to_rows out l = work_line (we_cell work_example) work_file 8 SampleFormat_UINT l)"
  proof (rule work_image_restored [where enc = "\<lambda>x y. [[7, 9] ! x]" and src = "\<lambda>l. [7, 9]" and opts = work_options
        and opts' = back_options and result = "''o.tif''", OF _ _ _ _ c c work_example_args(1) _ _ _ _ _ _ im _ _ work_example_args(2)])
    show "storage (we_context work_example) file_pending (\<lambda>c n. files c (root_dir c @ n))
        (\<lambda>n c. out_file c = None \<and> can_create c (root_dir c @ n)) fconnected"
      using file_storage.storage_axioms by (simp add: work_example_def)
    show "tiff_tags_ok (we_tags work_example)" using tags6_ok by (simp add: work_example_def)
    show "w2c_source (we_drivers work_example) work_options ''a.tif'' = Some (work_file, 1, 8, SampleFormat_UINT, Photometric_GRAY)"
      by (rule work_example_source)
    show "slab_source (we_zlib work_example) (we_jpeg work_example) ''/s'' (fi_width work_file) (fi_height work_file) 1
        SampleFormat_UINT 8 Photometric_GRAY (wo_compression work_options) (fi_esType work_file) (nat (wo_tileWidth work_options))
        (nat (wo_tileHeight work_options)) False (\<lambda>l. [7, 9]) (\<lambda>x y. [[7, 9] ! x]) (two_tiles\<lparr>esType := fi_esType work_file\<rparr>)"
      using src by (simp add: work_example_def work_file_def work_options_def w2c_start_def two_tiles_alpha)
    show "extension ''o.tif'' = Some ''tif''" by code_simp
  qed (simp_all add: work_example_def work_file_def work_options_def back_options_def w2c_start_def c2w_start_def empty_directory_def
      work_line_def)
  then show ?thesis by (force simp: work_file_def work_line_def)
qed

end
