(* ===== verification/Spec2Isabelle.thy ===== *)
theory Spec2Isabelle
  imports PackBits LzwRoundtrip Format ContextBook Store LevelServe TiffEncoders PostRequests TileServer MergeTool WorkCache
begin

text \<open>
  ROK4: storage, coding and serving of image pyramids.

  ROK4 keeps images as pyramids of tiles. A pyramid has levels (rok4server/Level), a level is cut
  into slabs, a slab is one file or object with a header, an index and a rectangle of tiles
  (lib/libimage/Rok4Image), each tile compressed (lib/libpkb, lib/liblzw, zlib, libjpeg). Slabs
  live in a storage (lib/libimage/*Context: files, Ceph, S3, Swift). A server answers a request
  for a tile by reading the part of the slab that holds it (StoreDataSource), and a request for a
  window by putting the decoded tiles side by side (Level::getwindow, CompoundImage); a tool
  writes slabs line by line. This development models these parts of the C++ code from the bytes
  of the storage up to the pixels of a window, and the streams the answers are sent through.

  Conventions. A method is a function from the state of its object (a record of its members) to
  its result and the new state. \<open>fault + 'a\<close> is the result of code that may touch memory it must
  not: \<open>Inl\<close> names the fault, so that a proof of \<open>Inr\<close> is a proof of memory safety. A null pointer
  or an error code is an \<open>option\<close> inside it. A loop that the code does not bound is a
  \<open>partial_function (option)\<close>, whose \<open>None\<close> is a call that does not return; what returns is
  proved to be \<open>Some\<close>. Integers have the width of the code where it matters (\<open>u8\<close>, \<open>u16\<close>, \<open>u32\<close>,
  \<open>u64\<close>, signed 32 bit through \<open>to_int32\<close>); members declared \<open>int\<close> that hold sizes are naturals,
  with \<open>NegativeSize\<close> where the code would turn a negative one into a size. No fuel is used.
  Code outside the repository is a parameter with its documented behaviour as hypothesis:
  zlib and libjpeg (\<open>zlib\<close>, \<open>libjpeg\<close>), curl and HMAC (\<open>HttpStore\<close>), librados (\<open>ObjectStore\<close>),
  the constants of tiff.h (\<open>tiff_h\<close>), the conversion of an integer to a float. An allocation is
  taken to succeed, a log message has no effect.

  Theories, in the order of the code.

  \<^item> \<open>Prelude\<close>: faults, results, bounded buffers, decimal numbers, strings. \<open>Encoding\<close>: little
    endian integers in buffers. \<open>BitStrings\<close>: streams of bits for LZW.
  \<^item> \<open>PackBits\<close> (lib/libpkb): the run length encoder as its state machine (\<open>pkb_step\<close>) and the
    decoder; round trip, output at most twice the input, and the short inputs on which the
    decoder overruns its buffer.
  \<^item> \<open>LzwEncode\<close>, \<open>LzwDecode\<close>, \<open>LzwRoundtrip\<close> (lib/liblzw): encoder and decoder with dictionary,
    code width and bit buffer; both run in lockstep, so that an encoded buffer is decoded to the
    input exactly when the encoder does not stop one entry before a change of the width. A stream that
    is cut before its end marker is read behind its last byte.
  \<^item> \<open>Format\<close> (Format.cpp, Rok4Image.cpp): enumerations, tables of names, TIFF tag values. The
    locale \<open>named_enum\<close> states what a table and its \<open>fromString\<close> do, once for all tables.
  \<^item> \<open>Storage\<close> (Context.h): the interface of a storage as a record of operations, and the locale
    \<open>storage\<close> that says what its clients rely on. \<open>FileStore\<close> (FileContext.cpp), \<open>ObjectStore\<close>
    (CephPoolContext.cpp, and what S3 and Swift share with it), \<open>HttpStore\<close> (S3Context.cpp,
    SwiftContext.cpp): the providers, each an interpretation; those of objects also answer a read
    behind the end with the bytes that are there (\<open>short_storage\<close>), which links between slabs need. \<open>ContextBook\<close> (ContextBook.cpp): the
    connections of a process, one for each container.
  \<^item> \<open>Store\<close> (StoreDataSource.cpp): reading a tile of a slab by its place in the index, through
    symbolic links between objects.
  \<^item> \<open>Slab\<close>, \<open>SlabWrite\<close>, \<open>SlabStored\<close>, \<open>SlabRead\<close>, \<open>SlabRoundtrip\<close> (Rok4Image.cpp): the header, the
    cut of an image into tiles, \<open>writeImage\<close>, the layout of what it stored, \<open>getline\<close> with the row
    of tiles it keeps, and the round trip of an image. \<open>TileCodec\<close>, \<open>WhiteBlocks\<close>: compression of
    a tile. \<open>Decoders\<close> (Decoder.cpp): decompression.
  \<^item> \<open>Mosaic\<close> (Decoder.h, EmptyImage.h, CompoundImage.cpp): the images of a window; the locale
    \<open>image_rows\<close> is what a mosaic needs of its images. \<open>Level\<close>, \<open>LevelServe\<close> (Level.cpp): the place
    of a tile, its data, and \<open>getwindow\<close>; the locale \<open>level_tiles\<close> is what a window needs of the
    tiles of a level, interpreted on tiles read from files.
  \<^item> \<open>DataStreams\<close> (Data.h, Data.cpp): sources and streams of bytes. The locales \<open>readable\<close> and
    \<open>ended_stream\<close> say what a reader needs of a stream; \<open>BufferedDataSource\<close> is proved to collect
    every such stream and to end. \<open>Messages\<close> (ServiceException.cpp, Message.cpp): exceptions as
    answers. \<open>Responses\<close> (ResponseSender.cpp): the bytes an answer puts into the output.
  \<^item> \<open>TiffHeaders\<close> (TiffHeader.h, TiffHeaderDataSource.cpp): the constant headers, read back with a
    small reader of TIFF directories (\<open>tiff_says\<close>), and the source that puts one before a tile.
    \<open>TiffEncoders\<close> (TiffEncoder.cpp, Tiff*Encoder.h): an image as a TIFF file in a stream,
    interpreted as a \<open>readable\<close> stream always and as an \<open>ended_stream\<close> only once it is prepared.
  \<^item> \<open>Requests\<close>, \<open>PostRequests\<close> (rok4server/Request.cpp): from the bytes of a query, a path or a posted
    document to the service, the kind and the parameters of a request. Decoding works in place, so
    its proof is about memory first; the documents are seen through the calls of TinyXML, and a
    document that is posted is compared with the query that means the same.
  \<^item> \<open>TileRequests\<close> (UtilsWMTS.cpp, UtilsTMS.cpp, Level::getTile, Rok4Server::getTile): the parameters
    of a tile, what is accepted and what messages may hold, and the data source of the answer.
    \<open>Palettes\<close> (Palette.cpp, PaletteDataSource.cpp): the palette that is put into a PNG tile.
    \<open>TileServer\<close> (Rok4Server.cpp): which operation a request is given to, and the composition of all
    parts of the path of a tile: parameters, level, slab, header, response.
  \<^item> \<open>Lines\<close>: buffers of samples written in place, loops with an invariant, pixels of a buffer.
    \<open>Nodata\<close> (TiffNodataManager.h): the pixels of an image that hold no data, found from its edges by
    a queue; the search is proved to end and to mark exactly the pixels an inductive definition
    joins to an edge. \<open>MergeTiff\<close> (tools/merge4tiff): four images made to one of half the scale, with
    masks and a background; every pixel of the result is proved to be the average of a square.
    \<open>MergeTool\<close>: the same tool from its arguments on, with the checks of the images against each
    other; what the checks accept is what the merge needs. The driver of TIFF files is the one of \<open>TiffImage\<close>,
    the drivers of other formats are taken to give lines of the right size.
  \<^item> \<open>OneBit\<close> (OneBitConverter.h), \<open>TiffImage\<close> (LibtiffImage.cpp, FileImage.h, PixelConverter.h): TIFF
    files as sources. The tables of the conversion of bits are checked row by row; the image with its
    buffered strip refines the rows of the file, for lines read in any order (\<open>file_ok\<close>, \<open>cache_ok\<close>),
    and the files on which it does not are stated: padded rows of bits, errors, more than 65535 strips.
    A strip that libtiff fails to read may have been written in part. What the conversion to other channels
    means is defined apart from the code (\<open>as_channels\<close>).
    \<open>TiffWrite\<close>: files that are created and written, and read back as they were written.
    \<open>FileImages\<close> (FileImage.cpp): the factory and the images the tools see.
  \<^item> \<open>WorkCache\<close> (tools/work2cache, tools/cache2work): the way of an image from a file into a slab and
    back. One lemma says what the first tool leaves in the storage, one what the second makes of it, and
    the property joins them over every storage that keeps its promises (\<open>connects\<close>).

  Not modelled: what is made of doubles and floats (bounding boxes, reprojection, interpolation,
  styles, terrain), the wrappers of the other image libraries, the reading of
  configuration files, the operations of the server other than tiles, the FastCGI loop and
  the other command line tools. PROJECT.json lists each part with the reason.
\<close>

end
